(* ===== verification/Prelude.thy ===== *)
theory Prelude
  imports Main "HOL-Library.Word"
begin

text \<open>
  Shared vocabulary of the development: bytes and machine integers, little-endian
  encodings, byte-addressed memories and the lemmas the components use on them.

  Unsigned C integers are \<^typ>\<open>nat\<close> values with the wrap-around written out
  (\<open>u32\<close>, \<open>u32_sub\<close>, \<open>u16\<close>), so that linear arithmetic applies to
  addresses and lengths; bit fields and data bytes are \<open>w word\<close> values. The
  collection \<open>machine_simps\<close> holds the rules that remove a wrap-around once a bound
  is known.
\<close>

unbundle bit_operations_syntax

named_theorems machine_simps \<open>wrap-around arithmetic under a bound\<close>

type_synonym byte = "8 word"

type_synonym memory = "nat \<Rightarrow> byte"

section \<open>Unsigned and signed machine integers\<close>

text \<open>The value of a C expression of type uint32_t, uint16_t or uint8_t.\<close>

definition u32 :: "nat \<Rightarrow> nat" where
  "u32 x = x mod 2 ^ 32"

definition u16 :: "nat \<Rightarrow> nat" where
  "u16 x = x mod 2 ^ 16"

definition u8 :: "nat \<Rightarrow> nat" where
  "u8 x = x mod 2 ^ 8"

text \<open>Subtraction of uint32_t values, \<^term>\<open>a < 2 ^ 32 \<and> b < (2 :: nat) ^ 32\<close>.\<close>

definition u32_sub :: "nat \<Rightarrow> nat \<Rightarrow> nat" where
  "u32_sub a b = (a + (2 ^ 32 - b)) mod 2 ^ 32"

text \<open>The cast of a uint32_t to int32_t.\<close>

definition s32 :: "nat \<Rightarrow> int" where
  "s32 x = (if x < 2 ^ 31 then int x else int x - 2 ^ 32)"

section \<open>Bit fields\<close>

text \<open>\<open>SET_FIELD\<close> and \<open>FIELD2VAL\<close> of \<open>common_macros.h\<close> for a field of mask \<open>m\<close> at bit \<open>s\<close>.\<close>

definition set_field :: "32 word \<Rightarrow> 32 word \<Rightarrow> nat \<Rightarrow> nat \<Rightarrow> 32 word" where
  "set_field r m s v = (r AND NOT (push_bit s m)) OR push_bit s (of_nat v)"

definition field2val :: "32 word \<Rightarrow> 32 word \<Rightarrow> nat \<Rightarrow> 32 word" where
  "field2val r m s = drop_bit s r AND m"

section \<open>Little-endian encodings and byte memories\<close>

definition le16 :: "nat \<Rightarrow> byte list" where
  "le16 n = [word_of_nat n, word_of_nat (n div 256)]"

definition le32 :: "nat \<Rightarrow> byte list" where
  "le32 n = [word_of_nat n, word_of_nat (n div 256), word_of_nat (n div 65536),
             word_of_nat (n div 16777216)]"

text \<open>Reading an integer back from the bytes at offset \<open>i\<close> of a buffer.\<close>

definition rd16 :: "byte list \<Rightarrow> nat \<Rightarrow> nat" where
  "rd16 bs i = unat (bs ! i) + 256 * unat (bs ! (i + 1))"

definition rd32 :: "byte list \<Rightarrow> nat \<Rightarrow> nat" where
  "rd32 bs i = unat (bs ! i) + 256 * unat (bs ! (i + 1))
     + 65536 * unat (bs ! (i + 2)) + 16777216 * unat (bs ! (i + 3))"

text \<open>The \<open>n\<close> bytes of a memory from address \<open>a\<close> on.\<close>

definition mem_read :: "memory \<Rightarrow> nat \<Rightarrow> nat \<Rightarrow> byte list" where
  "mem_read m a n = map (\<lambda>i. m (a + i)) [0..<n]"

text \<open>A memory in which the bytes from \<open>a\<close> on are \<open>bs\<close>.\<close>

definition mem_put :: "nat \<Rightarrow> byte list \<Rightarrow> memory \<Rightarrow> memory" where
  "mem_put a bs m = (\<lambda>x. if a \<le> x \<and> x < a + length bs then bs ! (x - a) else m x)"

section \<open>Lemmas\<close>

lemma u32_id [simp, machine_simps]: "x < 2 ^ 32 \<Longrightarrow> u32 x = x"
  by (simp add: u32_def)

lemma u32_lt [simp]: "u32 x < 2 ^ 32"
  by (simp add: u32_def)

lemma u32_lt' [simp]: "u32 x < 4294967296"
  using u32_lt [of x] by simp

lemma u16_id [simp, machine_simps]: "x < 2 ^ 16 \<Longrightarrow> u16 x = x"
  by (simp add: u16_def)

lemma u16_lt [simp]: "u16 x < 65536"
  by (simp add: u16_def)

lemma u32_sub_ge [simp, machine_simps]: "b \<le> a \<Longrightarrow> a < 2 ^ 32 \<Longrightarrow> u32_sub a b = a - b"
proof -
  assume "b \<le> a" and a: "a < 2 ^ 32"
  then have "a + (2 ^ 32 - b) = (a - b) + 2 ^ 32" by simp
  then have "u32_sub a b = (a - b) mod 2 ^ 32" by (simp only: u32_sub_def mod_add_self2)
  also have "\<dots> = a - b" using a by (intro mod_less) linarith
  finally show ?thesis .
qed

lemma u32_sub_lt [simp]: "u32_sub a b < 4294967296"
  by (simp add: u32_sub_def)

lemma unat_byte_lt [simp]: "unat (b :: byte) < 256"
  using unsigned_less [of b, where 'a = nat] by simp

lemma length_le16 [simp]: "length (le16 n) = 2"
  by (simp add: le16_def)

lemma length_le32 [simp]: "length (le32 n) = 4"
  by (simp add: le32_def)

lemma unat_word8_of_nat: "unat (word_of_nat n :: byte) = n mod 256"
  by (simp add: unat_of_nat)

lemma rd16_le16 [simp]: "n < 65536 \<Longrightarrow> rd16 (le16 n @ bs) 0 = n"
  by (simp add: rd16_def le16_def unat_word8_of_nat)

lemma rd16_lt [simp]: "rd16 bs i < 65536"
proof -
  have "unat (bs ! i) < 256" "unat (bs ! (i + 1)) < 256" by simp_all
  then show ?thesis unfolding rd16_def by linarith
qed

lemma rd32_le32 [simp]: "n < 4294967296 \<Longrightarrow> rd32 (le32 n @ bs) 0 = n"
proof -
  assume n: "n < 4294967296"
  have "n = n mod 256 + 256 * (n div 256)" by simp
  moreover have "n div 256 = n div 256 mod 256 + 256 * (n div 65536)"
    using mult_div_mod_eq [of 256 "n div 256"] by (simp add: div_mult2_eq [symmetric])
  moreover have "n div 65536 = n div 65536 mod 256 + 256 * (n div 16777216)"
    using mult_div_mod_eq [of 256 "n div 65536"] by (simp add: div_mult2_eq [symmetric])
  moreover have "n div 16777216 mod 256 = n div 16777216" using n by simp
  ultimately have "n mod 256 + 256 * (n div 256 mod 256) + 65536 * (n div 65536 mod 256)
      + 16777216 * (n div 16777216 mod 256) = n"
    by linarith
  then show ?thesis using n by (simp add: rd32_def le32_def unat_word8_of_nat)
qed

lemma rd16_append: "length xs = k \<Longrightarrow> rd16 (xs @ ys) (k + i) = rd16 ys i"
  by (auto simp: rd16_def nth_append)

lemma length_mem_read [simp]: "length (mem_read m a n) = n"
  by (simp add: mem_read_def)

lemma mem_read_nth [simp]: "i < n \<Longrightarrow> mem_read m a n ! i = m (a + i)"
  by (simp add: mem_read_def)

lemma mem_read_0 [simp]: "mem_read m a 0 = []"
  by (simp add: mem_read_def)

lemma mem_read_add: "mem_read m a (n + k) = mem_read m a n @ mem_read m (a + n) k"
  by (rule nth_equalityI) (auto simp: nth_append)

lemma mem_read_cong: "(\<And>i. i < n \<Longrightarrow> m (a + i) = m' (a + i)) \<Longrightarrow> mem_read m a n = mem_read m' a n"
  by (simp add: mem_read_def)

lemma take_mem_read [simp]: "take k (mem_read m a n) = mem_read m a (min k n)"
  by (rule nth_equalityI) auto

lemma drop_mem_read [simp]: "drop k (mem_read m a n) = mem_read m (a + k) (n - k)"
  by (rule nth_equalityI) (auto simp: add.assoc)

lemma mem_read_eq_iff:
  "length bs = n \<Longrightarrow> mem_read m a n = bs \<longleftrightarrow> (\<forall>i < n. m (a + i) = bs ! i)"
  by (metis length_mem_read mem_read_nth nth_equalityI)

lemma mem_read_split:
  assumes "k \<le> length bs"
  shows "mem_read m a (length bs) = bs \<longleftrightarrow>
    mem_read m a k = take k bs \<and> mem_read m (a + k) (length bs - k) = drop k bs"
proof -
  have "mem_read m a (length bs) = mem_read m a k @ mem_read m (a + k) (length bs - k)"
    using assms mem_read_add [of m a k "length bs - k"] by simp
  then show ?thesis
    using assms append_eq_append_conv [of "mem_read m a k" "take k bs"
        "mem_read m (a + k) (length bs - k)" "drop k bs"]
    by simp
qed

lemma mem_read_put_same [simp]: "mem_read (mem_put a bs m) a (length bs) = bs"
  by (rule nth_equalityI) (simp_all add: mem_put_def)

lemma mem_read_mem_put: "n \<le> length bs \<Longrightarrow> mem_read (mem_put a bs m) a n = take n bs"
  by (rule nth_equalityI) (auto simp: mem_put_def)

lemma mem_put_append: "mem_put (a + length xs) ys (mem_put a xs m) = mem_put a (xs @ ys) m"
  by (auto simp: mem_put_def fun_eq_iff nth_append)

lemma mem_put_again: "length xs = length ys \<Longrightarrow> mem_put a xs (mem_put a ys m) = mem_put a xs m"
  by (auto simp: mem_put_def fun_eq_iff)

lemma mem_put_Nil [simp]: "mem_put a [] m = m"
  by (auto simp: mem_put_def fun_eq_iff)

end
