(* ===== verification/Spiflash.thy ===== *)
theory Spiflash
  imports Prelude
begin

text \<open>
  The SPI flash driver of \<open>src/core/spiflash.c\<close>, the only way the parameter store
  reaches the flash.

  The flash chip is a byte memory with the behaviour of a NOR device: a page-program
  command can only clear bits and stays inside one page (running past the page's end it
  continues at the page's start), a sector erase sets every bit. The driver's routines
  work on that memory through the address register of the SPI controller, which packs a
  24 bit address with an 8 bit length. Pointers into the caller's buffer are the rest of a
  byte list; \<open>None\<close> is the null pointer.
\<close>

section \<open>The flash chip\<close>

record sdk_flashchip =
  device_id :: nat
  chip_size :: nat
  block_size :: nat
  sector_size :: nat
  page_size :: nat
  status_mask :: nat

text \<open>The description of the chip that \<open>libmain/spi_flash.c\<close> starts with.\<close>

definition sdk_flashchip_init :: sdk_flashchip where
  "sdk_flashchip_init = \<lparr>device_id = 0x001640ef, chip_size = 4 * 1024 * 1024, block_size = 65536,
     sector_size = 4096, page_size = 256, status_mask = 0x0000ffff\<rparr>"

definition SPI_FLASH_SECTOR_SIZE :: nat where
  "SPI_FLASH_SECTOR_SIZE = 4096"

text \<open>The address that follows \<open>a\<close> while a page of \<open>psz\<close> bytes is programmed.\<close>

definition next_in_page :: "nat \<Rightarrow> nat \<Rightarrow> nat" where
  "next_in_page psz a = (if (a + 1) mod psz = 0 then a + 1 - psz else a + 1)"

fun nor_page_program :: "nat \<Rightarrow> nat \<Rightarrow> byte list \<Rightarrow> memory \<Rightarrow> memory" where
  "nor_page_program psz a [] m = m"
| "nor_page_program psz a (b # bs) m =
     nor_page_program psz (next_in_page psz a) bs (m(a := m a AND b))"

text \<open>Programming a run of bytes with no regard to pages: what a write should do.\<close>

fun nor_program :: "nat \<Rightarrow> byte list \<Rightarrow> memory \<Rightarrow> memory" where
  "nor_program a [] m = m"
| "nor_program a (b # bs) m = nor_program (Suc a) bs (m(a := m a AND b))"

definition nor_erase :: "nat \<Rightarrow> nat \<Rightarrow> memory \<Rightarrow> memory" where
  "nor_erase a n m = (\<lambda>x. if a \<le> x \<and> x < a + n then 255 else m x)"

section \<open>The driver\<close>

definition SPI_WRITE_MAX_SIZE :: nat where
  "SPI_WRITE_MAX_SIZE = 64"

definition SPI_READ_MAX_SIZE :: nat where
  "SPI_READ_MAX_SIZE = 60"

text \<open>
  \<open>SPI(0).ADDR = (addr & 0x00FFFFFF) | (size << 24)\<close>, and the controller's reading of
  the register.
\<close>

definition spi_addr_reg :: "nat \<Rightarrow> nat \<Rightarrow> nat" where
  "spi_addr_reg addr sz = (addr AND 0xFFFFFF) OR u32 (push_bit 24 sz)"

definition spi_reg_addr :: "nat \<Rightarrow> nat" where
  "spi_reg_addr r = take_bit 24 r"

definition spi_reg_len :: "nat \<Rightarrow> nat" where
  "spi_reg_len r = drop_bit 24 r"

text \<open>\<open>SPI_CMD_PP\<close>, \<open>SPI_CMD_READ\<close> and \<open>SPI_CMD_SE\<close> with the data registers \<open>W\<close>.\<close>

definition spi_cmd_pp :: "sdk_flashchip \<Rightarrow> nat \<Rightarrow> byte list \<Rightarrow> memory \<Rightarrow> memory" where
  "spi_cmd_pp chip r W m = nor_page_program (page_size chip) (spi_reg_addr r) (take (spi_reg_len r) W) m"

definition spi_cmd_read :: "nat \<Rightarrow> memory \<Rightarrow> byte list" where
  "spi_cmd_read r m = mem_read m (spi_reg_addr r) (spi_reg_len r)"

definition spi_cmd_se :: "nat \<Rightarrow> memory \<Rightarrow> memory" where
  "spi_cmd_se r m = nor_erase (spi_reg_addr r) SPI_FLASH_SECTOR_SIZE m"

definition spi_write_data :: "sdk_flashchip \<Rightarrow> nat \<Rightarrow> byte list \<Rightarrow> nat \<Rightarrow> memory \<Rightarrow> memory" where
  "spi_write_data chip addr buf sz m =
     (let words = (if sz mod 4 \<noteq> 0 then sz div 4 + 1 else sz div 4);
          W = take (words * 4) buf
      in spi_cmd_pp chip (spi_addr_reg addr sz) W m)"

text \<open>The loop of \<open>spi_write_page\<close>: blocks of 64 bytes, then what is left.\<close>

function spi_write_page_loop ::
  "sdk_flashchip \<Rightarrow> nat \<Rightarrow> byte list \<Rightarrow> nat \<Rightarrow> memory \<Rightarrow> memory" where
  "spi_write_page_loop chip dest_addr buf sz m =
     (if SPI_WRITE_MAX_SIZE \<le> sz then
        let m' = spi_write_data chip dest_addr buf SPI_WRITE_MAX_SIZE m;
            sz' = sz - SPI_WRITE_MAX_SIZE
        in if sz' < 1 then m'
           else spi_write_page_loop chip (u32 (dest_addr + SPI_WRITE_MAX_SIZE))
                  (drop SPI_WRITE_MAX_SIZE buf) sz' m'
      else spi_write_data chip dest_addr buf sz m)"
  by pat_completeness auto
termination
  by (relation "measure (\<lambda>(chip, a, buf, sz, m). sz)") (auto simp: SPI_WRITE_MAX_SIZE_def)

definition spi_write_page ::
  "sdk_flashchip \<Rightarrow> nat \<Rightarrow> byte list \<Rightarrow> nat \<Rightarrow> memory \<Rightarrow> bool \<times> memory" where
  "spi_write_page chip dest_addr buf sz m =
     (if page_size chip < u32 (sz + dest_addr mod page_size chip) then (False, m)
      else if sz < 1 then (True, m)
      else (True, spi_write_page_loop chip dest_addr buf sz m))"

text \<open>The loop of \<open>spi_write\<close> over \<open>pages_to_write\<close> full pages.\<close>

fun spi_write_pages ::
  "sdk_flashchip \<Rightarrow> nat \<Rightarrow> byte list \<Rightarrow> nat \<Rightarrow> nat \<Rightarrow> memory \<Rightarrow> bool \<times> nat \<times> memory" where
  "spi_write_pages chip addr dst offset 0 m = (True, offset, m)"
| "spi_write_pages chip addr dst offset (Suc i) m =
     (case spi_write_page chip (u32 (addr + offset)) (drop offset dst) (page_size chip) m of
        (False, m') \<Rightarrow> (False, offset, m')
      | (True, m') \<Rightarrow> spi_write_pages chip addr dst (u32 (offset + page_size chip)) i m')"

definition spi_write :: "sdk_flashchip \<Rightarrow> nat \<Rightarrow> byte list \<Rightarrow> nat \<Rightarrow> memory \<Rightarrow> bool \<times> memory" where
  "spi_write chip addr dst sz m =
     (if chip_size chip < u32 (addr + sz) then (False, m)
      else
        let write_bytes_to_page = page_size chip - addr mod page_size chip
        in if sz < write_bytes_to_page then
             (case spi_write_page chip addr dst sz m of
                (False, m') \<Rightarrow> (False, m') | (True, m') \<Rightarrow> (True, m'))
           else
             (case spi_write_page chip addr dst write_bytes_to_page m of
                (False, m') \<Rightarrow> (False, m')
              | (True, m') \<Rightarrow>
                  let offset = write_bytes_to_page;
                      pages_to_write = (sz - offset) div page_size chip
                  in (case spi_write_pages chip addr dst offset pages_to_write m' of
                        (False, _, m'') \<Rightarrow> (False, m'')
                      | (True, offset', m'') \<Rightarrow>
                          (case spi_write_page chip (u32 (addr + offset')) (drop offset' dst)
                                  (u32_sub sz offset') m'' of
                             (False, m3) \<Rightarrow> (False, m3) | (True, m3) \<Rightarrow> (True, m3)))))"

definition spiflash_write ::
  "sdk_flashchip \<Rightarrow> nat \<Rightarrow> byte list option \<Rightarrow> nat \<Rightarrow> memory \<Rightarrow> bool \<times> memory" where
  "spiflash_write chip addr buf sz m =
     (case buf of None \<Rightarrow> (False, m) | Some b \<Rightarrow> spi_write chip addr b sz m)"

definition read_block :: "nat \<Rightarrow> nat \<Rightarrow> memory \<Rightarrow> byte list" where
  "read_block addr sz m = take sz (spi_cmd_read (spi_addr_reg addr sz) m)"

text \<open>The loop of \<open>read_data\<close>; the result is what the blocks put into the buffer.\<close>

function read_data_loop :: "nat \<Rightarrow> nat \<Rightarrow> memory \<Rightarrow> byte list" where
  "read_data_loop addr sz m =
     (if SPI_READ_MAX_SIZE \<le> sz then
        read_block addr SPI_READ_MAX_SIZE m
          @ read_data_loop (u32 (addr + SPI_READ_MAX_SIZE)) (sz - SPI_READ_MAX_SIZE) m
      else if 0 < sz then read_block addr sz m
      else [])"
  by pat_completeness auto
termination
  by (relation "measure (\<lambda>(a, sz, m). sz)") (auto simp: SPI_READ_MAX_SIZE_def)

definition read_data :: "sdk_flashchip \<Rightarrow> nat \<Rightarrow> nat \<Rightarrow> memory \<Rightarrow> byte list option" where
  "read_data chip addr sz m =
     (if sz < 1 then Some []
      else if chip_size chip < u32 (addr + sz) then None
      else Some (read_data_loop addr sz m))"

text \<open>\<open>buf\<close> says whether the destination pointer is non-null; \<open>None\<close> is the result false.\<close>

definition spiflash_read :: "sdk_flashchip \<Rightarrow> nat \<Rightarrow> bool \<Rightarrow> nat \<Rightarrow> memory \<Rightarrow> byte list option" where
  "spiflash_read chip dest_addr buf sz m =
     (if buf then read_data chip dest_addr sz m else None)"

definition spiflash_erase_sector :: "sdk_flashchip \<Rightarrow> nat \<Rightarrow> memory \<Rightarrow> bool \<times> memory" where
  "spiflash_erase_sector chip addr m =
     (if chip_size chip < u32 (addr + sector_size chip) then (False, m)
      else if addr AND 0xFFF \<noteq> 0 then (False, m)
      else (True, spi_cmd_se (addr AND 0xFFFFFF) m))"

section \<open>A flash driver as an interface\<close>

text \<open>
  What a client of a flash driver relies on, for the chip geometry the firmware supports:
  pages are not empty, and the chip fits the controller's 24 bit addresses.
\<close>

definition chip_ok :: "sdk_flashchip \<Rightarrow> bool" where
  "chip_ok chip \<longleftrightarrow> 0 < page_size chip \<and> page_size chip < 2 ^ 24 \<and> chip_size chip \<le> 2 ^ 24
     \<and> sector_size chip = SPI_FLASH_SECTOR_SIZE \<and> chip_size chip mod SPI_FLASH_SECTOR_SIZE = 0"

text \<open>
  The contract of a driver, over any description \<open>c\<close> of the chip: inside the chip a
  read returns the bytes of the memory, a write programs them, an erase sets a sector;
  outside it a request is refused and changes nothing.
\<close>

locale flash_driver =
  fixes geometry :: "'c \<Rightarrow> bool"
    and capacity :: "'c \<Rightarrow> nat"
    and fread :: "'c \<Rightarrow> nat \<Rightarrow> nat \<Rightarrow> memory \<Rightarrow> byte list option"
    and fwrite :: "'c \<Rightarrow> nat \<Rightarrow> byte list \<Rightarrow> memory \<Rightarrow> bool \<times> memory"
    and ferase :: "'c \<Rightarrow> nat \<Rightarrow> memory \<Rightarrow> bool \<times> memory"
  assumes read_ok: "geometry c \<Longrightarrow> a + n \<le> capacity c \<Longrightarrow> fread c a n m = Some (mem_read m a n)"
    and read_refused: "geometry c \<Longrightarrow> capacity c < a + n \<Longrightarrow> a + n < 2 ^ 32 \<Longrightarrow> 0 < n
          \<Longrightarrow> fread c a n m = None"
    and write_ok: "geometry c \<Longrightarrow> a + length bs \<le> capacity c
          \<Longrightarrow> fwrite c a bs m = (True, nor_program a bs m)"
    and write_refused: "geometry c \<Longrightarrow> capacity c < a + length bs \<Longrightarrow> a + length bs < 2 ^ 32
          \<Longrightarrow> fwrite c a bs m = (False, m)"
    and erase_ok: "geometry c \<Longrightarrow> a mod SPI_FLASH_SECTOR_SIZE = 0
          \<Longrightarrow> a + SPI_FLASH_SECTOR_SIZE \<le> capacity c
          \<Longrightarrow> ferase c a m = (True, nor_erase a SPI_FLASH_SECTOR_SIZE m)"

section \<open>Programming and erasing a NOR memory\<close>

lemma nor_program_apply:
  "nor_program a bs m x = (if a \<le> x \<and> x < a + length bs then m x AND bs ! (x - a) else m x)"
proof (induction bs arbitrary: a m)
  case (Cons b bs)
  then show ?case by (auto simp: nth_Cons')
qed auto

lemma nor_program_append:
  "nor_program a (xs @ ys) m = nor_program (a + length xs) ys (nor_program a xs m)"
  by (induction xs arbitrary: a m) simp_all

lemma mem_read_nor_program_disjoint:
  "a + n \<le> b \<or> b + length bs \<le> a \<Longrightarrow> mem_read (nor_program b bs m) a n = mem_read m a n"
  by (rule mem_read_cong) (auto simp: nor_program_apply)

lemma mem_read_nor_program_same:
  assumes "\<And>i. i < length bs \<Longrightarrow> m (a + i) AND bs ! i = bs ! i"
  shows "mem_read (nor_program a bs m) a (length bs) = bs"
  by (rule nth_equalityI) (simp_all add: nor_program_apply assms)

lemma and_byte_ones [simp]: "(255 :: byte) AND b = b"
proof -
  have "(255 :: byte) = - 1" by simp
  then show ?thesis by (simp only: and.left_neutral)
qed

lemma mem_read_nor_program_erased:
  "(\<And>i. i < length bs \<Longrightarrow> m (a + i) = 255) \<Longrightarrow> mem_read (nor_program a bs m) a (length bs) = bs"
  by (rule mem_read_nor_program_same) simp

lemma nor_erase_apply: "nor_erase a n m x = (if a \<le> x \<and> x < a + n then 255 else m x)"
  by (simp add: nor_erase_def)

lemma nor_erase_0 [simp]: "nor_erase a 0 m = m"
  by (auto simp: nor_erase_def fun_eq_iff)

lemma nor_erase_merge:
  "nor_erase (a + n) k (nor_erase a n m) = nor_erase a (n + k) m"
  by (auto simp: nor_erase_def fun_eq_iff)

section \<open>The driver implements the contract\<close>

lemma spi_addr_reg_fields:
  assumes "sz < 256"
  shows "spi_reg_addr (spi_addr_reg addr sz) = addr mod 2 ^ 24"
    and "spi_reg_len (spi_addr_reg addr sz) = sz"
proof -
  have m: "addr AND 0xFFFFFF = take_bit 24 addr"
    using take_bit_eq_mask [of 24 addr] by (simp add: mask_eq_exp_minus_1)
  have sz: "u32 (push_bit 24 sz) = push_bit 24 sz"
    using assms by (simp add: push_bit_eq_mult)
  show "spi_reg_addr (spi_addr_reg addr sz) = addr mod 2 ^ 24"
    unfolding spi_reg_addr_def spi_addr_reg_def m sz
    by (simp add: take_bit_push_bit) (simp add: take_bit_eq_mod)
  show "spi_reg_len (spi_addr_reg addr sz) = sz"
    unfolding spi_reg_len_def spi_addr_reg_def m sz
    by (simp add: drop_bit_push_bit drop_bit_take_bit)
qed

lemma nor_page_program_flat:
  "0 < psz \<Longrightarrow> a mod psz + length bs \<le> psz \<Longrightarrow> nor_page_program psz a bs m = nor_program a bs m"
proof (induction bs arbitrary: a m)
  case (Cons b bs)
  show ?case
  proof (cases "bs = []")
    case False
    with Cons.prems have "Suc (a mod psz) < psz" by (cases bs) simp_all
    then have *: "Suc a mod psz = Suc (a mod psz)" by (simp add: mod_Suc)
    then have "next_in_page psz a = Suc a" by (simp add: next_in_page_def)
    moreover have "Suc a mod psz + length bs \<le> psz" using Cons.prems * by simp
    ultimately show ?thesis using Cons by simp
  qed simp
qed simp

lemma spi_write_data_flat:
  assumes "0 < page_size chip" "sz < 256" "sz \<le> length buf" "addr + sz \<le> 2 ^ 24"
    and "addr mod page_size chip + sz \<le> page_size chip" "0 < sz"
  shows "spi_write_data chip addr buf sz m = nor_program addr (take sz buf) m"
proof -
  have w: "sz \<le> (if sz mod 4 \<noteq> 0 then sz div 4 + 1 else sz div 4) * 4" by presburger
  have "addr < 2 ^ 24" using assms by linarith
  then show ?thesis
    using assms w
    by (simp add: spi_write_data_def spi_cmd_pp_def spi_addr_reg_fields min_def
        nor_page_program_flat Let_def)
qed

declare spi_write_page_loop.simps [simp del] read_data_loop.simps [simp del]

lemma page_next:
  "(a :: nat) mod p + k < p \<Longrightarrow> (a + k) mod p = a mod p + k"
  by (metis mod_add_left_eq mod_less)

lemma spi_write_page_loop_flat:
  assumes "0 < page_size chip" "0 < sz" "sz \<le> length buf" "addr + sz \<le> 2 ^ 24"
    and "addr mod page_size chip + sz \<le> page_size chip"
  shows "spi_write_page_loop chip addr buf sz m = nor_program addr (take sz buf) m"
  using assms
proof (induction chip addr buf sz m rule: spi_write_page_loop.induct)
  case (1 chip addr buf sz m)
  let ?m' = "nor_program addr (take 64 buf) m"
  show ?case
  proof (cases "64 \<le> sz")
    case True
    then have data: "spi_write_data chip addr buf 64 m = ?m'"
      using "1.prems" by (intro spi_write_data_flat) auto
    show ?thesis
    proof (cases "sz = 64")
      case True
      then show ?thesis
        by (subst spi_write_page_loop.simps) (simp add: SPI_WRITE_MAX_SIZE_def data)
    next
      case False
      with True have sz: "64 < sz" by simp
      have page: "(addr + 64) mod page_size chip + (sz - 64) \<le> page_size chip"
        using "1.prems" sz page_next [of addr "page_size chip" 64] by linarith
      have "spi_write_page_loop chip (addr + 64) (drop 64 buf) (sz - 64) ?m'
              = nor_program (addr + 64) (take (sz - 64) (drop 64 buf)) ?m'"
        using "1.IH" [of ?m' "sz - 64"] "1.prems" sz page data
        by (simp add: SPI_WRITE_MAX_SIZE_def)
      also have "\<dots> = nor_program addr (take 64 buf @ take (sz - 64) (drop 64 buf)) m"
        using "1.prems" sz by (simp add: nor_program_append min_def)
      also have "take 64 buf @ take (sz - 64) (drop 64 buf) = take sz buf"
        using sz by (metis le_add_diff_inverse less_imp_le_nat take_add)
      finally show ?thesis
        using sz "1.prems"
        by (subst spi_write_page_loop.simps) (simp add: SPI_WRITE_MAX_SIZE_def data)
    qed
  next
    case False
    then show ?thesis
      using "1.prems" by (subst spi_write_page_loop.simps)
        (simp add: SPI_WRITE_MAX_SIZE_def spi_write_data_flat)
  qed
qed

lemma spi_write_page_flat:
  assumes "0 < page_size chip" "page_size chip < 2 ^ 24" "sz \<le> length buf" "addr + sz \<le> 2 ^ 24"
    and "addr mod page_size chip + sz \<le> page_size chip"
  shows "spi_write_page chip addr buf sz m = (True, nor_program addr (take sz buf) m)"
  using assms by (simp add: spi_write_page_def spi_write_page_loop_flat add.commute)

lemma spi_write_pages_flat:
  assumes "0 < page_size chip" "page_size chip < 2 ^ 24"
    and "offset + n * page_size chip \<le> length dst" "addr + offset + n * page_size chip \<le> 2 ^ 24"
    and "(addr + offset) mod page_size chip = 0"
  shows "spi_write_pages chip addr dst offset n m
    = (True, offset + n * page_size chip,
       nor_program (addr + offset) (take (n * page_size chip) (drop offset dst)) m)"
  using assms
proof (induction n arbitrary: offset m)
  case (Suc n)
  let ?p = "page_size chip"
  have page: "spi_write_page chip (addr + offset) (drop offset dst) ?p m
      = (True, nor_program (addr + offset) (take ?p (drop offset dst)) m)"
    using Suc.prems by (intro spi_write_page_flat) auto
  have "(addr + (offset + ?p)) mod ?p = 0"
    using Suc.prems(5) by (simp add: add.assoc [symmetric])
  then have rest: "spi_write_pages chip addr dst (offset + ?p) n m'
      = (True, offset + ?p + n * ?p,
         nor_program (addr + (offset + ?p)) (take (n * ?p) (drop (offset + ?p) dst)) m')" for m'
    using Suc.prems by (intro Suc.IH) auto
  have tk: "take (Suc n * ?p) (drop offset dst)
      = take ?p (drop offset dst) @ take (n * ?p) (drop (offset + ?p) dst)"
    by (simp add: take_add add.commute)
  show ?case
    using Suc.prems unfolding tk
    by (simp add: page rest nor_program_append min_def add.assoc add.commute)
qed simp

lemma spi_write_flat:
  assumes "chip_ok chip" "sz \<le> length buf" "addr + sz \<le> chip_size chip"
  shows "spi_write chip addr buf sz m = (True, nor_program addr (take sz buf) m)"
proof -
  let ?p = "page_size chip" let ?off = "?p - addr mod ?p"
  have p: "0 < ?p" "?p < 2 ^ 24" and a: "addr + sz \<le> 2 ^ 24"
    using assms by (auto simp: chip_ok_def)
  have mp: "addr mod ?p < ?p" using p by simp
  have fits: "\<not> chip_size chip < u32 (addr + sz)" using assms a by simp
  show ?thesis
  proof (cases "sz < ?off")
    case True
    then show ?thesis
      using fits p a assms mp by (simp add: spi_write_def spi_write_page_flat)
  next
    case False
    define n where "n = (sz - ?off) div ?p"
    define k where "k = ?off + n * ?p"
    have k: "k \<le> sz" "sz - k = (sz - ?off) mod ?p"
      using False unfolding k_def n_def
      by (simp_all add: minus_div_mult_eq_mod [symmetric]) (metis div_times_less_eq_dividend
          le_add_diff_inverse nat_add_left_cancel_le not_less)
    have off0: "(addr + ?off) mod ?p = 0"
      using p mp by (metis le_add_diff_inverse less_imp_le_nat mod_add_left_eq mod_self)
    then have k0: "(addr + k) mod ?p = 0"
      by (simp add: k_def add.assoc [symmetric])
    have first: "spi_write_page chip addr buf ?off m = (True, nor_program addr (take ?off buf) m)"
      using p a assms False mp by (intro spi_write_page_flat) auto
    have pages: "spi_write_pages chip addr buf ?off n m'
        = (True, k, nor_program (addr + ?off) (take (n * ?p) (drop ?off buf)) m')" for m'
    proof -
      have "?off + n * ?p \<le> length buf" "addr + ?off + n * ?p \<le> 2 ^ 24"
        using k(1) a assms(2) unfolding k_def by linarith+
      then show ?thesis unfolding k_def using p off0 by (intro spi_write_pages_flat)
    qed
    have last: "spi_write_page chip (addr + k) (drop k buf) (sz - k) m'
        = (True, nor_program (addr + k) (take (sz - k) (drop k buf)) m')" for m'
      using p a assms k k0 by (intro spi_write_page_flat) auto
    have tk: "take sz buf = take ?off buf @ take (n * ?p) (drop ?off buf) @ take (sz - k) (drop k buf)"
      using k by (metis append_assoc k_def le_add_diff_inverse take_add)
    have len: "length (take ?off buf) = ?off" "length (take (n * ?p) (drop ?off buf)) = n * ?p"
      using k assms by (auto simp: k_def)
    have sub: "u32_sub sz k = sz - k" "u32 (addr + k) = addr + k" using k a by simp_all
    have "spi_write chip addr buf sz m
        = (True, nor_program (addr + k) (take (sz - k) (drop k buf))
             (nor_program (addr + ?off) (take (n * ?p) (drop ?off buf)) (nor_program addr (take ?off buf) m)))"
      using False by (simp add: spi_write_def fits Let_def first pages last sub
          flip: n_def)
    also have "\<dots> = (True, nor_program addr (take sz buf) m)"
      unfolding tk by (simp only: nor_program_append len k_def add.assoc)
    finally show ?thesis .
  qed
qed

lemma read_block_exact:
  "addr + sz \<le> 2 ^ 24 \<Longrightarrow> sz < 256 \<Longrightarrow> 0 < sz \<Longrightarrow> read_block addr sz m = mem_read m addr sz"
  by (simp add: read_block_def spi_cmd_read_def spi_addr_reg_fields)

lemma read_data_loop_exact:
  "addr + sz \<le> 2 ^ 24 \<Longrightarrow> read_data_loop addr sz m = mem_read m addr sz"
proof (induction addr sz m rule: read_data_loop.induct)
  case (1 addr sz m)
  show ?case
  proof (cases "60 \<le> sz")
    case True
    then have "read_data_loop (addr + 60) (sz - 60) m = mem_read m (addr + 60) (sz - 60)"
      using "1.IH" "1.prems" by (simp add: SPI_READ_MAX_SIZE_def)
    then show ?thesis
      using "1.prems" True mem_read_add [of m addr 60 "sz - 60"]
      by (subst read_data_loop.simps) (simp add: SPI_READ_MAX_SIZE_def read_block_exact)
  next
    case False
    then show ?thesis
      using "1.prems" by (subst read_data_loop.simps) (simp add: SPI_READ_MAX_SIZE_def read_block_exact)
  qed
qed

lemma sector_aligned: "addr AND 0xFFF = addr mod SPI_FLASH_SECTOR_SIZE"
  using take_bit_eq_mask [of 12 addr]
  by (simp add: mask_eq_exp_minus_1 take_bit_eq_mod SPI_FLASH_SECTOR_SIZE_def)

lemma addr24: "(addr :: nat) < 2 ^ 24 \<Longrightarrow> take_bit 24 (addr AND 0xFFFFFF) = addr"
  using take_bit_eq_mask [of 24 addr]
  by (simp add: mask_eq_exp_minus_1 take_bit_eq_mod)

lemma spiflash_erase_sector_exact:
  assumes "chip_ok chip" "addr mod SPI_FLASH_SECTOR_SIZE = 0"
    and "addr + SPI_FLASH_SECTOR_SIZE \<le> chip_size chip"
  shows "spiflash_erase_sector chip addr m = (True, nor_erase addr SPI_FLASH_SECTOR_SIZE m)"
proof -
  have "addr + 4096 \<le> 2 ^ 24" using assms by (auto simp: chip_ok_def SPI_FLASH_SECTOR_SIZE_def)
  then show ?thesis
    using assms addr24 [of addr] sector_aligned [of addr]
    by (simp add: spiflash_erase_sector_def chip_ok_def spi_cmd_se_def spi_reg_addr_def
        SPI_FLASH_SECTOR_SIZE_def)
qed

interpretation spiflash: flash_driver chip_ok chip_size
  "\<lambda>c a n m. spiflash_read c a True n m"
  "\<lambda>c a bs m. spiflash_write c a (Some bs) (length bs) m"
  spiflash_erase_sector
proof (unfold_locales, goal_cases)
  case (1 c a n m)
  then show ?case
    by (auto simp: spiflash_read_def read_data_def chip_ok_def read_data_loop_exact not_less)
next
  case (2 c a n m)
  then show ?case by (simp add: spiflash_read_def read_data_def)
next
  case (3 c a bs m)
  then show ?case by (simp add: spiflash_write_def spi_write_flat)
next
  case (4 c a bs m)
  then show ?case by (simp add: spiflash_write_def spi_write_def)
next
  case (5 c a m)
  then show ?case by (rule spiflash_erase_sector_exact)
qed

section \<open>What every client of the contract may use\<close>

context flash_driver begin

lemma write_then_read:
  assumes "geometry c" "a + length bs \<le> capacity c"
    and "\<And>i. i < length bs \<Longrightarrow> m (a + i) AND bs ! i = bs ! i"
  shows "fread c a (length bs) (snd (fwrite c a bs m)) = Some bs"
  using assms by (simp add: write_ok read_ok mem_read_nor_program_same)

lemma write_frame:
  assumes "geometry c" "a + length bs \<le> capacity c" "b + n \<le> capacity c"
    and "b + n \<le> a \<or> a + length bs \<le> b"
  shows "fread c b n (snd (fwrite c a bs m)) = fread c b n m"
  using assms by (simp add: write_ok read_ok mem_read_nor_program_disjoint)

lemma write_parts:
  assumes "geometry c" "a + length xs + length ys \<le> capacity c"
  shows "fwrite c (a + length xs) ys (snd (fwrite c a xs m)) = fwrite c a (xs @ ys) m"
  using assms by (simp add: write_ok nor_program_append add.assoc)

lemma erase_then_write_then_read:
  assumes "geometry c" "a mod SPI_FLASH_SECTOR_SIZE = 0" "a + SPI_FLASH_SECTOR_SIZE \<le> capacity c"
    and "length bs \<le> SPI_FLASH_SECTOR_SIZE"
  shows "fread c a (length bs) (snd (fwrite c a bs (snd (ferase c a m)))) = Some bs"
  using assms by (intro write_then_read) (auto simp: erase_ok nor_erase_apply)

end

section \<open>Properties of the driver\<close>

lemma sdk_flashchip_init_ok [simp]: "chip_ok sdk_flashchip_init"
  by (simp add: chip_ok_def sdk_flashchip_init_def SPI_FLASH_SECTOR_SIZE_def)

lemma sdk_flashchip_init_size [simp]: "chip_size sdk_flashchip_init = 4194304"
  by (simp add: sdk_flashchip_init_def)

text \<open>
  C38. A write anywhere inside the chip, of any length and across any number of pages,
  succeeds and programs exactly the requested bytes: reading any range back returns the
  old contents with the written bytes and-ed in (a NOR flash can clear bits only).
\<close>

theorem spiflash_write_programs:
  assumes "chip_ok chip" "a + length bs \<le> chip_size chip" "b + n \<le> chip_size chip"
  shows "\<exists>m'. spiflash_write chip a (Some bs) (length bs) m = (True, m')
    \<and> spiflash_read chip b True n m'
      = Some (map (\<lambda>x. if a \<le> x \<and> x < a + length bs then m x AND bs ! (x - a) else m x) [b..<b + n])"
proof -
  have "mem_read (nor_program a bs m) b n
      = map (\<lambda>x. if a \<le> x \<and> x < a + length bs then m x AND bs ! (x - a) else m x) [b..<b + n]"
    by (rule nth_equalityI) (simp_all add: nor_program_apply)
  then show ?thesis using spiflash.write_ok spiflash.read_ok assms by simp
qed

theorem spiflash_write_programs_witness:
  "\<exists>m'. spiflash_write sdk_flashchip_init 250 (Some (replicate 600 0x5a)) 600 (\<lambda>_. 255) = (True, m')
    \<and> spiflash_read sdk_flashchip_init 848 True 4 m' = Some [0x5a, 0x5a, 255, 255]"
  using spiflash_write_programs [of sdk_flashchip_init 250 "replicate 600 0x5a" 848 4 "\<lambda>_. 255"]
  by (simp add: upt_rec)

text \<open>
  Erasing a sector and writing up to a sector's worth of bytes at its start makes them
  readable, whatever the sector held before.
\<close>

theorem spiflash_erase_write_read:
  assumes "chip_ok chip" "a mod SPI_FLASH_SECTOR_SIZE = 0" "a + SPI_FLASH_SECTOR_SIZE \<le> chip_size chip"
    and "length bs \<le> SPI_FLASH_SECTOR_SIZE"
  shows "fst (spiflash_erase_sector chip a m)
    \<and> spiflash_read chip a True (length bs)
      (snd (spiflash_write chip a (Some bs) (length bs) (snd (spiflash_erase_sector chip a m)))) = Some bs"
  using spiflash.erase_ok spiflash.erase_then_write_then_read assms by simp

theorem spiflash_erase_write_read_witness:
  "spiflash_read sdk_flashchip_init 8192 True 3 (snd (spiflash_write sdk_flashchip_init 8192 (Some (replicate 3 7)) 3
     (snd (spiflash_erase_sector sdk_flashchip_init 8192 (\<lambda>_. 0))))) = Some (replicate 3 7)"
  using spiflash_erase_write_read [of sdk_flashchip_init 8192 "replicate 3 7" "\<lambda>_. 0"]
  by (simp add: SPI_FLASH_SECTOR_SIZE_def)

text \<open>
  A request that leaves the chip is refused and touches nothing, as long as its end
  address is below 2 ^ 32.
\<close>

theorem spiflash_bounds:
  assumes "chip_ok chip" "chip_size chip < a + length bs" "a + length bs < 2 ^ 32" "bs \<noteq> []"
  shows "spiflash_write chip a (Some bs) (length bs) m = (False, m)
    \<and> spiflash_read chip a True (length bs) m = None"
  using spiflash.write_refused spiflash.read_refused assms by simp

theorem spiflash_bounds_witness:
  "spiflash_write sdk_flashchip_init 4194300 (Some (replicate 5 7)) 5 (\<lambda>_. 255) = (False, \<lambda>_. 255)
    \<and> spiflash_read sdk_flashchip_init 4194300 True 5 (\<lambda>_. 255) = None"
  using spiflash_bounds [of sdk_flashchip_init 4194300 "replicate 5 7" "\<lambda>_. 255"] by simp

text \<open>
  The test \<open>addr + size > chip_size\<close> is made on the wrapped sum: two bytes at address
  0xFFFFFFFE are accepted, and the 24 bit address register sends them to 0xFFFFFE, which the
  4 MB chip does not have.
\<close>

theorem spiflash_end_wraps:
  "fst (spiflash_write sdk_flashchip_init 0xFFFFFFFE (Some [1, 2]) 2 m)
    \<and> snd (spiflash_write sdk_flashchip_init 0xFFFFFFFE (Some [1, 2]) 2 m) 0xFFFFFE = m 0xFFFFFE AND 1"
proof -
  let ?c = sdk_flashchip_init
  have p: "page_size ?c = 256" by (simp add: sdk_flashchip_init_def)
  have a: "u32 (4294967294 + 2) = 0" "(4294967294 :: nat) mod 256 = 254" by (simp_all add: u32_def)
  have "(4294967294 :: nat) AND 0xFFFFFF = 0xFFFFFE" by simp
  moreover have "u32 (push_bit 24 2) = 33554432" by (simp add: u32_def push_bit_eq_mult)
  ultimately have r: "spi_addr_reg 4294967294 2 = 50331646" unfolding spi_addr_reg_def by simp
  have "spi_reg_addr 50331646 = 0xFFFFFE" "spi_reg_len 50331646 = 2"
    unfolding spi_reg_addr_def spi_reg_len_def by (simp_all add: take_bit_eq_mod drop_bit_eq_div)
  then have "spi_write_data ?c 4294967294 [1, 2] 2 m = nor_page_program 256 0xFFFFFE [1, 2] m"
    by (simp add: spi_write_data_def r spi_cmd_pp_def p)
  then have w: "spi_write_page ?c 4294967294 [1, 2] 2 m = (True, nor_page_program 256 0xFFFFFE [1, 2] m)"
    by (simp add: spi_write_page_def p a spi_write_page_loop.simps [of ?c 4294967294] SPI_WRITE_MAX_SIZE_def u32_def)
  have z: "spi_write_page ?c 0 [] 0 m' = (True, m')" for m' by (simp add: spi_write_page_def p)
  have "spi_write ?c 4294967294 [1, 2] 2 m = (True, nor_page_program 256 0xFFFFFE [1, 2] m)"
    unfolding spi_write_def Let_def p a using w z a by (simp add: u32_def)
  then show ?thesis by (simp add: spiflash_write_def next_in_page_def)
qed

end
