(* ===== verification/Sysparam_Model.thy ===== *)
theory Sysparam_Model
  imports Spiflash
begin

text \<open>
  The system parameter store of \<open>src/core/sysparam.c\<close>: a log of key and value
  entries in one of two flash regions, the other being the target of the next compaction.

  The state is the module's static structure together with the flash it works on; every
  routine takes and returns it. The mutex that the public functions hold from their first
  to their last access is not part of the state: each call is one step. \<open>malloc\<close> is the
  predicate \<open>malloc_ok\<close> of the state. A scan of the region is a recursion with fuel;
  running out of fuel is the status \<open>SYSPARAM_HANG\<close>, which no C execution returns and
  which the theorems exclude. The fuel of a scan is the size of the region plus two: a scan
  visits the region's start, then entry headers that are at least four bytes apart, and
  stops at the first one past the region's end.
\<close>

section \<open>Constants, status codes and structures\<close>

definition SYSPARAM_MAGIC :: nat where "SYSPARAM_MAGIC = 0x70524f45"
definition DEFAULT_ITER_BUF_SIZE :: nat where "DEFAULT_ITER_BUF_SIZE = 64"
definition SCAN_BUFFER_SIZE :: nat where "SCAN_BUFFER_SIZE = 8"
definition BOUNCE_BUFFER_SIZE :: nat where "BOUNCE_BUFFER_SIZE = 12"
definition REGION_HEADER_SIZE :: nat where "REGION_HEADER_SIZE = 8"
definition ENTRY_HEADER_SIZE :: nat where "ENTRY_HEADER_SIZE = 4"
definition MAX_KEY_LEN :: nat where "MAX_KEY_LEN = 0xffff"
definition MAX_VALUE_LEN :: nat where "MAX_VALUE_LEN = 0xffff"
definition MAX_KEY_ID :: nat where "MAX_KEY_ID = 0x0ffe"

definition REGION_FLAG_SECOND :: "16 word" where "REGION_FLAG_SECOND = 0x8000"
definition REGION_FLAG_ACTIVE :: "16 word" where "REGION_FLAG_ACTIVE = 0x4000"
definition REGION_MASK_SIZE :: "16 word" where "REGION_MASK_SIZE = 0x0fff"

definition ENTRY_FLAG_ALIVE :: "16 word" where "ENTRY_FLAG_ALIVE = 0x8000"
definition ENTRY_FLAG_INVALID :: "16 word" where "ENTRY_FLAG_INVALID = 0x4000"
definition ENTRY_FLAG_VALUE :: "16 word" where "ENTRY_FLAG_VALUE = 0x2000"
definition ENTRY_FLAG_BINARY :: "16 word" where "ENTRY_FLAG_BINARY = 0x1000"
definition ENTRY_MASK_ID :: "16 word" where "ENTRY_MASK_ID = 0xfff"
definition ENTRY_ID_END :: "16 word" where "ENTRY_ID_END = 0xfff"
definition ENTRY_ID_ANY :: "16 word" where "ENTRY_ID_ANY = 0x1000"

definition ENTRY_SIZE :: "nat \<Rightarrow> nat" where
  "ENTRY_SIZE payload_len = ENTRY_HEADER_SIZE + payload_len"

datatype sysparam_status =
    SYSPARAM_OK | SYSPARAM_NOTFOUND | SYSPARAM_PARSEFAILED
  | SYSPARAM_ERR_NOINIT | SYSPARAM_ERR_BADVALUE | SYSPARAM_ERR_FULL
  | SYSPARAM_ERR_IO | SYSPARAM_ERR_CORRUPT | SYSPARAM_ERR_NOMEM
  | SYSPARAM_HANG

fun status_code :: "sysparam_status \<Rightarrow> int" where
  "status_code SYSPARAM_OK = 0"
| "status_code SYSPARAM_NOTFOUND = 1"
| "status_code SYSPARAM_PARSEFAILED = 2"
| "status_code SYSPARAM_ERR_NOINIT = -1"
| "status_code SYSPARAM_ERR_BADVALUE = -2"
| "status_code SYSPARAM_ERR_FULL = -3"
| "status_code SYSPARAM_ERR_IO = -4"
| "status_code SYSPARAM_ERR_CORRUPT = -5"
| "status_code SYSPARAM_ERR_NOMEM = -6"
| "status_code SYSPARAM_HANG = -99"

text \<open>The test \<open>status < 0\<close>.\<close>

definition is_err :: "sysparam_status \<Rightarrow> bool" where
  "is_err st \<longleftrightarrow> status_code st < 0"

record region_header =
  magic :: nat
  flags_size :: "16 word"
  reserved :: nat

record entry_header =
  idflags :: "16 word"
  elen :: nat

record sysparam_context =
  addr :: nat
  entry :: entry_header
  unused_keys :: int
  compactable :: nat
  max_key_id :: nat

record sysparam =
  flashchip :: sdk_flashchip
  flash :: memory
  cur_base :: nat
  alt_base :: nat
  end_addr :: nat
  region_size :: nat
  force_compact :: bool
  malloc_ok :: "nat \<Rightarrow> bool"

text \<open>The packed structures as the bytes the flash holds.\<close>

definition region_header_bytes :: "region_header \<Rightarrow> byte list" where
  "region_header_bytes h = le32 (magic h) @ le16 (unat (flags_size h)) @ le16 (reserved h)"

definition region_header_of_bytes :: "byte list \<Rightarrow> region_header" where
  "region_header_of_bytes bs =
     \<lparr>magic = rd32 bs 0, flags_size = word_of_nat (rd16 bs 4), reserved = rd16 bs 6\<rparr>"

definition entry_header_bytes :: "entry_header \<Rightarrow> byte list" where
  "entry_header_bytes e = le16 (unat (idflags e)) @ le16 (elen e)"

definition entry_header_of_bytes :: "byte list \<Rightarrow> entry_header" where
  "entry_header_of_bytes bs = \<lparr>idflags = word_of_nat (rd16 bs 0), elen = rd16 bs 2\<rparr>"

definition zero_header :: entry_header where
  "zero_header = \<lparr>idflags = 0, elen = 0\<rparr>"

definition zero_context :: sysparam_context where
  "zero_context = \<lparr>addr = 0, entry = zero_header, unused_keys = 0, compactable = 0, max_key_id = 0\<rparr>"

section \<open>Internal routines\<close>

definition flash_read :: "sysparam \<Rightarrow> nat \<Rightarrow> nat \<Rightarrow> byte list option" where
  "flash_read sp a n = spiflash_read (flashchip sp) a True n (flash sp)"

text \<open>The loop of \<open>_write_and_verify\<close> at offset \<open>i\<close>.\<close>

function write_and_verify_from :: "nat \<Rightarrow> byte list \<Rightarrow> nat \<Rightarrow> sysparam \<Rightarrow> sysparam_status \<times> sysparam" where
  "write_and_verify_from a data i sp =
     (if i < length data then
        let count = min (length data - i) BOUNCE_BUFFER_SIZE;
            bounce = take count (drop i data)
        in case spiflash_write (flashchip sp) (u32 (a + i)) (Some bounce) count (flash sp) of
             (False, m) \<Rightarrow> (SYSPARAM_ERR_IO, sp\<lparr>flash := m\<rparr>)
           | (True, m) \<Rightarrow>
               (case flash_read (sp\<lparr>flash := m\<rparr>) (u32 (a + i)) count of
                  None \<Rightarrow> (SYSPARAM_ERR_IO, sp\<lparr>flash := m\<rparr>)
                | Some back \<Rightarrow>
                    if back \<noteq> bounce then (SYSPARAM_ERR_IO, sp\<lparr>flash := m\<rparr>)
                    else write_and_verify_from a data (i + BOUNCE_BUFFER_SIZE) (sp\<lparr>flash := m\<rparr>))
      else (SYSPARAM_OK, sp))"
  by pat_completeness auto
termination
  by (relation "measure (\<lambda>(a, data, i, sp). length data - i)") (auto simp: BOUNCE_BUFFER_SIZE_def)

definition write_and_verify :: "nat \<Rightarrow> byte list \<Rightarrow> sysparam \<Rightarrow> sysparam_status \<times> sysparam" where
  "write_and_verify a data sp = write_and_verify_from a data 0 sp"

text \<open>\<open>_format_region\<close>: the sectors from \<open>i\<close> on, \<open>n\<close> of them left.\<close>

fun format_region_from :: "nat \<Rightarrow> nat \<Rightarrow> nat \<Rightarrow> sysparam \<Rightarrow> sysparam_status \<times> sysparam" where
  "format_region_from a i 0 sp = (SYSPARAM_OK, sp)"
| "format_region_from a i (Suc n) sp =
     (case spiflash_erase_sector (flashchip sp) (u32 (a + i * SPI_FLASH_SECTOR_SIZE)) (flash sp) of
        (False, m) \<Rightarrow> (SYSPARAM_ERR_IO, sp\<lparr>flash := m\<rparr>)
      | (True, m) \<Rightarrow> format_region_from a (Suc i) n (sp\<lparr>flash := m\<rparr>))"

definition format_region :: "nat \<Rightarrow> nat \<Rightarrow> sysparam \<Rightarrow> sysparam_status \<times> sysparam" where
  "format_region a num_sectors sp = format_region_from a 0 num_sectors sp"

definition region_flags :: "nat \<Rightarrow> nat \<Rightarrow> bool \<Rightarrow> nat \<Rightarrow> 16 word" where
  "region_flags a other active ssz =
     (let fs = (if a < other then word_of_nat ((other - a) div ssz) AND REGION_MASK_SIZE
                else (word_of_nat ((a - other) div ssz) AND REGION_MASK_SIZE) OR REGION_FLAG_SECOND)
      in if active then fs OR REGION_FLAG_ACTIVE else fs)"

definition write_region_header :: "nat \<Rightarrow> nat \<Rightarrow> bool \<Rightarrow> sysparam \<Rightarrow> sysparam_status \<times> sysparam" where
  "write_region_header a other active sp =
     (let header = \<lparr>magic = SYSPARAM_MAGIC,
                     flags_size = region_flags a other active (sector_size (flashchip sp)),
                     reserved = 0\<rparr>
      in case write_and_verify a (region_header_bytes header) sp of
           (SYSPARAM_OK, sp') \<Rightarrow> (SYSPARAM_OK, sp')
         | (_, sp') \<Rightarrow>
             (SYSPARAM_ERR_IO, snd (write_and_verify a (replicate REGION_HEADER_SIZE 0) sp')))"

definition init_context :: "sysparam \<Rightarrow> sysparam_context" where
  "init_context sp = zero_context\<lparr>addr := cur_base sp\<rparr>"

definition init_write_context :: "sysparam \<Rightarrow> sysparam_status \<times> sysparam_context" where
  "init_write_context sp =
     (let ctx = zero_context\<lparr>addr := end_addr sp\<rparr>
      in case flash_read sp (addr ctx) ENTRY_HEADER_SIZE of
           None \<Rightarrow> (SYSPARAM_ERR_IO, ctx)
         | Some bs \<Rightarrow> (SYSPARAM_OK, ctx\<lparr>entry := entry_header_of_bytes bs\<rparr>))"

text \<open>What \<open>_find_entry\<close> does once its loop has been left at the end of the entries.\<close>

definition find_entry_end ::
  "sysparam_context \<Rightarrow> 16 word \<Rightarrow> sysparam \<Rightarrow> sysparam_status \<times> sysparam_context \<times> sysparam" where
  "find_entry_end ctx match_id sp =
     (if match_id = ENTRY_ID_END then (SYSPARAM_OK, ctx, sp)
      else (SYSPARAM_NOTFOUND, ctx\<lparr>entry := zero_header\<rparr>, sp))"

definition region_end :: "sysparam \<Rightarrow> nat" where
  "region_end sp = u32 (cur_base sp + region_size sp)"

text \<open>
  The step of the loop to the next entry: where it starts (\<open>None\<close> when the loop is left),
  and the state, in which an impossible length has set \<open>force_compact\<close>.
\<close>

definition next_entry :: "sysparam_context \<Rightarrow> sysparam \<Rightarrow> bool \<times> sysparam_context \<times> sysparam" where
  "next_entry ctx sp =
     (if addr ctx = cur_base sp then
        (True, ctx\<lparr>addr := u32 (addr ctx + REGION_HEADER_SIZE)\<rparr>, sp)
      else
        let next_addr = u32 (addr ctx + ENTRY_SIZE (elen (entry ctx)))
        in if region_end sp < next_addr then (False, ctx, sp\<lparr>force_compact := True\<rparr>)
           else (next_addr \<noteq> region_end sp, ctx\<lparr>addr := next_addr\<rparr>, sp))"

definition entry_id :: "entry_header \<Rightarrow> 16 word" where
  "entry_id e = idflags e AND ENTRY_MASK_ID"

text \<open>\<open>(idflags & (ENTRY_FLAG_ALIVE | ENTRY_FLAG_INVALID)) == ENTRY_FLAG_ALIVE\<close>\<close>

definition entry_live :: "entry_header \<Rightarrow> bool" where
  "entry_live e \<longleftrightarrow> idflags e AND (ENTRY_FLAG_ALIVE OR ENTRY_FLAG_INVALID) = ENTRY_FLAG_ALIVE"

definition entry_is_value :: "entry_header \<Rightarrow> bool" where
  "entry_is_value e \<longleftrightarrow> idflags e AND ENTRY_FLAG_VALUE \<noteq> 0"

text \<open>The counters of the context after the header \<open>e\<close> was read.\<close>

definition count_entry :: "entry_header \<Rightarrow> sysparam_context \<Rightarrow> sysparam_context" where
  "count_entry e ctx =
     (if entry_live e then
        if \<not> entry_is_value e
        then ctx\<lparr>max_key_id := unat (entry_id e), unused_keys := unused_keys ctx + 1\<rparr>
        else ctx\<lparr>unused_keys := unused_keys ctx - 1\<rparr>
      else ctx\<lparr>compactable := u32 (compactable ctx + ENTRY_SIZE (elen e))\<rparr>)"

definition entry_matches :: "entry_header \<Rightarrow> 16 word \<Rightarrow> bool \<Rightarrow> bool" where
  "entry_matches e match_id find_value \<longleftrightarrow>
     entry_live e \<and> entry_is_value e = find_value
     \<and> (entry_id e = match_id \<or> match_id = ENTRY_ID_ANY)"

fun find_entry_fuel :: "nat \<Rightarrow> sysparam_context \<Rightarrow> 16 word \<Rightarrow> bool \<Rightarrow> sysparam
    \<Rightarrow> sysparam_status \<times> sysparam_context \<times> sysparam" where
  "find_entry_fuel 0 ctx match_id find_value sp = (SYSPARAM_HANG, ctx, sp)"
| "find_entry_fuel (Suc n) ctx match_id find_value sp =
     (case next_entry ctx sp of
        (False, ctx1, sp1) \<Rightarrow> find_entry_end ctx1 match_id sp1
      | (True, ctx1, sp1) \<Rightarrow>
          (case flash_read sp1 (addr ctx1) ENTRY_HEADER_SIZE of
             None \<Rightarrow> (SYSPARAM_ERR_IO, ctx1, sp1)
           | Some bs \<Rightarrow>
               let e = entry_header_of_bytes bs; ctx2 = ctx1\<lparr>entry := e\<rparr>
               in if idflags e = 0xffff then find_entry_end ctx2 match_id sp1
                  else if entry_matches e match_id find_value
                  then (SYSPARAM_OK, count_entry e ctx2, sp1)
                  else find_entry_fuel n (count_entry e ctx2) match_id find_value sp1))"

definition find_entry :: "sysparam_context \<Rightarrow> 16 word \<Rightarrow> bool \<Rightarrow> sysparam
    \<Rightarrow> sysparam_status \<times> sysparam_context \<times> sysparam" where
  "find_entry ctx match_id find_value sp =
     find_entry_fuel (region_size sp + 2) ctx match_id find_value sp"

text \<open>\<open>_read_payload\<close> reads \<open>buffer_size\<close> bytes, whatever the entry's length is.\<close>

definition read_payload :: "sysparam_context \<Rightarrow> nat \<Rightarrow> sysparam \<Rightarrow> sysparam_status \<times> byte list" where
  "read_payload ctx buffer_size sp =
     (case flash_read sp (u32 (addr ctx + ENTRY_HEADER_SIZE)) buffer_size of
        None \<Rightarrow> (SYSPARAM_ERR_IO, []) | Some bs \<Rightarrow> (SYSPARAM_OK, bs))"

function compare_payload_from :: "nat \<Rightarrow> byte list \<Rightarrow> nat \<Rightarrow> sysparam \<Rightarrow> sysparam_status" where
  "compare_payload_from a val i sp =
     (if i < length val then
        let len = min (length val - i) BOUNCE_BUFFER_SIZE
        in case flash_read sp (u32 (a + i)) len of
             None \<Rightarrow> SYSPARAM_ERR_IO
           | Some bounce \<Rightarrow>
               if take len (drop i val) \<noteq> bounce then SYSPARAM_NOTFOUND
               else compare_payload_from a val (i + BOUNCE_BUFFER_SIZE) sp
      else SYSPARAM_OK)"
  by pat_completeness auto
termination
  by (relation "measure (\<lambda>(a, val, i, sp). length val - i)") (auto simp: BOUNCE_BUFFER_SIZE_def)

definition compare_payload :: "sysparam_context \<Rightarrow> byte list \<Rightarrow> sysparam \<Rightarrow> sysparam_status" where
  "compare_payload ctx val sp =
     (if elen (entry ctx) \<noteq> length val then SYSPARAM_NOTFOUND
      else compare_payload_from (u32 (addr ctx + ENTRY_HEADER_SIZE)) val 0 sp)"

text \<open>\<open>_find_key\<close>; the key is \<open>None\<close> for the null pointer, else its first \<open>key_len\<close> bytes.\<close>

fun find_key_fuel :: "nat \<Rightarrow> sysparam_context \<Rightarrow> byte list option \<Rightarrow> sysparam
    \<Rightarrow> sysparam_status \<times> sysparam_context \<times> sysparam" where
  "find_key_fuel 0 ctx key sp = (SYSPARAM_HANG, ctx, sp)"
| "find_key_fuel (Suc n) ctx key sp =
     (case find_entry ctx ENTRY_ID_ANY False sp of
        (SYSPARAM_OK, ctx1, sp1) \<Rightarrow>
          (case key of
             None \<Rightarrow> (SYSPARAM_OK, ctx1, sp1)
           | Some k \<Rightarrow>
               if elen (entry ctx1) = length k then
                 (case compare_payload ctx1 k sp1 of
                    SYSPARAM_OK \<Rightarrow> (SYSPARAM_OK, ctx1, sp1)
                  | SYSPARAM_NOTFOUND \<Rightarrow> find_key_fuel n ctx1 key sp1
                  | st \<Rightarrow> (st, ctx1, sp1))
               else find_key_fuel n ctx1 key sp1)
      | (st, ctx1, sp1) \<Rightarrow> (st, ctx1, sp1))"

definition find_key :: "sysparam_context \<Rightarrow> byte list option \<Rightarrow> sysparam
    \<Rightarrow> sysparam_status \<times> sysparam_context \<times> sysparam" where
  "find_key ctx key sp = find_key_fuel (region_size sp + 2) ctx key sp"

definition find_value :: "sysparam_context \<Rightarrow> 16 word \<Rightarrow> sysparam
    \<Rightarrow> sysparam_status \<times> sysparam_context \<times> sysparam" where
  "find_value ctx id_field sp = find_entry ctx (id_field AND ENTRY_MASK_ID) True sp"

text \<open>\<open>end_addr\<close> moves past an entry that was written at it.\<close>

definition advance_end :: "nat \<Rightarrow> nat \<Rightarrow> sysparam \<Rightarrow> sysparam" where
  "advance_end a n sp = (if end_addr sp = a then sp\<lparr>end_addr := u32 (a + n)\<rparr> else sp)"

definition write_entry :: "nat \<Rightarrow> 16 word \<Rightarrow> byte list \<Rightarrow> sysparam \<Rightarrow> sysparam_status \<times> sysparam" where
  "write_entry a eid payload sp =
     (let e = \<lparr>idflags = eid OR ENTRY_FLAG_ALIVE OR ENTRY_FLAG_INVALID, elen = length payload\<rparr>
      in case write_and_verify a (entry_header_bytes e) sp of
           (SYSPARAM_ERR_IO, sp1) \<Rightarrow>
             (case write_and_verify a (entry_header_bytes zero_header) sp1 of
                (SYSPARAM_OK, sp2) \<Rightarrow> (SYSPARAM_ERR_IO, advance_end a ENTRY_HEADER_SIZE sp2)
              | (st, sp2) \<Rightarrow> (st, sp2))
         | (SYSPARAM_OK, sp1) \<Rightarrow>
             let sp2 = advance_end a (ENTRY_SIZE (length payload)) sp1
             in (case write_and_verify (u32 (a + ENTRY_HEADER_SIZE)) payload sp2 of
                   (SYSPARAM_OK, sp3) \<Rightarrow>
                     write_and_verify a
                       (entry_header_bytes (e\<lparr>idflags := idflags e AND NOT ENTRY_FLAG_INVALID\<rparr>)) sp3
                 | (st, sp3) \<Rightarrow> (st, sp3))
         | (st, sp1) \<Rightarrow> (st, sp1))"

definition delete_entry :: "nat \<Rightarrow> sysparam \<Rightarrow> sysparam_status \<times> sysparam" where
  "delete_entry a sp =
     (case flash_read sp a ENTRY_HEADER_SIZE of
        None \<Rightarrow> (SYSPARAM_ERR_IO, sp)
      | Some bs \<Rightarrow>
          let e = entry_header_of_bytes bs
          in write_and_verify a
               (entry_header_bytes (e\<lparr>idflags := idflags e AND NOT ENTRY_FLAG_ALIVE\<rparr>)) sp)"

section \<open>Iteration\<close>

text \<open>
  \<open>buf\<close> is the block behind \<open>iter->key\<close>; \<open>iter->value\<close> points \<open>key_len + 1\<close> bytes
  into it.
\<close>

record sysparam_iter =
  buf :: "byte list"
  key_len :: nat
  value_len :: nat
  bufsize :: nat
  binary :: bool
  ctx :: sysparam_context

definition iter_key :: "sysparam_iter \<Rightarrow> byte list" where
  "iter_key it = take (key_len it) (buf it)"

definition iter_value :: "sysparam_iter \<Rightarrow> byte list" where
  "iter_value it = take (value_len it) (drop (key_len it + 1) (buf it))"

definition SYSPARAM_CONTEXT_SIZE :: nat where "SYSPARAM_CONTEXT_SIZE = 20"

definition sysparam_iter_start :: "sysparam \<Rightarrow> sysparam_status \<times> sysparam_iter option" where
  "sysparam_iter_start sp =
     (if cur_base sp = 0 then (SYSPARAM_ERR_NOINIT, None)
      else if \<not> malloc_ok sp DEFAULT_ITER_BUF_SIZE then (SYSPARAM_ERR_NOMEM, None)
      else if \<not> malloc_ok sp SYSPARAM_CONTEXT_SIZE then (SYSPARAM_ERR_NOMEM, None)
      else (SYSPARAM_OK, Some \<lparr>buf = replicate DEFAULT_ITER_BUF_SIZE 0, key_len = 0, value_len = 0,
              bufsize = DEFAULT_ITER_BUF_SIZE, binary = False, ctx = init_context sp\<rparr>))"

text \<open>
  The body of \<open>sysparam_iter_next\<close> after a key at \<open>kctx\<close> and its value at \<open>vctx\<close> were
  found: grow the buffer, read the two payloads, terminate both with a zero byte.
\<close>

definition iter_fill :: "sysparam_iter \<Rightarrow> sysparam_context \<Rightarrow> sysparam_context \<Rightarrow> sysparam
    \<Rightarrow> sysparam_status \<times> sysparam_iter" where
  "iter_fill it kctx vctx sp =
     (let it0 = it\<lparr>ctx := kctx\<rparr>;
          klen = elen (entry kctx); vlen = elen (entry vctx);
          key_space = klen + 1; required_len = key_space + vlen + 1
      in if bufsize it < required_len \<and> \<not> malloc_ok sp required_len
         then (SYSPARAM_ERR_NOMEM, it0)
         else
           let bsz = (if bufsize it < required_len then required_len else bufsize it)
           in case read_payload kctx bsz sp of
                (SYSPARAM_OK, kbs) \<Rightarrow>
                  (let kbs1 = kbs[klen := 0]
                   in case read_payload vctx (bsz - key_space) sp of
                        (SYSPARAM_OK, vbs) \<Rightarrow>
                          (SYSPARAM_OK,
                           it0\<lparr>buf := take key_space kbs1 @ vbs[vlen := 0], bufsize := bsz,
                               key_len := klen, value_len := vlen,
                               binary := (idflags (entry vctx) AND ENTRY_FLAG_BINARY \<noteq> 0)\<rparr>)
                      | (st, _) \<Rightarrow> (st, it0\<lparr>buf := kbs1, bufsize := bsz, key_len := klen\<rparr>))
              | (st, kbs) \<Rightarrow> (st, it0\<lparr>bufsize := bsz\<rparr>))"

fun iter_next_fuel :: "nat \<Rightarrow> sysparam_iter \<Rightarrow> sysparam
    \<Rightarrow> sysparam_status \<times> sysparam_iter \<times> sysparam" where
  "iter_next_fuel 0 it sp = (SYSPARAM_HANG, it, sp)"
| "iter_next_fuel (Suc n) it sp =
     (case find_key (ctx it) None sp of
        (SYSPARAM_OK, kctx, sp1) \<Rightarrow>
          (case find_value kctx (idflags (entry kctx)) sp1 of
             (SYSPARAM_NOTFOUND, vctx, sp2) \<Rightarrow> iter_next_fuel n (it\<lparr>ctx := kctx\<rparr>) sp2
           | (st, vctx, sp2) \<Rightarrow>
               if is_err st then (st, it\<lparr>ctx := kctx\<rparr>, sp2)
               else (case iter_fill it kctx vctx sp2 of (st', it') \<Rightarrow> (st', it', sp2)))
      | (st, kctx, sp1) \<Rightarrow> (st, it\<lparr>ctx := kctx\<rparr>, sp1))"

definition sysparam_iter_next :: "sysparam_iter \<Rightarrow> sysparam
    \<Rightarrow> sysparam_status \<times> sysparam_iter \<times> sysparam" where
  "sysparam_iter_next it sp = iter_next_fuel (region_size sp + 2) it sp"

section \<open>Compaction\<close>

text \<open>
  The copy loop of \<open>_compact_params\<close>. \<open>key_id\<close> is \<open>None\<close> for the null pointer; the
  result carries the next write address, the last key id given out and \<open>*key_id\<close>.
\<close>

fun compact_copy_fuel :: "nat \<Rightarrow> sysparam_iter \<Rightarrow> nat \<Rightarrow> nat \<Rightarrow> int option \<Rightarrow> sysparam
    \<Rightarrow> sysparam_status \<times> nat \<times> nat \<times> int option \<times> sysparam" where
  "compact_copy_fuel 0 it a cur key_id sp = (SYSPARAM_HANG, a, cur, key_id, sp)"
| "compact_copy_fuel (Suc n) it a cur key_id sp =
     (case sysparam_iter_next it sp of
        (SYSPARAM_OK, it1, sp1) \<Rightarrow>
          let cur1 = u16 (cur + 1)
          in (case write_entry a (word_of_nat cur1) (iter_key it1) sp1 of
                (st2, sp2) \<Rightarrow>
                  if is_err st2 then (st2, a, cur1, key_id, sp2)
                  else
                    let a2 = u32 (a + ENTRY_SIZE (key_len it1))
                    in if key_id = Some (int (unat (entry_id (entry (ctx it1)))))
                       then compact_copy_fuel n it1 a2 cur1 (Some (int cur1)) sp2
                       else
                         let binary_flag = (if binary it1 then ENTRY_FLAG_BINARY else 0)
                         in (case write_entry a2 (word_of_nat cur1 OR ENTRY_FLAG_VALUE OR binary_flag)
                                    (iter_value it1) sp2 of
                               (st3, sp3) \<Rightarrow>
                                 if is_err st3 then (st3, a2, cur1, key_id, sp3)
                                 else compact_copy_fuel n it1
                                        (u32 (a2 + ENTRY_SIZE (value_len it1))) cur1 key_id sp3))
      | (st, it1, sp1) \<Rightarrow> (st, a, cur, key_id, sp1))"

text \<open>The last part of \<open>_compact_params\<close>: make the new region the active one.\<close>

definition compact_switch :: "nat \<Rightarrow> nat \<Rightarrow> sysparam \<Rightarrow> sysparam_status \<times> sysparam" where
  "compact_switch new_base a sp =
     (case write_region_header new_base (cur_base sp) True sp of
        (st1, sp1) \<Rightarrow>
          if is_err st1 then (st1, sp1)
          else (case write_region_header (cur_base sp1) new_base False sp1 of
                  (st2, sp2) \<Rightarrow>
                    if is_err st2 then (st2, sp2)
                    else (SYSPARAM_OK, sp2\<lparr>alt_base := cur_base sp2, cur_base := new_base,
                            end_addr := a, force_compact := False\<rparr>)))"

definition compact_params :: "sysparam_context option \<Rightarrow> int option \<Rightarrow> sysparam
    \<Rightarrow> sysparam_status \<times> sysparam_context option \<times> int option \<times> sysparam" where
  "compact_params octx key_id sp =
     (let new_base = alt_base sp;
          num_sectors = u16 (region_size sp div sector_size (flashchip sp))
      in case format_region new_base num_sectors sp of
           (st1, sp1) \<Rightarrow>
             if is_err st1 then (st1, octx, key_id, sp1)
             else (case sysparam_iter_start sp1 of
                     (SYSPARAM_OK, Some it) \<Rightarrow>
                       (case compact_copy_fuel (region_size sp1 + 2) it
                               (u32 (new_base + REGION_HEADER_SIZE)) 0 key_id sp1 of
                          (st2, a, cur, key_id2, sp2) \<Rightarrow>
                            if is_err st2 then (st2, octx, key_id2, sp2)
                            else (case compact_switch new_base a sp2 of
                                    (st3, sp3) \<Rightarrow>
                                      if is_err st3 then (st3, octx, key_id2, sp3)
                                      else (SYSPARAM_OK,
                                        map_option (\<lambda>_. zero_context\<lparr>addr := a, max_key_id := cur\<rparr>) octx,
                                        key_id2, sp3)))
                   | (st, _) \<Rightarrow> (st, octx, key_id, sp1)))"

section \<open>Public functions\<close>

text \<open>The search of \<open>sysparam_init\<close> for a region header; \<open>Inl\<close> is an early return.\<close>

fun init_scan_fuel :: "nat \<Rightarrow> nat \<Rightarrow> nat \<Rightarrow> sysparam \<Rightarrow> sysparam_status + nat \<times> region_header" where
  "init_scan_fuel 0 addr0 top_addr sp = Inl SYSPARAM_HANG"
| "init_scan_fuel (Suc n) addr0 top_addr sp =
     (if addr0 < top_addr then
        (case flash_read sp addr0 REGION_HEADER_SIZE of
           None \<Rightarrow> Inl SYSPARAM_ERR_IO
         | Some bs \<Rightarrow>
             let header0 = region_header_of_bytes bs
             in if magic header0 = SYSPARAM_MAGIC then Inr (addr0, header0)
                else init_scan_fuel n (u32 (addr0 + sector_size (flashchip sp))) top_addr sp)
      else Inl SYSPARAM_NOTFOUND)"

text \<open>Where the other region of the area is, given one header.\<close>

definition other_region :: "nat \<Rightarrow> region_header \<Rightarrow> nat \<Rightarrow> nat" where
  "other_region addr0 header0 ssz =
     (let num_sectors = unat (flags_size header0 AND REGION_MASK_SIZE)
      in if flags_size header0 AND REGION_FLAG_SECOND \<noteq> 0
         then u32_sub addr0 (u32 (num_sectors * ssz))
         else u32 (addr0 + u32 (num_sectors * ssz)))"

text \<open>The check of the other header, recreating a missing stale region.\<close>

definition init_other :: "nat \<Rightarrow> region_header \<Rightarrow> nat \<Rightarrow> sysparam \<Rightarrow> sysparam_status \<times> sysparam" where
  "init_other addr0 header0 addr1 sp =
     (case flash_read sp addr1 REGION_HEADER_SIZE of
        None \<Rightarrow> (SYSPARAM_ERR_IO, sp)
      | Some bs \<Rightarrow>
          let header1 = region_header_of_bytes bs
          in if magic header1 = SYSPARAM_MAGIC then
               if flags_size header0 AND REGION_FLAG_SECOND = flags_size header1 AND REGION_FLAG_SECOND
               then (SYSPARAM_ERR_CORRUPT, sp)
               else (SYSPARAM_OK, sp)
             else if flags_size header0 AND REGION_FLAG_ACTIVE \<noteq> 0 then
               (case format_region addr1 (unat (flags_size header0 AND REGION_MASK_SIZE)) sp of
                  (SYSPARAM_OK, sp1) \<Rightarrow> write_region_header addr1 addr0 False sp1
                | (st, sp1) \<Rightarrow> (st, sp1))
             else (SYSPARAM_ERR_CORRUPT, sp))"

definition init_find_end :: "sysparam \<Rightarrow> sysparam_status \<times> sysparam" where
  "init_find_end sp =
     (let sp0 = sp\<lparr>end_addr := region_end sp, force_compact := False\<rparr>
      in case find_entry (init_context sp0) ENTRY_ID_END False sp0 of
           (st, c, sp1) \<Rightarrow>
             if is_err st
             then (st, sp1\<lparr>cur_base := 0, alt_base := 0, end_addr := 0\<rparr>)
             else if st = SYSPARAM_OK then (SYSPARAM_OK, sp1\<lparr>end_addr := addr c\<rparr>)
             else (SYSPARAM_OK, sp1))"

definition sysparam_init :: "nat \<Rightarrow> nat \<Rightarrow> sysparam \<Rightarrow> sysparam_status \<times> sysparam" where
  "sysparam_init base_addr top_addr sp =
     (let ssz = sector_size (flashchip sp);
          base = base_addr - base_addr mod ssz;
          top = (if top_addr = 0 \<or> top_addr = base then u32 (base + ssz) else top_addr)
      in case init_scan_fuel ((top - base) div ssz + 2) base top sp of
           Inl st \<Rightarrow> (st, sp)
         | Inr (addr0, header0) \<Rightarrow>
             let addr1 = other_region addr0 header0 ssz
             in (case init_other addr0 header0 addr1 sp of
                   (SYSPARAM_OK, sp1) \<Rightarrow>
                     let active = (flags_size header0 AND REGION_FLAG_ACTIVE \<noteq> 0)
                     in init_find_end
                          (sp1\<lparr>region_size := u32 (unat (flags_size header0 AND REGION_MASK_SIZE) * ssz),
                               cur_base := (if active then addr0 else addr1),
                               alt_base := (if active then addr1 else addr0)\<rparr>)
                 | (st, sp1) \<Rightarrow> (st, sp1)))"

text \<open>The scan of \<open>sysparam_create_area\<close>: 32 bytes at a time, all of them erased.\<close>

fun scan_empty_fuel :: "nat \<Rightarrow> nat \<Rightarrow> nat \<Rightarrow> sysparam \<Rightarrow> sysparam_status" where
  "scan_empty_fuel 0 a limit sp = SYSPARAM_HANG"
| "scan_empty_fuel (Suc n) a limit sp =
     (if a < limit then
        (case flash_read sp a (SCAN_BUFFER_SIZE * 4) of
           None \<Rightarrow> SYSPARAM_ERR_IO
         | Some bs \<Rightarrow>
             if \<exists>i \<in> set [0..<SCAN_BUFFER_SIZE]. rd32 bs (4 * i) \<noteq> 0xffffffff then SYSPARAM_NOTFOUND
             else scan_empty_fuel n (u32 (a + SCAN_BUFFER_SIZE * 4)) limit sp)
      else SYSPARAM_OK)"

definition create_regions :: "nat \<Rightarrow> nat \<Rightarrow> nat \<Rightarrow> sysparam \<Rightarrow> sysparam_status \<times> sysparam" where
  "create_regions base_addr n rsize sp =
     (case format_region base_addr n sp of
        (st1, sp1) \<Rightarrow> if is_err st1 then (st1, sp1)
      else (case format_region (u32 (base_addr + rsize)) n sp1 of
        (st2, sp2) \<Rightarrow> if is_err st2 then (st2, sp2)
      else (case write_region_header base_addr (u32 (base_addr + rsize)) True sp2 of
        (st3, sp3) \<Rightarrow> if is_err st3 then (st3, sp3)
      else (case write_region_header (u32 (base_addr + rsize)) base_addr False sp3 of
        (st4, sp4) \<Rightarrow> if is_err st4 then (st4, sp4) else (SYSPARAM_OK, sp4)))))"

definition sysparam_create_area :: "nat \<Rightarrow> nat \<Rightarrow> bool \<Rightarrow> sysparam \<Rightarrow> sysparam_status \<times> sysparam" where
  "sysparam_create_area base_addr num_sectors force sp =
     (if num_sectors < 1 \<or> num_sectors mod 2 = 1 then (SYSPARAM_ERR_BADVALUE, sp)
      else
        let n = num_sectors div 2;
            rsize = u32 (n * sector_size (flashchip sp));
            limit = u32 (base_addr + u32 (rsize * 2));
            scan = (if force then SYSPARAM_OK
                    else scan_empty_fuel (u32 (rsize * 2) div (SCAN_BUFFER_SIZE * 4) + 2) base_addr limit sp)
        in if scan \<noteq> SYSPARAM_OK then (scan, sp)
           else
             let sp1 = (if cur_base sp = base_addr \<or> alt_base sp = base_addr
                        then sp\<lparr>cur_base := 0, alt_base := 0, end_addr := 0, region_size := 0,
                                force_compact := False\<rparr>
                        else sp)
             in create_regions base_addr n rsize sp1)"

definition sysparam_get_info :: "sysparam \<Rightarrow> sysparam_status + nat \<times> nat" where
  "sysparam_get_info sp =
     (if cur_base sp = 0 then Inl SYSPARAM_ERR_NOINIT
      else Inr (min (cur_base sp) (alt_base sp),
                u32 (region_size sp div sector_size (flashchip sp) * 2)))"

definition sysparam_compact :: "sysparam \<Rightarrow> sysparam_status \<times> sysparam" where
  "sysparam_compact sp =
     (if cur_base sp \<noteq> 0
      then (case compact_params None None sp of (st, _, _, sp') \<Rightarrow> (st, sp'))
      else (SYSPARAM_ERR_NOINIT, sp))"

text \<open>The search shared by the two ways to read a value: the key, then its value.\<close>

definition find_key_value :: "byte list \<Rightarrow> sysparam \<Rightarrow> sysparam_status \<times> sysparam_context \<times> sysparam" where
  "find_key_value key sp =
     (case find_key (init_context sp) (Some (take (u16 (length key)) key)) sp of
        (SYSPARAM_OK, kctx, sp1) \<Rightarrow> find_value kctx (idflags (entry kctx)) sp1
      | r \<Rightarrow> r)"

text \<open>A value as the two getters report it: the buffer, \<open>*actual_length\<close>, \<open>*is_binary\<close>.\<close>

record sysparam_data =
  bytes :: "byte list"
  actual_length :: nat
  is_binary :: bool

definition sysparam_get_data :: "byte list \<Rightarrow> sysparam \<Rightarrow> sysparam_status \<times> sysparam_data option \<times> sysparam" where
  "sysparam_get_data key sp =
     (if cur_base sp = 0 then (SYSPARAM_ERR_NOINIT, None, sp)
      else (case find_key_value key sp of
              (SYSPARAM_OK, c, sp1) \<Rightarrow>
                let len = elen (entry c)
                in if \<not> malloc_ok sp1 (len + 1) then (SYSPARAM_ERR_NOMEM, None, sp1)
                   else (case read_payload c len sp1 of
                           (SYSPARAM_OK, bs) \<Rightarrow>
                             (SYSPARAM_OK,
                              Some \<lparr>bytes = bs @ [0], actual_length = len,
                                    is_binary = (idflags (entry c) AND ENTRY_FLAG_BINARY \<noteq> 0)\<rparr>, sp1)
                         | (st, _) \<Rightarrow> (st, None, sp1))
            | (st, _, sp1) \<Rightarrow> (st, None, sp1)))"

definition sysparam_get_data_static :: "byte list \<Rightarrow> nat \<Rightarrow> sysparam
    \<Rightarrow> sysparam_status \<times> sysparam_data option \<times> sysparam" where
  "sysparam_get_data_static key dest_size sp =
     (if cur_base sp = 0 then (SYSPARAM_ERR_NOINIT, None, sp)
      else (case find_key_value key sp of
              (SYSPARAM_OK, c, sp1) \<Rightarrow>
                (case read_payload c dest_size sp1 of
                   (SYSPARAM_OK, bs) \<Rightarrow>
                     (SYSPARAM_OK,
                      Some \<lparr>bytes = bs, actual_length = elen (entry c),
                            is_binary = (idflags (entry c) AND ENTRY_FLAG_BINARY \<noteq> 0)\<rparr>, sp1)
                 | (st, _) \<Rightarrow> (st, None, sp1))
            | (st, _, sp1) \<Rightarrow> (st, None, sp1)))"

text \<open>Typed getters; the second component is the result stored through the pointer.\<close>

definition sysparam_get_string :: "byte list \<Rightarrow> sysparam \<Rightarrow> sysparam_status \<times> byte list option \<times> sysparam" where
  "sysparam_get_string key sp =
     (case sysparam_get_data key sp of
        (SYSPARAM_OK, Some d, sp1) \<Rightarrow>
          if is_binary d then (SYSPARAM_PARSEFAILED, None, sp1) else (SYSPARAM_OK, Some (bytes d), sp1)
      | (st, _, sp1) \<Rightarrow> (st, None, sp1))"

definition sysparam_get_int32 :: "byte list \<Rightarrow> sysparam \<Rightarrow> sysparam_status \<times> int option \<times> sysparam" where
  "sysparam_get_int32 key sp =
     (case sysparam_get_data_static key 4 sp of
        (SYSPARAM_OK, Some d, sp1) \<Rightarrow>
          if \<not> is_binary d \<or> actual_length d \<noteq> 4 then (SYSPARAM_PARSEFAILED, None, sp1)
          else (SYSPARAM_OK, Some (s32 (rd32 (bytes d) 0)), sp1)
      | (st, _, sp1) \<Rightarrow> (st, None, sp1))"

definition sysparam_get_int8 :: "byte list \<Rightarrow> sysparam \<Rightarrow> sysparam_status \<times> int option \<times> sysparam" where
  "sysparam_get_int8 key sp =
     (case sysparam_get_data_static key 1 sp of
        (SYSPARAM_OK, Some d, sp1) \<Rightarrow>
          if \<not> is_binary d \<or> actual_length d \<noteq> 1 then (SYSPARAM_PARSEFAILED, None, sp1)
          else (SYSPARAM_OK, Some (sint (bytes d ! 0)), sp1)
      | (st, _, sp1) \<Rightarrow> (st, None, sp1))"

text \<open>A C string in a buffer, and \<open>strcasecmp\<close> on ASCII.\<close>

definition c_string :: "byte list \<Rightarrow> byte list" where
  "c_string bs = takeWhile (\<lambda>b. b \<noteq> 0) bs"

definition tolower :: "byte \<Rightarrow> byte" where
  "tolower b = (if 65 \<le> b \<and> b \<le> 90 then b + 32 else b)"

definition chars :: "string \<Rightarrow> byte list" where
  "chars cs = map (\<lambda>c. word_of_nat (of_char c)) cs"

definition strcaseeq :: "byte list \<Rightarrow> string \<Rightarrow> bool" where
  "strcaseeq bs lit \<longleftrightarrow> map tolower bs = map tolower (chars lit)"

definition parse_bool :: "byte list \<Rightarrow> bool option" where
  "parse_bool s =
     (if strcaseeq s ''y'' \<or> strcaseeq s ''yes'' \<or> strcaseeq s ''t'' \<or> strcaseeq s ''true'' \<or> s = chars ''1''
      then Some True
      else if strcaseeq s ''n'' \<or> strcaseeq s ''no'' \<or> strcaseeq s ''f'' \<or> strcaseeq s ''false'' \<or> s = chars ''0''
      then Some False
      else None)"

text \<open>
  \<open>sysparam_get_bool\<close> reads into \<open>char buf[9]\<close> and stores a zero at \<open>buf[data_len]\<close>;
  \<open>None\<close> is the store outside the array.
\<close>

definition sysparam_get_bool :: "byte list \<Rightarrow> sysparam
    \<Rightarrow> (sysparam_status \<times> bool option \<times> sysparam) option" where
  "sysparam_get_bool key sp =
     (case sysparam_get_data_static key 8 sp of
        (SYSPARAM_OK, Some d, sp1) \<Rightarrow>
          let data_len = actual_length d
          in if is_binary d then
               if data_len = 1 then Some (SYSPARAM_OK, Some (bytes d ! 0 \<noteq> 0), sp1)
               else if data_len = 4 then Some (SYSPARAM_OK, Some (rd32 (bytes d) 0 \<noteq> 0), sp1)
               else Some (SYSPARAM_PARSEFAILED, None, sp1)
             else if 8 < data_len then None
             else (case parse_bool (c_string (take data_len (bytes d))) of
                     Some b \<Rightarrow> Some (SYSPARAM_OK, Some b, sp1)
                   | None \<Rightarrow> Some (SYSPARAM_PARSEFAILED, None, sp1))
      | (st, _, sp1) \<Rightarrow> Some (st, None, sp1))"

section \<open>Setting a value\<close>

text \<open>
  The local variables of \<open>sysparam_set_data\<close> that survive from one stage to the next. A
  stage returns \<open>Inl\<close> when the code leaves the block with a status.
\<close>

record set_locals =
  key_id :: int
  old_value_addr :: nat
  sctx :: sysparam_context

definition free_space :: "sysparam \<Rightarrow> nat" where
  "free_space sp = u32_sub (region_end sp) (end_addr sp)"

definition set_find :: "byte list \<Rightarrow> sysparam \<Rightarrow> sysparam_status \<times> set_locals \<times> sysparam" where
  "set_find key sp =
     (case find_key (init_context sp) (Some key) sp of
        (SYSPARAM_OK, c, sp1) \<Rightarrow>
          let kid = int (unat (entry_id (entry c)))
          in (case find_value c (word_of_int kid) sp1 of
                (st, c2, sp2) \<Rightarrow>
                  (st, \<lparr>key_id = kid, old_value_addr = (if st = SYSPARAM_OK then addr c2 else 0), sctx = c2\<rparr>, sp2))
      | (st, c, sp1) \<Rightarrow> (st, \<lparr>key_id = -1, old_value_addr = 0, sctx = c\<rparr>, sp1))"

text \<open>A call of \<open>_compact_params\<close> that is followed by \<open>old_value_addr = 0\<close> (\<open>reset\<close>) or not.\<close>

definition set_compact :: "bool \<Rightarrow> set_locals \<Rightarrow> sysparam
    \<Rightarrow> (sysparam_status \<times> sysparam) + (set_locals \<times> sysparam)" where
  "set_compact reset l sp =
     (case compact_params (Some (sctx l)) (Some (key_id l)) sp of
        (st, octx, okid, sp1) \<Rightarrow>
          if is_err st then Inl (st, sp1)
          else Inr (l\<lparr>key_id := (case okid of None \<Rightarrow> key_id l | Some k \<Rightarrow> k),
                      old_value_addr := (if reset then 0 else old_value_addr l),
                      sctx := (case octx of None \<Rightarrow> sctx l | Some c \<Rightarrow> c)\<rparr>, sp1))"

definition set_make_room :: "nat \<Rightarrow> set_locals \<Rightarrow> sysparam
    \<Rightarrow> (sysparam_status \<times> sysparam) + (set_locals \<times> sysparam)" where
  "set_make_room needed l sp =
     (if free_space sp < needed then
        (case find_entry (sctx l) ENTRY_ID_END False sp of
           (_, c, sp1) \<Rightarrow>
             let l1 = l\<lparr>sctx := c\<rparr>
             in if needed \<le> u32 (free_space sp + compactable c) then set_compact True l1 sp1
                else if 0 < unused_keys c then set_compact True l1 sp1
                else Inr (l1, sp1))
      else Inr (l, sp))"

definition set_check_ids :: "set_locals \<Rightarrow> sysparam
    \<Rightarrow> (sysparam_status \<times> sysparam) + (set_locals \<times> sysparam)" where
  "set_check_ids l sp =
     (if key_id l < 0 \<and> MAX_KEY_ID \<le> max_key_id (sctx l) then
        if 0 < unused_keys (sctx l) then set_compact True l sp
        else Inl (SYSPARAM_ERR_FULL, sp)
      else Inr (l, sp))"

definition set_forced_compact :: "set_locals \<Rightarrow> sysparam
    \<Rightarrow> (sysparam_status \<times> sysparam) + (set_locals \<times> sysparam)" where
  "set_forced_compact l sp = (if force_compact sp then set_compact False l sp else Inr (l, sp))"

text \<open>Writing the key entry if the key is new, then the value entry.\<close>

definition set_write :: "byte list \<Rightarrow> byte list \<Rightarrow> bool \<Rightarrow> set_locals \<Rightarrow> sysparam
    \<Rightarrow> (sysparam_status \<times> sysparam) + sysparam" where
  "set_write key val is_bin l sp =
     (let w = addr (snd (init_write_context sp));
          kid = (if key_id l < 0 then int (max_key_id (sctx l)) + 1 else key_id l);
          flags = ENTRY_FLAG_VALUE OR (if is_bin then ENTRY_FLAG_BINARY else 0)
      in case (if key_id l < 0 then write_entry w (word_of_int kid) key sp else (SYSPARAM_OK, sp)) of
           (st1, sp1) \<Rightarrow>
             if is_err st1 then Inl (st1, sp1)
             else
               let w1 = (if key_id l < 0 then u32 (w + ENTRY_SIZE (length key)) else w)
               in case write_entry w1 (word_of_int kid OR flags) val sp1 of
                    (st2, sp2) \<Rightarrow>
                      if is_err st2 then Inl (st2, sp2)
                      else Inr (sp2\<lparr>end_addr := u32 (w1 + ENTRY_SIZE (length val))\<rparr>))"

definition set_delete_old :: "sysparam_status \<Rightarrow> nat \<Rightarrow> sysparam \<Rightarrow> sysparam_status \<times> sysparam" where
  "set_delete_old st old sp = (if old \<noteq> 0 then delete_entry old sp else (st, sp))"

definition set_store :: "byte list \<Rightarrow> byte list \<Rightarrow> bool \<Rightarrow> set_locals \<Rightarrow> sysparam
    \<Rightarrow> sysparam_status \<times> sysparam" where
  "set_store key val is_bin l sp =
     (let needed = ENTRY_SIZE (length val) + (if key_id l < 0 then ENTRY_SIZE (length key) else 0)
      in case set_make_room needed l sp of
           Inl r \<Rightarrow> r
         | Inr (l1, sp1) \<Rightarrow>
             if free_space sp1 < needed then (SYSPARAM_ERR_FULL, sp1)
             else (case set_check_ids l1 sp1 of
                     Inl r \<Rightarrow> r
                   | Inr (l2, sp2) \<Rightarrow>
                       (case set_forced_compact l2 sp2 of
                          Inl r \<Rightarrow> r
                        | Inr (l3, sp3) \<Rightarrow>
                            (case set_write key val is_bin l3 sp3 of
                               Inl r \<Rightarrow> r
                             | Inr sp4 \<Rightarrow> set_delete_old SYSPARAM_OK (old_value_addr l3) sp4))))"

text \<open>
  The comparison with the stored value: \<open>Some st\<close> when the code leaves with \<open>st\<close>, \<open>None\<close>
  when the new value has to be written.
\<close>

definition set_unchanged :: "byte list \<Rightarrow> bool \<Rightarrow> set_locals \<Rightarrow> sysparam \<Rightarrow> sysparam_status option" where
  "set_unchanged val is_bin l sp =
     (let e = entry (sctx l)
      in if idflags e AND ENTRY_FLAG_BINARY = (if is_bin then ENTRY_FLAG_BINARY else 0)
            \<and> elen e = length val
         then (case compare_payload (sctx l) val sp of
                 SYSPARAM_NOTFOUND \<Rightarrow> None | st \<Rightarrow> Some st)
         else None)"

definition sysparam_set_data :: "byte list \<Rightarrow> byte list option \<Rightarrow> nat \<Rightarrow> bool \<Rightarrow> sysparam
    \<Rightarrow> sysparam_status \<times> sysparam" where
  "sysparam_set_data key0 val0 vlen is_bin sp =
     (let key = take (u16 (length key0)) key0
      in if u16 (length key0) = 0 then (SYSPARAM_ERR_BADVALUE, sp)
         else if MAX_VALUE_LEN < vlen then (SYSPARAM_ERR_BADVALUE, sp)
         else if cur_base sp = 0 then (SYSPARAM_ERR_NOINIT, sp)
         else
           let val = (case val0 of None \<Rightarrow> [] | Some v \<Rightarrow> take vlen v)
           in case set_find key sp of
                (st, l, sp1) \<Rightarrow>
                  if is_err st then (st, sp1)
                  else if val = [] then set_delete_old st (old_value_addr l) sp1
                  else if old_value_addr l = 0 then set_store key val is_bin l sp1
                  else (case set_unchanged val is_bin l sp1 of
                          Some st' \<Rightarrow> (st', sp1)
                        | None \<Rightarrow>
                            set_store key val is_bin
                              (l\<lparr>sctx := (sctx l)\<lparr>compactable :=
                                  u32 (compactable (sctx l) + ENTRY_SIZE (elen (entry (sctx l))))\<rparr>\<rparr>) sp1))"

definition sysparam_set_string :: "byte list \<Rightarrow> byte list \<Rightarrow> sysparam \<Rightarrow> sysparam_status \<times> sysparam" where
  "sysparam_set_string key str sp = sysparam_set_data key (Some str) (length str) False sp"

definition sysparam_set_int32 :: "byte list \<Rightarrow> int \<Rightarrow> sysparam \<Rightarrow> sysparam_status \<times> sysparam" where
  "sysparam_set_int32 key x sp = sysparam_set_data key (Some (le32 (nat (x mod 2 ^ 32)))) 4 True sp"

definition sysparam_set_int8 :: "byte list \<Rightarrow> int \<Rightarrow> sysparam \<Rightarrow> sysparam_status \<times> sysparam" where
  "sysparam_set_int8 key x sp = sysparam_set_data key (Some [word_of_int x]) 1 True sp"

definition sysparam_set_bool :: "byte list \<Rightarrow> bool \<Rightarrow> sysparam \<Rightarrow> (sysparam_status \<times> sysparam) option" where
  "sysparam_set_bool key x sp =
     (case sysparam_get_bool key sp of
        None \<Rightarrow> None
      | Some (st, old, sp1) \<Rightarrow>
          if st = SYSPARAM_OK \<and> old = Some x then Some (SYSPARAM_OK, sp1)
          else Some (sysparam_set_data key (Some (chars (if x then ''y'' else ''n''))) 1 False sp1))"

end
