(* ===== verification/Sysparam_Log.thy ===== *)
theory Sysparam_Log
  imports Sysparam_Model
begin

text \<open>
  The contents of a parameter region as a list of entries, and what the scanning routines
  of \<open>sysparam.c\<close> do on such a list: \<open>_find_entry\<close> visits the entries in order, its
  counters are a fold over the headers, and it never runs out of fuel.
\<close>

section \<open>The log of a region\<close>

type_synonym ent = "16 word \<times> byte list"

definition hdr :: "ent \<Rightarrow> entry_header" where
  "hdr e = \<lparr>idflags = fst e, elen = length (snd e)\<rparr>"

definition ent_bytes :: "ent \<Rightarrow> byte list" where
  "ent_bytes e = entry_header_bytes (hdr e) @ snd e"

definition log_bytes :: "ent list \<Rightarrow> byte list" where
  "log_bytes es = concat (map ent_bytes es)"

definition log_size :: "ent list \<Rightarrow> nat" where
  "log_size es = sum_list (map (\<lambda>e. ENTRY_SIZE (length (snd e))) es)"

definition log_at :: "memory \<Rightarrow> nat \<Rightarrow> ent list \<Rightarrow> bool" where
  "log_at m a es \<longleftrightarrow> mem_read m a (log_size es) = log_bytes es"

definition erased :: "memory \<Rightarrow> nat \<Rightarrow> nat \<Rightarrow> bool" where
  "erased m a b \<longleftrightarrow> (\<forall>x. a \<le> x \<and> x < b \<longrightarrow> m x = 255)"

text \<open>An entry the format can hold: not the end marker, and a 16 bit length.\<close>

definition ent_ok :: "ent \<Rightarrow> bool" where
  "ent_ok e \<longleftrightarrow> fst e \<noteq> 0xffff \<and> length (snd e) < 65536"

text \<open>
  The geometry of the area: the active region lies inside the chip with a second region's
  worth of flash behind it, which the unbounded payload reads of the iterator need.
\<close>

definition area_ok :: "sysparam \<Rightarrow> bool" where
  "area_ok sp \<longleftrightarrow> chip_ok (flashchip sp) \<and> cur_base sp \<noteq> 0
     \<and> region_size sp \<noteq> 0 \<and> region_size sp mod SPI_FLASH_SECTOR_SIZE = 0
     \<and> cur_base sp + 2 * region_size sp \<le> chip_size (flashchip sp)"

text \<open>The active region holds the log \<open>es\<close>, ending at \<open>end_addr\<close>, and is erased from there on.\<close>

definition store_holds :: "sysparam \<Rightarrow> ent list \<Rightarrow> bool" where
  "store_holds sp es \<longleftrightarrow> area_ok sp \<and> (\<forall>e \<in> set es. ent_ok e)
     \<and> log_at (flash sp) (cur_base sp + REGION_HEADER_SIZE) es
     \<and> end_addr sp = cur_base sp + REGION_HEADER_SIZE + log_size es
     \<and> end_addr sp \<le> cur_base sp + region_size sp
     \<and> erased (flash sp) (end_addr sp) (cur_base sp + region_size sp)"

text \<open>
  The end of the log can be recognised: it is the end of the region, or the two bytes of
  the identifier that follow are inside it.
\<close>

definition end_visible :: "sysparam \<Rightarrow> bool" where
  "end_visible sp \<longleftrightarrow> cur_base sp + region_size sp \<noteq> end_addr sp + 1"

declare write_and_verify_from.simps [simp del] compare_payload_from.simps [simp del]

named_theorems log_simps \<open>sizes and addresses of a region\<close>

lemmas header_sizes [log_simps] =
  REGION_HEADER_SIZE_def ENTRY_HEADER_SIZE_def ENTRY_SIZE_def

lemma hdr_simps [simp]: "idflags (hdr e) = fst e" "elen (hdr e) = length (snd e)"
  by (simp_all add: hdr_def)

lemma log_size_simps [simp]:
  "log_size [] = 0" "log_size (e # es) = ENTRY_SIZE (length (snd e)) + log_size es"
  "log_size (es @ fs) = log_size es + log_size fs"
  by (simp_all add: log_size_def)

lemma log_bytes_simps [simp]:
  "log_bytes [] = []" "log_bytes (e # es) = ent_bytes e @ log_bytes es"
  "log_bytes (es @ fs) = log_bytes es @ log_bytes fs"
  by (simp_all add: log_bytes_def)

lemma length_entry_header_bytes [simp]: "length (entry_header_bytes e) = ENTRY_HEADER_SIZE"
  by (simp add: entry_header_bytes_def ENTRY_HEADER_SIZE_def)

lemma length_ent_bytes [simp]: "length (ent_bytes e) = ENTRY_SIZE (length (snd e))"
  by (simp add: ent_bytes_def ENTRY_SIZE_def)

lemma length_log_bytes [simp]: "length (log_bytes es) = log_size es"
  by (induction es) simp_all

lemma log_at_append [simp]:
  "log_at m a (es @ fs) \<longleftrightarrow> log_at m a es \<and> log_at m (a + log_size es) fs"
  by (auto simp: log_at_def mem_read_add)

lemma log_at_Nil [simp]: "log_at m a []"
  by (simp add: log_at_def)

lemma log_at_Cons:
  "log_at m a (e # es) \<longleftrightarrow>
     mem_read m a ENTRY_HEADER_SIZE = entry_header_bytes (hdr e)
     \<and> mem_read m (a + ENTRY_HEADER_SIZE) (length (snd e)) = snd e
     \<and> log_at m (a + ENTRY_SIZE (length (snd e))) es"
  by (auto simp: log_at_def mem_read_add ent_bytes_def ENTRY_SIZE_def add.assoc)

lemma log_at_cong:
  "(\<And>x. a \<le> x \<Longrightarrow> x < a + log_size es \<Longrightarrow> m x = m' x) \<Longrightarrow> log_at m a es = log_at m' a es"
  unfolding log_at_def by (subst mem_read_cong [of _ m a m']) auto

text \<open>Encoding and decoding an entry header.\<close>

lemma entry_header_roundtrip [simp]:
  "elen e < 65536 \<Longrightarrow> entry_header_of_bytes (entry_header_bytes e) = e"
proof -
  assume len: "elen e < 65536"
  have "unat (idflags e) < 65536" using unsigned_less [of "idflags e", where 'a = nat] by simp
  then have "rd16 (le16 (unat (idflags e)) @ le16 (elen e)) 0 = unat (idflags e)" by simp
  moreover have "rd16 (le16 (unat (idflags e)) @ le16 (elen e)) 2 = elen e"
    using len rd16_append [of "le16 (unat (idflags e))" 2 "le16 (elen e) @ []" 0]
      rd16_le16 [of "elen e" "[]"] by simp
  ultimately show ?thesis
    by (simp add: entry_header_of_bytes_def entry_header_bytes_def)
qed

lemma erased_header:
  assumes "m a = 255" "m (a + 1) = 255"
  shows "idflags (entry_header_of_bytes (mem_read m a ENTRY_HEADER_SIZE)) = 0xffff"
  using assms by (simp add: entry_header_of_bytes_def rd16_def ENTRY_HEADER_SIZE_def)

section \<open>Scanning\<close>

lemma flash_read_inside:
  "chip_ok (flashchip sp) \<Longrightarrow> a + n \<le> chip_size (flashchip sp) \<Longrightarrow> flash_read sp a n = Some (mem_read (flash sp) a n)"
  by (simp add: flash_read_def spiflash.read_ok)

text \<open>
  The context of a scan that has passed the entries \<open>pre\<close>: at the region's start when
  there are none, else on the last of them.
\<close>

definition at_pos :: "sysparam \<Rightarrow> ent list \<Rightarrow> sysparam_context \<Rightarrow> bool" where
  "at_pos sp pre c \<longleftrightarrow>
     (if pre = [] then addr c = cur_base sp
      else addr c = cur_base sp + REGION_HEADER_SIZE + log_size (butlast pre) \<and> entry c = hdr (last pre))"

lemma at_pos_init [simp]: "at_pos sp [] (init_context sp)"
  by (simp add: at_pos_def init_context_def)

definition counted :: "ent list \<Rightarrow> sysparam_context \<Rightarrow> sysparam_context" where
  "counted es c = fold (\<lambda>e. count_entry (hdr e)) es c"

lemma counted_simps [simp]:
  "counted [] c = c" "counted (e # es) c = counted es (count_entry (hdr e) c)"
  "counted (es @ fs) c = counted fs (counted es c)"
  by (simp_all add: counted_def)

lemma count_entry_frame [simp]:
  "addr (count_entry e c) = addr c" "entry (count_entry e c) = entry c"
  by (auto simp: count_entry_def)

lemma count_entry_commute [simp]:
  "count_entry e (c\<lparr>addr := a\<rparr>) = (count_entry e c)\<lparr>addr := a\<rparr>"
  "count_entry e (c\<lparr>entry := h\<rparr>) = (count_entry e c)\<lparr>entry := h\<rparr>"
  by (auto simp: count_entry_def)

lemma counted_frame [simp]:
  "addr (counted es c) = addr c" "entry (counted es c) = entry c"
  by (induction es arbitrary: c) simp_all

lemma counted_commute [simp]:
  "counted es (c\<lparr>addr := a\<rparr>) = (counted es c)\<lparr>addr := a\<rparr>"
  "counted es (c\<lparr>entry := h\<rparr>) = (counted es c)\<lparr>entry := h\<rparr>"
  by (induction es arbitrary: c) simp_all

lemma area_bounds:
  assumes "area_ok sp"
  shows "cur_base sp + 2 * region_size sp \<le> 2 ^ 24" "4096 \<le> region_size sp"
    "chip_ok (flashchip sp)" "region_end sp = cur_base sp + region_size sp"
    "cur_base sp + 2 * region_size sp \<le> chip_size (flashchip sp)"
proof -
  show a: "cur_base sp + 2 * region_size sp \<le> 2 ^ 24"
    using assms by (auto simp: area_ok_def chip_ok_def)
  show "4096 \<le> region_size sp"
    using assms by (auto simp: area_ok_def SPI_FLASH_SECTOR_SIZE_def dest!: dvd_imp_le)
  show "chip_ok (flashchip sp)" "cur_base sp + 2 * region_size sp \<le> chip_size (flashchip sp)"
    using assms by (simp_all add: area_ok_def)
  show "region_end sp = cur_base sp + region_size sp"
    using a by (simp add: region_end_def)
qed

text \<open>The step to the first entry that \<open>pre\<close> leaves, and to the end.\<close>

lemma next_entry_step:
  assumes "store_holds sp (pre @ e # rest)" "at_pos sp pre c"
  defines "p \<equiv> cur_base sp + REGION_HEADER_SIZE + log_size pre"
  shows "next_entry c sp = (True, c\<lparr>addr := p\<rparr>, sp)"
    and "flash_read sp p ENTRY_HEADER_SIZE = Some (entry_header_bytes (hdr e))"
proof -
  have area: "area_ok sp" and fits: "p + ENTRY_SIZE (length (snd e)) \<le> cur_base sp + region_size sp"
    and at: "log_at (flash sp) p (e # rest)"
    using assms(1) by (auto simp: store_holds_def p_def)
  note b = area_bounds [OF area]
  show "flash_read sp p ENTRY_HEADER_SIZE = Some (entry_header_bytes (hdr e))"
    using at b fits by (simp add: flash_read_inside log_at_Cons log_simps)
  show "next_entry c sp = (True, c\<lparr>addr := p\<rparr>, sp)"
  proof (cases "pre = []")
    case True
    then show ?thesis
      using assms(2) b by (simp add: next_entry_def at_pos_def p_def log_simps)
  next
    case False
    then obtain bp l where pre: "pre = bp @ [l]" by (metis append_butlast_last_id)
    then show ?thesis
      using assms(2) b fits
      by (simp add: next_entry_def at_pos_def p_def log_simps)
  qed
qed

lemma next_entry_end:
  assumes "store_holds sp es" "end_visible sp" "at_pos sp es c"
  obtains h where "next_entry c sp = (False, c\<lparr>addr := end_addr sp, entry := h\<rparr>, sp)"
  | bs where "next_entry c sp = (True, c\<lparr>addr := end_addr sp\<rparr>, sp)"
      "flash_read sp (end_addr sp) ENTRY_HEADER_SIZE = Some bs"
      "idflags (entry_header_of_bytes bs) = 0xffff"
proof -
  have area: "area_ok sp" and e: "end_addr sp = cur_base sp + REGION_HEADER_SIZE + log_size es"
    and fits: "end_addr sp \<le> cur_base sp + region_size sp"
    and er: "erased (flash sp) (end_addr sp) (cur_base sp + region_size sp)"
    using assms(1) by (auto simp: store_holds_def)
  note b = area_bounds [OF area]
  have nxt: "next_entry c sp = (end_addr sp \<noteq> cur_base sp + region_size sp, c\<lparr>addr := end_addr sp\<rparr>, sp)"
  proof (cases "es = []")
    case True
    then show ?thesis
      using assms(3) b e by (simp add: next_entry_def at_pos_def log_simps)
  next
    case False
    then obtain bp l where "es = bp @ [l]" by (metis append_butlast_last_id)
    then show ?thesis
      using assms(3) b e fits by (simp add: next_entry_def at_pos_def log_simps)
  qed
  show thesis
  proof (cases "end_addr sp = cur_base sp + region_size sp")
    case True
    then have "next_entry c sp = (False, c\<lparr>addr := end_addr sp, entry := entry c\<rparr>, sp)"
      using nxt by simp
    then show thesis by (rule that(1))
  next
    case False
    then have "end_addr sp + 2 \<le> cur_base sp + region_size sp"
      using assms(2) fits by (simp add: end_visible_def)
    then have "flash sp (end_addr sp) = 255" "flash sp (end_addr sp + 1) = 255"
      using er by (simp_all add: erased_def)
    moreover have "flash_read sp (end_addr sp) ENTRY_HEADER_SIZE
        = Some (mem_read (flash sp) (end_addr sp) ENTRY_HEADER_SIZE)"
      using b fits by (intro flash_read_inside) (simp_all add: log_simps)
    ultimately show thesis
      using nxt False that(2) erased_header by simp
  qed
qed

text \<open>The context after the entries \<open>xs\<close> that follow \<open>pre\<close> were passed.\<close>

definition moved :: "sysparam \<Rightarrow> ent list \<Rightarrow> ent list \<Rightarrow> sysparam_context \<Rightarrow> sysparam_context" where
  "moved sp pre xs c =
     (if xs = [] then c
      else (counted xs c)\<lparr>addr := cur_base sp + REGION_HEADER_SIZE + log_size (pre @ butlast xs),
                          entry := hdr (last xs)\<rparr>)"

lemma moved_snoc:
  "moved sp pre (xs @ [e]) c
     = (counted (xs @ [e]) c)\<lparr>addr := cur_base sp + REGION_HEADER_SIZE + log_size (pre @ xs), entry := hdr e\<rparr>"
  by (simp add: moved_def)

lemma at_pos_moved: "at_pos sp pre c \<Longrightarrow> at_pos sp (pre @ xs) (moved sp pre xs c)"
  by (cases xs rule: rev_cases) (simp_all add: at_pos_def moved_def butlast_append)

lemma moved_Cons:
  "moved sp (pre @ [e]) xs
     ((count_entry (hdr e) c)\<lparr>addr := cur_base sp + REGION_HEADER_SIZE + log_size pre, entry := hdr e\<rparr>)
   = moved sp pre (e # xs) c"
  by (cases xs rule: rev_cases) (simp_all add: moved_def add.assoc)

lemma find_entry_fuel_skip:
  assumes "store_holds sp (pre @ xs @ rest)" "at_pos sp pre c"
    and "\<And>x. x \<in> set xs \<Longrightarrow> \<not> entry_matches (hdr x) mid fv"
  shows "find_entry_fuel (length xs + n) c mid fv sp
    = find_entry_fuel n (moved sp pre xs c) mid fv sp"
  using assms
proof (induction xs arbitrary: pre c)
  case Nil
  then show ?case by (simp add: moved_def)
next
  case (Cons e xs)
  let ?p = "cur_base sp + REGION_HEADER_SIZE + log_size pre"
  let ?c = "(count_entry (hdr e) c)\<lparr>addr := ?p, entry := hdr e\<rparr>"
  have step: "next_entry c sp = (True, c\<lparr>addr := ?p\<rparr>, sp)"
    "flash_read sp ?p ENTRY_HEADER_SIZE = Some (entry_header_bytes (hdr e))"
    using Cons.prems(1,2) next_entry_step [of sp pre e "xs @ rest" c] by simp_all
  have ok: "ent_ok e" using Cons.prems(1) by (simp add: store_holds_def)
  have "find_entry_fuel (length (e # xs) + n) c mid fv sp = find_entry_fuel (length xs + n) ?c mid fv sp"
    using Cons.prems(3) [of e] ok by (simp add: step ent_ok_def Let_def)
  also have "\<dots> = find_entry_fuel n (moved sp (pre @ [e]) xs ?c) mid fv sp"
    using Cons.prems by (intro Cons.IH) (auto simp: at_pos_def)
  finally show ?case by (simp only: moved_Cons)
qed

lemma log_length: "4 * length es \<le> log_size es"
  by (induction es) (simp_all add: log_simps)

lemma store_length: "store_holds sp es \<Longrightarrow> length es + 2 \<le> region_size sp"
  using log_length [of es] by (auto simp: store_holds_def log_simps)

text \<open>\<open>_find_entry\<close> finds the first matching entry behind its position.\<close>

lemma find_entry_hit:
  assumes "store_holds sp (pre @ xs @ e # rest)" "at_pos sp pre c"
    and "\<And>x. x \<in> set xs \<Longrightarrow> \<not> entry_matches (hdr x) mid fv" "entry_matches (hdr e) mid fv"
  shows "find_entry c mid fv sp = (SYSPARAM_OK, moved sp pre (xs @ [e]) c, sp)"
proof -
  let ?c = "moved sp pre xs c"
  define p where "p = cur_base sp + REGION_HEADER_SIZE + log_size (pre @ xs)"
  have pos: "at_pos sp (pre @ xs) ?c" by (rule at_pos_moved [OF assms(2)])
  have step: "next_entry ?c sp = (True, ?c\<lparr>addr := p\<rparr>, sp)"
    "flash_read sp p ENTRY_HEADER_SIZE = Some (entry_header_bytes (hdr e))"
    using assms(1) next_entry_step [of sp "pre @ xs" e rest ?c, OF _ pos] by (simp_all add: p_def)
  have ok: "ent_ok e" using assms(1) by (simp add: store_holds_def)
  define k where "k = region_size sp + 1 - length xs"
  have k: "region_size sp + 2 = length xs + Suc k"
    using store_length [OF assms(1)] by (simp add: k_def)
  have "find_entry c mid fv sp = find_entry_fuel (Suc k) ?c mid fv sp"
    unfolding find_entry_def k using assms by (intro find_entry_fuel_skip) auto
  also have "\<dots> = (SYSPARAM_OK, (count_entry (hdr e) ?c)\<lparr>addr := p, entry := hdr e\<rparr>, sp)"
    using assms(4) ok by (simp add: step ent_ok_def Let_def)
  finally show ?thesis
    by (cases xs rule: rev_cases) (simp_all add: moved_def p_def butlast_append add.assoc)
qed

text \<open>Without a match it stops at the end of the log, having counted all of it.\<close>

lemma find_entry_miss:
  assumes "store_holds sp (pre @ xs)" "end_visible sp" "at_pos sp pre c"
    and "\<And>x. x \<in> set xs \<Longrightarrow> \<not> entry_matches (hdr x) mid fv"
  shows "\<exists>h. find_entry c mid fv sp
    = (if mid = ENTRY_ID_END then SYSPARAM_OK else SYSPARAM_NOTFOUND,
       (counted xs c)\<lparr>addr := end_addr sp, entry := h\<rparr>, sp)"
proof -
  let ?c = "moved sp pre xs c"
  have pos: "at_pos sp (pre @ xs) ?c" by (rule at_pos_moved [OF assms(3)])
  define k where "k = region_size sp + 1 - length xs"
  have k: "region_size sp + 2 = length xs + Suc k"
    using store_length [OF assms(1)] by (simp add: k_def)
  have f: "find_entry c mid fv sp = find_entry_fuel (Suc k) ?c mid fv sp"
    unfolding find_entry_def k using assms find_entry_fuel_skip [of sp pre xs "[]" c mid fv "Suc k"] by simp
  have mv: "?c\<lparr>addr := a, entry := h\<rparr> = (counted xs c)\<lparr>addr := a, entry := h\<rparr>" for a h
    by (simp add: moved_def)
  show ?thesis
  proof (cases rule: next_entry_end [OF assms(1,2) pos])
    case (1 h)
    then show ?thesis
      using f by (cases "mid = ENTRY_ID_END") (auto simp: find_entry_end_def mv)
  next
    case (2 bs)
    then show ?thesis
      using f by (cases "mid = ENTRY_ID_END") (auto simp: find_entry_end_def mv Let_def)
  qed
qed

section \<open>Comparing payloads and finding keys\<close>

lemma compare_payload_from_exact:
  assumes "chip_ok (flashchip sp)" "a + length val \<le> chip_size (flashchip sp)" "i \<le> length val"
  shows "compare_payload_from a val i sp
    = (if mem_read (flash sp) (a + i) (length val - i) = drop i val then SYSPARAM_OK else SYSPARAM_NOTFOUND)"
  using assms
proof (induction a val i sp rule: compare_payload_from.induct)
  case (1 a val i sp)
  have a: "a + length val < 2 ^ 32" using "1.prems" by (auto simp: chip_ok_def)
  show ?case
  proof (cases "i < length val")
    case False
    then show ?thesis using "1.prems" by (subst compare_payload_from.simps) simp
  next
    case True
    define len where "len = min (length val - i) BOUNCE_BUFFER_SIZE"
    have len: "i + len \<le> length val" "u32 (a + i) = a + i"
      using True a by (auto simp: len_def)
    have rd: "flash_read sp (u32 (a + i)) len = Some (mem_read (flash sp) (a + i) len)"
      using "1.prems" len by (simp add: flash_read_inside)
    have split: "mem_read (flash sp) (a + i) (length val - i) = drop i val \<longleftrightarrow>
        mem_read (flash sp) (a + i) len = take len (drop i val)
        \<and> mem_read (flash sp) (a + (i + len)) (length val - (i + len)) = drop (i + len) val"
      using len mem_read_split [of len "drop i val" "flash sp" "a + i"]
      by (simp add: add.assoc add.commute [of len i])
    have step: "compare_payload_from a val i sp =
        (if mem_read (flash sp) (a + i) len = take len (drop i val)
         then compare_payload_from a val (i + BOUNCE_BUFFER_SIZE) sp else SYSPARAM_NOTFOUND)"
      using True rd unfolding compare_payload_from.simps [of a val i sp]
      by (auto simp: len_def)
    have rest: "compare_payload_from a val (i + BOUNCE_BUFFER_SIZE) sp
        = (if mem_read (flash sp) (a + (i + len)) (length val - (i + len)) = drop (i + len) val
           then SYSPARAM_OK else SYSPARAM_NOTFOUND)"
      if eq: "mem_read (flash sp) (a + i) len = take len (drop i val)"
    proof (cases "i + BOUNCE_BUFFER_SIZE \<le> length val")
      case True
      then have "len = BOUNCE_BUFFER_SIZE" by (simp add: len_def)
      then show ?thesis
        using "1.IH" [OF \<open>i < length val\<close> len_def rd] eq "1.prems" True by simp
    next
      case False
      then have "i + len = length val" using \<open>i < length val\<close> by (simp add: len_def)
      then show ?thesis using False by (subst compare_payload_from.simps) simp
    qed
    show ?thesis using step rest split by simp
  qed
qed

text \<open>\<open>_compare_payload\<close> on the entry of a scan compares exactly its payload.\<close>

lemma compare_payload_entry:
  assumes "store_holds sp (pre @ e # rest)"
    and "addr c = cur_base sp + REGION_HEADER_SIZE + log_size pre" "entry c = hdr e"
  shows "compare_payload c val sp = (if snd e = val then SYSPARAM_OK else SYSPARAM_NOTFOUND)"
proof (cases "length (snd e) = length val")
  case False
  then show ?thesis using assms by (auto simp: compare_payload_def)
next
  case True
  have area: "area_ok sp" and at: "log_at (flash sp) (addr c) (e # rest)"
    and fits: "addr c + ENTRY_SIZE (length (snd e)) \<le> cur_base sp + region_size sp"
    using assms by (auto simp: store_holds_def)
  note b = area_bounds [OF area]
  have "mem_read (flash sp) (addr c + ENTRY_HEADER_SIZE) (length val) = snd e"
    using at True by (simp add: log_at_Cons)
  then show ?thesis
    using True b fits assms compare_payload_from_exact [of sp "addr c + ENTRY_HEADER_SIZE" val 0]
    by (simp add: compare_payload_def log_simps)
qed

lemma read_payload_entry:
  assumes "store_holds sp (pre @ e # rest)"
    and "addr c = cur_base sp + REGION_HEADER_SIZE + log_size pre" "length (snd e) \<le> n"
    and "n \<le> region_size sp"
  shows "\<exists>more. read_payload c n sp = (SYSPARAM_OK, snd e @ more) \<and> length more = n - length (snd e)"
proof -
  have area: "area_ok sp" and at: "log_at (flash sp) (addr c) (e # rest)"
    and fits: "addr c + ENTRY_SIZE (length (snd e)) \<le> cur_base sp + region_size sp"
    using assms by (auto simp: store_holds_def)
  note b = area_bounds [OF area]
  let ?a = "addr c + ENTRY_HEADER_SIZE"
  have "mem_read (flash sp) ?a n
      = snd e @ mem_read (flash sp) (?a + length (snd e)) (n - length (snd e))"
    using at assms(3) mem_read_add [of "flash sp" ?a "length (snd e)" "n - length (snd e)"]
    by (simp add: log_at_Cons)
  moreover have "?a + n \<le> chip_size (flashchip sp)" "?a < 2 ^ 32"
    using b fits assms(4) by (simp_all add: log_simps)
  ultimately show ?thesis
    using b by (simp add: read_payload_def flash_read_inside)
qed

text \<open>Live keys and live values of a log.\<close>

definition live_key :: "ent \<Rightarrow> bool" where
  "live_key e \<longleftrightarrow> entry_live (hdr e) \<and> \<not> entry_is_value (hdr e)"

definition live_value :: "ent \<Rightarrow> bool" where
  "live_value e \<longleftrightarrow> entry_live (hdr e) \<and> entry_is_value (hdr e)"

definition eid :: "ent \<Rightarrow> 16 word" where
  "eid e = entry_id (hdr e)"

lemma matches_any_key [simp]: "entry_matches (hdr e) ENTRY_ID_ANY False \<longleftrightarrow> live_key e"
  by (auto simp: entry_matches_def live_key_def)

lemma any_not_end [simp]: "ENTRY_ID_ANY \<noteq> ENTRY_ID_END"
  by (simp add: ENTRY_ID_ANY_def ENTRY_ID_END_def)

lemma masked_not_any: "w AND ENTRY_MASK_ID \<noteq> ENTRY_ID_ANY"
proof
  assume "w AND ENTRY_MASK_ID = ENTRY_ID_ANY"
  then have "(w AND ENTRY_MASK_ID) AND ENTRY_ID_ANY = ENTRY_ID_ANY" by simp
  moreover have "(w AND ENTRY_MASK_ID) AND ENTRY_ID_ANY = 0"
    by (simp add: and.assoc ENTRY_MASK_ID_def ENTRY_ID_ANY_def)
  ultimately show False by (simp add: ENTRY_ID_ANY_def)
qed

lemma matches_value [simp]:
  "entry_matches (hdr e) (w AND ENTRY_MASK_ID) True \<longleftrightarrow> live_value e \<and> eid e = w AND ENTRY_MASK_ID"
  using masked_not_any [of w] by (auto simp: entry_matches_def live_value_def eid_def)

lemma eid_masked [simp]: "eid e AND ENTRY_MASK_ID = eid e"
  by (simp add: eid_def entry_id_def and.assoc)

lemma moved_moved: "moved sp (pre @ ys) zs (moved sp pre ys c) = moved sp pre (ys @ zs) c"
  by (cases zs rule: rev_cases; cases ys rule: rev_cases) (simp_all add: moved_def butlast_append)

lemma moved_last [simp]:
  "addr (moved sp pre (xs @ [e]) c) = cur_base sp + REGION_HEADER_SIZE + log_size (pre @ xs)"
  "entry (moved sp pre (xs @ [e]) c) = hdr e"
  by (simp_all add: moved_def)

lemma find_key_fuel_pass:
  assumes "store_holds sp (pre @ ys @ d # zs)" "at_pos sp pre c"
    and "\<And>y. y \<in> set ys \<Longrightarrow> \<not> live_key y" "live_key d" "snd d \<noteq> k"
  shows "find_key_fuel (Suc n) c (Some k) sp = find_key_fuel n (moved sp pre (ys @ [d]) c) (Some k) sp"
proof -
  have hit: "find_entry c ENTRY_ID_ANY False sp = (SYSPARAM_OK, moved sp pre (ys @ [d]) c, sp)"
    using assms by (intro find_entry_hit) auto
  have "compare_payload (moved sp pre (ys @ [d]) c) k sp = SYSPARAM_NOTFOUND"
    using compare_payload_entry [of sp "pre @ ys" d zs "moved sp pre (ys @ [d]) c" k] assms by simp
  then show ?thesis by (simp add: hit)
qed

lemma find_key_fuel_hit:
  assumes "store_holds sp (pre @ xs @ e # rest)" "at_pos sp pre c"
    and "\<And>x. x \<in> set xs \<Longrightarrow> \<not> (live_key x \<and> snd x = k)" "live_key e" "snd e = k"
    and "length xs < n"
  shows "find_key_fuel n c (Some k) sp = (SYSPARAM_OK, moved sp pre (xs @ [e]) c, sp)"
  using assms
proof (induction n arbitrary: pre xs c)
  case (Suc n)
  show ?case
  proof (cases "\<exists>x \<in> set xs. live_key x")
    case False
    have hit: "find_entry c ENTRY_ID_ANY False sp = (SYSPARAM_OK, moved sp pre (xs @ [e]) c, sp)"
      using Suc.prems False by (intro find_entry_hit) auto
    have "compare_payload (moved sp pre (xs @ [e]) c) k sp = SYSPARAM_OK"
      using compare_payload_entry [of sp "pre @ xs" e rest "moved sp pre (xs @ [e]) c" k] Suc.prems by simp
    then show ?thesis using Suc.prems by (simp add: hit)
  next
    case True
    obtain ys d zs where xs: "xs = ys @ d # zs" and d: "live_key d"
      and ys: "\<And>y. y \<in> set ys \<Longrightarrow> \<not> live_key y"
      using split_list_first_prop [OF True] by blast
    let ?c = "moved sp pre (ys @ [d]) c"
    have "find_key_fuel (Suc n) c (Some k) sp = find_key_fuel n ?c (Some k) sp"
      using Suc.prems xs d ys by (intro find_key_fuel_pass [where zs = "zs @ e # rest"]) auto
    also have "\<dots> = (SYSPARAM_OK, moved sp (pre @ ys @ [d]) (zs @ [e]) ?c, sp)"
      using Suc.prems xs at_pos_moved [of sp pre c "ys @ [d]"] by (intro Suc.IH) auto
    finally show ?thesis using moved_moved [of sp pre "ys @ [d]" "zs @ [e]" c] xs by simp
  qed
qed simp

lemma find_key_fuel_miss:
  assumes "store_holds sp (pre @ xs)" "end_visible sp" "at_pos sp pre c"
    and "\<And>x. x \<in> set xs \<Longrightarrow> \<not> (live_key x \<and> snd x = k)" "length xs < n"
  shows "\<exists>h. find_key_fuel n c (Some k) sp
    = (SYSPARAM_NOTFOUND, (counted xs c)\<lparr>addr := end_addr sp, entry := h\<rparr>, sp)"
  using assms
proof (induction n arbitrary: pre xs c)
  case (Suc n)
  show ?case
  proof (cases "\<exists>x \<in> set xs. live_key x")
    case False
    obtain h where "find_entry c ENTRY_ID_ANY False sp
        = (if ENTRY_ID_ANY = ENTRY_ID_END then SYSPARAM_OK else SYSPARAM_NOTFOUND,
           (counted xs c)\<lparr>addr := end_addr sp, entry := h\<rparr>, sp)"
      using find_entry_miss [of sp pre xs c ENTRY_ID_ANY False] Suc.prems False by auto
    then show ?thesis by auto
  next
    case True
    obtain ys d zs where xs: "xs = ys @ d # zs" and d: "live_key d"
      and ys: "\<And>y. y \<in> set ys \<Longrightarrow> \<not> live_key y"
      using split_list_first_prop [OF True] by blast
    let ?c = "moved sp pre (ys @ [d]) c"
    have "find_key_fuel (Suc n) c (Some k) sp = find_key_fuel n ?c (Some k) sp"
      using Suc.prems xs d ys by (intro find_key_fuel_pass [where zs = zs]) auto
    moreover have "\<exists>h. find_key_fuel n ?c (Some k) sp
        = (SYSPARAM_NOTFOUND, (counted zs ?c)\<lparr>addr := end_addr sp, entry := h\<rparr>, sp)"
      using Suc.prems xs at_pos_moved [of sp pre c "ys @ [d]"]
      by (intro Suc.IH [of "pre @ ys @ [d]"]) auto
    ultimately show ?thesis using xs by (simp add: moved_def)
  qed
qed simp

lemma find_key_hit:
  assumes "store_holds sp (xs @ e # rest)" "\<And>x. x \<in> set xs \<Longrightarrow> \<not> (live_key x \<and> snd x = k)"
    and "live_key e" "snd e = k"
  shows "find_key (init_context sp) (Some k) sp
    = (SYSPARAM_OK, moved sp [] (xs @ [e]) (init_context sp), sp)"
  unfolding find_key_def using assms store_length [OF assms(1)]
  by (intro find_key_fuel_hit [where rest = rest]) auto

lemma find_key_miss:
  assumes "store_holds sp es" "end_visible sp" "\<And>x. x \<in> set es \<Longrightarrow> \<not> (live_key x \<and> snd x = k)"
  obtains h where "find_key (init_context sp) (Some k) sp
    = (SYSPARAM_NOTFOUND, (counted es (init_context sp))\<lparr>addr := end_addr sp, entry := h\<rparr>, sp)"
  using find_key_fuel_miss [of sp "[]" es "init_context sp" k "region_size sp + 2"] assms
    store_length [OF assms(1)] unfolding find_key_def by auto

text \<open>The next key, as the iterator asks for it.\<close>

lemma find_next_key_hit:
  assumes "store_holds sp (pre @ xs @ e # rest)" "at_pos sp pre c"
    and "\<And>x. x \<in> set xs \<Longrightarrow> \<not> live_key x" "live_key e"
  shows "find_key c None sp = (SYSPARAM_OK, moved sp pre (xs @ [e]) c, sp)"
  using find_entry_hit [OF assms(1,2), of ENTRY_ID_ANY False] assms(3,4) by (simp add: find_key_def)

lemma find_next_key_miss:
  assumes "store_holds sp (pre @ xs)" "end_visible sp" "at_pos sp pre c"
    and "\<And>x. x \<in> set xs \<Longrightarrow> \<not> live_key x"
  obtains c' where "find_key c None sp = (SYSPARAM_NOTFOUND, c', sp)"
proof -
  obtain h where "find_entry c ENTRY_ID_ANY False sp
      = (if ENTRY_ID_ANY = ENTRY_ID_END then SYSPARAM_OK else SYSPARAM_NOTFOUND,
         (counted xs c)\<lparr>addr := end_addr sp, entry := h\<rparr>, sp)"
    using find_entry_miss [of sp pre xs c ENTRY_ID_ANY False] assms by auto
  then show thesis using that by (simp add: find_key_def)
qed

lemma find_value_hit:
  assumes "store_holds sp (pre @ xs @ e # rest)" "at_pos sp pre c"
    and "\<And>x. x \<in> set xs \<Longrightarrow> \<not> (live_value x \<and> eid x = w AND ENTRY_MASK_ID)"
    and "live_value e" "eid e = w AND ENTRY_MASK_ID"
  shows "find_value c w sp = (SYSPARAM_OK, moved sp pre (xs @ [e]) c, sp)"
  unfolding find_value_def using assms by (intro find_entry_hit) auto

lemma find_value_miss:
  assumes "store_holds sp (pre @ xs)" "end_visible sp" "at_pos sp pre c"
    and "\<And>x. x \<in> set xs \<Longrightarrow> \<not> (live_value x \<and> eid x = w AND ENTRY_MASK_ID)"
    and "w AND ENTRY_MASK_ID \<noteq> ENTRY_ID_END"
  obtains h where "find_value c w sp
    = (SYSPARAM_NOTFOUND, (counted xs c)\<lparr>addr := end_addr sp, entry := h\<rparr>, sp)"
proof -
  obtain h where "find_entry c (w AND ENTRY_MASK_ID) True sp
      = (if w AND ENTRY_MASK_ID = ENTRY_ID_END then SYSPARAM_OK else SYSPARAM_NOTFOUND,
         (counted xs c)\<lparr>addr := end_addr sp, entry := h\<rparr>, sp)"
    using find_entry_miss [of sp pre xs c "w AND ENTRY_MASK_ID" True] assms by auto
  then show thesis using that assms(5) by (simp add: find_value_def)
qed

end
