(* ===== verification/Sysparam_Map.thy ===== *)
theory Sysparam_Map
  imports Sysparam_Log
begin

text \<open>
  The parameter store as a finite map from key names to values: the abstraction of a log,
  the invariant that the log of a healthy region satisfies, and the getters of
  \<open>sysparam.c\<close> as lookups in that map.
\<close>

section \<open>The map a log stands for\<close>

definition binary_flag :: "16 word \<Rightarrow> bool" where
  "binary_flag f \<longleftrightarrow> f AND ENTRY_FLAG_BINARY \<noteq> 0"

definition keymap :: "ent list \<Rightarrow> (byte list \<times> 16 word) list" where
  "keymap es = map (\<lambda>e. (snd e, eid e)) (filter live_key es)"

definition valmap :: "ent list \<Rightarrow> (16 word \<times> byte list \<times> bool) list" where
  "valmap es = map (\<lambda>e. (eid e, snd e, binary_flag (fst e))) (filter live_value es)"

definition alookup :: "ent list \<Rightarrow> byte list \<rightharpoonup> byte list \<times> bool" where
  "alookup es k = (case map_of (keymap es) k of None \<Rightarrow> None | Some i \<Rightarrow> map_of (valmap es) i)"

text \<open>Every live value follows the live key it belongs to; \<open>ks\<close> are the key ids seen so far.\<close>

fun vals_follow :: "16 word list \<Rightarrow> ent list \<Rightarrow> bool" where
  "vals_follow ks [] = True"
| "vals_follow ks (e # es) =
     ((live_value e \<longrightarrow> eid e \<in> set ks) \<and> vals_follow (if live_key e then eid e # ks else ks) es)"

definition key_ids :: "ent list \<Rightarrow> nat list" where
  "key_ids es = map (\<lambda>e. unat (eid e)) (filter live_key es)"

definition log_inv :: "ent list \<Rightarrow> bool" where
  "log_inv es \<longleftrightarrow> distinct (map fst (keymap es)) \<and> sorted_wrt (<) (key_ids es)
     \<and> (\<forall>i \<in> set (key_ids es). 1 \<le> i \<and> i \<le> MAX_KEY_ID)
     \<and> distinct (map fst (valmap es)) \<and> vals_follow [] es"

lemma keymap_append [simp]: "keymap (xs @ ys) = keymap xs @ keymap ys"
  by (simp add: keymap_def)

lemma valmap_append [simp]: "valmap (xs @ ys) = valmap xs @ valmap ys"
  by (simp add: valmap_def)

lemma keymap_Cons [simp]:
  "keymap [] = []" "keymap (e # es) = (if live_key e then (snd e, eid e) # keymap es else keymap es)"
  by (simp_all add: keymap_def)

lemma valmap_Cons [simp]:
  "valmap [] = []"
  "valmap (e # es) = (if live_value e then (eid e, snd e, binary_flag (fst e)) # valmap es else valmap es)"
  by (simp_all add: valmap_def)

lemma key_ids_simps [simp]:
  "key_ids [] = []" "key_ids (e # es) = (if live_key e then unat (eid e) # key_ids es else key_ids es)"
  "key_ids (xs @ ys) = key_ids xs @ key_ids ys"
  by (simp_all add: key_ids_def)

lemma key_not_value [simp]: "live_key e \<Longrightarrow> \<not> live_value e" "live_value e \<Longrightarrow> \<not> live_key e"
  by (auto simp: live_key_def live_value_def)

lemma vals_follow_append:
  "vals_follow ks (xs @ ys) \<longleftrightarrow> vals_follow ks xs \<and> vals_follow (rev (map snd (keymap xs)) @ ks) ys"
  by (induction xs arbitrary: ks) auto

lemma vals_follow_ids: "vals_follow ks es \<Longrightarrow> fst ` set (valmap es) \<subseteq> set ks \<union> snd ` set (keymap es)"
  by (induction ks es rule: vals_follow.induct) (auto split: if_splits)

lemma unat_keymap: "map unat (map snd (keymap es)) = key_ids es"
  by (simp add: keymap_def key_ids_def)

lemma sorted_wrt_distinct: "sorted_wrt (<) (xs :: nat list) \<Longrightarrow> distinct xs"
  by (induction xs) auto

lemma log_inv_ids_distinct: "log_inv es \<Longrightarrow> distinct (map snd (keymap es))"
  by (metis distinct_map log_inv_def sorted_wrt_distinct unat_keymap)

lemma keymap_in: "live_key e \<Longrightarrow> (snd e, eid e) \<in> set (keymap (xs @ e # ys))"
  by (simp add: keymap_def)

text \<open>The value of a key is looked for behind the key only; nothing before it can match.\<close>

lemma alookup_split:
  assumes "log_inv (xs @ K # ys)" "live_key K"
  shows "alookup (xs @ K # ys) (snd K) = map_of (valmap ys) (eid K)"
proof -
  have d: "distinct (map fst (keymap (xs @ K # ys)))" "distinct (map snd (keymap (xs @ K # ys)))"
    and v: "vals_follow [] xs"
    using assms log_inv_ids_distinct [OF assms(1)]
    by (auto simp: log_inv_def vals_follow_append simp del: keymap_append keymap_Cons)
  have "map_of (keymap (xs @ K # ys)) (snd K) = Some (eid K)"
    using d(1) keymap_in [OF assms(2)] by (rule map_of_is_SomeI)
  moreover
  have "eid K \<notin> fst ` set (valmap xs)"
    using vals_follow_ids [OF v] d(2) assms(2) by auto
  then have "map_of (valmap xs) (eid K) = None" by (simp add: map_of_eq_None_iff)
  ultimately show ?thesis
    using assms(2) by (simp add: alookup_def map_add_def del: keymap_append keymap_Cons)
qed

lemma alookup_absent: "(\<And>x. x \<in> set es \<Longrightarrow> \<not> (live_key x \<and> snd x = k)) \<Longrightarrow> alookup es k = None"
proof -
  assume "\<And>x. x \<in> set es \<Longrightarrow> \<not> (live_key x \<and> snd x = k)"
  then have "map_of (keymap es) k = None" by (fastforce simp: map_of_eq_None_iff keymap_def)
  then show ?thesis by (simp add: alookup_def)
qed

lemma map_of_valmap_first:
  assumes "\<And>x. x \<in> set us \<Longrightarrow> \<not> (live_value x \<and> eid x = i)"
  shows "map_of (valmap (us @ vs)) i = map_of (valmap vs) i"
  using assms by (induction us) auto

lemma eid_not_end:
  assumes "log_inv es" "e \<in> set es" "live_key e"
  shows "eid e \<noteq> ENTRY_ID_END" "1 \<le> unat (eid e)" "unat (eid e) \<le> MAX_KEY_ID"
proof -
  have "unat (eid e) \<in> set (key_ids es)" using assms by (auto simp: key_ids_def)
  then show "1 \<le> unat (eid e)" "unat (eid e) \<le> MAX_KEY_ID" using assms(1) by (auto simp: log_inv_def)
  then show "eid e \<noteq> ENTRY_ID_END" by (auto simp: MAX_KEY_ID_def ENTRY_ID_END_def)
qed

section \<open>Reading\<close>

text \<open>The value behind a key: found at the first live value entry with the key's id.\<close>

lemma find_value_cases:
  assumes "store_holds sp (xs @ K # ys)" "log_inv (xs @ K # ys)" "live_key K" "at_pos sp (xs @ [K]) c"
    and "w AND ENTRY_MASK_ID = eid K" "map_of (valmap ys) (eid K) = None \<longrightarrow> end_visible sp"
  obtains (absent) c' where "map_of (valmap ys) (eid K) = None" "find_value c w sp = (SYSPARAM_NOTFOUND, c', sp)"
  | (present) us V vs c' where "ys = us @ V # vs" "live_value V" "eid V = eid K"
      "map_of (valmap ys) (eid K) = Some (snd V, binary_flag (fst V))"
      "find_value c w sp = (SYSPARAM_OK, c', sp)" "entry c' = hdr V"
      "addr c' = cur_base sp + REGION_HEADER_SIZE + log_size (xs @ K # us)"
proof (cases "\<exists>x \<in> set ys. live_value x \<and> eid x = eid K")
  case False
  have none: "map_of (valmap ys) (eid K) = None"
    using False by (auto simp: map_of_eq_None_iff valmap_def)
  have "eid K \<noteq> ENTRY_ID_END" using eid_not_end [OF assms(2), of K] assms(3) by simp
  then obtain h where "find_value c w sp
      = (SYSPARAM_NOTFOUND, (counted ys c)\<lparr>addr := end_addr sp, entry := h\<rparr>, sp)"
    using find_value_miss [of sp "xs @ [K]" ys c w] assms none False by auto
  then show thesis using absent none by blast
next
  case True
  then obtain us V vs where ys: "ys = us @ V # vs" and V: "live_value V" "eid V = eid K"
    and us: "\<And>x. x \<in> set us \<Longrightarrow> \<not> (live_value x \<and> eid x = eid K)"
    using split_list_first_prop [OF True] by blast
  define c2 where "c2 = moved sp (xs @ [K]) (us @ [V]) c"
  have "find_value c w sp = (SYSPARAM_OK, c2, sp)"
    unfolding c2_def using assms(1,4,5) ys V us by (intro find_value_hit) auto
  moreover have "map_of (valmap ys) (eid K) = Some (snd V, binary_flag (fst V))"
    using V us map_of_valmap_first [of us "eid K" "V # vs"] by (simp add: ys)
  ultimately show thesis using present [of us V vs c2] ys V by (simp add: c2_def)
qed

text \<open>
  The search of both getters. It succeeds exactly when the map has the key, at an entry
  whose payload is the value.
\<close>

lemma find_key_value_cases:
  assumes "store_holds sp es" "alookup es key = None \<longrightarrow> end_visible sp" "log_inv es" "length key < 65536"
  obtains (absent) c where "alookup es key = None" "find_key_value key sp = (SYSPARAM_NOTFOUND, c, sp)"
  | (present) xs V ys c where "es = xs @ V # ys" "alookup es key = Some (snd V, binary_flag (fst V))"
      "find_key_value key sp = (SYSPARAM_OK, c, sp)" "entry c = hdr V"
      "addr c = cur_base sp + REGION_HEADER_SIZE + log_size xs"
proof -
  let ?i = "init_context sp"
  have key: "take (u16 (length key)) key = key" using assms(4) by simp
  show thesis
  proof (cases "\<exists>x \<in> set es. live_key x \<and> snd x = key")
    case False
    then obtain h where "find_key ?i (Some key) sp
        = (SYSPARAM_NOTFOUND, (counted es ?i)\<lparr>addr := end_addr sp, entry := h\<rparr>, sp)"
      using find_key_miss [OF assms(1), of key] assms(2) alookup_absent [of es key] by auto
    then show thesis
      using absent alookup_absent [of es key] False by (auto simp: find_key_value_def key)
  next
    case True
    then obtain xs K ys where es: "es = xs @ K # ys" and K: "live_key K" "snd K = key"
      and xs: "\<And>x. x \<in> set xs \<Longrightarrow> \<not> (live_key x \<and> snd x = key)"
      using split_list_first_prop [OF True] by blast
    define c where "c = moved sp [] (xs @ [K]) ?i"
    have fk: "find_key ?i (Some key) sp = (SYSPARAM_OK, c, sp)"
      unfolding c_def using assms(1) es K xs by (intro find_key_hit) auto
    have pos: "at_pos sp (xs @ [K]) c"
      unfolding c_def using at_pos_moved [of sp "[]" ?i "xs @ [K]"] by simp
    have ent: "idflags (entry c) AND ENTRY_MASK_ID = eid K"
      by (simp add: c_def eid_def entry_id_def)
    have lk: "alookup es key = map_of (valmap ys) (eid K)"
      using alookup_split [of xs K ys] assms(3) es K by simp
    show thesis
    proof (cases rule: find_value_cases [OF assms(1,3) [unfolded es] K(1) pos ent])
      case 1
      then show ?case using assms(2) lk by simp
    next
      case (2 c')
      then show thesis using absent lk fk by (auto simp: find_key_value_def key)
    next
      case (3 us V vs c')
      then show thesis using present [of "xs @ K # us" V vs c'] es lk fk by (simp add: find_key_value_def key)
    qed
  qed
qed

text \<open>
  \<open>sysparam_get_data\<close> is lookup in the map, and leaves the store as it was.
\<close>

lemma get_data_alookup:
  assumes "store_holds sp es" "alookup es key = None \<longrightarrow> end_visible sp" "log_inv es" "length key < 65536"
    and "\<And>n. malloc_ok sp n"
  shows "sysparam_get_data key sp = (case alookup es key of
      None \<Rightarrow> (SYSPARAM_NOTFOUND, None, sp)
    | Some (v, b) \<Rightarrow> (SYSPARAM_OK, Some \<lparr>bytes = v @ [0], actual_length = length v, is_binary = b\<rparr>, sp))"
proof -
  have init: "cur_base sp \<noteq> 0" using assms(1) by (auto simp: store_holds_def area_ok_def)
  show ?thesis
  proof (cases rule: find_key_value_cases [OF assms(1-4)])
    case (1 c)
    then show ?thesis using init by (simp add: sysparam_get_data_def)
  next
    case (2 xs V ys c)
    have "length (snd V) \<le> region_size sp"
      using assms(1) 2(1) by (auto simp: store_holds_def log_simps)
    then have "read_payload c (length (snd V)) sp = (SYSPARAM_OK, snd V)"
      using read_payload_entry [of sp xs V ys c "length (snd V)"] assms(1) 2 by simp
    then show ?thesis
      using 2 assms(5) init by (simp add: sysparam_get_data_def binary_flag_def)
  qed
qed

lemma get_data_static_alookup:
  assumes "store_holds sp es" "alookup es key = None \<longrightarrow> end_visible sp" "log_inv es" "length key < 65536"
    and "n \<le> region_size sp" "\<And>v b. alookup es key = Some (v, b) \<Longrightarrow> length v \<le> n"
  shows "case alookup es key of
      None \<Rightarrow> sysparam_get_data_static key n sp = (SYSPARAM_NOTFOUND, None, sp)
    | Some (v, b) \<Rightarrow> \<exists>more. sysparam_get_data_static key n sp
        = (SYSPARAM_OK, Some \<lparr>bytes = v @ more, actual_length = length v, is_binary = b\<rparr>, sp)"
proof -
  have init: "cur_base sp \<noteq> 0" using assms(1) by (auto simp: store_holds_def area_ok_def)
  show ?thesis
  proof (cases rule: find_key_value_cases [OF assms(1-4)])
    case (1 c)
    then show ?thesis using init by (simp add: sysparam_get_data_static_def)
  next
    case (2 xs V ys c)
    then have "\<exists>more. read_payload c n sp = (SYSPARAM_OK, snd V @ more)"
      using read_payload_entry [of sp xs V ys c n] assms(1,5,6) by auto
    then show ?thesis
      using 2 init by (auto simp: sysparam_get_data_static_def binary_flag_def)
  qed
qed

end
