(* ===== verification/Sysparam_Write.thy ===== *)
theory Sysparam_Write
  imports Sysparam_Map
begin

text \<open>
  The routines of \<open>sysparam.c\<close> that change the flash, as edits of the log: a verified
  write stores its bytes, \<open>_write_entry\<close> appends an entry, \<open>_delete_entry\<close> clears the
  alive flag of one.
\<close>

section \<open>Verified writes\<close>

text \<open>The bytes can be programmed over what the flash holds: no bit has to be set.\<close>

definition clearable :: "memory \<Rightarrow> nat \<Rightarrow> byte list \<Rightarrow> bool" where
  "clearable m a bs \<longleftrightarrow> (\<forall>i < length bs. m (a + i) AND bs ! i = bs ! i)"

lemma nor_program_put: "clearable m a bs \<Longrightarrow> nor_program a bs m = mem_put a bs m"
  unfolding fun_eq_iff nor_program_apply mem_put_def clearable_def
  by (metis le_add_diff_inverse nat_add_left_cancel_less)

lemma erased_clearable: "erased m a (a + length bs) \<Longrightarrow> clearable m a bs"
  by (auto simp: erased_def clearable_def)

lemma clearable_take: "clearable m a bs \<Longrightarrow> clearable m a (take n bs)"
  by (simp add: clearable_def)

lemma clearable_drop: "clearable m a bs \<Longrightarrow> clearable m (a + n) (drop n bs)"
  by (simp add: clearable_def add.assoc)

lemma clearable_put_before:
  "clearable m a bs \<Longrightarrow> b + length cs \<le> a \<Longrightarrow> clearable (mem_put b cs m) a bs"
  by (simp add: clearable_def mem_put_def)

lemma write_and_verify_from_exact:
  assumes "chip_ok (flashchip sp)" "a + length data \<le> chip_size (flashchip sp)"
    and "clearable (flash sp) (a + i) (drop i data)"
  shows "write_and_verify_from a data i sp
    = (SYSPARAM_OK, sp\<lparr>flash := mem_put (a + i) (drop i data) (flash sp)\<rparr>)"
  using assms
proof (induction a data i sp rule: write_and_verify_from.induct)
  case (1 a data i sp)
  show ?case
  proof (cases "i < length data")
    case False
    then show ?thesis by (subst write_and_verify_from.simps) simp
  next
    case True
    define count where "count = min (length data - i) BOUNCE_BUFFER_SIZE"
    define bounce where "bounce = take count (drop i data)"
    define m where "m = mem_put (a + i) bounce (flash sp)"
    have len: "length bounce = count" "i + count \<le> length data" "u32 (a + i) = a + i"
      using True "1.prems" by (auto simp: bounce_def count_def chip_ok_def)
    have c: "clearable (flash sp) (a + i) bounce"
      using "1.prems"(3) unfolding bounce_def by (rule clearable_take)
    have w: "spiflash_write (flashchip sp) (u32 (a + i)) (Some bounce) count (flash sp) = (True, m)"
      using spiflash.write_ok [of "flashchip sp" "a + i" bounce "flash sp"] "1.prems" len
        nor_program_put [OF c] by (simp add: m_def)
    have r: "flash_read (sp\<lparr>flash := m\<rparr>) (u32 (a + i)) count = Some bounce"
      using "1.prems" len mem_read_put_same [of "a + i" bounce "flash sp"]
      by (simp add: flash_read_inside m_def)
    have step: "write_and_verify_from a data i sp
        = write_and_verify_from a data (i + BOUNCE_BUFFER_SIZE) (sp\<lparr>flash := m\<rparr>)"
      using True w r unfolding write_and_verify_from.simps [of a data i sp]
      by (simp add: Let_def flip: count_def bounce_def)
    have data: "bounce @ drop (i + count) data = drop i data"
      using append_take_drop_id [of count "drop i data"] by (simp add: bounce_def add.commute)
    have whole: "mem_put (a + (i + count)) (drop (i + count) data) m = mem_put (a + i) (drop i data) (flash sp)"
      using mem_put_append [of "a + i" bounce "drop (i + count) data" "flash sp"] len data
      by (simp add: m_def add.assoc)
    have "write_and_verify_from a data (i + BOUNCE_BUFFER_SIZE) (sp\<lparr>flash := m\<rparr>)
        = (SYSPARAM_OK, sp\<lparr>flash := mem_put (a + (i + count)) (drop (i + count) data) m\<rparr>)"
    proof (cases "i + BOUNCE_BUFFER_SIZE \<le> length data")
      case le: True
      then have b: "count = BOUNCE_BUFFER_SIZE" by (simp add: count_def)
      have "clearable m (a + (i + count)) (drop (i + count) data)"
        using clearable_drop [OF "1.prems"(3), of count] len unfolding m_def
        by (intro clearable_put_before) (simp_all add: ac_simps)
      then show ?thesis
        using "1.IH" [OF True count_def bounce_def w [symmetric]] r "1.prems" b
        by simp
    next
      case False
      then have "i + count = length data" using True by (simp add: count_def)
      then show ?thesis using False by (subst write_and_verify_from.simps) simp
    qed
    then show ?thesis using step whole by simp
  qed
qed

lemma write_and_verify_exact:
  assumes "chip_ok (flashchip sp)" "a + length data \<le> chip_size (flashchip sp)"
    and "clearable (flash sp) a data"
  shows "write_and_verify a data sp = (SYSPARAM_OK, sp\<lparr>flash := mem_put a data (flash sp)\<rparr>)"
  using write_and_verify_from_exact [of sp a data 0] assms by (simp add: write_and_verify_def)

section \<open>Entry headers on the flash\<close>

lemma le16_word:
  "le16 (unat (f :: 16 word)) = [ucast f, ucast (drop_bit 8 f)]"
proof -
  have "unat (drop_bit 8 f) = drop_bit 8 (unat f)" by (rule unat_drop_bit_eq)
  also have "\<dots> = unat f div 256" by (simp add: drop_bit_eq_div)
  finally have d: "unat f div 256 = unat (drop_bit 8 f)" by simp
  show ?thesis unfolding le16_def d by (simp add: of_nat_unat)
qed

lemma sysparam_header_simps:
  "idflags (e\<lparr>idflags := f\<rparr>) = f" "elen (e\<lparr>idflags := f\<rparr>) = elen e"
  by simp_all

lemma header_clearable:
  assumes "mem_read m a ENTRY_HEADER_SIZE = entry_header_bytes e"
  shows "clearable m a (entry_header_bytes (e\<lparr>idflags := idflags e AND w\<rparr>))"
proof -
  have "mem_read m a 4 = [m a, m (a + 1), m (a + 2), m (a + 3)]"
    by (simp add: mem_read_def upt_rec numeral_3_eq_3)
  then have m: "m a = ucast (idflags e)" "m (a + 1) = ucast (drop_bit 8 (idflags e))"
    "m (a + 2) = le16 (elen e) ! 0" "m (a + 3) = le16 (elen e) ! 1"
    using assms by (simp_all add: entry_header_bytes_def le16_word le16_def [of "elen e"] ENTRY_HEADER_SIZE_def)
  have hb: "entry_header_bytes (e\<lparr>idflags := idflags e AND w\<rparr>)
      = [ucast (idflags e) AND ucast w, ucast (drop_bit 8 (idflags e)) AND ucast (drop_bit 8 w),
         le16 (elen e) ! 0, le16 (elen e) ! 1]"
    unfolding entry_header_bytes_def sysparam_header_simps le16_word
    unfolding drop_bit_and unsigned_and_eq by (simp add: le16_def)
  show ?thesis
    unfolding clearable_def hb
    by (simp add: All_less_Suc numeral_2_eq_2 numeral_3_eq_3 m [simplified numeral_2_eq_2 numeral_3_eq_3, simplified])
qed

lemma flags_valid: "((f OR ENTRY_FLAG_ALIVE) OR ENTRY_FLAG_INVALID) AND NOT ENTRY_FLAG_INVALID
    = (f AND NOT ENTRY_FLAG_INVALID) OR ENTRY_FLAG_ALIVE"
proof -
  have "ENTRY_FLAG_INVALID AND NOT ENTRY_FLAG_INVALID = 0"
    "ENTRY_FLAG_ALIVE AND NOT ENTRY_FLAG_INVALID = ENTRY_FLAG_ALIVE"
    by (simp_all add: ENTRY_FLAG_INVALID_def ENTRY_FLAG_ALIVE_def)
  then show ?thesis by (simp add: bit.conj_disj_distrib2 del: bit.conj_cancel_right)
qed

section \<open>Appending and deleting entries\<close>

text \<open>The flags an entry written with \<open>id\<close> field \<open>f\<close> ends up with.\<close>

definition vflags :: "16 word \<Rightarrow> 16 word" where
  "vflags f = (f AND NOT ENTRY_FLAG_INVALID) OR ENTRY_FLAG_ALIVE"

lemma mem_put_prefix:
  "length xs = length ys \<Longrightarrow> mem_put a xs (mem_put a (ys @ zs) m) = mem_put a (xs @ zs) m"
  by (auto simp: mem_put_def fun_eq_iff nth_append)

lemma log_at_put_disjoint:
  "b + length bs \<le> a \<or> a + log_size es \<le> b \<Longrightarrow> log_at (mem_put b bs m) a es = log_at m a es"
  by (rule log_at_cong) (auto simp: mem_put_def)

lemma erased_put_before: "erased m a b \<Longrightarrow> c + length bs \<le> a \<Longrightarrow> erased (mem_put c bs m) a b"
  by (auto simp: erased_def mem_put_def)

lemma advance_end_frame [simp]:
  "flash (advance_end a n sp) = flash sp" "flashchip (advance_end a n sp) = flashchip sp"
  "cur_base (advance_end a n sp) = cur_base sp" "alt_base (advance_end a n sp) = alt_base sp"
  "region_size (advance_end a n sp) = region_size sp" "malloc_ok (advance_end a n sp) = malloc_ok sp"
  "force_compact (advance_end a n sp) = force_compact sp"
  by (simp_all add: advance_end_def)

lemma advance_end_flash [simp]:
  "advance_end a n (sp\<lparr>flash := m\<rparr>) = (advance_end a n sp)\<lparr>flash := m\<rparr>"
  by (simp add: advance_end_def)

lemma write_entry_exact:
  assumes "chip_ok (flashchip sp)" "a + ENTRY_SIZE (length p) \<le> chip_size (flashchip sp)"
    and "erased (flash sp) a (a + ENTRY_SIZE (length p))"
  shows "write_entry a f p sp
    = (SYSPARAM_OK, (advance_end a (ENTRY_SIZE (length p)) sp)\<lparr>flash :=
         mem_put a (ent_bytes (vflags f, p)) (flash sp)\<rparr>)"
proof -
  define e where "e = \<lparr>idflags = f OR ENTRY_FLAG_ALIVE OR ENTRY_FLAG_INVALID, elen = length p\<rparr>"
  let ?h1 = "entry_header_bytes e" and ?sp = "advance_end a (ENTRY_SIZE (length p)) sp"
  let ?h2 = "entry_header_bytes (e\<lparr>idflags := idflags e AND NOT ENTRY_FLAG_INVALID\<rparr>)"
  have sz: "ENTRY_SIZE (length p) = ENTRY_HEADER_SIZE + length p" by (simp add: ENTRY_SIZE_def)
  have a: "u32 (a + ENTRY_HEADER_SIZE) = a + ENTRY_HEADER_SIZE"
    using assms sz by (auto simp: chip_ok_def)
  have w1: "write_and_verify a ?h1 sp = (SYSPARAM_OK, sp\<lparr>flash := mem_put a ?h1 (flash sp)\<rparr>)"
    using assms sz by (intro write_and_verify_exact erased_clearable) (auto simp: erased_def)
  have "erased (flash sp) (a + ENTRY_HEADER_SIZE) (a + ENTRY_HEADER_SIZE + length p)"
    using assms(3) sz by (auto simp: erased_def)
  then have w2: "write_and_verify (a + ENTRY_HEADER_SIZE) p (?sp\<lparr>flash := mem_put a ?h1 (flash sp)\<rparr>)
      = (SYSPARAM_OK, ?sp\<lparr>flash := mem_put a (?h1 @ p) (flash sp)\<rparr>)"
    using assms sz mem_put_append [of a ?h1 p "flash sp"]
    by (subst write_and_verify_exact) (auto intro!: erased_clearable erased_put_before)
  have "mem_read (mem_put a (?h1 @ p) (flash sp)) a (length (?h1 @ p)) = ?h1 @ p"
    by (rule mem_read_put_same)
  then have "mem_read (mem_put a (?h1 @ p) (flash sp)) a ENTRY_HEADER_SIZE = ?h1"
    by (simp add: mem_read_add)
  then have w3: "write_and_verify a ?h2 (?sp\<lparr>flash := mem_put a (?h1 @ p) (flash sp)\<rparr>)
      = (SYSPARAM_OK, ?sp\<lparr>flash := mem_put a (?h2 @ p) (flash sp)\<rparr>)"
    using assms sz mem_put_prefix [of ?h2 ?h1 a p "flash sp"]
    by (subst write_and_verify_exact) (auto intro: header_clearable)
  have "e\<lparr>idflags := idflags e AND NOT ENTRY_FLAG_INVALID\<rparr> = hdr (vflags f, p)"
    by (simp add: e_def hdr_def vflags_def flags_valid or.assoc [symmetric])
  then show ?thesis
    using w1 w2 w3 a
    by (simp add: write_entry_def Let_def ent_bytes_def flip: e_def)
qed

text \<open>Appending an entry with \<open>_write_entry\<close> at the end of the log.\<close>

lemma vflags_ok: "vflags f \<noteq> 0xffff" "vflags f AND ENTRY_FLAG_INVALID = 0"
proof -
  have "NOT ENTRY_FLAG_INVALID AND ENTRY_FLAG_INVALID = 0" "ENTRY_FLAG_ALIVE AND ENTRY_FLAG_INVALID = 0"
    by (simp_all add: ENTRY_FLAG_INVALID_def ENTRY_FLAG_ALIVE_def)
  then show i: "vflags f AND ENTRY_FLAG_INVALID = 0"
    unfolding vflags_def by (simp only: bit.conj_disj_distrib2 and.assoc) simp
  then show "vflags f \<noteq> 0xffff" by (auto simp: ENTRY_FLAG_INVALID_def)
qed

lemma store_append:
  fixes f :: "16 word"
  assumes "store_holds sp es" "length p < 65536"
    and "end_addr sp + ENTRY_SIZE (length p) \<le> cur_base sp + region_size sp"
  defines "sp' \<equiv> sp\<lparr>flash := mem_put (end_addr sp) (ent_bytes (vflags f, p)) (flash sp),
                     end_addr := end_addr sp + ENTRY_SIZE (length p)\<rparr>"
  shows "write_entry (end_addr sp) f p sp = (SYSPARAM_OK, sp')"
    and "store_holds sp' (es @ [(vflags f, p)])"
proof -
  have area: "area_ok sp" and at: "log_at (flash sp) (cur_base sp + REGION_HEADER_SIZE) es"
    and e: "end_addr sp = cur_base sp + REGION_HEADER_SIZE + log_size es"
    and er: "erased (flash sp) (end_addr sp) (cur_base sp + region_size sp)"
    and ok: "\<forall>e \<in> set es. ent_ok e"
    using assms(1) by (auto simp: store_holds_def)
  note b = area_bounds [OF area]
  have "write_entry (end_addr sp) f p sp
      = (SYSPARAM_OK, (advance_end (end_addr sp) (ENTRY_SIZE (length p)) sp)\<lparr>flash :=
           mem_put (end_addr sp) (ent_bytes (vflags f, p)) (flash sp)\<rparr>)"
    using b assms(3) er by (intro write_entry_exact) (auto simp: erased_def)
  then show "write_entry (end_addr sp) f p sp = (SYSPARAM_OK, sp')"
    using b assms(3) by (simp add: advance_end_def sp'_def)
  let ?m = "mem_put (end_addr sp) (ent_bytes (vflags f, p)) (flash sp)"
  have "log_at ?m (cur_base sp + REGION_HEADER_SIZE) es"
    using at e by (simp add: log_at_put_disjoint)
  moreover have "log_at ?m (end_addr sp) [(vflags f, p)]"
    using mem_read_put_same [of "end_addr sp" "ent_bytes (vflags f, p)" "flash sp"]
    by (simp add: log_at_def)
  moreover have "erased ?m (end_addr sp + ENTRY_SIZE (length p)) (cur_base sp + region_size sp)"
    using er by (intro erased_put_before) (auto simp: erased_def)
  moreover have "area_ok sp'" using area by (simp add: area_ok_def sp'_def)
  ultimately show "store_holds sp' (es @ [(vflags f, p)])"
    using assms(2,3) e ok vflags_ok
    by (auto simp: store_holds_def sp'_def ent_ok_def)
qed

text \<open>Deleting the entry \<open>e\<close> of a log with \<open>_delete_entry\<close>.\<close>

definition killed :: "ent \<Rightarrow> ent" where
  "killed e = (fst e AND NOT ENTRY_FLAG_ALIVE, snd e)"

lemma store_delete:
  assumes "store_holds sp (xs @ e # ys)"
  defines "a \<equiv> cur_base sp + REGION_HEADER_SIZE + log_size xs"
  defines "sp' \<equiv> sp\<lparr>flash := mem_put a (entry_header_bytes (hdr (killed e))) (flash sp)\<rparr>"
  shows "delete_entry a sp = (SYSPARAM_OK, sp')" "store_holds sp' (xs @ killed e # ys)"
    and "a + ENTRY_HEADER_SIZE \<le> cur_base sp + region_size sp"
proof -
  have area: "area_ok sp" and at: "log_at (flash sp) (cur_base sp + REGION_HEADER_SIZE) xs"
    "log_at (flash sp) a (e # ys)"
    and fits: "a + ENTRY_SIZE (length (snd e)) + log_size ys \<le> cur_base sp + region_size sp"
    and er: "erased (flash sp) (end_addr sp) (cur_base sp + region_size sp)"
    and e: "end_addr sp = a + ENTRY_SIZE (length (snd e)) + log_size ys"
    and ok: "\<forall>x \<in> set (xs @ e # ys). ent_ok x"
    using assms(1) by (auto simp: store_holds_def a_def)
  note b = area_bounds [OF area]
  show "a + ENTRY_HEADER_SIZE \<le> cur_base sp + region_size sp" using fits by (simp add: ENTRY_SIZE_def)
  have h: "mem_read (flash sp) a ENTRY_HEADER_SIZE = entry_header_bytes (hdr e)"
    using at(2) by (simp add: log_at_Cons)
  have k: "(hdr e)\<lparr>idflags := idflags (hdr e) AND NOT ENTRY_FLAG_ALIVE\<rparr> = hdr (killed e)"
    by (simp add: hdr_def killed_def)
  have rd: "flash_read sp a ENTRY_HEADER_SIZE = Some (entry_header_bytes (hdr e))"
    using b fits h by (simp add: flash_read_inside log_simps)
  have "clearable (flash sp) a (entry_header_bytes (hdr (killed e)))"
    using header_clearable [OF h, of "NOT ENTRY_FLAG_ALIVE"] k by simp
  then show "delete_entry a sp = (SYSPARAM_OK, sp')"
    using b fits rd ok k
    by (simp add: delete_entry_def sp'_def Let_def ent_ok_def write_and_verify_exact log_simps)
  let ?m = "mem_put a (entry_header_bytes (hdr (killed e))) (flash sp)"
  have "log_at ?m (cur_base sp + REGION_HEADER_SIZE) xs"
    using at(1) by (simp add: log_at_put_disjoint a_def)
  moreover have "log_at ?m a (killed e # ys)"
  proof -
    have "mem_read ?m a ENTRY_HEADER_SIZE = entry_header_bytes (hdr (killed e))"
      using mem_read_put_same [of a "entry_header_bytes (hdr (killed e))" "flash sp"] by simp
    moreover have "mem_read ?m (a + ENTRY_HEADER_SIZE) n = mem_read (flash sp) (a + ENTRY_HEADER_SIZE) n" for n
      by (rule mem_read_cong) (simp add: mem_put_def)
    ultimately show ?thesis
      using at(2) by (simp add: log_at_Cons killed_def log_at_put_disjoint ENTRY_SIZE_def)
  qed
  moreover have "erased ?m (end_addr sp) (cur_base sp + region_size sp)"
    using er e by (intro erased_put_before) (simp_all add: ENTRY_SIZE_def)
  moreover have "fst (killed e) \<noteq> 0xffff"
  proof
    assume "fst (killed e) = 0xffff"
    then have "fst (killed e) AND ENTRY_FLAG_ALIVE = ENTRY_FLAG_ALIVE" by (simp add: ENTRY_FLAG_ALIVE_def)
    then show False by (simp add: killed_def and.assoc ENTRY_FLAG_ALIVE_def)
  qed
  moreover have "area_ok sp'" using area by (simp add: area_ok_def sp'_def)
  ultimately show "store_holds sp' (xs @ killed e # ys)"
    using e ok fits by (auto simp: store_holds_def sp'_def a_def ent_ok_def killed_def)
qed

end
