(* ===== verification/Sysparam_Set.thy ===== *)
theory Sysparam_Set
  imports Sysparam_Write
begin

text \<open>
  \<open>sysparam_set_data\<close> as an update of the map: the log edits it makes and their effect
  on the abstraction, for the case in which the region has room for the new entries.
\<close>

section \<open>Flags of the entries that are written\<close>

definition value_flags :: "16 word \<Rightarrow> bool \<Rightarrow> 16 word" where
  "value_flags w b = w OR (ENTRY_FLAG_VALUE OR (if b then ENTRY_FLAG_BINARY else 0))"

lemmas entry_flag_defs = ENTRY_FLAG_ALIVE_def ENTRY_FLAG_INVALID_def ENTRY_FLAG_VALUE_def
  ENTRY_FLAG_BINARY_def ENTRY_MASK_ID_def

lemma masked_vflags:
  assumes "(w :: 16 word) AND ENTRY_MASK_ID = w" "ENTRY_MASK_ID AND c = 0"
  shows "w AND c = 0"
  by (metis and.assoc and_zero_eq assms)

lemma vflags_and: "vflags f AND c = (f AND (NOT ENTRY_FLAG_INVALID AND c)) OR (ENTRY_FLAG_ALIVE AND c)"
  by (simp add: vflags_def bit.conj_disj_distrib2 and.assoc)

lemma key_entry_flags:
  assumes "w AND ENTRY_MASK_ID = w"
  shows "live_key (vflags w, p)" "eid (vflags w, p) = w"
proof -
  have c: "w AND c = 0" if "ENTRY_MASK_ID AND c = 0" for c
    using masked_vflags [OF assms that] .
  have "vflags w AND (ENTRY_FLAG_ALIVE OR ENTRY_FLAG_INVALID) = ENTRY_FLAG_ALIVE"
    unfolding vflags_and by (subst c) (simp_all add: entry_flag_defs)
  moreover have "vflags w AND ENTRY_FLAG_VALUE = 0"
    unfolding vflags_and by (subst c) (simp_all add: entry_flag_defs)
  ultimately show "live_key (vflags w, p)"
    by (simp add: live_key_def entry_live_def entry_is_value_def)
  have "NOT ENTRY_FLAG_INVALID AND ENTRY_MASK_ID = ENTRY_MASK_ID" "ENTRY_FLAG_ALIVE AND ENTRY_MASK_ID = 0"
    by (simp_all add: entry_flag_defs)
  then show "eid (vflags w, p) = w"
    using assms by (simp add: eid_def entry_id_def vflags_and)
qed

lemma value_entry_flags:
  assumes "w AND ENTRY_MASK_ID = w"
  shows "live_value (vflags (value_flags w b), p)" "eid (vflags (value_flags w b), p) = w"
    "binary_flag (vflags (value_flags w b)) = b"
proof -
  have c: "w AND c = 0" if "ENTRY_MASK_ID AND c = 0" for c
    using masked_vflags [OF assms that] .
  let ?f = "ENTRY_FLAG_VALUE OR (if b then ENTRY_FLAG_BINARY else 0)"
  have v: "vflags (value_flags w b) AND d = (w AND (NOT ENTRY_FLAG_INVALID AND d))
      OR ((?f AND (NOT ENTRY_FLAG_INVALID AND d)) OR (ENTRY_FLAG_ALIVE AND d))" for d
    by (simp add: vflags_and value_flags_def bit.conj_disj_distrib2 or.assoc)
  have "vflags (value_flags w b) AND (ENTRY_FLAG_ALIVE OR ENTRY_FLAG_INVALID) = ENTRY_FLAG_ALIVE"
    unfolding v by (subst c) (simp_all add: entry_flag_defs)
  moreover have "vflags (value_flags w b) AND ENTRY_FLAG_VALUE = ENTRY_FLAG_VALUE"
    unfolding v by (subst c) (simp_all add: entry_flag_defs)
  ultimately show "live_value (vflags (value_flags w b), p)"
    by (simp add: live_value_def entry_live_def entry_is_value_def ENTRY_FLAG_VALUE_def)
  have "NOT ENTRY_FLAG_INVALID AND ENTRY_MASK_ID = ENTRY_MASK_ID" "ENTRY_FLAG_ALIVE AND ENTRY_MASK_ID = 0"
    "?f AND ENTRY_MASK_ID = 0"
    by (simp_all add: entry_flag_defs)
  then show "eid (vflags (value_flags w b), p) = w"
    using assms unfolding eid_def entry_id_def hdr_simps fst_conv v by simp
  have "vflags (value_flags w b) AND ENTRY_FLAG_BINARY = (if b then ENTRY_FLAG_BINARY else 0)"
    unfolding v by (subst c) (simp_all add: entry_flag_defs)
  then show "binary_flag (vflags (value_flags w b)) = b"
    by (simp add: binary_flag_def ENTRY_FLAG_BINARY_def)
qed

lemma killed_dead [simp]: "\<not> live_key (killed e)" "\<not> live_value (killed e)" "snd (killed e) = snd e"
proof -
  have "fst (killed e) AND ENTRY_FLAG_ALIVE = 0"
    by (simp add: killed_def and.assoc ENTRY_FLAG_ALIVE_def)
  then have "(fst (killed e) AND (ENTRY_FLAG_ALIVE OR ENTRY_FLAG_INVALID)) AND ENTRY_FLAG_ALIVE = 0"
    by (simp add: and.assoc word_ao_absorbs)
  then have "\<not> entry_live (hdr (killed e))"
    by (auto simp: entry_live_def ENTRY_FLAG_ALIVE_def)
  then show "\<not> live_key (killed e)" "\<not> live_value (killed e)"
    by (simp_all add: live_key_def live_value_def)
  show "snd (killed e) = snd e" by (simp add: killed_def)
qed

section \<open>Log edits and the map\<close>

lemma alookup_before:
  assumes "log_inv (xs @ K # ys)" "live_key K" "x \<in> set xs" "live_value x"
  shows "eid x \<noteq> eid K"
proof -
  have "vals_follow [] xs" using assms(1) by (simp add: log_inv_def vals_follow_append)
  then have "eid x \<in> snd ` set (keymap xs)"
    using vals_follow_ids [of "[]" xs] assms(3,4) by (force simp: valmap_def)
  moreover have "eid K \<notin> snd ` set (keymap xs)"
    using log_inv_ids_distinct [OF assms(1)] assms(2) by simp
  ultimately show ?thesis by metis
qed

lemma log_inv_append_key:
  assumes "log_inv es" "live_key e" "snd e \<notin> fst ` set (keymap es)"
    and "\<And>i. i \<in> set (key_ids es) \<Longrightarrow> i < unat (eid e)" "1 \<le> unat (eid e)" "unat (eid e) \<le> MAX_KEY_ID"
  shows "log_inv (es @ [e])" "alookup (es @ [e]) = alookup es" "eid e \<notin> fst ` set (valmap es)"
proof -
  have new: "eid e \<notin> snd ` set (keymap es)"
    using assms(4) unat_keymap [of es] by (metis image_set imageI less_irrefl list.set_map)
  then show v: "eid e \<notin> fst ` set (valmap es)"
    using vals_follow_ids [of "[]" es] assms(1) by (auto simp: log_inv_def)
  show "log_inv (es @ [e])"
    using assms by (auto simp: log_inv_def vals_follow_append sorted_wrt_append)
  show "alookup (es @ [e]) = alookup es"
  proof
    fix k'
    have k: "map_of (keymap es) (snd e) = None" and "map_of (valmap es) (eid e) = None"
      using assms(3) v by (simp_all add: map_of_eq_None_iff)
    then show "alookup (es @ [e]) k' = alookup es k'"
      using assms(2) by (cases "k' = snd e") (simp_all add: alookup_def map_add_def split: option.splits)
  qed
qed

lemma alookup_key: "log_inv es \<Longrightarrow> (k, i) \<in> set (keymap es) \<Longrightarrow> alookup es k = map_of (valmap es) i"
  by (simp add: alookup_def log_inv_def)

lemma keymap_id_inj:
  "log_inv es \<Longrightarrow> (k, i) \<in> set (keymap es) \<Longrightarrow> map_of (keymap es) k' = Some i \<Longrightarrow> k' = k"
  using log_inv_ids_distinct [of es] by (metis eq_snd_iff map_of_SomeD distinct_map inj_onD prod.inject snd_conv)

lemma log_inv_append_value:
  assumes "log_inv es" "(k, i) \<in> set (keymap es)" "i \<notin> fst ` set (valmap es)"
    and "live_value v" "eid v = i"
  shows "log_inv (es @ [v])"
    and "alookup (es @ [v]) = (alookup es)(k \<mapsto> (snd v, binary_flag (fst v)))"
proof -
  have "i \<in> snd ` set (keymap es)" using assms(2) by force
  then show "log_inv (es @ [v])"
    using assms by (auto simp: log_inv_def vals_follow_append)
  have k: "map_of (keymap es) k = Some i"
    using assms(1,2) by (simp add: log_inv_def)
  show "alookup (es @ [v]) = (alookup es)(k \<mapsto> (snd v, binary_flag (fst v)))"
  proof
    fix k'
    show "alookup (es @ [v]) k' = ((alookup es)(k \<mapsto> (snd v, binary_flag (fst v)))) k'"
    proof (cases "k' = k")
      case True
      have "map_of (valmap es) i = None" using assms(3) by (simp add: map_of_eq_None_iff)
      then show ?thesis using True k assms(4,5) by (simp add: alookup_def map_add_def)
    next
      case False
      then show ?thesis
        using keymap_id_inj [OF assms(1,2), of k'] assms(4,5)
        by (auto simp: alookup_def map_add_def split: option.splits)
    qed
  qed
qed

lemma keymap_killed: "live_value V \<Longrightarrow> keymap (xs @ killed V # ys) = keymap (xs @ V # ys)"
  by simp

lemma vals_follow_killed:
  "live_value V \<Longrightarrow> vals_follow ks (xs @ V # ys) \<Longrightarrow> vals_follow ks (xs @ killed V # ys)"
  by (simp add: vals_follow_append)

lemma log_inv_kill_value:
  assumes "log_inv (xs @ V # ys)" "live_value V" "(k, eid V) \<in> set (keymap (xs @ V # ys))"
  shows "log_inv (xs @ killed V # ys)"
    and "alookup (xs @ killed V # ys) = (alookup (xs @ V # ys))(k := None)"
    and "eid V \<notin> fst ` set (valmap (xs @ killed V # ys))"
proof -
  show "log_inv (xs @ killed V # ys)"
    using assms by (auto simp: log_inv_def vals_follow_append)
  show nv: "eid V \<notin> fst ` set (valmap (xs @ killed V # ys))"
    using assms(1,2) by (auto simp: log_inv_def)
  have k: "map_of (keymap (xs @ V # ys)) k = Some (eid V)"
    using assms(1,3) unfolding log_inv_def by (intro map_of_is_SomeI) auto
  show "alookup (xs @ killed V # ys) = (alookup (xs @ V # ys))(k := None)"
  proof
    fix k'
    show "alookup (xs @ killed V # ys) k' = ((alookup (xs @ V # ys))(k := None)) k'"
    proof (cases "k' = k")
      case True
      moreover have "map_of (valmap (xs @ killed V # ys)) (eid V) = None"
        using nv by (simp only: map_of_eq_None_iff) simp
      ultimately show ?thesis
        using k unfolding alookup_def keymap_killed [OF assms(2)] by simp
    next
      case False
      then have "i \<noteq> eid V" if "map_of (keymap (xs @ V # ys)) k' = Some i" for i
        using keymap_id_inj [OF assms(1,3)] that by blast
      then show ?thesis
        using False unfolding alookup_def keymap_killed [OF assms(2)]
        by (auto simp: map_add_def assms(2) split: option.splits)
    qed
  qed
qed

section \<open>Locating the key\<close>

lemma max_key_id_counted:
  "max_key_id (counted es c) = (if key_ids es = [] then max_key_id c else last (key_ids es))"
proof (induction es arbitrary: c)
  case (Cons e es)
  have "max_key_id (count_entry (hdr e) c) = (if live_key e then unat (eid e) else max_key_id c)"
    by (simp add: count_entry_def live_key_def eid_def)
  then show ?case using Cons [of "count_entry (hdr e) c"] by simp
qed simp

definition top_id :: "ent list \<Rightarrow> nat" where
  "top_id es = (if key_ids es = [] then 0 else last (key_ids es))"

lemma top_id_counted [simp]: "max_key_id (counted es (init_context sp)) = top_id es"
  by (simp add: max_key_id_counted top_id_def init_context_def zero_context_def)

lemma top_id_bound: "log_inv es \<Longrightarrow> i \<in> set (key_ids es) \<Longrightarrow> i \<le> top_id es"
proof -
  assume inv: "log_inv es" and i: "i \<in> set (key_ids es)"
  then obtain us x where ids: "key_ids es = us @ [x]" by (metis empty_iff list.set(1) rev_exhaust)
  then have "sorted_wrt (<) (us @ [x])" using inv by (simp add: log_inv_def)
  then show "i \<le> top_id es" using i ids by (auto simp: top_id_def sorted_wrt_append)
qed

text \<open>
  The three outcomes of the search \<open>sysparam_set_data\<close> begins with: a new key, a key that has
  no value, and a key with a value.
\<close>

lemma set_find_cases:
  assumes "store_holds sp es" "end_visible sp" "log_inv es"
  obtains (fresh) l where "set_find key sp = (SYSPARAM_NOTFOUND, l, sp)" "key_id l = -1" "old_value_addr l = 0"
      "max_key_id (sctx l) = top_id es" "key \<notin> fst ` set (keymap es)" "alookup es key = None"
  | (bare) l i where "set_find key sp = (SYSPARAM_NOTFOUND, l, sp)" "key_id l = int (unat i)"
      "old_value_addr l = 0" "(key, i) \<in> set (keymap es)" "i \<notin> fst ` set (valmap es)"
      "i AND ENTRY_MASK_ID = i" "alookup es key = None"
  | (bound) l xs V ys where "set_find key sp = (SYSPARAM_OK, l, sp)" "key_id l = int (unat (eid V))"
      "old_value_addr l = cur_base sp + REGION_HEADER_SIZE + log_size xs" "es = xs @ V # ys" "live_value V"
      "(key, eid V) \<in> set (keymap es)" "addr (sctx l) = old_value_addr l" "entry (sctx l) = hdr V"
      "alookup es key = Some (snd V, binary_flag (fst V))"
proof -
  let ?i = "init_context sp"
  show thesis
  proof (cases "\<exists>x \<in> set es. live_key x \<and> snd x = key")
    case False
    then obtain h where fk: "find_key ?i (Some key) sp
        = (SYSPARAM_NOTFOUND, (counted es ?i)\<lparr>addr := end_addr sp, entry := h\<rparr>, sp)"
      using find_key_miss [OF assms(1,2), of key] by auto
    have "key \<notin> fst ` set (keymap es)" using False by (auto simp: keymap_def)
    then show thesis
      using fresh alookup_absent [of es key] False fk by (auto simp: set_find_def)
  next
    case True
    then obtain xs K ys where es: "es = xs @ K # ys" and K: "live_key K" "snd K = key"
      and xs: "\<And>x. x \<in> set xs \<Longrightarrow> \<not> (live_key x \<and> snd x = key)"
      using split_list_first_prop [OF True] by blast
    define c where "c = moved sp [] (xs @ [K]) ?i"
    have fk: "find_key ?i (Some key) sp = (SYSPARAM_OK, c, sp)"
      unfolding c_def using assms(1) es K xs by (intro find_key_hit) auto
    have pos: "at_pos sp (xs @ [K]) c"
      unfolding c_def using at_pos_moved [of sp "[]" ?i "xs @ [K]"] by simp
    have kid: "entry_id (entry c) = eid K" by (simp add: c_def eid_def)
    have lk: "alookup es key = map_of (valmap ys) (eid K)"
      using alookup_split [of xs K ys] assms(3) es K by simp
    have km: "(key, eid K) \<in> set (keymap es)" using keymap_in [of K xs ys] K es by simp
    have before: "\<not> (live_value x \<and> eid x = eid K)" if "x \<in> set xs" for x
      using alookup_before [of xs K ys] that assms(3) es K by auto
    have w: "eid K AND ENTRY_MASK_ID = eid K" by simp
    show thesis
    proof (cases rule: find_value_cases [OF assms(1,3) [unfolded es] K(1) pos w])
      case 1
      then show ?case using assms(2) by simp
    next
      case (2 c')
      then have "eid K \<notin> fst ` set (valmap ys)" by (simp add: map_of_eq_None_iff)
      moreover have "eid K \<notin> fst ` set (valmap xs)" using before by (force simp: valmap_def)
      ultimately have "eid K \<notin> fst ` set (valmap es)" using K es by (simp add: image_Un)
      then show thesis
        using bare 2 fk km lk kid by (auto simp: set_find_def)
    next
      case (3 us V vs c')
      then show thesis
        using bound [of "\<lparr>key_id = int (unat (eid K)), old_value_addr = addr c', sctx = c'\<rparr>" V "xs @ K # us" vs]
          es fk km lk kid by (auto simp: set_find_def)
    qed
  qed
qed

section \<open>Writing the entries\<close>

text \<open>
  What an update leaves of the state: everything but the end of the log and the flash
  behind the header of the active region.
\<close>

definition same_area :: "sysparam \<Rightarrow> sysparam \<Rightarrow> bool" where
  "same_area sp sp' \<longleftrightarrow> cur_base sp' = cur_base sp \<and> alt_base sp' = alt_base sp
     \<and> region_size sp' = region_size sp \<and> malloc_ok sp' = malloc_ok sp
     \<and> flashchip sp' = flashchip sp
     \<and> (\<forall>x. x < cur_base sp + REGION_HEADER_SIZE \<or> cur_base sp + region_size sp \<le> x
            \<longrightarrow> flash sp' x = flash sp x)"

lemma same_area_put:
  "cur_base sp + REGION_HEADER_SIZE \<le> a \<Longrightarrow> a + length bs \<le> cur_base sp + region_size sp
    \<Longrightarrow> same_area sp (sp\<lparr>flash := mem_put a bs (flash sp)\<rparr>)"
  by (auto simp: same_area_def mem_put_def)

lemma same_area_end [simp]: "same_area sp (sp'\<lparr>end_addr := e\<rparr>) = same_area sp sp'"
  by (simp add: same_area_def)

lemma same_area_refl [simp]: "same_area sp sp"
  by (simp add: same_area_def)

lemma same_area_trans: "same_area sp sp1 \<Longrightarrow> same_area sp1 sp2 \<Longrightarrow> same_area sp sp2"
  by (simp add: same_area_def)

lemma store_delete_area:
  assumes "store_holds sp (xs @ e # ys)"
  shows "same_area sp (sp\<lparr>flash := mem_put (cur_base sp + REGION_HEADER_SIZE + log_size xs)
    (entry_header_bytes (hdr (killed e))) (flash sp)\<rparr>)"
  using store_delete(3) [OF assms] by (intro same_area_put) simp_all

lemma store_end_low: "store_holds sp es \<Longrightarrow> cur_base sp + REGION_HEADER_SIZE \<le> end_addr sp"
  by (simp add: store_holds_def)

lemma init_write_context_addr [simp]: "addr (snd (init_write_context sp)) = end_addr sp"
  by (simp add: init_write_context_def Let_def split: option.splits)

lemma id_masked: "i \<le> MAX_KEY_ID \<Longrightarrow> (word_of_nat i :: 16 word) AND ENTRY_MASK_ID = word_of_nat i"
proof -
  assume i: "i \<le> MAX_KEY_ID"
  have "(0xfff :: 16 word) = mask 12" by (simp add: mask_eq_exp_minus_1)
  then have "(word_of_nat i :: 16 word) AND ENTRY_MASK_ID = take_bit 12 (word_of_nat i)"
    unfolding ENTRY_MASK_ID_def by (simp only: take_bit_eq_mask)
  moreover have "unat (take_bit 12 (word_of_nat i :: 16 word)) = unat (word_of_nat i :: 16 word)"
    using i by (simp add: unsigned_take_bit_eq take_bit_nat_eq_self_iff unat_of_nat MAX_KEY_ID_def)
  ultimately show ?thesis by (simp add: word_unat_eq_iff)
qed

lemma free_space_eq: "store_holds sp es \<Longrightarrow> free_space sp = cur_base sp + region_size sp - end_addr sp"
  using area_bounds [of sp] by (auto simp: free_space_def store_holds_def)

text \<open>A value for a key that is in the log already.\<close>

lemma set_write_value:
  assumes "store_holds sp es" "0 \<le> key_id l" "length val < 65536"
    and "end_addr sp + ENTRY_SIZE (length val) \<le> cur_base sp + region_size sp"
  obtains sp' where "set_write key val b l sp = Inr sp'"
    "store_holds sp' (es @ [(vflags (value_flags (word_of_int (key_id l)) b), val)])"
    "same_area sp sp'" "force_compact sp' = force_compact sp" "end_addr sp' = end_addr sp + ENTRY_SIZE (length val)"
proof -
  have e: "u32 (end_addr sp + ENTRY_SIZE (length val)) = end_addr sp + ENTRY_SIZE (length val)"
    using assms(1,4) area_bounds [of sp] by (auto simp: store_holds_def)
  note app = store_append [OF assms(1,3,4), of "value_flags (word_of_int (key_id l)) b"]
  show thesis
    by (rule that [OF _ app(2)])
      (use app(1) assms(2,4) e store_end_low [OF assms(1)] in
        \<open>simp_all add: set_write_def Let_def value_flags_def is_err_def same_area_put\<close>)
qed

text \<open>A new key and its value.\<close>

lemma set_write_key:
  assumes "store_holds sp es" "key_id l < 0" "length val < 65536" "length key < 65536"
    and "end_addr sp + ENTRY_SIZE (length key) + ENTRY_SIZE (length val) \<le> cur_base sp + region_size sp"
  defines "i \<equiv> word_of_nat (max_key_id (sctx l) + 1)"
  obtains sp' where "set_write key val b l sp = Inr sp'"
    "store_holds sp' (es @ [(vflags i, key), (vflags (value_flags i b), val)])"
    "same_area sp sp'" "force_compact sp' = force_compact sp"
    "end_addr sp' = end_addr sp + ENTRY_SIZE (length key) + ENTRY_SIZE (length val)"
proof -
  let ?kid = "int (max_key_id (sctx l)) + 1"
  have kid: "word_of_int ?kid = i" by (simp add: i_def)
  have bound: "end_addr sp + ENTRY_SIZE (length key) + ENTRY_SIZE (length val) < 2 ^ 32"
    using assms(1,5) area_bounds [of sp] by (auto simp: store_holds_def)
  have "end_addr sp + ENTRY_SIZE (length key) \<le> cur_base sp + region_size sp" using assms(5) by simp
  note app1 = store_append [OF assms(1,4) this, of i]
  define sp1 where "sp1 = sp\<lparr>flash := mem_put (end_addr sp) (ent_bytes (vflags i, key)) (flash sp),
    end_addr := end_addr sp + ENTRY_SIZE (length key)\<rparr>"
  have e1: "end_addr sp1 = end_addr sp + ENTRY_SIZE (length key)" "cur_base sp1 = cur_base sp"
    "region_size sp1 = region_size sp"
    by (simp_all add: sp1_def)
  have room: "end_addr sp1 + ENTRY_SIZE (length val) \<le> cur_base sp1 + region_size sp1"
    using assms(5) e1 by simp
  note app2 = store_append [OF app1(2) [folded sp1_def] assms(3) room, of "value_flags i b"]
  show thesis
  proof (rule that [OF _ app2(2) [simplified]])
    show "set_write key val b l sp = Inr (sp1\<lparr>flash := mem_put (end_addr sp1)
        (ent_bytes (vflags (value_flags i b), val)) (flash sp1),
        end_addr := end_addr sp1 + ENTRY_SIZE (length val)\<rparr>)"
      using app1(1) [folded sp1_def] app2(1) assms(2) kid bound e1
      by (simp add: set_write_def Let_def value_flags_def is_err_def flip: i_def)
    have "same_area sp sp1"
      using store_end_low [OF assms(1)] assms(5) by (simp add: sp1_def same_area_put)
    moreover have "same_area sp1 (sp1\<lparr>flash := mem_put (end_addr sp1)
        (ent_bytes (vflags (value_flags i b), val)) (flash sp1)\<rparr>)"
      using room store_end_low [OF app1(2) [folded sp1_def]] by (intro same_area_put) simp_all
    ultimately show "same_area sp (sp1\<lparr>flash := mem_put (end_addr sp1)
        (ent_bytes (vflags (value_flags i b), val)) (flash sp1),
        end_addr := end_addr sp1 + ENTRY_SIZE (length val)\<rparr>)"
      using same_area_trans by simp
  qed (use e1 in \<open>simp_all add: sp1_def\<close>)
qed

section \<open>Setting a value when the region has room\<close>

text \<open>The entries fit behind the log, and there is a key id left if the key is new.\<close>

definition room_for :: "byte list \<Rightarrow> byte list \<Rightarrow> sysparam \<Rightarrow> ent list \<Rightarrow> bool" where
  "room_for key val sp es \<longleftrightarrow>
     (if key \<in> fst ` set (keymap es)
      then end_addr sp + ENTRY_SIZE (length val) \<le> cur_base sp + region_size sp
      else end_addr sp + ENTRY_SIZE (length key) + ENTRY_SIZE (length val) \<le> cur_base sp + region_size sp
           \<and> top_id es < MAX_KEY_ID)"

lemma set_store_room:
  assumes "ENTRY_SIZE (length val) + (if key_id l < 0 then ENTRY_SIZE (length key) else 0) \<le> free_space sp"
    and "key_id l < 0 \<Longrightarrow> max_key_id (sctx l) < MAX_KEY_ID" "\<not> force_compact sp"
  shows "set_store key val b l sp = (case set_write key val b l sp of
      Inl r \<Rightarrow> r | Inr sp4 \<Rightarrow> set_delete_old SYSPARAM_OK (old_value_addr l) sp4)"
  using assms
  by (auto simp: set_store_def set_make_room_def set_check_ids_def set_forced_compact_def Let_def)

lemma binary_flag_eq:
  "f AND ENTRY_FLAG_BINARY = (if b then ENTRY_FLAG_BINARY else 0) \<longleftrightarrow> binary_flag f = b"
proof -
  have e: "ENTRY_FLAG_BINARY = 2 ^ 12" by (simp add: ENTRY_FLAG_BINARY_def)
  have b: "bit ENTRY_FLAG_BINARY n \<longleftrightarrow> n = 12" for n unfolding e bit_exp_iff by auto
  have "f AND ENTRY_FLAG_BINARY = (if bit f 12 then ENTRY_FLAG_BINARY else 0)"
    by (rule bit_word_eqI) (auto simp: bit_and_iff b)
  then show ?thesis
    unfolding binary_flag_def by (simp add: ENTRY_FLAG_BINARY_def)
qed

lemma set_unchanged_eq:
  assumes "store_holds sp (xs @ V # ys)" "addr (sctx l) = cur_base sp + REGION_HEADER_SIZE + log_size xs"
    and "entry (sctx l) = hdr V"
  shows "set_unchanged val b l sp
    = (if snd V = val \<and> binary_flag (fst V) = b then Some SYSPARAM_OK else None)"
  using compare_payload_entry [OF assms, of val] assms(3)
  by (auto simp: set_unchanged_def Let_def binary_flag_eq simp del: hdr_simps) (auto simp: binary_flag_eq)

lemma set_value_entry:
  assumes "log_inv es" "(k, i) \<in> set (keymap es)" "i \<notin> fst ` set (valmap es)" "i AND ENTRY_MASK_ID = i"
  shows "log_inv (es @ [(vflags (value_flags i b), val)])"
    and "alookup (es @ [(vflags (value_flags i b), val)]) = (alookup es)(k \<mapsto> (val, b))"
  using log_inv_append_value [OF assms(1-3) value_entry_flags(1,2) [OF assms(4)], of b val]
  by (simp_all add: value_entry_flags(3) [OF assms(4)])

lemma set_key_entries:
  fixes i :: "16 word" and b :: bool and val :: "byte list"
  assumes "log_inv es" "key \<notin> fst ` set (keymap es)" "top_id es < MAX_KEY_ID"
  defines "i \<equiv> word_of_nat (top_id es + 1)"
  defines "es' \<equiv> es @ [(vflags i, key), (vflags (value_flags i b), val)]"
  shows "log_inv es'" "alookup es' = (alookup es)(key \<mapsto> (val, b))"
proof -
  let ?K = "(vflags i, key)"
  have m: "i AND ENTRY_MASK_ID = i"
    unfolding i_def using assms(3) by (intro id_masked) simp
  have i: "unat i = top_id es + 1" using assms(3) unfolding i_def unat_of_nat by (simp add: MAX_KEY_ID_def)
  have K: "live_key ?K" "eid ?K = i" using key_entry_flags [OF m] by simp_all
  have less: "\<And>j. j \<in> set (key_ids es) \<Longrightarrow> j < unat (eid ?K)"
    using top_id_bound [OF assms(1)] K(2) i by fastforce
  have inv: "log_inv (es @ [?K])" "alookup (es @ [?K]) = alookup es" "i \<notin> fst ` set (valmap es)"
    using log_inv_append_key [OF assms(1) K(1) _ less] assms(2,3) K(2) i by simp_all
  have "(key, i) \<in> set (keymap (es @ [?K]))" "i \<notin> fst ` set (valmap (es @ [?K]))"
    using K inv(3) by simp_all
  from set_value_entry [OF inv(1) this m, of b val] inv(2)
  show "log_inv es'" "alookup es' = (alookup es)(key \<mapsto> (val, b))" by (simp_all add: es'_def)
qed

text \<open>
  The entries are written first and the old value is cleared afterwards: with the region
  roomy enough, the call updates the map at the key and nowhere else.
\<close>

lemma set_store_ok:
  assumes "store_holds sp es" "end_visible sp" "log_inv es" "\<not> force_compact sp"
    and "length key < 65536" "length val < 65536" "room_for key val sp es"
    and "set_find key sp = (st, l, sp)" "sctx l' = (sctx l)\<lparr>compactable := n\<rparr>"
    "key_id l' = key_id l" "old_value_addr l' = old_value_addr l"
  obtains sp' es' where "set_store key val b l' sp = (SYSPARAM_OK, sp')" "store_holds sp' es'" "log_inv es'"
    "alookup es' = (alookup es)(key \<mapsto> (val, b))" "same_area sp sp'" "\<not> force_compact sp'"
proof (cases rule: set_find_cases [OF assms(1-3), of key])
  case (1 l1)
  then have l: "key_id l' = -1" "old_value_addr l' = 0" "max_key_id (sctx l') = top_id es"
    using assms(8-11) by simp_all
  have room: "end_addr sp + ENTRY_SIZE (length key) + ENTRY_SIZE (length val) \<le> cur_base sp + region_size sp"
    "top_id es < MAX_KEY_ID"
    using assms(7) 1(5) by (simp_all add: room_for_def)
  obtain sp' where "set_write key val b l' sp = Inr sp'"
    "store_holds sp' (es @ [(vflags (word_of_nat (top_id es + 1)), key),
        (vflags (value_flags (word_of_nat (top_id es + 1)) b), val)])"
    "same_area sp sp'" "force_compact sp' = force_compact sp"
    using set_write_key [OF assms(1) _ assms(6,5) room(1), where l = l' and b = b] l by auto
  then show thesis
    using that set_key_entries [OF assms(3) 1(5) room(2), of b val] set_store_room [of val l' key sp b]
      l room assms(4) free_space_eq [OF assms(1)]
    by (auto simp: set_delete_old_def)
next
  case (2 l1 i)
  then have l: "key_id l' = int (unat i)" "old_value_addr l' = 0" using assms(8-11) by simp_all
  then have i: "word_of_int (key_id l') = i" by simp
  have "key \<in> fst ` set (keymap es)" using 2(4) by force
  then have room: "end_addr sp + ENTRY_SIZE (length val) \<le> cur_base sp + region_size sp"
    using assms(7) by (simp add: room_for_def)
  obtain sp' where "set_write key val b l' sp = Inr sp'"
    "store_holds sp' (es @ [(vflags (value_flags i b), val)])"
    "same_area sp sp'" "force_compact sp' = force_compact sp"
    using set_write_value [OF assms(1) _ assms(6) room, where l = l' and b = b and key = key] l i by auto
  then show thesis
    using that set_value_entry [OF assms(3) 2(4,5,6), of b val] set_store_room [of val l' key sp b]
      l room assms(4) free_space_eq [OF assms(1)]
    by (auto simp: set_delete_old_def)
next
  case (3 l1 xs V ys)
  then have l: "key_id l' = int (unat (eid V))" "old_value_addr l' = cur_base sp + REGION_HEADER_SIZE + log_size xs"
    using assms(8-11) by simp_all
  then have i: "word_of_int (key_id l') = eid V" by simp
  have "key \<in> fst ` set (keymap es)" using 3(6) by force
  then have room: "end_addr sp + ENTRY_SIZE (length val) \<le> cur_base sp + region_size sp"
    using assms(7) by (simp add: room_for_def)
  let ?v = "(vflags (value_flags (eid V) b), val)"
  obtain sp1 where w: "set_write key val b l' sp = Inr sp1" "store_holds sp1 (es @ [?v])"
    "same_area sp sp1" "force_compact sp1 = force_compact sp"
    using set_write_value [OF assms(1) _ assms(6) room, where l = l' and b = b and key = key] l i by auto
  then have h: "store_holds sp1 (xs @ V # (ys @ [?v]))" using 3(4) by simp
  have a: "old_value_addr l' = cur_base sp1 + REGION_HEADER_SIZE + log_size xs" "old_value_addr l' \<noteq> 0"
    using l(2) w(3) by (simp_all add: same_area_def REGION_HEADER_SIZE_def)
  note kill = log_inv_kill_value [OF assms(3) [unfolded 3(4)] 3(5) 3(6) [unfolded 3(4)]]
  have "(key, eid V) \<in> set (keymap (xs @ killed V # ys))"
    using 3(6) keymap_killed [OF 3(5)] by (simp add: 3(4))
  note val = set_value_entry [OF kill(1) this kill(3) eid_masked, of b val]
  note area = same_area_trans [OF w(3) store_delete_area [OF h]]
  show thesis
    using that [OF _ store_delete(2) [OF h] _ _ area] store_delete(1) [OF h] val kill(2) w a
      set_store_room [of val l' key sp b] l room assms(4) free_space_eq [OF assms(1)]
    by (simp add: set_delete_old_def 3(4) fun_upd_def cong: if_cong)
qed

lemma set_data_updates:
  assumes "store_holds sp es" "end_visible sp" "log_inv es" "\<not> force_compact sp"
    and "key \<noteq> []" "length key < 65536" "val \<noteq> []" "length val < 65536" "room_for key val sp es"
  obtains sp' es' where "sysparam_set_data key (Some val) (length val) b sp = (SYSPARAM_OK, sp')"
    "store_holds sp' es'" "log_inv es'" "alookup es' = (alookup es)(key \<mapsto> (val, b))"
    "same_area sp sp'" "\<not> force_compact sp'"
proof -
  obtain st l where f: "set_find key sp = (st, l, sp)" "st = SYSPARAM_OK \<or> st = SYSPARAM_NOTFOUND"
    by (cases rule: set_find_cases [OF assms(1-3), of key]) auto
  let ?l = "l\<lparr>sctx := (sctx l)\<lparr>compactable := u32 (compactable (sctx l) + ENTRY_SIZE (elen (entry (sctx l))))\<rparr>\<rparr>"
  have init: "cur_base sp \<noteq> 0" using assms(1) by (auto simp: store_holds_def area_ok_def)
  have sd: "sysparam_set_data key (Some val) (length val) b sp
      = (if old_value_addr l = 0 then set_store key val b l sp
         else case set_unchanged val b l sp of Some st' \<Rightarrow> (st', sp) | None \<Rightarrow> set_store key val b ?l sp)"
    using assms(5-8) f init by (auto simp: sysparam_set_data_def Let_def MAX_VALUE_LEN_def is_err_def)
  note store = set_store_ok [OF assms(1-4,6,8,9) f(1)]
  show thesis
  proof (cases "old_value_addr l \<noteq> 0 \<and> set_unchanged val b l sp \<noteq> None")
    case True
    then have "alookup es key = Some (val, b)" "set_unchanged val b l sp = Some SYSPARAM_OK"
      using f set_unchanged_eq [of sp _ _ _ l val b] assms(1)
      by (cases rule: set_find_cases [OF assms(1-3), of key]; auto split: if_splits)+
    then show thesis using that [of sp es] True sd assms(1,3,4) by (auto simp: same_area_def fun_upd_idem)
  next
    case False
    define l1 where "l1 = (if old_value_addr l = 0 then l else ?l)"
    obtain sp' es' where "set_store key val b l1 sp = (SYSPARAM_OK, sp')" "store_holds sp' es'" "log_inv es'"
      "alookup es' = (alookup es)(key \<mapsto> (val, b))" "same_area sp sp'" "\<not> force_compact sp'"
      by (rule store [of l1 "compactable (sctx l1)" b]) (simp_all add: l1_def)
    moreover have "sysparam_set_data key (Some val) (length val) b sp = set_store key val b l1 sp"
      using False sd by (auto simp: l1_def)
    ultimately show thesis using that by simp
  qed
qed

lemma set_data_deletes:
  assumes "store_holds sp es" "end_visible sp" "log_inv es" "key \<noteq> []" "length key < 65536" "vlen \<le> MAX_VALUE_LEN"
  obtains sp' es' where "sysparam_set_data key None vlen b sp
      = (if alookup es key = None then SYSPARAM_NOTFOUND else SYSPARAM_OK, sp')"
    "store_holds sp' es'" "log_inv es'" "alookup es' = (alookup es)(key := None)"
    "same_area sp sp'" "end_addr sp' = end_addr sp"
proof -
  have init: "cur_base sp \<noteq> 0" using assms(1) by (auto simp: store_holds_def area_ok_def)
  note unf = sysparam_set_data_def Let_def is_err_def set_delete_old_def
  show thesis
  proof (cases rule: set_find_cases [OF assms(1-3), of key])
    case (3 l xs V ys)
    have h: "store_holds sp (xs @ V # ys)" using assms(1) 3(4) by simp
    have nz: "cur_base sp + REGION_HEADER_SIZE + log_size xs \<noteq> 0" by (simp add: REGION_HEADER_SIZE_def)
    note kill = log_inv_kill_value [OF assms(3) [unfolded 3(4)] 3(5) 3(6) [unfolded 3(4)]]
    show thesis
      using that [OF _ store_delete(2) [OF h] kill(1) _ store_delete_area [OF h]] store_delete(1) [OF h] kill(2) 3
        assms(4-6) init nz
      by (simp add: unf)
  qed (use that [of sp es] assms init in \<open>auto simp: unf fun_upd_idem\<close>)
qed

end
