(* ===== verification/Sysparam_Compact.thy ===== *)
theory Sysparam_Compact
  imports Sysparam_Set
begin

text \<open>
  Iteration over the parameters and the compaction built on it: the iterator visits the
  keys that have a value, in the order of the log, and \<open>_compact_params\<close> rewrites them into
  the other region without changing the map.
\<close>

section \<open>Iteration\<close>

lemma iter_fill_entries:
  assumes "store_holds sp (pre @ K # us @ V # vs)" "\<And>n. malloc_ok sp n" "bufsize it \<le> region_size sp"
    and "addr kc = cur_base sp + REGION_HEADER_SIZE + log_size pre" "entry kc = hdr K"
    and "addr vc = cur_base sp + REGION_HEADER_SIZE + log_size (pre @ K # us)" "entry vc = hdr V"
  obtains it' where "iter_fill it kc vc sp = (SYSPARAM_OK, it')" "ctx it' = kc" "iter_key it' = snd K"
    "iter_value it' = snd V" "binary it' = binary_flag (fst V)" "key_len it' = length (snd K)"
    "value_len it' = length (snd V)" "bufsize it' \<le> region_size sp"
proof -
  let ?k = "length (snd K)" and ?v = "length (snd V)"
  define bsz where "bsz = (if bufsize it < ?k + 1 + ?v + 1 then ?k + 1 + ?v + 1 else bufsize it)"
  have "?k + ?v + 8 \<le> region_size sp" using assms(1) by (auto simp: store_holds_def log_simps)
  then have b: "bsz \<le> region_size sp" "?k + 1 + ?v + 1 \<le> bsz" using assms(3) by (auto simp: bsz_def)
  obtain mk where k: "read_payload kc bsz sp = (SYSPARAM_OK, snd K @ mk)" "length mk = bsz - ?k"
    using read_payload_entry [of sp pre K "us @ V # vs" kc bsz] assms(1,4) b by auto
  have n: "?v \<le> bsz - (?k + 1)" "bsz - (?k + 1) \<le> region_size sp" using b by linarith+
  obtain mv where v: "read_payload vc (bsz - (?k + 1)) sp = (SYSPARAM_OK, snd V @ mv)"
    "length mv = bsz - (?k + 1) - ?v"
    using read_payload_entry [of sp "pre @ K # us" V vs vc "bsz - (?k + 1)"] assms(1,6) n by auto
  have hk: "take (Suc ?k) ((snd K @ mk)[?k := 0]) = snd K @ [0]"
    using k(2) b(2) by (cases mk) (auto simp: list_update_append)
  have hv: "take ?v ((snd V @ mv)[?v := 0]) = snd V"
    by (simp add: list_update_append split: nat.splits)
  show thesis
  proof (rule that)
    show "iter_fill it kc vc sp = (SYSPARAM_OK,
        it\<lparr>ctx := kc, buf := (snd K @ [0]) @ (snd V @ mv)[?v := 0], bufsize := bsz, key_len := ?k,
           value_len := ?v, binary := binary_flag (fst V)\<rparr>)"
      using k(1) v(1) assms(2,5,7) hk
      by (cases "bufsize it < ?k + 1 + ?v + 1")
        (simp_all add: iter_fill_def Let_def binary_flag_def bsz_def)
  qed (use b hv in \<open>simp_all add: iter_key_def iter_value_def\<close>)
qed

text \<open>
  The parameters that the entries \<open>rest\<close> of the log \<open>es\<close> contribute: key id, key, value and
  the binary flag of every key that has a value.
\<close>

definition pairs :: "ent list \<Rightarrow> ent list \<Rightarrow> (16 word \<times> byte list \<times> byte list \<times> bool) list" where
  "pairs es rest = List.map_filter
     (\<lambda>e. if live_key e then map_option (\<lambda>(v, b). (eid e, snd e, v, b)) (map_of (valmap es) (eid e)) else None) rest"

lemma pairs_simps [simp]:
  "pairs es [] = []"
  "pairs es (e # rest) = (if live_key e then
      case map_of (valmap es) (eid e) of None \<Rightarrow> pairs es rest | Some (v, b) \<Rightarrow> (eid e, snd e, v, b) # pairs es rest
     else pairs es rest)"
  "pairs es (xs @ ys) = pairs es xs @ pairs es ys"
  by (auto simp: pairs_def List.map_filter_def split: option.splits)

definition iter_ok :: "sysparam \<Rightarrow> ent list \<Rightarrow> sysparam_iter \<Rightarrow> bool" where
  "iter_ok sp pre it \<longleftrightarrow> at_pos sp pre (ctx it) \<and> bufsize it \<le> region_size sp"

definition iter_shows :: "sysparam_iter \<Rightarrow> 16 word \<times> byte list \<times> byte list \<times> bool \<Rightarrow> bool" where
  "iter_shows it p \<longleftrightarrow> entry_id (entry (ctx it)) = fst p \<and> iter_key it = fst (snd p)
     \<and> iter_value it = fst (snd (snd p)) \<and> binary it = snd (snd (snd p))
     \<and> key_len it = length (fst (snd p)) \<and> value_len it = length (fst (snd (snd p)))"

lemma no_keys_no_pairs: "(\<And>x. x \<in> set xs \<Longrightarrow> \<not> live_key x) \<Longrightarrow> pairs es xs = []"
  by (induction xs) auto

lemma value_behind_key:
  assumes "log_inv (xs @ K # ys)" "live_key K"
  shows "map_of (valmap (xs @ K # ys)) (eid K) = map_of (valmap ys) (eid K)"
  using alookup_split [OF assms] alookup_key [OF assms(1) keymap_in [OF assms(2)]] by simp

lemma iter_next_fuel_pairs:
  assumes "store_holds sp (pre @ rest)" "end_visible sp" "log_inv (pre @ rest)" "\<And>n. malloc_ok sp n"
    and "iter_ok sp pre it" "length rest < n"
  shows "case pairs (pre @ rest) rest of
      [] \<Rightarrow> \<exists>it'. iter_next_fuel n it sp = (SYSPARAM_NOTFOUND, it', sp)
    | p # ps \<Rightarrow> \<exists>pre' rest' it'. iter_next_fuel n it sp = (SYSPARAM_OK, it', sp)
        \<and> pre @ rest = pre' @ rest' \<and> length rest' < length rest \<and> pairs (pre @ rest) rest' = ps
        \<and> iter_ok sp pre' it' \<and> iter_shows it' p"
  using assms
proof (induction n arbitrary: pre rest it)
  case (Suc n)
  have at: "at_pos sp pre (ctx it)" and buf: "bufsize it \<le> region_size sp"
    using Suc.prems(5) by (simp_all add: iter_ok_def)
  show ?case
  proof (cases "\<exists>x \<in> set rest. live_key x")
    case False
    then obtain c' where "find_key (ctx it) None sp = (SYSPARAM_NOTFOUND, c', sp)"
      using find_next_key_miss [OF Suc.prems(1,2) at] by blast
    then show ?thesis using no_keys_no_pairs [of rest] False by simp
  next
    case True
    then obtain xs K ys where rest: "rest = xs @ K # ys" and K: "live_key K"
      and xs: "\<And>x. x \<in> set xs \<Longrightarrow> \<not> live_key x"
      using split_list_first_prop [OF True] by blast
    let ?es = "(pre @ xs) @ K # ys"
    define c where "c = moved sp pre (xs @ [K]) (ctx it)"
    have es: "pre @ rest = ?es" using rest by simp
    have fk: "find_key (ctx it) None sp = (SYSPARAM_OK, c, sp)"
      unfolding c_def using Suc.prems(1) rest K xs at by (intro find_next_key_hit) auto
    have pos: "at_pos sp ((pre @ xs) @ [K]) c"
      unfolding c_def using at_pos_moved [OF at, of "xs @ [K]"] by simp
    have c: "addr c = cur_base sp + REGION_HEADER_SIZE + log_size (pre @ xs)" "entry c = hdr K"
      by (simp_all add: c_def)
    have w: "idflags (entry c) AND ENTRY_MASK_ID = eid K" by (simp add: c eid_def entry_id_def)
    note v = value_behind_key [OF Suc.prems(3) [unfolded es] K]
    have pr: "pairs ?es rest = pairs ?es (K # ys)" using rest no_keys_no_pairs [of xs] xs by simp
    show ?thesis
    proof (cases rule: find_value_cases [OF Suc.prems(1) [unfolded es] Suc.prems(3) [unfolded es] K pos w])
      case 1
      then show ?case using Suc.prems(2) by simp
    next
      case (2 c')
      have "iter_ok sp ((pre @ xs) @ [K]) (it\<lparr>ctx := c\<rparr>)" using pos buf by (simp add: iter_ok_def)
      moreover have "iter_next_fuel (Suc n) it sp = iter_next_fuel n (it\<lparr>ctx := c\<rparr>) sp" using fk 2 by simp
      moreover have "pairs ?es rest = pairs ?es ys" unfolding pr pairs_simps v using 2(1) K by simp
      moreover have "length rest = length xs + Suc (length ys)" using rest by simp
      ultimately show ?thesis
        using Suc.IH [of "(pre @ xs) @ [K]" ys "it\<lparr>ctx := c\<rparr>"] Suc.prems es
        by (fastforce split: list.splits)
    next
      case (3 us V vs c')
      obtain it' where f: "iter_fill it c c' sp = (SYSPARAM_OK, it')" and it': "ctx it' = c" "iter_key it' = snd K"
        "iter_value it' = snd V" "binary it' = binary_flag (fst V)" "key_len it' = length (snd K)"
        "value_len it' = length (snd V)" "bufsize it' \<le> region_size sp"
        using iter_fill_entries [of sp "pre @ xs" K us V vs it c c'] Suc.prems(1,4) es 3 buf c by auto
      have step: "iter_next_fuel (Suc n) it sp = (SYSPARAM_OK, it', sp)"
        using fk 3(5) f by (simp add: is_err_def)
      have ps: "pairs ?es rest = (eid K, snd K, snd V, binary_flag (fst V)) # pairs ?es ys"
        unfolding pr pairs_simps v using 3(4) K by simp
      have ok: "iter_ok sp ((pre @ xs) @ [K]) it'" using pos it' by (simp add: iter_ok_def)
      have sh: "iter_shows it' (eid K, snd K, snd V, binary_flag (fst V))"
        using it' c by (simp add: iter_shows_def eid_def)
      have "?es = ((pre @ xs) @ [K]) @ ys" "length ys < length rest" using rest by simp_all
      then show ?thesis unfolding es ps list.case using step ok sh by blast
    qed
  qed
qed simp

section \<open>The log a compaction writes\<close>

text \<open>
  The entries that the copy loop appends to \<open>out\<close> for the parameters \<open>ps\<close>, and what becomes of
  \<open>*key_id\<close>: keys are renumbered, and the value of the key that is being set is left out.
\<close>

fun copied :: "int option \<Rightarrow> ent list \<Rightarrow> (16 word \<times> byte list \<times> byte list \<times> bool) list
    \<Rightarrow> ent list \<times> int option" where
  "copied kid out [] = (out, kid)"
| "copied kid out ((i, k, v, b) # ps) =
     (let n = word_of_nat (top_id out + 1)
      in if kid = Some (int (unat i)) then copied (Some (int (top_id out + 1))) (out @ [(vflags n, k)]) ps
         else copied kid (out @ [(vflags n, k), (vflags (value_flags n b), v)]) ps)"

lemma log_size_copied: "log_size out \<le> log_size (fst (copied kid out ps))"
proof (induction kid out ps rule: copied.induct)
  case (2 kid out i k v b ps)
  then show ?case by (cases "kid = Some (int (unat i))") (simp_all add: Let_def)
qed simp

text \<open>The other region: next to the active one, inside the chip, and holding the log \<open>out\<close>.\<close>

definition alt_ok :: "sysparam \<Rightarrow> bool" where
  "alt_ok sp \<longleftrightarrow> alt_base sp \<noteq> 0 \<and> cur_base sp mod SPI_FLASH_SECTOR_SIZE = 0
     \<and> (alt_base sp = cur_base sp + region_size sp \<or> cur_base sp = alt_base sp + region_size sp)
     \<and> alt_base sp + 2 * region_size sp \<le> chip_size (flashchip sp)"

definition alt_holds :: "sysparam \<Rightarrow> ent list \<Rightarrow> bool" where
  "alt_holds sp out \<longleftrightarrow> (\<forall>e \<in> set out. ent_ok e)
     \<and> log_at (flash sp) (alt_base sp + REGION_HEADER_SIZE) out
     \<and> alt_base sp + REGION_HEADER_SIZE + log_size out \<le> alt_base sp + region_size sp
     \<and> erased (flash sp) (alt_base sp) (alt_base sp + REGION_HEADER_SIZE)
     \<and> erased (flash sp) (alt_base sp + REGION_HEADER_SIZE + log_size out) (alt_base sp + region_size sp)"

text \<open>A memory that differs from the flash of \<open>sp\<close> in the other region only.\<close>

definition outside_alt :: "sysparam \<Rightarrow> memory \<Rightarrow> bool" where
  "outside_alt sp m \<longleftrightarrow> (\<forall>x. x < alt_base sp \<or> alt_base sp + region_size sp \<le> x \<longrightarrow> m x = flash sp x)"

lemma outside_alt_trans: "outside_alt sp m \<Longrightarrow> outside_alt (sp\<lparr>flash := m\<rparr>) m' \<Longrightarrow> outside_alt sp m'"
  by (simp add: outside_alt_def)

lemma erased_put_after: "erased m a b \<Longrightarrow> b \<le> c \<Longrightarrow> erased (mem_put c bs m) a b"
  by (auto simp: erased_def mem_put_def)

lemma store_holds_put_other:
  assumes "store_holds sp es" "a + length bs \<le> cur_base sp \<or> cur_base sp + region_size sp \<le> a"
  shows "store_holds (sp\<lparr>flash := mem_put a bs (flash sp)\<rparr>) es"
proof -
  have "log_at (mem_put a bs (flash sp)) (cur_base sp + REGION_HEADER_SIZE) es"
    using assms by (subst log_at_put_disjoint) (auto simp: store_holds_def)
  moreover have "erased (mem_put a bs (flash sp)) (end_addr sp) (cur_base sp + region_size sp)"
    using assms by (auto simp: store_holds_def erased_def mem_put_def)
  ultimately show ?thesis using assms(1) by (simp add: store_holds_def area_ok_def)
qed

lemma alt_append:
  fixes f :: "16 word"
  assumes "store_holds sp es" "alt_ok sp" "alt_holds sp out" "length p < 65536"
    and "REGION_HEADER_SIZE + log_size (out @ [(vflags f, p)]) \<le> region_size sp"
  defines "a \<equiv> alt_base sp + REGION_HEADER_SIZE + log_size out"
  defines "sp' \<equiv> sp\<lparr>flash := mem_put a (ent_bytes (vflags f, p)) (flash sp)\<rparr>"
  shows "write_entry a f p sp = (SYSPARAM_OK, sp')" "store_holds sp' es" "alt_holds sp' (out @ [(vflags f, p)])"
    "outside_alt sp (flash sp')"
proof -
  have sz: "a + ENTRY_SIZE (length p) \<le> alt_base sp + region_size sp" using assms(5) by (simp add: a_def)
  have "end_addr sp \<noteq> a"
    using assms(1,2) sz by (auto simp: store_holds_def alt_ok_def a_def log_simps)
  moreover have "erased (flash sp) a (a + ENTRY_SIZE (length p))"
    using assms(3) sz by (auto simp: alt_holds_def erased_def a_def)
  ultimately show "write_entry a f p sp = (SYSPARAM_OK, sp')"
    using write_entry_exact [of sp a p f] assms(1,2) sz
    by (auto simp: store_holds_def area_ok_def alt_ok_def sp'_def advance_end_def)
  show "store_holds sp' es"
    unfolding sp'_def using assms(1,2) sz
    by (intro store_holds_put_other) (auto simp: alt_ok_def a_def)
  show "outside_alt sp (flash sp')"
    using sz by (auto simp: outside_alt_def sp'_def mem_put_def a_def)
  have "log_at (mem_put a (ent_bytes (vflags f, p)) (flash sp)) (alt_base sp + REGION_HEADER_SIZE) out"
    using assms(3) by (subst log_at_put_disjoint) (auto simp: alt_holds_def a_def)
  moreover have "log_at (mem_put a (ent_bytes (vflags f, p)) (flash sp)) a [(vflags f, p)]"
    using mem_read_put_same [of a "ent_bytes (vflags f, p)" "flash sp"] by (simp add: log_at_def)
  moreover have "erased (mem_put a (ent_bytes (vflags f, p)) (flash sp)) (a + ENTRY_SIZE (length p))
      (alt_base sp + region_size sp)"
    using assms(3) by (intro erased_put_before) (auto simp: alt_holds_def erased_def a_def)
  moreover have "erased (mem_put a (ent_bytes (vflags f, p)) (flash sp)) (alt_base sp) (alt_base sp + REGION_HEADER_SIZE)"
    using assms(3) by (intro erased_put_after) (auto simp: alt_holds_def a_def)
  ultimately show "alt_holds sp' (out @ [(vflags f, p)])"
    using assms(3,4) sz vflags_ok by (auto simp: alt_holds_def sp'_def a_def ent_ok_def add.assoc)
qed

lemma top_id_key:
  assumes "i \<le> MAX_KEY_ID"
  shows "top_id (out @ [(vflags (word_of_nat i), k)]) = i"
    and "top_id (out @ [(vflags (word_of_nat i), k), (vflags (value_flags (word_of_nat i) b), v)]) = i"
proof -
  have "unat (word_of_nat i :: 16 word) = i" using assms by (simp add: unat_of_nat MAX_KEY_ID_def)
  then show "top_id (out @ [(vflags (word_of_nat i), k)]) = i"
    "top_id (out @ [(vflags (word_of_nat i), k), (vflags (value_flags (word_of_nat i) b), v)]) = i"
    using key_entry_flags [OF id_masked [OF assms]] value_entry_flags(1) [OF id_masked [OF assms]]
    by (simp_all add: top_id_def)
qed

lemma pairs_lengths:
  assumes "\<forall>e \<in> set (es @ rest). ent_ok e" "(i, k, v, b) \<in> set (pairs es rest)"
  shows "length k < 65536" "length v < 65536"
proof -
  from assms(2) obtain e where e: "e \<in> set rest" "k = snd e" and v: "map_of (valmap es) (eid e) = Some (v, b)"
    by (auto simp: pairs_def List.map_filter_def split: if_splits)
  from map_of_SomeD [OF v] obtain w where "w \<in> set es" "v = snd w" by (auto simp: valmap_def)
  then show "length k < 65536" "length v < 65536" using assms(1) e by (auto simp: ent_ok_def)
qed

lemma iter_ok_flash [simp]: "iter_ok (sp\<lparr>flash := m\<rparr>) pre it = iter_ok sp pre it"
  by (simp add: iter_ok_def at_pos_def)

lemma end_visible_flash [simp]: "end_visible (sp\<lparr>flash := m\<rparr>) = end_visible sp"
  by (simp add: end_visible_def)

lemma alt_ok_flash [simp]: "alt_ok (sp\<lparr>flash := m\<rparr>) = alt_ok sp"
  by (simp add: alt_ok_def)

text \<open>One round of the copy loop: the entries of one parameter are appended.\<close>

lemma copy_step:
  fixes kid :: "int option"
  assumes "store_holds sp es" "alt_ok sp" "alt_holds sp out"
    and "sysparam_iter_next it sp = (SYSPARAM_OK, it', sp)" "iter_shows it' (i, k, v, b)"
    and "length k < 65536" "length v < 65536" "top_id out < MAX_KEY_ID"
  defines "n \<equiv> word_of_nat (top_id out + 1)" and "hit \<equiv> (kid = Some (int (unat i)))"
  defines "out1 \<equiv> out @ (vflags n, k) # (if hit then [] else [(vflags (value_flags n b), v)])"
  assumes "REGION_HEADER_SIZE + log_size out1 \<le> region_size sp"
  shows "\<exists>m. compact_copy_fuel (Suc r) it (alt_base sp + REGION_HEADER_SIZE + log_size out) (top_id out) kid sp
      = compact_copy_fuel r it' (alt_base sp + REGION_HEADER_SIZE + log_size out1) (top_id out1)
          (if hit then Some (int (top_id out + 1)) else kid) (sp\<lparr>flash := m\<rparr>)
    \<and> store_holds (sp\<lparr>flash := m\<rparr>) es \<and> alt_holds (sp\<lparr>flash := m\<rparr>) out1 \<and> outside_alt sp m"
proof -
  let ?a = "alt_base sp + REGION_HEADER_SIZE + log_size out" and ?o = "out @ [(vflags n, k)]"
  have t: "top_id out1 = top_id out + 1"
    using top_id_key [of "top_id out + 1"] assms(8) by (simp add: out1_def n_def)
  have r: "alt_base sp + 2 * region_size sp \<le> 2 ^ 24" "u16 (top_id out + 1) = top_id out + 1"
    using assms(1,2,8) area_bounds [of sp]
    by (auto simp: store_holds_def alt_ok_def area_ok_def chip_ok_def MAX_KEY_ID_def)
  have s1: "REGION_HEADER_SIZE + log_size ?o \<le> region_size sp" using assms(12) by (simp add: out1_def)
  note w1 = alt_append [OF assms(1-3,6) s1]
  define m1 where "m1 = mem_put ?a (ent_bytes (vflags n, k)) (flash sp)"
  have a2: "u32 (?a + ENTRY_SIZE (length k)) = alt_base sp + REGION_HEADER_SIZE + log_size ?o"
    using s1 r by simp
  note sh = assms(5) [unfolded iter_shows_def, simplified]
  show ?thesis
  proof (cases hit)
    case True
    then show ?thesis
      using w1 [folded m1_def] a2 assms(4) sh t r(2)
      by (intro exI [of _ m1]) (simp add: Let_def is_err_def n_def out1_def hit_def)
  next
    case False
    have s2: "REGION_HEADER_SIZE + log_size (?o @ [(vflags (value_flags n b), v)]) \<le> region_size sp"
      using assms(12) False by (simp add: out1_def)
    have out: "outside_alt sp m1" using w1(4) by (simp add: m1_def)
    note w2 = alt_append [OF w1(2) [folded m1_def] _ w1(3) [folded m1_def] assms(7), of "value_flags n b"]
    define m2 where "m2 = mem_put (?a + ENTRY_SIZE (length k)) (ent_bytes (vflags (value_flags n b), v)) m1"
    have a3: "u32 (u32 (?a + ENTRY_SIZE (length k)) + ENTRY_SIZE (length v))
        = alt_base sp + REGION_HEADER_SIZE + log_size out1"
      using s2 r False by (simp add: out1_def add.assoc)
    show ?thesis
      using w1(1) [folded m1_def] w2 s2 a2 a3 assms(2,4) sh t r(2) False outside_alt_trans [OF out]
      by (intro exI [of _ m2])
        (simp add: Let_def is_err_def n_def out1_def hit_def m2_def value_flags_def or.assoc add.assoc)
  qed
qed

lemma copied_Cons:
  "copied kid out ((i, k, v, b) # ps) =
     copied (if kid = Some (int (unat i)) then Some (int (top_id out + 1)) else kid)
       (out @ (vflags (word_of_nat (top_id out + 1)), k)
         # (if kid = Some (int (unat i)) then []
            else [(vflags (value_flags (word_of_nat (top_id out + 1)) b), v)])) ps"
  by (simp add: Let_def)

lemma top_id_copied_Cons:
  "top_id out < MAX_KEY_ID \<Longrightarrow> top_id (out @ (vflags (word_of_nat (top_id out + 1)), k)
     # (if hit then [] else [(vflags (value_flags (word_of_nat (top_id out + 1)) b), v)])) = top_id out + 1"
  using top_id_key [of "top_id out + 1" out k] by simp

lemma copy_loop:
  assumes "store_holds sp (pre @ rest)" "end_visible sp" "log_inv (pre @ rest)" "\<And>n. malloc_ok sp n"
    and "alt_ok sp" "alt_holds sp out" "iter_ok sp pre it" "length rest < n"
    and "copied kid out (pairs (pre @ rest) rest) = (out', kid')"
    and "REGION_HEADER_SIZE + log_size out' \<le> region_size sp"
    and "top_id out + length (pairs (pre @ rest) rest) \<le> MAX_KEY_ID"
  shows "\<exists>m. compact_copy_fuel n it (alt_base sp + REGION_HEADER_SIZE + log_size out) (top_id out) kid sp
      = (SYSPARAM_NOTFOUND, alt_base sp + REGION_HEADER_SIZE + log_size out', top_id out', kid', sp\<lparr>flash := m\<rparr>)
    \<and> store_holds (sp\<lparr>flash := m\<rparr>) (pre @ rest) \<and> alt_holds (sp\<lparr>flash := m\<rparr>) out'
    \<and> outside_alt sp m"
  using assms
proof (induction n arbitrary: pre rest it out kid sp)
  case (Suc n)
  let ?es = "pre @ rest"
  have "length rest < region_size sp + 2" using store_length [OF Suc.prems(1)] by simp
  note nxt = iter_next_fuel_pairs [OF Suc.prems(1-4,7) this, folded sysparam_iter_next_def]
  show ?case
  proof (cases "pairs ?es rest")
    case Nil
    then show ?thesis using nxt Suc.prems by (auto intro!: exI [of _ "flash sp"] simp: outside_alt_def)
  next
    case (Cons p ps)
    obtain i k v b where p: "p = (i, k, v, b)" by (cases p)
    obtain pre' rest' it' where it': "sysparam_iter_next it sp = (SYSPARAM_OK, it', sp)"
      "?es = pre' @ rest'" "length rest' < length rest" "pairs ?es rest' = ps"
      "iter_ok sp pre' it'" "iter_shows it' (i, k, v, b)"
      using nxt Cons p by auto
    have len: "length k < 65536" "length v < 65536"
      using pairs_lengths [of ?es rest i k v b] Suc.prems(1) Cons p by (auto simp: store_holds_def)
    have top: "top_id out < MAX_KEY_ID" using Suc.prems(11) Cons by simp
    define hit where "hit = (kid = Some (int (unat i)))"
    define out1 where "out1 = out @ (vflags (word_of_nat (top_id out + 1)), k)
      # (if hit then [] else [(vflags (value_flags (word_of_nat (top_id out + 1)) b), v)])"
    define kid1 where "kid1 = (if hit then Some (int (top_id out + 1)) else kid)"
    have c: "copied kid1 out1 ps = (out', kid')"
      using Suc.prems(9) unfolding Cons p copied_Cons out1_def kid1_def hit_def .
    have sz: "REGION_HEADER_SIZE + log_size out1 \<le> region_size sp"
      using log_size_copied [of out1 kid1 ps] c Suc.prems(10) by simp
    obtain m where m: "compact_copy_fuel (Suc n) it (alt_base sp + REGION_HEADER_SIZE + log_size out) (top_id out) kid sp
        = compact_copy_fuel n it' (alt_base sp + REGION_HEADER_SIZE + log_size out1) (top_id out1) kid1 (sp\<lparr>flash := m\<rparr>)"
      "store_holds (sp\<lparr>flash := m\<rparr>) ?es" "alt_holds (sp\<lparr>flash := m\<rparr>) out1" "outside_alt sp m"
      using copy_step [OF Suc.prems(1,5,6) it'(1,6) len top, of kid n] sz
      unfolding out1_def kid1_def hit_def by blast
    have "top_id out1 = top_id out + 1" unfolding out1_def using top by (rule top_id_copied_Cons)
    then have "top_id out1 + length ps \<le> MAX_KEY_ID" using Suc.prems(11) Cons by simp
    then obtain m' where "compact_copy_fuel n it' (alt_base sp + REGION_HEADER_SIZE + log_size out1) (top_id out1) kid1 (sp\<lparr>flash := m\<rparr>)
        = (SYSPARAM_NOTFOUND, alt_base sp + REGION_HEADER_SIZE + log_size out', top_id out', kid', sp\<lparr>flash := m'\<rparr>)"
      "store_holds (sp\<lparr>flash := m'\<rparr>) ?es" "alt_holds (sp\<lparr>flash := m'\<rparr>) out'" "outside_alt (sp\<lparr>flash := m\<rparr>) m'"
      using Suc.IH [of "sp\<lparr>flash := m\<rparr>" pre' rest' out1 it' kid1] m Suc.prems it' c by auto
    then show ?thesis using m(1) outside_alt_trans [OF m(4)] by auto
  qed
qed simp

definition pair_map :: "(16 word \<times> byte list \<times> byte list \<times> bool) list \<Rightarrow> byte list \<rightharpoonup> byte list \<times> bool" where
  "pair_map ps = map_of (map snd ps)"

definition pair_keys :: "(16 word \<times> byte list \<times> byte list \<times> bool) list \<Rightarrow> byte list list" where
  "pair_keys ps = map (fst \<circ> snd) ps"

lemma pair_simps [simp]:
  "pair_map [] = Map.empty" "pair_map (p # ps) = (pair_map ps)(fst (snd p) \<mapsto> snd (snd p))"
  "pair_map (ps @ qs) = pair_map qs ++ pair_map ps"
  "pair_keys [] = []" "pair_keys (p # ps) = fst (snd p) # pair_keys ps"
  "pair_keys (ps @ qs) = pair_keys ps @ pair_keys qs"
  by (auto simp: pair_map_def pair_keys_def map_of_Cons_code fun_eq_iff split: prod.splits)

lemma pair_map_None: "k \<notin> set (pair_keys ps) \<Longrightarrow> pair_map ps k = None"
  by (induction ps) auto

lemma pair_map_Some: "k \<in> set (pair_keys ps) \<Longrightarrow> pair_map ps k \<noteq> None"
  by (induction ps) auto

lemma pairs_have_values: "p \<in> set (pairs es rest) \<Longrightarrow> fst p \<in> fst ` set (valmap es)"
  by (force simp: pairs_def List.map_filter_def dest: map_of_SomeD split: if_splits)

lemma copied_plain:
  assumes "log_inv out" "\<forall>p \<in> set ps. kid \<noteq> Some (int (unat (fst p)))" "distinct (pair_keys ps)"
    and "set (pair_keys ps) \<inter> fst ` set (keymap out) = {}" "top_id out + length ps \<le> MAX_KEY_ID"
  shows "\<exists>out'. copied kid out ps = (out', kid) \<and> log_inv out'
    \<and> alookup out' = alookup out ++ pair_map ps \<and> top_id out' = top_id out + length ps
    \<and> fst ` set (keymap out') = fst ` set (keymap out) \<union> set (pair_keys ps)
    \<and> set (keymap out) \<subseteq> set (keymap out')"
  using assms
proof (induction ps arbitrary: out)
  case (Cons p ps)
  obtain i k v b where p: "p = (i, k, v, b)" by (cases p)
  let ?n = "word_of_nat (top_id out + 1)"
  let ?o = "out @ [(vflags ?n, k), (vflags (value_flags ?n b), v)]"
  have top: "top_id out < MAX_KEY_ID" and k: "k \<notin> fst ` set (keymap out)" using Cons.prems p by auto
  have m: "?n AND ENTRY_MASK_ID = ?n" using top by (intro id_masked) simp
  note new = set_key_entries [OF Cons.prems(1) k top, of b v]
  have t: "top_id ?o = top_id out + 1" using top by (intro top_id_key) simp
  have km: "keymap ?o = keymap out @ [(k, ?n)]"
    using key_entry_flags [OF m] value_entry_flags(1) [OF m] by simp
  then have disj: "set (pair_keys ps) \<inter> fst ` set (keymap ?o) = {}" using Cons.prems(3,4) p by auto
  have c: "copied kid out (p # ps) = copied kid ?o ps" using Cons.prems(2) p by (simp add: Let_def)
  obtain out' where o: "copied kid ?o ps = (out', kid)" "log_inv out'" "alookup out' = alookup ?o ++ pair_map ps"
    "top_id out' = top_id ?o + length ps" "fst ` set (keymap out') = fst ` set (keymap ?o) \<union> set (pair_keys ps)"
    "set (keymap ?o) \<subseteq> set (keymap out')"
    using Cons.IH [OF new(1) _ _ disj] Cons.prems(2,3,5) p t by auto
  have A: "alookup out' = alookup out ++ pair_map (p # ps)"
    using o(3) new(2) p Cons.prems(3) pair_map_None [of k ps]
    by (auto simp: fun_eq_iff map_add_def split: option.splits)
  have "top_id out' = top_id out + length (p # ps)" using o(4) t by simp
  moreover have "fst ` set (keymap out') = fst ` set (keymap out) \<union> set (pair_keys (p # ps))"
    using o(5) unfolding km by (simp add: p)
  moreover have "set (keymap out) \<subseteq> set (keymap out')" using o(6) unfolding km by simp
  ultimately show ?case using A c o(1,2) by metis
qed simp

definition pair_ids :: "(16 word \<times> byte list \<times> byte list \<times> bool) list \<Rightarrow> nat list" where
  "pair_ids ps = map (unat \<circ> fst) ps"

lemma pair_ids_simps [simp]:
  "pair_ids [] = []" "pair_ids (p # ps) = unat (fst p) # pair_ids ps" "pair_ids (ps @ qs) = pair_ids ps @ pair_ids qs"
  "length (pair_ids ps) = length ps"
  by (simp_all add: pair_ids_def)

text \<open>The parameters of a log are its map, in the order of the key ids.\<close>

lemma pairs_keys: "set (pair_keys (pairs es rest)) \<subseteq> fst ` set (keymap rest)"
  by (induction rest) (auto split: option.splits)

lemma pairs_distinct: "distinct (map fst (keymap rest)) \<Longrightarrow> distinct (pair_keys (pairs es rest))"
proof (induction rest)
  case (Cons e rest)
  then have "distinct (pair_keys (pairs es rest))" by (simp split: if_splits)
  moreover have "live_key e \<Longrightarrow> snd e \<notin> set (pair_keys (pairs es rest))"
    using Cons.prems pairs_keys [of es rest] by auto
  ultimately show ?case by (simp split: option.splits)
qed simp

lemma pairs_ids_subset: "set (pair_ids (pairs es rest)) \<subseteq> set (key_ids rest)"
  by (induction rest) (auto split: option.splits)

lemma pairs_sorted: "sorted_wrt (<) (key_ids rest) \<Longrightarrow> sorted_wrt (<) (pair_ids (pairs es rest))"
proof (induction rest)
  case (Cons e rest)
  then have "sorted_wrt (<) (pair_ids (pairs es rest))" by (simp split: if_splits)
  moreover have "live_key e \<Longrightarrow> \<forall>x \<in> set (pair_ids (pairs es rest)). unat (eid e) < x"
    using Cons.prems pairs_ids_subset [of es rest] by auto
  ultimately show ?case by (simp split: option.splits)
qed simp

lemma pair_map_pairs:
  "distinct (map fst (keymap rest)) \<Longrightarrow> pair_map (pairs es rest) k
     = (case map_of (keymap rest) k of None \<Rightarrow> None | Some i \<Rightarrow> map_of (valmap es) i)"
proof (induction rest)
  case (Cons e rest)
  have "map_of (keymap rest) (snd e) = None" if "live_key e"
    using Cons.prems that by (simp add: map_of_eq_None_iff)
  moreover have "distinct (map fst (keymap rest))" using Cons.prems by (simp split: if_splits)
  ultimately show ?case using Cons.IH by (cases "live_key e") (auto split: option.splits)
qed simp

lemma sorted_length: "sorted_wrt (<) (xs :: nat list) \<Longrightarrow> set xs \<subseteq> {1..n} \<Longrightarrow> length xs \<le> n"
  using card_mono [of "{1..n}" "set xs"] distinct_card [OF sorted_wrt_distinct, of xs] by simp

lemma log_inv_pairs:
  assumes "log_inv es"
  shows "pair_map (pairs es es) = alookup es" "distinct (pair_keys (pairs es es))"
    "sorted_wrt (<) (pair_ids (pairs es es))" "set (pair_ids (pairs es es)) \<subseteq> {1..MAX_KEY_ID}"
    "length (pairs es es) \<le> MAX_KEY_ID"
proof -
  show "pair_map (pairs es es) = alookup es"
    using assms by (simp add: fun_eq_iff pair_map_pairs alookup_def log_inv_def)
  show "distinct (pair_keys (pairs es es))" using assms by (intro pairs_distinct) (simp add: log_inv_def)
  show s: "sorted_wrt (<) (pair_ids (pairs es es))" using assms by (intro pairs_sorted) (simp add: log_inv_def)
  show i: "set (pair_ids (pairs es es)) \<subseteq> {1..MAX_KEY_ID}"
    using pairs_ids_subset [of es es] assms by (auto simp: log_inv_def)
  show "length (pairs es es) \<le> MAX_KEY_ID" using sorted_length [OF s i] by simp
qed

lemma copied_append:
  "copied kid out (ps @ qs) = (case copied kid out ps of (out1, kid1) \<Rightarrow> copied kid1 out1 qs)"
  by (induction kid out ps rule: copied.induct) (simp_all add: Let_def)

lemma log_inv_Nil [simp]: "log_inv []" "alookup [] = Map.empty" "top_id [] = 0"
  by (simp_all add: log_inv_def alookup_def top_id_def fun_eq_iff)

text \<open>The copy with a key whose value is left out, because it is about to be replaced.\<close>

lemma copied_skip:
  assumes "sorted_wrt (<) (pair_ids (ps1 @ (i, k, v, b) # ps2))" "distinct (pair_keys (ps1 @ (i, k, v, b) # ps2))"
    and "set (pair_ids (ps1 @ (i, k, v, b) # ps2)) \<subseteq> {1..MAX_KEY_ID}"
  defines "n \<equiv> length ps1 + 1"
  shows "\<exists>out'. copied (Some (int (unat i))) [] (ps1 @ (i, k, v, b) # ps2) = (out', Some (int n)) \<and> log_inv out'
    \<and> alookup out' = (pair_map (ps1 @ (i, k, v, b) # ps2))(k := None)
    \<and> (k, word_of_nat n) \<in> set (keymap out') \<and> n \<le> MAX_KEY_ID"
proof -
  let ?kid = "Some (int (unat i))"
  have ord: "\<forall>p \<in> set ps1. unat (fst p) < unat i" "\<forall>p \<in> set ps2. unat i < unat (fst p)"
    using assms(1) by (auto simp: sorted_wrt_append pair_ids_def)
  have "length (pair_ids (ps1 @ [(i, k, v, b)])) \<le> unat i"
    using assms(1,3) by (intro sorted_length) (auto simp: sorted_wrt_append less_imp_le)
  then have n: "n \<le> unat i" "n \<le> MAX_KEY_ID" using assms(3) by (auto simp: n_def)
  have len: "n + length ps2 \<le> MAX_KEY_ID" using sorted_length [OF assms(1,3)] by (simp add: n_def)
  have d: "distinct (pair_keys ps1)" "distinct (pair_keys ps2)" "k \<notin> set (pair_keys ps1)" "k \<notin> set (pair_keys ps2)"
    "set (pair_keys ps1) \<inter> set (pair_keys ps2) = {}"
    using assms(2) by auto
  have "\<forall>p \<in> set ps1. ?kid \<noteq> Some (int (unat (fst p)))" using ord by (metis less_irrefl of_nat_eq_iff option.inject)
  then obtain o1 where o1: "copied ?kid [] ps1 = (o1, ?kid)" "log_inv o1" "alookup o1 = pair_map ps1"
    "top_id o1 = length ps1" "fst ` set (keymap o1) = set (pair_keys ps1)"
    using copied_plain [of "[]" ps1 ?kid] d len by (auto simp: n_def)
  let ?K = "(vflags (word_of_nat n), k) :: ent"
  have m: "(word_of_nat n :: 16 word) AND ENTRY_MASK_ID = word_of_nat n" using n(2) by (rule id_masked)
  have un: "unat (word_of_nat n :: 16 word) = n" using n(2) by (simp add: unat_of_nat MAX_KEY_ID_def)
  note K = key_entry_flags [OF m, of k]
  have less: "\<And>j. j \<in> set (key_ids o1) \<Longrightarrow> j < unat (eid ?K)"
    using top_id_bound [OF o1(2)] o1(4) K(2) un by (fastforce simp: n_def)
  have inv: "log_inv (o1 @ [?K])" "alookup (o1 @ [?K]) = alookup o1"
    using log_inv_append_key [OF o1(2) K(1) _ less] o1(5) d(3) K(2) un n by (simp_all add: n_def)
  have t: "top_id (o1 @ [?K]) = n" using n(2) by (rule top_id_key)
  have km: "keymap (o1 @ [?K]) = keymap o1 @ [(k, word_of_nat n)]" using K by simp
  have "\<forall>p \<in> set ps2. Some (int n) \<noteq> Some (int (unat (fst p)))"
    using ord n by (metis leD of_nat_eq_iff option.inject)
  then obtain o2 where o2: "copied (Some (int n)) (o1 @ [?K]) ps2 = (o2, Some (int n))" "log_inv o2"
    "alookup o2 = alookup (o1 @ [?K]) ++ pair_map ps2" "set (keymap (o1 @ [?K])) \<subseteq> set (keymap o2)"
    using copied_plain [OF inv(1), of ps2 "Some (int n)"] d len t km o1(5) by auto
  have "pair_map ps1 x = None \<or> pair_map ps2 x = None" for x
    using d(5) pair_map_None [of x ps1] pair_map_None [of x ps2] by (metis disjoint_iff)
  then have "alookup o2 = (pair_map (ps1 @ (i, k, v, b) # ps2))(k := None)"
    using o2(3) inv(2) o1(3) pair_map_None [OF d(3)] pair_map_None [OF d(4)]
    by (auto simp: fun_eq_iff map_add_def split: option.splits) (metis option.distinct(1))+
  moreover have "copied ?kid [] (ps1 @ (i, k, v, b) # ps2) = (o2, Some (int n))"
    using o1(1,4) o2(1) by (simp add: copied_append n_def)
  ultimately show ?thesis using o2(2,4) km n(2) by auto
qed

section \<open>The space a compaction frees\<close>

definition pair_size :: "(16 word \<times> byte list \<times> byte list \<times> bool) list \<Rightarrow> nat" where
  "pair_size ps = (\<Sum>p\<leftarrow>ps. ENTRY_SIZE (length (fst (snd p))) + ENTRY_SIZE (length (fst (snd (snd p)))))"

definition dead_size :: "ent list \<Rightarrow> nat" where
  "dead_size es = log_size (filter (\<lambda>e. \<not> entry_live (hdr e)) es)"

lemma pair_size_simps [simp]:
  "pair_size [] = 0"
  "pair_size (p # ps) = ENTRY_SIZE (length (fst (snd p))) + ENTRY_SIZE (length (fst (snd (snd p)))) + pair_size ps"
  "pair_size (ps @ qs) = pair_size ps + pair_size qs"
  by (simp_all add: pair_size_def)

lemma copied_size:
  "\<forall>p \<in> set ps. kid \<noteq> Some (int (unat (fst p)))
    \<Longrightarrow> log_size (fst (copied kid out ps)) = log_size out + pair_size ps"
proof (induction kid out ps rule: copied.induct)
  case (2 kid out i k v b ps)
  then have "kid \<noteq> Some (int (unat i))" by simp
  then show ?case using 2 by (simp add: Let_def del: of_nat_unat)
qed simp

definition value_size :: "(byte list \<times> bool) option \<Rightarrow> nat" where
  "value_size x = (case x of None \<Rightarrow> 0 | Some (v, b) \<Rightarrow> ENTRY_SIZE (length v))"

lemma value_sizes:
  "finite A \<Longrightarrow> (\<Sum>i \<in> A. value_size (map_of xs i)) \<le> (\<Sum>x\<leftarrow>xs. ENTRY_SIZE (length (fst (snd x))))"
proof (induction xs arbitrary: A)
  case (Cons x xs)
  have "(\<Sum>i \<in> A. value_size (map_of (x # xs) i))
      \<le> (\<Sum>i \<in> A - {fst x}. value_size (map_of (x # xs) i)) + value_size (Some (snd x))"
    using Cons.prems by (cases "fst x \<in> A") (simp_all add: sum.remove)
  also have "(\<Sum>i \<in> A - {fst x}. value_size (map_of (x # xs) i)) = (\<Sum>i \<in> A - {fst x}. value_size (map_of xs i))"
    by (rule sum.cong) auto
  also have "\<dots> \<le> (\<Sum>x\<leftarrow>xs. ENTRY_SIZE (length (fst (snd x))))" using Cons by simp
  finally show ?case by (simp add: value_size_def split: prod.splits)
qed (simp add: value_size_def)

lemma pairs_size:
  assumes "distinct (map snd (keymap rest))"
  shows "pair_size (pairs es rest)
    \<le> log_size (filter live_key rest) + (\<Sum>i \<in> snd ` set (keymap rest). value_size (map_of (valmap es) i))"
  using assms
proof (induction rest)
  case (Cons e rest)
  then show ?case
    by (cases "live_key e") (auto simp: value_size_def split: option.splits)
qed simp

lemma live_dead_size:
  "log_size (filter live_key es) + log_size (filter live_value es) + dead_size es = log_size es"
proof (induction es)
  case (Cons e es)
  then show ?case by (auto simp: dead_size_def live_key_def live_value_def)
qed (simp add: dead_size_def)

lemma log_inv_pair_size:
  assumes "log_inv es"
  shows "pair_size (pairs es es) + dead_size es \<le> log_size es"
proof -
  have "(\<Sum>x\<leftarrow>valmap es. ENTRY_SIZE (length (fst (snd x)))) = log_size (filter live_value es)"
    by (simp add: valmap_def log_size_def comp_def)
  then show ?thesis
    using pairs_size [OF log_inv_ids_distinct [OF assms], of es] live_dead_size [of es]
      value_sizes [of "snd ` set (keymap es)" "valmap es"] by simp
qed

end
