(* ===== verification/Sysparam_Area.thy ===== *)
theory Sysparam_Area
  imports Sysparam_Compact
begin

text \<open>
  The two regions of the parameter area: formatting, region headers, the switch of the
  active region at the end of a compaction, the creation of an area and its recognition at
  start-up.
\<close>

section \<open>Formatting and headers\<close>

definition region_header_for :: "nat \<Rightarrow> nat \<Rightarrow> bool \<Rightarrow> region_header" where
  "region_header_for a other active =
     \<lparr>magic = SYSPARAM_MAGIC, flags_size = region_flags a other active SPI_FLASH_SECTOR_SIZE, reserved = 0\<rparr>"

definition header_at :: "memory \<Rightarrow> nat \<Rightarrow> nat \<Rightarrow> bool \<Rightarrow> bool" where
  "header_at m a other active \<longleftrightarrow>
     mem_read m a REGION_HEADER_SIZE = region_header_bytes (region_header_for a other active)"

lemma length_region_header_bytes [simp]: "length (region_header_bytes h) = REGION_HEADER_SIZE"
  by (simp add: region_header_bytes_def REGION_HEADER_SIZE_def)

lemma format_region_from_exact:
  assumes "chip_ok (flashchip sp)" "a mod SPI_FLASH_SECTOR_SIZE = 0"
    and "a + (i + n) * SPI_FLASH_SECTOR_SIZE \<le> chip_size (flashchip sp)"
  shows "format_region_from a i n sp
    = (SYSPARAM_OK, sp\<lparr>flash := nor_erase (a + i * SPI_FLASH_SECTOR_SIZE) (n * SPI_FLASH_SECTOR_SIZE) (flash sp)\<rparr>)"
  using assms
proof (induction n arbitrary: i sp)
  case 0
  then show ?case by simp
next
  case (Suc n)
  let ?b = "a + i * SPI_FLASH_SECTOR_SIZE" and ?m = "nor_erase (a + i * SPI_FLASH_SECTOR_SIZE) SPI_FLASH_SECTOR_SIZE (flash sp)"
  have b: "?b mod SPI_FLASH_SECTOR_SIZE = 0" "?b + SPI_FLASH_SECTOR_SIZE \<le> chip_size (flashchip sp)" "u32 ?b = ?b"
    using Suc.prems by (auto simp: algebra_simps chip_ok_def mod_eq_0_iff_dvd)
  have "spiflash_erase_sector (flashchip sp) (u32 ?b) (flash sp) = (True, ?m)"
    using spiflash.erase_ok [OF Suc.prems(1) b(1,2)] b(3) by simp
  moreover have "format_region_from a (Suc i) n (sp\<lparr>flash := ?m\<rparr>)
      = (SYSPARAM_OK, sp\<lparr>flash := nor_erase (a + Suc i * SPI_FLASH_SECTOR_SIZE) (n * SPI_FLASH_SECTOR_SIZE) ?m\<rparr>)"
    using Suc.IH [of "sp\<lparr>flash := ?m\<rparr>" "Suc i"] Suc.prems by simp
  moreover have "nor_erase (a + Suc i * SPI_FLASH_SECTOR_SIZE) (n * SPI_FLASH_SECTOR_SIZE) ?m
      = nor_erase ?b (Suc n * SPI_FLASH_SECTOR_SIZE) (flash sp)"
    using nor_erase_merge [of ?b SPI_FLASH_SECTOR_SIZE "n * SPI_FLASH_SECTOR_SIZE" "flash sp"]
    by (simp add: algebra_simps)
  ultimately show ?case by simp
qed

lemma format_region_exact:
  assumes "chip_ok (flashchip sp)" "a mod SPI_FLASH_SECTOR_SIZE = 0"
    and "a + n * SPI_FLASH_SECTOR_SIZE \<le> chip_size (flashchip sp)"
  shows "format_region a n sp
    = (SYSPARAM_OK, sp\<lparr>flash := nor_erase a (n * SPI_FLASH_SECTOR_SIZE) (flash sp)\<rparr>)"
  using format_region_from_exact [of sp a 0 n] assms by (simp add: format_region_def)

lemma write_region_header_exact:
  assumes "chip_ok (flashchip sp)" "a + REGION_HEADER_SIZE \<le> chip_size (flashchip sp)"
    and "clearable (flash sp) a (region_header_bytes (region_header_for a other active))"
  shows "write_region_header a other active sp
    = (SYSPARAM_OK, sp\<lparr>flash := mem_put a (region_header_bytes (region_header_for a other active)) (flash sp)\<rparr>)"
  using write_and_verify_exact [of sp a "region_header_bytes (region_header_for a other active)"] assms
  by (simp add: write_region_header_def region_header_for_def chip_ok_def)

text \<open>The header of the active region can be overwritten with the one of an inactive region.\<close>

lemma region_flags_clear:
  "region_flags a other True s AND region_flags a other False s = region_flags a other False s"
  by (simp add: region_flags_def Let_def word_ao_absorbs)

lemma header_deactivate:
  assumes "header_at m a other True"
  shows "clearable m a (region_header_bytes (region_header_for a other False))"
proof -
  let ?t = "region_flags a other True SPI_FLASH_SECTOR_SIZE" and ?f = "region_flags a other False SPI_FLASH_SECTOR_SIZE"
  have b: "ucast ?t AND ucast ?f = (ucast ?f :: byte)"
    "ucast (drop_bit 8 ?t) AND ucast (drop_bit 8 ?f) = (ucast (drop_bit 8 ?f) :: byte)"
    unfolding unsigned_and_eq [symmetric] drop_bit_and [symmetric] region_flags_clear by simp_all
  have m: "m (a + i) = region_header_bytes (region_header_for a other True) ! i" if "i < 8" for i
    using assms that mem_read_nth [of i 8 m a] by (simp add: header_at_def REGION_HEADER_SIZE_def)
  have "m (a + i) AND region_header_bytes (region_header_for a other False) ! i
      = region_header_bytes (region_header_for a other False) ! i" if "i < 8" for i
  proof -
    have "i \<in> {0, 1, 2, 3, 4, 5, 6, 7}" using that by auto
    then show ?thesis
      using m [OF that] b
      by (auto simp: region_header_bytes_def region_header_for_def le16_word le32_def nth_append)
  qed
  then show ?thesis by (simp add: clearable_def REGION_HEADER_SIZE_def)
qed

section \<open>Compaction\<close>

text \<open>
  The invariant of an initialised area: the log in the active region, the other region next
  to it, and the headers of both.
\<close>

definition area_inv :: "sysparam \<Rightarrow> ent list \<Rightarrow> bool" where
  "area_inv sp es \<longleftrightarrow> store_holds sp es \<and> log_inv es \<and> alt_ok sp
     \<and> header_at (flash sp) (cur_base sp) (alt_base sp) True
     \<and> header_at (flash sp) (alt_base sp) (cur_base sp) False"

lemma area_inv_force [simp]: "area_inv (sp\<lparr>force_compact := b\<rparr>) es = area_inv sp es"
  by (simp add: area_inv_def store_holds_def area_ok_def alt_ok_def)

lemma store_holds_cong:
  assumes "store_holds sp es" "\<And>x. cur_base sp \<le> x \<Longrightarrow> x < cur_base sp + region_size sp \<Longrightarrow> m x = flash sp x"
  shows "store_holds (sp\<lparr>flash := m\<rparr>) es"
proof -
  have "log_at m (cur_base sp + REGION_HEADER_SIZE) es = log_at (flash sp) (cur_base sp + REGION_HEADER_SIZE) es"
    using assms by (intro log_at_cong) (auto simp: store_holds_def)
  then show ?thesis
    using assms by (auto simp: store_holds_def area_ok_def erased_def)
qed

lemma header_at_cong:
  "(\<And>x. a \<le> x \<Longrightarrow> x < a + REGION_HEADER_SIZE \<Longrightarrow> m x = m' x) \<Longrightarrow> header_at m a b c = header_at m' a b c"
  unfolding header_at_def using mem_read_cong [of REGION_HEADER_SIZE m a m'] by simp

lemma header_at_put [simp]: "header_at (mem_put a (region_header_bytes (region_header_for a other b)) m) a other b"
  using mem_read_put_same [of a "region_header_bytes (region_header_for a other b)" m] by (simp add: header_at_def)

text \<open>The switch: the other region becomes the active one, with the log \<open>out\<close>.\<close>

lemma compact_switch_ok:
  assumes "store_holds sp es" "alt_ok sp" "alt_holds sp out" "log_inv out"
    and "header_at (flash sp) (cur_base sp) (alt_base sp) True"
  defines "a \<equiv> alt_base sp + REGION_HEADER_SIZE + log_size out"
  shows "\<exists>m. compact_switch (alt_base sp) a sp = (SYSPARAM_OK, sp\<lparr>flash := m, alt_base := cur_base sp,
        cur_base := alt_base sp, end_addr := a, force_compact := False\<rparr>)
    \<and> area_inv (sp\<lparr>flash := m, alt_base := cur_base sp,
        cur_base := alt_base sp, end_addr := a, force_compact := False\<rparr>) out"
proof -
  let ?new = "alt_base sp" and ?cur = "cur_base sp"
  define m1 where "m1 = mem_put ?new (region_header_bytes (region_header_for ?new ?cur True)) (flash sp)"
  define m2 where "m2 = mem_put ?cur (region_header_bytes (region_header_for ?cur ?new False)) m1"
  have area: "area_ok sp" using assms(1) by (simp add: store_holds_def)
  note b = area_bounds [OF area]
  have near: "?new = ?cur + region_size sp \<or> ?cur = ?new + region_size sp"
    and new: "?new + 2 * region_size sp \<le> chip_size (flashchip sp)"
    using assms(2) by (auto simp: alt_ok_def)
  have h8: "REGION_HEADER_SIZE \<le> region_size sp" using b by (simp add: REGION_HEADER_SIZE_def)
  have "erased (flash sp) ?new (?new + REGION_HEADER_SIZE)" using assms(3) by (simp add: alt_holds_def)
  then have w1: "write_region_header ?new ?cur True sp = (SYSPARAM_OK, sp\<lparr>flash := m1\<rparr>)"
    unfolding m1_def using b new h8 by (intro write_region_header_exact erased_clearable) auto
  have "header_at m1 ?cur ?new True"
    using assms(5) near h8 by (subst header_at_cong [of _ _ "flash sp"]) (auto simp: m1_def mem_put_def)
  then have w2: "write_region_header ?cur ?new False (sp\<lparr>flash := m1\<rparr>) = (SYSPARAM_OK, sp\<lparr>flash := m2\<rparr>)"
    using write_region_header_exact [of "sp\<lparr>flash := m1\<rparr>" ?cur ?new False] b h8 header_deactivate
    by (simp add: m2_def)
  have out: "m2 x = flash sp x" if "?new + REGION_HEADER_SIZE \<le> x" "x < ?new + region_size sp" for x
    using near that h8 by (auto simp: m1_def m2_def mem_put_def)
  have "header_at m2 ?new ?cur True = header_at m1 ?new ?cur True"
    using near h8 by (intro header_at_cong) (auto simp: m2_def mem_put_def)
  then have "header_at m2 ?new ?cur True" by (simp add: m1_def)
  moreover have "log_at m2 (?new + REGION_HEADER_SIZE) out"
    using assms(3) out by (subst log_at_cong [of _ _ _ "flash sp"]) (auto simp: alt_holds_def)
  moreover have "erased m2 a (?new + region_size sp)"
    using assms(3) out by (auto simp: alt_holds_def erased_def a_def)
  moreover have "?new mod SPI_FLASH_SECTOR_SIZE = 0"
    using near assms(2) area by (auto simp: alt_ok_def area_ok_def mod_eq_0_iff_dvd dvd_add_left_iff)
  moreover have "header_at m2 ?cur ?new False" by (simp add: m2_def)
  ultimately have "area_inv (sp\<lparr>flash := m2, alt_base := ?cur, cur_base := ?new, end_addr := a,
      force_compact := False\<rparr>) out"
    using assms(2-4) near b area by (auto simp: area_inv_def store_holds_def area_ok_def alt_ok_def alt_holds_def a_def)
  then show ?thesis
    using w1 w2 by (intro exI [of _ m2]) (simp add: compact_switch_def is_err_def)
qed

definition swapped :: "sysparam \<Rightarrow> sysparam \<Rightarrow> bool" where
  "swapped sp sp' \<longleftrightarrow> cur_base sp' = alt_base sp \<and> alt_base sp' = cur_base sp
     \<and> region_size sp' = region_size sp \<and> malloc_ok sp' = malloc_ok sp \<and> flashchip sp' = flashchip sp
     \<and> \<not> force_compact sp'"

lemma format_alt:
  assumes "area_inv sp es"
  defines "n \<equiv> u16 (region_size sp div sector_size (flashchip sp))"
  shows "\<exists>m. format_region (alt_base sp) n sp = (SYSPARAM_OK, sp\<lparr>flash := m\<rparr>) \<and> outside_alt sp m
    \<and> alt_holds (sp\<lparr>flash := m\<rparr>) []"
proof -
  have area: "area_ok sp" and alt: "alt_ok sp" using assms(1) by (simp_all add: area_inv_def store_holds_def)
  note b = area_bounds [OF area]
  have s: "sector_size (flashchip sp) = SPI_FLASH_SECTOR_SIZE" using b(3) by (simp add: chip_ok_def)
  have "region_size sp div SPI_FLASH_SECTOR_SIZE < 2 ^ 16"
    using b(1,2) by (simp add: SPI_FLASH_SECTOR_SIZE_def)
  moreover have "SPI_FLASH_SECTOR_SIZE dvd region_size sp" using area by (simp add: area_ok_def mod_eq_0_iff_dvd)
  ultimately have n: "n * SPI_FLASH_SECTOR_SIZE = region_size sp" unfolding n_def s by simp
  have "alt_base sp mod SPI_FLASH_SECTOR_SIZE = 0"
    using alt area by (auto simp: alt_ok_def area_ok_def mod_eq_0_iff_dvd dvd_add_left_iff)
  moreover have "alt_base sp + n * SPI_FLASH_SECTOR_SIZE \<le> chip_size (flashchip sp)"
    using alt n by (auto simp: alt_ok_def)
  ultimately have "format_region (alt_base sp) n sp
      = (SYSPARAM_OK, sp\<lparr>flash := nor_erase (alt_base sp) (region_size sp) (flash sp)\<rparr>)"
    using format_region_exact [of sp "alt_base sp" n] b(3) n by simp
  moreover have "alt_holds (sp\<lparr>flash := nor_erase (alt_base sp) (region_size sp) (flash sp)\<rparr>) []"
    using b(2) by (auto simp: alt_holds_def erased_def nor_erase_def log_simps)
  ultimately show ?thesis by (auto simp: outside_alt_def nor_erase_def)
qed

lemma outside_alt_store:
  assumes "area_inv sp es" "outside_alt sp m"
  shows "store_holds (sp\<lparr>flash := m\<rparr>) es" "header_at m (cur_base sp) (alt_base sp) True"
proof -
  have "4096 \<le> region_size sp" using assms(1) area_bounds(2) [of sp] by (simp add: area_inv_def store_holds_def)
  have same: "m x = flash sp x" if "cur_base sp \<le> x" "x < cur_base sp + region_size sp" for x
  proof -
    have "alt_base sp = cur_base sp + region_size sp \<or> cur_base sp = alt_base sp + region_size sp"
      using assms(1) by (simp add: area_inv_def alt_ok_def)
    then have "x < alt_base sp \<or> alt_base sp + region_size sp \<le> x" using that by linarith
    then show ?thesis using assms(2) unfolding outside_alt_def by blast
  qed
  then show "store_holds (sp\<lparr>flash := m\<rparr>) es"
    using assms(1) by (intro store_holds_cong) (auto simp: area_inv_def)
  have "REGION_HEADER_SIZE \<le> region_size sp" using \<open>4096 \<le> region_size sp\<close> by (simp add: REGION_HEADER_SIZE_def)
  then have "header_at m (cur_base sp) (alt_base sp) True = header_at (flash sp) (cur_base sp) (alt_base sp) True"
    using same by (intro header_at_cong) auto
  then show "header_at m (cur_base sp) (alt_base sp) True" using assms(1) by (simp add: area_inv_def)
qed

lemma compact_params_ok:
  assumes "area_inv sp es" "end_visible sp" "\<And>n. malloc_ok sp n"
    and "copied kid [] (pairs es es) = (out, kid')" "log_inv out" "log_size out \<le> log_size es"
  obtains sp' where "compact_params octx kid sp = (SYSPARAM_OK,
      map_option (\<lambda>_. zero_context\<lparr>addr := end_addr sp', max_key_id := top_id out\<rparr>) octx, kid', sp')"
    "area_inv sp' out" "swapped sp sp'"
proof -
  have st: "store_holds sp es" and inv: "log_inv es" and alt: "alt_ok sp"
    using assms(1) by (simp_all add: area_inv_def)
  note b = area_bounds [of sp]
  have area: "area_ok sp" using st by (simp add: store_holds_def)
  obtain m1 where f: "format_region (alt_base sp) (u16 (region_size sp div sector_size (flashchip sp))) sp
      = (SYSPARAM_OK, sp\<lparr>flash := m1\<rparr>)" "outside_alt sp m1" "alt_holds (sp\<lparr>flash := m1\<rparr>) []"
    using format_alt [OF assms(1)] by blast
  let ?sp1 = "sp\<lparr>flash := m1\<rparr>"
  define it where "it = \<lparr>buf = replicate DEFAULT_ITER_BUF_SIZE 0, key_len = 0, value_len = 0,
              bufsize = DEFAULT_ITER_BUF_SIZE, binary = False, ctx = init_context ?sp1\<rparr>"
  have it: "sysparam_iter_start ?sp1 = (SYSPARAM_OK, Some it)" "iter_ok ?sp1 [] it"
    using area b(2) [OF area] assms(3)
    by (simp_all add: sysparam_iter_start_def it_def iter_ok_def area_ok_def DEFAULT_ITER_BUF_SIZE_def)
  have "REGION_HEADER_SIZE + log_size out \<le> region_size sp" using st assms(6) by (simp add: store_holds_def)
  moreover have "length es < region_size sp + 2" using store_length [OF st] by simp
  ultimately obtain m2 where c: "compact_copy_fuel (region_size sp + 2) it (alt_base sp + REGION_HEADER_SIZE) 0 kid ?sp1
      = (SYSPARAM_NOTFOUND, alt_base sp + REGION_HEADER_SIZE + log_size out, top_id out, kid', sp\<lparr>flash := m2\<rparr>)"
    "alt_holds (sp\<lparr>flash := m2\<rparr>) out" "outside_alt ?sp1 m2"
    using copy_loop [of ?sp1 "[]" es "[]" it "region_size sp + 2" kid out kid'] it(2) f alt assms inv
      outside_alt_store(1) [OF assms(1) f(2)] log_inv_pairs(5) [OF inv] by auto
  have o: "outside_alt sp m2" using outside_alt_trans [OF f(2)] c(3) by simp
  let ?sp2 = "sp\<lparr>flash := m2\<rparr>" and ?a = "alt_base sp + REGION_HEADER_SIZE + log_size out"
  obtain m3 where w: "compact_switch (alt_base sp) ?a ?sp2 = (SYSPARAM_OK, sp\<lparr>flash := m3, alt_base := cur_base sp,
        cur_base := alt_base sp, end_addr := ?a, force_compact := False\<rparr>)"
    "area_inv (sp\<lparr>flash := m3, alt_base := cur_base sp,
        cur_base := alt_base sp, end_addr := ?a, force_compact := False\<rparr>) out"
    using compact_switch_ok [of ?sp2 es out] outside_alt_store [OF assms(1) o] alt c(2) assms(5) by auto
  have u: "u32 (alt_base sp + REGION_HEADER_SIZE) = alt_base sp + REGION_HEADER_SIZE"
    using alt b [OF area] by (auto simp: alt_ok_def chip_ok_def REGION_HEADER_SIZE_def)
  show thesis
    by (rule that [OF _ w(2)])
      (use f(1) it(1) c(1) w(1) u in \<open>simp_all add: compact_params_def Let_def is_err_def swapped_def\<close>)
qed

lemma compact_ok:
  assumes "area_inv sp es" "end_visible sp" "\<And>n. malloc_ok sp n"
  obtains sp' es' where "sysparam_compact sp = (SYSPARAM_OK, sp')" "area_inv sp' es'" "swapped sp sp'"
    "alookup es' = alookup es" "log_size es' + dead_size es \<le> log_size es"
proof -
  have inv: "log_inv es" using assms(1) by (simp add: area_inv_def)
  note ps = log_inv_pairs [OF inv]
  obtain out where out: "copied None [] (pairs es es) = (out, None)" "log_inv out" "alookup out = alookup es"
    using copied_plain [of "[]" "pairs es es" None] ps by auto
  have "log_size out + dead_size es \<le> log_size es"
    using copied_size [of "pairs es es" None "[]"] out(1) log_inv_pair_size [OF inv] by simp
  moreover obtain sp' where "compact_params None None sp = (SYSPARAM_OK, None, None, sp')" "area_inv sp' out" "swapped sp sp'"
    using compact_params_ok [OF assms out(1,2), of None] calculation by auto
  moreover have "cur_base sp \<noteq> 0" using assms(1) by (simp add: area_inv_def store_holds_def area_ok_def)
  ultimately show thesis using that out(3) by (simp add: sysparam_compact_def)
qed

text \<open>Updates of the log keep the invariant of the area.\<close>

lemma same_area_inv:
  assumes "area_inv sp es" "same_area sp sp'" "store_holds sp' es'" "log_inv es'"
  shows "area_inv sp' es'"
proof -
  have r: "REGION_HEADER_SIZE \<le> region_size sp"
    using assms(1) area_bounds(2) [of sp] by (simp add: area_inv_def store_holds_def REGION_HEADER_SIZE_def)
  have near: "alt_base sp = cur_base sp + region_size sp \<or> cur_base sp = alt_base sp + region_size sp"
    using assms(1) by (simp add: area_inv_def alt_ok_def)
  have f: "flash sp' x = flash sp x" if "x < cur_base sp + REGION_HEADER_SIZE \<or> cur_base sp + region_size sp \<le> x" for x
    using assms(2) that unfolding same_area_def by blast
  have "header_at (flash sp') (cur_base sp) (alt_base sp) True = header_at (flash sp) (cur_base sp) (alt_base sp) True"
    by (rule header_at_cong) (use f in simp)
  moreover have "header_at (flash sp') (alt_base sp) (cur_base sp) False = header_at (flash sp) (alt_base sp) (cur_base sp) False"
    by (rule header_at_cong) (use near f r in auto)
  ultimately show ?thesis
    using assms by (auto simp: area_inv_def same_area_def alt_ok_def)
qed

section \<open>Start-up\<close>

lemma find_entry_fuel_end_addr:
  "find_entry_fuel n c mid fv (sp\<lparr>end_addr := x\<rparr>)
     = (case find_entry_fuel n c mid fv sp of (st, c', sp') \<Rightarrow> (st, c', sp'\<lparr>end_addr := x\<rparr>))"
proof (induction n arbitrary: c sp)
  case (Suc n)
  have nx: "next_entry c (sp\<lparr>end_addr := x\<rparr>) = (case next_entry c sp of (b, c', sp') \<Rightarrow> (b, c', sp'\<lparr>end_addr := x\<rparr>))"
    by (simp add: next_entry_def region_end_def Let_def)
  have rd: "flash_read (sp'\<lparr>end_addr := x\<rparr>) = flash_read sp'" for sp' by (simp add: flash_read_def fun_eq_iff)
  show ?case
    by (simp add: nx rd Suc.IH find_entry_end_def Let_def split: prod.splits bool.splits option.splits)
qed simp

lemma region_header_roundtrip:
  "magic h < 4294967296 \<Longrightarrow> reserved h < 65536 \<Longrightarrow> region_header_of_bytes (region_header_bytes h) = h"
proof -
  assume h: "magic h < 4294967296" "reserved h < 65536"
  let ?f = "le16 (unat (flags_size h))" and ?r = "le16 (reserved h)"
  have "unat (flags_size h) < 65536" using unsigned_less [of "flags_size h", where 'a = nat] by simp
  then have "rd16 (le32 (magic h) @ ?f @ ?r) 4 = unat (flags_size h)"
    using rd16_append [of "le32 (magic h)" 4 "?f @ ?r" 0] by simp
  moreover have "rd16 (le32 (magic h) @ ?f @ ?r) 6 = reserved h"
    using rd16_append [of "le32 (magic h) @ ?f" 6 ?r 0] rd16_le16 [OF h(2), of "[]"] by simp
  ultimately show ?thesis
    using h by (simp add: region_header_of_bytes_def region_header_bytes_def)
qed

text \<open>What the flags of a header say, for regions of \<open>n\<close> sectors that touch.\<close>

lemma region_flags_bits:
  assumes "n < 2 ^ 12" "0 < n" "b = a + n * SPI_FLASH_SECTOR_SIZE"
  shows "unat (region_flags a b act SPI_FLASH_SECTOR_SIZE AND REGION_MASK_SIZE) = n"
    "unat (region_flags b a act SPI_FLASH_SECTOR_SIZE AND REGION_MASK_SIZE) = n"
    "region_flags a b act SPI_FLASH_SECTOR_SIZE AND REGION_FLAG_SECOND = 0"
    "region_flags b a act SPI_FLASH_SECTOR_SIZE AND REGION_FLAG_SECOND = REGION_FLAG_SECOND"
    "(region_flags a b act SPI_FLASH_SECTOR_SIZE AND REGION_FLAG_ACTIVE \<noteq> 0) = act"
    "(region_flags b a act SPI_FLASH_SECTOR_SIZE AND REGION_FLAG_ACTIVE \<noteq> 0) = act"
proof -
  let ?w = "word_of_nat n AND REGION_MASK_SIZE :: 16 word"
  have lt: "a < b" and d: "(b - a) div SPI_FLASH_SECTOR_SIZE = n"
    using assms by (simp_all add: SPI_FLASH_SECTOR_SIZE_def)
  have f: "region_flags a b act SPI_FLASH_SECTOR_SIZE = ?w OR (if act then REGION_FLAG_ACTIVE else 0)"
    "region_flags b a act SPI_FLASH_SECTOR_SIZE = ?w OR (REGION_FLAG_SECOND OR (if act then REGION_FLAG_ACTIVE else 0))"
    using lt d by (simp_all add: region_flags_def or.assoc)
  have "(0xfff :: 16 word) = mask 12" by (simp add: mask_eq_exp_minus_1)
  then have "?w = take_bit 12 (word_of_nat n)" unfolding REGION_MASK_SIZE_def by (simp only: take_bit_eq_mask)
  then have n: "unat ?w = n"
    using assms(1) by (simp add: unsigned_take_bit_eq take_bit_nat_eq_self_iff unat_of_nat)
  note region_flag_defs = REGION_MASK_SIZE_def REGION_FLAG_SECOND_def REGION_FLAG_ACTIVE_def
  have m: "?w AND REGION_MASK_SIZE = ?w" "?w AND REGION_FLAG_SECOND = 0" "?w AND REGION_FLAG_ACTIVE = 0"
    by (simp_all add: and.assoc region_flag_defs)
  show "unat (region_flags a b act SPI_FLASH_SECTOR_SIZE AND REGION_MASK_SIZE) = n"
    "unat (region_flags b a act SPI_FLASH_SECTOR_SIZE AND REGION_MASK_SIZE) = n"
    "region_flags a b act SPI_FLASH_SECTOR_SIZE AND REGION_FLAG_SECOND = 0"
    "region_flags b a act SPI_FLASH_SECTOR_SIZE AND REGION_FLAG_SECOND = REGION_FLAG_SECOND"
    "(region_flags a b act SPI_FLASH_SECTOR_SIZE AND REGION_FLAG_ACTIVE \<noteq> 0) = act"
    "(region_flags b a act SPI_FLASH_SECTOR_SIZE AND REGION_FLAG_ACTIVE \<noteq> 0) = act"
    unfolding f bit.conj_disj_distrib2 m
    using n m(1) by (cases act; simp add: region_flag_defs)+
qed

lemma init_find_end_ok:
  assumes "store_holds sp es" "log_inv es" "end_visible sp" "\<not> force_compact sp"
  shows "init_find_end (sp\<lparr>end_addr := e, force_compact := f\<rparr>) = (SYSPARAM_OK, sp)"
proof -
  let ?sp0 = "sp\<lparr>end_addr := region_end sp\<rparr>"
  have z: "sp\<lparr>end_addr := x, force_compact := False\<rparr> = sp\<lparr>end_addr := x\<rparr>" for x
    using assms(4) by (intro sysparam.equality) simp_all
  have i: "init_context ?sp0 = init_context sp" by (simp add: init_context_def)
  have "\<not> entry_matches (hdr x) ENTRY_ID_END False" if "x \<in> set es" for x
    using eid_not_end(1) [OF assms(2) that]
    by (auto simp: entry_matches_def live_key_def eid_def ENTRY_ID_END_def ENTRY_ID_ANY_def)
  then obtain h where "find_entry (init_context sp) ENTRY_ID_END False sp
      = (SYSPARAM_OK, (counted es (init_context sp))\<lparr>addr := end_addr sp, entry := h\<rparr>, sp)"
    using find_entry_miss [of sp "[]" es "init_context sp" ENTRY_ID_END False] assms(1,3) by auto
  then have "find_entry (init_context ?sp0) ENTRY_ID_END False ?sp0
      = (SYSPARAM_OK, (counted es (init_context sp))\<lparr>addr := end_addr sp, entry := h\<rparr>, ?sp0)"
    unfolding i find_entry_def by (simp add: find_entry_fuel_end_addr)
  then show ?thesis
    by (simp add: init_find_end_def z region_end_def is_err_def)
qed

lemma flash_read_cong: "flash sp0 = flash sp \<Longrightarrow> flashchip sp0 = flashchip sp \<Longrightarrow> flash_read sp0 = flash_read sp"
  by (intro ext) (simp add: flash_read_def)

text \<open>
  A reset followed by \<open>sysparam_init\<close> on the first region's address brings back the
  state the store had.
\<close>

lemma init_recovers:
  assumes "area_inv sp es" "end_visible sp"
    and "flash sp0 = flash sp" "flashchip sp0 = flashchip sp" "malloc_ok sp0 = malloc_ok sp"
    and "base = min (cur_base sp) (alt_base sp)" "limit = 0 \<or> base < limit"
  shows "sysparam_init base limit sp0 = (SYSPARAM_OK, sp\<lparr>force_compact := False\<rparr>)"
proof -
  let ?s = SPI_FLASH_SECTOR_SIZE and ?alt = "max (cur_base sp) (alt_base sp)"
  have area: "area_ok sp" and alt: "alt_ok sp" using assms(1) by (simp_all add: area_inv_def store_holds_def)
  note b = area_bounds [OF area]
  obtain n where rs: "region_size sp = n * ?s" using area by (auto simp: area_ok_def mod_eq_0_iff_dvd mult.commute)
  have n: "0 < n" "n < 2 ^ 12" using b(1,2) rs by (auto simp: SPI_FLASH_SECTOR_SIZE_def)
  have other: "?alt = base + n * ?s" using alt rs assms(6) n by (auto simp: alt_ok_def)
  have chip: "sector_size (flashchip sp0) = ?s" "base mod ?s = 0" "?alt + region_size sp \<le> 2 ^ 24" "0 < ?s"
    using b(1,3) alt area assms(4,6) rs
    by (auto simp: chip_ok_def alt_ok_def area_ok_def min_def max_def mod_eq_0_iff_dvd dvd_add_left_iff SPI_FLASH_SECTOR_SIZE_def)
  define act where "act \<longleftrightarrow> cur_base sp < alt_base sp"
  define h0 where "h0 = region_header_for base ?alt act"
  define h1 where "h1 = region_header_for ?alt base (\<not> act)"
  have hs: "header_at (flash sp) base ?alt act" "header_at (flash sp) ?alt base (\<not> act)"
    using assms(1,6) alt n(1) rs chip(4) by (auto simp: area_inv_def act_def min_def max_def alt_ok_def)
  have "base + REGION_HEADER_SIZE \<le> chip_size (flashchip sp)" "?alt + REGION_HEADER_SIZE \<le> chip_size (flashchip sp)"
    using alt b assms(6) by (auto simp: alt_ok_def REGION_HEADER_SIZE_def min_def max_def)
  then have rd: "flash_read sp0 base REGION_HEADER_SIZE = Some (region_header_bytes h0)"
    "flash_read sp0 ?alt REGION_HEADER_SIZE = Some (region_header_bytes h1)"
    using hs b(3) flash_read_cong [OF assms(3,4)]
    by (simp_all add: flash_read_inside header_at_def h0_def h1_def)
  have dec: "region_header_of_bytes (region_header_bytes h0) = h0" "region_header_of_bytes (region_header_bytes h1) = h1"
    "magic h0 = SYSPARAM_MAGIC" "magic h1 = SYSPARAM_MAGIC"
    by (simp_all add: region_header_roundtrip h0_def h1_def region_header_for_def SYSPARAM_MAGIC_def)
  note fl = region_flags_bits [OF n(2,1) other]
  have f0: "unat (flags_size h0 AND REGION_MASK_SIZE) = n" "flags_size h0 AND REGION_FLAG_SECOND = 0"
    "flags_size h1 AND REGION_FLAG_SECOND \<noteq> 0" "(flags_size h0 AND REGION_FLAG_ACTIVE \<noteq> 0) = act"
    using fl by (simp_all add: h0_def h1_def region_header_for_def REGION_FLAG_SECOND_def)
  have u: "u32 (n * ?s) = region_size sp" "u32 (base + region_size sp) = ?alt" "u32 (base + ?s) = base + ?s"
    using chip other rs b(2) by (auto simp: SPI_FLASH_SECTOR_SIZE_def)
  define limit' where "limit' = (if limit = 0 \<or> limit = base then u32 (base + ?s) else limit)"
  have "base < limit'" using assms(7) u(3) chip(4) by (auto simp: limit'_def)
  then have scan: "init_scan_fuel ((limit' - base) div ?s + 2) base limit' sp0 = Inr (base, h0)"
    using rd(1) dec(1,3) by (simp add: numeral_2_eq_2)
  have o: "other_region base h0 ?s = ?alt" using f0(1,2) u by (simp add: other_region_def)
  have i: "init_other base h0 ?alt sp0 = (SYSPARAM_OK, sp0)"
    using rd(2) dec(2,4) f0(2,3) by (simp add: init_other_def Let_def)
  have st: "sp0\<lparr>region_size := region_size sp, cur_base := (if act then base else ?alt), alt_base := (if act then ?alt else base)\<rparr>
      = (sp\<lparr>force_compact := False\<rparr>)\<lparr>end_addr := end_addr sp0, force_compact := force_compact sp0\<rparr>"
    using assms(3-6) alt n rs by (intro sysparam.equality) (auto simp: act_def)
  have e: "init_find_end ((sp\<lparr>force_compact := False\<rparr>)\<lparr>end_addr := end_addr sp0, force_compact := force_compact sp0\<rparr>)
      = (SYSPARAM_OK, sp\<lparr>force_compact := False\<rparr>)"
    by (rule init_find_end_ok [of _ es])
      (use assms(1,2) in \<open>auto simp: area_inv_def store_holds_def area_ok_def end_visible_def\<close>)
  have "sysparam_init base limit sp0 = init_find_end (sp0\<lparr>region_size := region_size sp,
      cur_base := (if act then base else ?alt), alt_base := (if act then ?alt else base)\<rparr>)"
    unfolding sysparam_init_def Let_def chip(1) chip(2) diff_zero limit'_def [symmetric] scan
    using o i f0(1,4) u(1) by simp
  then show ?thesis using st e by simp
qed

section \<open>Creation\<close>

lemma create_regions_ok:
  assumes "chip_ok (flashchip sp)" "base \<noteq> 0" "base mod SPI_FLASH_SECTOR_SIZE = 0" "0 < n"
    and "base + 3 * (n * SPI_FLASH_SECTOR_SIZE) \<le> chip_size (flashchip sp)"
  defines "rs \<equiv> n * SPI_FLASH_SECTOR_SIZE"
  shows "\<exists>m. create_regions base n rs sp = (SYSPARAM_OK, sp\<lparr>flash := m\<rparr>)
    \<and> area_inv (sp\<lparr>flash := m, cur_base := base, alt_base := base + rs,
          end_addr := base + REGION_HEADER_SIZE, region_size := rs\<rparr>) []
    \<and> (\<forall>x. x < base \<or> base + 2 * rs \<le> x \<longrightarrow> m x = flash sp x)"
proof -
  have r: "4096 \<le> rs" "REGION_HEADER_SIZE \<le> rs" "base + 3 * rs \<le> 2 ^ 24" "rs mod SPI_FLASH_SECTOR_SIZE = 0"
    using assms(1,4,5) by (auto simp: rs_def SPI_FLASH_SECTOR_SIZE_def REGION_HEADER_SIZE_def chip_ok_def)
  have u: "u32 (base + rs) = base + rs" using r by simp
  have b2: "(base + rs) mod SPI_FLASH_SECTOR_SIZE = 0" using assms(3) r(4) by (simp add: mod_add_eq [symmetric] mod_eq_0_iff_dvd)
  define m1 where "m1 = nor_erase base rs (flash sp)"
  define m2 where "m2 = nor_erase (base + rs) rs m1"
  define m3 where "m3 = mem_put base (region_header_bytes (region_header_for base (base + rs) True)) m2"
  define m4 where "m4 = mem_put (base + rs) (region_header_bytes (region_header_for (base + rs) base False)) m3"
  have f1: "format_region base n sp = (SYSPARAM_OK, sp\<lparr>flash := m1\<rparr>)"
    using format_region_exact [OF assms(1,3), of n] assms(5) by (simp add: m1_def rs_def)
  have f2: "format_region (base + rs) n (sp\<lparr>flash := m1\<rparr>) = (SYSPARAM_OK, sp\<lparr>flash := m2\<rparr>)"
    using format_region_exact [of "sp\<lparr>flash := m1\<rparr>" "base + rs" n] assms(1,5) b2 by (simp add: m2_def rs_def)
  have e: "erased m2 base (base + 2 * rs)" by (auto simp: m1_def m2_def nor_erase_def erased_def)
  have w1: "write_region_header base (base + rs) True (sp\<lparr>flash := m2\<rparr>) = (SYSPARAM_OK, sp\<lparr>flash := m3\<rparr>)"
    using write_region_header_exact [of "sp\<lparr>flash := m2\<rparr>" base "base + rs" True] assms(1,5) e r
      erased_clearable [of m2 base "region_header_bytes (region_header_for base (base + rs) True)"]
    by (simp add: m3_def erased_def rs_def [symmetric])
  have "erased m3 (base + rs) (base + rs + REGION_HEADER_SIZE)" using e r by (auto simp: erased_def m3_def mem_put_def)
  then have w2: "write_region_header (base + rs) base False (sp\<lparr>flash := m3\<rparr>) = (SYSPARAM_OK, sp\<lparr>flash := m4\<rparr>)"
    using write_region_header_exact [of "sp\<lparr>flash := m3\<rparr>" "base + rs" base False] assms(1,5) r
      erased_clearable [of m3 "base + rs" "region_header_bytes (region_header_for (base + rs) base False)"]
    by (simp add: m4_def rs_def [symmetric])
  have "header_at m4 base (base + rs) True = header_at m3 base (base + rs) True"
    using r by (intro header_at_cong) (auto simp: m4_def mem_put_def)
  then have "header_at m4 base (base + rs) True" by (simp add: m3_def)
  moreover have "header_at m4 (base + rs) base False" by (simp add: m4_def)
  moreover have "erased m4 (base + REGION_HEADER_SIZE) (base + rs)"
    using e by (auto simp: erased_def m3_def m4_def mem_put_def)
  ultimately have "area_inv (sp\<lparr>flash := m4, cur_base := base, alt_base := base + rs,
      end_addr := base + REGION_HEADER_SIZE, region_size := rs\<rparr>) []"
    using assms(1-3,5) r by (simp add: area_inv_def store_holds_def area_ok_def alt_ok_def rs_def [symmetric])
  moreover have "\<forall>x. x < base \<or> base + 2 * rs \<le> x \<longrightarrow> m4 x = flash sp x"
    using r by (auto simp: m1_def m2_def m3_def m4_def mem_put_def nor_erase_def)
  ultimately show ?thesis
    using f1 f2 w1 w2 u by (intro exI [of _ m4]) (simp add: create_regions_def is_err_def)
qed

lemma rd32_ones:
  assumes "rd32 bs (4 * i) = 0xffffffff" "k < 4"
  shows "bs ! (4 * i + k) = 255"
proof -
  have lt: "unat (bs ! (4 * i)) < 256" "unat (bs ! (4 * i + 1)) < 256" "unat (bs ! (4 * i + 2)) < 256"
    "unat (bs ! (4 * i + 3)) < 256"
    by simp_all
  then have "unat (bs ! (4 * i)) = 255" "unat (bs ! (4 * i + 1)) = 255" "unat (bs ! (4 * i + 2)) = 255"
    "unat (bs ! (4 * i + 3)) = 255"
    using assms(1) unfolding rd32_def by linarith+
  moreover have "k \<in> {0, 1, 2, 3}" using assms(2) by auto
  ultimately have "unat (bs ! (4 * i + k)) = unat (255 :: byte)" by auto
  then show ?thesis by (simp only: word_unat_eq_iff)
qed

lemma scan_empty_erased:
  assumes "scan_empty_fuel n a limit sp = SYSPARAM_OK" "chip_ok (flashchip sp)" "limit \<le> chip_size (flashchip sp)"
    and "32 dvd (limit - a)"
  shows "erased (flash sp) a limit"
  using assms
proof (induction n arbitrary: a)
  case (Suc n)
  show ?case
  proof (cases "a < limit")
    case True
    then obtain k where k: "limit - a = 32 * k" "0 < k" using Suc.prems(4) by (metis dvdE gr0I mult_0_right zero_less_diff less_irrefl)
    then have in32: "a + 32 \<le> limit" by (cases k) auto
    then have rd: "flash_read sp a 32 = Some (mem_read (flash sp) a 32)" "u32 (a + 32) = a + 32"
      using Suc.prems by (auto simp: flash_read_inside chip_ok_def)
    let ?bs = "mem_read (flash sp) a 32"
    have ones: "\<forall>i \<in> set [0..<8]. rd32 ?bs (4 * i) = 0xffffffff"
      and rest: "scan_empty_fuel n (a + 32) limit sp = SYSPARAM_OK"
      using Suc.prems(1) True rd by (auto simp: SCAN_BUFFER_SIZE_def split: if_splits)
    have "flash sp (a + j) = 255" if "j < 32" for j
    proof -
      have "j div 4 < 8" "j = 4 * (j div 4) + j mod 4" using that by auto
      then have "?bs ! (4 * (j div 4) + j mod 4) = 255" using ones by (intro rd32_ones) auto
      then show ?thesis using that by simp
    qed
    then have "erased (flash sp) a (a + 32)"
      unfolding erased_def by (metis le_add_diff_inverse nat_add_left_cancel_less)
    moreover have "limit - (a + 32) = 32 * (k - 1)" using k by (simp add: diff_mult_distrib2)
    then have "erased (flash sp) (a + 32) limit" by (intro Suc.IH [OF rest Suc.prems(2,3)]) simp
    ultimately show ?thesis unfolding erased_def by (meson not_le)
  qed (auto simp: erased_def)
qed simp

end
