(* ===== verification/Sysparam.thy ===== *)
theory Sysparam
  imports Sysparam_Area
begin

text \<open>
  Properties of the parameter store as its callers see it, over the library of the
  preceding theories, with concrete areas on which their hypotheses hold.
\<close>

section \<open>Scans end on any flash contents\<close>

text \<open>
  Whatever the region holds, a scan that starts inside it comes to an end: every header it
  reads lies behind the previous one.
\<close>

definition scan_ok :: "sysparam \<Rightarrow> sysparam_context \<Rightarrow> bool" where
  "scan_ok sp c \<longleftrightarrow> cur_base sp + region_size sp + 2 ^ 17 < 2 ^ 32 \<and> REGION_HEADER_SIZE \<le> region_size sp
     \<and> cur_base sp \<le> addr c \<and> addr c \<le> cur_base sp + region_size sp \<and> elen (entry c) < 65536"

lemma elen_of_bytes [simp]: "elen (entry_header_of_bytes bs) < 65536"
  by (simp add: entry_header_of_bytes_def)

lemma scan_ok_cong [simp]:
  "scan_ok (sp\<lparr>force_compact := b\<rparr>) c = scan_ok sp c" "scan_ok sp (count_entry e c) = scan_ok sp c"
  by (simp_all add: scan_ok_def)

lemma next_entry_progress:
  assumes "scan_ok sp c" "next_entry c sp = (True, c', sp')"
  shows "sp' = sp" "addr c < addr c'" "scan_ok sp (c'\<lparr>entry := entry_header_of_bytes bs\<rparr>)"
  using assms
  by (auto simp: next_entry_def Let_def scan_ok_def region_end_def log_simps split: if_splits)

definition scan_result :: "sysparam \<Rightarrow> sysparam_context \<Rightarrow> sysparam_status \<times> sysparam_context \<times> sysparam \<Rightarrow> bool" where
  "scan_result sp c r \<longleftrightarrow> fst r \<noteq> SYSPARAM_HANG \<and> (fst r = SYSPARAM_OK \<longrightarrow>
     scan_ok (snd (snd r)) (fst (snd r)) \<and> addr c < addr (fst (snd r))
     \<and> cur_base (snd (snd r)) = cur_base sp \<and> region_size (snd (snd r)) = region_size sp)"

lemma find_entry_fuel_progress:
  assumes "scan_ok sp c" "cur_base sp + region_size sp < addr c + n" "mid \<noteq> ENTRY_ID_END"
  shows "scan_result sp c (find_entry_fuel n c mid fv sp)"
  using assms
proof (induction n arbitrary: c)
  case 0
  then show ?case by (simp add: scan_ok_def)
next
  case (Suc n)
  obtain go c1 sp1 where nx: "next_entry c sp = (go, c1, sp1)" by (cases "next_entry c sp")
  show ?case
  proof (cases go)
    case False
    then show ?thesis using nx Suc.prems(3) by (simp add: find_entry_end_def scan_result_def)
  next
    case True
    then have "next_entry c sp = (True, c1, sp1)" using nx by simp
    note pr = next_entry_progress [OF Suc.prems(1) this]
    show ?thesis
    proof (cases "flash_read sp1 (addr c1) ENTRY_HEADER_SIZE")
      case None
      then show ?thesis using nx True by (simp add: scan_result_def)
    next
      case (Some bs)
      let ?c2 = "c1\<lparr>entry := entry_header_of_bytes bs\<rparr>" and ?e = "entry_header_of_bytes bs"
      have "scan_ok sp (count_entry ?e ?c2)" using pr(3) by (simp only: scan_ok_cong)
      then have "scan_result sp (count_entry ?e ?c2) (find_entry_fuel n (count_entry ?e ?c2) mid fv sp)"
        using Suc.IH [of "count_entry ?e ?c2"] pr(2) Suc.prems by simp
      then show ?thesis
        using nx True Some pr Suc.prems(3)
        by (auto simp: Let_def find_entry_end_def scan_result_def simp del: count_entry_commute)
    qed
  qed
qed

lemma compare_payload_from_returns: "compare_payload_from a val i sp \<noteq> SYSPARAM_HANG"
proof (induction a val i sp rule: compare_payload_from.induct)
  case (1 a val i sp)
  then show ?case by (subst compare_payload_from.simps) (auto simp: Let_def split: option.splits)
qed

lemma compare_payload_returns: "compare_payload c val sp \<noteq> SYSPARAM_HANG"
  by (simp add: compare_payload_def compare_payload_from_returns)

lemma find_key_fuel_progress:
  assumes "scan_ok sp c" "cur_base sp + region_size sp < addr c + n"
  shows "fst (find_key_fuel n c key sp) \<noteq> SYSPARAM_HANG"
  using assms
proof (induction n arbitrary: c sp)
  case 0
  then show ?case by (simp add: scan_ok_def)
next
  case (Suc n)
  obtain st c1 sp1 where f: "find_entry c ENTRY_ID_ANY False sp = (st, c1, sp1)"
    by (cases "find_entry c ENTRY_ID_ANY False sp")
  have r: "scan_result sp c (st, c1, sp1)"
    using find_entry_fuel_progress [OF Suc.prems(1), of "region_size sp + 2" ENTRY_ID_ANY False] Suc.prems(1) f
    by (simp add: find_entry_def scan_ok_def)
  show ?case
  proof (cases "st = SYSPARAM_OK")
    case True
    then have "fst (find_key_fuel n c1 key sp1) \<noteq> SYSPARAM_HANG"
      using Suc.IH [of sp1 c1] Suc.prems r by (simp add: scan_result_def)
    moreover have "compare_payload c1 k sp1 \<noteq> SYSPARAM_HANG" for k
      by (rule compare_payload_returns)
    ultimately show ?thesis using f True
      by (auto split: option.splits sysparam_status.splits)
  next
    case False
    then show ?thesis using f r by (auto simp: scan_result_def split: sysparam_status.splits)
  qed
qed

section \<open>A concrete area\<close>

text \<open>
  An area of two sectors at 0x10000 whose first region holds a log, and a log with a text
  value that was changed once and a binary value. The properties below are applied to them.
\<close>

definition sample :: "ent list \<Rightarrow> sysparam" where
  "sample es = \<lparr>flashchip = sdk_flashchip_init,
     flash = mem_put 0x10008 (log_bytes es)
       (mem_put 0x11000 (region_header_bytes (region_header_for 0x11000 0x10000 False))
         (mem_put 0x10000 (region_header_bytes (region_header_for 0x10000 0x11000 True)) (\<lambda>_. 255))),
     cur_base = 0x10000, alt_base = 0x11000, end_addr = 0x10008 + log_size es, region_size = 4096,
     force_compact = False, malloc_ok = (\<lambda>_. True)\<rparr>"

definition sample_log :: "ent list" where
  "sample_log = [(0x8001, chars ''ssid''), (0x2001, chars ''old''), (0xA001, chars ''home''),
     (0x8002, chars ''boot''), (0xB002, [1, 0, 0, 0])]"

lemma sample_inv:
  assumes "\<forall>e \<in> set es. ent_ok e" "log_inv es" "log_size es \<le> 4088"
  shows "area_inv (sample es) es"
proof -
  let ?m = "flash (sample es)"
  have "header_at ?m 0x10000 0x11000 True
      = header_at (mem_put 0x10000 (region_header_bytes (region_header_for 0x10000 0x11000 True)) (\<lambda>_. 255)) 0x10000 0x11000 True"
    by (rule header_at_cong) (simp add: sample_def mem_put_def REGION_HEADER_SIZE_def)
  moreover have "header_at ?m 0x11000 0x10000 False
      = header_at (mem_put 0x11000 (region_header_bytes (region_header_for 0x11000 0x10000 False))
         (mem_put 0x10000 (region_header_bytes (region_header_for 0x10000 0x11000 True)) (\<lambda>_. 255))) 0x11000 0x10000 False"
    by (rule header_at_cong) (use assms(3) in \<open>simp add: sample_def mem_put_def REGION_HEADER_SIZE_def\<close>)
  moreover have "log_at ?m 0x10008 es"
    using mem_read_put_same [where a = "0x10008" and bs = "log_bytes es"] by (simp add: log_at_def sample_def)
  moreover have "erased ?m (0x10008 + log_size es) 0x11000"
    by (auto simp: erased_def sample_def mem_put_def REGION_HEADER_SIZE_def)
  ultimately show ?thesis
    using assms
    by (simp add: area_inv_def store_holds_def area_ok_def alt_ok_def sample_def SPI_FLASH_SECTOR_SIZE_def
        REGION_HEADER_SIZE_def)
qed

lemma sample_flags [simp]:
  "live_key (0x8001, p)" "live_key (0x8002, p)" "\<not> live_key (0x2001, p)" "\<not> live_value (0x2001, p)"
  "live_value (0xA001, p)" "live_value (0xB002, p)"
  "eid (0x8001, p) = 1" "eid (0xA001, p) = 1" "eid (0x8002, p) = 2" "eid (0xB002, p) = 2"
  by (simp_all add: live_key_def live_value_def eid_def entry_live_def entry_is_value_def entry_id_def entry_flag_defs)

lemma sample_log_ok:
  "\<forall>e \<in> set sample_log. ent_ok e" "log_inv sample_log" "log_size sample_log = 39"
  "alookup sample_log (chars ''ssid'') = Some (chars ''home'', False)"
  by (simp_all add: sample_log_def ent_ok_def log_inv_def MAX_KEY_ID_def chars_def ENTRY_SIZE_def
      ENTRY_HEADER_SIZE_def alookup_def binary_flag_def ENTRY_FLAG_BINARY_def)

lemma sample_log_inv: "area_inv (sample sample_log) sample_log"
  by (rule sample_inv) (simp_all add: sample_log_ok)

lemma sample_visible [simp]: "end_visible (sample sample_log)"
  using sample_log_ok(3) by (simp add: end_visible_def sample_def)

lemma length_chars [simp]: "length (chars cs) = length cs" "chars cs = [] \<longleftrightarrow> cs = []"
  by (simp_all add: chars_def)

lemma sample_log_room:
  assumes "length key + length val \<le> 4000"
  shows "room_for key val (sample sample_log) sample_log"
proof -
  have "top_id sample_log = 2" by (simp add: sample_log_def top_id_def)
  then show ?thesis
    using assms sample_log_ok(3)
    by (simp add: room_for_def sample_def ENTRY_SIZE_def ENTRY_HEADER_SIZE_def MAX_KEY_ID_def)
qed

lemma sample_fields [simp]:
  "malloc_ok (sample es) n" "\<not> force_compact (sample es)" "cur_base (sample es) = 0x10000"
  "alt_base (sample es) = 0x11000" "flashchip (sample es) = sdk_flashchip_init" "region_size (sample es) = 4096"
  by (simp_all add: sample_def)

section \<open>Properties\<close>

text \<open>
  C3. Reading a parameter is a lookup: in an area whose log is \<open>es\<close>, \<open>sysparam_get_data\<close> returns
  the value and type the map of the log has for the key, \<open>SYSPARAM_NOTFOUND\<close> when it has none,
  and changes nothing.
\<close>

theorem get_data_is_lookup:
  assumes "area_inv sp es" "end_visible sp" "length key < 65536" "\<And>n. malloc_ok sp n"
  shows "sysparam_get_data key sp = (case alookup es key of
      None \<Rightarrow> (SYSPARAM_NOTFOUND, None, sp)
    | Some (v, b) \<Rightarrow> (SYSPARAM_OK, Some \<lparr>bytes = v @ [0], actual_length = length v, is_binary = b\<rparr>, sp))"
  using get_data_alookup [of sp es key] assms by (simp add: area_inv_def)

theorem get_data_is_lookup_witness:
  "sysparam_get_data (chars ''ssid'') (sample sample_log)
    = (SYSPARAM_OK, Some \<lparr>bytes = chars ''home'' @ [0], actual_length = length ''home'', is_binary = False\<rparr>, sample sample_log)"
  using get_data_is_lookup [OF sample_log_inv, of "chars ''ssid''"] sample_log_ok(4) by simp

text \<open>
  C2. Setting a parameter updates the map at its key and nowhere else: when no compaction is
  pending from an earlier call (\<open>force_compact\<close>), the new entries fit behind the log with a key id
  left (\<open>room_for\<close>), the end of the log can be recognised (\<open>end_visible\<close>), and key and value are not
  empty and shorter than 64 KiB, \<open>sysparam_set_data\<close> returns \<open>SYSPARAM_OK\<close>, keeps the invariant of
  the area, and its log stands for the old map updated at the key. With a compaction pending this
  fails for deleted keys (\<open>set_deleted_key_lost\<close> below).
\<close>

theorem set_data_updates_map:
  assumes "area_inv sp es" "end_visible sp" "\<not> force_compact sp"
    and "key \<noteq> []" "length key < 65536" "val \<noteq> []" "length val < 65536" "room_for key val sp es"
  shows "\<exists>sp' es'. sysparam_set_data key (Some val) (length val) b sp = (SYSPARAM_OK, sp')
    \<and> area_inv sp' es' \<and> alookup es' = (alookup es)(key \<mapsto> (val, b))"
proof -
  have "store_holds sp es" "log_inv es" using assms(1) by (simp_all add: area_inv_def)
  then show ?thesis
    using set_data_updates [of sp es key val b] same_area_inv [OF assms(1)] assms(2-) by metis
qed

theorem set_data_updates_map_witness:
  "\<exists>sp' es'. sysparam_set_data (chars ''ssid'') (Some (chars ''lab'')) (length ''lab'') False (sample sample_log) = (SYSPARAM_OK, sp')
    \<and> area_inv sp' es' \<and> alookup es' = (alookup sample_log)(chars ''ssid'' \<mapsto> (chars ''lab'', False))"
  using set_data_updates_map [OF sample_log_inv, of "chars ''ssid''" "chars ''lab''" False] sample_log_room by simp

text \<open>
  C1. What was set is what is read: when no compaction is pending (\<open>force_compact\<close>), the new
  entries fit behind the log (\<open>room_for\<close>), the end of the log can be recognised, memory can be
  allocated, and key and value are not empty and shorter than 64 KiB, \<open>sysparam_set_data\<close> returns
  \<open>SYSPARAM_OK\<close>, \<open>sysparam_get_data\<close> then returns the value and its type, and every other key that
  has a value reads as before; so does a key without one as long as the end of the log can still be
  recognised. With a compaction pending a deleted key is lost (\<open>set_deleted_key_lost\<close> below).
\<close>

theorem set_then_get:
  assumes "area_inv sp es" "end_visible sp" "\<not> force_compact sp" "\<And>n. malloc_ok sp n"
    and "key \<noteq> []" "length key < 65536" "val \<noteq> []" "length val < 65536" "room_for key val sp es"
  shows "\<exists>sp'. sysparam_set_data key (Some val) (length val) b sp = (SYSPARAM_OK, sp')
    \<and> sysparam_get_data key sp'
      = (SYSPARAM_OK, Some \<lparr>bytes = val @ [0], actual_length = length val, is_binary = b\<rparr>, sp')
    \<and> (\<forall>k v c. k \<noteq> key \<longrightarrow> length k < 65536 \<longrightarrow> alookup es k = Some (v, c) \<longrightarrow> sysparam_get_data k sp'
      = (SYSPARAM_OK, Some \<lparr>bytes = v @ [0], actual_length = length v, is_binary = c\<rparr>, sp'))
    \<and> (\<forall>k. k \<noteq> key \<longrightarrow> length k < 65536 \<longrightarrow> alookup es k = None \<longrightarrow> end_visible sp'
      \<longrightarrow> sysparam_get_data k sp' = (SYSPARAM_NOTFOUND, None, sp'))"
proof -
  have st: "store_holds sp es" "log_inv es" using assms(1) by (simp_all add: area_inv_def)
  obtain sp' es' where s: "sysparam_set_data key (Some val) (length val) b sp = (SYSPARAM_OK, sp')"
    and h: "store_holds sp' es'" "log_inv es'" and lk: "alookup es' = (alookup es)(key \<mapsto> (val, b))"
    and "same_area sp sp'"
    using set_data_updates [OF st(1) assms(2) st(2) assms(3,5-9), of b] by blast
  then have m: "\<And>n. malloc_ok sp' n" using assms(4) by (simp add: same_area_def)
  have "sysparam_get_data k sp'
      = (SYSPARAM_OK, Some \<lparr>bytes = v @ [0], actual_length = length v, is_binary = c\<rparr>, sp')"
    if "alookup es' k = Some (v, c)" "length k < 65536" for k v c
    using get_data_alookup [OF h(1) _ h(2) that(2) m] that(1) by simp
  moreover have "sysparam_get_data k sp' = (SYSPARAM_NOTFOUND, None, sp')"
    if "alookup es' k = None" "length k < 65536" "end_visible sp'" for k
    using get_data_alookup [OF h(1) _ h(2) that(2) m] that(1,3) by simp
  ultimately show ?thesis using s lk assms(6) by auto
qed

theorem set_then_get_witness:
  "\<exists>sp'. sysparam_set_data (chars ''new'') (Some (replicate 3 7)) 3 True (sample sample_log) = (SYSPARAM_OK, sp')
    \<and> sysparam_get_data (chars ''new'') sp'
      = (SYSPARAM_OK, Some \<lparr>bytes = replicate 3 7 @ [0], actual_length = 3, is_binary = True\<rparr>, sp')"
  using set_then_get [OF sample_log_inv, of "chars ''new''" "replicate 3 7" True] sample_log_room by auto

text \<open>
  C6. Deleting a parameter (a null or empty value) removes its key from the map and nothing
  else, writes no new entry, and reports \<open>SYSPARAM_NOTFOUND\<close> when there was no value.
\<close>

theorem delete_removes_key:
  assumes "area_inv sp es" "end_visible sp" "key \<noteq> []" "length key < 65536"
  shows "\<exists>sp' es'. sysparam_set_data key None 0 b sp
      = (if alookup es key = None then SYSPARAM_NOTFOUND else SYSPARAM_OK, sp')
    \<and> area_inv sp' es' \<and> alookup es' = (alookup es)(key := None) \<and> end_addr sp' = end_addr sp"
proof -
  have "store_holds sp es" "log_inv es" using assms(1) by (simp_all add: area_inv_def)
  then obtain sp' es' where "sysparam_set_data key None 0 b sp
      = (if alookup es key = None then SYSPARAM_NOTFOUND else SYSPARAM_OK, sp')"
    "store_holds sp' es'" "log_inv es'" "alookup es' = (alookup es)(key := None)" "same_area sp sp'"
    "end_addr sp' = end_addr sp"
    using set_data_deletes [of sp es key 0 b] assms(2-) by auto
  then show ?thesis using same_area_inv [OF assms(1)] by blast
qed

theorem delete_removes_key_witness:
  "\<exists>sp' es'. sysparam_set_data (chars ''ssid'') None 0 False (sample sample_log) = (SYSPARAM_OK, sp')
    \<and> area_inv sp' es' \<and> alookup es' = (alookup sample_log)(chars ''ssid'' := None)"
  using delete_removes_key [OF sample_log_inv, of "chars ''ssid''" False] sample_log_ok(4) by auto

text \<open>
  C4. Compaction moves the parameters to the other region without changing the map, gives
  back at least the space of all dead entries, makes the other region the active one and
  keeps the invariant of the area.
\<close>

theorem compact_keeps_map:
  assumes "area_inv sp es" "end_visible sp" "\<And>n. malloc_ok sp n"
  shows "\<exists>sp' es'. sysparam_compact sp = (SYSPARAM_OK, sp') \<and> area_inv sp' es' \<and> alookup es' = alookup es
    \<and> cur_base sp' = alt_base sp \<and> alt_base sp' = cur_base sp \<and> log_size es' + dead_size es \<le> log_size es"
proof -
  obtain sp' es' where "sysparam_compact sp = (SYSPARAM_OK, sp')" "area_inv sp' es'" "swapped sp sp'"
    "alookup es' = alookup es" "log_size es' + dead_size es \<le> log_size es"
    using compact_ok [OF assms] by metis
  then show ?thesis unfolding swapped_def by blast
qed

theorem compact_keeps_map_witness:
  "\<exists>sp' es'. sysparam_compact (sample sample_log) = (SYSPARAM_OK, sp') \<and> area_inv sp' es'
    \<and> alookup es' = alookup sample_log \<and> cur_base sp' = 0x11000"
  using compact_keeps_map [OF sample_log_inv] by auto

text \<open>
  C5. The store survives a reset: whatever the volatile state was, \<open>sysparam_init\<close> with the
  address of the area restores the region addresses, the region size and the end of the log
  that the store had, so the map is the one before the reset.
\<close>

theorem init_restores_store:
  assumes "area_inv sp es" "end_visible sp"
    and "flash sp0 = flash sp" "flashchip sp0 = flashchip sp" "malloc_ok sp0 = malloc_ok sp"
    and "limit = 0 \<or> min (cur_base sp) (alt_base sp) < limit"
  shows "sysparam_init (min (cur_base sp) (alt_base sp)) limit sp0 = (SYSPARAM_OK, sp\<lparr>force_compact := False\<rparr>)"
  using init_recovers [OF assms(1-5) refl assms(6)] .

theorem init_restores_store_witness:
  "sysparam_init 0x10000 0 ((sample sample_log)\<lparr>cur_base := 0, alt_base := 0, end_addr := 0, region_size := 0\<rparr>)
    = (SYSPARAM_OK, (sample sample_log)\<lparr>force_compact := False\<rparr>)"
  using init_restores_store [OF sample_log_inv, of "(sample sample_log)\<lparr>cur_base := 0, alt_base := 0, end_addr := 0, region_size := 0\<rparr>" 0]
  by simp

text \<open>
  A fresh area works: \<open>sysparam_create_area\<close> with \<open>force\<close> on an aligned range formats
  two regions and touches no byte outside the range; a following \<open>sysparam_init\<close> finds an empty
  store there.
\<close>

theorem create_then_init:
  assumes "chip_ok (flashchip sp)" "base \<noteq> 0" "base mod SPI_FLASH_SECTOR_SIZE = 0" "0 < n"
    and "base + 3 * (n * SPI_FLASH_SECTOR_SIZE) \<le> chip_size (flashchip sp)"
  shows "\<exists>sp1 sp2. sysparam_create_area base (2 * n) True sp = (SYSPARAM_OK, sp1)
    \<and> sysparam_init base 0 sp1 = (SYSPARAM_OK, sp2) \<and> area_inv sp2 [] \<and> cur_base sp2 = base
    \<and> (\<forall>x. x < base \<or> base + 2 * (n * SPI_FLASH_SECTOR_SIZE) \<le> x \<longrightarrow> flash sp1 x = flash sp x)"
proof -
  let ?rs = "n * SPI_FLASH_SECTOR_SIZE"
  define sp0 where "sp0 = (if cur_base sp = base \<or> alt_base sp = base
    then sp\<lparr>cur_base := 0, alt_base := 0, end_addr := 0, region_size := 0, force_compact := False\<rparr> else sp)"
  have same: "flash sp0 = flash sp" "flashchip sp0 = flashchip sp" by (simp_all add: sp0_def)
  obtain m where m: "create_regions base n ?rs sp0 = (SYSPARAM_OK, sp0\<lparr>flash := m\<rparr>)"
    "area_inv (sp0\<lparr>flash := m, cur_base := base, alt_base := base + ?rs, end_addr := base + REGION_HEADER_SIZE, region_size := ?rs\<rparr>) []"
    "\<forall>x. x < base \<or> base + 2 * ?rs \<le> x \<longrightarrow> m x = flash sp x"
    using create_regions_ok [of sp0 base n] assms same by auto
  let ?sp = "sp0\<lparr>flash := m, cur_base := base, alt_base := base + ?rs, end_addr := base + REGION_HEADER_SIZE, region_size := ?rs\<rparr>"
  have rs: "u32 ?rs = ?rs" "4096 \<le> ?rs"
    using assms(1,4,5) by (auto simp: chip_ok_def SPI_FLASH_SECTOR_SIZE_def)
  have c: "sysparam_create_area base (2 * n) True sp = (SYSPARAM_OK, sp0\<lparr>flash := m\<rparr>)"
    using m(1) assms(1,4) rs by (simp add: sysparam_create_area_def Let_def chip_ok_def flip: sp0_def)
  have "end_visible ?sp" using rs by (simp add: end_visible_def REGION_HEADER_SIZE_def)
  then have i: "sysparam_init base 0 (sp0\<lparr>flash := m\<rparr>) = (SYSPARAM_OK, ?sp\<lparr>force_compact := False\<rparr>)"
    using init_recovers [OF m(2), of "sp0\<lparr>flash := m\<rparr>" base 0] by simp
  have "area_inv (?sp\<lparr>force_compact := False\<rparr>) []"
    using m(2) by (simp add: area_inv_def store_holds_def area_ok_def alt_ok_def)
  then show ?thesis using c i m(3) by auto
qed

theorem create_then_init_witness:
  "\<exists>sp1 sp2. sysparam_create_area 0x20000 4 True (sample []) = (SYSPARAM_OK, sp1)
    \<and> sysparam_init 0x20000 0 sp1 = (SYSPARAM_OK, sp2) \<and> area_inv sp2 [] \<and> cur_base sp2 = 0x20000"
  using create_then_init [of "sample []" "0x20000" 2] by (auto simp: SPI_FLASH_SECTOR_SIZE_def)

text \<open>
  Without \<open>force\<close>, \<open>sysparam_create_area\<close> destroys no data: if a byte of the range is not
  erased, it fails and leaves the flash and the state as they were.
\<close>

theorem create_unforced_is_safe:
  assumes "chip_ok (flashchip sp)" "base + 2 * (n * SPI_FLASH_SECTOR_SIZE) \<le> chip_size (flashchip sp)"
    and "base \<le> x" "x < base + 2 * (n * SPI_FLASH_SECTOR_SIZE)" "flash sp x \<noteq> 255"
  shows "fst (sysparam_create_area base (2 * n) False sp) \<noteq> SYSPARAM_OK
    \<and> snd (sysparam_create_area base (2 * n) False sp) = sp"
proof -
  let ?rs = "n * SPI_FLASH_SECTOR_SIZE"
  have "base + 2 * ?rs \<le> 16777216" using assms(1,2) by (auto simp: chip_ok_def)
  then have "?rs < 4294967296" "2 * ?rs < 4294967296" "base + 2 * ?rs < 4294967296" by linarith+
  then have rs: "u32 ?rs = ?rs" "u32 (2 * ?rs) = 2 * ?rs" "u32 (base + 2 * ?rs) = base + 2 * ?rs"
    by (simp_all add: u32_def)
  have s: "sector_size (flashchip sp) = SPI_FLASH_SECTOR_SIZE" using assms(1) by (simp add: chip_ok_def)
  have "32 dvd (base + 2 * ?rs - base)" by (simp add: SPI_FLASH_SECTOR_SIZE_def)
  moreover have "\<not> erased (flash sp) base (base + 2 * ?rs)" using assms(3-5) by (auto simp: erased_def)
  ultimately have "scan_empty_fuel k base (base + 2 * ?rs) sp \<noteq> SYSPARAM_OK" for k
    using scan_empty_erased [OF _ assms(1,2)] by blast
  then show ?thesis
    using rs s
    by (simp add: sysparam_create_area_def Let_def mult.commute [of _ 2] del: scan_empty_fuel.simps)
qed

theorem create_unforced_is_safe_witness:
  "fst (sysparam_create_area 0x10000 2 False (sample sample_log)) \<noteq> SYSPARAM_OK
    \<and> snd (sysparam_create_area 0x10000 2 False (sample sample_log)) = sample sample_log"
proof -
  have "flash (sample sample_log) 0x10000 \<noteq> 255"
    by (simp add: sample_def mem_put_def region_header_bytes_def region_header_for_def SYSPARAM_MAGIC_def le32_def
        REGION_HEADER_SIZE_def)
  then show ?thesis
    using create_unforced_is_safe [of "sample sample_log" "0x10000" 1 "0x10000"] by (simp add: SPI_FLASH_SECTOR_SIZE_def)
qed

text \<open>
  C8. A scan of the region ends whatever the flash holds: a key search that starts in the
  region returns a status on arbitrary, even corrupted, contents.
\<close>

theorem find_key_ends:
  assumes "scan_ok sp c"
  shows "fst (find_key c key sp) \<noteq> SYSPARAM_HANG"
  unfolding find_key_def using assms by (intro find_key_fuel_progress) (auto simp: scan_ok_def)

theorem find_key_ends_witness:
  "fst (find_key (init_context (sample [])) (Some (chars ''ssid'')) ((sample [])\<lparr>flash := \<lambda>_. 0\<rparr>)) \<noteq> SYSPARAM_HANG"
  using find_key_ends [of "(sample [])\<lparr>flash := \<lambda>_. 0\<rparr>" "init_context (sample [])" "Some (chars ''ssid'')"]
  by (simp add: scan_ok_def init_context_def zero_context_def zero_header_def REGION_HEADER_SIZE_def)

lemma s32_roundtrip: "- (2 ^ 31) \<le> x \<Longrightarrow> x < 2 ^ 31 \<Longrightarrow> s32 (nat (x mod 2 ^ 32)) = x"
proof -
  assume x: "- (2 ^ 31) \<le> x" "x < 2 ^ 31"
  show ?thesis
  proof (cases "0 \<le> x")
    case True
    then show ?thesis using x by (simp add: s32_def)
  next
    case False
    then have "(x + 2 ^ 32) mod 2 ^ 32 = x + 2 ^ 32" using x by (intro mod_pos_pos_trivial) simp_all
    then have "x mod 2 ^ 32 = x + 2 ^ 32" by (simp only: mod_add_self2)
    then show ?thesis using x False by (simp add: s32_def)
  qed
qed

lemma room_for_length: "length v = length w \<Longrightarrow> room_for key v sp es = room_for key w sp es"
  by (simp add: room_for_def)

text \<open>
  A 32 bit integer reads back as it was stored: \<open>sysparam_set_int32\<close> followed by
  \<open>sysparam_get_int32\<close> gives the same signed number.
\<close>

theorem int32_roundtrip:
  assumes "area_inv sp es" "end_visible sp" "\<not> force_compact sp"
    and "key \<noteq> []" "length key < 65536" "room_for key [0, 0, 0, 0] sp es" "- (2 ^ 31) \<le> x" "x < 2 ^ 31"
  shows "\<exists>sp'. sysparam_set_int32 key x sp = (SYSPARAM_OK, sp') \<and> sysparam_get_int32 key sp' = (SYSPARAM_OK, Some x, sp')"
proof -
  let ?v = "le32 (nat (x mod 2 ^ 32))"
  have v: "?v \<noteq> []" "length ?v = 4" "room_for key ?v sp es"
    using assms(6) room_for_length [of ?v "[0, 0, 0, 0]"] by (simp_all add: le32_def)
  have st: "store_holds sp es" "log_inv es" using assms(1) by (simp_all add: area_inv_def)
  obtain sp' es' where s: "sysparam_set_data key (Some ?v) (length ?v) True sp = (SYSPARAM_OK, sp')"
    and h: "store_holds sp' es'" "log_inv es'" and lk: "alookup es' = (alookup es)(key \<mapsto> (?v, True))"
    by (rule set_data_updates [OF st(1) assms(2) st(2) assms(3-5) v(1) _ v(3), of True]) (simp add: v(2), blast)
  have "4 \<le> region_size sp'" using h(1) area_bounds(2) [of sp'] by (simp add: store_holds_def)
  then obtain more where "sysparam_get_data_static key 4 sp'
      = (SYSPARAM_OK, Some \<lparr>bytes = ?v @ more, actual_length = 4, is_binary = True\<rparr>, sp')"
    using get_data_static_alookup [OF h(1) _ h(2) assms(5), of 4] lk v(2) by auto
  moreover have "rd32 (?v @ more) 0 = nat (x mod 2 ^ 32)" by (rule rd32_le32) simp
  ultimately show ?thesis
    using s v(2) s32_roundtrip [OF assms(7,8)] by (simp add: sysparam_set_int32_def sysparam_get_int32_def)
qed

theorem int32_roundtrip_witness:
  "\<exists>sp'. sysparam_set_int32 (chars ''boot'') (- 5) (sample sample_log) = (SYSPARAM_OK, sp')
    \<and> sysparam_get_int32 (chars ''boot'') sp' = (SYSPARAM_OK, Some (- 5), sp')"
  using int32_roundtrip [OF sample_log_inv, of "chars ''boot''" "- 5"] sample_log_room by simp

text \<open>
  \<open>sysparam_get_bool\<close> stores the terminating zero at \<open>buf[data_len]\<close> of its nine byte buffer
  without looking at \<open>data_len\<close>: the store is out of bounds exactly for text values of more
  than eight bytes.
\<close>

theorem get_bool_overruns:
  assumes "area_inv sp es" "end_visible sp" "length key < 65536"
  shows "sysparam_get_bool key sp = None \<longleftrightarrow> (\<exists>v. alookup es key = Some (v, False) \<and> 8 < length v)"
proof -
  have st: "store_holds sp es" "log_inv es" using assms(1) by (simp_all add: area_inv_def)
  then have area: "area_ok sp" by (simp add: store_holds_def)
  have init: "cur_base sp \<noteq> 0" using area by (simp add: area_ok_def)
  have ev: "alookup es key = None \<longrightarrow> end_visible sp" using assms(2) by simp
  show ?thesis
  proof (cases rule: find_key_value_cases [OF st(1) ev st(2) assms(3)])
    case (1 c)
    then show ?thesis using init by (simp add: sysparam_get_bool_def sysparam_get_data_static_def)
  next
    case (2 xs V ys c)
    have "addr c + ENTRY_HEADER_SIZE \<le> cur_base sp + region_size sp"
      using st(1) 2(1,5) by (auto simp: store_holds_def log_simps)
    then have "read_payload c 8 sp = (SYSPARAM_OK, mem_read (flash sp) (addr c + ENTRY_HEADER_SIZE) 8)"
      using area_bounds [OF area] by (simp add: read_payload_def flash_read_inside)
    then have "sysparam_get_data_static key 8 sp = (SYSPARAM_OK, Some \<lparr>bytes = mem_read (flash sp) (addr c + ENTRY_HEADER_SIZE) 8,
        actual_length = length (snd V), is_binary = binary_flag (fst V)\<rparr>, sp)"
      using 2 init by (simp add: sysparam_get_data_static_def binary_flag_def)
    then show ?thesis using 2(2) by (auto simp: sysparam_get_bool_def Let_def split: option.splits)
  qed
qed

theorem get_bool_overruns_witness:
  "sysparam_get_bool (chars ''ssid'') (sample sample_log) \<noteq> None
    \<and> sysparam_get_bool (chars ''a'') (sample [(0x8001, chars ''a''), (0xA001, chars ''longer than 8'')]) = None"
proof -
  let ?es = "[(0x8001, chars ''a''), (0xA001, chars ''longer than 8'')]"
  have "area_inv (sample ?es) ?es"
    by (rule sample_inv) (simp_all add: ent_ok_def log_inv_def MAX_KEY_ID_def ENTRY_SIZE_def ENTRY_HEADER_SIZE_def)
  moreover have "end_visible (sample ?es)"
    by (simp add: end_visible_def sample_def ENTRY_SIZE_def ENTRY_HEADER_SIZE_def)
  moreover have "alookup ?es (chars ''a'') = Some (chars ''longer than 8'', False)"
    by (simp add: alookup_def binary_flag_def ENTRY_FLAG_BINARY_def)
  ultimately show ?thesis
    using get_bool_overruns [of "sample ?es" ?es "chars ''a''"]
      get_bool_overruns [OF sample_log_inv, of "chars ''ssid''"] sample_log_ok(4) by simp
qed

text \<open>The loop of a client that lists all parameters: \<open>sysparam_iter_next\<close> until it does not return OK.\<close>

fun iter_all :: "nat \<Rightarrow> sysparam_iter \<Rightarrow> sysparam \<Rightarrow> sysparam_status \<times> (byte list \<times> byte list \<times> bool) list" where
  "iter_all 0 it sp = (SYSPARAM_HANG, [])"
| "iter_all (Suc n) it sp =
     (case sysparam_iter_next it sp of
        (SYSPARAM_OK, it', sp') \<Rightarrow>
          (case iter_all n it' sp' of (st, ps) \<Rightarrow> (st, (iter_key it', iter_value it', binary it') # ps))
      | (st, it', sp') \<Rightarrow> (st, []))"

lemma iter_all_pairs:
  assumes "store_holds sp (pre @ rest)" "end_visible sp" "log_inv (pre @ rest)" "\<And>n. malloc_ok sp n"
    and "iter_ok sp pre it" "length rest < n"
  shows "iter_all n it sp = (SYSPARAM_NOTFOUND, map snd (pairs (pre @ rest) rest))"
  using assms
proof (induction n arbitrary: pre rest it)
  case (Suc n)
  have "length rest < region_size sp + 2" using store_length [OF Suc.prems(1)] by simp
  note nxt = iter_next_fuel_pairs [OF Suc.prems(1-5) this, folded sysparam_iter_next_def]
  show ?case
  proof (cases "pairs (pre @ rest) rest")
    case Nil
    then show ?thesis using nxt by auto
  next
    case (Cons p ps)
    obtain pre' rest' it' where it': "sysparam_iter_next it sp = (SYSPARAM_OK, it', sp)"
      "pre @ rest = pre' @ rest'" "length rest' < length rest" "pairs (pre @ rest) rest' = ps"
      "iter_ok sp pre' it'" "iter_shows it' p"
      using nxt Cons by auto
    have "iter_all n it' sp = (SYSPARAM_NOTFOUND, map snd (pairs (pre' @ rest') rest'))"
      using Suc.IH [of pre' rest' it'] Suc.prems it' by simp
    then show ?thesis using it' Cons by (cases p) (simp add: iter_shows_def)
  qed
qed simp

text \<open>
  C7. Iteration lists the store: a loop over \<open>sysparam_iter_next\<close> from \<open>sysparam_iter_start\<close> ends
  after at most as many rounds as there are entries, with \<open>SYSPARAM_NOTFOUND\<close>, and has then seen
  every parameter of the map exactly once, with its value and type.
\<close>

theorem iteration_lists_map:
  assumes "area_inv sp es" "end_visible sp" "\<And>n. malloc_ok sp n"
  shows "\<exists>it ps. sysparam_iter_start sp = (SYSPARAM_OK, Some it)
    \<and> iter_all (length es + 1) it sp = (SYSPARAM_NOTFOUND, ps)
    \<and> distinct (map fst ps) \<and> map_of ps = alookup es"
proof -
  have st: "store_holds sp es" "log_inv es" using assms(1) by (simp_all add: area_inv_def)
  then have area: "area_ok sp" by (simp add: store_holds_def)
  obtain it where it: "sysparam_iter_start sp = (SYSPARAM_OK, Some it)" "iter_ok sp [] it"
    using assms(3) area area_bounds(2) [OF area]
    by (simp add: sysparam_iter_start_def iter_ok_def area_ok_def DEFAULT_ITER_BUF_SIZE_def)
  have "iter_all (length es + 1) it sp = (SYSPARAM_NOTFOUND, map snd (pairs es es))"
    using iter_all_pairs [of sp "[]" es it "length es + 1"] st assms(2,3) it(2) by simp
  moreover have "distinct (map fst (map snd (pairs es es)))" "map_of (map snd (pairs es es)) = alookup es"
    using log_inv_pairs(1,2) [OF st(2)] by (simp_all add: pair_keys_def pair_map_def)
  ultimately show ?thesis using it(1) by blast
qed

theorem iteration_lists_map_witness:
  "\<exists>it ps. sysparam_iter_start (sample sample_log) = (SYSPARAM_OK, Some it)
    \<and> iter_all 6 it (sample sample_log) = (SYSPARAM_NOTFOUND, ps)
    \<and> distinct (map fst ps) \<and> map_of ps = alookup sample_log"
proof -
  have "length sample_log + 1 = 6" by (simp add: sample_log_def)
  then show ?thesis using iteration_lists_map [OF sample_log_inv] by auto
qed

text \<open>
  C9. A deleted key is not resurrected by every set: when the key entry is still in the log
  without a value and \<open>sysparam_set_data\<close> compacts (here because of \<open>force_compact\<close>), the
  compaction drops the key but the call goes on with its old id. It writes a value entry
  only, returns \<open>SYSPARAM_OK\<close>, and the parameter still has no value.
\<close>

theorem set_deleted_key_lost:
  assumes "area_inv sp es" "end_visible sp" "force_compact sp" "\<And>n. malloc_ok sp n"
    and "key \<in> fst ` set (keymap es)" "alookup es key = None" "key \<noteq> []" "length key < 65536"
    and "val \<noteq> []" "length val < 65536" "room_for key val sp es"
  shows "\<exists>sp' es'. sysparam_set_data key (Some val) (length val) b sp = (SYSPARAM_OK, sp')
    \<and> store_holds sp' es' \<and> alookup es' key = None"
proof -
  have st: "store_holds sp es" and inv: "log_inv es" using assms(1) by (simp_all add: area_inv_def)
  note ps = log_inv_pairs [OF inv]
  obtain l i where f: "set_find key sp = (SYSPARAM_NOTFOUND, l, sp)" "key_id l = int (unat i)" "old_value_addr l = 0"
    "i \<notin> fst ` set (valmap es)" "i AND ENTRY_MASK_ID = i"
    by (cases rule: set_find_cases [OF st assms(2) inv, of key]) (use assms(5,6) in auto)
  have init: "cur_base sp \<noteq> 0" using st by (auto simp: store_holds_def area_ok_def)
  have sd: "sysparam_set_data key (Some val) (length val) b sp = set_store key val b l sp"
    using assms(7-10) f init by (simp add: sysparam_set_data_def Let_def MAX_VALUE_LEN_def is_err_def)
  have room: "end_addr sp + ENTRY_SIZE (length val) \<le> cur_base sp + region_size sp"
    using assms(5,11) by (simp add: room_for_def)
  have none: "\<forall>p \<in> set (pairs es es). Some (key_id l) \<noteq> Some (int (unat (fst p)))"
  proof
    fix p
    assume "p \<in> set (pairs es es)"
    then have "i \<noteq> fst p" using f(4) pairs_have_values by blast
    then show "Some (key_id l) \<noteq> Some (int (unat (fst p)))"
      unfolding f(2) option.inject of_nat_eq_iff by (simp add: word_unat_eq_iff)
  qed
  obtain out where out: "copied (Some (key_id l)) [] (pairs es es) = (out, Some (key_id l))" "log_inv out"
    "fst ` set (keymap out) = set (pair_keys (pairs es es))"
    using copied_plain [of "[]" "pairs es es" "Some (key_id l)"] none ps by auto
  have size: "log_size out \<le> log_size es"
    using copied_size [OF none, of "[]"] out(1) log_inv_pair_size [OF inv] by simp
  obtain sp1 where c: "compact_params (Some (sctx l)) (Some (key_id l)) sp = (SYSPARAM_OK,
      Some (zero_context\<lparr>addr := end_addr sp1, max_key_id := top_id out\<rparr>), Some (key_id l), sp1)"
    "area_inv sp1 out" "swapped sp sp1"
    using compact_params_ok [OF assms(1,2,4) out(1,2) size, of "Some (sctx l)"] by auto
  define l1 where "l1 = l\<lparr>sctx := zero_context\<lparr>addr := end_addr sp1, max_key_id := top_id out\<rparr>\<rparr>"
  have forced: "set_forced_compact l sp = Inr (l1, sp1)"
    using assms(3) c(1) by (simp add: set_forced_compact_def set_compact_def is_err_def l1_def)
  have st1: "store_holds sp1 out" using c(2) by (simp add: area_inv_def)
  have room1: "end_addr sp1 + ENTRY_SIZE (length val) \<le> cur_base sp1 + region_size sp1"
    using room size st st1 c(3) by (simp add: store_holds_def swapped_def)
  have l1: "key_id l1 = key_id l" "old_value_addr l1 = 0" "0 \<le> key_id l1" using f by (simp_all add: l1_def)
  let ?v = "(vflags (value_flags i b), val)"
  obtain sp2 where w: "set_write key val b l1 sp1 = Inr sp2" "store_holds sp2 (out @ [?v])"
    using set_write_value [OF st1 l1(3) assms(10) room1, where b = b and key = key] l1(1) f(2) by auto
  have fs: "\<not> free_space sp < ENTRY_SIZE (length val)" using room free_space_eq [OF st] by simp
  have "set_store key val b l sp = (SYSPARAM_OK, sp2)"
    using fs f(2) forced w(1) l1(2)
    by (simp add: set_store_def set_make_room_def set_check_ids_def set_delete_old_def Let_def)
  moreover have "key \<notin> fst ` set (keymap (out @ [?v]))"
    using out(3) pair_map_Some [of key "pairs es es"] ps(1) assms(6) value_entry_flags(1) [OF f(5)] by auto
  then have "alookup (out @ [?v]) key = None"
    by (simp add: alookup_def map_of_eq_None_iff [THEN iffD2] del: keymap_append)
  ultimately show ?thesis using sd w(2) by auto
qed

definition deleted_log :: "ent list" where
  "deleted_log = [(0x8001, chars ''ssid''), (0x2001, chars ''home'')]"

theorem set_deleted_key_lost_witness:
  "\<exists>sp' es'. sysparam_set_data (chars ''ssid'') (Some (replicate 3 65)) 3 False ((sample deleted_log)\<lparr>force_compact := True\<rparr>)
      = (SYSPARAM_OK, sp') \<and> store_holds sp' es' \<and> alookup es' (chars ''ssid'') = None"
proof -
  let ?sp = "(sample deleted_log)\<lparr>force_compact := True\<rparr>"
  have "area_inv (sample deleted_log) deleted_log"
    by (rule sample_inv)
      (simp_all add: deleted_log_def ent_ok_def log_inv_def MAX_KEY_ID_def ENTRY_SIZE_def ENTRY_HEADER_SIZE_def)
  then have "area_inv ?sp deleted_log" by simp
  moreover have "end_visible ?sp" "room_for (chars ''ssid'') (replicate 3 65) ?sp deleted_log"
    by (simp_all add: end_visible_def room_for_def sample_def deleted_log_def ENTRY_SIZE_def ENTRY_HEADER_SIZE_def)
  moreover have "chars ''ssid'' \<in> fst ` set (keymap deleted_log)" "alookup deleted_log (chars ''ssid'') = None"
    by (simp_all add: deleted_log_def alookup_def)
  ultimately show ?thesis
    using set_deleted_key_lost [of ?sp deleted_log "chars ''ssid''" "replicate 3 65" False] by simp
qed

end
