(* ===== verification/Onewire.thy ===== *)
theory Onewire
  imports Prelude
begin

text \<open>
  The 1-Wire master of \<open>src/extras/onewire/onewire.c\<close>: bit slots, byte transfers, the ROM
  search and the two cyclic redundancy checks.

  The pin and what is wired to it are not part of the firmware. They are the parameter
  \<open>g\<close>, the operations \<open>gpio_enable\<close>, \<open>gpio_write\<close>, \<open>gpio_read\<close> and \<open>sdk_os_delay_us\<close> over a state of
  any type that stands for the wire; critical sections keep the timing and have no other
  effect. A result of -1 is \<open>None\<close>.
\<close>

section \<open>The pin\<close>

datatype gpio_direction = GPIO_OUTPUT | GPIO_OUT_OPEN_DRAIN

record 's gpio =
  gpio_enable :: "gpio_direction \<Rightarrow> 's \<Rightarrow> 's"
  gpio_write :: "bool \<Rightarrow> 's \<Rightarrow> 's"
  gpio_read :: "'s \<Rightarrow> bool"
  delay_us :: "nat \<Rightarrow> 's \<Rightarrow> 's"

definition ONEWIRE_SELECT_ROM :: byte where "ONEWIRE_SELECT_ROM = 0x55"
definition ONEWIRE_SKIP_ROM :: byte where "ONEWIRE_SKIP_ROM = 0xcc"
definition ONEWIRE_SEARCH :: byte where "ONEWIRE_SEARCH = 0xf0"

fun wait_loop :: "'s gpio \<Rightarrow> nat \<Rightarrow> 's \<Rightarrow> 's" where
  "wait_loop g 0 w = w"
| "wait_loop g (Suc n) w = (if gpio_read g w then w else wait_loop g n (delay_us g 5 w))"

definition onewire_wait_for_bus :: "'s gpio \<Rightarrow> nat \<Rightarrow> 's \<Rightarrow> bool \<times> 's" where
  "onewire_wait_for_bus g max_wait w =
     (let w1 = wait_loop g ((max_wait + 4) div 5) w
      in (gpio_read g w1, delay_us g 1 w1))"

definition onewire_reset :: "'s gpio \<Rightarrow> 's \<Rightarrow> bool \<times> 's" where
  "onewire_reset g w =
     (case onewire_wait_for_bus g 250 (gpio_write g True (gpio_enable g GPIO_OUT_OPEN_DRAIN w)) of
        (False, w1) \<Rightarrow> (False, w1)
      | (True, w1) \<Rightarrow>
          let w2 = delay_us g 480 (gpio_write g False w1);
              w3 = delay_us g 70 (gpio_write g True w2);
              r = (\<not> gpio_read g w3)
          in (case onewire_wait_for_bus g 410 w3 of
                (False, w4) \<Rightarrow> (False, w4) | (True, w4) \<Rightarrow> (r, w4)))"

definition onewire_write_bit :: "'s gpio \<Rightarrow> bool \<Rightarrow> 's \<Rightarrow> bool \<times> 's" where
  "onewire_write_bit g v w =
     (case onewire_wait_for_bus g 10 w of
        (False, w1) \<Rightarrow> (False, w1)
      | (True, w1) \<Rightarrow>
          if v
          then (True, delay_us g 1 (delay_us g 55 (gpio_write g True (delay_us g 10 (gpio_write g False w1)))))
          else (True, delay_us g 1 (gpio_write g True (delay_us g 65 (gpio_write g False w1)))))"

definition onewire_read_bit :: "'s gpio \<Rightarrow> 's \<Rightarrow> bool option \<times> 's" where
  "onewire_read_bit g w =
     (case onewire_wait_for_bus g 10 w of
        (False, w1) \<Rightarrow> (None, w1)
      | (True, w1) \<Rightarrow>
          let w2 = delay_us g 11 (gpio_write g True (delay_us g 2 (gpio_write g False w1)))
          in (Some (gpio_read g w2), delay_us g 48 w2))"

section \<open>Bytes\<close>

text \<open>The loop over the bit masks 0x01, 0x02, ..., 0x80; \<open>n\<close> masks are left.\<close>

fun write_bits :: "'s gpio \<Rightarrow> byte \<Rightarrow> nat \<Rightarrow> nat \<Rightarrow> 's \<Rightarrow> bool \<times> 's" where
  "write_bits g v i 0 w = (True, w)"
| "write_bits g v i (Suc n) w =
     (case onewire_write_bit g (bit v i) w of
        (False, w1) \<Rightarrow> (False, w1) | (True, w1) \<Rightarrow> write_bits g v (Suc i) n w1)"

definition onewire_write :: "'s gpio \<Rightarrow> byte \<Rightarrow> 's \<Rightarrow> bool \<times> 's" where
  "onewire_write g v w = write_bits g v 0 8 w"

fun onewire_write_bytes :: "'s gpio \<Rightarrow> byte list \<Rightarrow> 's \<Rightarrow> bool \<times> 's" where
  "onewire_write_bytes g [] w = (True, w)"
| "onewire_write_bytes g (b # bs) w =
     (case onewire_write g b w of
        (False, w1) \<Rightarrow> (False, w1) | (True, w1) \<Rightarrow> onewire_write_bytes g bs w1)"

fun read_bits :: "'s gpio \<Rightarrow> nat \<Rightarrow> nat \<Rightarrow> byte \<Rightarrow> 's \<Rightarrow> byte option \<times> 's" where
  "read_bits g i 0 r w = (Some r, w)"
| "read_bits g i (Suc n) r w =
     (case onewire_read_bit g w of
        (None, w1) \<Rightarrow> (None, w1)
      | (Some b, w1) \<Rightarrow> read_bits g (Suc i) n (if b then r OR push_bit i 1 else r) w1)"

definition onewire_read :: "'s gpio \<Rightarrow> 's \<Rightarrow> byte option \<times> 's" where
  "onewire_read g w = read_bits g 0 8 0 w"

fun onewire_read_bytes :: "'s gpio \<Rightarrow> nat \<Rightarrow> 's \<Rightarrow> byte list option \<times> 's" where
  "onewire_read_bytes g 0 w = (Some [], w)"
| "onewire_read_bytes g (Suc n) w =
     (case onewire_read g w of
        (None, w1) \<Rightarrow> (None, w1)
      | (Some b, w1) \<Rightarrow>
          (case onewire_read_bytes g n w1 of
             (None, w2) \<Rightarrow> (None, w2) | (Some bs, w2) \<Rightarrow> (Some (b # bs), w2)))"

fun select_bytes :: "'s gpio \<Rightarrow> 64 word \<Rightarrow> nat \<Rightarrow> 's \<Rightarrow> bool \<times> 's" where
  "select_bytes g a 0 w = (True, w)"
| "select_bytes g a (Suc n) w =
     (case onewire_write g (ucast a) w of
        (False, w1) \<Rightarrow> (False, w1) | (True, w1) \<Rightarrow> select_bytes g (drop_bit 8 a) n w1)"

definition onewire_select :: "'s gpio \<Rightarrow> 64 word \<Rightarrow> 's \<Rightarrow> bool \<times> 's" where
  "onewire_select g a w =
     (case onewire_write g ONEWIRE_SELECT_ROM w of
        (False, w1) \<Rightarrow> (False, w1) | (True, w1) \<Rightarrow> select_bytes g a 8 w1)"

definition onewire_skip_rom :: "'s gpio \<Rightarrow> 's \<Rightarrow> bool \<times> 's" where
  "onewire_skip_rom g w = onewire_write g ONEWIRE_SKIP_ROM w"

definition onewire_power :: "'s gpio \<Rightarrow> 's \<Rightarrow> bool \<times> 's" where
  "onewire_power g w =
     (case onewire_wait_for_bus g 10 w of
        (False, w1) \<Rightarrow> (False, w1)
      | (True, w1) \<Rightarrow> (True, gpio_write g True (gpio_enable g GPIO_OUTPUT w1)))"

definition onewire_depower :: "'s gpio \<Rightarrow> 's \<Rightarrow> 's" where
  "onewire_depower g w = gpio_enable g GPIO_OUT_OPEN_DRAIN w"

section \<open>The ROM search\<close>

record onewire_search =
  rom_no :: "byte list"
  last_discrepancy :: nat
  last_device_found :: bool

definition ONEWIRE_NONE :: "64 word" where
  "ONEWIRE_NONE = 0xffffffffffffffff"

definition onewire_search_start :: onewire_search where
  "onewire_search_start = \<lparr>rom_no = replicate 8 0, last_discrepancy = 0, last_device_found = False\<rparr>"

definition onewire_search_prefix :: "byte \<Rightarrow> onewire_search \<Rightarrow> onewire_search" where
  "onewire_search_prefix family_code s =
     s\<lparr>rom_no := family_code # replicate 7 0, last_discrepancy := 64, last_device_found := False\<rparr>"

text \<open>The direction taken at bit \<open>n\<close>, given a bit and its complement as read from the bus.\<close>

definition search_direction :: "onewire_search \<Rightarrow> nat \<Rightarrow> nat \<Rightarrow> nat \<Rightarrow> bool \<Rightarrow> bool \<Rightarrow> bool" where
  "search_direction s n byte_number mask_bit id_bit cmp_id_bit =
     (if id_bit \<noteq> cmp_id_bit then id_bit
      else if n < last_discrepancy s then bit (rom_no s ! byte_number) mask_bit
      else n = last_discrepancy s)"

text \<open>
  The \<open>do\<close> loop. \<open>mask_bit\<close> is the position of the one bit of \<open>rom_byte_mask\<close>, which leaves the
  byte when it is shifted past bit 7; the result carries \<open>id_bit_number\<close> and \<open>last_zero\<close>.
\<close>

function search_loop :: "'s gpio \<Rightarrow> onewire_search \<Rightarrow> nat \<Rightarrow> nat \<Rightarrow> nat \<Rightarrow> nat \<Rightarrow> 's
    \<Rightarrow> onewire_search \<times> nat \<times> nat \<times> 's" where
  "search_loop g s n last_zero byte_number mask_bit w =
     (case onewire_read_bit g w of
        (id_bit, w1) \<Rightarrow>
          (case onewire_read_bit g w1 of
             (cmp_id_bit, w2) \<Rightarrow>
               (case (id_bit, cmp_id_bit) of
                  (Some a, Some b) \<Rightarrow>
                    if a \<and> b then (s, n, last_zero, w2)
                    else
                      let d = search_direction s n byte_number mask_bit a b;
                          lz = (if a = b \<and> \<not> d then n else last_zero);
                          r = (if d then (rom_no s)[byte_number := set_bit mask_bit (rom_no s ! byte_number)]
                               else (rom_no s)[byte_number := unset_bit mask_bit (rom_no s ! byte_number)]);
                          w3 = snd (onewire_write_bit g d w2)
                      in if mask_bit < 7
                         then if byte_number < 8
                              then search_loop g (s\<lparr>rom_no := r\<rparr>) (n + 1) lz byte_number (mask_bit + 1) w3
                              else (s\<lparr>rom_no := r\<rparr>, n + 1, lz, w3)
                         else if byte_number + 1 < 8
                              then search_loop g (s\<lparr>rom_no := r\<rparr>) (n + 1) lz (byte_number + 1) 0 w3
                              else (s\<lparr>rom_no := r\<rparr>, n + 1, lz, w3)
                | _ \<Rightarrow> (s, n, last_zero, w2))))"
  by pat_completeness auto
termination
  by (relation "measures [\<lambda>(g, s, n, lz, i, m, w). 8 - i, \<lambda>(g, s, n, lz, i, m, w). 8 - m]") auto

declare search_loop.simps [simp del]

definition rom_addr :: "byte list \<Rightarrow> 64 word" where
  "rom_addr bs = foldr (\<lambda>b a. push_bit 8 a OR ucast b) bs 0"

definition onewire_search_next :: "'s gpio \<Rightarrow> onewire_search \<Rightarrow> 's \<Rightarrow> 64 word \<times> onewire_search \<times> 's" where
  "onewire_search_next g s w =
     (let none = (\<lambda>s w. (ONEWIRE_NONE, s\<lparr>last_discrepancy := 0, last_device_found := False\<rparr>, w))
      in if last_device_found s then none s w
         else (case onewire_reset g w of
                 (False, w1) \<Rightarrow> none s w1
               | (True, w1) \<Rightarrow>
                   let w2 = snd (onewire_write g ONEWIRE_SEARCH w1)
                   in (case search_loop g s 1 0 0 0 w2 of
                         (s1, n, last_zero, w3) \<Rightarrow>
                           if n < 65 then none s1 w3
                           else
                             let s2 = s1\<lparr>last_discrepancy := last_zero,
                                       last_device_found := (last_zero = 0 \<or> last_device_found s1)\<rparr>
                             in if rom_no s2 ! 0 = 0 then none s2 w3
                                else (rom_addr (rom_no s2), s2, w3))))"

section \<open>Cyclic redundancy checks\<close>

text \<open>\<open>onewire_crc8\<close> without the table (\<open>ONEWIRE_CRC8_TABLE\<close> is 0 by default).\<close>

fun crc8_bits :: "nat \<Rightarrow> byte \<Rightarrow> byte \<Rightarrow> byte" where
  "crc8_bits 0 crc inbyte = crc"
| "crc8_bits (Suc n) crc inbyte =
     (let mix = (crc XOR inbyte) AND 1;
          c = drop_bit 1 crc
      in crc8_bits n (if mix \<noteq> 0 then c XOR 0x8C else c) (drop_bit 1 inbyte))"

definition onewire_crc8 :: "byte list \<Rightarrow> byte" where
  "onewire_crc8 data = foldl (\<lambda>crc b. crc8_bits 8 crc b) 0 data"

definition dscrc_table :: "byte list" where
  "dscrc_table = [
      0, 94,188,226, 97, 63,221,131,194,156,126, 32,163,253, 31, 65,
    157,195, 33,127,252,162, 64, 30, 95,  1,227,189, 62, 96,130,220,
     35,125,159,193, 66, 28,254,160,225,191, 93,  3,128,222, 60, 98,
    190,224,  2, 92,223,129, 99, 61,124, 34,192,158, 29, 67,161,255,
     70, 24,250,164, 39,121,155,197,132,218, 56,102,229,187, 89,  7,
    219,133,103, 57,186,228,  6, 88, 25, 71,165,251,120, 38,196,154,
    101, 59,217,135,  4, 90,184,230,167,249, 27, 69,198,152,122, 36,
    248,166, 68, 26,153,199, 37,123, 58,100,134,216, 91,  5,231,185,
    140,210, 48,110,237,179, 81, 15, 78, 16,242,172, 47,113,147,205,
     17, 79,173,243,112, 46,204,146,211,141,111, 49,178,236, 14, 80,
    175,241, 19, 77,206,144,114, 44,109, 51,209,143, 12, 82,176,238,
     50,108,142,208, 83, 13,239,177,240,174, 76, 18,145,207, 45,115,
    202,148,118, 40,171,245, 23, 73,  8, 86,180,234,105, 55,213,139,
     87,  9,235,181, 54,104,138,212,149,203, 41,119,244,170, 72, 22,
    233,183, 85, 11,136,214, 52,106, 43,117,151,201, 74, 20,246,168,
    116, 42,200,150, 21, 75,169,247,182,232, 10, 84,215,137,107, 53]"

definition onewire_crc8_table :: "byte list \<Rightarrow> byte" where
  "onewire_crc8_table data = foldl (\<lambda>crc b. dscrc_table ! unat (crc XOR b)) 0 data"

definition oddparity :: "nat list" where
  "oddparity = [0, 1, 1, 0, 1, 0, 0, 1, 1, 0, 0, 1, 0, 1, 1, 0]"

text \<open>One byte of \<open>onewire_crc16\<close>.\<close>

definition crc16_step :: "16 word \<Rightarrow> byte \<Rightarrow> 16 word" where
  "crc16_step crc b =
     (let cdata = (ucast b XOR crc) AND 0xff;
          c1 = drop_bit 8 crc;
          c2 = (if oddparity ! unat (cdata AND 0x0F) \<noteq> oddparity ! unat (drop_bit 4 cdata) then c1 XOR 0xC001 else c1);
          cdata1 = push_bit 6 cdata;
          cdata2 = push_bit 1 cdata1
      in (c2 XOR cdata1) XOR cdata2)"

text \<open>
  The loop of \<open>onewire_crc16\<close>. Its index is a \<open>uint16_t\<close> while \<open>len\<close> is a \<open>size_t\<close>; \<open>None\<close> is a
  loop that does not end.
\<close>

partial_function (option) crc16_loop :: "byte list \<Rightarrow> nat \<Rightarrow> 16 word \<Rightarrow> 16 word \<Rightarrow> 16 word option" where
  "crc16_loop input len i crc =
     (if unat i < len then crc16_loop input len (i + 1) (crc16_step crc (input ! unat i)) else Some crc)"

definition onewire_crc16 :: "byte list \<Rightarrow> nat \<Rightarrow> 16 word \<Rightarrow> 16 word option" where
  "onewire_crc16 input len crc_iv = crc16_loop input len 0 crc_iv"

definition onewire_check_crc16 :: "byte list \<Rightarrow> nat \<Rightarrow> byte list \<Rightarrow> 16 word \<Rightarrow> bool option" where
  "onewire_check_crc16 input len inverted_crc crc_iv =
     (case onewire_crc16 input len crc_iv of
        None \<Rightarrow> None
      | Some c \<Rightarrow>
          let crc = NOT c
          in Some (crc AND 0xFF = ucast (inverted_crc ! 0) \<and> drop_bit 8 crc = ucast (inverted_crc ! 1)))"

end
