(* ===== verification/Onewire_Search.thy ===== *)
theory Onewire_Search
  imports Onewire "HOL-Library.List_Lexorder"
begin

text \<open>
  The ROM search finds every device. The devices on the wire are seen through an
  interface: what the slots of the master read and do while devices answer a search. The
  search is proved correct for every pin that offers it, and a wire with devices that
  obey the timing of the 1-Wire protocol is shown to offer it.
\<close>

section \<open>Devices in a search\<close>

text \<open>
  What the devices expect next: bits of a ROM command, the two slots in which the devices
  that still take part send bit \<open>k\<close> of their ROM code and its complement, and the slot in
  which the master tells them with which value of the bit to go on.
\<close>

datatype bus_phase = Silent | Command "bool list" | Sending nat | Complement nat | Receiving nat

definition search_command :: "bool list" where
  "search_command = map (bit ONEWIRE_SEARCH) [0..<8]"

definition after_bit :: "nat \<Rightarrow> bus_phase" where
  "after_bit k = (if k + 1 < 64 then Sending (k + 1) else Silent)"

text \<open>
  \<open>at ph act rs w\<close>: on the wire \<open>w\<close> with the devices \<open>rs\<close>, given by their 64 bit ROM codes, the
  line is idle, the devices are in phase \<open>ph\<close> and those of \<open>act\<close> take part.
\<close>

locale onewire_bus =
  fixes g :: "'s gpio"
    and at :: "bus_phase \<Rightarrow> bool list list \<Rightarrow> bool list list \<Rightarrow> 's \<Rightarrow> bool"
  assumes reset_devices: "at ph act rs w \<Longrightarrow> rs \<noteq> [] \<Longrightarrow> \<exists>w'. onewire_reset g w = (True, w') \<and> at (Command []) rs rs w'"
    and reset_empty: "at ph act [] w \<Longrightarrow> \<exists>w' ph' act'. onewire_reset g w = (False, w') \<and> at ph' act' [] w'"
    and write_command: "at (Command bs) act rs w \<Longrightarrow> length bs < 7
      \<Longrightarrow> \<exists>w'. onewire_write_bit g b w = (True, w') \<and> at (Command (bs @ [b])) act rs w'"
    and write_last: "at (Command bs) act rs w \<Longrightarrow> bs @ [b] = search_command
      \<Longrightarrow> \<exists>w'. onewire_write_bit g b w = (True, w') \<and> at (Sending 0) act rs w'"
    and read_sent: "at (Sending k) act rs w
      \<Longrightarrow> \<exists>w'. onewire_read_bit g w = (Some (\<forall>r \<in> set act. r ! k), w') \<and> at (Complement k) act rs w'"
    and read_complement: "at (Complement k) act rs w
      \<Longrightarrow> \<exists>w'. onewire_read_bit g w = (Some (\<forall>r \<in> set act. \<not> r ! k), w') \<and> at (Receiving k) act rs w'"
    and write_received: "at (Receiving k) act rs w
      \<Longrightarrow> \<exists>w'. onewire_write_bit g b w = (True, w') \<and> at (after_bit k) (filter (\<lambda>r. r ! k = b) act) rs w'"

section \<open>A wire with devices\<close>

text \<open>
  The wire between the master and devices that keep to the protocol's timing. The state
  knows whether the master has released the line, the microseconds since its last edge,
  and the interval after that edge in which devices pull the line low. A low pulse of at
  least 480 us is a reset, answered by a presence pulse from 30 to 240 us; a shorter one
  starts a slot: devices sample a one if it is below 15 us, and a device that sends a zero
  keeps the line low until 30 us after the falling edge.
\<close>

record wire =
  released :: bool
  clock :: nat
  hold_from :: nat
  hold_until :: nat
  phase :: bus_phase
  active :: "bool list list"
  roms :: "bool list list"

definition command_bit :: "bool list \<Rightarrow> bool \<Rightarrow> bus_phase" where
  "command_bit bs b =
     (if length bs < 7 then Command (bs @ [b]) else if bs @ [b] = search_command then Sending 0 else Silent)"

definition low_pulse :: "wire \<Rightarrow> wire" where
  "low_pulse w =
     (let L = clock w; b = (L < 15); w0 = w\<lparr>hold_from := 0, hold_until := 0\<rparr>
      in if 480 \<le> L
         then w0\<lparr>phase := Command [], active := roms w, hold_from := 30,
                hold_until := (if roms w = [] then 0 else 240)\<rparr>
         else (case phase w of
                 Silent \<Rightarrow> w0
               | Command bs \<Rightarrow> w0\<lparr>phase := command_bit bs b\<rparr>
               | Sending k \<Rightarrow>
                   w0\<lparr>phase := Complement k, hold_until := (if \<forall>r \<in> set (active w). r ! k then 0 else 30 - L)\<rparr>
               | Complement k \<Rightarrow>
                   w0\<lparr>phase := Receiving k, hold_until := (if \<forall>r \<in> set (active w). \<not> r ! k then 0 else 30 - L)\<rparr>
               | Receiving k \<Rightarrow>
                   w0\<lparr>phase := after_bit k, active := filter (\<lambda>r. r ! k = b) (active w)\<rparr>))"

definition wire_gpio :: "wire gpio" where
  "wire_gpio = \<lparr>gpio_enable = (\<lambda>d w. w),
     gpio_write = (\<lambda>v w. if v = released w then w
                        else if v then (low_pulse w)\<lparr>released := True, clock := 0\<rparr>
                        else w\<lparr>released := False, clock := 0\<rparr>),
     gpio_read = (\<lambda>w. released w \<and> \<not> (hold_from w \<le> clock w \<and> clock w < hold_until w)),
     delay_us = (\<lambda>n w. w\<lparr>clock := clock w + n\<rparr>)\<rparr>"

definition wire_at :: "bus_phase \<Rightarrow> bool list list \<Rightarrow> bool list list \<Rightarrow> wire \<Rightarrow> bool" where
  "wire_at ph act rs w \<longleftrightarrow> released w \<and> hold_until w \<le> clock w
     \<and> phase w = ph \<and> active w = act \<and> roms w = rs"

lemma wire_gpio_simps [simp]:
  "gpio_enable wire_gpio d w = w"
  "gpio_write wire_gpio True w = (if released w then w else (low_pulse w)\<lparr>released := True, clock := 0\<rparr>)"
  "gpio_write wire_gpio False w = (if released w then w\<lparr>released := False, clock := 0\<rparr> else w)"
  "gpio_read wire_gpio w \<longleftrightarrow> released w \<and> \<not> (hold_from w \<le> clock w \<and> clock w < hold_until w)"
  "delay_us wire_gpio n w = w\<lparr>clock := clock w + n\<rparr>"
  by (auto simp: wire_gpio_def)

lemma wire_wait_idle [simp]:
  "released w \<Longrightarrow> hold_until w \<le> clock w \<Longrightarrow>
    onewire_wait_for_bus wire_gpio n w = (True, w\<lparr>clock := Suc (clock w)\<rparr>)"
  by (cases "(n + 4) div 5") (simp_all add: onewire_wait_for_bus_def)

lemma wire_wait_loop:
  assumes "released w" "hold_until w \<le> clock w + 5 * n"
  shows "\<exists>c. wait_loop wire_gpio n w = w\<lparr>clock := c\<rparr> \<and> (hold_until w \<le> c \<or> c < hold_from w)
    \<and> (hold_from w \<le> clock w \<longrightarrow> hold_until w \<le> c)"
  using assms
proof (induction n arbitrary: w)
  case (Suc n)
  show ?case
  proof (cases "gpio_read wire_gpio w")
    case True
    then show ?thesis using Suc.prems by (intro exI [of _ "clock w"]) auto
  next
    case False
    then show ?thesis using Suc.IH [of "w\<lparr>clock := clock w + 5\<rparr>"] Suc.prems by auto
  qed
qed (auto intro!: exI [of _ "clock w" for w])

lemma wire_wait_presence:
  assumes "released w" "hold_from w \<le> clock w" "hold_until w \<le> clock w + 410"
  shows "\<exists>c. onewire_wait_for_bus wire_gpio 410 w = (True, w\<lparr>clock := c\<rparr>) \<and> hold_until w \<le> c"
proof -
  obtain c where "wait_loop wire_gpio 82 w = w\<lparr>clock := c\<rparr>" "hold_until w \<le> c"
    using wire_wait_loop [of w 82] assms by auto
  then show ?thesis using assms(1) by (intro exI [of _ "c + 1"]) (simp add: onewire_wait_for_bus_def)
qed

lemma wire_reset:
  assumes "wire_at ph act rs w"
  shows "\<exists>w'. onewire_reset wire_gpio w = (rs \<noteq> [], w') \<and> wire_at (Command []) rs rs w'"
proof -
  define w3 where "w3 = w\<lparr>released := True, clock := 70, hold_from := 30, hold_until := (if rs = [] then 0 else 240),
    phase := Command [], active := rs\<rparr>"
  obtain c where c: "onewire_wait_for_bus wire_gpio 410 w3 = (True, w3\<lparr>clock := c\<rparr>)" "hold_until w3 \<le> c"
    using wire_wait_presence [of w3] by (cases "rs = []") (auto simp: w3_def)
  have "delay_us wire_gpio 70 (gpio_write wire_gpio True (delay_us wire_gpio 480 (gpio_write wire_gpio False
      (w\<lparr>clock := Suc (clock w)\<rparr>)))) = w3"
    using assms by (simp add: wire_at_def low_pulse_def Let_def w3_def)
  moreover have "gpio_read wire_gpio w3 \<longleftrightarrow> rs = []" by (simp add: w3_def)
  moreover have "gpio_write wire_gpio True w = w" using assms by (simp add: wire_at_def)
  ultimately have "onewire_reset wire_gpio w = (rs \<noteq> [], w3\<lparr>clock := c\<rparr>)"
    using assms c(1) by (simp add: onewire_reset_def wire_at_def Let_def del: wire_gpio_simps(2-5))
  moreover have "wire_at (Command []) rs rs (w3\<lparr>clock := c\<rparr>)"
    using assms c(2) by (simp add: wire_at_def w3_def)
  ultimately show ?thesis by blast
qed

lemma wire_write_bit:
  assumes "wire_at ph act rs w"
  shows "\<exists>w'. onewire_write_bit wire_gpio b w = (True, w') \<and> released w' \<and> hold_until w' \<le> clock w'
    \<and> roms w' = rs \<and> phase w' = (case ph of Silent \<Rightarrow> Silent | Command bs \<Rightarrow> command_bit bs b
        | Sending k \<Rightarrow> Complement k | Complement k \<Rightarrow> Receiving k | Receiving k \<Rightarrow> after_bit k)
    \<and> active w' = (case ph of Receiving k \<Rightarrow> filter (\<lambda>r. r ! k = b) act | _ \<Rightarrow> act)"
  using assms
  by (cases b; cases ph) (simp_all add: onewire_write_bit_def wire_at_def low_pulse_def Let_def)

lemma wire_read_bit:
  assumes "wire_at ph act rs w" "ph = Sending k \<or> ph = Complement k"
  shows "\<exists>w'. onewire_read_bit wire_gpio w
      = (Some (if ph = Sending k then \<forall>r \<in> set act. r ! k else \<forall>r \<in> set act. \<not> r ! k), w')
    \<and> wire_at (if ph = Sending k then Complement k else Receiving k) act rs w'"
  using assms
  by (auto simp: onewire_read_bit_def wire_at_def low_pulse_def Let_def split: if_splits)

interpretation wire: onewire_bus wire_gpio wire_at
proof (unfold_locales, goal_cases)
  case (1 ph act rs w)
  then show ?case using wire_reset [OF 1(1)] by simp
next
  case (2 ph act w)
  then show ?case using wire_reset [OF 2] by auto
next
  case (3 bs act rs w b)
  then show ?case using wire_write_bit [OF 3(1), of b] by (auto simp: wire_at_def command_bit_def)
next
  case (4 bs act rs w b)
  then have "length (bs @ [b]) = 8" by (simp only: search_command_def length_map length_upt)
  then have "\<not> length bs < 7" by simp
  then show ?case using 4 wire_write_bit [OF 4(1), of b] by (auto simp: wire_at_def command_bit_def)
next
  case (5 k act rs w)
  then show ?case using wire_read_bit [OF 5, of k] by simp
next
  case (6 k act rs w)
  then show ?case using wire_read_bit [OF 6, of k] by simp
next
  case (7 k act rs w b)
  then show ?case using wire_write_bit [OF 7, of b] by (auto simp: wire_at_def)
qed

section \<open>The order of the search\<close>

text \<open>
  The search follows the path to one device \<open>t\<close>: where the devices that agree with \<open>t\<close> so far
  disagree, the rule of the search picks the bit of \<open>t\<close>. \<open>disc\<close> is the last place where it
  picks a zero although a device has a one.
\<close>

definition sibling :: "bool list list \<Rightarrow> bool list \<Rightarrow> nat \<Rightarrow> bool \<Rightarrow> bool" where
  "sibling D t k b \<longleftrightarrow> (\<exists>r \<in> set D. take k r = take k t \<and> r ! k = b)"

definition steers :: "nat \<Rightarrow> bool list \<Rightarrow> bool list list \<Rightarrow> bool list \<Rightarrow> bool" where
  "steers ld p D t \<longleftrightarrow>
     (\<forall>k < 64. sibling D t k (\<not> t ! k) \<longrightarrow> t ! k = (if k + 1 < ld then p ! k else k + 1 = ld))"

primrec disc :: "bool list list \<Rightarrow> bool list \<Rightarrow> nat \<Rightarrow> nat" where
  "disc D t 0 = 0"
| "disc D t (Suc k) = (if \<not> t ! k \<and> sibling D t k True then k + 1 else disc D t k)"

lemma less_iff_bit:
  assumes "length p = n" "length t = n"
  shows "p < t \<longleftrightarrow> (\<exists>j < n. take j p = take j t \<and> \<not> p ! j \<and> t ! j)"
  using assms by (auto simp: list_less_def lexord_take_index_conv)

lemma less_bitI:
  "length p = n \<Longrightarrow> length t = n \<Longrightarrow> j < n \<Longrightarrow> take j p = take j t \<Longrightarrow> \<not> p ! j \<Longrightarrow> t ! j \<Longrightarrow> p < t"
  using less_iff_bit by blast

lemma disc_0_iff: "disc D t n = 0 \<longleftrightarrow> (\<forall>k < n. \<not> t ! k \<longrightarrow> \<not> sibling D t k True)"
  by (induction n) (auto simp: less_Suc_eq)

lemma disc_eqI:
  assumes "j < n" "\<not> t ! j" "sibling D t j True"
    and "\<And>i. j < i \<Longrightarrow> i < n \<Longrightarrow> \<not> t ! i \<Longrightarrow> \<not> sibling D t i True"
  shows "disc D t n = j + 1"
  using assms by (induction n) (auto simp: less_Suc_eq)

lemma take_nth_eq: "take k r = take k t \<Longrightarrow> i < k \<Longrightarrow> r ! i = t ! i"
  by (metis nth_take)

lemma take_le_eq: "take k r = take k t \<Longrightarrow> i \<le> k \<Longrightarrow> take i r = take i t"
  by (metis min.absorb1 take_take)

lemma steers_first:
  assumes "\<And>r. r \<in> set D \<Longrightarrow> length r = 64" "t \<in> set D" "\<And>r. r \<in> set D \<Longrightarrow> t \<le> r"
  shows "steers 0 p D t"
proof -
  have "\<not> t ! k" if "k < 64" "r \<in> set D" "take k r = take k t" "r ! k \<noteq> t ! k" for k r
    using that assms(1,2) assms(3) [of r] less_iff_bit [of r 64 t] by (auto simp: linorder_not_less [symmetric])
  then show ?thesis by (auto simp: steers_def sibling_def)
qed

lemma successor_disc:
  assumes len: "\<And>r. r \<in> set D \<Longrightarrow> length r = 64" and t: "t \<in> set D" "p \<in> set D"
    and nxt: "\<And>r. r \<in> set D \<Longrightarrow> p < r \<Longrightarrow> t \<le> r"
    and j: "j < 64" "take j p = take j t" "\<not> p ! j" "t ! j"
  shows "disc D p 64 = j + 1"
proof (rule disc_eqI)
  show "sibling D p j True" using j t by (auto simp: sibling_def)
next
  fix i
  assume i: "j < i" "i < 64" "\<not> p ! i"
  show "\<not> sibling D p i True"
  proof
    assume "sibling D p i True"
    then obtain r where r: "r \<in> set D" "take i r = take i p" "r ! i" by (auto simp: sibling_def)
    then have "p < r" using i len [OF r(1)] len [OF t(2)] less_iff_bit [of p 64 r] by auto
    moreover have "r < t"
      using i j take_nth_eq [OF r(2), of j] take_le_eq [OF r(2), of j]
      by (intro less_bitI [of r 64 t j] len r(1) t(1)) auto
    ultimately show False using nxt [OF r(1)] by simp
  qed
qed (use j in auto)

lemma steers_next:
  assumes len: "\<And>r. r \<in> set D \<Longrightarrow> length r = 64" and t: "t \<in> set D" "p \<in> set D" "p < t"
    and nxt: "\<And>r. r \<in> set D \<Longrightarrow> p < r \<Longrightarrow> t \<le> r"
  shows "steers (disc D p 64) p D t"
proof -
  obtain j where j: "j < 64" "take j p = take j t" "\<not> p ! j" "t ! j"
    using t len less_iff_bit [of p 64 t] by auto
  have "t ! k = (if k + 1 < j + 1 then p ! k else k + 1 = j + 1)"
    if k: "k < 64" and sib: "sibling D t k (\<not> t ! k)" for k
  proof (cases "k \<le> j")
    case True
    then show ?thesis using j take_nth_eq [OF j(2), of k] by auto
  next
    case False
    obtain r where r: "r \<in> set D" "take k r = take k t" "r ! k \<noteq> t ! k" using sib by (auto simp: sibling_def)
    have "p < r"
      using False j r len [OF r(1)] len [OF t(2)] less_iff_bit [of p 64 r] take_nth_eq [OF r(2), of j]
        take_le_eq [OF r(2), of j] by auto
    then have "\<not> r < t" using nxt [OF r(1)] by simp
    then have "\<not> t ! k" using k r len [OF r(1)] len [OF t(1)] less_iff_bit [of r 64 t] by auto
    then show ?thesis using False by simp
  qed
  note path = this
  have d: "disc D p 64 = j + 1" by (rule successor_disc [OF len t(1,2) nxt j])
  show ?thesis unfolding steers_def d by (intro allI impI path)
qed

lemma disc_last:
  assumes len: "\<And>r. r \<in> set D \<Longrightarrow> length r = 64" and t: "t \<in> set D"
  shows "disc D t 64 = 0 \<longleftrightarrow> (\<forall>r \<in> set D. r \<le> t)"
proof -
  have "r \<le> t \<longleftrightarrow> \<not> (\<exists>k < 64. take k t = take k r \<and> \<not> t ! k \<and> r ! k)" if "r \<in> set D" for r
    using that t len less_iff_bit [of t 64 r] by (simp add: linorder_not_less [symmetric])
  then show ?thesis by (auto simp: disc_0_iff sibling_def) metis+
qed

section \<open>The bits of the ROM buffer\<close>

definition rom_bit :: "byte list \<Rightarrow> nat \<Rightarrow> bool" where
  "rom_bit bs i \<longleftrightarrow> bit (bs ! (i div 8)) (i mod 8)"

definition device_addr :: "bool list \<Rightarrow> 64 word" where
  "device_addr t = horner_sum of_bool 2 t"

definition put_bit :: "nat \<Rightarrow> bool \<Rightarrow> byte list \<Rightarrow> byte list" where
  "put_bit k d bs =
     (if d then bs[k div 8 := set_bit (k mod 8) (bs ! (k div 8))]
      else bs[k div 8 := unset_bit (k mod 8) (bs ! (k div 8))])"

lemma length_put_bit [simp]: "length (put_bit k d bs) = length bs"
  by (simp add: put_bit_def)

lemma rom_bit_put:
  assumes "length bs = 8" "k < 64" "i < 64"
  shows "rom_bit (put_bit k d bs) i = (if i = k then d else rom_bit bs i)"
proof -
  have k: "k div 8 < length bs" using assms by simp
  have eq: "i = k \<longleftrightarrow> i div 8 = k div 8 \<and> i mod 8 = k mod 8" by (metis div_mod_decomp)
  show ?thesis
    using k by (cases d; cases "i div 8 = k div 8")
      (auto simp: rom_bit_def put_bit_def eq bit_set_bit_iff bit_unset_bit_iff)
qed

lemma bit_rom_addr: "bit (rom_addr bs) i \<longleftrightarrow> i < 64 \<and> i div 8 < length bs \<and> rom_bit bs i"
proof (induction bs arbitrary: i)
  case (Cons b bs)
  show ?case
  proof (cases "i < 8")
    case True
    then show ?thesis by (auto simp: rom_addr_def rom_bit_def bit_or_iff bit_push_bit_iff bit_ucast_iff)
  next
    case False
    have i: "i div 8 = Suc ((i - 8) div 8)" "i mod 8 = (i - 8) mod 8" using False by (simp_all add: le_div_geq le_mod_geq)
    have "bit (rom_addr (b # bs)) i \<longleftrightarrow> i < 64 \<and> bit (rom_addr bs) (i - 8)"
      using False bit_imp_le_length [of b i] by (auto simp: rom_addr_def bit_or_iff bit_push_bit_iff bit_ucast_iff)
    also have "\<dots> \<longleftrightarrow> i < 64 \<and> (i - 8) div 8 < length bs \<and> rom_bit bs (i - 8)"
      using Cons.IH [of "i - 8"] by auto
    finally show ?thesis using i by (auto simp: rom_bit_def)
  qed
qed (simp add: rom_addr_def)

lemma rom_addr_device:
  assumes "length bs = 8" "length t = 64" "\<And>i. i < 64 \<Longrightarrow> rom_bit bs i = t ! i"
  shows "rom_addr bs = device_addr t"
  using assms by (intro bit_word_eqI) (auto simp: device_addr_def bit_rom_addr bit_horner_sum_bit_word_iff)

lemma first_byte_0_iff:
  assumes "length bs = 8" "\<And>i. i < 64 \<Longrightarrow> rom_bit bs i = t ! i"
  shows "bs ! 0 = 0 \<longleftrightarrow> (\<forall>i < 8. \<not> t ! i)"
proof -
  have "bs ! 0 = 0 \<longleftrightarrow> (\<forall>i < 8. \<not> bit (bs ! 0) i)" by (auto simp: bit_eq_iff bit_imp_le_length dest: bit_imp_le_length)
  also have "\<dots> \<longleftrightarrow> (\<forall>i < 8. \<not> t ! i)"
  proof -
    have "bit (bs ! 0) i = t ! i" if "i < 8" for i using assms(2) [of i] that by (simp add: rom_bit_def)
    then show ?thesis by auto
  qed
  finally show ?thesis .
qed

section \<open>The search on a bus\<close>

lemma search_direction_target:
  assumes "steers (last_discrepancy s) p D t" "t \<in> set D" "k < 64" "rom_bit (rom_no s) k = p ! k"
    and "a \<longleftrightarrow> \<not> sibling D t k False" "b \<longleftrightarrow> \<not> sibling D t k True"
  shows "search_direction s (k + 1) (k div 8) (k mod 8) a b = t ! k" "\<not> (a \<and> b)"
proof -
  have t: "sibling D t k (t ! k)" using assms(2) by (auto simp: sibling_def)
  then show "\<not> (a \<and> b)" using assms(5,6) by (cases "t ! k") auto
  show "search_direction s (k + 1) (k div 8) (k mod 8) a b = t ! k"
  proof (cases "sibling D t k (\<not> t ! k)")
    case True
    then have "a = b" using t assms(5,6) by (cases "t ! k") auto
    moreover have "t ! k = (if k + 1 < last_discrepancy s then p ! k else k + 1 = last_discrepancy s)"
      using True assms(1,3) by (simp add: steers_def)
    ultimately show ?thesis using assms(4) by (simp add: search_direction_def rom_bit_def)
  next
    case False
    then show ?thesis using t assms(5,6) by (cases "t ! k") (auto simp: search_direction_def)
  qed
qed

definition followers :: "bool list list \<Rightarrow> bool list \<Rightarrow> nat \<Rightarrow> bool list list" where
  "followers D t k = filter (\<lambda>r. take k r = take k t) D"

lemma followers_bit: "(\<forall>r \<in> set (followers D t k). r ! k = b) \<longleftrightarrow> \<not> sibling D t k (\<not> b)"
  by (auto simp: followers_def sibling_def)

lemma followers_Suc:
  assumes "\<And>r. r \<in> set D \<Longrightarrow> length r = 64" "t \<in> set D" "k < 64"
  shows "filter (\<lambda>r. r ! k = t ! k) (followers D t k) = followers D t (Suc k)"
  using assms by (auto simp: followers_def take_Suc_conv_app_nth intro!: filter_cong)

lemma search_loop_step:
  assumes "onewire_read_bit g w = (Some a, w1)" "onewire_read_bit g w1 = (Some b, w2)" "\<not> (a \<and> b)"
    and "search_direction s (k + 1) (k div 8) (k mod 8) a b = d" "onewire_write_bit g d w2 = (True, w3)"
    and "(if a = b \<and> \<not> d then k + 1 else lz) = lz'" "k < 64"
  shows "search_loop g s (k + 1) lz (k div 8) (k mod 8) w =
    (let s' = s\<lparr>rom_no := put_bit k d (rom_no s)\<rparr>
     in if k + 1 < 64 then search_loop g s' (k + 2) lz' ((k + 1) div 8) ((k + 1) mod 8) w3
        else (s', 65, lz', w3))"
proof -
  have "search_loop g s (k + 1) lz (k div 8) (k mod 8) w =
      (let s' = s\<lparr>rom_no := put_bit k d (rom_no s)\<rparr>
       in if k mod 8 < 7
          then if k div 8 < 8 then search_loop g s' (k + 2) lz' (k div 8) (k mod 8 + 1) w3 else (s', k + 2, lz', w3)
          else if k div 8 + 1 < 8 then search_loop g s' (k + 2) lz' (k div 8 + 1) 0 w3 else (s', k + 2, lz', w3))"
    using assms(3) assms(6) [symmetric]
    by (subst search_loop.simps) (simp only: assms(1,2,4,5) prod.case option.case if_False snd_conv Let_def put_bit_def
        if_distrib [of "\<lambda>r. s\<lparr>rom_no := r\<rparr>"] add.assoc one_add_one)
  moreover have "k mod 8 < 7 \<Longrightarrow> (k + 1) div 8 = k div 8 \<and> (k + 1) mod 8 = k mod 8 + 1"
    "\<not> k mod 8 < 7 \<Longrightarrow> (k + 1) div 8 = k div 8 + 1 \<and> (k + 1) mod 8 = 0"
    by (auto simp: div_Suc mod_Suc)
  moreover have "\<not> k mod 8 < 7 \<Longrightarrow> k div 8 + 1 < 8 \<longleftrightarrow> k + 1 < 64"
    using assms(7) div_mult_mod_eq [of k 8] mod_less_divisor [of 8 k] by linarith
  moreover have "k mod 8 < 7 \<Longrightarrow> k + 1 < 64" using assms(7) by (cases "k = 63") auto
  moreover have "k div 8 < 8" using assms(7) by (simp add: div_less_iff_less_mult)
  moreover have "\<not> k + 1 < 64 \<Longrightarrow> k + 2 = 65" using assms(7) by simp
  ultimately show ?thesis by (cases "k mod 8 < 7") (simp_all add: Let_def)
qed

context onewire_bus
begin

lemma search_iteration:
  assumes "at (Sending k) (followers rs t k) rs w" "k < 64" "t \<in> set rs" "\<And>r. r \<in> set rs \<Longrightarrow> length r = 64"
    and "steers (last_discrepancy s) p rs t" "rom_bit (rom_no s) k = p ! k" "lz = disc rs t k"
  shows "\<exists>w'. at (after_bit k) (followers rs t (Suc k)) rs w'
    \<and> search_loop g s (k + 1) lz (k div 8) (k mod 8) w =
       (let s' = s\<lparr>rom_no := put_bit k (t ! k) (rom_no s)\<rparr>
        in if k + 1 < 64 then search_loop g s' (k + 2) (disc rs t (Suc k)) ((k + 1) div 8) ((k + 1) mod 8) w'
           else (s', 65, disc rs t (Suc k), w'))"
proof -
  let ?a = "\<not> sibling rs t k False" and ?b = "\<not> sibling rs t k True"
  obtain w1 where 1: "onewire_read_bit g w = (Some ?a, w1)" "at (Complement k) (followers rs t k) rs w1"
    using read_sent [OF assms(1)] followers_bit [of rs t k True] by auto
  obtain w2 where 2: "onewire_read_bit g w1 = (Some ?b, w2)" "at (Receiving k) (followers rs t k) rs w2"
    using read_complement [OF 1(2)] followers_bit [of rs t k False] by auto
  obtain w3 where 3: "onewire_write_bit g (t ! k) w2 = (True, w3)" "at (after_bit k) (followers rs t (Suc k)) rs w3"
    using write_received [OF 2(2), of "t ! k"] followers_Suc [OF assms(4,3,2)] by auto
  note dir = search_direction_target [OF assms(5,3,2,6) refl refl]
  have lz: "(if ?a = ?b \<and> \<not> t ! k then k + 1 else lz) = disc rs t (Suc k)"
    using assms(3,7) by (auto simp: sibling_def)
  show ?thesis by (intro exI [of _ w3] conjI 3(2) search_loop_step [OF 1(1) 2(1) dir(2,1) 3(1) lz assms(2)])
qed

lemma search_command_bits:
  assumes "at (Command (take i search_command)) act rs w" "i + n = 7"
  shows "\<exists>w'. write_bits g ONEWIRE_SEARCH i (Suc n) w = (True, w') \<and> at (Sending 0) act rs w'"
  using assms
proof (induction n arbitrary: i w)
  case 0
  have "take 7 search_command @ [bit ONEWIRE_SEARCH 7] = search_command"
    by (simp add: search_command_def upt_rec numeral_eq_Suc)
  then obtain w' where "onewire_write_bit g (bit ONEWIRE_SEARCH 7) w = (True, w')" "at (Sending 0) act rs w'"
    using write_last [of "take 7 search_command" act rs w] 0 by auto
  then show ?case using 0 by auto
next
  case (Suc n)
  have "take i search_command @ [bit ONEWIRE_SEARCH i] = take (Suc i) search_command"
    using Suc.prems by (subst take_Suc_conv_app_nth) (auto simp: search_command_def)
  moreover have "length (take i search_command) < 7" using Suc.prems by (simp add: search_command_def)
  ultimately obtain w1 where "onewire_write_bit g (bit ONEWIRE_SEARCH i) w = (True, w1)"
    "at (Command (take (Suc i) search_command)) act rs w1"
    using write_command [OF Suc.prems(1), of "bit ONEWIRE_SEARCH i"] by auto
  then show ?case using Suc.IH [of "Suc i" w1] Suc.prems by (subst write_bits.simps) auto
qed

lemma search_loop_finds:
  assumes "at (Sending k) (followers rs t k) rs w" "k < 64" "t \<in> set rs" "\<And>r. r \<in> set rs \<Longrightarrow> length r = 64"
    and "steers (last_discrepancy s) p rs t" "length (rom_no s) = 8"
    and "\<And>i. i < k \<Longrightarrow> rom_bit (rom_no s) i = t ! i" "\<And>i. k \<le> i \<Longrightarrow> i < 64 \<Longrightarrow> rom_bit (rom_no s) i = p ! i"
  shows "\<exists>bs w'. search_loop g s (k + 1) (disc rs t k) (k div 8) (k mod 8) w = (s\<lparr>rom_no := bs\<rparr>, 65, disc rs t 64, w')
    \<and> at Silent (followers rs t 64) rs w' \<and> length bs = 8 \<and> (\<forall>i < 64. rom_bit bs i = t ! i)"
  using assms
proof (induction "63 - k" arbitrary: k s w)
  case 0
  then have k: "k = 63" by simp
  obtain w' where "at (after_bit k) (followers rs t (Suc k)) rs w'"
    "search_loop g s (k + 1) (disc rs t k) (k div 8) (k mod 8) w
      = (s\<lparr>rom_no := put_bit k (t ! k) (rom_no s)\<rparr>, 65, disc rs t (Suc k), w')"
    using search_iteration [OF 0(2-6) 0(9) refl] k by (auto simp: Let_def simp del: disc.simps)
  then show ?case
    using 0(7,8) k by (intro exI [of _ "put_bit k (t ! k) (rom_no s)"] exI [of _ w'] conjI) (auto simp: after_bit_def rom_bit_put simp del: disc.simps)
next
  case (Suc n)
  let ?s = "s\<lparr>rom_no := put_bit k (t ! k) (rom_no s)\<rparr>"
  have k: "k < 63" "k < 64" "k \<le> 63" using Suc.hyps(2) by simp_all
  obtain w' where w': "at (Sending (Suc k)) (followers rs t (Suc k)) rs w'"
    "search_loop g s (k + 1) (disc rs t k) (k div 8) (k mod 8) w
      = search_loop g ?s (Suc k + 1) (disc rs t (Suc k)) (Suc k div 8) (Suc k mod 8) w'"
    using search_iteration [OF Suc.prems(1-5) Suc.prems(8) refl] k
    by (auto simp: Let_def after_bit_def simp del: disc.simps)
  have "\<exists>bs w''. search_loop g ?s (Suc k + 1) (disc rs t (Suc k)) (Suc k div 8) (Suc k mod 8) w'
      = (?s\<lparr>rom_no := bs\<rparr>, 65, disc rs t 64, w'')
    \<and> at Silent (followers rs t 64) rs w'' \<and> length bs = 8 \<and> (\<forall>i < 64. rom_bit bs i = t ! i)"
    using Suc.hyps(2) Suc.prems
    by (intro Suc.hyps(1) w'(1)) (auto simp: rom_bit_put less_Suc_eq simp del: disc.simps)
  then show ?case using w'(2) by simp
qed

end

text \<open>The state of a search that has just found the device \<open>t\<close>.\<close>

definition found :: "bool list list \<Rightarrow> onewire_search \<Rightarrow> bool list \<Rightarrow> bool" where
  "found D s t \<longleftrightarrow> length (rom_no s) = 8 \<and> (\<forall>i < 64. rom_bit (rom_no s) i = t ! i)
     \<and> last_discrepancy s = disc D t 64 \<and> last_device_found s = (disc D t 64 = 0)"

text \<open>
  What can be found: 64 bit ROM codes whose family code, the first byte, is not zero.
\<close>

definition roms_ok :: "bool list list \<Rightarrow> bool" where
  "roms_ok D \<longleftrightarrow> (\<forall>r \<in> set D. length r = 64 \<and> (\<exists>i < 8. r ! i))"

text \<open>The addresses that \<open>n\<close> calls of \<open>onewire_search_next\<close> return.\<close>

primrec search_all :: "'s gpio \<Rightarrow> nat \<Rightarrow> onewire_search \<Rightarrow> 's \<Rightarrow> 64 word list" where
  "search_all g 0 s w = []"
| "search_all g (Suc n) s w =
     (case onewire_search_next g s w of (a, s', w') \<Rightarrow> a # search_all g n s' w')"

context onewire_bus
begin

lemma search_next_found:
  assumes "at ph act rs w" "t \<in> set rs" "roms_ok rs" "\<not> last_device_found s" "length (rom_no s) = 8"
    and "steers (last_discrepancy s) p rs t" "\<And>i. i < 64 \<Longrightarrow> rom_bit (rom_no s) i = p ! i"
  shows "\<exists>s' w'. onewire_search_next g s w = (device_addr t, s', w') \<and> found rs s' t
    \<and> at Silent (followers rs t 64) rs w'"
proof -
  have len: "\<And>r. r \<in> set rs \<Longrightarrow> length r = 64" using assms(3) by (simp add: roms_ok_def)
  have "rs \<noteq> []" using assms(2) by auto
  then obtain w1 where 1: "onewire_reset g w = (True, w1)" "at (Command []) rs rs w1"
    using reset_devices [OF assms(1)] by auto
  obtain w2 where 2: "onewire_write g ONEWIRE_SEARCH w1 = (True, w2)" "at (Sending 0) rs rs w2"
    using search_command_bits [of 0 rs rs w1 7] 1(2) by (auto simp: onewire_write_def numeral_eq_Suc)
  have "followers rs t 0 = rs" by (simp add: followers_def)
  then obtain bs w3 where 3: "search_loop g s 1 0 0 0 w2 = (s\<lparr>rom_no := bs\<rparr>, 65, disc rs t 64, w3)"
    "at Silent (followers rs t 64) rs w3" "length bs = 8" "\<And>i. i < 64 \<Longrightarrow> rom_bit bs i = t ! i"
    using search_loop_finds [of 0 rs t w2 s p] 2(2) assms len by auto
  have "bs ! 0 \<noteq> 0" using first_byte_0_iff [OF 3(3), of t] 3(4) assms(2,3) by (auto simp: roms_ok_def)
  moreover have "rom_addr bs = device_addr t" using 3 len [OF assms(2)] by (intro rom_addr_device)
  ultimately show ?thesis
    using 1(1) 2(1) 3 assms(4) by (simp add: onewire_search_next_def Let_def found_def)
qed

lemma search_rest:
  assumes "sorted_list_of_set (set rs) = ts @ t # us" "found rs s t" "at ph act rs w" "roms_ok rs"
  shows "search_all g (length us + 1) s w = map device_addr us @ [ONEWIRE_NONE]"
  using assms
proof (induction us arbitrary: ts t s ph act w)
  case Nil
  have len: "\<And>r. r \<in> set rs \<Longrightarrow> length r = 64" using Nil.prems(4) by (simp add: roms_ok_def)
  have "set rs = set (ts @ [t])" "sorted (ts @ [t])"
    using Nil.prems(1) by (metis List.finite_set set_sorted_list_of_set, metis sorted_list_of_set.sorted_sorted_key_list_of_set)
  then have "disc rs t 64 = 0" using disc_last [OF len, of rs t] by (auto simp: sorted_append)
  then show ?case using Nil.prems(2) by (simp add: found_def onewire_search_next_def)
next
  case (Cons u us)
  have len: "\<And>r. r \<in> set rs \<Longrightarrow> length r = 64" using Cons.prems(4) by (simp add: roms_ok_def)
  have D: "set rs = set (ts @ t # u # us)" "sorted (ts @ t # u # us)" "distinct (ts @ t # u # us)"
    using Cons.prems(1)
    by (metis List.finite_set set_sorted_list_of_set, metis sorted_list_of_set.sorted_sorted_key_list_of_set,
        metis sorted_list_of_set.distinct_sorted_key_list_of_set)
  then have mem: "u \<in> set rs" "t \<in> set rs" "t < u" by (auto simp: sorted_append)
  have nxt: "\<And>r. r \<in> set rs \<Longrightarrow> t < r \<Longrightarrow> u \<le> r" using D by (auto simp: sorted_append)
  have "disc rs t 64 \<noteq> 0" using disc_last [OF len mem(2)] mem by auto
  moreover have "steers (disc rs t 64) t rs u" by (rule steers_next [OF len mem nxt])
  ultimately obtain s' w' where 1: "onewire_search_next g s w = (device_addr u, s', w')" "found rs s' u"
    "at Silent (followers rs u 64) rs w'"
    using search_next_found [OF Cons.prems(3) mem(1) Cons.prems(4), of s t] Cons.prems(2) by (auto simp: found_def)
  then show ?case using Cons.IH [of "ts @ [t]" u s' Silent "followers rs u 64" w'] Cons.prems by simp
qed

lemma search_complete:
  assumes "at ph act rs w" "roms_ok rs"
  shows "search_all g (card (set rs) + 1) onewire_search_start w
    = map device_addr (sorted_list_of_set (set rs)) @ [ONEWIRE_NONE]"
proof (cases "sorted_list_of_set (set rs)")
  case Nil
  then have "rs = []" by simp
  then show ?thesis using reset_empty [of ph act w] assms(1) by (auto simp: onewire_search_next_def onewire_search_start_def)
next
  case (Cons t us)
  have len: "\<And>r. r \<in> set rs \<Longrightarrow> length r = 64" using assms(2) by (simp add: roms_ok_def)
  have D: "set rs = set (t # us)" "sorted (t # us)"
    using Cons by (metis List.finite_set set_sorted_list_of_set, metis sorted_list_of_set.sorted_sorted_key_list_of_set)
  have card: "card (set rs) = length us + 1"
    using Cons by (metis List.finite_set Suc_eq_plus1 length_Cons sorted_list_of_set.length_sorted_key_list_of_set)
  have "steers 0 (replicate 64 False) rs t" using D by (intro steers_first len) auto
  then obtain s' w' where "onewire_search_next g onewire_search_start w = (device_addr t, s', w')" "found rs s' t"
    "at Silent (followers rs t 64) rs w'"
    using search_next_found [OF assms(1) _ assms(2), of t onewire_search_start "replicate 64 False"] D
    by (auto simp: onewire_search_start_def rom_bit_def)
  then show ?thesis using search_rest [of rs "[]" t us s' Silent "followers rs t 64" w'] Cons assms(2) card by simp
qed

end

section \<open>A search for one family\<close>

definition in_family :: "byte \<Rightarrow> bool list \<Rightarrow> bool" where
  "in_family f r \<longleftrightarrow> (\<forall>i < 8. r ! i = bit f i)"

definition prefix_bits :: "byte \<Rightarrow> nat \<Rightarrow> bool" where
  "prefix_bits f i \<longleftrightarrow> i < 8 \<and> bit f i"

lemma steers_family:
  assumes len: "\<And>r. r \<in> set D \<Longrightarrow> length r = 64" and r: "r \<in> set D" "in_family f r"
  shows "\<exists>t \<in> set D. in_family f t \<and> steers 64 (map (prefix_bits f) [0..<64]) D t"
proof -
  let ?F = "{r \<in> set D. in_family f r}"
  define m where "m = Min ?F"
  have m: "m \<in> ?F" "\<And>r. r \<in> ?F \<Longrightarrow> m \<le> r" unfolding m_def using r Min_in [of ?F] by auto
  let ?T = "{r \<in> set D. take 63 r = take 63 m}"
  define t where "t = Max ?T"
  have t: "t \<in> ?T" "\<And>r. r \<in> ?T \<Longrightarrow> r \<le> t" unfolding t_def using m Max_in [of ?T] by auto
  have tm: "t ! i = m ! i" if "i < 63" for i using that t take_nth_eq [of 63 t m i] by simp
  have fam: "in_family f t" using m tm by (simp add: in_family_def)
  have path: "t ! k = (if k + 1 < 64 then map (prefix_bits f) [0..<64] ! k else k + 1 = 64)"
    if k: "k < 64" and sib: "sibling D t k (\<not> t ! k)" for k
  proof -
    obtain q where q: "q \<in> set D" "take k q = take k t" "q ! k \<noteq> t ! k" using sib by (auto simp: sibling_def)
    consider "k < 8" | "8 \<le> k" "k < 63" | "k = 63" using k by linarith
    then show ?thesis
    proof cases
      case 1
      then show ?thesis using m tm by (simp add: in_family_def prefix_bits_def)
    next
      case 2
      have "q \<in> ?F" using q 2 fam take_nth_eq [OF q(2)] by (simp add: in_family_def)
      then have "\<not> q < m" using m(2) [of q] by simp
      moreover have "take k q = take k m" using q(2) t(1) 2 take_le_eq [of 63 t m k] by simp
      ultimately have "\<not> (\<not> q ! k \<and> m ! k)"
        using less_bitI [of q 64 m k] q(1) m(1) len k by auto
      then show ?thesis using q(3) tm 2 by (auto simp: prefix_bits_def)
    next
      case 3
      have "q \<le> t" using q t 3 by simp
      then have "\<not> (\<not> t ! k \<and> q ! k)" using less_bitI [of t 64 q k] q(1,2) t(1) len k by auto
      then show ?thesis using 3 q(3) by auto
    qed
  qed
  show ?thesis using t(1) fam unfolding steers_def by (intro bexI [of _ t] conjI allI impI path) simp_all
qed

lemma prefix_rom_bit:
  "i < 64 \<Longrightarrow> rom_bit (rom_no (onewire_search_prefix f s)) i = map (prefix_bits f) [0..<64] ! i"
  by (cases "i < 8") (auto simp: rom_bit_def prefix_bits_def onewire_search_prefix_def nth_Cons
      div_less_iff_less_mult split: nat.splits)

section \<open>Properties\<close>

text \<open>
  C16. On every pin whose devices answer as the bus interface says, a search that starts
  with \<open>onewire_search_start\<close> returns with its successive calls of \<open>onewire_search_next\<close> the
  address of each device once, in ascending order of the ROM codes (least significant bit
  first), and then \<open>ONEWIRE_NONE\<close>.
\<close>

theorem search_finds_every_device:
  assumes "onewire_bus g at" "at ph act rs w" "roms_ok rs"
  shows "search_all g (card (set rs) + 1) onewire_search_start w
    = map device_addr (sorted_list_of_set (set rs)) @ [ONEWIRE_NONE]"
  using assms by (rule onewire_bus.search_complete)

text \<open>
  Two devices on a wire: families 0x28 and 0x10, found in the order of their bits.
\<close>

definition sample_roms :: "bool list list" where
  "sample_roms = [map (bit (0xA500000000000028 :: 64 word)) [0..<64], map (bit (0x3C00000000000010 :: 64 word)) [0..<64]]"

definition sample_wire :: wire where
  "sample_wire = \<lparr>released = True, clock = 0, hold_from = 0, hold_until = 0, phase = Silent, active = [], roms = sample_roms\<rparr>"

lemma sample_roms_ok: "roms_ok sample_roms"
  by (auto simp: roms_ok_def sample_roms_def intro: exI [of _ 3] exI [of _ 4])

lemma sample_wire_at: "wire_at Silent [] sample_roms sample_wire"
  by (simp add: wire_at_def sample_wire_def)

theorem search_finds_every_device_witness:
  "search_all wire_gpio (card (set sample_roms) + 1) onewire_search_start sample_wire
    = map device_addr (sorted_list_of_set (set sample_roms)) @ [ONEWIRE_NONE] \<and> length sample_roms = 2"
  using search_finds_every_device [OF wire.onewire_bus_axioms sample_wire_at sample_roms_ok]
  by (simp add: sample_roms_def)

text \<open>
  After \<open>onewire_search_prefix\<close> for a family code, the next call of \<open>onewire_search_next\<close>
  returns the address of a device of this family whenever one is on the bus.
\<close>

theorem search_prefix_finds_family:
  assumes "onewire_bus g at" "at ph act rs w" "roms_ok rs" "r \<in> set rs" "in_family f r"
  shows "\<exists>t \<in> set rs. in_family f t
    \<and> fst (onewire_search_next g (onewire_search_prefix f s) w) = device_addr t"
proof -
  have len: "\<And>r. r \<in> set rs \<Longrightarrow> length r = 64" using assms(3) by (simp add: roms_ok_def)
  obtain t where t: "t \<in> set rs" "in_family f t" "steers 64 (map (prefix_bits f) [0..<64]) rs t"
    using steers_family [OF len assms(4,5)] by blast
  have "\<exists>s' w'. onewire_search_next g (onewire_search_prefix f s) w = (device_addr t, s', w') \<and> found rs s' t
      \<and> at Silent (followers rs t 64) rs w'"
    using t(3) prefix_rom_bit
    by (intro onewire_bus.search_next_found [OF assms(1,2) t(1) assms(3), of _ "map (prefix_bits f) [0..<64]"])
      (auto simp: onewire_search_prefix_def)
  then show ?thesis using t by (intro bexI [of _ t]) auto
qed

theorem search_prefix_finds_family_witness:
  "\<exists>t \<in> set sample_roms. in_family 0x10 t
    \<and> fst (onewire_search_next wire_gpio (onewire_search_prefix 0x10 onewire_search_start) sample_wire) = device_addr t"
proof (rule search_prefix_finds_family [OF wire.onewire_bus_axioms sample_wire_at sample_roms_ok])
  show "sample_roms ! 1 \<in> set sample_roms" by (simp add: sample_roms_def)
  have "bit (0x3C00000000000010 :: 64 word) i = bit (0x10 :: byte) i" if "i < 8" for i :: nat
  proof -
    have "i \<in> {0, 1, 2, 3, 4, 5, 6, 7}" using that by auto
    then show ?thesis by auto
  qed
  then show "in_family 0x10 (sample_roms ! 1)" by (simp add: in_family_def sample_roms_def)
qed

end
