(* ===== verification/Dhcpserver.thy ===== *)
theory Dhcpserver
  imports Prelude
begin

text \<open>
  The DHCP server of \<open>src/extras/dhcpserver/dhcpserver.c\<close>: the lease table, the handlers of
  the client messages and the encoding of options.

  The network stack is not part of the repository. Its constants are the parameter \<open>L\<close>, its
  message structure is the record \<open>dhcp_msg\<close> with the fields the server uses (the others are
  passed through), and what it delivers with a packet is the record \<open>dhcp_event\<close>. What the
  server sends is returned as a list. Addresses are given by their value in host order,
  \<open>lwip_ntohl\<close> of the stored word.
\<close>

section \<open>Messages, leases and the state of the server\<close>

record lwip_dhcp =
  DHCP_BOOTREPLY :: byte
  DHCP_DISCOVER :: byte
  DHCP_OFFER :: byte
  DHCP_REQUEST :: byte
  DHCP_ACK :: byte
  DHCP_NAK :: byte
  DHCP_RELEASE :: byte
  DHCP_OPTION_SUBNET_MASK :: byte
  DHCP_OPTION_ROUTER :: byte
  DHCP_OPTION_DNS_SERVER :: byte
  DHCP_OPTION_REQUESTED_IP :: byte
  DHCP_OPTION_LEASE_TIME :: byte
  DHCP_OPTION_MESSAGE_TYPE :: byte
  DHCP_OPTION_MESSAGE_TYPE_LEN :: nat
  DHCP_OPTION_SERVER_ID :: byte
  DHCP_OPTION_END :: byte
  LWIP_IANA_HWTYPE_ETHERNET :: byte
  NETIF_MAX_HWADDR_LEN :: nat
  dhcp_options_offset :: nat

definition DHCP_OPTIONS_LEN :: nat where "DHCP_OPTIONS_LEN = 312"
definition DHCPSERVER_LEASE_TIME :: nat where "DHCPSERVER_LEASE_TIME = 3600"
definition configTICK_RATE_HZ :: nat where "configTICK_RATE_HZ = 100"

record dhcp_msg =
  op :: byte
  htype :: byte
  hlen :: byte
  ciaddr :: nat
  yiaddr :: nat
  chaddr :: "byte list"
  options :: "byte list"
  other_fields :: "byte list"

record dhcp_lease =
  hwaddr :: "byte list"
  active :: bool
  expires :: nat

record server_state =
  nc :: bool
  max_leases :: nat
  first_client_addr :: nat
  server_ip :: nat
  server_netmask :: nat
  leases :: "dhcp_lease list"
  router :: nat
  dns :: nat

datatype dhcp_output = Send dhcp_msg | Station_info "byte list" nat

text \<open>One packet: what \<open>netconn_recv\<close> reports, the length of the buffer, the message copied into
  the zeroed structure, the tick counts read while it is handled, and the content of the
  stack variable \<open>requested_ip\<close> before it is written.\<close>

record dhcp_event =
  recv_ok :: bool
  netbuf_len :: nat
  received :: dhcp_msg
  now :: nat
  now_request :: nat
  stack_ip :: nat

section \<open>Starting and stopping\<close>

text \<open>The task handle and the global pointer \<open>state\<close>.\<close>

record dhcpserver =
  task_handle :: bool
  state :: "server_state option"

definition dhcpserver_stop :: "dhcpserver \<Rightarrow> dhcpserver" where
  "dhcpserver_stop d = (if task_handle d then d\<lparr>task_handle := False, state := None\<rparr> else d)"

text \<open>\<open>calloc\<close> gives leases of zeros; \<open>created\<close> says whether \<open>xTaskCreate\<close> sets the handle.\<close>

definition empty_lease :: "lwip_dhcp \<Rightarrow> dhcp_lease" where
  "empty_lease L = \<lparr>hwaddr = replicate (NETIF_MAX_HWADDR_LEN L) 0, active = False, expires = 0\<rparr>"

definition dhcpserver_start :: "lwip_dhcp \<Rightarrow> bool \<Rightarrow> nat \<Rightarrow> nat \<Rightarrow> dhcpserver \<Rightarrow> dhcpserver" where
  "dhcpserver_start L created first n d =
     (let d1 = (if task_handle d then dhcpserver_stop d else d)
      in d1\<lparr>state := Some \<lparr>nc = False, max_leases = n, first_client_addr = first, server_ip = 0,
              server_netmask = 0, leases = replicate n (empty_lease L), router = 0, dns = 0\<rparr>,
            task_handle := created\<rparr>)"

text \<open>\<open>None\<close>: the pointer is null.\<close>

definition dhcpserver_set_router :: "nat \<Rightarrow> dhcpserver \<Rightarrow> dhcpserver option" where
  "dhcpserver_set_router a d = map_option (\<lambda>s. d\<lparr>state := Some (s\<lparr>router := a\<rparr>)\<rparr>) (state d)"

definition dhcpserver_set_dns :: "nat \<Rightarrow> dhcpserver \<Rightarrow> dhcpserver option" where
  "dhcpserver_set_dns a d = map_option (\<lambda>s. d\<lparr>state := Some (s\<lparr>dns := a\<rparr>)\<rparr>) (state d)"

section \<open>Options\<close>

function find_option_loop :: "lwip_dhcp \<Rightarrow> byte list \<Rightarrow> byte \<Rightarrow> nat \<Rightarrow> nat \<Rightarrow> (nat \<times> nat) option" where
  "find_option_loop L opts option_num min_length p =
     (if p < length opts - 2
      then let type = opts ! p; len = unat (opts ! (p + 1)); q = p + 2
           in if type = DHCP_OPTION_END L then None
              else if q + len \<ge> length opts then None
              else if type = option_num then (if len < min_length then None else Some (q, len))
              else find_option_loop L opts option_num min_length (q + len)
      else None)"
  by pat_completeness auto
termination
  by (relation "measure (\<lambda>(L, opts, n, m, p). length opts - p)") auto

declare find_option_loop.simps [simp del]

text \<open>The result is the position of the data in \<open>options\<close> and its length.\<close>

definition find_dhcp_option :: "lwip_dhcp \<Rightarrow> dhcp_msg \<Rightarrow> byte \<Rightarrow> nat \<Rightarrow> (nat \<times> nat) option" where
  "find_dhcp_option L msg option_num min_length = find_option_loop L (options msg) option_num min_length 0"

text \<open>Options are written at a position; the next position is returned.\<close>

fun put_bytes :: "byte list \<Rightarrow> nat \<Rightarrow> byte list \<Rightarrow> byte list" where
  "put_bytes buf i [] = buf"
| "put_bytes buf i (b # bs) = put_bytes (buf[i := b]) (i + 1) bs"

definition add_dhcp_option_byte :: "byte \<Rightarrow> byte \<Rightarrow> byte list \<times> nat \<Rightarrow> byte list \<times> nat" where
  "add_dhcp_option_byte type v = (\<lambda>(buf, opt). (buf[opt := type, opt + 1 := 1, opt + 2 := v], opt + 3))"

definition add_dhcp_option_bytes :: "byte \<Rightarrow> byte list \<Rightarrow> byte list \<times> nat \<Rightarrow> byte list \<times> nat" where
  "add_dhcp_option_bytes type v = (\<lambda>(buf, opt).
     if v \<noteq> [] then (put_bytes (buf[opt := type, opt + 1 := of_nat (length v)]) (opt + 2) v, opt + 2 + length v)
     else (buf[opt := type], opt + 1))"

text \<open>The four bytes of an address or a number in network order.\<close>

definition be32 :: "nat \<Rightarrow> byte list" where
  "be32 n = [word_of_nat (n div 16777216), word_of_nat (n div 65536), word_of_nat (n div 256), word_of_nat n]"

definition rd_be32 :: "byte list \<Rightarrow> nat" where
  "rd_be32 bs = unat (bs ! 0) * 16777216 + unat (bs ! 1) * 65536 + unat (bs ! 2) * 256 + unat (bs ! 3)"

definition ip4_addr1 :: "nat \<Rightarrow> nat" where "ip4_addr1 a = a div 16777216 mod 256"
definition ip4_addr2 :: "nat \<Rightarrow> nat" where "ip4_addr2 a = a div 65536 mod 256"
definition ip4_addr3 :: "nat \<Rightarrow> nat" where "ip4_addr3 a = a div 256 mod 256"
definition ip4_addr4 :: "nat \<Rightarrow> nat" where "ip4_addr4 a = a mod 256"

section \<open>The lease table\<close>

fun lease_slot_loop :: "byte list \<Rightarrow> dhcp_lease list \<Rightarrow> nat \<Rightarrow> nat option \<Rightarrow> nat option" where
  "lease_slot_loop hw [] i found_empty = found_empty"
| "lease_slot_loop hw (l # ls) i found_empty =
     (if \<not> active l \<and> found_empty = None then lease_slot_loop hw ls (i + 1) (Some i)
      else if take 6 hw = take 6 (hwaddr l) then Some i
      else lease_slot_loop hw ls (i + 1) found_empty)"

definition find_lease_slot :: "server_state \<Rightarrow> byte list \<Rightarrow> nat option" where
  "find_lease_slot st hw = lease_slot_loop hw (take (max_leases st) (leases st)) 0 None"

definition expire_lease :: "nat \<Rightarrow> dhcp_lease \<Rightarrow> dhcp_lease" where
  "expire_lease t l =
     (if active l \<and> 0x80000000 \<le> u32_sub (expires l) t then l\<lparr>active := False\<rparr> else l)"

definition expire_leases :: "nat \<Rightarrow> server_state \<Rightarrow> server_state" where
  "expire_leases t st = st\<lparr>leases := map (expire_lease t) (leases st)\<rparr>"

section \<open>Handlers\<close>

definition send_dhcp_nak :: "lwip_dhcp \<Rightarrow> server_state \<Rightarrow> dhcp_msg \<Rightarrow> dhcp_output list" where
  "send_dhcp_nak L st msg =
     (let o1 = add_dhcp_option_byte (DHCP_OPTION_MESSAGE_TYPE L) (DHCP_NAK L) (replicate DHCP_OPTIONS_LEN 0, 0);
          o2 = add_dhcp_option_bytes (DHCP_OPTION_SERVER_ID L) (be32 (server_ip st)) o1;
          o3 = add_dhcp_option_bytes (DHCP_OPTION_END L) [] o2
      in [Send (msg\<lparr>op := DHCP_BOOTREPLY L, options := fst o3\<rparr>)])"

definition add_router_dns :: "lwip_dhcp \<Rightarrow> server_state \<Rightarrow> byte list \<times> nat \<Rightarrow> byte list \<times> nat" where
  "add_router_dns L st o0 =
     (let o1 = (if router st \<noteq> 0 then add_dhcp_option_bytes (DHCP_OPTION_ROUTER L) (be32 (router st)) o0 else o0)
      in if dns st \<noteq> 0 then add_dhcp_option_bytes (DHCP_OPTION_DNS_SERVER L) (be32 (dns st)) o1 else o1)"

definition handle_dhcp_discover :: "lwip_dhcp \<Rightarrow> server_state \<Rightarrow> dhcp_msg \<Rightarrow> dhcp_output list" where
  "handle_dhcp_discover L st msg =
     (if htype msg \<noteq> LWIP_IANA_HWTYPE_ETHERNET L then []
      else if unat (hlen msg) > NETIF_MAX_HWADDR_LEN L then []
      else (case find_lease_slot st (chaddr msg) of
              None \<Rightarrow> []
            | Some i \<Rightarrow>
                let o1 = add_dhcp_option_byte (DHCP_OPTION_MESSAGE_TYPE L) (DHCP_OFFER L) (replicate DHCP_OPTIONS_LEN 0, 0);
                    o2 = add_dhcp_option_bytes (DHCP_OPTION_SERVER_ID L) (be32 (server_ip st)) o1;
                    o3 = add_dhcp_option_bytes (DHCP_OPTION_SUBNET_MASK L) (be32 (server_netmask st)) o2;
                    o4 = add_router_dns L st o3;
                    o5 = add_dhcp_option_bytes (DHCP_OPTION_LEASE_TIME L) (be32 DHCPSERVER_LEASE_TIME) o4;
                    o6 = add_dhcp_option_bytes (DHCP_OPTION_END L) [] o5
                in [Send (msg\<lparr>op := DHCP_BOOTREPLY L, yiaddr := u32 (first_client_addr st + i), options := fst o6\<rparr>)]))"

definition ack_message :: "lwip_dhcp \<Rightarrow> server_state \<Rightarrow> dhcp_msg \<Rightarrow> nat \<Rightarrow> dhcp_msg" where
  "ack_message L st msg ip =
     (let o1 = add_dhcp_option_byte (DHCP_OPTION_MESSAGE_TYPE L) (DHCP_ACK L) (replicate DHCP_OPTIONS_LEN 0, 0);
          o2 = add_dhcp_option_bytes (DHCP_OPTION_LEASE_TIME L) (be32 DHCPSERVER_LEASE_TIME) o1;
          o3 = add_dhcp_option_bytes (DHCP_OPTION_SERVER_ID L) (be32 (server_ip st)) o2;
          o4 = add_dhcp_option_bytes (DHCP_OPTION_SUBNET_MASK L) (be32 (server_netmask st)) o3;
          o5 = add_router_dns L st o4;
          o6 = add_dhcp_option_bytes (DHCP_OPTION_END L) [] o5
      in msg\<lparr>op := DHCP_BOOTREPLY L, yiaddr := ip, options := fst o6\<rparr>)"

text \<open>The address a request asks for; without the option the code reads \<open>requested_ip\<close> before
  it has a value.\<close>

definition requested_address :: "lwip_dhcp \<Rightarrow> dhcp_msg \<Rightarrow> nat \<Rightarrow> nat option" where
  "requested_address L msg junk =
     (case find_dhcp_option L msg (DHCP_OPTION_REQUESTED_IP L) 4 of
        Some (p, _) \<Rightarrow> Some (rd_be32 (take 4 (drop p (options msg))))
      | None \<Rightarrow> if junk = 0 then Some (ciaddr msg) else None)"

definition handle_dhcp_request :: "lwip_dhcp \<Rightarrow> nat \<Rightarrow> nat \<Rightarrow> server_state \<Rightarrow> dhcp_msg \<Rightarrow> server_state \<times> dhcp_output list" where
  "handle_dhcp_request L junk t st msg =
     (let first = first_client_addr st
      in if htype msg \<noteq> LWIP_IANA_HWTYPE_ETHERNET L then (st, [])
         else if unat (hlen msg) > NETIF_MAX_HWADDR_LEN L then (st, [])
         else (case requested_address L msg junk of
                 None \<Rightarrow> (st, send_dhcp_nak L st msg)
               | Some ip \<Rightarrow>
                   if ip4_addr1 ip \<noteq> ip4_addr1 first \<or> ip4_addr2 ip \<noteq> ip4_addr2 first \<or> ip4_addr3 ip \<noteq> ip4_addr3 first
                   then (st, send_dhcp_nak L st msg)
                   else
                     let octet_offs = int (ip4_addr4 ip) - int (ip4_addr4 first)
                     in if octet_offs < 0 \<or> octet_offs \<ge> int (max_leases st) then (st, send_dhcp_nak L st msg)
                        else
                          let i = nat octet_offs; l = leases st ! i; h = unat (hlen msg)
                          in if active l \<and> take h (hwaddr l) \<noteq> take h (chaddr msg)
                             then (st, send_dhcp_nak L st msg)
                             else
                               let hw = take h (chaddr msg) @ drop h (hwaddr l);
                                   l' = \<lparr>hwaddr = hw, active = True,
                                        expires = u32 (t + DHCPSERVER_LEASE_TIME * configTICK_RATE_HZ)\<rparr>;
                                   st' = st\<lparr>leases := (leases st)[i := l']\<rparr>
                               in (st', [Station_info hw ip, Send (ack_message L st' msg ip)])))"

definition handle_dhcp_release :: "server_state \<Rightarrow> dhcp_msg \<Rightarrow> server_state" where
  "handle_dhcp_release st msg =
     (case find_lease_slot st (chaddr msg) of
        None \<Rightarrow> st
      | Some i \<Rightarrow> st\<lparr>leases := (leases st)[i := (leases st ! i)\<lparr>active := False, expires := 0\<rparr>]\<rparr>)"

section \<open>The task\<close>

text \<open>The start of \<open>dhcpserver_task\<close>; the task ends when no connection can be allocated.\<close>

definition dhcpserver_task_init :: "nat \<Rightarrow> nat \<Rightarrow> bool \<Rightarrow> server_state \<Rightarrow> bool \<times> server_state" where
  "dhcpserver_task_init ip netmask nc_ok st =
     (nc_ok, st\<lparr>server_ip := ip, server_netmask := netmask, nc := nc_ok\<rparr>)"

text \<open>The type of a message, \<open>None\<close> when it has no usable message type option.\<close>

definition message_type :: "lwip_dhcp \<Rightarrow> dhcp_msg \<Rightarrow> byte option" where
  "message_type L msg =
     (case find_dhcp_option L msg (DHCP_OPTION_MESSAGE_TYPE L) (DHCP_OPTION_MESSAGE_TYPE_LEN L) of
        None \<Rightarrow> None | Some (p, _) \<Rightarrow> Some (options msg ! p))"

text \<open>One turn of the loop in \<open>dhcpserver_task\<close>.\<close>

definition dhcpserver_turn :: "lwip_dhcp \<Rightarrow> dhcp_event \<Rightarrow> server_state \<Rightarrow> server_state \<times> dhcp_output list" where
  "dhcpserver_turn L ev st =
     (if \<not> recv_ok ev then (st, [])
      else
        let st1 = expire_leases (now ev) st; msg = received ev
        in if netbuf_len ev < dhcp_options_offset L then (st1, [])
           else (case message_type L msg of
                   None \<Rightarrow> (st1, [])
                 | Some m \<Rightarrow>
                     if m = DHCP_DISCOVER L then (st1, handle_dhcp_discover L st1 msg)
                     else if m = DHCP_REQUEST L then handle_dhcp_request L (stack_ip ev) (now_request ev) st1 msg
                     else if m = DHCP_RELEASE L then (handle_dhcp_release st1 msg, [])
                     else (st1, [])))"

text \<open>
  What the stack delivers: the structure has a hardware address of 16 bytes, an address of
  32 bits and the option field of the server's size; tick counts have 32 bits.
\<close>

definition msg_ok :: "dhcp_msg \<Rightarrow> bool" where
  "msg_ok m \<longleftrightarrow> length (chaddr m) = 16 \<and> length (options m) = DHCP_OPTIONS_LEN \<and> ciaddr m < 2 ^ 32"

definition event_ok :: "dhcp_event \<Rightarrow> bool" where
  "event_ok ev \<longleftrightarrow> msg_ok (received ev) \<and> now ev < 2 ^ 32 \<and> now_request ev < 2 ^ 32"

text \<open>The states the loop goes through, with all that it has sent.\<close>

inductive serves :: "lwip_dhcp \<Rightarrow> server_state \<Rightarrow> dhcp_output list \<Rightarrow> server_state \<Rightarrow> bool" for L st0 where
  start: "serves L st0 [] st0"
| turn: "serves L st0 tr st \<Longrightarrow> event_ok ev \<Longrightarrow> dhcpserver_turn L ev st = (st', out) \<Longrightarrow> serves L st0 (tr @ out) st'"

end
