(* ===== verification/Dhcpserver_Leases.thy ===== *)
theory Dhcpserver_Leases
  imports Dhcpserver
begin

text \<open>
  Correctness of the DHCP server: the options it writes are the ones a client reads, the
  lease table stays well formed, an address is given to one client at a time, leases expire
  when they should, and an offered address is acknowledged when it is requested.
\<close>

section \<open>The documented constants\<close>

text \<open>The values of the protocol constants in RFC 2131 and RFC 2132, and the sizes documented by
  the network stack.\<close>

definition documented :: "lwip_dhcp \<Rightarrow> bool" where
  "documented L \<longleftrightarrow> L = \<lparr>DHCP_BOOTREPLY = 2, DHCP_DISCOVER = 1, DHCP_OFFER = 2, DHCP_REQUEST = 3, DHCP_ACK = 5,
     DHCP_NAK = 6, DHCP_RELEASE = 7, DHCP_OPTION_SUBNET_MASK = 1, DHCP_OPTION_ROUTER = 3,
     DHCP_OPTION_DNS_SERVER = 6, DHCP_OPTION_REQUESTED_IP = 50, DHCP_OPTION_LEASE_TIME = 51,
     DHCP_OPTION_MESSAGE_TYPE = 53, DHCP_OPTION_MESSAGE_TYPE_LEN = 1, DHCP_OPTION_SERVER_ID = 54,
     DHCP_OPTION_END = 255, LWIP_IANA_HWTYPE_ETHERNET = 1, NETIF_MAX_HWADDR_LEN = 6, dhcp_options_offset = 240\<rparr>"

lemma documented_simps:
  assumes "documented L"
  shows "DHCP_BOOTREPLY L = 2" "DHCP_DISCOVER L = 1" "DHCP_OFFER L = 2" "DHCP_REQUEST L = 3" "DHCP_ACK L = 5"
    "DHCP_NAK L = 6" "DHCP_RELEASE L = 7" "DHCP_OPTION_SUBNET_MASK L = 1" "DHCP_OPTION_ROUTER L = 3"
    "DHCP_OPTION_DNS_SERVER L = 6" "DHCP_OPTION_REQUESTED_IP L = 50" "DHCP_OPTION_LEASE_TIME L = 51"
    "DHCP_OPTION_MESSAGE_TYPE L = 53" "DHCP_OPTION_MESSAGE_TYPE_LEN L = 1" "DHCP_OPTION_SERVER_ID L = 54"
    "DHCP_OPTION_END L = 255" "LWIP_IANA_HWTYPE_ETHERNET L = 1" "NETIF_MAX_HWADDR_LEN L = 6"
    "dhcp_options_offset L = 240"
  using assms by (simp_all add: documented_def)

section \<open>Options written and read\<close>

type_synonym tlv = "byte \<times> byte list"

definition enc :: "tlv list \<Rightarrow> byte list" where
  "enc ts = concat (map (\<lambda>(t, v). t # of_nat (length v) # v) ts)"

lemma enc_simps [simp]:
  "enc [] = []" "enc ((t, v) # ts) = t # of_nat (length v) # v @ enc ts" "enc (ts @ us) = enc ts @ enc us"
  by (simp_all add: enc_def)

lemma put_bytes_append:
  "length v \<le> length mid \<Longrightarrow> put_bytes (pre @ mid) (length pre) v = pre @ v @ drop (length v) mid"
proof (induction v arbitrary: pre mid)
  case (Cons b v)
  then obtain m mid' where "mid = m # mid'" by (cases mid) auto
  then show ?case using Cons.IH [of mid' "pre @ [b]"] Cons.prems by simp
qed simp

text \<open>\<open>built ts o\<close>: the options \<open>ts\<close> are written, the rest of the buffer is zero.\<close>

definition built :: "tlv list \<Rightarrow> byte list \<times> nat \<Rightarrow> bool" where
  "built ts o0 \<longleftrightarrow> o0 = (enc ts @ replicate (DHCP_OPTIONS_LEN - length (enc ts)) 0, length (enc ts))"

lemma built_empty: "built [] (replicate DHCP_OPTIONS_LEN 0, 0)"
  by (simp add: built_def)

lemma built_bytes:
  assumes "built ts o0" "v \<noteq> []" "length (enc ts) + 2 + length v \<le> DHCP_OPTIONS_LEN"
  shows "built (ts @ [(t, v)]) (add_dhcp_option_bytes t v o0)"
proof -
  define n where "n = DHCP_OPTIONS_LEN - length (enc ts) - 2 - length v"
  have n: "DHCP_OPTIONS_LEN - length (enc ts) = Suc (Suc (n + length v))" using assms(3) by (simp add: n_def)
  have "put_bytes ((enc ts @ [t, of_nat (length v)]) @ replicate (n + length v) 0) (length (enc ts @ [t, of_nat (length v)])) v
      = (enc ts @ [t, of_nat (length v)]) @ v @ drop (length v) (replicate (n + length v) 0)"
    by (rule put_bytes_append) simp
  then show ?thesis
    using assms(1,2) n by (simp add: built_def add_dhcp_option_bytes_def list_update_append)
qed

lemma built_byte:
  assumes "built ts o0" "length (enc ts) + 3 \<le> DHCP_OPTIONS_LEN"
  shows "built (ts @ [(t, [v])]) (add_dhcp_option_byte t v o0)"
proof -
  define n where "n = DHCP_OPTIONS_LEN - length (enc ts) - 3"
  have "DHCP_OPTIONS_LEN - length (enc ts) = Suc (Suc (Suc n))" using assms(2) by (simp add: n_def)
  then show ?thesis using assms(1) by (simp add: built_def add_dhcp_option_byte_def list_update_append)
qed

lemma built_end:
  assumes "built ts o0" "length (enc ts) < DHCP_OPTIONS_LEN"
  shows "fst (add_dhcp_option_bytes t [] o0) = enc ts @ t # replicate (DHCP_OPTIONS_LEN - length (enc ts) - 1) 0"
proof -
  obtain n where n: "DHCP_OPTIONS_LEN - length (enc ts) = Suc n" using assms(2) by (metis Suc_diff_Suc)
  then show ?thesis using assms(1) by (simp add: built_def add_dhcp_option_bytes_def list_update_append)
qed

text \<open>Reading back: the first option of a type is found, with its data.\<close>

definition option_value :: "lwip_dhcp \<Rightarrow> dhcp_msg \<Rightarrow> byte \<Rightarrow> nat \<Rightarrow> byte list option" where
  "option_value L msg t n =
     (case find_dhcp_option L msg t n of None \<Rightarrow> None | Some (p, len) \<Rightarrow> Some (take len (drop p (options msg))))"

lemma find_option_enc:
  assumes "opts = pre @ enc ts @ DHCP_OPTION_END L # rest" "2 \<le> length rest"
    and "\<And>t v. (t, v) \<in> set ts \<Longrightarrow> t \<noteq> DHCP_OPTION_END L \<and> length v < 256"
    and "\<And>v. map_of ts t = Some v \<Longrightarrow> n \<le> length v"
  shows "(case find_option_loop L opts t n (length pre) of
      None \<Rightarrow> map_of ts t = None \<or> t = DHCP_OPTION_END L
    | Some (q, len) \<Rightarrow> map_of ts t = Some (take len (drop q opts)))"
  using assms
proof (induction ts arbitrary: pre)
  case Nil
  then show ?case by (subst find_option_loop.simps) (simp add: nth_append)
next
  case (Cons x ts)
  obtain u v where x: "x = (u, v)" by (cases x)
  have uv: "u \<noteq> DHCP_OPTION_END L" "length v < 256" using Cons.prems(3) x by auto
  have len: "unat (of_nat (length v) :: byte) = length v" using uv(2) by (simp add: unat_of_nat)
  have opts: "opts = (pre @ [u, of_nat (length v)] @ v) @ enc ts @ DHCP_OPTION_END L # rest"
    using Cons.prems(1) x by simp
  have nth: "opts ! length pre = u" "opts ! (length pre + 1) = of_nat (length v)"
    using Cons.prems(1) x by (simp_all add: nth_append)
  have lo: "length opts = length pre + length v + length (enc ts) + length rest + 3" using opts by simp
  have step: "find_option_loop L opts t n (length pre) =
      (if u = t then (if length v < n then None else Some (length pre + 2, length v))
       else find_option_loop L opts t n (length (pre @ [u, of_nat (length v)] @ v)))"
    using uv(1) lo Cons.prems(2)
    by (subst find_option_loop.simps) (simp add: nth [simplified] len Let_def)
  show ?case
  proof (cases "u = t")
    case True
    then have "n \<le> length v" using Cons.prems(4) x by simp
    then show ?thesis using True step x opts by simp
  next
    case False
    have m: "map_of (x # ts) t = map_of ts t" using x False by simp
    have "\<And>v. map_of ts t = Some v \<Longrightarrow> n \<le> length v" using Cons.prems(4) m by simp
    moreover have "\<And>t v. (t, v) \<in> set ts \<Longrightarrow> t \<noteq> DHCP_OPTION_END L \<and> length v < 256"
      by (meson Cons.prems(3) list.set_intros(2))
    ultimately show ?thesis using Cons.IH [OF opts Cons.prems(2)] step False unfolding m by simp
  qed
qed

lemma option_value_enc:
  assumes "options msg = enc ts @ DHCP_OPTION_END L # rest" "2 \<le> length rest" "t \<noteq> DHCP_OPTION_END L"
    and "\<And>t v. (t, v) \<in> set ts \<Longrightarrow> t \<noteq> DHCP_OPTION_END L \<and> length v < 256"
    and "\<And>v. map_of ts t = Some v \<Longrightarrow> n \<le> length v"
  shows "option_value L msg t n = map_of ts t"
  using find_option_enc [of "options msg" "[]" ts L rest t n] assms
  by (auto simp: option_value_def find_dhcp_option_def split: option.splits)

lemma take_drop_Cons: "take n (drop p xs) = k # ys \<Longrightarrow> xs ! p = k"
  by (cases "p < length xs"; cases n) (auto simp: Cons_nth_drop_Suc [symmetric])

text \<open>What is returned lies inside the message.\<close>

lemma find_option_bounds:
  "find_option_loop L opts t n p = Some (q, len) \<Longrightarrow> p + 2 \<le> q \<and> q + len < length opts \<and> n \<le> len"
proof (induction L opts t n p rule: find_option_loop.induct)
  case (1 L opts t n p)
  from 1(2) show ?case
    by (subst (asm) find_option_loop.simps) (auto simp: Let_def split: if_splits dest!: 1(1) [OF _ refl refl refl])
qed

section \<open>The lease table\<close>

text \<open>The table has one entry per address, each with a hardware address and a time of 32 bits.\<close>

definition leases_ok :: "lwip_dhcp \<Rightarrow> server_state \<Rightarrow> bool" where
  "leases_ok L st \<longleftrightarrow> length (leases st) = max_leases st
     \<and> (\<forall>l \<in> set (leases st). length (hwaddr l) = NETIF_MAX_HWADDR_LEN L \<and> expires l < 2 ^ 32)"

lemma lease_slot_loop_Some:
  "lease_slot_loop hw ls i e = Some k \<Longrightarrow> e = Some k \<or>
    (i \<le> k \<and> k < i + length ls \<and> (\<not> active (ls ! (k - i)) \<or> take 6 hw = take 6 (hwaddr (ls ! (k - i)))))"
proof (induction ls arbitrary: i e)
  case (Cons l ls)
  show ?case
  proof (cases "k = i")
    case True
    then show ?thesis using Cons.prems Cons.IH [of "i + 1" e] Cons.IH [of "i + 1" "Some i"]
      by (auto split: if_splits)
  next
    case False
    then show ?thesis using Cons.prems Cons.IH [of "i + 1" e] Cons.IH [of "i + 1" "Some i"]
      by (auto simp: nth_Cons' split: if_splits)
  qed
qed simp

lemma lease_slot_loop_None:
  "lease_slot_loop hw ls i e = None \<longleftrightarrow> e = None \<and> (\<forall>l \<in> set ls. active l \<and> take 6 hw \<noteq> take 6 (hwaddr l))"
  by (induction hw ls i e rule: lease_slot_loop.induct) auto

lemma find_lease_slot_Some:
  assumes "find_lease_slot st hw = Some i" "length (leases st) = max_leases st"
  shows "i < max_leases st" "active (leases st ! i) \<Longrightarrow> take 6 (hwaddr (leases st ! i)) = take 6 hw"
  using lease_slot_loop_Some [of hw "leases st" 0 None i] assms by (auto simp: find_lease_slot_def)

lemma find_lease_slot_None:
  assumes "length (leases st) = max_leases st"
  shows "find_lease_slot st hw = None \<longleftrightarrow> (\<forall>l \<in> set (leases st). active l \<and> take 6 (hwaddr l) \<noteq> take 6 hw)"
  using assms by (auto simp: find_lease_slot_def lease_slot_loop_None)

lemma expire_lease_simps [simp]:
  "hwaddr (expire_lease t l) = hwaddr l" "expires (expire_lease t l) = expires l"
  "active (expire_lease t l) \<Longrightarrow> active l"
  by (auto simp: expire_lease_def split: if_splits)

lemma expire_leases_ok: "leases_ok L st \<Longrightarrow> leases_ok L (expire_leases t st)"
  by (auto simp: leases_ok_def expire_leases_def)

lemma expire_leases_simps [simp]:
  "max_leases (expire_leases t st) = max_leases st" "first_client_addr (expire_leases t st) = first_client_addr st"
  "server_ip (expire_leases t st) = server_ip st" "server_netmask (expire_leases t st) = server_netmask st"
  "router (expire_leases t st) = router st" "dns (expire_leases t st) = dns st"
  "length (leases (expire_leases t st)) = length (leases st)"
  by (simp_all add: expire_leases_def)

lemma ip4_network: "a div 256 mod 16777216 = ip4_addr1 a * 65536 + ip4_addr2 a * 256 + ip4_addr3 a"
proof -
  have "a div 256 mod (256 * 65536) = 256 * (a div 256 div 256 mod 65536) + a div 256 mod 256" by (rule mod_mult2_eq)
  also have "a div 256 div 256 = a div 65536" using div_mult2_eq [of a 256 256] by simp
  also have "a div 65536 mod 65536 = a div 65536 mod (256 * 256)" by simp
  also have "\<dots> = 256 * (a div 65536 div 256 mod 256) + a div 65536 mod 256" by (rule mod_mult2_eq)
  also have "a div 65536 div 256 = a div 16777216" using div_mult2_eq [of a 65536 256] by simp
  finally show ?thesis by (simp add: ip4_addr1_def ip4_addr2_def ip4_addr3_def)
qed

text \<open>All ways a request can end.\<close>

lemma handle_dhcp_request_cases:
  assumes "handle_dhcp_request L junk t st msg = (st', out)"
  obtains (ignored) "st' = st" "out = []"
  | (nak) "st' = st" "out = send_dhcp_nak L st msg"
  | (ack) ip i hw where "requested_address L msg junk = Some ip" "i < max_leases st"
      "ip div 256 mod 16777216 = first_client_addr st div 256 mod 16777216"
      "ip mod 256 = first_client_addr st mod 256 + i"
      "\<not> active (leases st ! i) \<or> take (unat (hlen msg)) (hwaddr (leases st ! i)) = take (unat (hlen msg)) (chaddr msg)"
      "hw = take (unat (hlen msg)) (chaddr msg) @ drop (unat (hlen msg)) (hwaddr (leases st ! i))"
      "unat (hlen msg) \<le> NETIF_MAX_HWADDR_LEN L"
      "st' = st\<lparr>leases := (leases st)[i := \<lparr>hwaddr = hw, active = True,
         expires = u32 (t + DHCPSERVER_LEASE_TIME * configTICK_RATE_HZ)\<rparr>]\<rparr>"
      "out = [Station_info hw ip, Send (ack_message L st' msg ip)]"
proof -
  let ?first = "first_client_addr st"
  show thesis
  proof (cases "st' = st \<and> (out = [] \<or> out = send_dhcp_nak L st msg)")
    case True
    then show thesis using ignored nak by blast
  next
    case False
    then obtain ip where 1: "requested_address L msg junk = Some ip" "unat (hlen msg) \<le> NETIF_MAX_HWADDR_LEN L"
      using assms by (auto simp: handle_dhcp_request_def Let_def split: if_splits option.splits)
    let ?o = "int (ip4_addr4 ip) - int (ip4_addr4 ?first)"
    have 2: "ip4_addr1 ip = ip4_addr1 ?first" "ip4_addr2 ip = ip4_addr2 ?first" "ip4_addr3 ip = ip4_addr3 ?first"
      "0 \<le> ?o" "?o < int (max_leases st)"
      using assms False 1 by (auto simp: handle_dhcp_request_def Let_def split: if_splits)
    define i where "i = nat ?o"
    have i: "i < max_leases st" "ip mod 256 = ?first mod 256 + i" using 2(4,5) by (auto simp: i_def ip4_addr4_def)
    have "ip div 256 mod 16777216 = ?first div 256 mod 16777216"
      using 2(1-3) by (simp only: ip4_network)
    moreover have "\<not> active (leases st ! i) \<or> take (unat (hlen msg)) (hwaddr (leases st ! i)) = take (unat (hlen msg)) (chaddr msg)"
      using assms False 1 2 by (auto simp: handle_dhcp_request_def Let_def i_def split: if_splits)
    moreover define hw where "hw = take (unat (hlen msg)) (chaddr msg) @ drop (unat (hlen msg)) (hwaddr (leases st ! i))"
    moreover have st': "st' = st\<lparr>leases := (leases st)[i := \<lparr>hwaddr = hw, active = True,
         expires = u32 (t + DHCPSERVER_LEASE_TIME * configTICK_RATE_HZ)\<rparr>]\<rparr>"
      using assms False 1 2 by (auto simp: handle_dhcp_request_def Let_def i_def hw_def split: if_splits)
    moreover have "out = [Station_info hw ip, Send (ack_message L st' msg ip)]"
      using assms False 1 2 by (auto simp: handle_dhcp_request_def Let_def i_def hw_def split: if_splits)
    ultimately show thesis using ack 1 i by blast
  qed
qed

section \<open>Messages the server sends\<close>

definition router_dns_tlvs :: "lwip_dhcp \<Rightarrow> server_state \<Rightarrow> tlv list" where
  "router_dns_tlvs L st = (if router st \<noteq> 0 then [(DHCP_OPTION_ROUTER L, be32 (router st))] else [])
     @ (if dns st \<noteq> 0 then [(DHCP_OPTION_DNS_SERVER L, be32 (dns st))] else [])"

lemma be32_props [simp]: "length (be32 n) = 4" "be32 n \<noteq> []"
  by (simp_all add: be32_def)

lemma rd_be32_be32: "n < 2 ^ 32 \<Longrightarrow> rd_be32 (be32 n) = n"
proof -
  assume n: "n < 2 ^ 32"
  have "n = n mod 256 + 256 * (n div 256)" by simp
  moreover have "n div 256 = n div 256 mod 256 + 256 * (n div 65536)"
    using mult_div_mod_eq [of 256 "n div 256"] div_mult2_eq [of n 256 256] by simp
  moreover have "n div 65536 = n div 65536 mod 256 + 256 * (n div 16777216)"
    using mult_div_mod_eq [of 256 "n div 65536"] div_mult2_eq [of n 65536 256] by simp
  moreover have "n div 16777216 mod 256 = n div 16777216" using n by simp
  ultimately have "n div 16777216 mod 256 * 16777216 + n div 65536 mod 256 * 65536 + n div 256 mod 256 * 256 + n mod 256 = n"
    by linarith
  then show ?thesis using n by (simp add: rd_be32_def be32_def unat_word8_of_nat)
qed

lemma built_router_dns:
  assumes "built ts o0" "length (enc ts) + 12 \<le> DHCP_OPTIONS_LEN"
  shows "built (ts @ router_dns_tlvs L st) (add_router_dns L st o0)"
proof -
  have "built (ts @ [(t, be32 a)] @ [(u, be32 b)]) (add_dhcp_option_bytes u (be32 b) (add_dhcp_option_bytes t (be32 a) o0))"
    "built (ts @ [(t, be32 a)]) (add_dhcp_option_bytes t (be32 a) o0)" for t a u b
    using assms built_bytes [of ts o0 "be32 a" t] built_bytes [of "ts @ [(t, be32 a)]" _ "be32 b" u] by simp_all
  then show ?thesis using assms(1) by (simp add: add_router_dns_def router_dns_tlvs_def Let_def)
qed

definition ack_tlvs :: "lwip_dhcp \<Rightarrow> server_state \<Rightarrow> tlv list" where
  "ack_tlvs L st = [(DHCP_OPTION_MESSAGE_TYPE L, [DHCP_ACK L]), (DHCP_OPTION_LEASE_TIME L, be32 DHCPSERVER_LEASE_TIME),
     (DHCP_OPTION_SERVER_ID L, be32 (server_ip st)), (DHCP_OPTION_SUBNET_MASK L, be32 (server_netmask st))]
     @ router_dns_tlvs L st"

definition offer_tlvs :: "lwip_dhcp \<Rightarrow> server_state \<Rightarrow> tlv list" where
  "offer_tlvs L st = [(DHCP_OPTION_MESSAGE_TYPE L, [DHCP_OFFER L]), (DHCP_OPTION_SERVER_ID L, be32 (server_ip st)),
     (DHCP_OPTION_SUBNET_MASK L, be32 (server_netmask st))]
     @ router_dns_tlvs L st @ [(DHCP_OPTION_LEASE_TIME L, be32 DHCPSERVER_LEASE_TIME)]"

definition nak_tlvs :: "lwip_dhcp \<Rightarrow> server_state \<Rightarrow> tlv list" where
  "nak_tlvs L st = [(DHCP_OPTION_MESSAGE_TYPE L, [DHCP_NAK L]), (DHCP_OPTION_SERVER_ID L, be32 (server_ip st))]"

lemma length_router_dns: "length (enc (router_dns_tlvs L st)) \<le> 12"
  by (simp add: router_dns_tlvs_def)

lemma ack_options:
  "options (ack_message L st msg ip) = enc (ack_tlvs L st) @ DHCP_OPTION_END L # replicate (311 - length (enc (ack_tlvs L st))) 0"
proof -
  note b = built_byte [OF built_empty, of "DHCP_OPTION_MESSAGE_TYPE L" "DHCP_ACK L"]
  note b = built_bytes [OF b, of "be32 DHCPSERVER_LEASE_TIME" "DHCP_OPTION_LEASE_TIME L"]
  note b = built_bytes [OF b, of "be32 (server_ip st)" "DHCP_OPTION_SERVER_ID L"]
  note b = built_bytes [OF b, of "be32 (server_netmask st)" "DHCP_OPTION_SUBNET_MASK L"]
  note b = built_router_dns [OF b, of L st]
  note b = built_end [OF b, of "DHCP_OPTION_END L"]
  show ?thesis
    using b length_router_dns [of L st] by (simp add: ack_message_def Let_def DHCP_OPTIONS_LEN_def ack_tlvs_def)
qed

lemma offer_options:
  assumes "handle_dhcp_discover L st msg = [Send m]"
  shows "options m = enc (offer_tlvs L st) @ DHCP_OPTION_END L # replicate (311 - length (enc (offer_tlvs L st))) 0"
proof -
  note b = built_byte [OF built_empty, of "DHCP_OPTION_MESSAGE_TYPE L" "DHCP_OFFER L"]
  note b = built_bytes [OF b, of "be32 (server_ip st)" "DHCP_OPTION_SERVER_ID L"]
  note b = built_bytes [OF b, of "be32 (server_netmask st)" "DHCP_OPTION_SUBNET_MASK L"]
  note b = built_router_dns [OF b, of L st]
  note b = built_bytes [OF b, of "be32 DHCPSERVER_LEASE_TIME" "DHCP_OPTION_LEASE_TIME L"]
  note b = built_end [OF b, of "DHCP_OPTION_END L"]
  show ?thesis
    using assms b length_router_dns [of L st]
    by (auto simp: handle_dhcp_discover_def Let_def DHCP_OPTIONS_LEN_def offer_tlvs_def split: if_splits option.splits)
qed

lemma nak_options:
  "\<exists>m. send_dhcp_nak L st msg = [Send m]
    \<and> options m = enc (nak_tlvs L st) @ DHCP_OPTION_END L # replicate (311 - length (enc (nak_tlvs L st))) 0"
proof -
  note b = built_byte [OF built_empty, of "DHCP_OPTION_MESSAGE_TYPE L" "DHCP_NAK L"]
  note b = built_bytes [OF b, of "be32 (server_ip st)" "DHCP_OPTION_SERVER_ID L"]
  note b = built_end [OF b, of "DHCP_OPTION_END L"]
  show ?thesis using b by (simp add: send_dhcp_nak_def Let_def DHCP_OPTIONS_LEN_def nak_tlvs_def)
qed

section \<open>The table and what clients were told\<close>

text \<open>The hardware address that was last reported for an address.\<close>

fun assigned :: "dhcp_output list \<Rightarrow> nat \<Rightarrow> byte list option" where
  "assigned [] ip = None"
| "assigned (Send m # out) ip = assigned out ip"
| "assigned (Station_info hw a # out) ip =
     (case assigned out ip of Some h \<Rightarrow> Some h | None \<Rightarrow> if a = ip then Some hw else None)"

lemma assigned_append:
  "assigned (tr @ out) ip = (case assigned out ip of Some h \<Rightarrow> Some h | None \<Rightarrow> assigned tr ip)"
  by (induction tr ip rule: assigned.induct) (auto split: option.splits)

lemma assigned_sends [simp]: "assigned (send_dhcp_nak L st msg) ip = None" "assigned (handle_dhcp_discover L st msg) ip = None"
  by (auto simp: send_dhcp_nak_def handle_dhcp_discover_def Let_def split: option.splits)

definition table_told :: "server_state \<Rightarrow> dhcp_output list \<Rightarrow> bool" where
  "table_told st tr \<longleftrightarrow> (\<forall>i < max_leases st. active (leases st ! i) \<longrightarrow>
     assigned tr (first_client_addr st + i) = Some (hwaddr (leases st ! i)))"

definition serving :: "lwip_dhcp \<Rightarrow> server_state \<Rightarrow> dhcp_output list \<Rightarrow> bool" where
  "serving L st tr \<longleftrightarrow> leases_ok L st \<and> first_client_addr st < 2 ^ 32 \<and> table_told st tr"

lemma rd_be32_lt: "rd_be32 bs < 2 ^ 32"
proof -
  have "unat (bs ! 0) < 256" "unat (bs ! 1) < 256" "unat (bs ! 2) < 256" "unat (bs ! 3) < 256" by simp_all
  then have "rd_be32 bs < 4294967296" unfolding rd_be32_def by linarith
  then show ?thesis by simp
qed

lemma requested_address_lt: "requested_address L msg junk = Some ip \<Longrightarrow> ciaddr msg < 2 ^ 32 \<Longrightarrow> ip < 2 ^ 32"
  using rd_be32_lt by (auto simp: requested_address_def split: option.splits if_splits)

lemma same_network:
  fixes a b i :: nat
  assumes "a < 2 ^ 32" "b < 2 ^ 32" "a div 256 mod 16777216 = b div 256 mod 16777216" "a mod 256 = b mod 256 + i"
  shows "a = b + i"
proof -
  have "a div 256 = b div 256" using assms(1-3) by simp
  then show ?thesis using assms(4) div_mult_mod_eq [of a 256] div_mult_mod_eq [of b 256] by linarith
qed

lemma leases_ok_update:
  "leases_ok L st \<Longrightarrow> length (hwaddr l) = NETIF_MAX_HWADDR_LEN L \<Longrightarrow> expires l < 2 ^ 32 \<Longrightarrow>
    leases_ok L (st\<lparr>leases := (leases st)[i := l]\<rparr>)"
  using set_update_subset_insert [of "leases st" i l] by (auto simp: leases_ok_def)

lemma expire_serving: "serving L st tr \<Longrightarrow> serving L (expire_leases t st) tr"
  by (auto simp: serving_def expire_leases_ok table_told_def leases_ok_def expire_leases_def)

lemma request_serving:
  assumes "serving L st tr" "msg_ok msg" "NETIF_MAX_HWADDR_LEN L \<le> 16" "handle_dhcp_request L junk t st msg = (st', out)"
  shows "serving L st' (tr @ out)"
  using assms(4)
proof (cases rule: handle_dhcp_request_cases)
  case (ack ip i hw)
  have len: "i < length (leases st)" "length (hwaddr (leases st ! i)) = NETIF_MAX_HWADDR_LEN L"
    using assms(1) ack(2) by (auto simp: serving_def leases_ok_def)
  have ip: "ip = first_client_addr st + i"
    using assms(1,2) by (intro same_network [OF requested_address_lt [OF ack(1)] _ ack(3,4)])
      (simp_all add: serving_def msg_ok_def)
  have "length hw = NETIF_MAX_HWADDR_LEN L" using ack(6,7) len assms(2,3) by (simp add: msg_ok_def)
  then have "leases_ok L st'"
    using assms(1) unfolding ack(8) serving_def by (intro leases_ok_update) simp_all
  moreover have "table_told st' (tr @ out)"
    unfolding table_told_def
  proof (intro allI impI)
    fix j
    assume j: "j < max_leases st'" "active (leases st' ! j)"
    have out: "assigned out a = (if a = first_client_addr st + i then Some hw else None)" for a using ack(9) ip by simp
    show "assigned (tr @ out) (first_client_addr st' + j) = Some (hwaddr (leases st' ! j))"
    proof (cases "j = i")
      case True
      then show ?thesis using out len(1) by (simp add: ack(8) assigned_append)
    next
      case False
      then show ?thesis using out j assms(1) by (simp add: ack(8) assigned_append serving_def table_told_def)
    qed
  qed
  ultimately show ?thesis using assms(1) ack(8) by (simp add: serving_def)
qed (use assms(1) in \<open>auto simp: serving_def table_told_def assigned_append\<close>)

lemma release_serving:
  assumes "serving L st tr" shows "serving L (handle_dhcp_release st msg) tr"
proof (cases "find_lease_slot st (chaddr msg)")
  case (Some i)
  then have "i < length (leases st)" using assms find_lease_slot_Some(1) by (auto simp: serving_def leases_ok_def)
  then show ?thesis
    using assms Some leases_ok_update [of L st "(leases st ! i)\<lparr>active := False, expires := 0\<rparr>" i]
    by (auto simp: handle_dhcp_release_def serving_def table_told_def nth_list_update leases_ok_def [of L st])
qed (use assms in \<open>simp add: handle_dhcp_release_def\<close>)

lemma dhcpserver_turn_cases:
  "dhcpserver_turn L ev st \<in> {(st, []), (expire_leases (now ev) st, []),
     (expire_leases (now ev) st, handle_dhcp_discover L (expire_leases (now ev) st) (received ev)),
     handle_dhcp_request L (stack_ip ev) (now_request ev) (expire_leases (now ev) st) (received ev),
     (handle_dhcp_release (expire_leases (now ev) st) (received ev), [])}"
  by (simp add: dhcpserver_turn_def Let_def split: option.split)

lemma turn_serving:
  assumes "serving L st tr" "event_ok ev" "NETIF_MAX_HWADDR_LEN L \<le> 16" "dhcpserver_turn L ev st = (st', out)"
  shows "serving L st' (tr @ out)"
proof -
  let ?st = "expire_leases (now ev) st"
  have msg: "msg_ok (received ev)" using assms(2) by (simp add: event_ok_def)
  have s: "serving L ?st tr" using assms(1) by (rule expire_serving)
  have sends: "serving L ?st (tr @ handle_dhcp_discover L ?st m)" for m
    using s by (simp add: serving_def table_told_def assigned_append)
  have rel: "serving L (handle_dhcp_release ?st m) tr" for m using s by (rule release_serving)
  consider "st' = st" "out = []" | "st' = ?st" "out = []" | "st' = ?st" "out = handle_dhcp_discover L ?st (received ev)"
    | "handle_dhcp_request L (stack_ip ev) (now_request ev) ?st (received ev) = (st', out)"
    | "st' = handle_dhcp_release ?st (received ev)" "out = []"
    using dhcpserver_turn_cases [of L ev st] unfolding assms(4) by force
  then show ?thesis
  proof cases
    case 4
    then show ?thesis by (rule request_serving [OF s msg assms(3)])
  qed (use assms(1) s sends rel in simp_all)
qed

lemma fresh_serving:
  assumes "first < 2 ^ 32"
  shows "serving L \<lparr>nc = c, max_leases = n, first_client_addr = first, server_ip = a, server_netmask = m,
     leases = replicate n (empty_lease L), router = r, dns = d\<rparr> []"
  using assms by (auto simp: serving_def leases_ok_def table_told_def empty_lease_def)

section \<open>Offers are acknowledged\<close>

lemma same_octets:
  assumes "a mod 256 + i < (256 :: nat)"
  shows "ip4_addr1 (a + i) = ip4_addr1 a" "ip4_addr2 (a + i) = ip4_addr2 a" "ip4_addr3 (a + i) = ip4_addr3 a"
    "ip4_addr4 (a + i) = ip4_addr4 a + i"
proof -
  have "a + i = a div 256 * 256 + (a mod 256 + i)" by simp
  then have d: "(a + i) div 256 = a div 256" "(a + i) mod 256 = a mod 256 + i"
    using assms by (metis div_mult_self3 div_less add_0_right zero_neq_numeral add.commute, metis mod_mult_self3 mod_less)
  have q: "x div 65536 = x div 256 div 256" "x div 16777216 = x div 256 div 65536" for x :: nat
    using div_mult2_eq [of x 256 256] div_mult2_eq [of x 256 65536] by simp_all
  show "ip4_addr1 (a + i) = ip4_addr1 a" "ip4_addr2 (a + i) = ip4_addr2 a" "ip4_addr3 (a + i) = ip4_addr3 a"
    "ip4_addr4 (a + i) = ip4_addr4 a + i"
    unfolding ip4_addr1_def ip4_addr2_def ip4_addr3_def ip4_addr4_def q d by (rule refl)+
qed

lemma request_acknowledged:
  assumes "htype msg = LWIP_IANA_HWTYPE_ETHERNET L" "unat (hlen msg) \<le> NETIF_MAX_HWADDR_LEN L"
    and "requested_address L msg junk = Some (first_client_addr st + i)" "i < max_leases st"
    and "first_client_addr st mod 256 + i < 256"
    and "active (leases st ! i) \<Longrightarrow> take (unat (hlen msg)) (hwaddr (leases st ! i)) = take (unat (hlen msg)) (chaddr msg)"
  shows "\<exists>st' hw. handle_dhcp_request L junk t st msg
      = (st', [Station_info hw (first_client_addr st + i), Send (ack_message L st' msg (first_client_addr st + i))])
    \<and> hw = take (unat (hlen msg)) (chaddr msg) @ drop (unat (hlen msg)) (hwaddr (leases st ! i))
    \<and> leases st' = (leases st)[i := \<lparr>hwaddr = hw, active = True,
         expires = u32 (t + DHCPSERVER_LEASE_TIME * configTICK_RATE_HZ)\<rparr>]"
  using assms same_octets [OF assms(5)] by (auto simp: handle_dhcp_request_def Let_def)

lemma discover_offers:
  assumes "handle_dhcp_discover L st msg = [Send offer]"
  obtains i where "find_lease_slot st (chaddr msg) = Some i" "yiaddr offer = u32 (first_client_addr st + i)"
  using assms by (auto simp: handle_dhcp_discover_def Let_def split: if_splits option.splits)

text \<open>A client message of a type that reaches its handler.\<close>

definition delivers :: "lwip_dhcp \<Rightarrow> dhcp_event \<Rightarrow> byte \<Rightarrow> bool" where
  "delivers L ev m \<longleftrightarrow> recv_ok ev \<and> dhcp_options_offset L \<le> netbuf_len ev \<and> message_type L (received ev) = Some m"

lemma turn_discover:
  "documented L \<Longrightarrow> delivers L ev (DHCP_DISCOVER L) \<Longrightarrow>
    dhcpserver_turn L ev st = (expire_leases (now ev) st, handle_dhcp_discover L (expire_leases (now ev) st) (received ev))"
  by (simp add: dhcpserver_turn_def delivers_def Let_def)

lemma turn_request:
  "documented L \<Longrightarrow> delivers L ev (DHCP_REQUEST L) \<Longrightarrow>
    dhcpserver_turn L ev st = handle_dhcp_request L (stack_ip ev) (now_request ev) (expire_leases (now ev) st) (received ev)"
  by (simp add: dhcpserver_turn_def delivers_def documented_simps)

section \<open>Properties\<close>

text \<open>
  C17. DISCOVER, OFFER, REQUEST, ACK: when the server answers a DISCOVER with an offer and the very
  next message is the request of the same client, with a six byte Ethernet address, for the offered
  address, the server acknowledges exactly this address and records it in the table for this client,
  provided the addresses of the pool do not leave the last octet. (An offer is not reserved: after a
  message in between the address may be gone. Beyond the last octet the offered address is refused:
  \<open>offer_beyond_octet_refused\<close>.)
\<close>

theorem offered_address_is_acknowledged:
  assumes "documented L" "leases_ok L st" "first_client_addr st < 2 ^ 32"
    and "first_client_addr st mod 256 + max_leases st \<le> 256"
    and "delivers L ev1 (DHCP_DISCOVER L)" "dhcpserver_turn L ev1 st = (st1, [Send offer])"
    and "delivers L ev2 (DHCP_REQUEST L)" "event_ok ev2" "htype (received ev2) = LWIP_IANA_HWTYPE_ETHERNET L"
    and "hlen (received ev2) = 6" "chaddr (received ev2) = chaddr (received ev1)"
    and "requested_address L (received ev2) (stack_ip ev2) = Some (yiaddr offer)"
  shows "\<exists>i st2. i < max_leases st \<and> yiaddr offer = first_client_addr st + i
    \<and> dhcpserver_turn L ev2 st1 = (st2, [Station_info (take 6 (chaddr (received ev1))) (yiaddr offer),
        Send (ack_message L st2 (received ev2) (yiaddr offer))])
    \<and> active (leases st2 ! i) \<and> hwaddr (leases st2 ! i) = take 6 (chaddr (received ev1))"
proof -
  have st1: "st1 = expire_leases (now ev1) st" "handle_dhcp_discover L st1 (received ev1) = [Send offer]"
    using assms(6) unfolding turn_discover [OF assms(1,5)] by auto
  have ok1: "leases_ok L st1" using expire_leases_ok [OF assms(2)] st1(1) by simp
  obtain i where i: "find_lease_slot st1 (chaddr (received ev1)) = Some i" "yiaddr offer = u32 (first_client_addr st + i)"
    using discover_offers [OF st1(2)] st1(1) by auto
  let ?st2 = "expire_leases (now ev2) st1"
  have i2: "i < max_leases st" "active (leases ?st2 ! i) \<Longrightarrow> take 6 (hwaddr (leases ?st2 ! i)) = take 6 (chaddr (received ev1))"
    "length (hwaddr (leases ?st2 ! i)) = 6" "i < length (leases st1)"
    using find_lease_slot_Some [OF i(1)] ok1 st1(1) by (auto simp: leases_ok_def expire_leases_def documented_simps [OF assms(1)])
  have octet: "first_client_addr st mod 256 + i < 256" using assms(4) i2(1) by simp
  have "first_client_addr st div 256 < 16777216" using assms(3) by (simp add: less_mult_imp_div_less)
  then have "first_client_addr st + i < 4294967296"
    using octet div_mult_mod_eq [of "first_client_addr st" 256] by linarith
  then have ip: "yiaddr offer = first_client_addr st + i" using i(2) by simp
  have six: "unat (hlen (received ev2)) = 6" using assms(10) by simp
  obtain st2 hw where "handle_dhcp_request L (stack_ip ev2) (now_request ev2) ?st2 (received ev2)
      = (st2, [Station_info hw (yiaddr offer), Send (ack_message L st2 (received ev2) (yiaddr offer))])"
    "hw = take 6 (chaddr (received ev1)) @ drop 6 (hwaddr (leases ?st2 ! i))"
    "leases st2 = (leases ?st2)[i := \<lparr>hwaddr = hw, active = True,
         expires = u32 (now_request ev2 + DHCPSERVER_LEASE_TIME * configTICK_RATE_HZ)\<rparr>]"
    using request_acknowledged [of "received ev2" L "stack_ip ev2" ?st2 i "now_request ev2"] assms(9,11,12) six ip octet i2 st1(1)
    by (auto simp: documented_simps [OF assms(1)])
  then show ?thesis
    using i2 ip st1(1) turn_request [OF assms(1,7), of st1] by (intro exI [of _ i] exI [of _ st2]) simp
qed

text \<open>A pool of two addresses from 192.168.1.2 on, and the two messages of a client.\<close>

definition sample_L :: lwip_dhcp where
  "sample_L = \<lparr>DHCP_BOOTREPLY = 2, DHCP_DISCOVER = 1, DHCP_OFFER = 2, DHCP_REQUEST = 3, DHCP_ACK = 5,
     DHCP_NAK = 6, DHCP_RELEASE = 7, DHCP_OPTION_SUBNET_MASK = 1, DHCP_OPTION_ROUTER = 3,
     DHCP_OPTION_DNS_SERVER = 6, DHCP_OPTION_REQUESTED_IP = 50, DHCP_OPTION_LEASE_TIME = 51,
     DHCP_OPTION_MESSAGE_TYPE = 53, DHCP_OPTION_MESSAGE_TYPE_LEN = 1, DHCP_OPTION_SERVER_ID = 54,
     DHCP_OPTION_END = 255, LWIP_IANA_HWTYPE_ETHERNET = 1, NETIF_MAX_HWADDR_LEN = 6, dhcp_options_offset = 240\<rparr>"

definition sample_server :: "nat \<Rightarrow> server_state" where
  "sample_server n = \<lparr>nc = True, max_leases = n, first_client_addr = 3232235778, server_ip = 3232235777,
     server_netmask = 4294967040, leases = replicate n (empty_lease sample_L), router = 0, dns = 0\<rparr>"

definition sample_msg :: "byte \<Rightarrow> nat \<Rightarrow> dhcp_msg" where
  "sample_msg m ip = \<lparr>op = 1, htype = 1, hlen = 6, ciaddr = ip, yiaddr = 0,
     chaddr = [2, 0, 0, 0, 0, 1] @ replicate 10 0, options = [53, 1, m, 255] @ replicate 308 0, other_fields = []\<rparr>"

definition sample_event :: "byte \<Rightarrow> nat \<Rightarrow> dhcp_event" where
  "sample_event m ip = \<lparr>recv_ok = True, netbuf_len = 300, received = sample_msg m ip, now = 1000, now_request = 1000, stack_ip = 0\<rparr>"

lemma replicate_small: "replicate 2 x = [x, x]" "replicate 3 x = [x, x, x]" "replicate 6 x = [x, x, x, x, x, x]"
  by (simp_all add: numeral_eq_Suc)

lemma sample_documented: "documented sample_L"
  by (simp add: documented_def sample_L_def)

lemma sample_delivers: "delivers sample_L (sample_event m ip) m"
proof -
  have "find_option_loop sample_L (options (sample_msg m ip)) 53 1 0 = Some (2, 1)"
    by (subst find_option_loop.simps) (simp add: sample_msg_def sample_L_def)
  then show ?thesis
    by (simp add: delivers_def sample_event_def message_type_def find_dhcp_option_def sample_msg_def sample_L_def)
qed

lemma sample_requested: "requested_address sample_L (sample_msg m ip) 0 = Some ip"
proof -
  have "find_option_loop sample_L (options (sample_msg m ip)) 50 4 0 = None"
    by (subst find_option_loop.simps, simp add: sample_msg_def sample_L_def, subst find_option_loop.simps, simp add: sample_L_def)
  then show ?thesis
    by (simp add: requested_address_def find_dhcp_option_def sample_msg_def sample_L_def)
qed

lemma sample_offer:
  "\<exists>offer. dhcpserver_turn sample_L (sample_event 1 0) (sample_server 2) = (sample_server 2, [Send offer])
    \<and> yiaddr offer = 3232235778"
proof -
  have "sample_event 1 0 = sample_event (DHCP_DISCOVER sample_L) 0" by (simp add: sample_L_def)
  moreover have "expire_leases 1000 (sample_server 2) = sample_server 2"
    by (simp add: expire_leases_def sample_server_def expire_lease_def empty_lease_def)
  moreover have "find_lease_slot (sample_server 2) (chaddr (sample_msg m ip)) = Some 0" for m ip
    by (simp add: find_lease_slot_def sample_server_def sample_msg_def empty_lease_def replicate_small sample_L_def)
  moreover have "htype (sample_msg m ip) = 1" "hlen (sample_msg m ip) = 6" "first_client_addr (sample_server 2) = 3232235778" for m ip
    by (simp_all add: sample_msg_def sample_server_def)
  moreover have "LWIP_IANA_HWTYPE_ETHERNET sample_L = 1" "NETIF_MAX_HWADDR_LEN sample_L = 6" by (simp_all add: sample_L_def)
  ultimately show ?thesis
    using turn_discover [OF sample_documented sample_delivers, of 0 "sample_server 2"]
    by (simp add: sample_event_def handle_dhcp_discover_def Let_def)
qed

theorem offered_address_is_acknowledged_witness:
  "\<exists>st2. dhcpserver_turn sample_L (sample_event 3 3232235778) (sample_server 2) =
    (st2, [Station_info [2, 0, 0, 0, 0, 1] 3232235778, Send (ack_message sample_L st2 (sample_msg 3 3232235778) 3232235778)])"
proof -
  obtain offer where o: "dhcpserver_turn sample_L (sample_event 1 0) (sample_server 2) = (sample_server 2, [Send offer])"
    "yiaddr offer = 3232235778" using sample_offer by blast
  have "DHCP_DISCOVER sample_L = 1" "DHCP_REQUEST sample_L = 3" by (simp_all add: sample_L_def)
  moreover have "leases_ok sample_L (sample_server 2)"
    by (simp add: leases_ok_def sample_server_def empty_lease_def)
  moreover have "event_ok (sample_event 3 3232235778)"
    by (simp add: event_ok_def msg_ok_def sample_event_def sample_msg_def DHCP_OPTIONS_LEN_def)
  ultimately show ?thesis
    using offered_address_is_acknowledged [OF sample_documented _ _ _ _ o(1), of "sample_event 3 3232235778"]
      sample_delivers [of 1 0] sample_delivers [of 3 3232235778] sample_requested [of 3 3232235778] o(2)
    by (auto simp: sample_event_def sample_server_def sample_msg_def sample_L_def)
qed

lemma same_upper_octets:
  fixes x y :: nat
  assumes "x < 2 ^ 32" "y < 2 ^ 32" "ip4_addr1 x = ip4_addr1 y" "ip4_addr2 x = ip4_addr2 y" "ip4_addr3 x = ip4_addr3 y"
  shows "x div 256 = y div 256"
proof -
  have d: "z div 65536 = z div 256 div 256" "z div 16777216 = z div 256 div 256 div 256" for z :: nat
    by (simp_all add: div_mult2_eq [symmetric])
  have "x div 16777216 < 256" "y div 16777216 < 256" using assms(1,2) by (simp_all add: less_mult_imp_div_less)
  then have "x div 256 div 256 div 256 = y div 256 div 256 div 256" using assms(3) unfolding ip4_addr1_def d by simp
  then have "x div 256 div 256 = y div 256 div 256"
    using assms(4) unfolding ip4_addr2_def d by (metis div_mult_mod_eq)
  then show ?thesis using assms(5) unfolding ip4_addr3_def by (metis div_mult_mod_eq)
qed

text \<open>
  An address of the pool beyond the last octet of the first one is offered, but the request for it
  is refused and nothing is recorded.
\<close>

theorem offer_beyond_octet_refused:
  assumes "documented L" "delivers L ev1 (DHCP_DISCOVER L)" "dhcpserver_turn L ev1 st = (st1, [Send offer])"
    and "find_lease_slot st1 (chaddr (received ev1)) = Some i" "256 \<le> first_client_addr st mod 256 + i" "first_client_addr st + i < 2 ^ 32"
    and "delivers L ev2 (DHCP_REQUEST L)" "htype (received ev2) = LWIP_IANA_HWTYPE_ETHERNET L" "hlen (received ev2) = 6"
    and "requested_address L (received ev2) (stack_ip ev2) = Some (yiaddr offer)"
  shows "dhcpserver_turn L ev2 st1 = (expire_leases (now ev2) st1, send_dhcp_nak L (expire_leases (now ev2) st1) (received ev2))"
proof -
  let ?f = "first_client_addr st"
  have st1: "st1 = expire_leases (now ev1) st" "handle_dhcp_discover L st1 (received ev1) = [Send offer]"
    using assms(3) unfolding turn_discover [OF assms(1,2)] by auto
  have ip: "yiaddr offer = ?f + i" using discover_offers [OF st1(2)] assms(4,6) st1(1) by fastforce
  have "?f div 256 \<noteq> (?f + i) div 256"
  proof
    assume "?f div 256 = (?f + i) div 256"
    then show False using assms(5) div_mult_mod_eq [of ?f 256] div_mult_mod_eq [of "?f + i" 256] mod_less_divisor [of 256 "?f + i"] by linarith
  qed
  then have "ip4_addr1 (?f + i) \<noteq> ip4_addr1 ?f \<or> ip4_addr2 (?f + i) \<noteq> ip4_addr2 ?f \<or> ip4_addr3 (?f + i) \<noteq> ip4_addr3 ?f"
    using same_upper_octets [of "?f + i" ?f] assms(6) by auto
  then show ?thesis
    using assms(8-10) ip st1(1) turn_request [OF assms(1,7), of st1] by (auto simp: handle_dhcp_request_def Let_def documented_simps [OF assms(1)])
qed

text \<open>
  C18. In every state the loop reaches from a table without leases, the table is well formed
  and the owner of every active lease is the hardware address that was reported last for its
  address.
\<close>

theorem table_agrees_with_reports:
  assumes "serves L st0 tr st" "leases_ok L st0" "first_client_addr st0 < 2 ^ 32" "\<forall>l \<in> set (leases st0). \<not> active l"
    and "NETIF_MAX_HWADDR_LEN L \<le> 16"
  shows "leases_ok L st \<and> (\<forall>i < max_leases st. active (leases st ! i) \<longrightarrow>
    assigned tr (first_client_addr st + i) = Some (hwaddr (leases st ! i)))"
proof -
  have "serving L st tr"
    using assms(1)
  proof (induction rule: serves.induct)
    case start
    then show ?case using assms(2-4) by (auto simp: serving_def table_told_def leases_ok_def)
  next
    case (turn tr st ev st' out)
    then show ?case using turn_serving assms(5) by blast
  qed
  then show ?thesis by (simp add: serving_def table_told_def)
qed

theorem table_agrees_with_reports_witness:
  "\<exists>st tr. serves sample_L (sample_server 2) tr st \<and> active (leases st ! 0)
    \<and> assigned tr 3232235778 = Some (hwaddr (leases st ! 0))"
proof -
  let ?ev = "sample_event 3 3232235778"
  obtain st2 where t: "dhcpserver_turn sample_L ?ev (sample_server 2) =
    (st2, [Station_info [2, 0, 0, 0, 0, 1] 3232235778, Send (ack_message sample_L st2 (sample_msg 3 3232235778) 3232235778)])"
    and a: "active (leases st2 ! 0)" "first_client_addr st2 = 3232235778" "max_leases st2 = 2"
  proof -
    have "expire_leases 1000 (sample_server 2) = sample_server 2"
      by (simp add: expire_leases_def sample_server_def expire_lease_def empty_lease_def)
    then have "dhcpserver_turn sample_L ?ev (sample_server 2) =
        handle_dhcp_request sample_L 0 1000 (sample_server 2) (sample_msg 3 3232235778)"
      using turn_request [OF sample_documented, of ?ev "sample_server 2"] sample_delivers [of 3 3232235778]
      by (simp add: sample_event_def sample_L_def)
    then show ?thesis
      using that sample_requested [of 3 3232235778]
      by (simp add: handle_dhcp_request_def Let_def sample_msg_def sample_L_def sample_server_def empty_lease_def
          ip4_addr1_def ip4_addr2_def ip4_addr3_def ip4_addr4_def replicate_small)
  qed
  have ok: "event_ok ?ev" by (simp add: event_ok_def msg_ok_def sample_event_def sample_msg_def DHCP_OPTIONS_LEN_def)
  let ?tr = "[Station_info [2, 0, 0, 0, 0, 1] 3232235778, Send (ack_message sample_L st2 (sample_msg 3 3232235778) 3232235778)]"
  have s: "serves sample_L (sample_server 2) ?tr st2" using serves.turn [OF serves.start ok t] by simp
  have "leases_ok sample_L (sample_server 2)" "\<forall>l \<in> set (leases (sample_server 2)). \<not> active l"
    "first_client_addr (sample_server 2) < 2 ^ 32" "NETIF_MAX_HWADDR_LEN sample_L \<le> 16"
    by (simp_all add: leases_ok_def sample_server_def empty_lease_def sample_L_def)
  then have "\<forall>i < max_leases st2. active (leases st2 ! i) \<longrightarrow>
      assigned ?tr (first_client_addr st2 + i) = Some (hwaddr (leases st2 ! i))"
    using table_agrees_with_reports [OF s] by simp
  from this [rule_format, of 0] have "assigned ?tr 3232235778 = Some (hwaddr (leases st2 ! 0))" using a by simp
  then show ?thesis using s a(1) by blast
qed

text \<open>
  C19. While a lease is active and has not expired, no message of a client with a six byte
  address changes its owner or reports its address for another client.
\<close>

theorem lease_is_exclusive:
  assumes "documented L" "leases_ok L st" "first_client_addr st < 2 ^ 32" "event_ok ev" "hlen (received ev) = 6"
    and "i < max_leases st" "active (expire_lease (now ev) (leases st ! i))" "dhcpserver_turn L ev st = (st', out)"
  shows "hwaddr (leases st' ! i) = hwaddr (leases st ! i)
    \<and> (\<forall>hw. Station_info hw (first_client_addr st + i) \<in> set out \<longrightarrow> hw = hwaddr (leases st ! i))"
proof -
  let ?st = "expire_leases (now ev) st"
  have st: "hwaddr (leases ?st ! i) = hwaddr (leases st ! i)" "active (leases ?st ! i)" "i < length (leases ?st)"
    using assms(2,6,7) by (auto simp: expire_leases_def leases_ok_def)
  have rel: "hwaddr (leases (handle_dhcp_release ?st m) ! i) = hwaddr (leases st ! i)" for m
  proof (cases "find_lease_slot ?st (chaddr m)")
    case (Some j)
    then show ?thesis using st by (cases "j = i") (simp_all add: handle_dhcp_release_def)
  qed (use st in \<open>simp add: handle_dhcp_release_def\<close>)
  have nak: "Station_info hw a \<notin> set (send_dhcp_nak L s m)" "Station_info hw a \<notin> set (handle_dhcp_discover L s m)" for hw a s m
    by (auto simp: send_dhcp_nak_def handle_dhcp_discover_def Let_def split: option.splits)
  have req: ?thesis if "handle_dhcp_request L (stack_ip ev) (now_request ev) ?st (received ev) = (st', out)"
    using that
  proof (cases rule: handle_dhcp_request_cases)
    case (ack ip j hw)
    have six: "unat (hlen (received ev)) = 6" using assms(5) by simp
    have ip: "ip = first_client_addr ?st + j"
      using assms(3,4) by (intro same_network [OF requested_address_lt [OF ack(1)] _ ack(3,4)])
        (simp_all add: event_ok_def msg_ok_def)
    have "leases_ok L ?st" using assms(2) by (rule expire_leases_ok)
    then have len: "length (hwaddr (leases ?st ! j)) = 6"
      using ack(2) by (auto simp: leases_ok_def documented_simps [OF assms(1)])
    have "j = i \<Longrightarrow> hw = hwaddr (leases st ! i)" using ack(5,6) st(1,2) six len by auto
    then show ?thesis using ack(8,9) ip st by (cases "j = i") auto
  qed (use st nak in auto)
  consider "st' = st" "out = []" | "st' = ?st" "out = []" | "st' = ?st" "out = handle_dhcp_discover L ?st (received ev)"
    | "handle_dhcp_request L (stack_ip ev) (now_request ev) ?st (received ev) = (st', out)"
    | "st' = handle_dhcp_release ?st (received ev)" "out = []"
    using dhcpserver_turn_cases [of L ev st] unfolding assms(8) by force
  then show ?thesis
  proof cases
    case 4
    then show ?thesis by (rule req)
  qed (use st rel nak in simp_all)
qed

text \<open>Another client holds the first address until tick 361000.\<close>

definition sample_taken :: server_state where
  "sample_taken = (sample_server 1)\<lparr>leases := [\<lparr>hwaddr = [2, 0, 0, 0, 0, 9], active = True, expires = 361000\<rparr>]\<rparr>"

theorem lease_is_exclusive_witness:
  "hwaddr (leases (fst (dhcpserver_turn sample_L (sample_event 3 3232235778) sample_taken)) ! 0) = [2, 0, 0, 0, 0, 9]"
proof -
  have "leases_ok sample_L sample_taken" by (simp add: leases_ok_def sample_taken_def sample_server_def sample_L_def)
  moreover have "event_ok (sample_event 3 3232235778)"
    by (simp add: event_ok_def msg_ok_def sample_event_def sample_msg_def DHCP_OPTIONS_LEN_def)
  moreover have "active (expire_lease (now (sample_event 3 3232235778)) (leases sample_taken ! 0))"
    by (simp add: expire_lease_def sample_taken_def sample_event_def)
  ultimately show ?thesis
    using lease_is_exclusive [OF sample_documented, of sample_taken "sample_event 3 3232235778" 0
        "fst (dhcpserver_turn sample_L (sample_event 3 3232235778) sample_taken)"
        "snd (dhcpserver_turn sample_L (sample_event 3 3232235778) sample_taken)"]
    by (simp add: sample_taken_def sample_server_def sample_event_def sample_msg_def)
qed

text \<open>
  Every option of the replies is found by \<open>find_dhcp_option\<close> with the value the server
  meant: message type, lease time, server, netmask, and router and DNS server when they are
  configured, in the ACK and in the OFFER.
\<close>

theorem replies_are_readable:
  assumes "documented L" "m = ack_message L st msg ip \<and> k = DHCP_ACK L \<or> handle_dhcp_discover L st msg = [Send m] \<and> k = DHCP_OFFER L"
  shows "message_type L m = Some k
    \<and> option_value L m (DHCP_OPTION_LEASE_TIME L) 4 = Some (be32 DHCPSERVER_LEASE_TIME)
    \<and> option_value L m (DHCP_OPTION_SERVER_ID L) 4 = Some (be32 (server_ip st))
    \<and> option_value L m (DHCP_OPTION_SUBNET_MASK L) 4 = Some (be32 (server_netmask st))
    \<and> option_value L m (DHCP_OPTION_ROUTER L) 4 = (if router st = 0 then None else Some (be32 (router st)))
    \<and> option_value L m (DHCP_OPTION_DNS_SERVER L) 4 = (if dns st = 0 then None else Some (be32 (dns st)))"
proof -
  note D = documented_simps [OF assms(1)]
  define ts where "ts = (if k = DHCP_ACK L then ack_tlvs L st else offer_tlvs L st)"
  have "options m = enc ts @ DHCP_OPTION_END L # replicate (311 - length (enc ts)) 0"
    using assms(2) ack_options [of L st msg ip] offer_options [of L st msg m] by (auto simp: ts_def D)
  moreover have "length (enc ts) \<le> 33"
    using length_router_dns [of L st] by (simp add: ts_def ack_tlvs_def offer_tlvs_def)
  moreover have "\<And>t v. (t, v) \<in> set ts \<Longrightarrow> t \<noteq> DHCP_OPTION_END L \<and> length v < 256"
    by (auto simp: ts_def ack_tlvs_def offer_tlvs_def router_dns_tlvs_def D split: if_splits)
  ultimately have look: "option_value L m t n = map_of ts t"
    if "t \<noteq> DHCP_OPTION_END L" "\<And>v. map_of ts t = Some v \<Longrightarrow> n \<le> length v" for t n
    using that by (intro option_value_enc) auto
  have val: "map_of ts 53 = Some [k]" "map_of ts 51 = Some (be32 DHCPSERVER_LEASE_TIME)" "map_of ts 54 = Some (be32 (server_ip st))"
    "map_of ts 1 = Some (be32 (server_netmask st))"
    "map_of ts 3 = (if router st = 0 then None else Some (be32 (router st)))"
    "map_of ts 6 = (if dns st = 0 then None else Some (be32 (dns st)))"
    using assms(2) by (auto simp: ts_def ack_tlvs_def offer_tlvs_def router_dns_tlvs_def D)
  have "option_value L m 53 1 = Some [k]" using look [of 53 1] val(1) by (simp add: D)
  then have "message_type L m = Some k"
    by (auto simp: option_value_def message_type_def D split: option.splits intro: take_drop_Cons)
  then show ?thesis using look [of 51 4] look [of 54 4] look [of 1 4] look [of 3 4] look [of 6 4] val(2-6) by (auto simp: D)
qed

theorem replies_are_readable_witness:
  "option_value sample_L (ack_message sample_L (sample_server 2) (sample_msg 3 0) 3232235778) 54 4 = Some [192, 168, 1, 1]"
  using replies_are_readable [OF sample_documented, of _ "sample_server 2" "sample_msg 3 0" 3232235778 "DHCP_ACK sample_L"]
  by (simp add: sample_server_def sample_L_def be32_def)

text \<open>
  A lease granted at tick \<open>t\<close> is kept by the check at tick \<open>t'\<close> for 360000 ticks (one hour),
  also when the tick counter wraps in between, and dropped in the 2 ^ 31 ticks after that.
\<close>

theorem lease_lifetime:
  assumes "t < 2 ^ 32" "t' < 2 ^ 32" "l = \<lparr>hwaddr = hw, active = True, expires = u32 (t + DHCPSERVER_LEASE_TIME * configTICK_RATE_HZ)\<rparr>"
  shows "active (expire_lease t' l) \<longleftrightarrow> u32_sub t' t \<le> 360000 \<or> 360000 + 2 ^ 31 < u32_sub t' t"
proof -
  have sub: "u32_sub a b = (if b \<le> a then a - b else a + 4294967296 - b)" if "a < 4294967296" "b < 4294967296" for a b
    using that by (auto simp: u32_sub_def mod_if)
  define x where "x = u32 (t + 360000)"
  have x: "x = (if t + 360000 < 4294967296 then t + 360000 else t + 360000 - 4294967296)"
    using assms(1) by (simp add: x_def u32_def mod_if)
  have t: "t < 4294967296" "t' < 4294967296" "x < 4294967296" using assms(1,2) by (simp_all add: x_def)
  have "u32_sub x t' < 2147483648 \<longleftrightarrow> u32_sub t' t \<le> 360000 \<or> 2147843648 < u32_sub t' t"
    unfolding sub [OF t(3,2)] sub [OF t(2,1)] using x t
    by (cases "t + 360000 < 4294967296"; cases "t \<le> t'"; cases "t' \<le> x") auto
  moreover have "3600 * 100 = (360000 :: nat)" by simp
  then have "active (expire_lease t' l) \<longleftrightarrow> u32_sub x t' < 2147483648"
    unfolding assms(3) expire_lease_def DHCPSERVER_LEASE_TIME_def configTICK_RATE_HZ_def x_def by (simp only: if_distrib) (simp add: not_le)
  ultimately show ?thesis by simp
qed

theorem lease_lifetime_witness:
  "active (expire_lease 100 \<lparr>hwaddr = [], active = True, expires = u32 (4294967000 + DHCPSERVER_LEASE_TIME * configTICK_RATE_HZ)\<rparr>)"
  using lease_lifetime [of 4294967000 100 "\<lparr>hwaddr = [], active = True,
    expires = u32 (4294967000 + DHCPSERVER_LEASE_TIME * configTICK_RATE_HZ)\<rparr>" "[]"]
  by (simp add: u32_sub_def)

lemma sample_lease:
  assumes "first_client_addr st = 3232235778" "i < max_leases st" "i < 10" "hwaddr (leases st ! i) = hw" "length hw = 6"
    "\<not> active (leases st ! i)"
  shows "fst (handle_dhcp_request sample_L 0 0 st (sample_msg m (3232235778 + i)))
    = st\<lparr>leases := (leases st)[i := \<lparr>hwaddr = [2, 0, 0, 0, 0, 1], active = True, expires = 360000\<rparr>]\<rparr>"
proof -
  have m: "htype (sample_msg m ip) = 1" "hlen (sample_msg m ip) = 6" "take 6 (chaddr (sample_msg m ip)) = [2, 0, 0, 0, 0, 1]" for ip
    by (simp_all add: sample_msg_def)
  have "requested_address sample_L (sample_msg m (3232235778 + i)) 0 = Some (first_client_addr st + i)"
    using sample_requested assms(1) by simp
  then show ?thesis
    using assms same_octets [of "first_client_addr st" i] m
    by (simp add: handle_dhcp_request_def Let_def documented_simps [OF sample_documented] DHCPSERVER_LEASE_TIME_def configTICK_RATE_HZ_def)
qed

lemma sample_release:
  "handle_dhcp_release st (sample_msg m ip) =
     (case lease_slot_loop [2, 0, 0, 0, 0, 1] (take (max_leases st) (leases st)) 0 None of
        None \<Rightarrow> st
      | Some i \<Rightarrow> st\<lparr>leases := (leases st)[i := (leases st ! i)\<lparr>active := False, expires := 0\<rparr>]\<rparr>)"
proof -
  have "lease_slot_loop hw ls i e = lease_slot_loop hw' ls i e" if "take 6 hw = take 6 hw'" for hw hw' ls i e
    using that by (induction ls arbitrary: i e) simp_all
  from this [of "[2, 0, 0, 0, 0, 1] @ replicate 10 0" "[2, 0, 0, 0, 0, 1]"] show ?thesis
    by (simp add: handle_dhcp_release_def find_lease_slot_def sample_msg_def)
qed

text \<open>
  A release can miss the lease of the client: after a client has leased, released and
  leased another address, the entry that keeps its address from the first time is found
  before the active one, and the release leaves the active lease in place.
\<close>

theorem release_misses_lease:
  "let s1 = fst (handle_dhcp_request sample_L 0 0 (sample_server 3) (sample_msg 3 3232235779));
       s2 = handle_dhcp_release s1 (sample_msg 7 0);
       s3 = fst (handle_dhcp_request sample_L 0 0 s2 (sample_msg 3 3232235780));
       s4 = handle_dhcp_release s3 (sample_msg 7 0)
   in map active (leases s3) = [False, False, True] \<and> map active (leases s4) = [False, False, True]"
proof -
  let ?e = "empty_lease sample_L"
  let ?a = "\<lparr>hwaddr = [2, 0, 0, 0, 0, 1], active = True, expires = 360000\<rparr> :: dhcp_lease"
  let ?r = "\<lparr>hwaddr = [2, 0, 0, 0, 0, 1], active = False, expires = 0\<rparr> :: dhcp_lease"
  let ?s = "\<lambda>ls. (sample_server 3)\<lparr>leases := ls\<rparr>"
  have e: "hwaddr ?e = [0, 0, 0, 0, 0, 0]" "\<not> active ?e" by (simp_all add: empty_lease_def sample_L_def replicate_small)
  have s: "max_leases (?s ls) = 3" "first_client_addr (?s ls) = 3232235778" "leases (?s ls) = ls" for ls
    by (simp_all add: sample_server_def)
  have s0: "sample_server 3 = ?s [?e, ?e, ?e]" by (simp add: sample_server_def replicate_small)
  have 1: "fst (handle_dhcp_request sample_L 0 0 (sample_server 3) (sample_msg 3 3232235779)) = ?s [?e, ?a, ?e]"
    using sample_lease [of "?s [?e, ?e, ?e]" 1 _ 3] e s by (subst s0) simp
  have 2: "handle_dhcp_release (?s [?e, ?a, ?e]) (sample_msg 7 0) = ?s [?e, ?r, ?e]"
    using e by (simp add: sample_release s)
  have 3: "fst (handle_dhcp_request sample_L 0 0 (?s [?e, ?r, ?e]) (sample_msg 3 3232235780)) = ?s [?e, ?r, ?a]"
    using sample_lease [of "?s [?e, ?r, ?e]" 2 _ 3] e s by simp
  have 4: "handle_dhcp_release (?s [?e, ?r, ?a]) (sample_msg 7 0) = ?s [?e, ?r, ?a]"
    using e by (simp add: sample_release s)
  show ?thesis unfolding Let_def 1 2 3 4 using e by simp
qed

end
