(* ===== verification/Esp_timer.thy ===== *)
theory Esp_timer
  imports Prelude
begin

text \<open>
  The two hardware timers: \<open>src/core/esp_timer.c\<close>, the inline functions of
  \<open>src/core/include/esp/timer.h\<close> and the registers of \<open>esp/timer_regs.h\<close>. The registers are a record per
  timer; the counter moves with time, so it is read from the state as it is at that moment.
\<close>

section \<open>Registers\<close>

record timer_regs =
  LOAD :: nat
  COUNT :: nat
  CTRL :: "32 word"
  STATUS :: nat
  ALARM :: nat

datatype timer_frc = FRC1 | FRC2

text \<open>Both timers, the interrupt enable register of DPORT and the interrupt mask of the core.\<close>

record timers =
  regs :: "timer_frc \<Rightarrow> timer_regs"
  INT_ENABLE :: "32 word"
  int_mask :: "32 word"

definition TIMER_FRC1_MAX_LOAD :: nat where "TIMER_FRC1_MAX_LOAD = 0x7fffff"
definition TIMER_CTRL_CLKDIV_M :: "32 word" where "TIMER_CTRL_CLKDIV_M = 3"
definition TIMER_CTRL_CLKDIV_S :: nat where "TIMER_CTRL_CLKDIV_S = 2"
definition TIMER_CTRL_RELOAD :: "32 word" where "TIMER_CTRL_RELOAD = push_bit 6 1"
definition TIMER_CTRL_RUN :: "32 word" where "TIMER_CTRL_RUN = push_bit 7 1"
definition DPORT_INT_ENABLE_FRC1 :: "32 word" where "DPORT_INT_ENABLE_FRC1 = push_bit 1 1"
definition DPORT_INT_ENABLE_FRC2 :: "32 word" where "DPORT_INT_ENABLE_FRC2 = push_bit 2 1"
definition INUM_TIMER_FRC1 :: nat where "INUM_TIMER_FRC1 = 9"
definition INUM_TIMER_FRC2 :: nat where "INUM_TIMER_FRC2 = 10"

definition TIMER_CLKDIV_1 :: nat where "TIMER_CLKDIV_1 = 0"
definition TIMER_CLKDIV_16 :: nat where "TIMER_CLKDIV_16 = 1"
definition TIMER_CLKDIV_256 :: nat where "TIMER_CLKDIV_256 = 2"

definition set_regs :: "timer_frc \<Rightarrow> (timer_regs \<Rightarrow> timer_regs) \<Rightarrow> timers \<Rightarrow> timers" where
  "set_regs frc f h = h\<lparr>regs := (regs h)(frc := f (regs h frc))\<rparr>"

section \<open>Inline functions\<close>

definition timer_get_count :: "timer_frc \<Rightarrow> timers \<Rightarrow> nat" where
  "timer_get_count frc h = COUNT (regs h frc)"

definition timer_get_load :: "timer_frc \<Rightarrow> timers \<Rightarrow> nat" where
  "timer_get_load frc h = LOAD (regs h frc)"

definition timer_set_load :: "timer_frc \<Rightarrow> nat \<Rightarrow> timers \<Rightarrow> timers" where
  "timer_set_load frc load h = set_regs frc (\<lambda>r. r\<lparr>LOAD := load\<rparr>) h"

definition timer_max_load :: "timer_frc \<Rightarrow> nat" where
  "timer_max_load frc = (if frc = FRC1 then TIMER_FRC1_MAX_LOAD else 2 ^ 32 - 1)"

definition timer_set_divider :: "timer_frc \<Rightarrow> nat \<Rightarrow> timers \<Rightarrow> timers" where
  "timer_set_divider frc d h =
     (if d < TIMER_CLKDIV_1 \<or> d > TIMER_CLKDIV_256 then h
      else set_regs frc (\<lambda>r. r\<lparr>CTRL := set_field (CTRL r) TIMER_CTRL_CLKDIV_M TIMER_CTRL_CLKDIV_S d\<rparr>) h)"

definition timer_set_run :: "timer_frc \<Rightarrow> bool \<Rightarrow> timers \<Rightarrow> timers" where
  "timer_set_run frc run h =
     set_regs frc (\<lambda>r. r\<lparr>CTRL := (if run then CTRL r OR TIMER_CTRL_RUN else CTRL r AND NOT TIMER_CTRL_RUN)\<rparr>) h"

definition timer_get_run :: "timer_frc \<Rightarrow> timers \<Rightarrow> bool" where
  "timer_get_run frc h \<longleftrightarrow> CTRL (regs h frc) AND TIMER_CTRL_RUN \<noteq> 0"

definition timer_set_reload :: "timer_frc \<Rightarrow> bool \<Rightarrow> timers \<Rightarrow> timers" where
  "timer_set_reload frc reload h =
     set_regs frc (\<lambda>r. r\<lparr>CTRL := (if reload then CTRL r OR TIMER_CTRL_RELOAD else CTRL r AND NOT TIMER_CTRL_RELOAD)\<rparr>) h"

definition timer_get_reload :: "timer_frc \<Rightarrow> timers \<Rightarrow> bool" where
  "timer_get_reload frc h \<longleftrightarrow> CTRL (regs h frc) AND TIMER_CTRL_RELOAD \<noteq> 0"

definition timer_freq_to_div :: "nat \<Rightarrow> nat" where
  "timer_freq_to_div freq =
     (if freq > 100 * 1000 then TIMER_CLKDIV_1 else if freq > 100 then TIMER_CLKDIV_16 else TIMER_CLKDIV_256)"

definition timer_time_to_div :: "nat \<Rightarrow> nat" where
  "timer_time_to_div us =
     (if us < 1000 then TIMER_CLKDIV_1 else if us < 10 * 1000 then TIMER_CLKDIV_16 else TIMER_CLKDIV_256)"

section \<open>Functions of esp_timer.c\<close>

definition FREQ_DIV1 :: nat where "FREQ_DIV1 = 80 * 1000 * 1000"
definition FREQ_DIV16 :: nat where "FREQ_DIV16 = 5 * 1000 * 1000"
definition FREQ_DIV256 :: nat where "FREQ_DIV256 = 312500"
definition TIMER_FREQS :: "nat list" where "TIMER_FREQS = [FREQ_DIV1, FREQ_DIV16, FREQ_DIV256]"

definition timer_set_interrupts :: "timer_frc \<Rightarrow> bool \<Rightarrow> timers \<Rightarrow> timers" where
  "timer_set_interrupts frc enable h =
     (let dp_bit = (if frc = FRC1 then DPORT_INT_ENABLE_FRC1 else DPORT_INT_ENABLE_FRC2);
          im = push_bit (if frc = FRC1 then INUM_TIMER_FRC1 else INUM_TIMER_FRC2) 1
      in if enable then h\<lparr>INT_ENABLE := INT_ENABLE h OR dp_bit, int_mask := int_mask h OR im\<rparr>
         else h\<lparr>INT_ENABLE := INT_ENABLE h AND NOT dp_bit, int_mask := int_mask h AND NOT im\<rparr>)"

text \<open>\<open>None\<close>: a division by zero.\<close>

definition timer_freq_to_count :: "timer_frc \<Rightarrow> nat \<Rightarrow> nat \<Rightarrow> nat option" where
  "timer_freq_to_count frc freq d =
     (if d < TIMER_CLKDIV_1 \<or> d > TIMER_CLKDIV_256 then Some 0
      else if freq > TIMER_FREQS ! d then Some 0
      else if freq = 0 then None
      else Some (u32 (TIMER_FREQS ! d div freq)))"

definition timer_time_to_count :: "timer_frc \<Rightarrow> nat \<Rightarrow> nat \<Rightarrow> nat" where
  "timer_time_to_count frc us d =
     (if d < TIMER_CLKDIV_1 \<or> d > TIMER_CLKDIV_256 then 0
      else
        let TIMER_MAX = timer_max_load frc
        in if d \<noteq> TIMER_CLKDIV_256
           then let counts_per_us = (if d = TIMER_CLKDIV_1 then FREQ_DIV1 else FREQ_DIV16) div 1000 div 1000
                in if us > TIMER_MAX div counts_per_us then 0 else u32 (us * counts_per_us)
           else let scalar = FREQ_DIV256 div 500
                in if us > 1 + (2 ^ 32 - 1) div scalar then 0
                   else let counts = u32 (us * scalar) div 2000
                        in if counts > TIMER_MAX then 0 else counts)"

datatype timer_result = Timer_Ok | Timer_EINVAL

definition timer_program :: "timer_frc \<Rightarrow> nat \<Rightarrow> nat \<Rightarrow> timers \<Rightarrow> timers" where
  "timer_program frc counts d h =
     (let h1 = timer_set_divider frc d h
      in if frc = FRC1 then timer_set_load frc counts h1
         else set_regs FRC2 (\<lambda>r. r\<lparr>ALARM := u32 (counts + COUNT r)\<rparr>) h1)"

definition timer_set_frequency :: "timer_frc \<Rightarrow> nat \<Rightarrow> timers \<Rightarrow> (timer_result \<times> timers) option" where
  "timer_set_frequency frc freq h =
     (let d = timer_freq_to_div freq
      in if freq = 0 then Some (Timer_EINVAL, h)
         else (case timer_freq_to_count frc freq d of
                 None \<Rightarrow> None
               | Some counts \<Rightarrow>
                   if counts = 0 then Some (Timer_EINVAL, h)
                   else Some (Timer_Ok, let h1 = timer_program frc counts d h
                                        in if frc = FRC1 then timer_set_reload frc True h1 else h1)))"

definition timer_set_timeout :: "timer_frc \<Rightarrow> nat \<Rightarrow> timers \<Rightarrow> timer_result \<times> timers" where
  "timer_set_timeout frc us h =
     (let d = timer_time_to_div us; counts = timer_time_to_count frc us d
      in if counts = 0 then (Timer_EINVAL, h) else (Timer_Ok, timer_program frc counts d h))"

section \<open>Lemmas\<close>

lemmas clkdiv_defs = TIMER_CLKDIV_1_def TIMER_CLKDIV_16_def TIMER_CLKDIV_256_def

lemmas freq_defs = TIMER_FREQS_def FREQ_DIV1_def FREQ_DIV16_def FREQ_DIV256_def

text \<open>Prescaler of a divider setting.\<close>

definition prescale :: "nat \<Rightarrow> nat" where
  "prescale d = [1, 16, 256] ! d"

lemma field_set_field:
  assumes "v < 4"
  shows "field2val (set_field r TIMER_CTRL_CLKDIV_M TIMER_CTRL_CLKDIV_S v) TIMER_CTRL_CLKDIV_M TIMER_CTRL_CLKDIV_S = of_nat v"
proof -
  have m: "TIMER_CTRL_CLKDIV_M = mask 2" by (simp add: TIMER_CTRL_CLKDIV_M_def mask_numeral)
  have "v = take_bit 2 v" using assms by (simp add: take_bit_eq_mod)
  then have v: "(of_nat v :: 32 word) = take_bit 2 (of_nat v)" by (metis of_nat_take_bit)
  show ?thesis
    by (rule bit_word_eqI, subst v)
      (auto simp: m field2val_def set_field_def TIMER_CTRL_CLKDIV_S_def bit_simps)
qed

text \<open>The other bits of the register are kept.\<close>

lemma set_field_other:
  assumes "v < 4" "n < 2 \<or> 4 \<le> n"
  shows "bit (set_field r TIMER_CTRL_CLKDIV_M TIMER_CTRL_CLKDIV_S v) n = bit r n"
proof -
  have m: "TIMER_CTRL_CLKDIV_M = mask 2" by (simp add: TIMER_CTRL_CLKDIV_M_def mask_numeral)
  have "v = take_bit 2 v" using assms(1) by (simp add: take_bit_eq_mod)
  then have v: "(of_nat v :: 32 word) = take_bit 2 (of_nat v)" by (metis of_nat_take_bit)
  show ?thesis
    using assms(2) by (subst set_field_def, subst v)
      (auto simp: m TIMER_CTRL_CLKDIV_S_def bit_simps dest: bit_imp_le_length)
qed

lemma timer_time_to_count_exact:
  assumes "us < 2 ^ 32" "d \<le> 2"
  shows "timer_time_to_count frc us d =
    (let c = us * TIMER_FREQS ! d div 1000000
     in if c \<le> timer_max_load frc \<and> (d = 2 \<longrightarrow> us \<le> 6871947) then c else 0)"
proof -
  consider "d = 0" | "d = 1" | "d = 2" using assms(2) by linarith
  then show ?thesis
  proof cases
    case 3
    have "us * 312500 div 1000000 = us * 625 div 2000" using div_mult_mult2 [of 500 "us * 625" 2000] by simp
    moreover have "us * 625 div 2000 \<le> 2147483" if "us \<le> 6871947" using that by linarith
    moreover have "2147483 \<le> timer_max_load frc" by (simp add: timer_max_load_def TIMER_FRC1_MAX_LOAD_def)
    moreover have "u32 (us * 625) div 2000 = 0" if "us = 6871948" using that by (simp add: u32_def)
    ultimately show ?thesis
      using 3 by (cases "us = 6871948") (auto simp: timer_time_to_count_def clkdiv_defs freq_defs Let_def)
  qed (use assms(1) in \<open>auto simp: timer_time_to_count_def clkdiv_defs freq_defs Let_def timer_max_load_def
      TIMER_FRC1_MAX_LOAD_def div_le_dividend\<close>)
qed

lemma timer_program_divider:
  assumes "d \<le> 2"
  shows "field2val (CTRL (regs (timer_program frc c d h) frc)) TIMER_CTRL_CLKDIV_M TIMER_CTRL_CLKDIV_S = of_nat d"
    "bit (CTRL (regs (timer_program frc c d h) frc)) 7 = bit (CTRL (regs h frc)) 7"
    "regs (timer_program frc c d h) FRC1 = (if frc = FRC1 then regs (timer_program frc c d h) FRC1 else regs h FRC1)"
    "regs (timer_program frc c d h) FRC2 = (if frc = FRC2 then regs (timer_program frc c d h) FRC2 else regs h FRC2)"
  using assms field_set_field [of d "CTRL (regs h frc)"] set_field_other [of d 7 "CTRL (regs h frc)"]
  by (cases frc; simp add: timer_program_def timer_set_divider_def timer_set_load_def set_regs_def clkdiv_defs Let_def)+

lemma timer_program_count:
  "d \<le> 2 \<Longrightarrow> (if frc = FRC1 then LOAD (regs (timer_program frc c d h) FRC1) = c
    else ALARM (regs (timer_program frc c d h) FRC2) = u32 (c + COUNT (regs h FRC2)))"
  by (simp add: timer_program_def timer_set_divider_def timer_set_load_def set_regs_def clkdiv_defs Let_def)

lemma bit_reload: "bit TIMER_CTRL_RELOAD n \<longleftrightarrow> n = 6"
proof -
  have r: "TIMER_CTRL_RELOAD = 2 ^ 6" by (simp add: TIMER_CTRL_RELOAD_def)
  show ?thesis unfolding r bit_exp_iff by auto
qed

lemma timer_reload_keeps:
  "field2val (CTRL r OR TIMER_CTRL_RELOAD) TIMER_CTRL_CLKDIV_M TIMER_CTRL_CLKDIV_S
     = field2val (CTRL r) TIMER_CTRL_CLKDIV_M TIMER_CTRL_CLKDIV_S"
proof (rule bit_word_eqI)
  fix n
  have m: "TIMER_CTRL_CLKDIV_M = mask 2" by (simp add: TIMER_CTRL_CLKDIV_M_def mask_numeral)
  show "bit (field2val (CTRL r OR TIMER_CTRL_RELOAD) TIMER_CTRL_CLKDIV_M TIMER_CTRL_CLKDIV_S) n
      = bit (field2val (CTRL r) TIMER_CTRL_CLKDIV_M TIMER_CTRL_CLKDIV_S) n"
    unfolding m field2val_def TIMER_CTRL_CLKDIV_S_def by (auto simp: bit_reload bit_simps)
qed

lemma timer_set_reload_simps:
  "timer_get_reload frc (timer_set_reload frc True h)"
  "LOAD (regs (timer_set_reload frc True h) frc') = LOAD (regs h frc')"
  "field2val (CTRL (regs (timer_set_reload frc True h) frc)) TIMER_CTRL_CLKDIV_M TIMER_CTRL_CLKDIV_S
     = field2val (CTRL (regs h frc)) TIMER_CTRL_CLKDIV_M TIMER_CTRL_CLKDIV_S"
proof -
  have "bit ((CTRL r OR TIMER_CTRL_RELOAD) AND TIMER_CTRL_RELOAD) 6" for r by (simp add: bit_reload bit_simps)
  then have "(CTRL r OR TIMER_CTRL_RELOAD) AND TIMER_CTRL_RELOAD \<noteq> 0" for r by (metis bit_0_eq bot_apply bot_bool_def)
  then show "timer_get_reload frc (timer_set_reload frc True h)"
    by (simp add: timer_get_reload_def timer_set_reload_def set_regs_def)
qed (simp_all add: timer_set_reload_def set_regs_def timer_reload_keeps)

section \<open>Properties\<close>

text \<open>
  C40. \<open>timer_set_timeout\<close> accepts exactly the times from 1 to 6871947 microseconds and leaves
  the hardware alone otherwise. When it accepts, the programmed number of counts times the
  prescaler, at 80 MHz, is the requested time rounded down by less than one count, it fits
  the timer, and the divider field holds the matching setting.
\<close>

theorem timer_set_timeout_exact:
  assumes "us < 2 ^ 32"
  shows "(if 1 \<le> us \<and> us \<le> 6871947
    then \<exists>c h'. timer_set_timeout frc us h = (Timer_Ok, h')
      \<and> c * prescale (timer_time_to_div us) \<le> 80 * us \<and> 80 * us < (c + 1) * prescale (timer_time_to_div us)
      \<and> 0 < c \<and> c \<le> timer_max_load frc
      \<and> (if frc = FRC1 then LOAD (regs h' FRC1) = c else ALARM (regs h' FRC2) = u32 (c + COUNT (regs h FRC2)))
      \<and> field2val (CTRL (regs h' frc)) TIMER_CTRL_CLKDIV_M TIMER_CTRL_CLKDIV_S = of_nat (timer_time_to_div us)
    else timer_set_timeout frc us h = (Timer_EINVAL, h))"
proof -
  define d where "d = timer_time_to_div us"
  define c where "c = us * TIMER_FREQS ! d div 1000000"
  have d: "d \<le> 2" by (simp add: d_def timer_time_to_div_def clkdiv_defs)
  have cases: "us < 1000 \<and> d = 0 \<and> c = 80 * us \<or> 1000 \<le> us \<and> us < 10000 \<and> d = 1 \<and> c = 5 * us
      \<or> 10000 \<le> us \<and> d = 2 \<and> c = us * 625 div 2000"
    using div_mult_mult2 [of 500 "us * 625" 2000] by (auto simp: d_def c_def timer_time_to_div_def clkdiv_defs freq_defs)
  have mx: "8388607 \<le> timer_max_load frc" by (simp add: timer_max_load_def TIMER_FRC1_MAX_LOAD_def)
  have fits: "us \<le> 6871947 \<Longrightarrow> c \<le> timer_max_load frc" using cases mx by auto
  have t: "timer_time_to_count frc us d = (if us \<le> 6871947 then c else 0)"
    using timer_time_to_count_exact [OF assms d, of frc] fits cases by (auto simp: c_def [symmetric])
  have set: "timer_set_timeout frc us h
      = (if timer_time_to_count frc us d = 0 then (Timer_EINVAL, h) else (Timer_Ok, timer_program frc (timer_time_to_count frc us d) d h))"
    by (simp add: timer_set_timeout_def d_def Let_def)
  show ?thesis
  proof (cases "1 \<le> us \<and> us \<le> 6871947")
    case True
    then have c0: "0 < c" using cases by auto
    have "timer_set_timeout frc us h = (Timer_Ok, timer_program frc c d h)" using set t True c0 by simp
    moreover have "c * prescale d \<le> 80 * us \<and> 80 * us < (c + 1) * prescale d" using cases by (auto simp: prescale_def)
    ultimately show ?thesis
      unfolding d_def [symmetric]
      using True c0 fits timer_program_divider(1) [OF d] timer_program_count [OF d] by auto
  next
    case False
    then have "timer_time_to_count frc us d = 0" using t cases by auto
    then have "timer_set_timeout frc us h = (Timer_EINVAL, h)" using set by simp
    then show ?thesis using False by simp
  qed
qed

definition sample_timers :: timers where
  "sample_timers = \<lparr>regs = (\<lambda>_. \<lparr>LOAD = 0, COUNT = 0, CTRL = 0, STATUS = 0, ALARM = 0\<rparr>), INT_ENABLE = 0, int_mask = 0\<rparr>"

theorem timer_set_timeout_exact_witness:
  "timer_set_timeout FRC1 6871948 sample_timers = (Timer_EINVAL, sample_timers)"
  using timer_set_timeout_exact [of 6871948 FRC1 sample_timers] by simp

text \<open>
  \<open>timer_set_frequency\<close> accepts exactly the frequencies from 1 Hz to 80 MHz; then the
  programmed count is the frequency of the prescaled clock divided by the requested one,
  rounded down and at least one, it fits the timer, and FRC1 reloads by itself.
\<close>

theorem timer_set_frequency_exact:
  assumes "freq < 2 ^ 32"
  shows "(if 1 \<le> freq \<and> freq \<le> 80000000
    then \<exists>c h'. timer_set_frequency frc freq h = Some (Timer_Ok, h')
      \<and> c * freq * prescale (timer_freq_to_div freq) \<le> 80000000 \<and> 80000000 < (c + 1) * freq * prescale (timer_freq_to_div freq)
      \<and> 0 < c \<and> c \<le> timer_max_load frc
      \<and> (if frc = FRC1 then LOAD (regs h' FRC1) = c \<and> timer_get_reload FRC1 h'
         else ALARM (regs h' FRC2) = u32 (c + COUNT (regs h FRC2)))
      \<and> field2val (CTRL (regs h' frc)) TIMER_CTRL_CLKDIV_M TIMER_CTRL_CLKDIV_S = of_nat (timer_freq_to_div freq)
    else timer_set_frequency frc freq h = Some (Timer_EINVAL, h))"
proof -
  define d where "d = timer_freq_to_div freq"
  define F where "F = TIMER_FREQS ! d"
  have d: "d \<le> 2" by (simp add: d_def timer_freq_to_div_def clkdiv_defs)
  have cases: "100000 < freq \<and> d = 0 \<and> F = 80000000 \<or> 100 < freq \<and> freq \<le> 100000 \<and> d = 1 \<and> F = 5000000
      \<or> freq \<le> 100 \<and> d = 2 \<and> F = 312500"
    by (auto simp: d_def F_def timer_freq_to_div_def clkdiv_defs freq_defs)
  have F: "F \<le> 80000000" "F * prescale d = 80000000" using cases by (auto simp: prescale_def)
  define c where "c = F div freq"
  show ?thesis
  proof (cases "1 \<le> freq \<and> freq \<le> 80000000")
    case True
    then have le: "freq \<le> F" using cases by auto
    then have c0: "0 < c" using True by (simp add: c_def div_greater_zero_iff)
    have "c \<le> F" by (simp add: c_def)
    then have u: "u32 c = c" using F by simp
    have "d = 0 \<Longrightarrow> c \<le> 80000000 div 100000"
      using cases div_le_mono2 [of 100000 freq 80000000] by (auto simp: c_def)
    then have "c \<le> 8388607" using \<open>c \<le> F\<close> cases by auto
    moreover have "8388607 \<le> timer_max_load frc" by (simp add: timer_max_load_def TIMER_FRC1_MAX_LOAD_def)
    ultimately have mx: "c \<le> timer_max_load frc" by linarith
    have "timer_freq_to_count frc freq d = Some c"
      using True le d u by (simp add: timer_freq_to_count_def clkdiv_defs F_def [symmetric] c_def)
    then have set: "timer_set_frequency frc freq h = Some (Timer_Ok, let h1 = timer_program frc c d h
        in if frc = FRC1 then timer_set_reload frc True h1 else h1)"
      using True c0 by (simp add: timer_set_frequency_def d_def [symmetric])
    have "c * freq \<le> F \<and> F < (c + 1) * freq" using True by (simp add: c_def dividend_less_div_times)
    then have "c * freq * prescale d \<le> F * prescale d \<and> F * prescale d < (c + 1) * freq * prescale d"
      using d by (auto simp: prescale_def less_Suc_eq numeral_2_eq_2 le_Suc_eq)
    moreover have "if frc = FRC1 then LOAD (regs h' FRC1) = c \<and> timer_get_reload FRC1 h'
         else ALARM (regs h' FRC2) = u32 (c + COUNT (regs h FRC2))"
      "field2val (CTRL (regs h' frc)) TIMER_CTRL_CLKDIV_M TIMER_CTRL_CLKDIV_S = of_nat d"
      if "h' = (let h1 = timer_program frc c d h in if frc = FRC1 then timer_set_reload frc True h1 else h1)" for h'
      using timer_program_divider(1) [OF d, of frc c h] timer_program_count [OF d, of frc c h] that
      by (cases frc; simp add: Let_def timer_set_reload_simps)+
    ultimately show ?thesis
      unfolding d_def [symmetric] set F(2) using True c0 mx by (simp only: if_True simp_thms) (intro exI [of _ c] exI conjI; simp)
  next
    case False
    then have "freq = 0 \<or> timer_freq_to_count frc freq d = Some 0"
      using cases d by (auto simp: timer_freq_to_count_def clkdiv_defs F_def [symmetric])
    then have "timer_set_frequency frc freq h = Some (Timer_EINVAL, h)"
      by (auto simp: timer_set_frequency_def d_def [symmetric] Let_def)
    then show ?thesis using False by simp
  qed
qed

theorem timer_set_frequency_exact_witness:
  "\<exists>h'. timer_set_frequency FRC2 1000 sample_timers = Some (Timer_Ok, h') \<and> ALARM (regs h' FRC2) = 5000"
proof -
  obtain c h' where c: "timer_set_frequency FRC2 1000 sample_timers = Some (Timer_Ok, h')"
    "c * 1000 * 16 \<le> 80000000" "80000000 < (c + 1) * 1000 * 16" "ALARM (regs h' FRC2) = u32 c"
    using timer_set_frequency_exact [of 1000 FRC2 sample_timers]
    by (auto simp: timer_freq_to_div_def clkdiv_defs prescale_def sample_timers_def)
  moreover have "c = 5000" using c(2,3) by simp
  ultimately show ?thesis by simp
qed

end
