(* ===== verification/Ets_timer.thy ===== *)
theory Ets_timer
  imports Prelude
begin

text \<open>
  The software timers of \<open>src/open_esplibs/libmain/ets_timer.c\<close>: a linked list of pending timers,
  kept in the order in which they fire, on top of the hardware timer FRC2.

  Timers live in a heap from addresses to structures; address 0 ends the list and the
  address \<open>0xffffffff\<close> in \<open>next\<close> marks a timer that is not armed. The counter register moves with
  time: the parameter \<open>frc2\<close> gives the value of its \<open>k\<close>-th read, and the state counts the reads.
  Loops that C does not leave are \<open>None\<close>: the halts of the code and a traversal of a cyclic
  list. Differences of times are those of two's complement.
\<close>

section \<open>State\<close>

record ets_timer =
  timer_next :: nat
  fire_ticks :: nat
  period_ticks :: nat
  callback :: nat
  timer_arg :: nat

definition ETS_TIMER_NOT_ARMED :: nat where "ETS_TIMER_NOT_ARMED = 0xffffffff"
definition ETS_TIMER_LIST_END :: nat where "ETS_TIMER_LIST_END = 0"

type_synonym timer_heap = "nat \<Rightarrow> ets_timer"

record ets =
  heap :: timer_heap
  timer_list :: nat
  alarm :: nat
  reads :: nat
  frc2_ctrl :: "32 word"
  frc2_load :: nat
  int_enable :: "32 word"
  isr_mask :: "32 word"
  isr_attached :: bool
  task_created :: bool

definition set_timer :: "nat \<Rightarrow> (ets_timer \<Rightarrow> ets_timer) \<Rightarrow> ets \<Rightarrow> ets" where
  "set_timer t f s = s\<lparr>heap := (heap s)(t := f (heap s t))\<rparr>"

definition sdk_ets_timer_setfn :: "nat \<Rightarrow> nat \<Rightarrow> nat \<Rightarrow> ets \<Rightarrow> ets" where
  "sdk_ets_timer_setfn t func parg s =
     set_timer t (\<lambda>r. r\<lparr>callback := func, timer_arg := parg, fire_ticks := 0, period_ticks := 0,
       timer_next := ETS_TIMER_NOT_ARMED\<rparr>) s"

section \<open>The alarm\<close>

definition set_alarm_value :: "nat \<Rightarrow> ets \<Rightarrow> ets" where
  "set_alarm_value v s = s\<lparr>alarm := v\<rparr>"

text \<open>The difference of two times as a signed number.\<close>

definition ticks_diff :: "nat \<Rightarrow> nat \<Rightarrow> int" where
  "ticks_diff a b = s32 (u32_sub a b)"

definition set_alarm :: "(nat \<Rightarrow> nat) \<Rightarrow> nat \<Rightarrow> ets \<Rightarrow> ets" where
  "set_alarm frc2 ticks s =
     (let curr_time = frc2 (reads s); s1 = s\<lparr>reads := reads s + 1\<rparr>; delta = ticks_diff ticks curr_time
      in if delta - 40 < 1
         then if delta < 1 then set_alarm_value (u32 (curr_time + 40)) s1 else set_alarm_value (u32 (ticks + 44)) s1
         else set_alarm_value ticks s1)"

section \<open>The list of pending timers\<close>

text \<open>The search for the place of a new timer: the entry before it and the one after it.\<close>

partial_function (option) find_place :: "timer_heap \<Rightarrow> nat \<Rightarrow> nat \<Rightarrow> nat \<Rightarrow> (nat \<times> nat) option" where
  "find_place h ticks prev cur =
     (if cur = 0 then Some (prev, cur)
      else if ticks_diff ticks (fire_ticks (h cur)) < 1 then Some (prev, cur)
      else find_place h ticks cur (timer_next (h cur)))"

definition add_pending_timer :: "(nat \<Rightarrow> nat) \<Rightarrow> nat \<Rightarrow> nat \<Rightarrow> ets \<Rightarrow> ets option" where
  "add_pending_timer frc2 ticks t s =
     (case find_place (heap s) ticks 0 (timer_list s) of
        None \<Rightarrow> None
      | Some (prev, cur) \<Rightarrow>
          let s1 = set_timer t (\<lambda>r. r\<lparr>timer_next := cur, fire_ticks := ticks\<rparr>) s;
              s2 = (if prev \<noteq> 0 then set_timer prev (\<lambda>r. r\<lparr>timer_next := t\<rparr>) s1
                    else set_alarm frc2 ticks (s1\<lparr>timer_list := t\<rparr>))
          in if t = timer_next (heap s2 t) then None else Some s2)"

definition sdk_ets_timer_arm_ms_us :: "(nat \<Rightarrow> nat) \<Rightarrow> nat \<Rightarrow> nat \<Rightarrow> bool \<Rightarrow> bool \<Rightarrow> ets \<Rightarrow> ets option" where
  "sdk_ets_timer_arm_ms_us frc2 t v repeat_flag value_in_ms s =
     (if timer_next (heap s t) \<noteq> ETS_TIMER_NOT_ARMED then None
      else
        let ticks = (if value_in_ms then u32 (v * 5000) else u32 (v * 5));
            s1 = (if repeat_flag then set_timer t (\<lambda>r. r\<lparr>period_ticks := ticks\<rparr>) s else s)
        in add_pending_timer frc2 (u32 (frc2 (reads s1) + ticks)) t (s1\<lparr>reads := reads s1 + 1\<rparr>))"

definition sdk_ets_timer_arm :: "(nat \<Rightarrow> nat) \<Rightarrow> nat \<Rightarrow> nat \<Rightarrow> bool \<Rightarrow> ets \<Rightarrow> ets option" where
  "sdk_ets_timer_arm frc2 t milliseconds repeat_flag s = sdk_ets_timer_arm_ms_us frc2 t milliseconds repeat_flag True s"

definition sdk_ets_timer_arm_us :: "(nat \<Rightarrow> nat) \<Rightarrow> nat \<Rightarrow> nat \<Rightarrow> bool \<Rightarrow> ets \<Rightarrow> ets option" where
  "sdk_ets_timer_arm_us frc2 t useconds repeat_flag s = sdk_ets_timer_arm_ms_us frc2 t useconds repeat_flag False s"

text \<open>The loop of \<open>sdk_ets_timer_disarm\<close> unlinks the timer where it finds it.\<close>

partial_function (option) unlink :: "nat \<Rightarrow> nat \<Rightarrow> nat \<Rightarrow> ets \<Rightarrow> ets option" where
  "unlink t prev cur s =
     (if cur = 0 then Some s
      else if cur = t
      then Some (if prev \<noteq> 0 then set_timer prev (\<lambda>r. r\<lparr>timer_next := timer_next (heap s cur)\<rparr>) s
                 else s\<lparr>timer_list := timer_next (heap s cur)\<rparr>)
      else unlink t cur (timer_next (heap s cur)) s)"

definition sdk_ets_timer_disarm :: "nat \<Rightarrow> ets \<Rightarrow> ets option" where
  "sdk_ets_timer_disarm t s =
     (case unlink t 0 (timer_list s) s of
        None \<Rightarrow> None
      | Some s1 \<Rightarrow> Some (set_timer t (\<lambda>r. r\<lparr>timer_next := ETS_TIMER_NOT_ARMED, period_ticks := 0\<rparr>) s1))"

text \<open>
  The loop of \<open>process_pending_timers\<close>. \<open>cb\<close> is what a callback does to the state; the list of
  timers whose callbacks ran is returned.
\<close>

partial_function (option) process_loop :: "(nat \<Rightarrow> nat) \<Rightarrow> (nat \<Rightarrow> nat \<Rightarrow> ets \<Rightarrow> ets) \<Rightarrow> nat \<Rightarrow> nat list \<Rightarrow> ets
    \<Rightarrow> (nat list \<times> ets) option" where
  "process_loop frc2 cb ticks fired s =
     (if timer_list s = 0 then Some (fired, s)
      else if ticks_diff (fire_ticks (heap s (timer_list s))) ticks < 1
      then let t = timer_list s;
               s1 = set_timer t (\<lambda>r. r\<lparr>timer_next := ETS_TIMER_NOT_ARMED\<rparr>) (s\<lparr>timer_list := timer_next (heap s t)\<rparr>);
               s2 = cb (callback (heap s1 t)) (timer_arg (heap s1 t)) s1
           in (case (if timer_next (heap s2 t) = ETS_TIMER_NOT_ARMED \<and> period_ticks (heap s2 t) \<noteq> 0
                     then let f = u32 (fire_ticks (heap s2 t) + period_ticks (heap s2 t))
                          in add_pending_timer frc2 f t (set_timer t (\<lambda>r. r\<lparr>fire_ticks := f\<rparr>) s2)
                     else Some s2) of
                 None \<Rightarrow> None
               | Some s3 \<Rightarrow> process_loop frc2 cb (frc2 (reads s3)) (fired @ [t]) (s3\<lparr>reads := reads s3 + 1\<rparr>))
      else Some (fired, set_alarm frc2 (fire_ticks (heap s (timer_list s))) s))"

definition process_pending_timers :: "(nat \<Rightarrow> nat) \<Rightarrow> (nat \<Rightarrow> nat \<Rightarrow> ets \<Rightarrow> ets) \<Rightarrow> ets \<Rightarrow> (nat list \<times> ets) option" where
  "process_pending_timers frc2 cb s = process_loop frc2 cb (frc2 (reads s)) [] (s\<lparr>reads := reads s + 1\<rparr>)"

text \<open>
  The interrupt handler only wakes the timer task, which calls \<open>process_pending_timers\<close> each time.
  \<open>created\<close> says whether \<open>xTaskCreate\<close> succeeds.
\<close>

definition sdk_ets_timer_init :: "bool \<Rightarrow> ets \<Rightarrow> ets" where
  "sdk_ets_timer_init created s =
     s\<lparr>timer_list := 0, isr_attached := True, task_created := created, alarm := 0,
       frc2_ctrl := push_bit 2 1 OR push_bit 7 1, frc2_load := 0,
       int_enable := int_enable s OR push_bit 2 1, isr_mask := isr_mask s OR push_bit 10 1\<rparr>"

section \<open>Lists in the heap\<close>

fun seg :: "timer_heap \<Rightarrow> nat \<Rightarrow> nat list \<Rightarrow> nat \<Rightarrow> bool" where
  "seg h p [] q \<longleftrightarrow> p = q"
| "seg h p (x # xs) q \<longleftrightarrow> p = x \<and> x \<noteq> 0 \<and> x \<noteq> ETS_TIMER_NOT_ARMED \<and> seg h (timer_next (h x)) xs q"

lemma seg_append [simp]: "seg h p (xs @ ys) q \<longleftrightarrow> (\<exists>r. seg h p xs r \<and> seg h r ys q)"
  by (induction xs arbitrary: p) auto

lemma seg_frame [simp]: "t \<notin> set xs \<Longrightarrow> seg (h(t := r)) p xs q = seg h p xs q"
  by (induction xs arbitrary: p) auto

lemma seg_next: "(\<And>x. x \<in> set xs \<Longrightarrow> timer_next (h' x) = timer_next (h x)) \<Longrightarrow> seg h' p xs q = seg h p xs q"
  by (induction xs arbitrary: p) auto

lemma seg_hd: "seg h p xs 0 \<Longrightarrow> p = (if xs = [] then 0 else hd xs)"
  by (cases xs) auto

lemma seg_nonzero: "seg h p xs q \<Longrightarrow> x \<in> set xs \<Longrightarrow> x \<noteq> 0 \<and> x \<noteq> ETS_TIMER_NOT_ARMED"
  by (induction xs arbitrary: p) auto

text \<open>
  The invariant: the list holds distinct timers, and a timer outside the list is marked as
  not armed exactly if \<open>next\<close> says so; \<open>known\<close> are the timers that were set up.
\<close>

definition pending :: "nat set \<Rightarrow> nat list \<Rightarrow> ets \<Rightarrow> bool" where
  "pending known xs s \<longleftrightarrow> seg (heap s) (timer_list s) xs 0 \<and> distinct xs \<and> set xs \<subseteq> known
     \<and> 0 \<notin> known \<and> ETS_TIMER_NOT_ARMED \<notin> known
     \<and> (\<forall>t \<in> known - set xs. timer_next (heap s t) = ETS_TIMER_NOT_ARMED)"

lemma find_place_list:
  assumes "seg h p xs 0"
  shows "find_place h ticks prev p =
    (let as = takeWhile (\<lambda>x. \<not> ticks_diff ticks (fire_ticks (h x)) < 1) xs;
         bs = dropWhile (\<lambda>x. \<not> ticks_diff ticks (fire_ticks (h x)) < 1) xs
     in Some (if as = [] then prev else last as, if bs = [] then 0 else hd bs))"
  using assms
proof (induction xs arbitrary: p prev)
  case Nil
  then show ?case by (subst find_place.simps) simp
next
  case (Cons x xs)
  then show ?case by (subst find_place.simps) (simp add: Let_def)
qed

lemma set_alarm_simps [simp]:
  "heap (set_alarm frc2 ticks s) = heap s" "timer_list (set_alarm frc2 ticks s) = timer_list s"
  by (simp_all add: set_alarm_def set_alarm_value_def Let_def)

lemma seg_NOT_ARMED: "seg h p xs 0 \<Longrightarrow> x \<in> set xs \<Longrightarrow> timer_next (h x) \<noteq> ETS_TIMER_NOT_ARMED"
proof (induction xs arbitrary: p)
  case (Cons y xs)
  then show ?case by (cases xs) (auto simp: ETS_TIMER_NOT_ARMED_def)
qed simp

end
