(* ===== verification/Ets_timer_List.thy ===== *)
theory Ets_timer_List
  imports Ets_timer
begin

text \<open>
  Correctness of the software timers: the list of pending timers is kept in firing order by
  arming and disarming, the alarm is always set in the future, and the timer task runs the
  callbacks of the timers that are due, in order.
\<close>

section \<open>Times in a window\<close>

text \<open>Times are compared by their distance from a base; within half of the range of the counter
  the comparison of the code agrees with it.\<close>

definition off :: "nat \<Rightarrow> nat \<Rightarrow> nat" where
  "off base a = u32_sub a base"

lemma u32_sub_if: "a < 4294967296 \<Longrightarrow> b < 4294967296 \<Longrightarrow> u32_sub a b = (if b \<le> a then a - b else a + 4294967296 - b)"
  by (auto simp: u32_sub_def mod_if)

lemma u32_sub_off:
  assumes "a < 2 ^ 32" "b < 2 ^ 32" "base < 2 ^ 32"
  shows "u32_sub a b = (if off base b \<le> off base a then off base a - off base b else off base a + 2 ^ 32 - off base b)"
  using assms by (simp add: off_def u32_sub_if) linarith

lemma ticks_diff_off:
  assumes "a < 2 ^ 32" "b < 2 ^ 32" "base < 2 ^ 32" "off base a < 2 ^ 31" "off base b < 2 ^ 31"
  shows "ticks_diff a b < 1 \<longleftrightarrow> off base a \<le> off base b"
  using assms(4,5) unfolding ticks_diff_def s32_def u32_sub_off [OF assms(1-3)] by auto

definition in_order :: "nat \<Rightarrow> timer_heap \<Rightarrow> nat list \<Rightarrow> bool" where
  "in_order base h xs \<longleftrightarrow> base < 2 ^ 32 \<and> (\<forall>x \<in> set xs. fire_ticks (h x) < 2 ^ 32 \<and> off base (fire_ticks (h x)) < 2 ^ 31)
     \<and> sorted (map (\<lambda>x. off base (fire_ticks (h x))) xs)"

lemma in_order_append: "in_order base h (xs @ ys) \<longleftrightarrow> in_order base h xs \<and> in_order base h ys
    \<and> (\<forall>x \<in> set xs. \<forall>y \<in> set ys. off base (fire_ticks (h x)) \<le> off base (fire_ticks (h y)))"
  by (auto simp: in_order_def sorted_append)

lemma in_order_cong: "(\<And>x. x \<in> set xs \<Longrightarrow> fire_ticks (h' x) = fire_ticks (h x)) \<Longrightarrow> in_order base h' xs = in_order base h xs"
  by (auto simp: in_order_def cong: map_cong)

section \<open>Insertion\<close>

definition before :: "timer_heap \<Rightarrow> nat \<Rightarrow> nat list \<Rightarrow> nat list" where
  "before h ticks xs = takeWhile (\<lambda>x. \<not> ticks_diff ticks (fire_ticks (h x)) < 1) xs"

definition behind :: "timer_heap \<Rightarrow> nat \<Rightarrow> nat list \<Rightarrow> nat list" where
  "behind h ticks xs = dropWhile (\<lambda>x. \<not> ticks_diff ticks (fire_ticks (h x)) < 1) xs"

lemma before_behind [simp]: "before h ticks xs @ behind h ticks xs = xs"
  by (simp add: before_def behind_def)

text \<open>What adding a timer leaves alone.\<close>

definition same_timers :: "ets \<Rightarrow> ets \<Rightarrow> bool" where
  "same_timers s s' \<longleftrightarrow> (\<forall>x. period_ticks (heap s' x) = period_ticks (heap s x)
     \<and> callback (heap s' x) = callback (heap s x) \<and> timer_arg (heap s' x) = timer_arg (heap s x))"

lemma seg_insert:
  assumes "seg h p (as @ bs) 0" "distinct (as @ bs)" "t \<notin> set (as @ bs)" "t \<noteq> 0" "t \<noteq> ETS_TIMER_NOT_ARMED"
    and "timer_next r = (if bs = [] then 0 else hd bs)" "as \<noteq> []" "timer_next q = t"
  shows "seg (h(t := r, last as := q)) p (as @ t # bs) 0"
proof -
  obtain cs l where as: "as = cs @ [l]" using assms(7) by (metis append_butlast_last_id)
  obtain c where c: "seg h p cs l" "l \<noteq> 0" "l \<noteq> ETS_TIMER_NOT_ARMED" "seg h (timer_next (h l)) bs 0"
    using assms(1) as by auto
  have "timer_next (h l) = timer_next r" using seg_hd [OF c(4)] assms(6) by simp
  then show ?thesis using assms c as by auto
qed

lemma add_pending_timer_list:
  fixes ticks :: nat
  assumes "pending known xs s" "t \<in> known" "t \<notin> set xs"
  defines "as \<equiv> before (heap s) ticks xs" and "bs \<equiv> behind (heap s) ticks xs"
  shows "\<exists>s'. add_pending_timer frc2 ticks t s = Some s' \<and> pending known (as @ t # bs) s'
    \<and> fire_ticks (heap s' t) = ticks \<and> (\<forall>x. x \<noteq> t \<longrightarrow> fire_ticks (heap s' x) = fire_ticks (heap s x))
    \<and> same_timers s s'"
proof -
  have xs: "xs = as @ bs" by (simp add: as_def bs_def)
  have seg: "seg (heap s) (timer_list s) (as @ bs) 0" "distinct (as @ bs)" "t \<notin> set (as @ bs)" "t \<noteq> 0" "t \<noteq> ETS_TIMER_NOT_ARMED"
    "set (as @ bs) \<subseteq> known" "0 \<notin> known" "ETS_TIMER_NOT_ARMED \<notin> known"
    "\<forall>x \<in> known - set (as @ bs). timer_next (heap s x) = ETS_TIMER_NOT_ARMED"
    using assms(1-3) by (auto simp: pending_def xs)
  define cur where "cur = (if bs = [] then 0 else hd bs)"
  have place: "find_place (heap s) ticks 0 (timer_list s) = Some (if as = [] then 0 else last as, cur)"
    using find_place_list [OF seg(1) [folded xs], of ticks 0] by (simp add: as_def bs_def before_def behind_def Let_def cur_def)
  have cur: "cur \<noteq> t" using seg(3,4) by (auto simp: cur_def)
  let ?r = "(heap s t)\<lparr>timer_next := cur, fire_ticks := ticks\<rparr>"
  show ?thesis
  proof (cases "as = []")
    case True
    let ?s = "set_alarm frc2 ticks (s\<lparr>heap := (heap s)(t := ?r), timer_list := t\<rparr>)"
    have "add_pending_timer frc2 ticks t s = Some ?s"
      using place True cur by (simp add: add_pending_timer_def set_timer_def Let_def)
    moreover have "seg (heap s) cur bs 0" using seg(1) True seg_hd [of "heap s" "timer_list s" bs] by (simp add: cur_def)
    then have "pending known (as @ t # bs) ?s" using seg True assms(2) by (auto simp: pending_def)
    ultimately show ?thesis by (auto simp: same_timers_def)
  next
    case False
    let ?l = "last as"
    have l: "?l \<in> set as" "?l \<noteq> t" "?l \<noteq> 0" using False seg(1,3) seg_nonzero [OF seg(1)] by auto
    let ?h = "(heap s)(t := ?r, ?l := (heap s ?l)\<lparr>timer_next := t\<rparr>)"
    have "add_pending_timer frc2 ticks t s = Some (s\<lparr>heap := ?h\<rparr>)"
      using place False cur l by (simp add: add_pending_timer_def set_timer_def Let_def)
    moreover have "seg ?h (timer_list s) (as @ t # bs) 0"
      using False cur_def by (intro seg_insert seg(1-5)) simp_all
    then have "pending known (as @ t # bs) (s\<lparr>heap := ?h\<rparr>)"
      using seg assms(2) l by (auto simp: pending_def)
    ultimately show ?thesis using l by (auto simp: same_timers_def)
  qed
qed

lemma insert_in_order:
  assumes "in_order base h xs" "ticks < 2 ^ 32" "off base ticks < 2 ^ 31"
    and "fire_ticks (h' t) = ticks" "\<And>x. x \<in> set xs \<Longrightarrow> fire_ticks (h' x) = fire_ticks (h x)"
  shows "in_order base h' (before h ticks xs @ t # behind h ticks xs)"
proof -
  let ?o = "\<lambda>x. off base (fire_ticks (h x))"
  have cmp: "ticks_diff ticks (fire_ticks (h x)) < 1 \<longleftrightarrow> off base ticks \<le> ?o x" if "x \<in> set xs" for x
    using that assms(1-3) by (intro ticks_diff_off) (auto simp: in_order_def)
  have lt: "?o x < off base ticks" if "x \<in> set (before h ticks xs)" for x
    using that cmp set_takeWhileD [of x _ xs] by (fastforce simp: before_def)
  have ge: "off base ticks \<le> ?o x" if "x \<in> set (behind h ticks xs)" for x
  proof -
    have "behind h ticks xs \<noteq> []" using that by auto
    then obtain b bs where b: "behind h ticks xs = b # bs" by (meson neq_Nil_conv)
    then have "ticks_diff ticks (fire_ticks (h b)) < 1" by (simp add: behind_def dropWhile_eq_Cons_conv)
    moreover have sub: "set (behind h ticks xs) \<subseteq> set xs" by (auto simp: behind_def dest: set_dropWhileD)
    ultimately have "off base ticks \<le> ?o b" using cmp b by auto
    moreover have "in_order base h (behind h ticks xs)"
      using assms(1) in_order_append [of base h "before h ticks xs" "behind h ticks xs"] by simp
    ultimately show ?thesis using that b by (auto simp: in_order_def)
  qed
  have o: "in_order base h (before h ticks xs)" "in_order base h (behind h ticks xs)"
    using assms(1) in_order_append [of base h "before h ticks xs" "behind h ticks xs"] by simp_all
  have sub: "set (before h ticks xs) \<subseteq> set xs" "set (behind h ticks xs) \<subseteq> set xs"
    by (auto simp: before_def behind_def dest: set_takeWhileD set_dropWhileD)
  have eq: "x \<in> set (before h ticks xs) \<union> set (behind h ticks xs) \<Longrightarrow> fire_ticks (h' x) = fire_ticks (h x)" for x
    using assms(5) sub by auto
  have "in_order base h' (before h ticks xs)" "in_order base h' (behind h ticks xs)"
    using o eq in_order_cong [of _ h' h] by simp_all
  moreover have "in_order base h' [t]" using assms(1-4) by (simp add: in_order_def)
  moreover have "off base (fire_ticks (h' x)) \<le> off base (fire_ticks (h' y))"
    if "x \<in> set (before h ticks xs)" "y \<in> set (t # behind h ticks xs)" for x y
  proof -
    have "off base (fire_ticks (h' x)) \<le> off base ticks" using that(1) lt [of x] eq [of x] by simp
    moreover have "off base ticks \<le> off base (fire_ticks (h' y))"
      using that(2) ge [of y] eq [of y] assms(4) by auto
    ultimately show ?thesis by (rule le_trans)
  qed
  moreover have "off base (fire_ticks (h' t)) \<le> off base (fire_ticks (h' y))" if "y \<in> set (behind h ticks xs)" for y
    using that ge [of y] eq assms(4) by simp
  ultimately show ?thesis
    using in_order_append [of base h' "[t]" "behind h ticks xs"]
    by (subst in_order_append) simp
qed

section \<open>Removal\<close>

lemma unlink_list:
  assumes "seg (heap s) cur ys 0" "distinct ys" "seg (heap s) (timer_list s) (xs @ ys) 0" "t \<notin> set xs"
    and "prev = (if xs = [] then 0 else last xs)"
  shows "unlink t prev cur s = Some
    (if t \<notin> set ys then s
     else let ys1 = takeWhile (\<lambda>x. x \<noteq> t) (xs @ ys); n = timer_next (heap s t)
          in if ys1 = [] then s\<lparr>timer_list := n\<rparr> else set_timer (last ys1) (\<lambda>r. r\<lparr>timer_next := n\<rparr>) s)"
  using assms
proof (induction ys arbitrary: cur xs prev)
  case Nil
  then show ?case by (subst unlink.simps) simp
next
  case (Cons y ys)
  show ?case
  proof (cases "y = t")
    case True
    have tw: "takeWhile (\<lambda>x. x \<noteq> t) (xs @ t # ys) = xs" using Cons.prems(4) by (induction xs) auto
    have "xs \<noteq> [] \<Longrightarrow> last xs \<noteq> 0" using seg_nonzero [OF Cons.prems(3)] by auto
    then show ?thesis using Cons.prems True by (subst unlink.simps) (auto simp: tw Let_def)
  next
    case False
    have "unlink t prev cur s = unlink t y (timer_next (heap s y)) s"
      using Cons.prems False by (subst unlink.simps) auto
    also have "\<dots> = Some (if t \<notin> set ys then s
     else let ys1 = takeWhile (\<lambda>x. x \<noteq> t) ((xs @ [y]) @ ys); n = timer_next (heap s t)
          in if ys1 = [] then s\<lparr>timer_list := n\<rparr> else set_timer (last ys1) (\<lambda>r. r\<lparr>timer_next := n\<rparr>) s)"
      using Cons.prems False by (intro Cons.IH) auto
    finally show ?thesis using False by simp
  qed
qed

lemma disarm_list:
  assumes "pending known xs s" "t \<in> known"
  shows "\<exists>s'. sdk_ets_timer_disarm t s = Some s' \<and> pending known (remove1 t xs) s'
    \<and> timer_next (heap s' t) = ETS_TIMER_NOT_ARMED \<and> period_ticks (heap s' t) = 0
    \<and> (\<forall>x. fire_ticks (heap s' x) = fire_ticks (heap s x) \<and> (x \<noteq> t \<longrightarrow> period_ticks (heap s' x) = period_ticks (heap s x)))"
proof -
  have p: "seg (heap s) (timer_list s) xs 0" "distinct xs" "set xs \<subseteq> known" "0 \<notin> known" "ETS_TIMER_NOT_ARMED \<notin> known"
    "\<forall>x \<in> known - set xs. timer_next (heap s x) = ETS_TIMER_NOT_ARMED"
    using assms(1) by (auto simp: pending_def)
  note u = unlink_list [of s "timer_list s" xs "[]" t 0, simplified, OF p(1,2)]
  show ?thesis
  proof (cases "t \<in> set xs")
    case False
    then show ?thesis
      using u p assms(2) by (auto simp: sdk_ets_timer_disarm_def set_timer_def pending_def remove1_idem)
  next
    case True
    then obtain as bs where xs: "xs = as @ t # bs" "t \<notin> set as" by (meson split_list_first)
    have tw: "takeWhile (\<lambda>x. x \<noteq> t) xs = as" using xs by (auto simp: takeWhile_append)
    have b: "t \<notin> set bs" "seg (heap s) (timer_next (heap s t)) bs 0" using p(1,2) xs by auto
    have r: "remove1 t xs = as @ bs" using xs by (simp add: remove1_append)
    show ?thesis
    proof (cases "as = []")
      case True
      then show ?thesis using u p xs b tw r assms(2)
        by (auto simp: sdk_ets_timer_disarm_def set_timer_def pending_def Let_def)
    next
      case False
      then obtain cs l where as: "as = cs @ [l]" by (metis append_butlast_last_id)
      have l: "l \<noteq> t" "l \<notin> set cs" "l \<notin> set bs" "t \<notin> set cs" "last as = l" using p(2) xs as by auto
      have "seg (heap s) (timer_list s) cs l" "l \<noteq> 0" "l \<noteq> ETS_TIMER_NOT_ARMED" using p(1) xs as by auto
      then show ?thesis using u p xs b tw r assms(2) False l as
        by (auto simp: sdk_ets_timer_disarm_def set_timer_def pending_def Let_def)
    qed
  qed
qed

section \<open>Running the callbacks\<close>

text \<open>\<open>quiet cb\<close>: a callback does not touch timers, whatever it does besides.\<close>

definition quiet :: "(nat \<Rightarrow> nat \<Rightarrow> ets \<Rightarrow> ets) \<Rightarrow> bool" where
  "quiet cb \<longleftrightarrow> (\<forall>f a s. heap (cb f a s) = heap s \<and> timer_list (cb f a s) = timer_list s \<and> reads (cb f a s) = reads s)"

definition due :: "timer_heap \<Rightarrow> nat \<Rightarrow> nat \<Rightarrow> bool" where
  "due h ticks t \<longleftrightarrow> ticks_diff (fire_ticks (h t)) ticks < 1"

lemma pending_pop:
  assumes "pending known (t # xs) s"
  shows "pending known xs (set_timer t (\<lambda>r. r\<lparr>timer_next := ETS_TIMER_NOT_ARMED\<rparr>) (s\<lparr>timer_list := timer_next (heap s t)\<rparr>))"
  using assms by (auto simp: pending_def set_timer_def)

lemma process_one_shots:
  assumes "quiet cb" "pending known xs s" "\<forall>t \<in> set xs. period_ticks (heap s t) = 0"
  shows "\<exists>n s'. process_loop frc2 cb ticks fired s = Some (fired @ take n xs, s') \<and> n \<le> length xs
    \<and> pending known (drop n xs) s' \<and> (\<forall>x. fire_ticks (heap s' x) = fire_ticks (heap s x))
    \<and> (\<forall>i < n. due (heap s) (if i = 0 then ticks else frc2 (reads s + i - 1)) (xs ! i))
    \<and> (n < length xs \<longrightarrow> \<not> due (heap s) (if n = 0 then ticks else frc2 (reads s + n - 1)) (xs ! n)
        \<and> (\<exists>s1. s' = set_alarm frc2 (fire_ticks (heap s (xs ! n))) s1))"
  using assms(2,3)
proof (induction xs arbitrary: s ticks fired)
  case Nil
  then have "process_loop frc2 cb ticks fired s = Some (fired, s)" by (subst process_loop.simps) (simp add: pending_def)
  then show ?case using Nil.prems by (intro exI [of _ 0]) auto
next
  case (Cons t xs)
  have t: "timer_list s = t" "t \<noteq> 0" using Cons.prems(1) by (auto simp: pending_def)
  show ?case
  proof (cases "due (heap s) ticks t")
    case False
    then have "process_loop frc2 cb ticks fired s = Some (fired, set_alarm frc2 (fire_ticks (heap s t)) s)"
      using t by (subst process_loop.simps) (simp add: due_def)
    moreover have "pending known (t # xs) (set_alarm frc2 (fire_ticks (heap s t)) s)"
      using Cons.prems(1) by (simp add: pending_def)
    ultimately show ?thesis using False by (intro exI [of _ 0]) auto
  next
    case True
    let ?s1 = "set_timer t (\<lambda>r. r\<lparr>timer_next := ETS_TIMER_NOT_ARMED\<rparr>) (s\<lparr>timer_list := timer_next (heap s t)\<rparr>)"
    let ?s2 = "cb (callback (heap ?s1 t)) (timer_arg (heap ?s1 t)) ?s1"
    let ?s3 = "?s2\<lparr>reads := reads ?s2 + 1\<rparr>"
    have q: "heap ?s2 = heap ?s1" "timer_list ?s2 = timer_list ?s1" "reads ?s2 = reads s"
      using assms(1) by (simp_all add: quiet_def set_timer_def)
    have "process_loop frc2 cb ticks fired s = process_loop frc2 cb (frc2 (reads s)) (fired @ [t]) ?s3"
      using t True Cons.prems(2) q
      by (subst process_loop.simps) (simp add: due_def Let_def set_timer_def)
    moreover have p3: "pending known xs ?s3" using pending_pop [OF Cons.prems(1)] q by (simp add: pending_def)
    have h3: "fire_ticks (heap ?s3 x) = fire_ticks (heap s x)" "period_ticks (heap ?s3 x) = period_ticks (heap s x)" for x
      using q by (simp_all add: set_timer_def)
    have d3: "due (heap ?s3) k x = due (heap s) k x" for k x using h3 by (simp add: due_def)
    have r3: "reads ?s3 = reads s + 1" using q by simp
    obtain n s' where n: "process_loop frc2 cb (frc2 (reads s)) (fired @ [t]) ?s3 = Some ((fired @ [t]) @ take n xs, s')"
      "n \<le> length xs" "pending known (drop n xs) s'" "\<forall>x. fire_ticks (heap s' x) = fire_ticks (heap ?s3 x)"
      "\<forall>i < n. due (heap s) (if i = 0 then frc2 (reads s) else frc2 (reads s + 1 + i - 1)) (xs ! i)"
      "n < length xs \<longrightarrow> \<not> due (heap s) (if n = 0 then frc2 (reads s) else frc2 (reads s + 1 + n - 1)) (xs ! n)
        \<and> (\<exists>s1. s' = set_alarm frc2 (fire_ticks (heap s (xs ! n))) s1)"
      using Cons.IH [OF p3, of "frc2 (reads s)" "fired @ [t]"] Cons.prems(2) unfolding h3 d3 r3 by auto
    ultimately have "process_loop frc2 cb ticks fired s = Some (fired @ take (Suc n) (t # xs), s')" by simp
    moreover have "\<forall>i < Suc n. due (heap s) (if i = 0 then ticks else frc2 (reads s + i - 1)) ((t # xs) ! i)"
      using n(5) True by (auto simp: less_Suc_eq_0_disj split: if_splits)
    moreover have "Suc n < length (t # xs) \<longrightarrow> \<not> due (heap s) (frc2 (reads s + Suc n - 1)) ((t # xs) ! Suc n)
        \<and> (\<exists>s1. s' = set_alarm frc2 (fire_ticks (heap s ((t # xs) ! Suc n))) s1)"
      using n(6) by (cases n) auto
    ultimately show ?thesis using n(2,3,4) h3 by (intro exI [of _ "Suc n"] exI [of _ s'] conjI) simp_all
  qed
qed

lemma process_periodic:
  assumes "quiet cb" "pending known (t # xs) s" "period_ticks (heap s t) \<noteq> 0" "due (heap s) ticks t"
  shows "\<exists>s3. process_loop frc2 cb ticks fired s = process_loop frc2 cb (frc2 (reads s3)) (fired @ [t]) (s3\<lparr>reads := reads s3 + 1\<rparr>)
    \<and> pending known (before (heap s) (u32 (fire_ticks (heap s t) + period_ticks (heap s t))) xs
        @ t # behind (heap s) (u32 (fire_ticks (heap s t) + period_ticks (heap s t))) xs) s3
    \<and> fire_ticks (heap s3 t) = u32 (fire_ticks (heap s t) + period_ticks (heap s t))
    \<and> (\<forall>x. x \<noteq> t \<longrightarrow> fire_ticks (heap s3 x) = fire_ticks (heap s x)) \<and> same_timers s s3
    \<and> (xs = [] \<longrightarrow> reads s3 = reads s + 1)"
proof -
  let ?f = "u32 (fire_ticks (heap s t) + period_ticks (heap s t))"
  let ?s1 = "set_timer t (\<lambda>r. r\<lparr>timer_next := ETS_TIMER_NOT_ARMED\<rparr>) (s\<lparr>timer_list := timer_next (heap s t)\<rparr>)"
  let ?s2 = "cb (callback (heap ?s1 t)) (timer_arg (heap ?s1 t)) ?s1"
  let ?s = "set_timer t (\<lambda>r. r\<lparr>fire_ticks := ?f\<rparr>) ?s2"
  have t: "timer_list s = t" "t \<noteq> 0" "t \<in> known" "t \<notin> set xs" using assms(2) by (auto simp: pending_def)
  have q: "heap ?s2 = heap ?s1" "timer_list ?s2 = timer_list ?s1" "reads ?s2 = reads s"
    using assms(1) by (simp_all add: quiet_def set_timer_def)
  have p2: "pending known xs ?s2" using pending_pop [OF assms(2)] q by (simp add: pending_def)
  have "seg (heap ?s) p xs 0 = seg (heap ?s2) p xs 0" for p using t(4) by (intro seg_next) (auto simp: set_timer_def)
  then have p: "pending known xs ?s" using p2 by (auto simp: pending_def set_timer_def)
  have h: "x \<noteq> t \<Longrightarrow> fire_ticks (heap ?s x) = fire_ticks (heap s x)" for x using q by (simp add: set_timer_def)
  have same: "before (heap ?s) ?f xs = before (heap s) ?f xs" "behind (heap ?s) ?f xs = behind (heap s) ?f xs"
    unfolding before_def behind_def
    by (intro takeWhile_cong dropWhile_cong refl; use h t(4) in force)+
  obtain s3 where s3: "add_pending_timer frc2 ?f t ?s = Some s3" "pending known (before (heap s) ?f xs @ t # behind (heap s) ?f xs) s3"
    "fire_ticks (heap s3 t) = ?f" "\<forall>x. x \<noteq> t \<longrightarrow> fire_ticks (heap s3 x) = fire_ticks (heap ?s x)" "same_timers ?s s3"
    using add_pending_timer_list [OF p t(3,4), of frc2 ?f] unfolding same by blast
  have "process_loop frc2 cb ticks fired s = process_loop frc2 cb (frc2 (reads s3)) (fired @ [t]) (s3\<lparr>reads := reads s3 + 1\<rparr>)"
  proof -
    have "timer_next (heap ?s2 t) = ETS_TIMER_NOT_ARMED" "period_ticks (heap ?s2 t) = period_ticks (heap s t)"
      "fire_ticks (heap ?s2 t) = fire_ticks (heap s t)" using q by (simp_all add: set_timer_def)
    then show ?thesis
      using t(1,2) assms(3,4) s3(1) by (subst process_loop.simps) (simp add: due_def Let_def)
  qed
  moreover have "xs = [] \<Longrightarrow> reads s3 = reads s + 1"
  proof -
    assume "xs = []"
    then have "timer_list ?s = 0" using p by (simp add: pending_def)
    then have "s3 = set_alarm frc2 ?f ((set_timer t (\<lambda>r. r\<lparr>timer_next := 0, fire_ticks := ?f\<rparr>) ?s)\<lparr>timer_list := t\<rparr>)"
      using s3(1) t(2) by (simp add: add_pending_timer_def find_place.simps Let_def split: if_splits)
    then show ?thesis using q(3) by (simp add: set_alarm_def set_alarm_value_def Let_def set_timer_def)
  qed
  moreover have "same_timers s s3" using s3(5) q by (auto simp: same_timers_def set_timer_def)
  ultimately show ?thesis using s3 h by auto
qed

section \<open>Properties\<close>

text \<open>
  C34. Arming a timer that is not pending succeeds, makes exactly this timer pending with the
  requested fire time and, if asked for, its period, and keeps the list in firing order, as
  long as all fire times lie within half of the range of the counter after a base time.
\<close>

theorem arm_keeps_order:
  assumes "pending known xs s" "in_order base (heap s) xs" "t \<in> known" "t \<notin> set xs"
    and "f = u32 (frc2 (reads s) + (if value_in_ms then u32 (v * 5000) else u32 (v * 5)))" "off base f < 2 ^ 31"
  shows "\<exists>s' xs'. sdk_ets_timer_arm_ms_us frc2 t v repeat_flag value_in_ms s = Some s'
    \<and> pending known xs' s' \<and> in_order base (heap s') xs' \<and> remove1 t xs' = xs \<and> t \<in> set xs'
    \<and> fire_ticks (heap s' t) = f
    \<and> period_ticks (heap s' t) = (if repeat_flag then if value_in_ms then u32 (v * 5000) else u32 (v * 5) else period_ticks (heap s t))"
proof -
  define ticks where "ticks = (if value_in_ms then u32 (v * 5000) else u32 (v * 5))"
  define s1 where "s1 = (if repeat_flag then set_timer t (\<lambda>r. r\<lparr>period_ticks := ticks\<rparr>) s else s)\<lparr>reads := reads s + 1\<rparr>"
  have na: "timer_next (heap s t) = ETS_TIMER_NOT_ARMED" using assms(1,3,4) by (auto simp: pending_def)
  have h: "fire_ticks (heap s1 x) = fire_ticks (heap s x)" "timer_next (heap s1 x) = timer_next (heap s x)"
    "timer_list s1 = timer_list s" for x
    by (simp_all add: s1_def set_timer_def)
  have p: "pending known xs s1" using assms(1) seg_next [of xs "heap s1" "heap s"] h by (auto simp: pending_def)
  have o: "in_order base (heap s1) xs" using assms(2) in_order_cong [of xs "heap s1" "heap s"] h by simp
  have arm: "sdk_ets_timer_arm_ms_us frc2 t v repeat_flag value_in_ms s = add_pending_timer frc2 f t s1"
    using na assms(5) by (simp add: sdk_ets_timer_arm_ms_us_def s1_def ticks_def Let_def set_timer_def)
  let ?xs = "before (heap s1) f xs @ t # behind (heap s1) f xs"
  obtain s' where s': "add_pending_timer frc2 f t s1 = Some s'" "pending known ?xs s'" "fire_ticks (heap s' t) = f"
    "\<forall>x. x \<noteq> t \<longrightarrow> fire_ticks (heap s' x) = fire_ticks (heap s1 x)" "same_timers s1 s'"
    using add_pending_timer_list [OF p assms(3,4), of frc2 f] by blast
  have "in_order base (heap s') ?xs"
    using s'(3,4) assms(4-6) by (intro insert_in_order [OF o]) auto
  moreover have "t \<notin> set (before (heap s1) f xs)" using assms(4) by (auto simp: before_def dest: set_takeWhileD)
  then have "remove1 t ?xs = xs" by (simp add: remove1_append)
  moreover have "period_ticks (heap s' t) = (if repeat_flag then ticks else period_ticks (heap s t))"
    using s'(5) by (simp add: same_timers_def s1_def set_timer_def)
  ultimately show ?thesis
    using arm s' by (intro exI [of _ s'] exI [of _ ?xs]) (simp add: ticks_def)
qed

text \<open>Three timers that were set up; the first fires at 500, the second at 900.\<close>

definition timer_at :: "nat \<Rightarrow> nat \<Rightarrow> nat \<Rightarrow> ets_timer" where
  "timer_at n f p = \<lparr>timer_next = n, fire_ticks = f, period_ticks = p, callback = 0, timer_arg = 0\<rparr>"

definition sample_ets :: "nat \<Rightarrow> ets" where
  "sample_ets p = \<lparr>heap = (\<lambda>t. if t = 1 then timer_at 2 500 p else if t = 2 then timer_at 0 900 0
     else timer_at ETS_TIMER_NOT_ARMED 0 0), timer_list = 1, alarm = 500, reads = 0, frc2_ctrl = 0, frc2_load = 0, int_enable = 0,
     isr_mask = 0, isr_attached = True, task_created = True\<rparr>"

lemma sample_pending: "pending {1, 2, 3} [1, 2] (sample_ets p)"
  by (simp add: pending_def sample_ets_def timer_at_def ETS_TIMER_NOT_ARMED_def)

lemma sample_in_order: "in_order 0 (heap (sample_ets p)) [1, 2]"
  by (simp add: in_order_def sample_ets_def timer_at_def off_def)

theorem arm_keeps_order_witness:
  "\<exists>s' xs'. sdk_ets_timer_arm_us (\<lambda>_. 100) 3 100 False (sample_ets 0) = Some s' \<and> pending {1, 2, 3} xs' s'
    \<and> in_order 0 (heap s') xs' \<and> remove1 3 xs' = [1, 2] \<and> fire_ticks (heap s' 3) = 600"
  using arm_keeps_order [of "{1, 2, 3}" "[1, 2]" "sample_ets 0" 0 3 600 "\<lambda>_. 100" False 100 False]
    sample_pending [of 0] sample_in_order [of 0]
  by (auto simp: sdk_ets_timer_arm_us_def off_def sample_ets_def)

text \<open>
  Disarming a timer removes it from the pending timers, if it is one, marks it as not
  armed, stops its repetition and keeps the others in order.
\<close>

theorem disarm_removes_timer:
  assumes "pending known xs s" "in_order base (heap s) xs" "t \<in> known"
  shows "\<exists>s'. sdk_ets_timer_disarm t s = Some s' \<and> pending known (remove1 t xs) s' \<and> in_order base (heap s') (remove1 t xs)
    \<and> t \<notin> set (remove1 t xs) \<and> timer_next (heap s' t) = ETS_TIMER_NOT_ARMED \<and> period_ticks (heap s' t) = 0"
proof -
  obtain s' where s': "sdk_ets_timer_disarm t s = Some s'" "pending known (remove1 t xs) s'"
    "timer_next (heap s' t) = ETS_TIMER_NOT_ARMED" "period_ticks (heap s' t) = 0"
    "\<forall>x. fire_ticks (heap s' x) = fire_ticks (heap s x)"
    using disarm_list [OF assms(1,3)] by blast
  have "in_order base (heap s) (remove1 t xs)"
  proof (cases "t \<in> set xs")
    case True
    then obtain as bs where "xs = as @ t # bs" "t \<notin> set as" by (meson split_list_first)
    then show ?thesis
      using assms(2) in_order_append [of base "heap s" as "t # bs"] in_order_append [of base "heap s" "[t]" bs]
        in_order_append [of base "heap s" as bs] by (simp add: remove1_append)
  qed (use assms(2) in \<open>simp add: remove1_idem\<close>)
  then have "in_order base (heap s') (remove1 t xs)" using s'(5) in_order_cong [of _ "heap s'" "heap s"] by simp
  moreover have "t \<notin> set (remove1 t xs)" using assms(1) by (simp add: pending_def)
  ultimately show ?thesis using s' by blast
qed

theorem disarm_removes_timer_witness:
  "\<exists>s'. sdk_ets_timer_disarm 1 (sample_ets 0) = Some s' \<and> pending {1, 2, 3} [2] s'"
  using disarm_removes_timer [OF sample_pending sample_in_order, of 1] by auto

text \<open>
  With callbacks that leave the timers alone and one-shot timers, \<open>process_pending_timers\<close>
  returns, has run the callbacks of a prefix of the list in order, each of them due at the
  time read before it, leaves the rest pending, and stops at a timer that is not due, for
  which it sets the alarm.
\<close>

theorem one_shots_fire_in_order:
  assumes "quiet cb" "pending known xs s" "\<forall>t \<in> set xs. period_ticks (heap s t) = 0"
  shows "\<exists>n s'. process_pending_timers frc2 cb s = Some (take n xs, s') \<and> n \<le> length xs \<and> pending known (drop n xs) s'
    \<and> (\<forall>i < n. due (heap s) (frc2 (reads s + i)) (xs ! i))
    \<and> (n < length xs \<longrightarrow> \<not> due (heap s) (frc2 (reads s + n)) (xs ! n)
        \<and> (\<exists>s1. s' = set_alarm frc2 (fire_ticks (heap s (xs ! n))) s1))"
proof -
  let ?s = "s\<lparr>reads := reads s + 1\<rparr>"
  have p: "pending known xs ?s" using assms(2) by (simp add: pending_def)
  have "\<forall>t \<in> set xs. period_ticks (heap ?s t) = 0" using assms(3) by simp
  from process_one_shots [OF assms(1) p this, of frc2 "frc2 (reads s)" "[]"]
  obtain n s' where n: "process_loop frc2 cb (frc2 (reads s)) [] ?s = Some ([] @ take n xs, s')" "n \<le> length xs"
    "pending known (drop n xs) s'" "\<forall>i < n. due (heap ?s) (if i = 0 then frc2 (reads s) else frc2 (reads ?s + i - 1)) (xs ! i)"
    "n < length xs \<longrightarrow> \<not> due (heap ?s) (if n = 0 then frc2 (reads s) else frc2 (reads ?s + n - 1)) (xs ! n)
        \<and> (\<exists>s1. s' = set_alarm frc2 (fire_ticks (heap ?s (xs ! n))) s1)"
    by blast
  have r: "(if i = 0 then frc2 (reads s) else frc2 (reads ?s + i - 1)) = frc2 (reads s + i)" for i by simp
  have "\<forall>i < n. due (heap s) (frc2 (reads s + i)) (xs ! i)" using n(4) unfolding r by simp
  moreover have "n < length xs \<longrightarrow> \<not> due (heap s) (frc2 (reads s + n)) (xs ! n)
        \<and> (\<exists>s1. s' = set_alarm frc2 (fire_ticks (heap s (xs ! n))) s1)" using n(5) unfolding r by simp
  ultimately show ?thesis using n(1-3) by (auto simp: process_pending_timers_def)
qed

theorem one_shots_fire_in_order_witness:
  "\<exists>s'. process_pending_timers (\<lambda>_. 600) (\<lambda>f a s. s) (sample_ets 0) = Some ([1], s') \<and> pending {1, 2, 3} [2] s'"
proof -
  have q: "quiet (\<lambda>f a s. s)" by (simp add: quiet_def)
  have d: "due (heap (sample_ets 0)) 600 1" "\<not> due (heap (sample_ets 0)) 600 2"
    by (simp_all add: due_def sample_ets_def timer_at_def ticks_diff_def s32_def u32_sub_def)
  have "\<forall>t \<in> set [1, 2]. period_ticks (heap (sample_ets 0) t) = 0" by (simp add: sample_ets_def timer_at_def)
  then obtain n s' where n: "process_pending_timers (\<lambda>_. 600) (\<lambda>f a s. s) (sample_ets 0) = Some (take n [1, 2], s')"
    "n \<le> 2" "pending {1, 2, 3} (drop n [1, 2]) s'" "\<forall>i < n. due (heap (sample_ets 0)) 600 ([1, 2] ! i)"
    "n < 2 \<longrightarrow> \<not> due (heap (sample_ets 0)) 600 ([1, 2] ! n)"
    using one_shots_fire_in_order [OF q sample_pending, of 0 "\<lambda>_. 600"] by auto
  have "n = 1"
  proof (rule ccontr)
    assume "n \<noteq> 1"
    then consider "n = 0" | "n = 2" using n(2) by linarith
    then show False using n(4,5) d by cases (auto dest: spec [of _ 1])
  qed
  then show ?thesis using n by auto
qed

text \<open>
  A repeating timer that is due runs once and is pending again one period after the time
  it was meant to fire, not after the time it ran.
\<close>

theorem periodic_timer_refires:
  assumes "quiet cb" "pending known [t] s" "period_ticks (heap s t) \<noteq> 0" "due (heap s) (frc2 (reads s)) t"
    and "f = u32 (fire_ticks (heap s t) + period_ticks (heap s t))" "\<not> ticks_diff f (frc2 (reads s + 2)) < 1"
  shows "\<exists>s'. process_pending_timers frc2 cb s = Some ([t], s') \<and> pending known [t] s' \<and> fire_ticks (heap s' t) = f
    \<and> period_ticks (heap s' t) = period_ticks (heap s t)"
proof -
  let ?s = "s\<lparr>reads := reads s + 1\<rparr>"
  have p: "pending known [t] ?s" using assms(2) by (simp add: pending_def)
  obtain s3 where s3: "process_loop frc2 cb (frc2 (reads s)) [] ?s = process_loop frc2 cb (frc2 (reads s3)) [t] (s3\<lparr>reads := reads s3 + 1\<rparr>)"
    "pending known [t] s3" "fire_ticks (heap s3 t) = f" "same_timers s s3" "reads s3 = reads s + 2"
    using process_periodic [OF assms(1) p, of "frc2 (reads s)" frc2 "[]"] assms(3-5)
    by (auto simp: before_def behind_def same_timers_def)
  have "timer_list s3 = t" "t \<noteq> 0" using s3(2) by (auto simp: pending_def)
  then have "process_loop frc2 cb (frc2 (reads s3)) [t] (s3\<lparr>reads := reads s3 + 1\<rparr>)
      = Some ([t], set_alarm frc2 f (s3\<lparr>reads := reads s3 + 1\<rparr>))"
    using s3(3,5) assms(6) by (subst process_loop.simps) simp
  then show ?thesis
    using s3 by (simp add: process_pending_timers_def pending_def same_timers_def)
qed

definition sample_periodic :: ets where
  "sample_periodic = \<lparr>heap = (\<lambda>t. timer_at 0 500 5000), timer_list = 1, alarm = 500, reads = 0, frc2_ctrl = 0, frc2_load = 0, int_enable = 0,
     isr_mask = 0, isr_attached = True, task_created = True\<rparr>"

theorem periodic_timer_refires_witness:
  "\<exists>s'. process_pending_timers (\<lambda>_. 600) (\<lambda>f a s. s) sample_periodic = Some ([1], s') \<and> fire_ticks (heap s' 1) = 5500"
proof -
  have "pending {1} [1] sample_periodic" by (simp add: pending_def sample_periodic_def timer_at_def ETS_TIMER_NOT_ARMED_def)
  then show ?thesis
    using periodic_timer_refires [of "\<lambda>f a s. s" "{1}" 1 sample_periodic "\<lambda>_. 600" 5500]
    by (auto simp: quiet_def due_def sample_periodic_def timer_at_def ticks_diff_def s32_def u32_sub_def)
qed

text \<open>
  The alarm register is always set to a time ahead of the counter, between 40 ticks and
  half of its range, so that the match is not missed, and it is the requested time itself
  whenever this is more than 40 ticks ahead.
\<close>

theorem alarm_is_ahead:
  assumes "ticks < 2 ^ 32" "frc2 (reads s) < 2 ^ 32"
  shows "40 \<le> u32_sub (alarm (set_alarm frc2 ticks s)) (frc2 (reads s))
    \<and> u32_sub (alarm (set_alarm frc2 ticks s)) (frc2 (reads s)) < 2 ^ 31
    \<and> (40 < ticks_diff ticks (frc2 (reads s)) \<longrightarrow> alarm (set_alarm frc2 ticks s) = ticks)"
proof -
  define c where "c = frc2 (reads s)"
  have c: "c < 4294967296" "ticks < 4294967296" using assms by (simp_all add: c_def)
  have d: "ticks_diff ticks c = (let k = u32_sub ticks c in if k < 2147483648 then int k else int k - 4294967296)"
    by (simp add: ticks_diff_def s32_def Let_def)
  have a: "alarm (set_alarm frc2 ticks s) = (if ticks_diff ticks c - 40 < 1
      then if ticks_diff ticks c < 1 then u32 (c + 40) else u32 (ticks + 44) else ticks)"
    by (simp add: set_alarm_def set_alarm_value_def c_def Let_def)
  have w: "u32 (x + k) = (if x + k < 4294967296 then x + k else x + k - 4294967296)" if "x < 4294967296" "k < 100" for x k
    using that by (simp add: u32_def mod_if)
  have k: "u32_sub ticks c = (if c \<le> ticks then ticks - c else ticks + 4294967296 - c)" using c by (simp add: u32_sub_if)
  have 1: "u32_sub (u32 (c + 40)) c = 40" using c w [of c 40] u32_lt' [of "c + 40"] by (simp add: u32_sub_if) linarith
  have 2: "u32_sub (u32 (ticks + 44)) c = u32_sub ticks c + 44" if "u32_sub ticks c \<le> 40"
    using that c k w [of ticks 44] u32_lt' [of "ticks + 44"] by (simp add: u32_sub_if split: if_splits) linarith+
  obtain j where j: "u32_sub ticks c = j" "j < 4294967296" by simp
  show ?thesis
    unfolding c_def [symmetric] a using 1 2 d j by (auto simp: Let_def split: if_splits)
qed

theorem alarm_is_ahead_witness: "alarm (set_alarm (\<lambda>_. 4294967290) 100 (sample_ets 0)) = 100"
  using alarm_is_ahead [of 100 "\<lambda>_. 4294967290" "sample_ets 0"]
  by (simp add: ticks_diff_def s32_def u32_sub_def)

text \<open>
  Arming a timer that is already pending does not return: the code stops in an endless
  loop, whatever the arguments.
\<close>

theorem arm_pending_halts:
  assumes "pending known xs s" "t \<in> set xs"
  shows "sdk_ets_timer_arm_ms_us frc2 t v repeat_flag value_in_ms s = None"
  using seg_NOT_ARMED [of "heap s" "timer_list s" xs t] assms
  by (simp add: sdk_ets_timer_arm_ms_us_def pending_def)

theorem arm_pending_halts_witness: "sdk_ets_timer_arm (\<lambda>_. 0) 2 10 True (sample_ets 0) = None"
  using arm_pending_halts [OF sample_pending, of 2] by (simp add: sdk_ets_timer_arm_def)

end
