(* ===== verification/Ets_timer_Run.thy ===== *)
theory Ets_timer_Run
  imports Ets_timer_List "HOL-Library.Sublist"
begin

text \<open>
  A run of the timer task with repeating timers and with callbacks that arm and disarm timers
  themselves: what such a callback may do (\<open>callbacks_ok\<close>), that callbacks made of the operations of
  the component keep to it, and what the run of the due timers then does.
\<close>

section \<open>The contract of a callback\<close>

text \<open>
  The run takes place between \<open>base\<close> and \<open>horizon\<close> ticks later: all clock values read in it lie there.
  \<open>early\<close> are the timers that can become due during the run. A period is longer than the run.
\<close>

definition early :: "nat \<Rightarrow> nat \<Rightarrow> timer_heap \<Rightarrow> nat \<Rightarrow> bool" where
  "early base horizon h x \<longleftrightarrow> off base (fire_ticks (h x)) \<le> horizon"

definition timers_ok :: "nat set \<Rightarrow> nat \<Rightarrow> nat \<Rightarrow> nat list \<Rightarrow> ets \<Rightarrow> bool" where
  "timers_ok known base horizon xs s \<longleftrightarrow> pending known xs s \<and> in_order base (heap s) xs
     \<and> (\<forall>t \<in> known. period_ticks (heap s t) = 0 \<or> horizon < period_ticks (heap s t) \<and> horizon + period_ticks (heap s t) < 2 ^ 31)"

text \<open>
  What may change: early timers are only removed, so that timers that are armed fire after the run; a
  timer that is not pending afterwards has been disarmed or is left alone.
\<close>

definition allowed :: "nat set \<Rightarrow> nat \<Rightarrow> nat \<Rightarrow> nat list \<Rightarrow> ets \<Rightarrow> nat list \<Rightarrow> ets \<Rightarrow> bool" where
  "allowed known base horizon xs s xs' s' \<longleftrightarrow> reads s \<le> reads s'
     \<and> subseq (filter (early base horizon (heap s')) xs') (filter (early base horizon (heap s)) xs)
     \<and> (\<forall>x \<in> set xs'. early base horizon (heap s') x \<longrightarrow> fire_ticks (heap s' x) = fire_ticks (heap s x))
     \<and> (\<forall>x \<in> known - set xs'. period_ticks (heap s' x) = 0
          \<or> x \<notin> set xs \<and> fire_ticks (heap s' x) = fire_ticks (heap s x) \<and> period_ticks (heap s' x) = period_ticks (heap s x))"

definition callbacks_ok :: "nat set \<Rightarrow> nat \<Rightarrow> nat \<Rightarrow> (nat \<Rightarrow> nat \<Rightarrow> ets \<Rightarrow> ets) \<Rightarrow> bool" where
  "callbacks_ok known base horizon cb \<longleftrightarrow> (\<forall>f a s xs. timers_ok known base horizon xs s
     \<longrightarrow> (\<exists>xs'. timers_ok known base horizon xs' (cb f a s) \<and> allowed known base horizon xs s xs' (cb f a s)))"

text \<open>No callback touches the timer \<open>t\<close>, apart from the links of the list.\<close>

definition leaves_alone :: "nat set \<Rightarrow> nat \<Rightarrow> nat \<Rightarrow> (nat \<Rightarrow> nat \<Rightarrow> ets \<Rightarrow> ets) \<Rightarrow> nat \<Rightarrow> bool" where
  "leaves_alone known base horizon cb t \<longleftrightarrow> (\<forall>f a s xs. timers_ok known base horizon xs s
     \<longrightarrow> fire_ticks (heap (cb f a s) t) = fire_ticks (heap s t) \<and> period_ticks (heap (cb f a s) t) = period_ticks (heap s t)
       \<and> (timer_next (heap (cb f a s) t) = ETS_TIMER_NOT_ARMED \<longleftrightarrow> timer_next (heap s t) = ETS_TIMER_NOT_ARMED))"

lemma early_eq: "early base horizon h = (\<lambda>x. off base (fire_ticks (h x)) \<le> horizon)"
  by (simp add: fun_eq_iff early_def)

lemma subseq_in: "subseq xs ys \<Longrightarrow> x \<in> set xs \<Longrightarrow> x \<in> set ys"
  using list_emb_set [of "(=)" xs ys x] by blast

lemma set_before_behind: "set xs = set (before h f xs) \<union> set (behind h f xs)"
  by (metis before_behind set_append)

lemma pending_armed: "pending known xs s \<Longrightarrow> t \<in> known \<Longrightarrow> t \<in> set xs \<longleftrightarrow> timer_next (heap s t) \<noteq> ETS_TIMER_NOT_ARMED"
  using seg_NOT_ARMED [of "heap s" "timer_list s" xs t] by (auto simp: pending_def)

lemma off_lt [simp]: "off base x < 4294967296"
  by (simp add: off_def u32_sub_def)

lemma off_add:
  assumes "x < 2 ^ 32" "base < 2 ^ 32" "off base x + p < 2 ^ 32"
  shows "off base (u32 (x + p)) = off base x + p"
  using assms by (auto simp: off_def u32_sub_def u32_def mod_if split: if_splits)

lemma early_due:
  assumes "in_order base h xs" "x \<in> set xs" "ticks < 2 ^ 32" "off base ticks < 2 ^ 31"
  shows "due h ticks x \<longleftrightarrow> off base (fire_ticks (h x)) \<le> off base ticks"
  using assms unfolding due_def by (intro ticks_diff_off) (auto simp: in_order_def)

abbreviation popped :: "nat \<Rightarrow> ets \<Rightarrow> ets" where
  "popped t s \<equiv> set_timer t (\<lambda>r. r\<lparr>timer_next := ETS_TIMER_NOT_ARMED\<rparr>) (s\<lparr>timer_list := timer_next (heap s t)\<rparr>)"

lemma popped_heap:
  "fire_ticks (heap (popped t s) x) = fire_ticks (heap s x)" "period_ticks (heap (popped t s) x) = period_ticks (heap s x)"
  "timer_next (heap (popped t s) x) = (if x = t then ETS_TIMER_NOT_ARMED else timer_next (heap s x))" "reads (popped t s) = reads s"
  by (simp_all add: set_timer_def)

lemma timers_ok_pop:
  assumes "timers_ok known base horizon (t # ys) s"
  shows "timers_ok known base horizon ys (popped t s)"
proof -
  have p: "pending known (t # ys) s" and "in_order base (heap s) ys"
    using assms in_order_append [of base "heap s" "[t]" ys] by (simp_all add: timers_ok_def)
  then have "in_order base (heap (popped t s)) ys" using in_order_cong [of ys "heap (popped t s)" "heap s"] popped_heap(1) by blast
  then show ?thesis using assms pending_pop [OF p] unfolding timers_ok_def popped_heap by blast
qed

text \<open>The loop at a timer that is due, in terms of the state after its callback.\<close>

lemma process_loop_due:
  assumes "timer_list s = t" "t \<noteq> 0" "due (heap s) ticks t"
    and "s2 = cb (callback (heap (popped t s) t)) (timer_arg (heap (popped t s) t)) (popped t s)"
  shows "process_loop frc2 cb ticks fired s =
    (case (if timer_next (heap s2 t) = ETS_TIMER_NOT_ARMED \<and> period_ticks (heap s2 t) \<noteq> 0
           then add_pending_timer frc2 (u32 (fire_ticks (heap s2 t) + period_ticks (heap s2 t))) t
             (set_timer t (\<lambda>r. r\<lparr>fire_ticks := u32 (fire_ticks (heap s2 t) + period_ticks (heap s2 t))\<rparr>) s2)
           else Some s2) of
       None \<Rightarrow> None
     | Some s3 \<Rightarrow> process_loop frc2 cb (frc2 (reads s3)) (fired @ [t]) (s3\<lparr>reads := reads s3 + 1\<rparr>))"
  unfolding assms(4) using assms(1-3) by (subst process_loop.simps) (simp only: due_def Let_def if_True if_False)

lemma add_pending_timer_reads: "add_pending_timer frc2 f t s = Some s' \<Longrightarrow> reads s \<le> reads s'"
  by (auto simp: add_pending_timer_def set_timer_def set_alarm_def set_alarm_value_def Let_def split: option.splits if_splits)

text \<open>Adding a timer that fires after the run.\<close>

lemma add_late:
  assumes ok: "timers_ok known base horizon xs s" and t: "t \<in> known" "t \<notin> set xs"
    and f: "f < 2 ^ 32" "horizon < off base f" "off base f < 2 ^ 31"
  obtains s' where "add_pending_timer frc2 f t s = Some s'"
    "timers_ok known base horizon (before (heap s) f xs @ t # behind (heap s) f xs) s'" "reads s \<le> reads s'" "fire_ticks (heap s' t) = f"
    "\<forall>x. x \<noteq> t \<longrightarrow> fire_ticks (heap s' x) = fire_ticks (heap s x)" "same_timers s s'"
    "filter (early base horizon (heap s')) (before (heap s) f xs @ t # behind (heap s) f xs) = filter (early base horizon (heap s)) xs"
proof -
  let ?xs = "before (heap s) f xs @ t # behind (heap s) f xs"
  obtain s' where s': "add_pending_timer frc2 f t s = Some s'" "pending known ?xs s'" "fire_ticks (heap s' t) = f"
    "\<forall>x. x \<noteq> t \<longrightarrow> fire_ticks (heap s' x) = fire_ticks (heap s x)" "same_timers s s'"
    using add_pending_timer_list [of known xs s t frc2 f] ok t by (auto simp: timers_ok_def)
  have "in_order base (heap s') ?xs"
    using ok t f s'(3,4) by (intro insert_in_order) (auto simp: timers_ok_def)
  then have ok': "timers_ok known base horizon ?xs s'" using ok s'(2,5) by (simp add: timers_ok_def same_timers_def)
  have "filter (early base horizon (heap s')) ?xs = filter (early base horizon (heap s')) (before (heap s) f xs @ behind (heap s) f xs)"
    using f(2) s'(3) unfolding filter_append by (simp add: early_eq)
  also have "\<dots> = filter (early base horizon (heap s)) xs"
    unfolding before_behind using t(2) s'(4) by (intro filter_cong refl) (auto simp: early_eq)
  finally show ?thesis using that s' ok' add_pending_timer_reads [OF s'(1)] by blast
qed

section \<open>One callback\<close>

text \<open>What the run of one due timer makes of the list.\<close>

definition turn_done :: "(nat \<Rightarrow> nat \<Rightarrow> ets \<Rightarrow> ets) \<Rightarrow> nat set \<Rightarrow> nat \<Rightarrow> nat \<Rightarrow> nat \<Rightarrow> nat list \<Rightarrow> ets \<Rightarrow> nat list \<Rightarrow> ets \<Rightarrow> bool" where
  "turn_done cb known base horizon t ys s zs s' \<longleftrightarrow> timers_ok known base horizon zs s' \<and> reads s \<le> reads s'
     \<and> subseq (filter (early base horizon (heap s')) zs) (filter (early base horizon (heap s)) ys)
     \<and> (\<forall>x \<in> set zs. early base horizon (heap s') x \<longrightarrow> fire_ticks (heap s' x) = fire_ticks (heap s x))
     \<and> (\<forall>x \<in> known. leaves_alone known base horizon cb x \<longrightarrow> period_ticks (heap s' x) = period_ticks (heap s x)
          \<and> (x \<in> set zs \<longleftrightarrow> (if x = t then period_ticks (heap s x) \<noteq> 0 else x \<in> set ys))
          \<and> fire_ticks (heap s' x) = (if x = t \<and> period_ticks (heap s x) \<noteq> 0 then u32 (fire_ticks (heap s x) + period_ticks (heap s x))
               else fire_ticks (heap s x)))"

lemma process_turn:
  assumes cb: "callbacks_ok known base horizon cb" and ok: "timers_ok known base horizon (t # ys) s"
    and due: "due (heap s) ticks t" and ticks: "ticks < 2 ^ 32" "off base ticks \<le> horizon" "horizon < 2 ^ 31"
  obtains zs s' where "process_loop frc2 cb ticks fired s = process_loop frc2 cb (frc2 (reads s')) (fired @ [t]) (s'\<lparr>reads := reads s' + 1\<rparr>)"
    "turn_done cb known base horizon t ys s zs s'"
proof -
  define s2 where "s2 = cb (callback (heap (popped t s) t)) (timer_arg (heap (popped t s) t)) (popped t s)"
  have t: "timer_list s = t" "t \<noteq> 0" "t \<in> known" "t \<notin> set ys" using ok by (auto simp: timers_ok_def pending_def)
  have io: "in_order base (heap s) (t # ys)" using ok by (simp add: timers_ok_def)
  then have ft: "fire_ticks (heap s t) < 2 ^ 32" "base < 2 ^ 32" by (simp_all add: in_order_def)
  have early: "off base (fire_ticks (heap s t)) \<le> horizon"
    using early_due [OF io, of t ticks] due ticks by simp
  note loop = process_loop_due [of s t ticks s2 cb frc2 fired, OF t(1,2) due s2_def]
  obtain xs where xs: "timers_ok known base horizon xs s2" and al: "allowed known base horizon ys (popped t s) xs s2"
    using cb timers_ok_pop [OF ok] unfolding callbacks_ok_def s2_def by blast
  note al' = al [unfolded allowed_def early_eq popped_heap]
  have lv: "period_ticks (heap s2 x) = period_ticks (heap s x)" "fire_ticks (heap s2 x) = fire_ticks (heap s x)"
    "x \<in> set xs \<longleftrightarrow> x \<noteq> t \<and> x \<in> set ys" if "leaves_alone known base horizon cb x" "x \<in> known" for x
  proof -
    have l: "fire_ticks (heap s2 x) = fire_ticks (heap (popped t s) x)" "period_ticks (heap s2 x) = period_ticks (heap (popped t s) x)"
      "timer_next (heap s2 x) = ETS_TIMER_NOT_ARMED \<longleftrightarrow> timer_next (heap (popped t s) x) = ETS_TIMER_NOT_ARMED"
      using that(1) timers_ok_pop [OF ok] unfolding leaves_alone_def s2_def by blast+
    then show "period_ticks (heap s2 x) = period_ticks (heap s x)" "fire_ticks (heap s2 x) = fire_ticks (heap s x)" by (simp_all add: popped_heap)
    show "x \<in> set xs \<longleftrightarrow> x \<noteq> t \<and> x \<in> set ys"
      using pending_armed [of known xs s2 x] pending_armed [of known "t # ys" s x] that(2) xs ok l(3) t(4) by (auto simp: timers_ok_def popped_heap)
  qed
  show ?thesis
  proof (cases "timer_next (heap s2 t) = ETS_TIMER_NOT_ARMED \<and> period_ticks (heap s2 t) \<noteq> 0")
    case False
    have "process_loop frc2 cb ticks fired s = process_loop frc2 cb (frc2 (reads s2)) (fired @ [t]) (s2\<lparr>reads := reads s2 + 1\<rparr>)"
      using loop unfolding if_not_P [OF False] by simp
    moreover have "leaves_alone known base horizon cb t \<Longrightarrow> period_ticks (heap s t) = 0"
      using False lv(1) [of t] lv(3) [of t] t(3) pending_armed [of known xs s2 t] xs by (auto simp: timers_ok_def)
    then have "turn_done cb known base horizon t ys s xs s2"
      using xs al' lv by (auto simp: turn_done_def early_eq)
    ultimately show ?thesis by (rule that)
  next
    case True
    define f where "f = u32 (fire_ticks (heap s t) + period_ticks (heap s2 t))"
    let ?s = "set_timer t (\<lambda>r. r\<lparr>fire_ticks := f\<rparr>) s2"
    have tx: "t \<notin> set xs" using True pending_armed [of known xs s2 t] xs t(3) by (auto simp: timers_ok_def)
    have "\<forall>x \<in> known - set xs. period_ticks (heap s2 x) = 0 \<or> x \<notin> set ys \<and> fire_ticks (heap s2 x) = fire_ticks (heap s x) \<and> period_ticks (heap s2 x) = period_ticks (heap s x)"
      using al' by blast
    then have ft2: "fire_ticks (heap s2 t) = fire_ticks (heap s t)" using True t(3) tx by (metis DiffI)
    have p: "horizon < period_ticks (heap s2 t)" "horizon + period_ticks (heap s2 t) < 2 ^ 31"
      using xs True t(3) by (auto simp: timers_ok_def)
    have o: "off base f = off base (fire_ticks (heap s t)) + period_ticks (heap s2 t)"
      unfolding f_def using ft p early by (intro off_add) simp_all
    have hs: "x \<noteq> t \<Longrightarrow> heap ?s x = heap s2 x" "period_ticks (heap ?s x) = period_ticks (heap s2 x)"
      "timer_next (heap ?s x) = timer_next (heap s2 x)" "timer_list ?s = timer_list s2" "reads ?s = reads s2" for x
      by (simp_all add: set_timer_def)
    have "in_order base (heap ?s) xs" using xs tx hs(1) in_order_cong [of xs "heap ?s" "heap s2"] by (metis timers_ok_def)
    moreover have "pending known xs ?s"
      using xs hs(3,4) seg_next [of xs "heap ?s" "heap s2"] by (simp add: timers_ok_def pending_def)
    ultimately have ok2: "timers_ok known base horizon xs ?s" using xs hs(2) by (simp add: timers_ok_def)
    have fl: "filter (early base horizon (heap ?s)) xs = filter (early base horizon (heap s2)) xs"
      using tx hs(1) by (intro filter_cong refl) (metis early_eq)
    obtain s' where s': "add_pending_timer frc2 f t ?s = Some s'"
      "timers_ok known base horizon (before (heap ?s) f xs @ t # behind (heap ?s) f xs) s'" "reads ?s \<le> reads s'" "fire_ticks (heap s' t) = f"
      "\<forall>x. x \<noteq> t \<longrightarrow> fire_ticks (heap s' x) = fire_ticks (heap ?s x)" "same_timers ?s s'"
      "filter (early base horizon (heap s')) (before (heap ?s) f xs @ t # behind (heap ?s) f xs) = filter (early base horizon (heap ?s)) xs"
      by (rule add_late [OF ok2 t(3) tx, of f frc2]) (use o p early in \<open>simp_all add: f_def\<close>)
    define zs where "zs = before (heap ?s) f xs @ t # behind (heap ?s) f xs"
    have zs: "set zs = insert t (set xs)"
      unfolding zs_def set_before_behind [of xs "heap ?s" f] by auto
    have turn: "process_loop frc2 cb ticks fired s = process_loop frc2 cb (frc2 (reads s')) (fired @ [t]) (s'\<lparr>reads := reads s' + 1\<rparr>)"
      using loop s'(1) unfolding if_P [OF True] ft2 f_def by simp
    have fz: "fire_ticks (heap s' x) = (if x = t then f else fire_ticks (heap s2 x))" "period_ticks (heap s' x) = period_ticks (heap s2 x)" for x
      using s'(4,5,6) hs(1,2) by (simp_all add: same_timers_def)
    have late: "\<not> early base horizon (heap s') t" using o p(1) by (simp add: early_eq fz)
    have "turn_done cb known base horizon t ys s zs s'"
      unfolding turn_done_def
    proof (intro conjI ballI impI)
      show "timers_ok known base horizon zs s'" using s'(2) by (simp add: zs_def)
      show "reads s \<le> reads s'" using s'(3) hs(5) al' by simp
      show "subseq (filter (early base horizon (heap s')) zs) (filter (early base horizon (heap s)) ys)"
        unfolding zs_def s'(7) fl using al' by (simp add: early_eq)
      show "fire_ticks (heap s' x) = fire_ticks (heap s x)" if "x \<in> set zs" "early base horizon (heap s') x" for x
        using that late al' zs by (auto simp: early_eq fz split: if_splits)
    next
      fix x assume x: "x \<in> known" "leaves_alone known base horizon cb x"
      show "period_ticks (heap s' x) = period_ticks (heap s x)" using lv(1) [OF x(2,1)] fz by simp
      show "x \<in> set zs \<longleftrightarrow> (if x = t then period_ticks (heap s x) \<noteq> 0 else x \<in> set ys)"
        using lv [OF x(2,1)] zs True by auto
      show "fire_ticks (heap s' x) = (if x = t \<and> period_ticks (heap s x) \<noteq> 0 then u32 (fire_ticks (heap s x) + period_ticks (heap s x))
          else fire_ticks (heap s x))"
        using lv [OF x(2,1)] True fz by (auto simp: f_def)
    qed
    with turn show ?thesis by (rule that)
  qed
qed

section \<open>The run\<close>

text \<open>
  What a run does with the list \<open>xs\<close>, having started the callbacks of \<open>fs\<close>, in this order, and left \<open>zs\<close>;
  \<open>r0\<close> is the number of the clock reading it starts with.
\<close>

definition run_done :: "(nat \<Rightarrow> nat) \<Rightarrow> (nat \<Rightarrow> nat \<Rightarrow> ets \<Rightarrow> ets) \<Rightarrow> nat set \<Rightarrow> nat \<Rightarrow> nat
    \<Rightarrow> nat \<Rightarrow> nat list \<Rightarrow> ets \<Rightarrow> nat list \<Rightarrow> nat list \<Rightarrow> ets \<Rightarrow> bool" where
  "run_done frc2 cb known base horizon r0 xs s fs zs s' \<longleftrightarrow>
     reads s \<le> reads s' \<and> subseq fs xs \<and> (\<forall>t \<in> set fs. \<exists>r \<ge> r0. r < reads s' \<and> due (heap s) (frc2 r) t)
     \<and> (zs \<noteq> [] \<longrightarrow> (\<exists>r s1. r0 \<le> r \<and> reads s1 = Suc r \<and> s' = set_alarm frc2 (fire_ticks (heap s' (hd zs))) s1
          \<and> (\<forall>t \<in> set zs. \<not> due (heap s') (frc2 r) t)))
     \<and> (\<forall>t \<in> known. leaves_alone known base horizon cb t \<longrightarrow>
          (if t \<in> set fs \<and> period_ticks (heap s t) \<noteq> 0
           then t \<in> set zs \<and> fire_ticks (heap s' t) = u32 (fire_ticks (heap s t) + period_ticks (heap s t))
           else (t \<in> set zs \<longleftrightarrow> t \<in> set xs - set fs) \<and> fire_ticks (heap s' t) = fire_ticks (heap s t)))"

lemma run_done_reads: "run_done frc2 cb known base horizon r0 xs (s\<lparr>reads := Suc n\<rparr>) fs zs s' \<Longrightarrow> reads s \<le> Suc n
    \<Longrightarrow> run_done frc2 cb known base horizon r0 xs s fs zs s'"
  by (auto simp: run_done_def)

lemma set_alarm_reads: "reads s \<le> reads (set_alarm frc2 f s)"
  by (simp add: set_alarm_def set_alarm_value_def Let_def)

text \<open>The loop stops at a timer that is not due; then none behind it is.\<close>

lemma run_stops:
  assumes ok: "timers_ok known base horizon xs s" and stop: "xs = [] \<or> \<not> due (heap s) ticks (hd xs)"
    and ticks: "ticks < 2 ^ 32" "off base ticks < 2 ^ 31" "ticks = frc2 r" "r0 \<le> r" "reads s = Suc r"
  obtains s' where "process_loop frc2 cb ticks fired s = Some (fired, s')" "timers_ok known base horizon xs s'"
    "run_done frc2 cb known base horizon r0 xs s [] xs s'"
proof (cases xs)
  case Nil
  then have "timer_list s = 0" using ok by (simp add: timers_ok_def pending_def)
  then have "process_loop frc2 cb ticks fired s = Some (fired, s)" by (subst process_loop.simps) simp
  moreover have "run_done frc2 cb known base horizon r0 xs s [] xs s" using Nil ticks(4) by (auto simp: run_done_def)
  ultimately show ?thesis using ok that by blast
next
  case (Cons t ys)
  let ?s = "set_alarm frc2 (fire_ticks (heap s t)) s"
  have t: "timer_list s = t" "t \<noteq> 0" using ok Cons by (auto simp: timers_ok_def pending_def)
  have io: "in_order base (heap s) xs" using ok by (simp add: timers_ok_def)
  have nd: "\<not> due (heap s) ticks x" if "x \<in> set xs" for x
  proof -
    have "\<not> off base (fire_ticks (heap s t)) \<le> off base ticks"
      using early_due [OF io, of t ticks] stop Cons ticks by simp
    moreover have "off base (fire_ticks (heap s t)) \<le> off base (fire_ticks (heap s x))"
      using io that Cons by (auto simp: in_order_def)
    ultimately show ?thesis using early_due [OF io that, of ticks] ticks by simp
  qed
  have "process_loop frc2 cb ticks fired s = Some (fired, ?s)"
    using t nd [of t] Cons by (subst process_loop.simps) (simp add: due_def)
  moreover have "timers_ok known base horizon xs ?s" using ok by (simp add: timers_ok_def pending_def)
  moreover have "run_done frc2 cb known base horizon r0 xs s [] xs ?s"
    using nd ticks Cons set_alarm_reads [of s frc2 "fire_ticks (heap s t)"]
    by (auto simp: run_done_def due_def intro!: exI [of _ r] exI [of _ s])
  ultimately show ?thesis by (rule that)
qed

text \<open>A turn followed by a run is a run.\<close>

lemma run_step:
  assumes turn: "turn_done cb known base horizon t ys s zs s1" and run: "run_done frc2 cb known base horizon r0 zs s1 fs zs' s'"
    and fs: "\<forall>x \<in> set fs. early base horizon (heap s1) x" and t: "t \<notin> set ys" "early base horizon (heap s) t"
    and due: "r0 \<le> r" "r < reads s" "due (heap s) (frc2 r) t"
  shows "run_done frc2 cb known base horizon r0 (t # ys) s (t # fs) zs' s'" "\<forall>x \<in> set (t # fs). early base horizon (heap s) x"
proof -
  have zs: "subseq fs zs" using run by (simp add: run_done_def)
  have sub: "subseq (filter (early base horizon (heap s1)) zs) (filter (early base horizon (heap s)) ys)"
    and same: "\<And>x. x \<in> set zs \<Longrightarrow> early base horizon (heap s1) x \<Longrightarrow> fire_ticks (heap s1 x) = fire_ticks (heap s x)"
    using turn by (auto simp: turn_done_def)
  have "filter (early base horizon (heap s1)) fs = fs" using fs by (simp add: filter_id_conv)
  then have "subseq fs (filter (early base horizon (heap s1)) zs)" using zs by (metis subseq_filter)
  then have fsy: "subseq fs ys" using sub by (meson subseq_filter_left subseq_order.order_trans)
  have in_fs: "x \<in> set zs" "fire_ticks (heap s1 x) = fire_ticks (heap s x)" if "x \<in> set fs" for x
    using that fs same subseq_in [OF zs] by blast+
  have rd: "reads s \<le> reads s'" using turn run by (simp add: turn_done_def run_done_def)
  have tf: "t \<notin> set fs" using t(1) subseq_in [OF fsy] by blast
  show "\<forall>x \<in> set (t # fs). early base horizon (heap s) x" using t(2) fs in_fs(2) by (simp add: early_eq)
  show "run_done frc2 cb known base horizon r0 (t # ys) s (t # fs) zs' s'"
    unfolding run_done_def
  proof (intro conjI)
    show "reads s \<le> reads s'" using rd by simp
    show "subseq (t # fs) (t # ys)" using fsy by simp
    show "\<forall>x \<in> set (t # fs). \<exists>r \<ge> r0. r < reads s' \<and> due (heap s) (frc2 r) x"
    proof
      fix x assume x: "x \<in> set (t # fs)"
      have "\<forall>y \<in> set fs. \<exists>r \<ge> r0. r < reads s' \<and> due (heap s1) (frc2 r) y" using run by (simp add: run_done_def)
      then show "\<exists>r \<ge> r0. r < reads s' \<and> due (heap s) (frc2 r) x"
        using x due rd in_fs(2) [of x] unfolding due_def by (cases "x = t") (fastforce, metis set_ConsD)
    qed
    show "zs' \<noteq> [] \<longrightarrow> (\<exists>r s1. r0 \<le> r \<and> reads s1 = Suc r \<and> s' = set_alarm frc2 (fire_ticks (heap s' (hd zs'))) s1
          \<and> (\<forall>x \<in> set zs'. \<not> due (heap s') (frc2 r) x))"
      using run by (simp add: run_done_def)
    show "\<forall>x \<in> known. leaves_alone known base horizon cb x \<longrightarrow> (if x \<in> set (t # fs) \<and> period_ticks (heap s x) \<noteq> 0
           then x \<in> set zs' \<and> fire_ticks (heap s' x) = u32 (fire_ticks (heap s x) + period_ticks (heap s x))
           else (x \<in> set zs' \<longleftrightarrow> x \<in> set (t # ys) - set (t # fs)) \<and> fire_ticks (heap s' x) = fire_ticks (heap s x))"
    proof (intro ballI impI)
      fix x assume x: "x \<in> known" "leaves_alone known base horizon cb x"
      have tx: "period_ticks (heap s1 x) = period_ticks (heap s x)"
        "x \<in> set zs \<longleftrightarrow> (if x = t then period_ticks (heap s x) \<noteq> 0 else x \<in> set ys)"
        "fire_ticks (heap s1 x) = (if x = t \<and> period_ticks (heap s x) \<noteq> 0 then u32 (fire_ticks (heap s x) + period_ticks (heap s x))
          else fire_ticks (heap s x))" using turn x by (simp_all add: turn_done_def)
      have "if x \<in> set fs \<and> period_ticks (heap s1 x) \<noteq> 0
           then x \<in> set zs' \<and> fire_ticks (heap s' x) = u32 (fire_ticks (heap s1 x) + period_ticks (heap s1 x))
           else (x \<in> set zs' \<longleftrightarrow> x \<in> set zs - set fs) \<and> fire_ticks (heap s' x) = fire_ticks (heap s1 x)"
        using run x by (simp add: run_done_def)
      then show "if x \<in> set (t # fs) \<and> period_ticks (heap s x) \<noteq> 0
           then x \<in> set zs' \<and> fire_ticks (heap s' x) = u32 (fire_ticks (heap s x) + period_ticks (heap s x))
           else (x \<in> set zs' \<longleftrightarrow> x \<in> set (t # ys) - set (t # fs)) \<and> fire_ticks (heap s' x) = fire_ticks (heap s x)"
        using tx tf by (cases "x = t") (auto split: if_splits)
    qed
  qed
qed

lemma process_run:
  assumes cb: "callbacks_ok known base horizon cb" and clock: "\<forall>r \<ge> r0. frc2 r < 2 ^ 32 \<and> off base (frc2 r) \<le> horizon" "horizon < 2 ^ 31"
  shows "timers_ok known base horizon xs s \<Longrightarrow> ticks = frc2 r \<Longrightarrow> r0 \<le> r \<Longrightarrow> reads s = Suc r \<Longrightarrow>
    \<exists>fs s' zs. process_loop frc2 cb ticks fired s = Some (fired @ fs, s') \<and> timers_ok known base horizon zs s'
      \<and> (\<forall>x \<in> set fs. early base horizon (heap s) x) \<and> run_done frc2 cb known base horizon r0 xs s fs zs s'"
proof (induction "length (filter (early base horizon (heap s)) xs)" arbitrary: xs s ticks r fired rule: less_induct)
  case less
  have ticks: "ticks < 2 ^ 32" "off base ticks \<le> horizon" "off base ticks < 2 ^ 31"
    using less.prems(2,3) clock le_less_trans by blast+
  show ?case
  proof (cases "xs = [] \<or> \<not> due (heap s) ticks (hd xs)")
    case True
    obtain s' where "process_loop frc2 cb ticks fired s = Some (fired, s')" "timers_ok known base horizon xs s'"
      "run_done frc2 cb known base horizon r0 xs s [] xs s'"
      by (rule run_stops [OF less.prems(1) True ticks(1,3), of frc2 r, OF less.prems(2-4)])
    then show ?thesis by (intro exI [of _ "[]"]) auto
  next
    case False
    then obtain t ys where xs: "xs = t # ys" and due: "due (heap s) ticks t" by (cases xs) auto
    note ok = less.prems(1) [unfolded xs]
    obtain zs s1 where loop: "process_loop frc2 cb ticks fired s
        = process_loop frc2 cb (frc2 (reads s1)) (fired @ [t]) (s1\<lparr>reads := reads s1 + 1\<rparr>)"
      and turn: "turn_done cb known base horizon t ys s zs s1"
      by (rule process_turn [OF cb ok due ticks(1,2) clock(2)])
    have io: "in_order base (heap s) (t # ys)" and t: "t \<notin> set ys" "t \<in> known" "set ys \<subseteq> known"
      using ok by (auto simp: timers_ok_def pending_def)
    have early: "early base horizon (heap s) t" using early_due [OF io, of t ticks] due ticks by (simp add: early_eq)
    let ?s = "s1\<lparr>reads := reads s1 + 1\<rparr>"
    have ok1: "timers_ok known base horizon zs ?s" using turn by (simp add: turn_done_def timers_ok_def pending_def)
    have rd: "r0 \<le> reads s1" using turn less.prems(3,4) by (simp add: turn_done_def)
    have "length (filter (early base horizon (heap ?s)) zs) < length (filter (early base horizon (heap s)) xs)"
      using turn early xs list_emb_length by (fastforce simp: turn_done_def)
    from less.hyps [OF this ok1 refl, of "reads s1" "fired @ [t]"] rd
    obtain fs s' zs' where IH: "process_loop frc2 cb (frc2 (reads s1)) (fired @ [t]) ?s = Some ((fired @ [t]) @ fs, s')"
      "timers_ok known base horizon zs' s'" "\<forall>x \<in> set fs. early base horizon (heap s1) x" "run_done frc2 cb known base horizon r0 zs s1 fs zs' s'"
      using run_done_reads [of frc2 cb known base horizon r0 zs "reads s1" s1] by auto
    have "run_done frc2 cb known base horizon r0 (t # ys) s (t # fs) zs' s'" "\<forall>x \<in> set (t # fs). early base horizon (heap s) x"
      using run_step [OF turn IH(4,3) t(1) early less.prems(3)] due less.prems(2,4) by auto
    then show ?thesis using loop IH(1,2) xs by (intro exI [of _ "t # fs"] exI [of _ s'] exI [of _ zs']) simp
  qed
qed

section \<open>Callbacks that keep to the contract\<close>

text \<open>Callbacks that touch no timer, that arm or disarm one, and one after the other.\<close>

lemma timers_ok_same: "heap s' = heap s \<Longrightarrow> timer_list s' = timer_list s \<Longrightarrow> timers_ok known base horizon xs s' = timers_ok known base horizon xs s"
  by (simp add: timers_ok_def pending_def)

lemma allowed_refl: "heap s' = heap s \<Longrightarrow> reads s \<le> reads s' \<Longrightarrow> allowed known base horizon xs s xs s'"
  by (auto simp: allowed_def timers_ok_def pending_def)

lemma quiet_ok: "quiet cb \<Longrightarrow> callbacks_ok known base horizon cb"
  unfolding callbacks_ok_def quiet_def by (metis allowed_refl timers_ok_same order_refl)

lemma allowed_trans:
  assumes "allowed known base horizon xs s ys s1" "allowed known base horizon ys s1 zs s2"
  shows "allowed known base horizon xs s zs s2"
  unfolding allowed_def
proof (intro conjI ballI impI)
  note a = assms [unfolded allowed_def]
  show "reads s \<le> reads s2" using a by linarith
  show "subseq (filter (early base horizon (heap s2)) zs) (filter (early base horizon (heap s)) xs)"
    using a by (meson subseq_order.order_trans)
  show "fire_ticks (heap s2 x) = fire_ticks (heap s x)" if x: "x \<in> set zs" "early base horizon (heap s2) x" for x
  proof -
    have "x \<in> set (filter (early base horizon (heap s1)) ys)" using a x subseq_in [of _ _ x] by fastforce
    then show ?thesis using a x by simp
  qed
  show "period_ticks (heap s2 x) = 0 \<or> x \<notin> set xs \<and> fire_ticks (heap s2 x) = fire_ticks (heap s x)
      \<and> period_ticks (heap s2 x) = period_ticks (heap s x)" if "x \<in> known - set zs" for x
    using a that by (metis DiffD1 DiffI)
qed

lemma callbacks_ok_comp:
  assumes "callbacks_ok known base horizon cb1" "callbacks_ok known base horizon cb2"
  shows "callbacks_ok known base horizon (\<lambda>f a s. cb2 f a (cb1 f a s))"
  unfolding callbacks_ok_def
proof (intro allI impI)
  fix f a s xs assume "timers_ok known base horizon xs s"
  then obtain ys where "timers_ok known base horizon ys (cb1 f a s)" "allowed known base horizon xs s ys (cb1 f a s)"
    using assms(1) unfolding callbacks_ok_def by blast
  moreover from this(1) obtain zs where "timers_ok known base horizon zs (cb2 f a (cb1 f a s))"
      "allowed known base horizon ys (cb1 f a s) zs (cb2 f a (cb1 f a s))"
    using assms(2) unfolding callbacks_ok_def by blast
  ultimately show "\<exists>zs. timers_ok known base horizon zs (cb2 f a (cb1 f a s)) \<and> allowed known base horizon xs s zs (cb2 f a (cb1 f a s))"
    using allowed_trans by blast
qed

text \<open>
  A callback that arms the timer \<open>t\<close>, once or repeatedly, with a time longer than the run; it does
  so only when the timer is not pending, since otherwise it would not return.
\<close>

definition arming :: "(nat \<Rightarrow> nat) \<Rightarrow> nat \<Rightarrow> nat \<Rightarrow> bool \<Rightarrow> bool \<Rightarrow> nat \<Rightarrow> nat \<Rightarrow> ets \<Rightarrow> ets" where
  "arming frc2 t v repeat_flag value_in_ms f a s =
     (case sdk_ets_timer_arm_ms_us frc2 t v repeat_flag value_in_ms s of Some s' \<Rightarrow> s' | None \<Rightarrow> s)"

lemma arming_effect:
  assumes ok: "timers_ok known base horizon xs s" and t: "t \<in> known" and clock: "\<forall>r. frc2 r < 2 ^ 32 \<and> off base (frc2 r) \<le> horizon"
    and v: "ticks = (if value_in_ms then u32 (v * 5000) else u32 (v * 5))" "horizon < ticks" "horizon + ticks < 2 ^ 31"
    and s': "s' = arming frc2 t v repeat_flag value_in_ms f a s"
  obtains xs' where "timers_ok known base horizon xs' s'" "allowed known base horizon xs s xs' s'" "set xs' = insert t (set xs)"
    "\<forall>x. x \<noteq> t \<longrightarrow> fire_ticks (heap s' x) = fire_ticks (heap s x) \<and> period_ticks (heap s' x) = period_ticks (heap s x)"
proof (cases "t \<in> set xs")
  case True
  then have "s' = s" using arm_pending_halts [of known xs s t] ok by (simp add: s' arming_def timers_ok_def)
  then show ?thesis using ok True allowed_refl [of s s] by (intro that [of xs]) auto
next
  case False
  define s1 where "s1 = (if repeat_flag then set_timer t (\<lambda>r. r\<lparr>period_ticks := ticks\<rparr>) s else s)\<lparr>reads := reads s + 1\<rparr>"
  define g where "g = u32 (frc2 (reads s) + ticks)"
  have na: "timer_next (heap s t) = ETS_TIMER_NOT_ARMED" using False t ok pending_armed [of known xs s t] by (simp add: timers_ok_def)
  have h: "fire_ticks (heap s1 x) = fire_ticks (heap s x)" "timer_next (heap s1 x) = timer_next (heap s x)" "timer_list s1 = timer_list s"
    "period_ticks (heap s1 x) = (if x = t \<and> repeat_flag then ticks else period_ticks (heap s x))" "reads s1 = reads s + 1" for x
    by (simp_all add: s1_def set_timer_def)
  have b: "base < 2 ^ 32" "frc2 (reads s) < 2 ^ 32" "off base (frc2 (reads s)) \<le> horizon"
    using ok clock by (simp_all add: timers_ok_def in_order_def)
  have g: "g < 2 ^ 32" "off base g = off base (frc2 (reads s)) + ticks"
    unfolding g_def using off_add [OF b(2,1), of ticks] b(3) v(3) by simp_all
  have "pending known xs s1" using ok seg_next [of xs "heap s1" "heap s"] h by (auto simp: timers_ok_def pending_def)
  moreover have "in_order base (heap s1) xs" using ok in_order_cong [of xs "heap s1" "heap s"] h by (simp add: timers_ok_def)
  ultimately have ok1: "timers_ok known base horizon xs s1" using ok v h(4) by (simp add: timers_ok_def)
  obtain s2 where s2: "add_pending_timer frc2 g t s1 = Some s2"
    "timers_ok known base horizon (before (heap s1) g xs @ t # behind (heap s1) g xs) s2" "reads s1 \<le> reads s2" "fire_ticks (heap s2 t) = g"
    "\<forall>x. x \<noteq> t \<longrightarrow> fire_ticks (heap s2 x) = fire_ticks (heap s1 x)" "same_timers s1 s2"
    "filter (early base horizon (heap s2)) (before (heap s1) g xs @ t # behind (heap s1) g xs) = filter (early base horizon (heap s1)) xs"
    by (rule add_late [OF ok1 t False, of g frc2]) (use g b(3) v in simp_all)
  let ?xs = "before (heap s1) g xs @ t # behind (heap s1) g xs"
  have "s' = s2" using na s2(1) v(1) by (simp add: s' arming_def sdk_ets_timer_arm_ms_us_def Let_def s1_def g_def set_timer_def split: if_splits)
  moreover have set: "set ?xs = insert t (set xs)" unfolding set_before_behind [of xs "heap s1" g] by auto
  moreover have "allowed known base horizon xs s ?xs s2"
    unfolding allowed_def
  proof (intro conjI ballI impI)
    show "reads s \<le> reads s2" using s2(3) h(5) by simp
    have "early base horizon (heap s1) = early base horizon (heap s)" by (simp add: early_eq h)
    then show "subseq (filter (early base horizon (heap s2)) ?xs) (filter (early base horizon (heap s)) xs)" unfolding s2(7) by simp
    show "fire_ticks (heap s2 x) = fire_ticks (heap s x)" if "early base horizon (heap s2) x" for x
      using that s2(4,5) h(1) g(2) v(2) by (cases "x = t") (simp_all add: early_eq)
    show "period_ticks (heap s2 x) = 0 \<or> x \<notin> set xs \<and> fire_ticks (heap s2 x) = fire_ticks (heap s x)
        \<and> period_ticks (heap s2 x) = period_ticks (heap s x)" if "x \<in> known - set ?xs" for x
      using that s2(5,6) h set by (auto simp: same_timers_def)
  qed
  ultimately show ?thesis using s2 h by (intro that [of ?xs]) (auto simp: same_timers_def)
qed

lemma arming_ok:
  assumes "t \<in> known" "\<forall>r. frc2 r < 2 ^ 32 \<and> off base (frc2 r) \<le> horizon"
    and "ticks = (if value_in_ms then u32 (v * 5000) else u32 (v * 5))" "horizon < ticks" "horizon + ticks < 2 ^ 31"
  shows "callbacks_ok known base horizon (arming frc2 t v repeat_flag value_in_ms)"
  unfolding callbacks_ok_def by (metis arming_effect [OF _ assms])

lemma arming_leaves_alone:
  assumes "t \<in> known" "\<forall>r. frc2 r < 2 ^ 32 \<and> off base (frc2 r) \<le> horizon"
    and "ticks = (if value_in_ms then u32 (v * 5000) else u32 (v * 5))" "horizon < ticks" "horizon + ticks < 2 ^ 31"
    and "x \<in> known" "x \<noteq> t"
  shows "leaves_alone known base horizon (arming frc2 t v repeat_flag value_in_ms) x"
  unfolding leaves_alone_def
proof (intro allI impI)
  fix f a s xs assume ok: "timers_ok known base horizon xs s"
  let ?s = "arming frc2 t v repeat_flag value_in_ms f a s"
  obtain xs' where xs': "timers_ok known base horizon xs' ?s" "set xs' = insert t (set xs)"
    "\<forall>x. x \<noteq> t \<longrightarrow> fire_ticks (heap ?s x) = fire_ticks (heap s x) \<and> period_ticks (heap ?s x) = period_ticks (heap s x)"
    by (rule arming_effect [OF ok assms(1-5) refl])
  have "x \<in> set xs' \<longleftrightarrow> x \<in> set xs" using xs'(2) assms(7) by simp
  then show "fire_ticks (heap ?s x) = fire_ticks (heap s x) \<and> period_ticks (heap ?s x) = period_ticks (heap s x)
      \<and> (timer_next (heap ?s x) = ETS_TIMER_NOT_ARMED \<longleftrightarrow> timer_next (heap s x) = ETS_TIMER_NOT_ARMED)"
    using xs'(1,3) ok assms(6,7) pending_armed [of known xs s x] pending_armed [of known xs' ?s x] by (auto simp: timers_ok_def)
qed

text \<open>A callback that disarms the timer \<open>t\<close>.\<close>

definition disarming :: "nat \<Rightarrow> nat \<Rightarrow> nat \<Rightarrow> ets \<Rightarrow> ets" where
  "disarming t f a s = (case sdk_ets_timer_disarm t s of Some s' \<Rightarrow> s' | None \<Rightarrow> s)"

lemma subseq_remove1: "subseq (remove1 x xs) xs"
  by (induction xs) auto

lemma disarm_reads:
  assumes "pending known xs s" "sdk_ets_timer_disarm t s = Some s'"
  shows "reads s' = reads s"
  using unlink_list [of s "timer_list s" xs "[]" t 0] assms
  by (auto simp: sdk_ets_timer_disarm_def pending_def set_timer_def Let_def split: if_splits)

lemma disarming_ok:
  assumes "t \<in> known"
  shows "callbacks_ok known base horizon (disarming t)"
  unfolding callbacks_ok_def
proof (intro allI impI)
  fix f a s xs assume ok: "timers_ok known base horizon xs s"
  then have p: "pending known xs s" "in_order base (heap s) xs" by (simp_all add: timers_ok_def)
  obtain s' where s': "sdk_ets_timer_disarm t s = Some s'" "pending known (remove1 t xs) s'" "period_ticks (heap s' t) = 0"
    "\<forall>x. fire_ticks (heap s' x) = fire_ticks (heap s x) \<and> (x \<noteq> t \<longrightarrow> period_ticks (heap s' x) = period_ticks (heap s x))"
    using disarm_list [OF p(1) assms] by blast
  have io: "in_order base (heap s') (remove1 t xs)" using disarm_removes_timer [OF p assms] s'(1) by auto
  have e: "early base horizon (heap s') = early base horizon (heap s)" using s'(4) by (simp add: early_eq)
  have d: "set (remove1 t xs) = set xs - {t}" using p(1) by (simp add: pending_def)
  have "timers_ok known base horizon (remove1 t xs) s'"
    unfolding timers_ok_def
  proof (intro conjI ballI)
    show "period_ticks (heap s' x) = 0 \<or> horizon < period_ticks (heap s' x) \<and> horizon + period_ticks (heap s' x) < 2 ^ 31"
      if "x \<in> known" for x using that ok s'(3,4) by (cases "x = t") (simp_all add: timers_ok_def)
  qed (use s'(2) io in simp_all)
  moreover have "allowed known base horizon xs s (remove1 t xs) s'"
    unfolding allowed_def e
  proof (intro conjI ballI)
    show "period_ticks (heap s' x) = 0 \<or> x \<notin> set xs \<and> fire_ticks (heap s' x) = fire_ticks (heap s x)
        \<and> period_ticks (heap s' x) = period_ticks (heap s x)" if "x \<in> known - set (remove1 t xs)" for x
      using that s'(3,4) d by (cases "x = t") simp_all
  qed (use subseq_filter [OF subseq_remove1] s'(4) disarm_reads [OF p(1) s'(1)] in auto)
  ultimately show "\<exists>xs'. timers_ok known base horizon xs' (disarming t f a s) \<and> allowed known base horizon xs s xs' (disarming t f a s)"
    using s'(1) by (auto simp: disarming_def)
qed

section \<open>Properties\<close>

text \<open>
  C35. A run of the timer task, with one-shot and repeating timers and with callbacks that may arm and
  disarm timers: all clock values read in it lie within \<open>horizon\<close> ticks after \<open>base\<close>, the fire times of the
  pending timers lie within half of the range of the counter after \<open>base\<close>, the periods are longer than
  \<open>horizon\<close> and with it shorter than half of the range, and the callbacks keep this so and arm timers only
  for times after \<open>horizon\<close> (\<open>callbacks_ok\<close>). Then
  \<open>process_pending_timers\<close> returns; it runs the callbacks in firing order, each at most once and each of
  a timer that was due at a clock value read in the run; no timer that is pending afterwards is due at the
  clock value read last before the alarm is set, which is for the first of them. Of the timers that no
  callback touches, a repeating one that ran is pending again exactly one period after the time it was
  to fire, a one-shot one that ran is not pending any more, and the others stay pending with their time.
\<close>

theorem due_timers_fire_in_order:
  assumes "callbacks_ok known base horizon cb" "timers_ok known base horizon xs s"
    and "\<forall>r \<ge> reads s. frc2 r < 2 ^ 32 \<and> off base (frc2 r) \<le> horizon" "horizon < 2 ^ 31"
  shows "\<exists>fs zs s'. process_pending_timers frc2 cb s = Some (fs, s') \<and> timers_ok known base horizon zs s'
    \<and> subseq fs xs \<and> distinct fs \<and> (\<forall>t \<in> set fs. \<exists>r \<ge> reads s. r < reads s' \<and> due (heap s) (frc2 r) t)
    \<and> (zs \<noteq> [] \<longrightarrow> (\<exists>r s1. reads s \<le> r \<and> reads s1 = Suc r \<and> s' = set_alarm frc2 (fire_ticks (heap s' (hd zs))) s1
         \<and> (\<forall>t \<in> set zs. \<not> due (heap s') (frc2 r) t)))
    \<and> (\<forall>t \<in> known. leaves_alone known base horizon cb t \<longrightarrow>
        (if t \<in> set fs \<and> period_ticks (heap s t) \<noteq> 0
         then t \<in> set zs \<and> fire_ticks (heap s' t) = u32 (fire_ticks (heap s t) + period_ticks (heap s t))
         else (t \<in> set zs \<longleftrightarrow> t \<in> set xs - set fs) \<and> fire_ticks (heap s' t) = fire_ticks (heap s t)))"
proof -
  have "timers_ok known base horizon xs (s\<lparr>reads := reads s + 1\<rparr>)" using assms(2) timers_ok_same [of "s\<lparr>reads := reads s + 1\<rparr>" s] by simp
  from process_run [OF assms(1,3,4) this, of "frc2 (reads s)" "reads s" "[]"]
  obtain fs s' zs where "process_pending_timers frc2 cb s = Some (fs, s')" "timers_ok known base horizon zs s'"
    and run: "run_done frc2 cb known base horizon (reads s) xs s fs zs s'"
    using run_done_reads [of frc2 cb known base horizon "reads s" xs "reads s" s] by (auto simp: process_pending_timers_def)
  moreover have "distinct xs" using assms(2) by (simp add: timers_ok_def pending_def)
  then have "distinct fs" using run subseq_conv_nths [of fs xs] by (auto simp: run_done_def)
  ultimately show ?thesis unfolding run_done_def by blast
qed

text \<open>
  A repeating timer, due at 500 with a period of 5000, and a one-shot at 900; the callbacks arm a third
  timer for one millisecond; the clock stands at 600.
\<close>

theorem due_timers_fire_in_order_witness:
  "\<exists>zs s'. process_pending_timers (\<lambda>_. 600) (arming (\<lambda>_. 600) 3 1 False True) (sample_ets 5000) = Some ([1], s')
    \<and> timers_ok {1, 2, 3} 0 600 zs s' \<and> {1, 2} \<subseteq> set zs \<and> fire_ticks (heap s' 1) = 5500 \<and> fire_ticks (heap s' 2) = 900"
proof -
  let ?cb = "arming (\<lambda>_. 600) 3 1 False True" let ?s = "sample_ets 5000"
  have clock: "\<forall>r::nat. (600::nat) < 2 ^ 32 \<and> off 0 600 \<le> (600::nat)" by (simp add: off_def)
  have cb: "callbacks_ok {1, 2, 3} 0 600 ?cb" using arming_ok [of 3 "{1, 2, 3}" "\<lambda>_. 600" 0 600 5000] clock by simp
  have alone: "leaves_alone {1, 2, 3} 0 600 ?cb x" if "x \<in> {1, 2}" for x
    using arming_leaves_alone [of 3 "{1, 2, 3}" "\<lambda>_. 600" 0 600 5000 True 1 x False] clock that by auto
  have ok: "timers_ok {1, 2, 3} 0 600 [1, 2] ?s"
    using sample_pending [of 5000] sample_in_order [of 5000] by (auto simp: timers_ok_def sample_ets_def timer_at_def)
  have d: "due (heap ?s) 600 1" "\<not> due (heap ?s) 600 2" "fire_ticks (heap ?s 1) = 500" "fire_ticks (heap ?s 2) = 900"
    "period_ticks (heap ?s 1) = 5000" "period_ticks (heap ?s 2) = 0"
    by (simp_all add: due_def sample_ets_def timer_at_def ticks_diff_def s32_def u32_sub_def)
  have c: "\<forall>r \<ge> reads ?s. (600::nat) < 2 ^ 32 \<and> off 0 600 \<le> (600::nat)" "(600::nat) < 2 ^ 31" using clock by simp_all
  from due_timers_fire_in_order [OF cb ok, of "\<lambda>_. 600", OF c]
  obtain fs zs s' where run: "process_pending_timers (\<lambda>_. 600) ?cb ?s = Some (fs, s')" "timers_ok {1, 2, 3} 0 600 zs s'"
    and fs: "subseq fs [1, 2]" "\<forall>t \<in> set fs. \<exists>r \<ge> reads ?s. r < reads s' \<and> due (heap ?s) 600 t"
    and stop: "zs \<noteq> [] \<longrightarrow> (\<exists>r s1. reads ?s \<le> r \<and> reads s1 = Suc r \<and> s' = set_alarm (\<lambda>_. 600) (fire_ticks (heap s' (hd zs))) s1
         \<and> (\<forall>t \<in> set zs. \<not> due (heap s') 600 t))"
    and left: "\<forall>t \<in> {1, 2, 3}. leaves_alone {1, 2, 3} 0 600 ?cb t \<longrightarrow>
        (if t \<in> set fs \<and> period_ticks (heap ?s t) \<noteq> 0
         then t \<in> set zs \<and> fire_ticks (heap s' t) = u32 (fire_ticks (heap ?s t) + period_ticks (heap ?s t))
         else (t \<in> set zs \<longleftrightarrow> t \<in> set [1, 2] - set fs) \<and> fire_ticks (heap s' t) = fire_ticks (heap ?s t))"
    by (elim exE conjE)
  have zs: "\<not> due (heap s') 600 t" if "t \<in> set zs" for t using stop that by (cases zs) auto
  have two: "2 \<notin> set fs" using fs(2) d(2) by blast
  have one: "1 \<in> set fs"
  proof (rule ccontr)
    assume "1 \<notin> set fs"
    then have "1 \<in> set zs" "fire_ticks (heap s' 1) = fire_ticks (heap ?s 1)" using left alone by auto
    then show False using zs [of 1] d(1) by (auto simp: due_def)
  qed
  have "fs = [1]" using fs(1) one two by (auto simp: subseq_Cons2_iff list_emb_Nil2 split: if_splits elim!: list_emb.cases)
  then show ?thesis using run left alone d by auto
qed

end
