(* ===== verification/Timekeeping.thy ===== *)
theory Timekeeping
  imports Prelude "HOL-Library.Signed_Division"
begin

text \<open>
  Time of day: \<open>src/extras/timekeeping/timekeeping.c\<close>. The system clock counts microseconds in 32 bits
  and wraps every 71 minutes; the code keeps an offset of 64 bits and a slow adjustment.

  Every read of the clock is an argument, in the order of the reads of the code. The lock
  makes a call one step. Signed values are integers: the times of the code stay far from
  64 bits, and the one product of 32 bits is bounded below. Divisions of C truncate
  (\<open>sdiv\<close>, \<open>smod\<close>).
\<close>

section \<open>State and operations\<close>

definition SYSTEM_CLOCK_WRAP_US :: int where "SYSTEM_CLOCK_WRAP_US = 0x100000000"
definition ADJTIME_SLEW_PERIOD :: int where "ADJTIME_SLEW_PERIOD = 2000"
definition ADJTIME_MAX_SECS_ALLOWED :: int where "ADJTIME_MAX_SECS_ALLOWED = 2000"

record timekeeping_state =
  clock_offset :: int
  last_system_clock_value :: nat
  adjtime_delta :: int
  slew_start_time :: int
  slew_complete_time :: int

record timeval =
  tv_sec :: int
  tv_usec :: int

datatype time_result = Time_Ok | Time_EINVAL

definition timekeeping_init :: timekeeping_state where
  "timekeeping_init = \<lparr>clock_offset = 0, last_system_clock_value = 0, adjtime_delta = 0, slew_start_time = 0, slew_complete_time = 0\<rparr>"

definition SIGNED_ADJTIME_SLEW_PERIOD :: "timekeeping_state \<Rightarrow> int" where
  "SIGNED_ADJTIME_SLEW_PERIOD s = (if adjtime_delta s < 0 then - ADJTIME_SLEW_PERIOD else ADJTIME_SLEW_PERIOD)"

definition reset_adjtime_state :: "timekeeping_state \<Rightarrow> timekeeping_state" where
  "reset_adjtime_state s = s\<lparr>adjtime_delta := 0, slew_start_time := 0, slew_complete_time := 0\<rparr>"

definition check_system_clock :: "nat \<Rightarrow> nat \<Rightarrow> timekeeping_state \<Rightarrow> timekeeping_state" where
  "check_system_clock clk1 clk2 s =
     (let s1 = (if clk1 < last_system_clock_value s then s\<lparr>clock_offset := clock_offset s + SYSTEM_CLOCK_WRAP_US\<rparr> else s);
          s2 = s1\<lparr>last_system_clock_value := clk1\<rparr>
      in if slew_complete_time s2 \<noteq> 0 \<and> int clk2 + clock_offset s2 \<ge> slew_complete_time s2
         then reset_adjtime_state (s2\<lparr>clock_offset := clock_offset s2 + adjtime_delta s2\<rparr>)
         else s2)"

definition settimeofday :: "timeval option \<Rightarrow> nat \<Rightarrow> nat \<Rightarrow> nat \<Rightarrow> timekeeping_state \<Rightarrow> time_result \<times> timekeeping_state" where
  "settimeofday tv clk1 clk2 clk3 s =
     (let bad = (case tv of None \<Rightarrow> False | Some v \<Rightarrow> tv_usec v < 0 \<or> tv_usec v \<ge> 1000000 \<or> tv_sec v < 0);
          s1 = check_system_clock clk1 clk2 s
      in case tv of
           None \<Rightarrow> (Time_Ok, s1)
         | Some v \<Rightarrow>
             if bad then (Time_EINVAL, s1)
             else (Time_Ok, reset_adjtime_state (s1\<lparr>clock_offset := tv_sec v * 1000000 + tv_usec v - int clk3\<rparr>)))"

definition internal_clock :: "timekeeping_state \<Rightarrow> int \<Rightarrow> int" where
  "internal_clock s system_plus_offset =
     (if slew_complete_time s = 0 then system_plus_offset
      else system_plus_offset + (system_plus_offset - slew_start_time s) sdiv SIGNED_ADJTIME_SLEW_PERIOD s)"

definition gettimeofday :: "nat \<Rightarrow> nat \<Rightarrow> nat \<Rightarrow> timekeeping_state \<Rightarrow> timeval \<times> timekeeping_state" where
  "gettimeofday clk0 clk1 clk2 s =
     (let s1 = check_system_clock clk1 clk2 s;
          t = internal_clock s1 (int clk0 + clock_offset s1)
      in (\<lparr>tv_sec = t sdiv 1000000, tv_usec = t smod 1000000\<rparr>, s1))"

definition adjtime_bad :: "timeval \<Rightarrow> bool" where
  "adjtime_bad d \<longleftrightarrow> tv_usec d \<le> -1000000 \<or> tv_usec d \<ge> 1000000
     \<or> tv_sec d > ADJTIME_MAX_SECS_ALLOWED \<or> tv_sec d < - ADJTIME_MAX_SECS_ALLOWED"

definition adjtime_olddelta :: "timekeeping_state \<Rightarrow> int \<Rightarrow> timeval" where
  "adjtime_olddelta s system_plus_offset =
     (if slew_complete_time s \<noteq> 0
      then let slew = (slew_complete_time s - system_plus_offset) sdiv SIGNED_ADJTIME_SLEW_PERIOD s
           in \<lparr>tv_sec = slew sdiv 1000000, tv_usec = slew smod 1000000\<rparr>
      else \<lparr>tv_sec = 0, tv_usec = 0\<rparr>)"

text \<open>The result carries what is stored through \<open>olddelta\<close> when the caller passes the pointer.\<close>

definition adjtime :: "timeval option \<Rightarrow> nat \<Rightarrow> nat \<Rightarrow> nat \<Rightarrow> timekeeping_state
    \<Rightarrow> time_result \<times> timeval option \<times> timekeeping_state" where
  "adjtime delta clk0 clk1 clk2 s =
     (let s1 = check_system_clock clk1 clk2 s
      in if (case delta of None \<Rightarrow> False | Some d \<Rightarrow> adjtime_bad d) then (Time_EINVAL, None, s1)
         else
           let spo = int clk0 + clock_offset s1; old = adjtime_olddelta s1 spo
           in (Time_Ok, Some old,
               case delta of
                 None \<Rightarrow> s1
               | Some d \<Rightarrow>
                   let s2 = s1\<lparr>adjtime_delta := tv_sec d * 1000000 + tv_usec d, slew_start_time := spo\<rparr>
                   in s2\<lparr>slew_complete_time := spo + adjtime_delta s2 * SIGNED_ADJTIME_SLEW_PERIOD s2\<rparr>))"

section \<open>True time\<close>

text \<open>
  The true time is an unbounded number of microseconds; the clock shows it modulo \<open>2 ^ 32\<close>.
  \<open>tracks K T s\<close>: the state was last checked at time \<open>T\<close>, and the offset makes the clock show \<open>T + K\<close>.
\<close>

definition clk :: "nat \<Rightarrow> nat" where
  "clk T = T mod 2 ^ 32"

definition tracks :: "int \<Rightarrow> nat \<Rightarrow> timekeeping_state \<Rightarrow> bool" where
  "tracks K T s \<longleftrightarrow> last_system_clock_value s = clk T \<and> int (clk T) + clock_offset s = int T + K"

lemma tracks_step:
  assumes "tracks K T s" "T \<le> T'" "T' - T < 2 ^ 32"
  shows "int (clk T') + clock_offset s + (if clk T' < clk T then SYSTEM_CLOCK_WRAP_US else 0) = int T' + K"
proof -
  define d where "d = T' - T"
  have T': "T' = T + d" "d < 4294967296" using assms(2,3) by (simp_all add: d_def)
  have c: "clk T' = (if clk T + d < 4294967296 then clk T + d else clk T + d - 4294967296)"
  proof -
    have "clk T' = (clk T + d) mod 4294967296" by (simp add: clk_def T'(1) mod_add_left_eq)
    moreover have "clk T < 4294967296" by (simp add: clk_def)
    ultimately show ?thesis using T'(2) by (simp add: mod_if)
  qed
  have lt: "clk T < 4294967296" by (simp add: clk_def)
  show ?thesis
    using assms(1) c T' lt by (auto simp: tracks_def SYSTEM_CLOCK_WRAP_US_def)
qed

lemma check_tracks:
  assumes "tracks K T s" "T \<le> T'" "T' - T < 2 ^ 32" "slew_complete_time s = 0"
  shows "tracks K T' (check_system_clock (clk T') c s) \<and> slew_complete_time (check_system_clock (clk T') c s) = 0"
  using tracks_step [OF assms(1-3)] assms(1,4) by (auto simp: check_system_clock_def tracks_def Let_def split: if_splits)

text \<open>Microseconds since the epoch of a time of day.\<close>

definition usecs :: "timeval \<Rightarrow> int" where
  "usecs v = tv_sec v * 1000000 + tv_usec v"

lemma usecs_split: "usecs \<lparr>tv_sec = t sdiv 1000000, tv_usec = t smod 1000000\<rparr> = t"
  by (simp add: usecs_def sdiv_mult_smod_eq)

text \<open>Calls of \<open>gettimeofday\<close> at given times, and times that are checked before the clock wraps twice.\<close>

fun gets :: "timekeeping_state \<Rightarrow> nat list \<Rightarrow> timeval list" where
  "gets s [] = []"
| "gets s (T # Ts) = (case gettimeofday (clk T) (clk T) (clk T) s of (v, s1) \<Rightarrow> v # gets s1 Ts)"

fun spaced :: "nat \<Rightarrow> nat list \<Rightarrow> bool" where
  "spaced T [] \<longleftrightarrow> True"
| "spaced T (U # Us) \<longleftrightarrow> T \<le> U \<and> U - T < 2 ^ 32 \<and> spaced U Us"

lemma spaced_ge: "spaced T Ts \<Longrightarrow> U \<in> set Ts \<Longrightarrow> T \<le> U"
  by (induction T Ts rule: spaced.induct) auto

lemma gets_tracks:
  assumes "tracks K T s" "slew_complete_time s = 0" "spaced T Ts"
  shows "map usecs (gets s Ts) = map (\<lambda>U. int U + K) Ts"
  using assms
proof (induction Ts arbitrary: T s)
  case (Cons U Us)
  let ?s = "check_system_clock (clk U) (clk U) s"
  have c: "tracks K U ?s" "slew_complete_time ?s = 0" using check_tracks [of K T s U "clk U"] Cons.prems by auto
  then have "usecs (fst (gettimeofday (clk U) (clk U) (clk U) s)) = int U + K"
    by (simp add: gettimeofday_def Let_def usecs_split internal_clock_def tracks_def)
  moreover have "snd (gettimeofday (clk U) (clk U) (clk U) s) = ?s" by (simp add: gettimeofday_def Let_def)
  ultimately show ?case using Cons.IH [OF c] Cons.prems(3) by (simp add: case_prod_beta)
qed simp

section \<open>Slow adjustment\<close>

text \<open>The time shown at internal time \<open>x\<close> when an adjustment by \<open>d\<close> started at \<open>start\<close>.\<close>

definition slewed :: "int \<Rightarrow> int \<Rightarrow> int \<Rightarrow> int" where
  "slewed start d x =
     (if start + 2000 * \<bar>d\<bar> \<le> x then x + d else x + (if d < 0 then - ((x - start) div 2000) else (x - start) div 2000))"

lemma slewed_mono:
  assumes "x \<le> y" "start \<le> x"
  shows "slewed start d x \<le> slewed start d y"
proof -
  have q: "(x - start) div 2000 \<le> (y - start) div 2000" "(y - start) div 2000 \<le> (x - start) div 2000 + (y - x)"
  proof -
    show "(x - start) div 2000 \<le> (y - start) div 2000" using assms(1) by (simp add: zdiv_mono1)
    show "(y - start) div 2000 \<le> (x - start) div 2000 + (y - x)"
      using assms(1) by linarith
  qed
  show ?thesis
  proof (cases "start + 2000 * \<bar>d\<bar> \<le> y \<and> \<not> start + 2000 * \<bar>d\<bar> \<le> x")
    case True
    then have "(x - start) div 2000 \<le> \<bar>d\<bar>" "y - x \<ge> start + 2000 * \<bar>d\<bar> - x" by linarith+
    moreover have "\<bar>d\<bar> - (x - start) div 2000 \<le> start + 2000 * \<bar>d\<bar> - x" using True assms(2) by linarith
    ultimately show ?thesis using True by (auto simp: slewed_def)
  qed (use q assms(1) in \<open>auto simp: slewed_def\<close>)
qed

definition slewing :: "int \<Rightarrow> int \<Rightarrow> int \<Rightarrow> nat \<Rightarrow> timekeeping_state \<Rightarrow> bool" where
  "slewing K start d T s \<longleftrightarrow> tracks K T s \<and> adjtime_delta s = d \<and> slew_start_time s = start
     \<and> slew_complete_time s = start + 2000 * \<bar>d\<bar> \<and> slew_complete_time s \<noteq> 0"

lemma sdiv_slew:
  fixes x start d :: int
  assumes "start \<le> x"
  shows "(x - start) sdiv (if d < 0 then - 2000 else 2000) = (if d < 0 then - ((x - start) div 2000) else (x - start) div 2000)"
  using assms by (cases "x = start") (auto simp: signed_divide_int_def)

lemma check_slewing:
  assumes "slewing K start d T s" "T \<le> U" "U - T < 2 ^ 32"
  defines "s' \<equiv> check_system_clock (clk U) (clk U) s"
  shows "if start + 2000 * \<bar>d\<bar> \<le> int U + K then tracks (K + d) U s' \<and> slew_complete_time s' = 0 else slewing K start d U s'"
proof -
  have t: "tracks K T s" using assms(1) by (simp add: slewing_def)
  show ?thesis
    using assms(1) tracks_step [OF t assms(2,3)]
    by (auto simp: s'_def check_system_clock_def slewing_def tracks_def reset_adjtime_state_def Let_def split: if_splits)
qed

lemma gets_slewing:
  assumes "slewing K start d T s" "start \<le> int T + K" "spaced T Ts"
  shows "map usecs (gets s Ts) = map (\<lambda>U. slewed start d (int U + K)) Ts"
  using assms
proof (induction Ts arbitrary: T s)
  case (Cons U Us)
  let ?s = "check_system_clock (clk U) (clk U) s"
  have U: "T \<le> U" "U - T < 2 ^ 32" "spaced U Us" using Cons.prems(3) by auto
  have v: "usecs (fst (gettimeofday (clk U) (clk U) (clk U) s)) = internal_clock ?s (int (clk U) + clock_offset ?s)"
    "snd (gettimeofday (clk U) (clk U) (clk U) s) = ?s"
    by (simp_all add: gettimeofday_def Let_def usecs_split)
  note c = check_slewing [OF Cons.prems(1) U(1,2)]
  show ?case
  proof (cases "start + 2000 * \<bar>d\<bar> \<le> int U + K")
    case True
    then have s: "tracks (K + d) U ?s" "slew_complete_time ?s = 0" using c by auto
    then have "internal_clock ?s (int (clk U) + clock_offset ?s) = slewed start d (int U + K)"
      using True by (simp add: internal_clock_def tracks_def slewed_def)
    moreover have "map usecs (gets ?s Us) = map (\<lambda>U. slewed start d (int U + K)) Us"
    proof -
      have "start + 2000 * \<bar>d\<bar> \<le> int W + K" if "W \<in> set Us" for W using spaced_ge [OF U(3) that] True by linarith
      then show ?thesis using gets_tracks [OF s U(3)] by (simp add: slewed_def algebra_simps)
    qed
    ultimately show ?thesis using v by (simp add: case_prod_beta)
  next
    case False
    then have s: "slewing K start d U ?s" using c by auto
    have x: "start \<le> int U + K" using Cons.prems(2) U(1) by simp
    have "internal_clock ?s (int (clk U) + clock_offset ?s) = slewed start d (int U + K)"
      using s False sdiv_slew [OF x, of d]
      by (cases "d < 0") (simp_all add: internal_clock_def tracks_def slewing_def slewed_def SIGNED_ADJTIME_SLEW_PERIOD_def ADJTIME_SLEW_PERIOD_def)
    then show ?thesis using v Cons.IH [OF s x U(3)] by (simp add: case_prod_beta)
  qed
qed simp

lemma adjtime_slewing:
  assumes "tracks K T s" "slew_complete_time s = 0" "T \<le> U" "U - T < 2 ^ 32" "\<not> adjtime_bad v"
    and "int U + K + 2000 * \<bar>usecs v\<bar> \<noteq> 0"
  shows "\<exists>s'. adjtime (Some v) (clk U) (clk U) (clk U) s = (Time_Ok, Some \<lparr>tv_sec = 0, tv_usec = 0\<rparr>, s')
    \<and> slewing K (int U + K) (usecs v) U s'"
  using check_tracks [OF assms(1,3,4,2), of "clk U"] assms(5,6)
  by (auto simp: adjtime_def Let_def adjtime_olddelta_def slewing_def tracks_def usecs_def SIGNED_ADJTIME_SLEW_PERIOD_def
      ADJTIME_SLEW_PERIOD_def abs_if algebra_simps)

section \<open>Properties\<close>

text \<open>
  C36. After \<open>settimeofday\<close> at time \<open>T\<close> with a non-negative, normalised time, a series of calls of
  \<open>gettimeofday\<close> returns each time the time that was set plus the time that has passed, for any number of
  wraps of the clock, provided that less than 2^32 microseconds lie between two calls and that the clock
  shows the same value at all its readings within one call. (\<open>gettimeofday_wrap_race\<close> shows what happens
  when it wraps within a call.)
\<close>

theorem set_time_then_get:
  assumes "0 \<le> tv_sec v" "0 \<le> tv_usec v" "tv_usec v < 1000000" "spaced T Ts"
  shows "fst (settimeofday (Some v) (clk T) (clk T) (clk T) s) = Time_Ok
    \<and> map usecs (gets (snd (settimeofday (Some v) (clk T) (clk T) (clk T) s)) Ts) = map (\<lambda>U. usecs v + (int U - int T)) Ts"
proof -
  let ?s = "snd (settimeofday (Some v) (clk T) (clk T) (clk T) s)"
  have "tracks (usecs v - int T) T ?s" "slew_complete_time ?s = 0"
    using assms(1-3) by (auto simp: settimeofday_def reset_adjtime_state_def tracks_def usecs_def check_system_clock_def Let_def)
  then show ?thesis using assms gets_tracks [of "usecs v - int T" T ?s Ts] by (simp add: settimeofday_def Let_def)
qed

theorem set_time_then_get_witness:
  "map usecs (gets (snd (settimeofday (Some \<lparr>tv_sec = 1000, tv_usec = 5\<rparr>) (clk 4294967000) (clk 4294967000) (clk 4294967000)
      timekeeping_init)) [4294967100, 4294968000, 8000000000])
    = [1000000105, 1000001005, 4705033005]"
  using set_time_then_get [of "\<lparr>tv_sec = 1000, tv_usec = 5\<rparr>" 4294967000 "[4294967100, 4294968000, 8000000000]" timekeeping_init]
  by (simp add: usecs_def)

text \<open>
  After \<open>adjtime\<close> the time of day drifts by one microsecond per 2000 until the whole
  adjustment is made, and from then on shows the clock plus exactly the adjustment.
\<close>

theorem adjtime_is_gradual:
  assumes "tracks K T s" "slew_complete_time s = 0" "T \<le> U" "U - T < 2 ^ 32" "\<not> adjtime_bad v" "0 < int U + K" "spaced U Us"
  shows "\<exists>s'. adjtime (Some v) (clk U) (clk U) (clk U) s = (Time_Ok, Some \<lparr>tv_sec = 0, tv_usec = 0\<rparr>, s')
    \<and> map usecs (gets s' Us) = map (\<lambda>W. slewed (int U + K) (usecs v) (int W + K)) Us"
proof -
  have "int U + K + 2000 * \<bar>usecs v\<bar> \<noteq> 0" using assms(6) by simp
  then obtain s' where s': "adjtime (Some v) (clk U) (clk U) (clk U) s = (Time_Ok, Some \<lparr>tv_sec = 0, tv_usec = 0\<rparr>, s')"
    "slewing K (int U + K) (usecs v) U s'"
    using adjtime_slewing [OF assms(1-5)] by blast
  then show ?thesis using gets_slewing [OF s'(2) order_refl assms(7)] by blast
qed

theorem adjtime_is_gradual_witness:
  "\<exists>s'. adjtime (Some \<lparr>tv_sec = 0, tv_usec = -2\<rparr>) (clk 1000) (clk 1000) (clk 1000) timekeeping_init
      = (Time_Ok, Some \<lparr>tv_sec = 0, tv_usec = 0\<rparr>, s')
    \<and> map usecs (gets s' [3000, 5000, 10000]) = [2999, 4998, 9998]"
  using adjtime_is_gradual [of 0 0 timekeeping_init 1000 "\<lparr>tv_sec = 0, tv_usec = -2\<rparr>" "[3000, 5000, 10000]"]
  by (simp add: tracks_def clk_def timekeeping_init_def adjtime_bad_def ADJTIME_MAX_SECS_ALLOWED_def usecs_def slewed_def)

text \<open>
  An adjustment, forward or backward, never makes the time of day go back.
\<close>

theorem adjtime_is_monotonic:
  assumes "tracks K T s" "slew_complete_time s = 0" "T \<le> U" "U - T < 2 ^ 32" "\<not> adjtime_bad v" "0 < int U + K" "spaced U Us"
  shows "sorted (map usecs (gets (snd (snd (adjtime (Some v) (clk U) (clk U) (clk U) s))) Us))"
proof -
  have "int U + K + 2000 * \<bar>usecs v\<bar> \<noteq> 0" using assms(6) by simp
  then obtain s' where s': "adjtime (Some v) (clk U) (clk U) (clk U) s = (Time_Ok, Some \<lparr>tv_sec = 0, tv_usec = 0\<rparr>, s')"
    "slewing K (int U + K) (usecs v) U s'"
    using adjtime_slewing [OF assms(1-5)] by blast
  have "sorted Us" using assms(7) by (induction U Us rule: spaced.induct) (auto dest: spaced_ge)
  then have "sorted (map (\<lambda>W. slewed (int U + K) (usecs v) (int W + K)) Us)"
    using spaced_ge [OF assms(7)] by (auto simp: sorted_wrt_map sorted_map intro!: slewed_mono sorted_wrt_mono_rel [of Us "(\<le>)"])
  then show ?thesis using s' gets_slewing [OF s'(2) order_refl assms(7)] by simp
qed

theorem adjtime_is_monotonic_witness:
  "sorted (map usecs (gets (snd (snd (adjtime (Some \<lparr>tv_sec = 0, tv_usec = -2\<rparr>) (clk 1000) (clk 1000) (clk 1000) timekeeping_init)))
    [2999, 3000, 5000]))"
  using adjtime_is_monotonic [of 0 0 timekeeping_init 1000 "\<lparr>tv_sec = 0, tv_usec = -2\<rparr>" "[2999, 3000, 5000]"]
  by (simp add: tracks_def clk_def timekeeping_init_def adjtime_bad_def ADJTIME_MAX_SECS_ALLOWED_def)

text \<open>
  \<open>gettimeofday\<close> reads the clock before it looks for a wrap. When the clock wraps between the
  two reads, the returned time is more than 71 minutes ahead.
\<close>

theorem gettimeofday_wrap_race:
  assumes "tracks K T s" "slew_complete_time s = 0" "T \<le> U" "U - T < 2 ^ 32 - 1" "clk U = 2 ^ 32 - 1" "clk T < 2 ^ 32 - 1" "0 < clk T"
  shows "usecs (fst (gettimeofday (clk U) (clk (U + 1)) (clk (U + 1)) s)) = int U + K + 2 ^ 32"
proof -
  have U1: "clk (U + 1) = 0" using assms(5) by (simp add: clk_def mod_Suc)
  have c: "tracks K (U + 1) (check_system_clock (clk (U + 1)) (clk (U + 1)) s)"
    "slew_complete_time (check_system_clock (clk (U + 1)) (clk (U + 1)) s) = 0"
    using check_tracks [OF assms(1), of "U + 1" "clk (U + 1)"] assms(2-4) by auto
  then show ?thesis using U1 assms(5) by (simp add: gettimeofday_def Let_def usecs_split internal_clock_def tracks_def)
qed

theorem gettimeofday_wrap_race_witness:
  "\<exists>s. usecs (fst (gettimeofday (clk 4294967295) (clk 4294967296) (clk 4294967296) s)) = 8589934591"
  using gettimeofday_wrap_race [of 0 1 "timekeeping_init\<lparr>last_system_clock_value := 1\<rparr>" 4294967295]
  by (auto simp: tracks_def clk_def timekeeping_init_def)

end
