(* ===== verification/Sdk_flash.thy ===== *)
theory Sdk_flash
  imports Spiflash
begin

text \<open>
  The flash functions of the SDK as recreated in \<open>src/open_esplibs/libmain/spi_flash.c\<close>, which the boot
  loader interface and the firmware update use.

  They call routines in the mask ROM of the chip, which are not part of the repository. These
  are the parameter \<open>R\<close>, a record of functions on the memory of the flash chip; the locale
  \<open>rom_routines\<close> states what the ROM promises. Interrupt locking and the read cache have no
  effect on the memory.
\<close>

section \<open>The ROM routines\<close>

text \<open>\<open>True\<close> stands for the return value 0.\<close>

record rom_flash =
  SPI_page_program :: "sdk_flashchip \<Rightarrow> nat \<Rightarrow> byte list \<Rightarrow> nat \<Rightarrow> memory \<Rightarrow> bool \<times> memory"
  SPI_read_data :: "sdk_flashchip \<Rightarrow> nat \<Rightarrow> nat \<Rightarrow> memory \<Rightarrow> byte list option"
  SPI_write_enable :: "sdk_flashchip \<Rightarrow> memory \<Rightarrow> bool \<times> memory"
  SPI_sector_erase :: "sdk_flashchip \<Rightarrow> nat \<Rightarrow> memory \<Rightarrow> bool \<times> memory"

locale rom_routines =
  fixes R :: rom_flash
  assumes page_program: "chip_ok c \<Longrightarrow> a + n \<le> chip_size c \<Longrightarrow> n \<le> length buf
      \<Longrightarrow> a mod page_size c + n \<le> page_size c \<Longrightarrow> SPI_page_program R c a buf n m = (True, nor_program a (take n buf) m)"
    and read_data: "chip_ok c \<Longrightarrow> a + n \<le> chip_size c \<Longrightarrow> SPI_read_data R c a n m = Some (mem_read m a n)"
    and write_enable: "SPI_write_enable R c m = (True, m)"
    and sector_erase: "chip_ok c \<Longrightarrow> a mod SPI_FLASH_SECTOR_SIZE = 0 \<Longrightarrow> a + SPI_FLASH_SECTOR_SIZE \<le> chip_size c
      \<Longrightarrow> SPI_sector_erase R c a m = (True, nor_erase a SPI_FLASH_SECTOR_SIZE m)"

section \<open>The functions\<close>

datatype sdk_SpiFlashOpResult = SPI_FLASH_RESULT_OK | SPI_FLASH_RESULT_ERR | SPI_FLASH_RESULT_TIMEOUT

definition flash_result :: "bool \<Rightarrow> sdk_SpiFlashOpResult" where
  "flash_result ok = (if ok then SPI_FLASH_RESULT_OK else SPI_FLASH_RESULT_ERR)"

text \<open>The loop over the full pages; \<open>n\<close> pages are left and \<open>pos\<close> bytes are written.\<close>

fun sdk_SPIWrite_pages :: "rom_flash \<Rightarrow> sdk_flashchip \<Rightarrow> nat \<Rightarrow> byte list \<Rightarrow> nat \<Rightarrow> nat \<Rightarrow> memory \<Rightarrow> bool \<times> nat \<times> memory" where
  "sdk_SPIWrite_pages R chip des_addr src pos 0 m = (True, pos, m)"
| "sdk_SPIWrite_pages R chip des_addr src pos (Suc n) m =
     (case SPI_page_program R chip (u32 (des_addr + pos)) (drop (pos div 4 * 4) src) (page_size chip) m of
        (False, m1) \<Rightarrow> (False, pos, m1)
      | (True, m1) \<Rightarrow> sdk_SPIWrite_pages R chip des_addr src (u32 (pos + page_size chip)) n m1)"

definition sdk_SPIWrite :: "rom_flash \<Rightarrow> sdk_flashchip \<Rightarrow> nat \<Rightarrow> byte list \<Rightarrow> nat \<Rightarrow> memory \<Rightarrow> sdk_SpiFlashOpResult \<times> memory" where
  "sdk_SPIWrite R chip des_addr src sz m =
     (if u32 (des_addr + sz) \<le> chip_size chip
      then
        let first_page_portion = page_size chip - des_addr mod page_size chip
        in if sz < first_page_portion
           then (case SPI_page_program R chip des_addr src sz m of (ok, m1) \<Rightarrow> (flash_result ok, m1))
           else
             (case SPI_page_program R chip des_addr src first_page_portion m of
                (False, m1) \<Rightarrow> (SPI_FLASH_RESULT_ERR, m1)
              | (True, m1) \<Rightarrow>
                  let full_pages = (sz - first_page_portion) div page_size chip
                  in (case sdk_SPIWrite_pages R chip des_addr src first_page_portion full_pages m1 of
                        (False, _, m2) \<Rightarrow> (SPI_FLASH_RESULT_ERR, m2)
                      | (True, pos, m2) \<Rightarrow>
                          (case SPI_page_program R chip (u32 (des_addr + pos)) (drop (pos div 4 * 4) src) (u32_sub sz pos) m2 of
                             (ok, m3) \<Rightarrow> (flash_result ok, m3))))
      else (SPI_FLASH_RESULT_ERR, m))"

definition sdk_SPIRead :: "rom_flash \<Rightarrow> sdk_flashchip \<Rightarrow> nat \<Rightarrow> nat \<Rightarrow> memory \<Rightarrow> byte list option" where
  "sdk_SPIRead R chip src_addr sz m = SPI_read_data R chip src_addr sz m"

definition sdk_SPIEraseSector :: "rom_flash \<Rightarrow> sdk_flashchip \<Rightarrow> nat \<Rightarrow> memory \<Rightarrow> sdk_SpiFlashOpResult \<times> memory" where
  "sdk_SPIEraseSector R chip sec m =
     (if sec \<ge> chip_size chip div sector_size chip then (SPI_FLASH_RESULT_ERR, m)
      else (case SPI_write_enable R chip m of
              (False, m1) \<Rightarrow> (SPI_FLASH_RESULT_ERR, m1)
            | (True, m1) \<Rightarrow>
                (case SPI_sector_erase R chip (u32 (sector_size chip * sec)) m1 of
                   (ok, m2) \<Rightarrow> (flash_result ok, m2))))"

text \<open>The sector is passed as a \<open>uint16_t\<close>.\<close>

definition sdk_spi_flash_erase_sector :: "rom_flash \<Rightarrow> sdk_flashchip \<Rightarrow> nat \<Rightarrow> memory \<Rightarrow> sdk_SpiFlashOpResult \<times> memory" where
  "sdk_spi_flash_erase_sector R chip sec m = sdk_SPIEraseSector R chip (u16 sec) m"

text \<open>\<open>None\<close> is the null pointer; the length is rounded up to full words.\<close>

definition sdk_spi_flash_write :: "rom_flash \<Rightarrow> sdk_flashchip \<Rightarrow> nat \<Rightarrow> byte list option \<Rightarrow> nat \<Rightarrow> memory
    \<Rightarrow> sdk_SpiFlashOpResult \<times> memory" where
  "sdk_spi_flash_write R chip des_addr src sz m =
     (case src of
        None \<Rightarrow> (SPI_FLASH_RESULT_ERR, m)
      | Some buf \<Rightarrow> sdk_SPIWrite R chip des_addr buf (if sz mod 4 \<noteq> 0 then u32 (sz div 4 * 4 + 4) else sz) m)"

text \<open>\<open>None\<close> is an error; \<open>buf\<close> says whether the destination pointer is not null.\<close>

definition sdk_spi_flash_read :: "rom_flash \<Rightarrow> sdk_flashchip \<Rightarrow> nat \<Rightarrow> bool \<Rightarrow> nat \<Rightarrow> memory \<Rightarrow> byte list option" where
  "sdk_spi_flash_read R chip src_addr buf sz m = (if buf then sdk_SPIRead R chip src_addr sz m else None)"

section \<open>The functions keep the promise of the ROM\<close>

context rom_routines
begin

lemma SPIWrite_pages_flat:
  assumes "chip_ok c" "pos mod 4 = 0" "page_size c mod 4 = 0" "pos + n * page_size c \<le> length src"
    and "a + pos + n * page_size c \<le> chip_size c" "(a + pos) mod page_size c = 0"
  shows "sdk_SPIWrite_pages R c a src pos n m
    = (True, pos + n * page_size c, nor_program (a + pos) (take (n * page_size c) (drop pos src)) m)"
  using assms
proof (induction n arbitrary: pos m)
  case (Suc n)
  let ?p = "page_size c"
  have b: "a + pos + ?p \<le> 2 ^ 24" "?p < 2 ^ 24" using Suc.prems(1,5) by (auto simp: chip_ok_def)
  have d: "pos div 4 * 4 = pos" using Suc.prems(2) by auto
  have page: "SPI_page_program R c (u32 (a + pos)) (drop (pos div 4 * 4) src) ?p m
      = (True, nor_program (a + pos) (take ?p (drop pos src)) m)"
    using Suc.prems b d page_program [of c "a + pos" ?p "drop pos src" m] by simp
  have "(a + (pos + ?p)) mod ?p = 0" using Suc.prems(6) by (simp add: add.assoc [symmetric])
  moreover have "(pos + ?p) mod 4 = 0" using Suc.prems(2,3) by presburger
  ultimately have rest: "sdk_SPIWrite_pages R c a src (pos + ?p) n m'
      = (True, pos + ?p + n * ?p, nor_program (a + (pos + ?p)) (take (n * ?p) (drop (pos + ?p) src)) m')" for m'
    using Suc.prems by (intro Suc.IH) auto
  have tk: "take (Suc n * ?p) (drop pos src) = take ?p (drop pos src) @ take (n * ?p) (drop (pos + ?p) src)"
    by (simp add: take_add add.commute)
  show ?case
    using Suc.prems b page unfolding tk
    by (simp add: rest nor_program_append min_def add.assoc add.commute)
qed simp

lemma SPIWrite_flat:
  assumes "chip_ok c" "page_size c mod 4 = 0" "a mod 4 = 0" "n \<le> length src" "a + n \<le> chip_size c"
  shows "sdk_SPIWrite R c a src n m = (SPI_FLASH_RESULT_OK, nor_program a (take n src) m)"
proof -
  let ?p = "page_size c" let ?off = "?p - a mod ?p"
  have p: "0 < ?p" "?p < 2 ^ 24" and b: "a + n \<le> 2 ^ 24" using assms(1,5) by (auto simp: chip_ok_def)
  have mp: "a mod ?p < ?p" using p by simp
  have fits: "u32 (a + n) \<le> chip_size c" using assms(5) b by simp
  show ?thesis
  proof (cases "n < ?off")
    case True
    then show ?thesis
      using fits mp assms page_program [of c a n src m] by (simp add: sdk_SPIWrite_def flash_result_def)
  next
    case False
    define k where "k = (n - ?off) div ?p"
    define q where "q = ?off + k * ?p"
    have q: "q \<le> n" "n - q = (n - ?off) mod ?p"
      using False unfolding q_def k_def
      by (simp_all add: minus_div_mult_eq_mod [symmetric]) (metis div_times_less_eq_dividend
          le_add_diff_inverse nat_add_left_cancel_le not_less)
    have off0: "(a + ?off) mod ?p = 0" using p mp by (metis le_add_diff_inverse less_imp_le_nat mod_add_left_eq mod_self)
    then have q0: "(a + q) mod ?p = 0" by (simp add: q_def add.assoc [symmetric])
    have off4: "?off mod 4 = 0"
    proof -
      have "(a mod ?p) mod 4 = 0" using assms(2,3) by (metis mod_mod_cancel mod_0_imp_dvd)
      then show ?thesis using assms(2) by (metis mod_0_imp_dvd dvd_diff_nat dvd_imp_mod_0)
    qed
    then have q4: "q mod 4 = 0" using assms(2) by (auto simp: q_def)
    have first: "SPI_page_program R c a src ?off m = (True, nor_program a (take ?off src) m)"
      using assms False mp by (intro page_program) auto
    have pages: "sdk_SPIWrite_pages R c a src ?off k m' = (True, q, nor_program (a + ?off) (take (k * ?p) (drop ?off src)) m')" for m'
    proof -
      have "?off + k * ?p \<le> length src" "a + ?off + k * ?p \<le> chip_size c" using q(1) assms(4,5) unfolding q_def by linarith+
      then show ?thesis unfolding q_def using assms off0 off4 by (intro SPIWrite_pages_flat)
    qed
    have last: "SPI_page_program R c (a + q) (drop q src) (n - q) m' = (True, nor_program (a + q) (take (n - q) (drop q src)) m')" for m'
      using assms q q0 p by (intro page_program) auto
    have sub: "u32_sub n q = n - q" "u32 (a + q) = a + q" "q div 4 * 4 = q" using q b q4 by auto
    have tk: "take n src = take ?off src @ take (k * ?p) (drop ?off src) @ take (n - q) (drop q src)"
      using q by (metis append_assoc q_def le_add_diff_inverse take_add)
    have len: "length (take ?off src) = ?off" "length (take (k * ?p) (drop ?off src)) = k * ?p" using q assms(4) by (auto simp: q_def)
    have "sdk_SPIWrite R c a src n m = (SPI_FLASH_RESULT_OK, nor_program (a + q) (take (n - q) (drop q src))
        (nor_program (a + ?off) (take (k * ?p) (drop ?off src)) (nor_program a (take ?off src) m)))"
      using False by (simp add: sdk_SPIWrite_def fits Let_def first pages last sub flash_result_def flip: k_def)
    also have "\<dots> = (SPI_FLASH_RESULT_OK, nor_program a (take n src) m)"
      unfolding tk by (simp only: nor_program_append len q_def add.assoc)
    finally show ?thesis .
  qed
qed

end

text \<open>The geometry of a chip that is written in words.\<close>

definition word_chip :: "sdk_flashchip \<Rightarrow> bool" where
  "word_chip c \<longleftrightarrow> chip_ok c \<and> page_size c mod 4 = 0"

definition round4 :: "nat \<Rightarrow> nat" where
  "round4 n = (n + 3) div 4 * 4"

lemma round4_id [simp]: "n mod 4 = 0 \<Longrightarrow> round4 n = n"
  unfolding round4_def by presburger

context rom_routines
begin

lemma flash_read_ok: "chip_ok c \<Longrightarrow> a + n \<le> chip_size c \<Longrightarrow> sdk_spi_flash_read R c a True n m = Some (mem_read m a n)"
  by (simp add: sdk_spi_flash_read_def sdk_SPIRead_def read_data)

lemma flash_write_ok:
  assumes "word_chip c" "a mod 4 = 0" "round4 n \<le> length buf" "a + round4 n \<le> chip_size c"
  shows "sdk_spi_flash_write R c a (Some buf) n m = (SPI_FLASH_RESULT_OK, nor_program a (take (round4 n) buf) m)"
proof -
  have "a + round4 n \<le> 2 ^ 24" using assms(1,4) by (simp add: word_chip_def chip_ok_def)
  moreover have "(if n mod 4 \<noteq> 0 then n div 4 * 4 + 4 else n) = round4 n" unfolding round4_def by presburger
  ultimately have "(if n mod 4 \<noteq> 0 then u32 (n div 4 * 4 + 4) else n) = round4 n" by (auto split: if_splits)
  then show ?thesis
    using assms SPIWrite_flat [of c a "round4 n" buf m] by (simp add: sdk_spi_flash_write_def word_chip_def)
qed

lemma flash_erase_ok:
  assumes "chip_ok c" "(sec + 1) * SPI_FLASH_SECTOR_SIZE \<le> chip_size c"
  shows "sdk_spi_flash_erase_sector R c sec m = (SPI_FLASH_RESULT_OK, nor_erase (sec * SPI_FLASH_SECTOR_SIZE) SPI_FLASH_SECTOR_SIZE m)"
proof -
  have c: "sector_size c = 4096" "chip_size c \<le> 16777216" using assms(1) by (simp_all add: chip_ok_def SPI_FLASH_SECTOR_SIZE_def)
  have sec: "sec < 4096" "sec < chip_size c div 4096" using assms(2) c by (auto simp: SPI_FLASH_SECTOR_SIZE_def less_eq_div_iff_mult_less_eq)
  then have "sdk_spi_flash_erase_sector R c sec m = (case SPI_sector_erase R c (u32 (4096 * sec)) m of (ok, m2) \<Rightarrow> (flash_result ok, m2))"
    by (simp add: sdk_spi_flash_erase_sector_def sdk_SPIEraseSector_def c write_enable)
  moreover have "u32 (4096 * sec) = sec * SPI_FLASH_SECTOR_SIZE" using sec by (simp add: SPI_FLASH_SECTOR_SIZE_def)
  ultimately show ?thesis
    using sector_erase [OF assms(1), of "sec * SPI_FLASH_SECTOR_SIZE" m] assms(2)
    by (simp add: flash_result_def algebra_simps)
qed

lemma flash_erase_refused:
  "chip_ok c \<Longrightarrow> sec < 65536 \<Longrightarrow> chip_size c div SPI_FLASH_SECTOR_SIZE \<le> sec \<Longrightarrow>
    sdk_spi_flash_erase_sector R c sec m = (SPI_FLASH_RESULT_ERR, m)"
  by (simp add: sdk_spi_flash_erase_sector_def sdk_SPIEraseSector_def chip_ok_def)

end

text \<open>
  The routines of \<open>spiflash.c\<close> replace the ROM routines in the firmware and keep the same promise.
\<close>

definition spi_rom :: rom_flash where
  "spi_rom = \<lparr>SPI_page_program = spi_write_page, SPI_read_data = (\<lambda>c a n m. spiflash_read c a True n m),
     SPI_write_enable = (\<lambda>c m. (True, m)), SPI_sector_erase = spiflash_erase_sector\<rparr>"

interpretation spi_rom: rom_routines spi_rom
proof (unfold_locales, goal_cases)
  case (1 c a n buf m)
  then show ?case by (simp add: spi_rom_def chip_ok_def spi_write_page_flat)
next
  case (2 c a n m)
  then show ?case by (simp add: spi_rom_def spiflash.read_ok)
next
  case (3 c m)
  then show ?case by (simp add: spi_rom_def)
next
  case (4 c a m)
  then show ?case by (simp add: spi_rom_def spiflash.erase_ok)
qed

section \<open>Properties\<close>

text \<open>
  With ROM routines that keep their promise, \<open>sdk_spi_flash_write\<close> of a number of words at an
  aligned address has the same effect on the flash as \<open>spiflash_write\<close>, over any number of
  pages, and both succeed.
\<close>

theorem sdk_write_agrees:
  assumes "rom_routines R" "word_chip c" "a mod 4 = 0" "length bs mod 4 = 0" "a + length bs \<le> chip_size c"
  shows "sdk_spi_flash_write R c a (Some bs) (length bs) m
      = (SPI_FLASH_RESULT_OK, snd (spiflash_write c a (Some bs) (length bs) m))
    \<and> fst (spiflash_write c a (Some bs) (length bs) m)"
  using rom_routines.flash_write_ok [OF assms(1-3), of "length bs" bs m] assms(2,4,5) spiflash.write_ok [of c a bs m]
  by (simp add: word_chip_def)

lemma sdk_flashchip_init_word [simp]: "word_chip sdk_flashchip_init"
  by (simp add: word_chip_def) (simp add: sdk_flashchip_init_def)

theorem sdk_write_agrees_witness:
  "sdk_spi_flash_write spi_rom sdk_flashchip_init 252 (Some (replicate 8 7)) 8 (\<lambda>_. 255)
    = (SPI_FLASH_RESULT_OK, snd (spiflash_write sdk_flashchip_init 252 (Some (replicate 8 7)) 8 (\<lambda>_. 255)))"
  using sdk_write_agrees [OF spi_rom.rom_routines_axioms sdk_flashchip_init_word, of 252 "replicate 8 7" "\<lambda>_. 255"] by simp

end
