(* ===== verification/Rboot.thy ===== *)
theory Rboot
  imports Sdk_flash
begin

text \<open>
  The boot loader interface of \<open>src/extras/rboot-ota/rboot-api.c\<close>: the stored boot configuration, the
  buffered writer of a firmware image, the data kept in the memory of the real-time clock and the
  check of an image; with the access functions of that memory from
  \<open>src/open_esplibs/libmain/user_interface.c\<close>.

  The constants and the layout of the structures come from the header \<open>rboot.h\<close> of a submodule. They
  are the parameter \<open>h\<close>, a record of constants and byte offsets; a structure is the list of its bytes.
  The locale \<open>rboot_header\<close> states what the code relies on: sectors of 4096 bytes and fields that do
  not overlap. The flash is reached through the SDK functions, with the ROM routines \<open>R\<close>.
\<close>

section \<open>The header of the boot loader\<close>

record rboot_h =
  SECTOR_SIZE :: nat
  BOOT_CONFIG_SECTOR :: nat
  CHKSUM_INIT :: byte
  sizeof_rboot_config :: nat
  at_count :: nat
  at_current_rom :: nat
  at_roms :: nat
  at_chksum :: nat
  RBOOT_RTC_ADDR :: nat
  RBOOT_RTC_MAGIC :: nat
  MODE_STANDARD :: byte
  MODE_TEMP_ROM :: byte
  sizeof_rboot_rtc_data :: nat
  at_magic :: nat
  at_next_mode :: nat
  at_last_mode :: nat
  at_last_rom :: nat
  at_temp_rom :: nat
  at_rtc_chksum :: nat

type_synonym rboot_config = "byte list"

type_synonym rboot_rtc_data = "byte list"

text \<open>The bytes of a field replaced.\<close>

definition set_bytes :: "nat \<Rightarrow> byte list \<Rightarrow> byte list \<Rightarrow> byte list" where
  "set_bytes i v bs = take i bs @ v @ drop (i + length v) bs"

text \<open>A read whose result is ignored: when it fails the buffer keeps its contents.\<close>

definition read_into :: "byte list \<Rightarrow> byte list option \<Rightarrow> byte list" where
  "read_into buf r = (case r of Some bs \<Rightarrow> bs | None \<Rightarrow> buf)"

section \<open>The boot configuration\<close>

definition calc_chksum :: "rboot_h \<Rightarrow> byte list \<Rightarrow> byte" where
  "calc_chksum h bs = foldl (XOR) (CHKSUM_INIT h) bs"

text \<open>\<open>stk\<close> is the initial contents of the variable on the stack.\<close>

definition rboot_get_config :: "rboot_h \<Rightarrow> rom_flash \<Rightarrow> sdk_flashchip \<Rightarrow> rboot_config \<Rightarrow> memory \<Rightarrow> rboot_config" where
  "rboot_get_config h R chip stk m =
     read_into stk (sdk_spi_flash_read R chip (u32 (BOOT_CONFIG_SECTOR h * SECTOR_SIZE h)) True (sizeof_rboot_config h) m)"

text \<open>
  \<open>heap\<close> is the buffer \<open>malloc\<close> returns, \<open>None\<close> the null pointer. The structure of the caller is
  changed as well.
\<close>

definition rboot_set_config :: "rboot_h \<Rightarrow> rom_flash \<Rightarrow> sdk_flashchip \<Rightarrow> byte list option \<Rightarrow> rboot_config \<Rightarrow> memory
    \<Rightarrow> bool \<times> rboot_config \<times> memory" where
  "rboot_set_config h R chip heap conf m =
     (case heap of
        None \<Rightarrow> (False, conf, m)
      | Some buffer \<Rightarrow>
          let conf1 = conf[at_chksum h := calc_chksum h (take (at_chksum h) conf)];
              addr = u32 (BOOT_CONFIG_SECTOR h * SECTOR_SIZE h);
              buffer1 = read_into buffer (sdk_spi_flash_read R chip addr True (SECTOR_SIZE h) m);
              buffer2 = set_bytes 0 (take (sizeof_rboot_config h) conf1) buffer1;
              m1 = snd (sdk_spi_flash_erase_sector R chip (BOOT_CONFIG_SECTOR h) m);
              m2 = snd (sdk_spi_flash_write R chip addr (Some buffer2) (SECTOR_SIZE h) m1)
          in (True, conf1, m2))"

definition rboot_get_current_rom :: "rboot_h \<Rightarrow> rom_flash \<Rightarrow> sdk_flashchip \<Rightarrow> rboot_config \<Rightarrow> memory \<Rightarrow> byte" where
  "rboot_get_current_rom h R chip stk m = rboot_get_config h R chip stk m ! at_current_rom h"

definition rboot_set_current_rom :: "rboot_h \<Rightarrow> rom_flash \<Rightarrow> sdk_flashchip \<Rightarrow> byte list option \<Rightarrow> rboot_config \<Rightarrow> byte \<Rightarrow> memory
    \<Rightarrow> bool \<times> memory" where
  "rboot_set_current_rom h R chip heap stk rom m =
     (let conf = rboot_get_config h R chip stk m
      in if conf ! at_count h \<le> rom then (False, m)
         else (case rboot_set_config h R chip heap (conf[at_current_rom h := rom]) m of (ok, _, m1) \<Rightarrow> (ok, m1)))"

text \<open>The offset of a slot, \<open>0xffffffff\<close> when there is no such slot.\<close>

definition rboot_get_slot_offset :: "rboot_h \<Rightarrow> rom_flash \<Rightarrow> sdk_flashchip \<Rightarrow> rboot_config \<Rightarrow> byte \<Rightarrow> memory \<Rightarrow> nat" where
  "rboot_get_slot_offset h R chip stk slot m =
     (let conf = rboot_get_config h R chip stk m
      in if conf ! at_count h \<le> slot then 4294967295 else rd32 conf (at_roms h + 4 * unat slot))"

section \<open>The writer\<close>

record rboot_write_status =
  start_addr :: nat
  start_sector :: nat
  last_sector_erased :: int
  extra_count :: nat
  extra_bytes :: "byte list"

definition rboot_write_init :: "rboot_h \<Rightarrow> nat \<Rightarrow> rboot_write_status" where
  "rboot_write_init h a =
     \<lparr>start_addr = a, start_sector = a div SECTOR_SIZE h,
      last_sector_erased = s32 (u32_sub (a div SECTOR_SIZE h) 1),
      extra_count = 0, extra_bytes = [0, 0, 0, 0]\<rparr>"

text \<open>The erasing loop; \<open>n\<close> is the number of rounds left. The sector is passed as a \<open>uint16_t\<close>.\<close>

fun erase_to :: "rom_flash \<Rightarrow> sdk_flashchip \<Rightarrow> nat \<Rightarrow> int \<Rightarrow> memory \<Rightarrow> memory" where
  "erase_to R chip 0 lse m = m"
| "erase_to R chip (Suc n) lse m =
     erase_to R chip n (lse + 1) (snd (sdk_spi_flash_erase_sector R chip (nat ((lse + 1) mod 2 ^ 16)) m))"

text \<open>
  \<open>data\<close> is the buffer of the caller, \<open>None\<close> the null pointer; \<open>malloc_ok\<close> says whether the
  allocation succeeds.
\<close>

definition rboot_write_flash :: "rboot_h \<Rightarrow> rom_flash \<Rightarrow> sdk_flashchip \<Rightarrow> bool \<Rightarrow> rboot_write_status \<Rightarrow> byte list option \<Rightarrow> nat
    \<Rightarrow> memory \<Rightarrow> bool \<times> rboot_write_status \<times> memory" where
  "rboot_write_flash h R chip malloc_ok status data len m =
     (case data of
        None \<Rightarrow> (True, status, m)
      | Some bs \<Rightarrow>
          if len = 0 then (True, status, m)
          else if \<not> malloc_ok then (False, status, m)
          else
            let buffer = take (extra_count status) (extra_bytes status) @ take len bs;
                len1 = u16 (len + extra_count status);
                extra = len1 mod 4;
                len2 = len1 - extra;
                status1 = status\<lparr>extra_count := extra,
                                 extra_bytes := set_bytes 0 (take extra (drop len2 buffer)) (extra_bytes status)\<rparr>;
                lastsect = s32 (u32_sub (u32 (start_addr status + len2)) 1 div SECTOR_SIZE h);
                m1 = erase_to R chip (nat (lastsect - last_sector_erased status)) (last_sector_erased status) m;
                status2 = status1\<lparr>last_sector_erased := max lastsect (last_sector_erased status)\<rparr>
            in (case sdk_spi_flash_write R chip (start_addr status) (Some buffer) len2 m1 of
                  (SPI_FLASH_RESULT_OK, m2) \<Rightarrow> (True, status2\<lparr>start_addr := u32 (start_addr status + len2)\<rparr>, m2)
                | (_, m2) \<Rightarrow> (False, status2, m2)))"

section \<open>The memory of the real-time clock\<close>

text \<open>\<open>RTCMEM_SYSTEM[k]\<close> is the word at the bytes \<open>4 k .. 4 k + 3\<close>.\<close>

fun rtc_write_words :: "nat \<Rightarrow> byte list \<Rightarrow> nat \<Rightarrow> nat \<Rightarrow> memory \<Rightarrow> memory" where
  "rtc_write_words des src i 0 rtc = rtc"
| "rtc_write_words des src i (Suc n) rtc =
     rtc_write_words des src (i + 1) n (mem_put (4 * (des + i)) (take 4 (drop (4 * i) src)) rtc)"

fun rtc_read_words :: "nat \<Rightarrow> nat \<Rightarrow> nat \<Rightarrow> memory \<Rightarrow> byte list" where
  "rtc_read_words src i 0 rtc = []"
| "rtc_read_words src i (Suc n) rtc = mem_read rtc (4 * (src + i)) 4 @ rtc_read_words src (i + 1) n rtc"

text \<open>\<open>aligned\<close> says whether the pointer of the caller is a multiple of four.\<close>

definition sdk_system_rtc_mem_write :: "nat \<Rightarrow> bool \<Rightarrow> byte list \<Rightarrow> nat \<Rightarrow> memory \<Rightarrow> bool \<times> memory" where
  "sdk_system_rtc_mem_write des_addr aligned src save_size rtc =
     (if des_addr > 191 then (False, rtc)
      else if \<not> aligned then (False, rtc)
      else if 768 - des_addr * 4 < save_size then (False, rtc)
      else
        let size = (if save_size mod 4 \<noteq> 0 then u16 (save_size div 4 * 4 + 4) else save_size)
        in (True, rtc_write_words des_addr src 0 (size div 4) rtc))"

definition sdk_system_rtc_mem_read :: "nat \<Rightarrow> bool \<Rightarrow> nat \<Rightarrow> memory \<Rightarrow> byte list option" where
  "sdk_system_rtc_mem_read src_addr aligned save_size rtc =
     (if src_addr > 191 then None
      else if \<not> aligned then None
      else if 768 - src_addr * 4 < save_size then None
      else
        let size = (if save_size mod 4 \<noteq> 0 then u16 (save_size div 4 * 4 + 4) else save_size)
        in Some (rtc_read_words src_addr 0 (size div 4) rtc))"

text \<open>The boolean result and the structure of the caller.\<close>

definition rboot_get_rtc_data :: "rboot_h \<Rightarrow> rboot_rtc_data \<Rightarrow> memory \<Rightarrow> bool \<times> rboot_rtc_data" where
  "rboot_get_rtc_data h buf rtc =
     (case sdk_system_rtc_mem_read (RBOOT_RTC_ADDR h) True (sizeof_rboot_rtc_data h) rtc of
        Some d \<Rightarrow> (d ! at_rtc_chksum h = calc_chksum h (take (at_rtc_chksum h) d), d)
      | None \<Rightarrow> (False, buf))"

definition rboot_set_rtc_data :: "rboot_h \<Rightarrow> rboot_rtc_data \<Rightarrow> memory \<Rightarrow> bool \<times> memory" where
  "rboot_set_rtc_data h d rtc =
     sdk_system_rtc_mem_write (RBOOT_RTC_ADDR h) True
       (d[at_rtc_chksum h := calc_chksum h (take (at_rtc_chksum h) d)]) (sizeof_rboot_rtc_data h) rtc"

definition rboot_set_temp_rom :: "rboot_h \<Rightarrow> rboot_rtc_data \<Rightarrow> byte \<Rightarrow> memory \<Rightarrow> bool \<times> memory" where
  "rboot_set_temp_rom h stk rom rtc =
     (case rboot_get_rtc_data h stk rtc of
        (valid, d) \<Rightarrow>
          let d1 = (if valid then d
                    else (set_bytes (at_magic h) (le32 (RBOOT_RTC_MAGIC h)) d)[at_last_mode h := MODE_STANDARD h, at_last_rom h := 0]);
              d2 = d1[at_next_mode h := MODE_TEMP_ROM h, at_temp_rom h := rom]
          in rboot_set_rtc_data h d2 rtc)"

definition rboot_get_last_boot_rom :: "rboot_h \<Rightarrow> rboot_rtc_data \<Rightarrow> memory \<Rightarrow> byte option" where
  "rboot_get_last_boot_rom h stk rtc =
     (case rboot_get_rtc_data h stk rtc of (ok, d) \<Rightarrow> if ok then Some (d ! at_last_rom h) else None)"

definition rboot_get_last_boot_mode :: "rboot_h \<Rightarrow> rboot_rtc_data \<Rightarrow> memory \<Rightarrow> byte option" where
  "rboot_get_last_boot_mode h stk rtc =
     (case rboot_get_rtc_data h stk rtc of (ok, d) \<Rightarrow> if ok then Some (d ! at_last_mode h) else None)"

section \<open>The check of an image\<close>

definition ROM_MAGIC_OLD :: byte where
  "ROM_MAGIC_OLD = 0xe9"

definition ROM_MAGIC_NEW :: byte where
  "ROM_MAGIC_NEW = 0xea"

datatype verify_error = Unaligned_flash_offset | Flash_fail | Missing_initial_magic | Header_length_not_modulo_4
  | Bad_second_magic | Image_truncated | Invalid_checksum

text \<open>\<open>(x + 3) & ~3\<close> and \<open>(x + 15) & ~15\<close> on \<open>uint32_t\<close>.\<close>

definition pad_to :: "nat \<Rightarrow> nat \<Rightarrow> nat" where
  "pad_to k x = u32 (x + (k - 1)) div k * k"

text \<open>
  The checksum of the data of a section: byte \<open>i\<close> and \<open>n\<close> bytes left; a chunk of 16 bytes is read
  at every multiple of 16.
\<close>

fun section_chksum :: "rom_flash \<Rightarrow> sdk_flashchip \<Rightarrow> memory \<Rightarrow> nat \<Rightarrow> nat \<Rightarrow> nat \<Rightarrow> byte list \<Rightarrow> byte \<Rightarrow> byte" where
  "section_chksum R chip m offset i 0 chunk ck = ck"
| "section_chksum R chip m offset i (Suc n) chunk ck =
     (let chunk1 = (if i mod 16 = 0 then read_into chunk (sdk_spi_flash_read R chip (u32 (offset + i)) True 16 m) else chunk)
      in section_chksum R chip m offset (i + 1) n chunk1 (ck XOR chunk1 ! (i mod 16)))"

text \<open>
  The loop over the sections. \<open>Inl\<close> is a jump to the label \<open>fail\<close> with the offset reached, \<open>Inr\<close> the
  end of the loop with the sections left, the offset and the checksum.
\<close>

function verify_sections :: "rom_flash \<Rightarrow> sdk_flashchip \<Rightarrow> memory \<Rightarrow> byte list \<Rightarrow> nat \<Rightarrow> byte list \<Rightarrow> bool \<Rightarrow> nat \<Rightarrow> nat \<Rightarrow> byte
    \<Rightarrow> verify_error \<times> nat + nat \<times> nat \<times> byte" where
  "verify_sections R chip m stk end_limit image_header is_new remaining offset ck =
     (if 0 < remaining \<and> offset < end_limit
      then
        (case sdk_spi_flash_read R chip offset True 8 m of
           None \<Rightarrow> Inl (Flash_fail, offset)
         | Some header \<Rightarrow>
             let sec_length = rd32 header 4;
                 offset1 = u32 (offset + 8)
             in if u32 (sec_length + offset1) > end_limit then Inr (remaining, offset1, ck)
                else if sec_length mod 4 \<noteq> 0 then Inl (Header_length_not_modulo_4, offset1)
                else
                  let ck1 = (if is_new then ck else section_chksum R chip m offset1 0 sec_length stk ck);
                      offset2 = pad_to 4 (u32 (offset1 + sec_length))
                  in if is_new
                     then
                       let offset3 = pad_to 16 offset2;
                           image_header1 = read_into image_header (sdk_spi_flash_read R chip offset3 True 8 m);
                           offset4 = u32 (offset3 + 8)
                       in if image_header1 ! 0 \<noteq> ROM_MAGIC_OLD then Inl (Bad_second_magic, offset4)
                          else verify_sections R chip m stk end_limit image_header1 False (unat (image_header1 ! 1)) offset4 ck1
                     else verify_sections R chip m stk end_limit image_header False (remaining - 1) offset2 ck1)
      else Inr (remaining, offset, ck))"
  by pat_completeness auto

text \<open>A section is consumed in each round; the count is read anew only once, and is a byte.\<close>

termination
  by (relation "measure (\<lambda>(R, chip, m, stk, end_limit, image_header, is_new, remaining, offset, ck).
        (if is_new then 256 else 0) + remaining)") (auto intro: trans_less_add1)

declare verify_sections.simps [simp del]

text \<open>
  The error, \<open>None\<close> for a valid image, and the value stored in \<open>image_length\<close>. \<open>stk\<close> is the
  initial contents of the variables on the stack.
\<close>

definition rboot_verify_image :: "rboot_h \<Rightarrow> rom_flash \<Rightarrow> sdk_flashchip \<Rightarrow> byte list \<Rightarrow> nat \<Rightarrow> memory \<Rightarrow> verify_error option \<times> nat" where
  "rboot_verify_image h R chip stk initial_offset m =
     (let offset = initial_offset in
      if offset mod 4 \<noteq> 0 then (Some Unaligned_flash_offset, u32_sub offset initial_offset)
      else
        let end_limit = u32 (offset + 0x100000)
        in (case sdk_spi_flash_read R chip offset True 8 m of
              None \<Rightarrow> (Some Flash_fail, u32_sub offset initial_offset)
            | Some image_header \<Rightarrow>
                let offset1 = u32 (offset + 8)
                in if image_header ! 0 \<noteq> ROM_MAGIC_OLD \<and> image_header ! 0 \<noteq> ROM_MAGIC_NEW
                   then (Some Missing_initial_magic, u32_sub offset1 initial_offset)
                   else (case verify_sections R chip m stk end_limit image_header (image_header ! 0 = ROM_MAGIC_NEW)
                                (unat (image_header ! 1)) offset1 (CHKSUM_INIT h) of
                           Inl (e, offset2) \<Rightarrow> (Some e, u32_sub offset2 initial_offset)
                         | Inr (remaining, offset2, checksum) \<Rightarrow>
                             if 0 < remaining then (Some Image_truncated, u32_sub offset2 initial_offset)
                             else
                               let offset3 = pad_to 16 (u32 (offset2 + 1));
                                   read_checksum = read_into stk (sdk_spi_flash_read R chip (u32_sub offset3 1) True 1 m)
                               in if read_checksum ! 0 \<noteq> checksum then (Some Invalid_checksum, u32_sub offset3 initial_offset)
                                  else (None, u32_sub offset3 initial_offset))))"

text \<open>The calls of \<open>update_fn\<close>, in order, and the result.\<close>

function digest_from :: "rom_flash \<Rightarrow> sdk_flashchip \<Rightarrow> nat \<Rightarrow> nat \<Rightarrow> memory \<Rightarrow> nat \<Rightarrow> byte list list \<times> bool" where
  "digest_from R chip offset image_length m i =
     (if i < image_length
      then
        (case sdk_spi_flash_read R chip (u32 (offset + i)) True 32 m of
           None \<Rightarrow> ([], False)
         | Some buf \<Rightarrow>
             let digest_len = (if i + 32 > image_length then image_length - i else 32)
             in (case digest_from R chip offset image_length m (i + 32) of (calls, ok) \<Rightarrow> (take digest_len buf # calls, ok)))
      else ([], True))"
  by pat_completeness auto

termination
  by (relation "measure (\<lambda>(R, chip, offset, image_length, m, i). image_length - i)") auto

declare digest_from.simps [simp del]

definition rboot_digest_image :: "rom_flash \<Rightarrow> sdk_flashchip \<Rightarrow> nat \<Rightarrow> nat \<Rightarrow> memory \<Rightarrow> byte list list \<times> bool" where
  "rboot_digest_image R chip offset image_length m = digest_from R chip offset image_length m 0"

end
