(* ===== verification/Rboot_Config.thy ===== *)
theory Rboot_Config
  imports Rboot
begin

text \<open>
  The stored state of the boot loader: what a change of the boot configuration does to the flash, the
  stream of data through the buffered writer, and the data that is handed over in the memory of
  the real-time clock.
\<close>

section \<open>What the code relies on in the header\<close>

locale rboot_header =
  fixes h :: rboot_h
  assumes sector: "SECTOR_SIZE h = 4096"
    and config_size: "at_chksum h < sizeof_rboot_config h" "sizeof_rboot_config h \<le> 4096"
    and config_fields: "at_current_rom h < at_roms h" "at_count h < at_roms h" "at_roms h \<le> at_chksum h"
      "at_current_rom h \<noteq> at_count h"
    and rtc_size: "sizeof_rboot_rtc_data h mod 4 = 0" "4 * RBOOT_RTC_ADDR h + sizeof_rboot_rtc_data h \<le> 768"
      "at_rtc_chksum h < sizeof_rboot_rtc_data h"
    and rtc_fields: "distinct [at_next_mode h, at_last_mode h, at_last_rom h, at_temp_rom h]"
      "\<forall>i \<in> {at_next_mode h, at_last_mode h, at_last_rom h, at_temp_rom h}. at_magic h + 4 \<le> i \<and> i < at_rtc_chksum h"

text \<open>A header with these properties: fields in the order in which the code fills them.\<close>

definition rboot_layout :: rboot_h where
  "rboot_layout = \<lparr>SECTOR_SIZE = 0x1000, BOOT_CONFIG_SECTOR = 1, CHKSUM_INIT = 0xef,
     sizeof_rboot_config = 28, at_count = 5, at_current_rom = 3, at_roms = 8, at_chksum = 24,
     RBOOT_RTC_ADDR = 64, RBOOT_RTC_MAGIC = 0x2334ae68, MODE_STANDARD = 0, MODE_TEMP_ROM = 2,
     sizeof_rboot_rtc_data = 12, at_magic = 0, at_next_mode = 4, at_last_mode = 5, at_last_rom = 6,
     at_temp_rom = 7, at_rtc_chksum = 8\<rparr>"

interpretation layout: rboot_header rboot_layout
  by unfold_locales (simp_all add: rboot_layout_def)

section \<open>Lemmas on buffers\<close>

lemma length_set_bytes [simp]: "i + length v \<le> length bs \<Longrightarrow> length (set_bytes i v bs) = length bs"
  by (simp add: set_bytes_def)

lemma set_bytes_nth:
  "i + length v \<le> length bs \<Longrightarrow> k < length bs \<Longrightarrow>
    set_bytes i v bs ! k = (if i \<le> k \<and> k < i + length v then v ! (k - i) else bs ! k)"
  by (auto simp: set_bytes_def nth_append)

lemma nor_program_erased: "nor_program a bs (nor_erase a (length bs) m) = mem_put a bs m"
  by (rule ext) (auto simp: nor_program_apply nor_erase_apply mem_put_def)

lemma mem_put_rewrite: "length bs \<le> n \<Longrightarrow> mem_put a (set_bytes 0 bs (mem_read m a n)) m = mem_put a bs m"
  by (rule ext) (auto simp: mem_put_def set_bytes_nth)

lemma rd32_cong: "(\<And>k. k < 4 \<Longrightarrow> bs ! (i + k) = bs' ! (i + k)) \<Longrightarrow> rd32 bs i = rd32 bs' i"
proof -
  assume *: "\<And>k. k < 4 \<Longrightarrow> bs ! (i + k) = bs' ! (i + k)"
  show ?thesis using * [of 0] * [of 1] * [of 2] * [of 3] by (simp add: rd32_def)
qed

section \<open>The boot configuration\<close>

text \<open>The address of the configuration.\<close>

definition config_at :: "rboot_h \<Rightarrow> nat" where
  "config_at h = BOOT_CONFIG_SECTOR h * SECTOR_SIZE h"

locale rboot_flash = rom_routines R + rboot_header h for R h +
  fixes c :: sdk_flashchip
  assumes word_chip: "word_chip c"
    and config_sector: "(BOOT_CONFIG_SECTOR h + 1) * 4096 \<le> chip_size c"
begin

lemma chip: "chip_ok c" "chip_size c \<le> 16777216"
  using word_chip by (simp_all add: word_chip_def chip_ok_def)

lemma config_at_4096: "config_at h = BOOT_CONFIG_SECTOR h * 4096"
  by (simp add: config_at_def sector)

lemma config_at_u32: "u32 (BOOT_CONFIG_SECTOR h * 4096) = config_at h"
  using config_sector chip by (simp add: config_at_4096)

lemma get_config_ok: "rboot_get_config h R c stk m = mem_read m (config_at h) (sizeof_rboot_config h)"
  using config_sector config_size chip
  by (simp add: rboot_get_config_def sector config_at_u32 read_into_def flash_read_ok config_at_4096)

lemma set_config_ok:
  assumes "length conf = sizeof_rboot_config h"
  shows "rboot_set_config h R c (Some buf) conf m
    = (let conf1 = conf[at_chksum h := calc_chksum h (take (at_chksum h) conf)] in (True, conf1, mem_put (config_at h) conf1 m))"
proof -
  define conf1 where "conf1 = conf[at_chksum h := calc_chksum h (take (at_chksum h) conf)]"
  let ?buf = "set_bytes 0 conf1 (mem_read m (config_at h) 4096)"
  have len: "length conf1 = sizeof_rboot_config h" "length ?buf = 4096" using assms config_size by (simp_all add: conf1_def)
  have fits: "config_at h + 4096 \<le> chip_size c" "config_at h mod 4 = 0" using config_sector by (simp_all add: config_at_4096)
  have rd: "sdk_spi_flash_read R c (config_at h) True 4096 m = Some (mem_read m (config_at h) 4096)" using fits chip by (simp add: flash_read_ok)
  have er: "sdk_spi_flash_erase_sector R c (BOOT_CONFIG_SECTOR h) m = (SPI_FLASH_RESULT_OK, nor_erase (config_at h) 4096 m)"
    using flash_erase_ok [OF chip(1), of "BOOT_CONFIG_SECTOR h" m] config_sector by (simp add: config_at_4096 SPI_FLASH_SECTOR_SIZE_def)
  have wr: "sdk_spi_flash_write R c (config_at h) (Some ?buf) 4096 m' = (SPI_FLASH_RESULT_OK, nor_program (config_at h) ?buf m')" for m'
    using flash_write_ok [OF word_chip fits(2), of 4096 ?buf m'] fits len(2) by simp
  have "nor_program (config_at h) ?buf (nor_erase (config_at h) 4096 m) = mem_put (config_at h) conf1 m"
    using nor_program_erased [of "config_at h" ?buf m] mem_put_rewrite [of conf1 4096 "config_at h" m] len config_size by simp
  then show ?thesis
    using len by (simp add: rboot_set_config_def sector config_at_u32 read_into_def rd er wr flip: conf1_def)
qed

lemma set_current_rom_refused:
  "mem_read m (config_at h) (sizeof_rboot_config h) ! at_count h \<le> rom \<Longrightarrow> rboot_set_current_rom h R c heap stk rom m = (False, m)"
  by (simp add: rboot_set_current_rom_def get_config_ok)

lemma set_current_rom_ok:
  assumes "rom < mem_read m (config_at h) (sizeof_rboot_config h) ! at_count h"
  shows "rboot_set_current_rom h R c (Some buf) stk rom m
    = (True, m(config_at h + at_current_rom h := rom,
               config_at h + at_chksum h := calc_chksum h ((mem_read m (config_at h) (at_chksum h))[at_current_rom h := rom])))"
proof -
  let ?n = "sizeof_rboot_config h" let ?k = "at_chksum h"
  let ?conf = "(mem_read m (config_at h) ?n)[at_current_rom h := rom]"
  have "take ?k ?conf = (mem_read m (config_at h) ?k)[at_current_rom h := rom]"
    using config_size by (simp add: take_update_swap min_def)
  moreover have "mem_put (config_at h) (?conf[?k := b]) m = m(config_at h + at_current_rom h := rom, config_at h + ?k := b)" for b
    using config_size config_fields by (intro ext) (auto simp: mem_put_def nth_list_update)
  moreover have "\<not> mem_read m (config_at h) ?n ! at_count h \<le> rom" using assms by simp
  ultimately show ?thesis
    using set_config_ok [of ?conf buf m] by (simp add: rboot_set_current_rom_def get_config_ok Let_def)
qed

end

section \<open>The writer\<close>

lemma mem_put_nor_program:
  "(\<And>x. a \<le> x \<Longrightarrow> x < a + length bs \<Longrightarrow> m x = 255) \<Longrightarrow> nor_program a bs m = mem_put a bs m"
  by (rule ext) (simp add: nor_program_apply mem_put_def)

lemma erase_beyond:
  "a + length bs \<le> e \<Longrightarrow> e \<le> e' \<Longrightarrow>
    nor_erase e (e' - e) (mem_put a bs (nor_erase a (e - a) m)) = mem_put a bs (nor_erase a (e' - a) m)"
  by (rule ext) (auto simp: nor_erase_apply mem_put_def)

lemma sector_before: "0 < x \<Longrightarrow> (x + 4095) div 4096 = (x - 1) div 4096 + (1 :: nat)"
  using div_add_self2 [of 4096 "x - 1"] by simp

lemma words_of_sum:
  fixes x y :: nat
  shows "(x - x div 4 * 4 + y) mod 4 = x + y - (x + y) div 4 * 4"
    and "x - x div 4 * 4 + y - (x - x div 4 * 4 + y) mod 4 = (x + y) div 4 * 4 - x div 4 * 4"
proof -
  define q r where "q = x div 4" "r = x mod 4"
  have x: "x = q * 4 + r" "r < 4" by (simp_all add: q_r_def)
  have q: "x div 4 = q" by (simp add: q_r_def)
  have "x - q * 4 = r" using x(1) by simp
  have "(x + y) div 4 = q + (r + y) div 4" unfolding x(1) by (simp add: add.assoc)
  moreover have "r + y = (r + y) div 4 * 4 + (r + y) mod 4" by simp
  ultimately show "(x - x div 4 * 4 + y) mod 4 = x + y - (x + y) div 4 * 4"
    "x - x div 4 * 4 + y - (x - x div 4 * 4 + y) mod 4 = (x + y) div 4 * 4 - x div 4 * 4"
    using x(1) unfolding q \<open>x - q * 4 = r\<close> by linarith+
qed

text \<open>
  What the writer has done after the bytes \<open>bs\<close>, started at address \<open>a\<close> on the memory \<open>m0\<close>: the full words are
  stored, the rest of the last erased sector is blank, and at most three bytes wait in the status.
\<close>

definition written :: "nat \<Rightarrow> memory \<Rightarrow> byte list \<Rightarrow> rboot_write_status \<Rightarrow> memory \<Rightarrow> bool" where
  "written a m0 bs st m \<longleftrightarrow>
     (let k = length bs div 4 * 4; e = (a + k + 4095) div 4096 * 4096
      in start_addr st = a + k \<and> last_sector_erased st = int (e div 4096) - 1 \<and>
         extra_count st = length bs - k \<and> length (extra_bytes st) = 4 \<and>
         take (extra_count st) (extra_bytes st) = drop k bs \<and>
         m = mem_put a (take k bs) (nor_erase a (e - a) m0))"

context rboot_flash
begin

lemma erase_to_ok:
  assumes "(s + n) * 4096 \<le> chip_size c"
  shows "erase_to R c n (int s - 1) m = nor_erase (s * 4096) (n * 4096) m"
  using assms
proof (induction n arbitrary: s m)
  case 0
  then show ?case by simp
next
  case (Suc n)
  have "(s + Suc n) * 4096 \<le> 16777216" using Suc.prems chip by linarith
  then have "s < 4096" by simp
  then have idx: "nat ((int s - 1 + 1) mod 2 ^ 16) = s" by simp
  have "sdk_spi_flash_erase_sector R c s m = (SPI_FLASH_RESULT_OK, nor_erase (s * 4096) 4096 m)"
    using Suc.prems chip flash_erase_ok [of c s m] by (simp add: SPI_FLASH_SECTOR_SIZE_def)
  then show ?case
    using Suc.prems Suc.IH [of "Suc s" "nor_erase (s * 4096) 4096 m"] nor_erase_merge [of "s * 4096" 4096 "n * 4096" m]
    unfolding erase_to.simps idx by (simp add: add.commute)
qed

lemma write_init_written:
  assumes "a mod 4096 = 0" "a \<le> chip_size c"
  shows "written a m [] (rboot_write_init h a) m"
proof -
  obtain s where a: "a = s * 4096" using assms(1) by (metis mod_0_imp_dvd dvd_div_mult_self)
  then have "s \<le> 4096" using assms(2) chip by linarith
  then have "s32 (u32_sub s 1) = int s - 1"
    by (cases s) (simp_all add: s32_def u32_sub_def)
  moreover have "(a + 4095) div 4096 = s" using a by simp
  ultimately show ?thesis using a by (simp add: written_def rboot_write_init_def sector)
qed

lemma erase_to_extends:
  assumes "s \<le> s'" "s' * 4096 \<le> chip_size c" "a + length bs \<le> s * 4096"
  shows "erase_to R c (s' - s) (int s - 1) (mem_put a bs (nor_erase a (s * 4096 - a) m))
    = mem_put a bs (nor_erase a (s' * 4096 - a) m)"
  using assms erase_to_ok [of s "s' - s"] erase_beyond [of a bs "s * 4096" "s' * 4096" m]
  by (simp add: diff_mult_distrib)

lemma program_extends:
  assumes "a mod 4096 = 0" "length bs mod 4 = 0" "n mod 4 = 0" "n \<le> length buf" "a + length bs + n \<le> e" "e \<le> chip_size c"
  shows "sdk_spi_flash_write R c (a + length bs) (Some buf) n (mem_put a bs (nor_erase a (e - a) m))
    = (SPI_FLASH_RESULT_OK, mem_put a (bs @ take n buf) (nor_erase a (e - a) m))"
proof -
  let ?m = "mem_put a bs (nor_erase a (e - a) m)"
  have "a mod 4 = 0" using assms(1) mod_mod_cancel [of 4 4096 a] by simp
  then have "(a + length bs) mod 4 = 0" using assms(2) by presburger
  then have "sdk_spi_flash_write R c (a + length bs) (Some buf) n ?m
      = (SPI_FLASH_RESULT_OK, nor_program (a + length bs) (take n buf) ?m)"
    using flash_write_ok [OF word_chip, of "a + length bs" n buf ?m] assms by simp
  moreover have "nor_program (a + length bs) (take n buf) ?m = mem_put (a + length bs) (take n buf) ?m"
    using assms(4,5) by (intro mem_put_nor_program) (auto simp: mem_put_def nor_erase_apply)
  ultimately show ?thesis by (simp add: mem_put_append [symmetric])
qed

lemma write_flash_step:
  assumes w: "written a m0 bs st m" and a: "a mod 4096 = 0" "0 < a" and d: "length d < 65533"
    and fits: "(a + length bs + length d + 4095) div 4096 * 4096 \<le> chip_size c"
  obtains st' m' where "rboot_write_flash h R c True st (Some d) (length d) m = (True, st', m')" "written a m0 (bs @ d) st' m'"
proof (cases "d = []")
  case True
  then show ?thesis using w that by (simp add: rboot_write_flash_def)
next
  case False
  define k k' where "k = length bs div 4 * 4" and "k' = length (bs @ d) div 4 * 4"
  define s s' where "s = (a + k + 4095) div 4096" and "s' = (a + k' + 4095) div 4096"
  define buf where "buf = drop k bs @ d"
  note w' = w [unfolded written_def Let_def, folded k_def, folded s_def, simplified]
  have kk: "k \<le> k'" "k \<le> length bs" "k' \<le> length bs + length d" "k mod 4 = 0" by (simp_all add: k_def k'_def div_le_mono)
  have s: "s \<le> s'" "a + k \<le> s * 4096" "a + k' \<le> s' * 4096" using kk(1) unfolding s_def s'_def by (simp_all add: div_le_mono)
  have "s' \<le> (a + length bs + length d + 4095) div 4096" unfolding s'_def using kk(3) by (intro div_le_mono) linarith
  then have s'_le: "s' * 4096 \<le> chip_size c" using fits by linarith
  have small: "a + k' \<le> 16777216" "s' \<le> 4096" using s(3) s'_le chip(2) by linarith+
  have split: "bs @ d = take k bs @ buf" by (simp add: buf_def)
  have len: "length buf = length bs - k + length d" by (simp add: buf_def)
  have l1: "length buf < 65536" using d unfolding len k_def by presburger
  have l2: "length buf - length buf mod 4 = k' - k" "length buf mod 4 = length (bs @ d) - k'"
    using words_of_sum [of "length bs" "length d"] unfolding len k_def k'_def by simp_all
  have sa: "u32 (start_addr st + (k' - k)) = a + k'" "start_addr st = a + k" "last_sector_erased st = int s - 1"
    using w' kk(1) small(1) by simp_all
  have "u32_sub (a + k') 1 div 4096 = s' - 1" "0 < s'" using sector_before [of "a + k'"] a(2) small(1) by (simp_all add: s'_def)
  then have last: "s32 (u32_sub (a + k') 1 div 4096) = int s' - 1" using small by (simp add: s32_def)
  have mx: "max (int s' - 1) (int s - 1) = int s' - 1" "nat (int s' - 1 - (int s - 1)) = s' - s" using s(1) by simp_all
  have er: "erase_to R c (s' - s) (int s - 1) m = mem_put a (take k bs) (nor_erase a (s' * 4096 - a) m0)"
    using w' erase_to_extends [OF s(1) s'_le, of a "take k bs" m0] s(2) kk(2) by (simp add: min.absorb2)
  have wr: "sdk_spi_flash_write R c (a + k) (Some buf) (k' - k) (mem_put a (take k bs) (nor_erase a (s' * 4096 - a) m0))
      = (SPI_FLASH_RESULT_OK, mem_put a (take k' (bs @ d)) (nor_erase a (s' * 4096 - a) m0))"
  proof -
    have "(k' - k) mod 4 = 0" "k' - k \<le> length buf" unfolding l2(1) [symmetric] by (simp_all add: minus_mod_eq_mult_div)
    moreover have "take k' (bs @ d) = take k bs @ take (k' - k) buf" using kk(1,2) by (simp only: split take_append) simp
    ultimately show ?thesis
      using program_extends [OF a(1), of "take k bs" "k' - k" buf "s' * 4096" m0] kk s(3) s'_le by (simp add: min.absorb2)
  qed
  have ex: "take (length (bs @ d) - k') (drop (k' - k) buf) = drop k' (bs @ d)"
    using kk(1,2) len unfolding split drop_append by simp
  have ec: "take (extra_count st) (extra_bytes st) @ take (length d) d = buf" "u16 (length d + extra_count st) = length buf"
  proof -
    show "take (extra_count st) (extra_bytes st) @ take (length d) d = buf" using w' by (metis buf_def order_refl take_all)
    show "u16 (length d + extra_count st) = length buf" using w' l1 len by simp
  qed
  have nz: "(length d = 0) = False" using False by simp
  let ?st = "st\<lparr>extra_count := length (bs @ d) - k', extra_bytes := set_bytes 0 (drop k' (bs @ d)) (extra_bytes st),
      last_sector_erased := int s' - 1, start_addr := a + k'\<rparr>"
  have "rboot_write_flash h R c True st (Some d) (length d) m
      = (True, ?st, mem_put a (take k' (bs @ d)) (nor_erase a (s' * 4096 - a) m0))"
    unfolding rboot_write_flash_def option.case nz if_False not_True_eq_False sector Let_def ec
    unfolding l2(1) unfolding l2(2) ex sa(1) last sa(3) mx er unfolding sa(2) wr by simp
  moreover have "length (drop k' (bs @ d)) \<le> length (extra_bytes st)" "length (extra_bytes st) = 4" using w' l2(2) by (simp_all add: len)
  then have "written a m0 (bs @ d) ?st (mem_put a (take k' (bs @ d)) (nor_erase a (s' * 4096 - a) m0))"
    unfolding written_def Let_def k'_def [symmetric] s'_def [symmetric] by (simp add: set_bytes_def)
  ultimately show ?thesis by (rule that)
qed

end

text \<open>A caller that hands over one chunk after the other, as long as the writer succeeds.\<close>

fun write_chunks :: "rboot_h \<Rightarrow> rom_flash \<Rightarrow> sdk_flashchip \<Rightarrow> rboot_write_status \<Rightarrow> byte list list \<Rightarrow> memory
    \<Rightarrow> bool \<times> rboot_write_status \<times> memory" where
  "write_chunks h R c st [] m = (True, st, m)"
| "write_chunks h R c st (d # ds) m =
     (case rboot_write_flash h R c True st (Some d) (length d) m of
        (False, st1, m1) \<Rightarrow> (False, st1, m1)
      | (True, st1, m1) \<Rightarrow> write_chunks h R c st1 ds m1)"

context rboot_flash
begin

lemma write_chunks_ok:
  assumes "written a m0 bs st m" "a mod 4096 = 0" "0 < a" "\<forall>d \<in> set ds. length d < 65533"
    and "(a + length (bs @ concat ds) + 4095) div 4096 * 4096 \<le> chip_size c"
  shows "\<exists>st' m'. write_chunks h R c st ds m = (True, st', m') \<and> written a m0 (bs @ concat ds) st' m'"
  using assms
proof (induction ds arbitrary: bs st m)
  case (Cons d ds)
  have "(a + length bs + length d + 4095) div 4096 * 4096 \<le> (a + length (bs @ concat (d # ds)) + 4095) div 4096 * 4096"
    by (intro mult_le_mono1 div_le_mono) simp
  then have "(a + length bs + length d + 4095) div 4096 * 4096 \<le> chip_size c" using Cons.prems(5) by linarith
  then obtain st1 m1 where "rboot_write_flash h R c True st (Some d) (length d) m = (True, st1, m1)" "written a m0 (bs @ d) st1 m1"
    using Cons.prems write_flash_step by (metis list.set_intros(1))
  then show ?case using Cons.IH [of "bs @ d" st1 m1] Cons.prems by simp
qed simp

end

section \<open>The memory of the real-time clock\<close>

lemma rtc_write_words_put:
  assumes "4 * (i + n) \<le> length src"
  shows "rtc_write_words des src i n rtc = mem_put (4 * (des + i)) (take (4 * n) (drop (4 * i) src)) rtc"
  using assms
proof (induction n arbitrary: i rtc)
  case (Suc n)
  have "take (4 * Suc n) (drop (4 * i) src) = take 4 (drop (4 * i) src) @ take (4 * n) (drop (4 * (i + 1)) src)"
    by (simp add: take_add add.commute)
  then show ?case using Suc by (simp add: mem_put_append [symmetric] min_def algebra_simps)
qed simp

lemma rtc_read_words_read: "rtc_read_words src i n rtc = mem_read rtc (4 * (src + i)) (4 * n)"
proof (induction n arbitrary: i)
  case (Suc n)
  then show ?case using mem_read_add [of rtc "4 * (src + i)" 4 "4 * n"] by (simp add: algebra_simps)
qed simp

context rboot_header
begin

abbreviation "rtc_at \<equiv> 4 * RBOOT_RTC_ADDR h"

lemma rtc_addr: "RBOOT_RTC_ADDR h \<le> 191"
  using rtc_size by linarith

lemma rtc_words: "4 * (sizeof_rboot_rtc_data h div 4) = sizeof_rboot_rtc_data h"
    "\<not> 768 - RBOOT_RTC_ADDR h * 4 < sizeof_rboot_rtc_data h"
  using rtc_size by auto

lemma rtc_mem_read_ok:
  "sdk_system_rtc_mem_read (RBOOT_RTC_ADDR h) True (sizeof_rboot_rtc_data h) rtc
    = Some (mem_read rtc rtc_at (sizeof_rboot_rtc_data h))"
  using rtc_size rtc_addr rtc_words by (simp add: sdk_system_rtc_mem_read_def rtc_read_words_read)

lemma set_rtc_data_ok:
  assumes "length d = sizeof_rboot_rtc_data h"
  shows "rboot_set_rtc_data h d rtc = (True, mem_put rtc_at (d[at_rtc_chksum h := calc_chksum h (take (at_rtc_chksum h) d)]) rtc)"
  using assms rtc_size rtc_addr rtc_words
  by (simp add: rboot_set_rtc_data_def sdk_system_rtc_mem_write_def rtc_write_words_put)

lemma set_then_get_rtc_data:
  assumes "length d = sizeof_rboot_rtc_data h"
  shows "rboot_get_rtc_data h buf (snd (rboot_set_rtc_data h d rtc))
    = (True, d[at_rtc_chksum h := calc_chksum h (take (at_rtc_chksum h) d)])"
  using assms rtc_size by (simp add: rboot_get_rtc_data_def set_rtc_data_ok rtc_mem_read_ok mem_read_mem_put)

lemma set_temp_rom_data:
  fixes buf :: "byte list"
  assumes "rboot_get_rtc_data h stk rtc = (valid, d)" "rboot_get_rtc_data h buf (snd (rboot_set_temp_rom h stk rom rtc)) = (valid', d')"
  shows "fst (rboot_set_temp_rom h stk rom rtc) \<and> valid' \<and> d' ! at_temp_rom h = rom \<and> d' ! at_next_mode h = MODE_TEMP_ROM h
    \<and> d' ! at_last_rom h = (if valid then d ! at_last_rom h else 0)
    \<and> d' ! at_last_mode h = (if valid then d ! at_last_mode h else MODE_STANDARD h)"
proof -
  define d1 where "d1 = (if valid then d
      else (set_bytes (at_magic h) (le32 (RBOOT_RTC_MAGIC h)) d)[at_last_mode h := MODE_STANDARD h, at_last_rom h := 0])"
  define d2 where "d2 = d1[at_next_mode h := MODE_TEMP_ROM h, at_temp_rom h := rom]"
  have len: "length d = sizeof_rboot_rtc_data h"
    using assms(1) by (auto simp: rboot_get_rtc_data_def rtc_mem_read_ok)
  have "at_magic h + 4 \<le> sizeof_rboot_rtc_data h" using rtc_fields(2) rtc_size(3) by auto
  then have "length d2 = sizeof_rboot_rtc_data h" using len by (simp add: d2_def d1_def)
  moreover have set: "rboot_set_temp_rom h stk rom rtc = rboot_set_rtc_data h d2 rtc"
    using assms(1) by (simp add: rboot_set_temp_rom_def d2_def d1_def Let_def)
  ultimately have res: "valid'" "d' = d2[at_rtc_chksum h := calc_chksum h (take (at_rtc_chksum h) d2)]" "fst (rboot_set_temp_rom h stk rom rtc)"
    using assms(2) set_then_get_rtc_data [of d2 buf rtc] by (simp_all add: set_rtc_data_ok)
  have "length d1 = length d" using len \<open>length d2 = _\<close> by (simp add: d2_def)
  then show ?thesis
    using res rtc_fields rtc_size(3) len by (auto simp: d2_def d1_def nth_list_update)
qed

end

section \<open>Properties\<close>

text \<open>
  Selecting a slot that exists makes it the current one, with a valid checksum, and changes
  nothing else in the flash: the table of slots and the rest of the sector, which applications may
  use, survive the erase. Selecting any other slot, or running out of memory, is refused and
  leaves the flash as it is.
\<close>

theorem set_current_rom_only:
  assumes "rboot_flash R h c"
  shows "let conf = rboot_get_config h R c stk m; (ok, m') = rboot_set_current_rom h R c heap stk rom m;
             conf' = rboot_get_config h R c stk m'
    in (ok \<longleftrightarrow> rom < conf ! at_count h \<and> heap \<noteq> None)
     \<and> (if ok then rboot_get_current_rom h R c stk m' = rom
           \<and> conf' ! at_chksum h = calc_chksum h (take (at_chksum h) conf')
           \<and> (\<forall>x. x \<noteq> config_at h + at_current_rom h \<longrightarrow> x \<noteq> config_at h + at_chksum h \<longrightarrow> m' x = m x)
           \<and> (\<forall>slot. at_roms h + 4 * unat slot + 4 \<le> at_chksum h \<longrightarrow>
                rboot_get_slot_offset h R c stk slot m' = rboot_get_slot_offset h R c stk slot m)
        else m' = m)"
proof -
  note f = rboot_flash.get_config_ok [OF assms]
  have hdr: "rboot_header h" using assms by (simp add: rboot_flash_def)
  note size = rboot_header.config_size [OF hdr] and fields = rboot_header.config_fields [OF hdr]
  let ?n = "sizeof_rboot_config h"
  consider (bad) "mem_read m (config_at h) ?n ! at_count h \<le> rom" | (nomem) "heap = None" "rom < mem_read m (config_at h) ?n ! at_count h"
    | (ok) buf where "heap = Some buf" "rom < mem_read m (config_at h) ?n ! at_count h"
    using not_le by (cases heap) auto
  then show ?thesis
  proof cases
    case bad
    then show ?thesis using rboot_flash.set_current_rom_refused [OF assms bad] leD by (auto simp: f)
  next
    case nomem
    then show ?thesis by (simp add: f rboot_set_current_rom_def rboot_set_config_def Let_def)
  next
    case ok
    define ck where "ck = calc_chksum h ((mem_read m (config_at h) (at_chksum h))[at_current_rom h := rom])"
    define m' where "m' = m(config_at h + at_current_rom h := rom, config_at h + at_chksum h := ck)"
    have set: "rboot_set_current_rom h R c heap stk rom m = (True, m')"
      using rboot_flash.set_current_rom_ok [OF assms ok(2)] ok(1) by (simp add: m'_def ck_def)
    have "mem_read m' (config_at h) (at_chksum h) = (mem_read m (config_at h) (at_chksum h))[at_current_rom h := rom]"
      using fields by (intro nth_equalityI) (auto simp: m'_def nth_list_update)
    then have "mem_read m' (config_at h) ?n ! at_chksum h = calc_chksum h (take (at_chksum h) (mem_read m' (config_at h) ?n))"
      using size by (simp add: m'_def ck_def min_def)
    moreover have "rboot_get_slot_offset h R c stk slot m' = rboot_get_slot_offset h R c stk slot m"
      if "at_roms h + 4 * unat slot + 4 \<le> at_chksum h" for slot
    proof -
      have "rd32 (mem_read m' (config_at h) ?n) (at_roms h + 4 * unat slot) = rd32 (mem_read m (config_at h) ?n) (at_roms h + 4 * unat slot)"
        using that size fields by (intro rd32_cong) (auto simp: m'_def)
      moreover have "mem_read m' (config_at h) ?n ! at_count h = mem_read m (config_at h) ?n ! at_count h"
        using size fields by (simp add: m'_def)
      ultimately show ?thesis by (simp add: rboot_get_slot_offset_def f)
    qed
    moreover have "mem_read m' (config_at h) ?n ! at_current_rom h = rom" using size fields by (simp add: m'_def)
    moreover have "\<forall>x. x \<noteq> config_at h + at_current_rom h \<longrightarrow> x \<noteq> config_at h + at_chksum h \<longrightarrow> m' x = m x"
      by (simp add: m'_def)
    ultimately show ?thesis unfolding set Let_def prod.case f rboot_get_current_rom_def using ok by simp
  qed
qed

text \<open>
  The writer stores a stream of data exactly, however it is cut into chunks: started at a
  sector boundary, after any chunks that fit the chip it has written all full words of the
  concatenated data, erased the sectors they need and no others, and keeps the last bytes that do
  not fill a word.
\<close>

theorem write_flash_stream:
  assumes "rboot_flash R h c" "a mod 4096 = 0" "0 < a" "\<forall>d \<in> set ds. length d < 65533"
    and "(a + length (concat ds) + 4095) div 4096 * 4096 \<le> chip_size c"
  shows "let bs = concat ds; k = length bs div 4 * 4; (ok, st, m') = write_chunks h R c (rboot_write_init h a) ds m
    in ok \<and> mem_read m' a k = take k bs \<and> take (extra_count st) (extra_bytes st) = drop k bs
      \<and> (\<forall>x. x < a \<or> (a + k + 4095) div 4096 * 4096 \<le> x \<longrightarrow> m' x = m x)"
proof -
  have "a \<le> (a + length (concat ds) + 4095) div 4096 * 4096" using assms(2) by simp
  then have init: "written a m [] (rboot_write_init h a) m"
    using assms(2,5) by (intro rboot_flash.write_init_written [OF assms(1)]) linarith+
  obtain st m' where wc: "write_chunks h R c (rboot_write_init h a) ds m = (True, st, m')" and w: "written a m (concat ds) st m'"
    using rboot_flash.write_chunks_ok [OF assms(1) init assms(2-4)] assms(5) unfolding append_Nil by blast
  define k where "k = length (concat ds) div 4 * 4"
  define e where "e = (a + k + 4095) div 4096 * 4096"
  have e: "a + k \<le> e" "k \<le> length (concat ds)" by (simp_all add: k_def e_def)
  have m': "m' = mem_put a (take k (concat ds)) (nor_erase a (e - a) m)"
    and extra: "take (extra_count st) (extra_bytes st) = drop k (concat ds)"
    using w unfolding written_def Let_def k_def e_def by blast+
  have "mem_read m' a k = take k (concat ds)" unfolding m' using e(2) by (simp only: mem_read_mem_put length_take min.absorb2 take_take min.idem)
  moreover have "m' x = m x" if "x < a \<or> e \<le> x" for x
    unfolding m' using that e by (auto simp: mem_put_def nor_erase_apply simp del: length_concat)
  ultimately show ?thesis using extra by (simp only: wc Let_def prod.case k_def e_def) blast
qed

text \<open>
  After \<open>rboot_set_temp_rom\<close> the data in the memory of the real-time clock is valid and asks for a
  temporary boot of the given slot; the record of the last boot is kept when it was valid, and reset
  otherwise.
\<close>

theorem set_temp_rom_valid:
  assumes "rboot_header h"
  shows "let (valid, d) = rboot_get_rtc_data h stk rtc; (ok, rtc') = rboot_set_temp_rom h stk rom rtc;
             (valid', d') = rboot_get_rtc_data h buf rtc'
    in ok \<and> valid' \<and> d' ! at_temp_rom h = rom \<and> d' ! at_next_mode h = MODE_TEMP_ROM h
     \<and> rboot_get_last_boot_rom h buf rtc' = Some (if valid then d ! at_last_rom h else 0)
     \<and> rboot_get_last_boot_mode h buf rtc' = Some (if valid then d ! at_last_mode h else MODE_STANDARD h)"
proof -
  obtain valid d where old: "rboot_get_rtc_data h stk rtc = (valid, d)" by fastforce
  obtain ok rtc' where set: "rboot_set_temp_rom h stk rom rtc = (ok, rtc')" by fastforce
  obtain valid' d' where new: "rboot_get_rtc_data h buf rtc' = (valid', d')" by fastforce
  show ?thesis
    using rboot_header.set_temp_rom_data [OF assms old, of buf rom valid' d'] set old new
    by (simp add: rboot_get_last_boot_rom_def rboot_get_last_boot_mode_def)
qed

lemma rboot_flash_spi: "rboot_flash spi_rom rboot_layout sdk_flashchip_init"
  by unfold_locales (simp_all add: rboot_layout_def)

interpretation boot: rboot_flash spi_rom rboot_layout sdk_flashchip_init
  by (rule rboot_flash_spi)

theorem set_temp_rom_valid_witness:
  "rboot_get_last_boot_rom rboot_layout [] (snd (rboot_set_temp_rom rboot_layout [] 1 (\<lambda>_. 0))) \<noteq> None"
  using set_temp_rom_valid [OF layout.rboot_header_axioms, of "[]" "\<lambda>_. 0" 1 "[]"] by (auto split: prod.splits)

theorem set_current_rom_only_witness:
  "fst (rboot_set_current_rom rboot_layout spi_rom sdk_flashchip_init (Some []) [] 1 (\<lambda>_. 2))
    \<and> rboot_get_current_rom rboot_layout spi_rom sdk_flashchip_init []
        (snd (rboot_set_current_rom rboot_layout spi_rom sdk_flashchip_init (Some []) [] 1 (\<lambda>_. 2))) = 1"
  using set_current_rom_only [OF rboot_flash_spi, of "[]" "\<lambda>_. 2" "Some []" 1]
  by (simp add: Let_def boot.get_config_ok split: prod.splits) (simp add: rboot_layout_def)

theorem write_flash_stream_witness:
  "let (ok, st, m') = write_chunks rboot_layout spi_rom sdk_flashchip_init (rboot_write_init rboot_layout 8192) [[1, 2, 3], [4, 5]] (\<lambda>_. 0)
   in ok \<and> mem_read m' 8192 4 = [1, 2, 3, 4] \<and> take (extra_count st) (extra_bytes st) = [5]"
  using write_flash_stream [OF rboot_flash_spi, of 8192 "[[1, 2, 3], [4, 5]]" "\<lambda>_. 0"]
  by (auto simp: Let_def split: prod.splits)

end
