(* ===== verification/Rboot_Image.thy ===== *)
theory Rboot_Image
  imports Rboot_Config
begin

text \<open>
  The check of a firmware image. The format the code accepts is written down as functions that
  build an image from its parts; the check computes the length and the checksum of every image
  of that form. The digest function passes the bytes of an image to its callback.
\<close>

section \<open>Images\<close>

text \<open>A section is its load address and its data; \<open>rest\<close> is what follows magic and count in a header.\<close>

type_synonym image_section = "nat \<times> byte list"

definition section_bytes :: "image_section \<Rightarrow> byte list" where
  "section_bytes s = le32 (fst s) @ le32 (length (snd s)) @ snd s"

definition header_bytes :: "byte \<Rightarrow> nat \<Rightarrow> byte list \<Rightarrow> byte list" where
  "header_bytes magic n rest = magic # word_of_nat n # rest"

definition sections_bytes :: "image_section list \<Rightarrow> byte list" where
  "sections_bytes secs = concat (map section_bytes secs)"

definition section_ok :: "image_section \<Rightarrow> bool" where
  "section_ok s \<longleftrightarrow> length (snd s) mod 4 = 0"

text \<open>The leading part of an image with the new header: a single section, padded to 16 bytes.\<close>

record irom_part =
  irom_count :: nat
  irom_rest :: "byte list"
  irom_section :: image_section
  irom_pad :: "byte list"

definition irom_bytes :: "irom_part \<Rightarrow> byte list" where
  "irom_bytes p = header_bytes ROM_MAGIC_NEW (irom_count p) (irom_rest p) @ section_bytes (irom_section p) @ irom_pad p"

definition irom_ok :: "irom_part \<Rightarrow> bool" where
  "irom_ok p \<longleftrightarrow> 0 < irom_count p \<and> irom_count p < 256 \<and> length (irom_rest p) = 6 \<and> section_ok (irom_section p)
     \<and> length (irom_pad p) < 16 \<and> length (irom_bytes p) mod 16 = 0"

record ota_image =
  irom :: "irom_part option"
  rest :: "byte list"
  sections :: "image_section list"
  pad :: "byte list"
  checksum :: byte

definition image_bytes :: "ota_image \<Rightarrow> byte list" where
  "image_bytes img =
     (case irom img of None \<Rightarrow> [] | Some p \<Rightarrow> irom_bytes p)
     @ header_bytes ROM_MAGIC_OLD (length (sections img)) (rest img) @ sections_bytes (sections img) @ pad img @ [checksum img]"

definition image_ok :: "ota_image \<Rightarrow> bool" where
  "image_ok img \<longleftrightarrow> (case irom img of None \<Rightarrow> True | Some p \<Rightarrow> irom_ok p) \<and> length (rest img) = 6
     \<and> length (sections img) < 256 \<and> list_all section_ok (sections img) \<and> length (pad img) < 16
     \<and> length (image_bytes img) mod 16 = 0 \<and> length (image_bytes img) \<le> 0x100000"

text \<open>The checksum of the sections; the leading part does not count.\<close>

definition image_checksum :: "rboot_h \<Rightarrow> ota_image \<Rightarrow> byte" where
  "image_checksum h img = calc_chksum h (concat (map snd (sections img)))"

section \<open>Stored bytes\<close>

abbreviation stored :: "memory \<Rightarrow> nat \<Rightarrow> byte list \<Rightarrow> bool" where
  "stored m a bs \<equiv> mem_read m a (length bs) = bs"

lemma stored_append: "stored m a (xs @ ys) \<longleftrightarrow> stored m a xs \<and> stored m (a + length xs) ys"
  using mem_read_split [of "length xs" "xs @ ys" m a] by simp

lemma length_section_bytes [simp]: "length (section_bytes s) = 8 + length (snd s)"
  by (simp add: section_bytes_def)

lemma length_header_bytes [simp]: "length (header_bytes mg n r) = 2 + length r"
  by (simp add: header_bytes_def)

lemma sections_bytes_simps [simp]: "sections_bytes [] = []" "sections_bytes (s # secs) = section_bytes s @ sections_bytes secs"
  by (simp_all add: sections_bytes_def)

lemma pad16_unique:
  fixes x y :: nat
  assumes "y mod 16 = 0" "x \<le> y" "y < x + 16"
  shows "(x + 15) div 16 * 16 = y"
proof -
  obtain q where y: "y = 16 * q" using assms(1) by (metis mod_0_imp_dvd dvd_def)
  have "(x + 15) div 16 = q" using assms(2,3) unfolding y by (intro div_nat_eqI) auto
  then show ?thesis by (simp add: y)
qed

lemma mod4_add: "x mod 4 = 0 \<Longrightarrow> y mod 4 = 0 \<Longrightarrow> (x + y) mod 4 = (0 :: nat)"
  by presburger

lemma mod16_4: "x mod 16 = 0 \<Longrightarrow> x mod 4 = (0 :: nat)"
  using mod_mod_cancel [of 4 16 x] by simp

lemma pad_to_4: "x mod 4 = 0 \<Longrightarrow> x < 2 ^ 31 \<Longrightarrow> pad_to 4 x = x"
  unfolding pad_to_def by simp presburger

lemma pad_to_16: "y mod 16 = 0 \<Longrightarrow> x \<le> y \<Longrightarrow> y < x + 16 \<Longrightarrow> y < 2 ^ 31 \<Longrightarrow> pad_to 16 x = y"
  using pad16_unique [of y x] by (simp add: pad_to_def)

text \<open>The header of a section as it is read.\<close>

lemma stored_section_header:
  assumes "stored m a (section_bytes s)" "length (snd s) < 4294967296"
  shows "rd32 (mem_read m a 8) 4 = length (snd s)" "stored m (a + 8) (snd s)"
proof -
  have "stored m a (le32 (fst s))" "stored m (a + 4) (le32 (length (snd s)))" and d: "stored m (a + 8) (snd s)"
    using assms(1) unfolding section_bytes_def stored_append by (simp_all add: add.assoc)
  then have eq: "mem_read m (a + 4) 4 = le32 (length (snd s))" by simp
  have "rd32 (mem_read m a 8) 4 = rd32 (mem_read m (a + 4) 4) 0"
    by (simp add: rd32_def ac_simps)
  also have "\<dots> = length (snd s)" unfolding eq using rd32_le32 [OF assms(2), of "[]"] by simp
  finally show "rd32 (mem_read m a 8) 4 = length (snd s)" .
  show "stored m (a + 8) (snd s)" by (rule d)
qed

lemma stored_header:
  assumes "stored m a (header_bytes mg n r)" "length r = 6" "n < 256"
  shows "mem_read m a 8 = header_bytes mg n r" "header_bytes mg n r ! 0 = mg" "unat (header_bytes mg n r ! 1) = n"
  using assms by (simp_all add: header_bytes_def unat_word8_of_nat)

section \<open>The check\<close>

context rboot_flash
begin

lemma section_chksum_ok:
  assumes "offset + i + n + 16 \<le> chip_size c" "i mod 16 = 0 \<or> chunk = mem_read m (offset + i div 16 * 16) 16"
  shows "section_chksum R c m offset i n chunk ck = foldl (XOR) ck (mem_read m (offset + i) n)"
  using assms
proof (induction n arbitrary: i chunk ck)
  case (Suc n)
  define ch where "ch = mem_read m (offset + i div 16 * 16) 16"
  have "u32 (offset + i) = offset + i" using Suc.prems(1) chip by simp
  then have "read_into chunk (sdk_spi_flash_read R c (u32 (offset + i)) True 16 m) = ch" if "i mod 16 = 0"
    using that Suc.prems(1) chip by (simp add: read_into_def flash_read_ok ch_def mod_0_imp_dvd)
  then have chunk1: "(if i mod 16 = 0 then read_into chunk (sdk_spi_flash_read R c (u32 (offset + i)) True 16 m) else chunk) = ch"
    using Suc.prems(2) by (auto simp: ch_def)
  have "ch ! (i mod 16) = m (offset + i)" by (simp add: ch_def add.assoc)
  moreover have "section_chksum R c m offset (i + 1) n ch ck' = foldl (XOR) ck' (mem_read m (offset + (i + 1)) n)" for ck'
  proof (rule Suc.IH)
    show "offset + (i + 1) + n + 16 \<le> chip_size c" using Suc.prems(1) by simp
    show "(i + 1) mod 16 = 0 \<or> ch = mem_read m (offset + (i + 1) div 16 * 16) 16"
      unfolding ch_def by (cases "(i + 1) mod 16 = 0") (simp_all add: mod_Suc div_Suc split: if_splits)
  qed
  moreover have "mem_read m (offset + i) (Suc n) = m (offset + i) # mem_read m (offset + (i + 1)) n"
    using mem_read_add [of m "offset + i" 1 n] by (simp add: mem_read_def)
  ultimately show ?case unfolding section_chksum.simps Let_def chunk1 by simp
qed simp

lemma verify_sections_old:
  assumes "stored m a (sections_bytes secs)" "list_all section_ok secs" "a mod 4 = 0"
    and "a + length (sections_bytes secs) \<le> e" "e < 2 ^ 31" "a + length (sections_bytes secs) + 16 \<le> chip_size c"
  shows "verify_sections R c m stk e hdr False (length secs) a ck
    = Inr (0, a + length (sections_bytes secs), foldl (XOR) ck (concat (map snd secs)))"
  using assms
proof (induction secs arbitrary: a ck)
  case Nil
  then show ?case by (simp add: verify_sections.simps)
next
  case (Cons s secs)
  let ?n = "length (snd s)"
  have st: "stored m a (section_bytes s)" "stored m (a + 8 + ?n) (sections_bytes secs)"
    using Cons.prems(1) unfolding sections_bytes_simps stored_append by (simp_all add: add.assoc)
  have n: "?n mod 4 = 0" "?n < 4294967296" "a + 8 + ?n \<le> e" "a + 8 + ?n < 2 ^ 31" using Cons.prems(2,4,5) by (auto simp: section_ok_def)
  note hd = stored_section_header [OF st(1) n(2)]
  have rd: "sdk_spi_flash_read R c a True 8 m = Some (mem_read m a 8)" using Cons.prems(6) chip by (simp add: flash_read_ok)
  have ck: "section_chksum R c m (a + 8) 0 ?n stk ck = foldl (XOR) ck (snd s)"
    using section_chksum_ok [of "a + 8" 0 ?n stk m ck] hd(2) Cons.prems(6) by simp
  have m4: "(a + 8 + ?n) mod 4 = 0" using n(1) Cons.prems(3) by presburger
  have "verify_sections R c m stk e hdr False (length (s # secs)) a ck
      = verify_sections R c m stk e hdr False (length secs) (a + 8 + ?n) (foldl (XOR) ck (snd s))"
    using n by (subst verify_sections.simps) (simp add: rd hd(1) Let_def ck pad_to_4 [OF m4 n(4)] add.commute [of ?n])
  also have "\<dots> = Inr (0, a + 8 + ?n + length (sections_bytes secs), foldl (XOR) (foldl (XOR) ck (snd s)) (concat (map snd secs)))"
    using Cons.prems st(2) m4 by (intro Cons.IH) simp_all
  finally show ?case by (simp add: add.assoc)
qed

text \<open>The leading part is skipped, and the count is taken from the header behind it.\<close>

lemma verify_sections_new:
  assumes "stored m a (irom_bytes p @ header_bytes ROM_MAGIC_OLD n r)" "irom_ok p" "length r = 6" "n < 256" "a mod 16 = 0"
    and "a + length (irom_bytes p) + 8 \<le> e" "e < 2 ^ 31" "a + length (irom_bytes p) + 8 \<le> chip_size c"
  shows "verify_sections R c m stk e hdr True (irom_count p) (a + 8) ck
    = verify_sections R c m stk e (header_bytes ROM_MAGIC_OLD n r) False n (a + length (irom_bytes p) + 8) ck"
proof -
  let ?d = "snd (irom_section p)" let ?b = "a + length (irom_bytes p)"
  note ok = assms(2) [unfolded irom_ok_def section_ok_def]
  have len: "length (irom_bytes p) = 16 + length ?d + length (irom_pad p)" using ok by (simp add: irom_bytes_def)
  have sec: "stored m (a + 8) (section_bytes (irom_section p))" and hdr: "stored m ?b (header_bytes ROM_MAGIC_OLD n r)"
    using assms(1) ok unfolding irom_bytes_def stored_append by (simp_all add: add.assoc)
  have small: "length ?d < 4294967296" "a + 16 + length ?d < 2 ^ 31" using assms(6,7) len by auto
  note hd = stored_section_header [OF sec small(1)]
  have rd: "sdk_spi_flash_read R c x True 8 m = Some (mem_read m x 8)" if "x \<le> ?b" for x
    using that assms(8) chip by (simp add: flash_read_ok)
  have "a mod 4 = 0" using assms(5) mod_mod_cancel [of 4 16 a] by simp
  then have m4: "(a + 16 + length ?d) mod 4 = 0" using ok by presburger
  have "(a + length (irom_bytes p)) mod 16 = 0" using assms(5) ok by presburger
  then have p16: "pad_to 16 (a + 16 + length ?d) = ?b" using ok len assms(6,7) by (intro pad_to_16) auto
  note h = stored_header [OF hdr assms(3,4)]
  have u: "u32 (a + 8) = a + 8" "u32 (a + 8 + 8) = a + 16" "u32 (length ?d + (a + 16)) = a + 16 + length ?d"
    "u32 (a + 16 + length ?d) = a + 16 + length ?d" "u32 (?b + 8) = ?b + 8" using small assms(6,7) by (simp_all add: ac_simps)
  have cond: "(0 < irom_count p \<and> a + 8 < e) = True" "(e < a + 16 + length ?d) = False" "(length ?d mod 4 \<noteq> 0) = False"
    using ok assms(6) len by auto
  have rd: "sdk_spi_flash_read R c (a + 8) True 8 m = Some (mem_read m (a + 8) 8)"
    "sdk_spi_flash_read R c ?b True 8 m = Some (header_bytes ROM_MAGIC_OLD n r)"
    using rd len h(1) by simp_all
  show ?thesis
    unfolding verify_sections.simps [of R c m stk e hdr True] cond if_True if_False Let_def rd option.case hd(1) u
      pad_to_4 [OF m4 small(2)] p16 read_into_def h
    by simp
qed

lemma verify_loop_old:
  assumes "length (sections img) < 256" "length (rest img) = 6" "list_all section_ok (sections img)" "b mod 4 = 0"
    and "stored m (b + 8) (sections_bytes (sections img))"
    and "b + 8 + length (sections_bytes (sections img)) \<le> e" "e < 2 ^ 31" "b + 8 + length (sections_bytes (sections img)) + 16 \<le> chip_size c"
  shows "verify_sections R c m stk e hdr False (length (sections img)) (b + 8) (CHKSUM_INIT h)
    = Inr (0, b + 8 + length (sections_bytes (sections img)), image_checksum h img)"
proof -
  have "(b + 8) mod 4 = 0" using assms(4) by presburger
  then show ?thesis
    using assms verify_sections_old [of m "b + 8" "sections img" e stk hdr "CHKSUM_INIT h"]
    by (simp add: image_checksum_def calc_chksum_def)
qed

lemma verify_loop:
  assumes ok: "image_ok img" and st: "stored m a (image_bytes img)" and a: "a mod 16 = 0"
    and fits: "a + length (image_bytes img) + 16 \<le> chip_size c"
  shows "let hdr = mem_read m a 8 in (hdr ! 0 = ROM_MAGIC_OLD \<or> hdr ! 0 = ROM_MAGIC_NEW)
    \<and> verify_sections R c m stk (a + 0x100000) hdr (hdr ! 0 = ROM_MAGIC_NEW) (unat (hdr ! 1)) (a + 8) (CHKSUM_INIT h)
      = Inr (0, a + length (image_bytes img) - 1 - length (pad img), image_checksum h img)"
proof -
  note ok = ok [unfolded image_ok_def]
  let ?secs = "sections_bytes (sections img)" let ?hdr = "header_bytes ROM_MAGIC_OLD (length (sections img)) (rest img)"
  have mg: "ROM_MAGIC_NEW \<noteq> ROM_MAGIC_OLD" by (simp add: ROM_MAGIC_NEW_def ROM_MAGIC_OLD_def)
  have a4: "a mod 4 = 0" using a by (rule mod16_4)
  have e: "a + 0x100000 < 2 ^ 31" using fits chip by simp
  show ?thesis
  proof (cases "irom img")
    case None
    have img: "image_bytes img = ?hdr @ ?secs @ pad img @ [checksum img]" using None by (simp add: image_bytes_def)
    have len: "length (image_bytes img) = 8 + length ?secs + length (pad img) + 1" using ok by (simp add: img)
    have s: "stored m a ?hdr" "stored m (a + 8) ?secs" using st ok unfolding img stored_append by auto
    note h = stored_header [OF s(1)]
    show ?thesis
      using verify_loop_old [of img a m "a + 0x100000" stk ?hdr] ok a4 s(2) e fits len mg h by simp
  next
    case (Some p)
    let ?b = "a + length (irom_bytes p)"
    have p: "irom_ok p" using ok Some by simp
    have img: "image_bytes img = irom_bytes p @ ?hdr @ ?secs @ pad img @ [checksum img]" using Some by (simp add: image_bytes_def)
    have len: "length (image_bytes img) = length (irom_bytes p) + 8 + length ?secs + length (pad img) + 1" using ok by (simp add: img)
    have s: "stored m a (irom_bytes p @ ?hdr)" "stored m (?b + 8) ?secs"
      using st ok unfolding img stored_append by (auto simp: add.assoc)
    have "stored m a (header_bytes ROM_MAGIC_NEW (irom_count p) (irom_rest p))"
      using s(1) unfolding irom_bytes_def stored_append by simp
    note h = stored_header [OF this]
    have b4: "?b mod 4 = 0" using p a4 unfolding irom_ok_def by (auto intro: mod4_add mod16_4 simp del: mod_0_imp_dvd)
    have "verify_sections R c m stk (a + 0x100000) (header_bytes ROM_MAGIC_NEW (irom_count p) (irom_rest p)) True (irom_count p) (a + 8) (CHKSUM_INIT h)
        = verify_sections R c m stk (a + 0x100000) ?hdr False (length (sections img)) (?b + 8) (CHKSUM_INIT h)"
      using s(1) p ok a e fits len by (intro verify_sections_new) auto
    also have "\<dots> = Inr (0, ?b + 8 + length ?secs, image_checksum h img)"
      using ok b4 s(2) e fits len by (intro verify_loop_old) auto
    finally show ?thesis using h p len unfolding irom_ok_def by simp
  qed
qed

lemma verify_image_ok:
  assumes "image_ok img" "stored m a (image_bytes img)" "a mod 16 = 0" "a + length (image_bytes img) + 16 \<le> chip_size c"
  shows "rboot_verify_image h R c stk a m
    = (if checksum img = image_checksum h img then None else Some Invalid_checksum, length (image_bytes img))"
proof -
  let ?n = "length (image_bytes img)" let ?body = "a + ?n - 1 - length (pad img)"
  note ok = assms(1) [unfolded image_ok_def]
  obtain xs where xs: "image_bytes img = xs @ [checksum img]" by (auto simp: image_bytes_def)
  have body: "length (pad img) < ?n" by (simp add: image_bytes_def)
  have last: "m (a + (?n - 1)) = checksum img"
    using assms(2) mem_read_nth [of "?n - 1" ?n m a] by (simp add: xs)
  have n: "0 < ?n" by (simp add: xs)
  have e: "u32 (a + 0x100000) = a + 0x100000" "u32 (a + 8) = a + 8" "u32 (?body + 1) = ?body + 1" "u32_sub (a + ?n) a = ?n"
    "u32_sub (a + ?n) 1 = a + (?n - 1)"
    using assms(4) chip n u32_sub_ge [of 1 "a + ?n"] by (simp_all del: length_greater_0_conv)
  have p16: "pad_to 16 (?body + 1) = a + ?n"
  proof (rule pad_to_16)
    have "?n mod 16 = 0" using ok by simp
    then show "(a + ?n) mod 16 = 0" using assms(3) by presburger
    show "?body + 1 \<le> a + ?n" "a + ?n < ?body + 1 + 16" using ok body by linarith+
    show "a + ?n < 2 ^ 31" using assms(4) chip(2) by simp
  qed
  have rd: "sdk_spi_flash_read R c a True 8 m = Some (mem_read m a 8)"
     "sdk_spi_flash_read R c (a + (?n - 1)) True 1 m = Some [m (a + (?n - 1))]"
    using assms(4) chip by (simp_all add: flash_read_ok mem_read_def)
  note loop = verify_loop [OF assms, of stk, unfolded Let_def]
  have a4: "(a mod 4 \<noteq> 0) = False" using assms(3) mod16_4 by simp
  have mg: "(mem_read m a 8 ! 0 \<noteq> ROM_MAGIC_OLD \<and> mem_read m a 8 ! 0 \<noteq> ROM_MAGIC_NEW) = False" using loop by blast
  show ?thesis
    unfolding rboot_verify_image_def Let_def a4 if_False e rd option.case mg conjunct2 [OF loop] sum.case prod.case p16 read_into_def last
    by simp
qed

lemma digest_from_ok:
  assumes "i \<le> n" "a + n + 31 \<le> chip_size c"
  shows "concat (fst (digest_from R c a n m i)) = mem_read m (a + i) (n - i) \<and> snd (digest_from R c a n m i)"
  using assms
proof (induction "n - i" arbitrary: i rule: less_induct)
  case less
  show ?case
  proof (cases "i < n")
    case True
    have rd: "sdk_spi_flash_read R c (u32 (a + i)) True 32 m = Some (mem_read m (a + i) 32)"
      using True less.prems chip by (simp add: flash_read_ok)
    let ?l = "if i + 32 > n then n - i else 32"
    obtain calls ok where rest: "digest_from R c a n m (i + 32) = (calls, ok)" by fastforce
    have eq: "digest_from R c a n m i = (take ?l (mem_read m (a + i) 32) # calls, ok)"
      using True by (subst digest_from.simps) (simp add: rd rest Let_def)
    show ?thesis
    proof (cases "i + 32 \<le> n")
      case True
      then have "concat calls = mem_read m (a + (i + 32)) (n - (i + 32)) \<and> ok"
        using less.hyps [of "i + 32"] less.prems rest by simp
      then show ?thesis
        using True mem_read_add [of m "a + i" 32 "n - (i + 32)"] by (simp add: eq add.assoc)
    next
      case False
      then have "calls = [] \<and> ok" using rest by (simp add: digest_from.simps [of R c a n m "i + 32"])
      then show ?thesis using False by (simp add: eq min.absorb1)
    qed
  qed (simp add: digest_from.simps)
qed

end

section \<open>Properties\<close>

text \<open>
  C37. The check accepts an image of the documented form exactly when its last byte is the checksum of
  its sections, and reports its length either way; the leading section of an image with the new
  header is skipped and does not count. The image starts at a multiple of 16.
\<close>

theorem verify_image_exact:
  assumes "rboot_flash R h c" "image_ok img" "mem_read m a (length (image_bytes img)) = image_bytes img"
    and "a mod 16 = 0" "a + length (image_bytes img) + 16 \<le> chip_size c"
  shows "rboot_verify_image h R c stk a m
    = (if checksum img = image_checksum h img then None else Some Invalid_checksum, length (image_bytes img))"
  by (rule rboot_flash.verify_image_ok [OF assms])

text \<open>
  The digest of an image covers exactly its bytes, in order, whatever its length.
\<close>

theorem digest_covers_image:
  assumes "rboot_flash R h c" "a + n + 31 \<le> chip_size c"
  shows "concat (fst (rboot_digest_image R c a n m)) = mem_read m a n \<and> snd (rboot_digest_image R c a n m)"
  using rboot_flash.digest_from_ok [OF assms(1), of 0 n a m] assms(2) by (simp add: rboot_digest_image_def)

text \<open>
  The limit on the length of a section is computed in 32 bits and wraps: an image whose section
  claims \<open>0xfffffff8\<close> bytes, far more than the flash holds, is accepted.
\<close>

theorem verify_accepts_wrapped_length:
  assumes "rboot_flash R h c" "64 \<le> chip_size c"
    and "mem_read m 0 32 = [ROM_MAGIC_NEW, 1, 0, 0, 0, 0, 0, 0] @ [0, 0, 0, 0, 0xf8, 0xff, 0xff, 0xff]
      @ [ROM_MAGIC_OLD, 0, 0, 0, 0, 0, 0, 0] @ [0, 0, 0, 0, 0, 0, 0, CHKSUM_INIT h]"
  shows "rboot_verify_image h R c stk 0 m = (None, 32)"
proof -
  have rd: "sdk_spi_flash_read R c x True n m = Some (mem_read m x n)" if "x + n \<le> 64" for x n
    using that assms(1,2) rom_routines.flash_read_ok [of R c x n m] by (simp add: rboot_flash_def rboot_flash_axioms_def word_chip_def)
  have part: "mem_read m x n = take n (drop x (mem_read m 0 32))" if "x + n \<le> 32" for x n
    using that by (simp add: min.absorb1)
  have "mem_read m 0 8 = [ROM_MAGIC_NEW, 1, 0, 0, 0, 0, 0, 0]" "mem_read m 8 8 = [0, 0, 0, 0, 0xf8, 0xff, 0xff, 0xff]"
    "mem_read m 16 8 = [ROM_MAGIC_OLD, 0, 0, 0, 0, 0, 0, 0]" "mem_read m 31 1 = [CHKSUM_INIT h]"
    using part [of 0 8] part [of 8 8] part [of 16 8] part [of 31 1] unfolding assms(3) by simp_all
  moreover have "verify_sections R c m stk 0x100000 [ROM_MAGIC_NEW, 1, 0, 0, 0, 0, 0, 0] True 1 8 (CHKSUM_INIT h) = Inr (0, 24, CHKSUM_INIT h)"
    using calculation
    by (simp add: verify_sections.simps rd rd32_def u32_def pad_to_def read_into_def Let_def)
  ultimately show ?thesis
    by (simp add: rboot_verify_image_def rd u32_def pad_to_def read_into_def Let_def u32_sub_def)
qed

definition small_image :: ota_image where
  "small_image = \<lparr>irom = Some \<lparr>irom_count = 1, irom_rest = replicate 6 0, irom_section = (0, [9, 9, 9, 9]), irom_pad = replicate 12 0\<rparr>,
     rest = replicate 6 0, sections = [(0x40100000, [1, 2, 4, 8])], pad = replicate 11 0, checksum = 0xe0\<rparr>"

lemma small_image_ok: "image_ok small_image" "length (image_bytes small_image) = 64"
    "checksum small_image = image_checksum rboot_layout small_image"
  by (simp_all add: small_image_def image_ok_def irom_ok_def section_ok_def image_bytes_def irom_bytes_def
      image_checksum_def calc_chksum_def rboot_layout_def)

theorem verify_image_exact_witness:
  "rboot_verify_image rboot_layout spi_rom sdk_flashchip_init [] 8192 (mem_put 8192 (image_bytes small_image) (\<lambda>_. 255)) = (None, 64)"
  using verify_image_exact [OF rboot_flash_spi small_image_ok(1), of "mem_put 8192 (image_bytes small_image) (\<lambda>_. 255)" 8192 "[]"]
  by (simp add: small_image_ok mem_read_mem_put)

theorem digest_covers_image_witness:
  "concat (fst (rboot_digest_image spi_rom sdk_flashchip_init 8192 33 (\<lambda>_. 7))) = mem_read (\<lambda>_. 7) 8192 33"
  using digest_covers_image [OF rboot_flash_spi, of 8192 33 "\<lambda>_. 7"] by simp

theorem verify_accepts_wrapped_length_witness:
  "rboot_verify_image rboot_layout spi_rom sdk_flashchip_init [] 0
     (mem_put 0 ([ROM_MAGIC_NEW, 1, 0, 0, 0, 0, 0, 0] @ [0, 0, 0, 0, 0xf8, 0xff, 0xff, 0xff]
        @ [ROM_MAGIC_OLD, 0, 0, 0, 0, 0, 0, 0] @ [0, 0, 0, 0, 0, 0, 0, CHKSUM_INIT rboot_layout]) (\<lambda>_. 255)) = (None, 32)"
  by (rule verify_accepts_wrapped_length [OF rboot_flash_spi]) (simp_all add: mem_read_mem_put)

end
