(* ===== verification/Ota_tftp.thy ===== *)
theory Ota_tftp
  imports Rboot_Image
begin

text \<open>
  Firmware update over TFTP, \<open>src/extras/rboot-ota/ota-tftp.c\<close>: the reception of a file into the flash,
  the server task and the client.

  The network stack is outside the repository. What \<open>netconn_recv\<close> delivers is a list of events, each
  an error or a \<open>netbuf\<close>; an exhausted list means that the task waits. The answers of
  \<open>netconn_send\<close> are the parameter \<open>N\<close>, a function of what has been sent before. A \<open>netbuf\<close> is the list
  of its segments with their addresses, because the code depends on the alignment; \<open>netbuf_len\<close>
  and \<open>netbuf_copy_partial\<close> are stated on it as the documentation of the stack describes them. Allocations are
  assumed to succeed, as in the code, which does not check them.
\<close>

section \<open>Packets\<close>

definition TFTP_OP_RRQ :: nat where
  "TFTP_OP_RRQ = 1"

definition TFTP_OP_WRQ :: nat where
  "TFTP_OP_WRQ = 2"

definition TFTP_OP_DATA :: nat where
  "TFTP_OP_DATA = 3"

definition TFTP_OP_ACK :: nat where
  "TFTP_OP_ACK = 4"

definition TFTP_OP_ERROR :: nat where
  "TFTP_OP_ERROR = 5"

definition TFTP_ERR_FILENOTFOUND :: nat where
  "TFTP_ERR_FILENOTFOUND = 1"

definition TFTP_ERR_FULL :: nat where
  "TFTP_ERR_FULL = 3"

definition TFTP_ERR_ILLEGAL :: nat where
  "TFTP_ERR_ILLEGAL = 4"

definition MAX_IMAGE_SIZE :: nat where
  "MAX_IMAGE_SIZE = 0x100000"

definition TFTP_TIMEOUT_RETRANSMITS :: int where
  "TFTP_TIMEOUT_RETRANSMITS = 10"

definition str_bytes :: "string \<Rightarrow> byte list" where
  "str_bytes s = map of_char s"

definition TFTP_FIRMWARE_FILE :: "byte list" where
  "TFTP_FIRMWARE_FILE = str_bytes ''firmware.bin''"

definition TFTP_OCTET_MODE :: "byte list" where
  "TFTP_OCTET_MODE = str_bytes ''octet''"

text \<open>The bytes of \<open>htons\<close> in memory, and \<open>ntohs\<close> of two bytes in memory.\<close>

definition be16 :: "nat \<Rightarrow> byte list" where
  "be16 n = [word_of_nat (n div 256), word_of_nat n]"

definition rd_be16 :: "byte list \<Rightarrow> nat" where
  "rd_be16 bs = 256 * unat (bs ! 0) + unat (bs ! 1)"

text \<open>
  A segment has \<open>seg_len\<close> bytes of payload at \<open>seg_addr\<close>; \<open>seg_mem\<close> is the memory from there on, the
  payload first.
\<close>

record segment =
  seg_addr :: nat
  seg_len :: nat
  seg_mem :: "byte list"

type_synonym peer = "nat \<times> nat"

record netbuf =
  segments :: "segment list"
  from_peer :: peer

datatype err_t = ERR_OK | ERR_TIMEOUT | ERR_VAL | ERR_IF | ERR_USE | ERR_other int

datatype recv = Recv_err err_t | Recv netbuf

definition netbuf_bytes :: "netbuf \<Rightarrow> byte list" where
  "netbuf_bytes nb = concat (map (\<lambda>s. take (seg_len s) (seg_mem s)) (segments nb))"

definition netbuf_len :: "netbuf \<Rightarrow> nat" where
  "netbuf_len nb = u16 (sum_list (map seg_len (segments nb)))"

text \<open>
  \<open>netbuf_copy_partial\<close> copies the bytes there are; the rest of the destination keeps its contents.
\<close>

definition netbuf_copy_partial :: "netbuf \<Rightarrow> byte list \<Rightarrow> nat \<Rightarrow> nat \<Rightarrow> byte list" where
  "netbuf_copy_partial nb dest n offs = set_bytes 0 (take n (drop offs (netbuf_bytes nb))) dest"

text \<open>\<open>stk\<close> is what the variable on the stack holds before.\<close>

definition netbuf_read_u16_n :: "byte list \<Rightarrow> netbuf \<Rightarrow> nat \<Rightarrow> nat" where
  "netbuf_read_u16_n stk nb offs = rd_be16 (netbuf_copy_partial nb stk 2 offs)"

section \<open>The fields of a request\<close>

text \<open>
  The search for a field over the bytes from offset \<open>offs\<close> on; the result is \<open>field\<close>, \<open>field_offs\<close> and
  \<open>field_len\<close>.
\<close>

fun get_field_loop :: "byte list \<Rightarrow> int \<Rightarrow> nat \<Rightarrow> nat \<Rightarrow> nat \<Rightarrow> int \<times> nat \<times> nat" where
  "get_field_loop [] field offs field_offs field_len = (field, field_offs, field_len)"
| "get_field_loop (c # cs) field offs field_offs field_len =
     (if field \<ge> 0
      then
        let offs1 = offs + 1;
            field_len1 = (if field = 0 then field_len + 1 else field_len)
        in if c = 0
           then get_field_loop cs (field - 1) offs1 (if field - 1 = 0 then offs1 else field_offs) field_len1
           else get_field_loop cs field offs1 field_offs field_len1
      else (field, field_offs, field_len))"

definition tftp_get_field :: "int \<Rightarrow> netbuf \<Rightarrow> byte list option" where
  "tftp_get_field field nb =
     (case get_field_loop (drop 2 (netbuf_bytes nb)) field 2 2 0 of
        (f, field_offs, field_len) \<Rightarrow>
          if f \<noteq> - 1 then None
          else Some (netbuf_copy_partial nb (replicate field_len 0) field_len field_offs))"

section \<open>Sending\<close>

text \<open>The state of the task: the flash, the connection, what was sent to whom and the callbacks made.\<close>

record ota_state =
  flash :: memory
  conn :: "peer option"
  sent :: "(peer option \<times> byte list) list"
  received :: "nat list"

type_synonym net_answer = "(peer option \<times> byte list) list \<Rightarrow> err_t"

definition netconn_send :: "net_answer \<Rightarrow> byte list \<Rightarrow> ota_state \<Rightarrow> err_t \<times> ota_state" where
  "netconn_send N pkt s = (N (sent s), s\<lparr>sent := sent s @ [(conn s, pkt)]\<rparr>)"

definition tftp_send_ack :: "net_answer \<Rightarrow> int \<Rightarrow> ota_state \<Rightarrow> err_t \<times> ota_state" where
  "tftp_send_ack N block s = netconn_send N (be16 TFTP_OP_ACK @ be16 (nat (block mod 65536))) s"

definition tftp_send_error :: "net_answer \<Rightarrow> nat \<Rightarrow> string \<Rightarrow> ota_state \<Rightarrow> ota_state" where
  "tftp_send_error N err_code err_msg s =
     snd (netconn_send N (be16 TFTP_OP_ERROR @ be16 err_code @ str_bytes err_msg @ [0]) s)"

definition tftp_send_rrq :: "net_answer \<Rightarrow> byte list \<Rightarrow> ota_state \<Rightarrow> err_t \<times> ota_state" where
  "tftp_send_rrq N filename s =
     netconn_send N (be16 TFTP_OP_RRQ @ filename @ [0] @ TFTP_OCTET_MODE @ [0]) s"

section \<open>Receiving\<close>

text \<open>
  The segments of a packet are written one after the other. The data of an unaligned segment is
  moved down to an aligned address after its first word is written; behind the moved data lies
  what was there before.
\<close>

fun write_segments :: "rom_flash \<Rightarrow> sdk_flashchip \<Rightarrow> nat \<Rightarrow> bool \<Rightarrow> nat \<Rightarrow> segment list \<Rightarrow> memory \<Rightarrow> memory" where
  "write_segments R chip write_offs first_chunk offset [] m = m"
| "write_segments R chip write_offs first_chunk offset (s # segs) m =
     (let chunk = (if first_chunk then drop 4 (seg_mem s) else seg_mem s);
          addr = (if first_chunk then seg_addr s + 4 else seg_addr s);
          chunk_len = (if first_chunk then u16 (seg_len s + 65532) else seg_len s)
      in if chunk_len \<noteq> 0 \<and> addr mod 4 \<noteq> 0
         then
           let m1 = snd (sdk_spi_flash_write R chip (u32 (write_offs + offset)) (Some (take 4 chunk)) 4 m);
               chunk1 = take (chunk_len - 4) (drop 4 chunk) @ drop (chunk_len - addr mod 4) chunk;
               chunk_len1 = u16 (chunk_len + 65532);
               m2 = snd (sdk_spi_flash_write R chip (u32 (write_offs + (offset + 4))) (Some chunk1) chunk_len1 m1)
           in write_segments R chip write_offs False (offset + 4 + chunk_len1) segs m2
         else
           let m1 = snd (sdk_spi_flash_write R chip (u32 (write_offs + offset)) (Some chunk) chunk_len m)
           in write_segments R chip write_offs False (offset + chunk_len) segs m1)"

text \<open>The variables of the receive loop.\<close>

record tftp_loop =
  write_offs :: nat
  block :: int
  retries :: int
  received_len :: nat
  peer_addr :: "peer option"

fun verify_message :: "verify_error option \<Rightarrow> string" where
  "verify_message None = ''Unknown validation error''"
| "verify_message (Some Unaligned_flash_offset) = ''Unaligned flash offset''"
| "verify_message (Some Flash_fail) = ''Flash fail''"
| "verify_message (Some Missing_initial_magic) = ''Missing initial magic''"
| "verify_message (Some Header_length_not_modulo_4) = ''Header length not modulo 4''"
| "verify_message (Some Bad_second_magic) = ''Bad second magic''"
| "verify_message (Some Image_truncated) = ''Image truncated''"
| "verify_message (Some Invalid_checksum) = ''Invalid checksum''"

text \<open>The handling of a data packet with the expected block number; \<open>Inl\<close> is a return.\<close>

definition tftp_receive_block :: "rboot_h \<Rightarrow> rom_flash \<Rightarrow> sdk_flashchip \<Rightarrow> net_answer \<Rightarrow> byte list \<Rightarrow> nat \<Rightarrow> nat \<Rightarrow> bool \<Rightarrow> netbuf
    \<Rightarrow> tftp_loop \<Rightarrow> ota_state \<Rightarrow> (err_t + tftp_loop) \<times> tftp_loop \<times> ota_state" where
  "tftp_receive_block h R chip N stk start_offs limit_offs receive_cb nb l s =
     (let l1 = l\<lparr>retries := TFTP_TIMEOUT_RETRANSMITS\<rparr>;
          s1 = (if write_offs l mod SECTOR_SIZE h = 0
                then s\<lparr>flash := snd (sdk_spi_flash_erase_sector R chip (write_offs l div SECTOR_SIZE h) (flash s))\<rparr> else s);
          len = netbuf_len nb
      in if u32 (write_offs l + len) \<ge> limit_offs
         then (Inl ERR_VAL, l1, tftp_send_error N TFTP_ERR_FULL ''Image too large'' s1)
         else
           let s2 = s1\<lparr>flash := write_segments R chip (write_offs l) True 0 (segments nb) (flash s1)\<rparr>;
               l2 = l1\<lparr>received_len := u32 (received_len l + u32_sub len 4)\<rparr>;
               (err, image_length) = rboot_verify_image h R chip stk start_offs (flash s2)
           in if len < 516 \<and> (err \<noteq> None \<or> image_length \<noteq> received_len l2)
              then (Inl ERR_VAL, l2, tftp_send_error N TFTP_ERR_ILLEGAL (verify_message err) s2)
              else
                (case tftp_send_ack N (block l) s2 of
                   (ack_err, s3) \<Rightarrow>
                     if ack_err \<noteq> ERR_OK then (Inl ack_err, l2, s3)
                     else
                       let s4 = (if receive_cb then s3\<lparr>received := received s3 @ [received_len l2]\<rparr> else s3)
                       in if len < 516 then (Inl ERR_OK, l2, s4)
                          else
                            let l3 = l2\<lparr>block := block l + 1, write_offs := u32 (write_offs l + 512)\<rparr>
                            in (Inr l3, l3, s4)))"

text \<open>One round of the loop.\<close>

definition tftp_receive_turn :: "rboot_h \<Rightarrow> rom_flash \<Rightarrow> sdk_flashchip \<Rightarrow> net_answer \<Rightarrow> byte list \<Rightarrow> nat \<Rightarrow> nat \<Rightarrow> bool \<Rightarrow> recv
    \<Rightarrow> tftp_loop \<Rightarrow> ota_state \<Rightarrow> (err_t + tftp_loop) \<times> tftp_loop \<times> ota_state" where
  "tftp_receive_turn h R chip N stk start_offs limit_offs receive_cb ev l0 s0 =
     (let (l, s) = (case (peer_addr l0, ev) of
                      (None, _) \<Rightarrow> (l0, s0)
                    | (Some _, Recv nb) \<Rightarrow> (l0\<lparr>peer_addr := None\<rparr>, s0\<lparr>conn := Some (from_peer nb)\<rparr>)
                    | (Some p, Recv_err _) \<Rightarrow> (l0, s0\<lparr>conn := Some p\<rparr>))
      in case ev of
           Recv_err ERR_TIMEOUT \<Rightarrow>
             let l1 = l\<lparr>retries := retries l - 1\<rparr>
             in if retries l > 0 \<and> block l > 1
                then (Inr l1, l1, snd (tftp_send_ack N (block l - 1) s))
                else (Inl ERR_TIMEOUT, l1, tftp_send_error N TFTP_ERR_ILLEGAL ''Timeout'' s)
         | Recv_err err \<Rightarrow> (Inl err, l, tftp_send_error N TFTP_ERR_ILLEGAL ''Failed to receive packet'' s)
         | Recv nb \<Rightarrow>
             if netbuf_read_u16_n stk nb 0 \<noteq> TFTP_OP_DATA
             then (Inl ERR_VAL, l, tftp_send_error N TFTP_ERR_ILLEGAL ''Unknown opcode'' s)
             else
               let client_block = int (netbuf_read_u16_n stk nb 2)
               in if client_block \<noteq> block l
                  then if client_block = block l - 1
                       then (Inr l, l, snd (tftp_send_ack N (block l - 1) s))
                       else (Inl ERR_VAL, l, tftp_send_error N TFTP_ERR_ILLEGAL ''Block# out of order'' s)
                  else tftp_receive_block h R chip N stk start_offs limit_offs receive_cb nb l s)"

text \<open>
  The loop over the events. The result is the returned error, \<open>None\<close> while the task waits, the
  received length, the events left and the state.
\<close>

fun tftp_receive_loop :: "rboot_h \<Rightarrow> rom_flash \<Rightarrow> sdk_flashchip \<Rightarrow> net_answer \<Rightarrow> byte list \<Rightarrow> nat \<Rightarrow> nat \<Rightarrow> bool \<Rightarrow> recv list
    \<Rightarrow> tftp_loop \<Rightarrow> ota_state \<Rightarrow> err_t option \<times> nat \<times> recv list \<times> ota_state" where
  "tftp_receive_loop h R chip N stk start_offs limit_offs receive_cb [] l s = (None, received_len l, [], s)"
| "tftp_receive_loop h R chip N stk start_offs limit_offs receive_cb (ev # evs) l s =
     (case tftp_receive_turn h R chip N stk start_offs limit_offs receive_cb ev l s of
        (Inl err, l1, s1) \<Rightarrow> (Some err, received_len l1, evs, s1)
      | (Inr l1, _, s1) \<Rightarrow> tftp_receive_loop h R chip N stk start_offs limit_offs receive_cb evs l1 s1)"

definition tftp_receive_data :: "rboot_h \<Rightarrow> rom_flash \<Rightarrow> sdk_flashchip \<Rightarrow> net_answer \<Rightarrow> byte list \<Rightarrow> nat \<Rightarrow> nat \<Rightarrow> peer option \<Rightarrow> bool
    \<Rightarrow> recv list \<Rightarrow> ota_state \<Rightarrow> err_t option \<times> nat \<times> recv list \<times> ota_state" where
  "tftp_receive_data h R chip N stk w_offs limit_offs peer receive_cb evs s =
     tftp_receive_loop h R chip N stk w_offs limit_offs receive_cb evs
       \<lparr>write_offs = w_offs, block = 1, retries = TFTP_TIMEOUT_RETRANSMITS, received_len = 0, peer_addr = peer\<rparr> s"

section \<open>The server\<close>

text \<open>The requests are checked before the connection to the sender is made; \<open>None\<close> accepts.\<close>

definition wrq_refusal :: "net_answer \<Rightarrow> byte list \<Rightarrow> netbuf \<Rightarrow> ota_state \<Rightarrow> ota_state option" where
  "wrq_refusal N stk nb s =
     (if netbuf_len nb < 6 then Some s
      else if netbuf_read_u16_n stk nb 0 \<noteq> TFTP_OP_WRQ then Some s
      else if tftp_get_field 0 nb \<noteq> Some (TFTP_FIRMWARE_FILE @ [0])
      then Some (tftp_send_error N TFTP_ERR_FILENOTFOUND ''File must be firmware.bin'' s)
      else if tftp_get_field 1 nb \<noteq> Some (TFTP_OCTET_MODE @ [0])
      then Some (tftp_send_error N TFTP_ERR_ILLEGAL ''Mode must be octet/binary'' s)
      else None)"

datatype task_result = Waiting | Restarted | Divide_by_zero

text \<open>What follows an accepted request: the slot is chosen, the request acknowledged and the file received.\<close>

definition tftp_serve :: "rboot_h \<Rightarrow> rom_flash \<Rightarrow> sdk_flashchip \<Rightarrow> net_answer \<Rightarrow> byte list \<Rightarrow> byte list option \<Rightarrow> netbuf \<Rightarrow> recv list
    \<Rightarrow> ota_state \<Rightarrow> task_result option \<times> recv list \<times> ota_state" where
  "tftp_serve h R chip N stk heap nb evs s =
     (let s1 = s\<lparr>conn := Some (from_peer nb)\<rparr>;
          conf = rboot_get_config h R chip stk (flash s1);
          current_rom = unat (conf ! at_current_rom h);
          count = unat (conf ! at_count h)
      in if count = 0 then (Some Divide_by_zero, evs, s1)
         else
           let slot = (current_rom + 1) mod count
           in if slot = current_rom
              then (None, evs, (tftp_send_error N TFTP_ERR_ILLEGAL ''Only one OTA slot!'' s1)\<lparr>conn := None\<rparr>)
              else
                (case tftp_send_ack N 0 s1 of
                   (ack_err, s2) \<Rightarrow>
                     if ack_err \<noteq> ERR_OK then (None, evs, s2\<lparr>conn := None\<rparr>)
                     else
                       let offs = rd32 conf (at_roms h + 4 * slot)
                       in (case tftp_receive_data h R chip N stk offs (u32 (offs + MAX_IMAGE_SIZE)) None False evs s2 of
                             (None, _, evs1, s3) \<Rightarrow> (Some Waiting, evs1, s3)
                           | (Some ERR_OK, _, evs1, s3) \<Rightarrow>
                               (Some Restarted, evs1, s3\<lparr>conn := None,
                                  flash := snd (rboot_set_current_rom h R chip heap stk (word_of_nat slot) (flash s3))\<rparr>)
                           | (Some _, _, evs1, s3) \<Rightarrow> (None, evs1, s3\<lparr>conn := None\<rparr>))))"

lemma tftp_receive_loop_rest:
  "length (fst (snd (snd (tftp_receive_loop h R chip N stk a b cb evs l s)))) \<le> length evs"
proof (induction evs arbitrary: l s)
  case (Cons ev evs)
  then show ?case by (auto simp: le_SucI split: prod.splits sum.splits)
qed simp

lemma tftp_serve_rest: "length (fst (snd (tftp_serve h R chip N stk heap nb evs s))) \<le> length evs"
  using tftp_receive_loop_rest
  by (auto simp: tftp_serve_def tftp_receive_data_def Let_def split: prod.splits option.splits err_t.splits) (metis fst_conv snd_conv)+

text \<open>The loop of the task; it ends with a restart of the system.\<close>

function tftp_task :: "rboot_h \<Rightarrow> rom_flash \<Rightarrow> sdk_flashchip \<Rightarrow> net_answer \<Rightarrow> byte list \<Rightarrow> byte list option \<Rightarrow> recv list \<Rightarrow> ota_state
    \<Rightarrow> task_result \<times> ota_state" where
  "tftp_task h R chip N stk heap [] s = (Waiting, s)"
| "tftp_task h R chip N stk heap (Recv_err err # evs) s = tftp_task h R chip N stk heap evs s"
| "tftp_task h R chip N stk heap (Recv nb # evs) s =
     (case wrq_refusal N stk nb s of
        Some s1 \<Rightarrow> tftp_task h R chip N stk heap evs s1
      | None \<Rightarrow>
          (case tftp_serve h R chip N stk heap nb evs s of
             (Some r, _, s1) \<Rightarrow> (r, s1)
           | (None, evs1, s1) \<Rightarrow> tftp_task h R chip N stk heap evs1 s1))"
  by pat_completeness auto

termination
  by (relation "measure (\<lambda>(h, R, chip, N, stk, heap, evs, s). length evs)")
    (auto simp: less_Suc_eq_le, metis fst_conv snd_conv tftp_serve_rest)

declare tftp_task.simps [simp del]

section \<open>The client\<close>

text \<open>The local port is the first of eleven that is not in use; \<open>n\<close> attempts are left after this one.\<close>

fun bind_from :: "(nat \<Rightarrow> err_t) \<Rightarrow> nat \<Rightarrow> nat \<Rightarrow> err_t" where
  "bind_from netconn_bind local_port 0 = netconn_bind local_port"
| "bind_from netconn_bind local_port (Suc n) =
     (if netconn_bind local_port = ERR_USE then bind_from netconn_bind (local_port + 1) n else netconn_bind local_port)"

text \<open>
  \<open>nc\<close> says whether the connection is allocated, \<open>gethostbyname\<close> is the answer of the name server.
  \<open>None\<close> means that the call waits.
\<close>

definition ota_tftp_download :: "rboot_h \<Rightarrow> rom_flash \<Rightarrow> sdk_flashchip \<Rightarrow> net_answer \<Rightarrow> bool \<Rightarrow> (nat \<Rightarrow> err_t) \<Rightarrow> err_t + nat \<Rightarrow> byte list
    \<Rightarrow> nat \<Rightarrow> byte list \<Rightarrow> int \<Rightarrow> bool \<Rightarrow> recv list \<Rightarrow> ota_state \<Rightarrow> err_t option \<times> ota_state" where
  "ota_tftp_download h R chip N nc netconn_bind gethostbyname stk port filename ota_slot receive_cb evs s =
     (let conf = rboot_get_config h R chip stk (flash s)
      in if uint (conf ! at_current_rom h) = ota_slot \<or> uint (conf ! at_count h) \<le> ota_slot then (Some ERR_VAL, s)
         else
           let flash_offset = rd32 conf (nat (int (at_roms h) + 4 * ota_slot))
           in if \<not> nc then (Some ERR_IF, s)
              else if bind_from netconn_bind port 10 \<noteq> ERR_OK then (Some (bind_from netconn_bind port 10), s)
              else (case gethostbyname of
                      Inl err \<Rightarrow> (Some err, s)
                    | Inr addr \<Rightarrow>
                        (case tftp_send_rrq N filename (s\<lparr>conn := Some (addr, port)\<rparr>) of
                           (err, s1) \<Rightarrow>
                             if err \<noteq> ERR_OK then (Some err, s1)
                             else (case tftp_receive_data h R chip N stk flash_offset (u32 (flash_offset + MAX_IMAGE_SIZE))
                                          (Some (addr, port)) receive_cb evs s1 of
                                     (res, _, _, s2) \<Rightarrow> (res, s2)))))"

end
