(* ===== verification/Ota_tftp_Transfer.thy ===== *)
theory Ota_tftp_Transfer
  imports Ota_tftp
begin

text \<open>
  The update over TFTP is correct: a transfer stores the file whatever packets are repeated or
  time out, only a verified image is ever accepted, and the server task ends with the new image
  selected for the next boot.
\<close>

section \<open>Packets\<close>

lemma rd_be16_be16: "n < 65536 \<Longrightarrow> rd_be16 (be16 n @ xs) = n"
  by (simp add: rd_be16_def be16_def unat_word8_of_nat)

lemma length_be16 [simp]: "length (be16 n) = 2"
  by (simp add: be16_def)

text \<open>A segment of whole words; the memory behind the payload does not matter.\<close>

definition segment_ok :: "segment \<Rightarrow> bool" where
  "segment_ok s \<longleftrightarrow> seg_len s mod 4 = 0 \<and> seg_len s \<le> length (seg_mem s)"

text \<open>A data packet: its segments hold whole words, and the first one at least the header.\<close>

definition data_packet :: "netbuf \<Rightarrow> nat \<Rightarrow> byte list \<Rightarrow> bool" where
  "data_packet nb n payload \<longleftrightarrow>
     netbuf_bytes nb = be16 TFTP_OP_DATA @ be16 n @ payload \<and> length payload \<le> 512
     \<and> list_all segment_ok (segments nb) \<and> segments nb \<noteq> [] \<and> 4 \<le> seg_len (hd (segments nb))"

text \<open>The segments of a buffer lie in the memory they point to.\<close>

definition netbuf_ok :: "netbuf \<Rightarrow> bool" where
  "netbuf_ok nb \<longleftrightarrow> list_all (\<lambda>s. seg_len s \<le> length (seg_mem s)) (segments nb)"

lemma netbuf_bytes_length: "netbuf_ok nb \<Longrightarrow> length (netbuf_bytes nb) = sum_list (map seg_len (segments nb))"
proof -
  have "list_all (\<lambda>s. seg_len s \<le> length (seg_mem s)) segs
      \<Longrightarrow> length (concat (map (\<lambda>s. take (seg_len s) (seg_mem s)) segs)) = sum_list (map seg_len segs)" for segs
    by (induction segs) auto
  then show "netbuf_ok nb \<Longrightarrow> ?thesis" by (simp add: netbuf_bytes_def netbuf_ok_def)
qed

lemma netbuf_okI: "list_all segment_ok (segments nb) \<Longrightarrow> netbuf_ok nb"
  by (auto simp: netbuf_ok_def segment_ok_def list_all_iff)

lemma data_packet_read:
  assumes "data_packet nb n payload" "n < 65536"
  shows "netbuf_read_u16_n stk nb 0 = TFTP_OP_DATA" "netbuf_read_u16_n stk nb 2 = n" "netbuf_len nb = 4 + length payload"
proof -
  note d = assms(1) [unfolded data_packet_def]
  show "netbuf_read_u16_n stk nb 0 = TFTP_OP_DATA" "netbuf_read_u16_n stk nb 2 = n"
    using d assms(2) by (simp_all add: netbuf_read_u16_n_def netbuf_copy_partial_def set_bytes_def rd_be16_be16 TFTP_OP_DATA_def)
  have "length (netbuf_bytes nb) = 4 + length payload" using d by simp
  then show "netbuf_len nb = 4 + length payload" using d netbuf_bytes_length [OF netbuf_okI, of nb] by (simp add: netbuf_len_def)
qed

section \<open>Writing a packet\<close>

lemma u16_minus_4: "4 \<le> n \<Longrightarrow> n < 65536 \<Longrightarrow> u16 (n + 65532) = n - 4"
proof -
  assume n: "4 \<le> n" "n < 65536"
  then obtain k where "n = k + 4" by (metis add.commute le_Suc_ex)
  then show ?thesis using n by (simp add: u16_def)
qed

context rboot_flash
begin

lemma flash_write_words:
  assumes "a mod 4 = 0" "n mod 4 = 0" "n \<le> length buf" "a + n \<le> chip_size c"
  shows "snd (sdk_spi_flash_write R c (u32 a) (Some buf) n m) = nor_program a (take n buf) m"
  using flash_write_ok [OF word_chip, of a n buf m] assms chip by simp

text \<open>A segment is programmed completely, aligned or not.\<close>

lemma write_segment:
  assumes "(w + off) mod 4 = 0" "n mod 4 = 0" "n \<le> length chunk" "w + off + n \<le> chip_size c" "n < 65536" "n \<noteq> 0"
  shows "snd (sdk_spi_flash_write R c (u32 (w + (off + 4))) (Some (take (n - 4) (drop 4 chunk) @ drop k chunk)) (u16 (n + 65532))
      (snd (sdk_spi_flash_write R c (u32 (w + off)) (Some (take 4 chunk)) 4 m))) = nor_program (w + off) (take n chunk) m"
    and "off + 4 + u16 (n + 65532) = off + n"
proof -
  have n4: "4 \<le> n" using assms(2,6) by (cases "n < 4") (auto simp: mod_less)
  have u: "u16 (n + 65532) = n - 4" using n4 assms(5) by (rule u16_minus_4)
  show "off + 4 + u16 (n + 65532) = off + n" using u n4 by simp
  have m4: "(w + (off + 4)) mod 4 = 0" "(n - 4) mod 4 = 0" using assms(1,2) n4 by (simp_all add: add.assoc [symmetric] le_mod_geq)
  have split: "take n chunk = take 4 chunk @ take (n - 4) (drop 4 chunk)" using n4 by (metis le_add_diff_inverse take_add)
  have "snd (sdk_spi_flash_write R c (u32 (w + off)) (Some (take 4 chunk)) 4 m) = nor_program (w + off) (take 4 chunk) m"
    using flash_write_words [of "w + off" 4 "take 4 chunk" m] assms(1,3,4) n4 by simp
  moreover have "snd (sdk_spi_flash_write R c (u32 (w + (off + 4))) (Some (take (n - 4) (drop 4 chunk) @ drop k chunk)) (n - 4) m')
      = nor_program (w + (off + 4)) (take (n - 4) (drop 4 chunk)) m'" for m'
    using flash_write_words [of "w + (off + 4)" "n - 4" "take (n - 4) (drop 4 chunk) @ drop k chunk" m'] assms(3,4) n4 m4
    by (simp add: min.absorb2)
  ultimately show "snd (sdk_spi_flash_write R c (u32 (w + (off + 4))) (Some (take (n - 4) (drop 4 chunk) @ drop k chunk)) (u16 (n + 65532))
      (snd (sdk_spi_flash_write R c (u32 (w + off)) (Some (take 4 chunk)) 4 m))) = nor_program (w + off) (take n chunk) m"
    using assms(3) n4 unfolding u split nor_program_append by (simp add: min.absorb2 add.assoc)
qed

lemma write_segments_step:
  assumes "(w + off) mod 4 = 0" "n mod 4 = 0" "n \<le> length chunk" "w + off + n \<le> chip_size c" "n < 65536"
    and "chunk = (if first then drop 4 (seg_mem s) else seg_mem s)" "n = (if first then u16 (seg_len s + 65532) else seg_len s)"
  shows "write_segments R c w first off (s # segs) m
    = write_segments R c w False (off + n) segs (nor_program (w + off) (take n chunk) m)"
proof (cases "n \<noteq> 0 \<and> (if first then seg_addr s + 4 else seg_addr s) mod 4 \<noteq> 0")
  case True
  then have c: "(n \<noteq> 0 \<and> (if first then seg_addr s + 4 else seg_addr s) mod 4 \<noteq> 0) = True" by simp
  note seg = write_segment [OF assms(1-5) conjunct1 [OF True]]
  show ?thesis
    unfolding write_segments.simps Let_def assms(6,7) [symmetric] c if_True seg ..
next
  case False
  then show ?thesis
    using flash_write_words [OF assms(1-4)]
    unfolding write_segments.simps Let_def assms(6,7) [symmetric] by (simp only: if_False)
qed

lemma write_segments_rest:
  assumes "list_all segment_ok segs" "(w + off) mod 4 = 0" "\<forall>s \<in> set segs. seg_len s < 65536"
    and "w + off + sum_list (map seg_len segs) \<le> chip_size c"
  shows "write_segments R c w False off segs m = nor_program (w + off) (concat (map (\<lambda>s. take (seg_len s) (seg_mem s)) segs)) m"
  using assms
proof (induction segs arbitrary: off m)
  case (Cons s segs)
  have s: "seg_len s mod 4 = 0" "seg_len s \<le> length (seg_mem s)" using Cons.prems(1) by (simp_all add: segment_ok_def)
  have "write_segments R c w False off (s # segs) m
      = write_segments R c w False (off + seg_len s) segs (nor_program (w + off) (take (seg_len s) (seg_mem s)) m)"
    using s Cons.prems by (intro write_segments_step) simp_all
  also have "\<dots> = nor_program (w + (off + seg_len s)) (concat (map (\<lambda>s. take (seg_len s) (seg_mem s)) segs))
      (nor_program (w + off) (take (seg_len s) (seg_mem s)) m)"
    using s Cons.prems mod4_add [of "w + off" "seg_len s"] by (intro Cons.IH) (simp_all add: add.assoc)
  finally show ?case using s by (simp add: nor_program_append min_def add.assoc)
qed simp

lemma write_packet:
  assumes "data_packet nb n payload" "w mod 4 = 0" "w + length payload \<le> chip_size c"
  shows "write_segments R c w True 0 (segments nb) m = nor_program w payload m"
proof -
  note d = assms(1) [unfolded data_packet_def]
  obtain s segs where segs: "segments nb = s # segs" using d by (cases "segments nb") auto
  have s: "seg_len s mod 4 = 0" "seg_len s \<le> length (seg_mem s)" "4 \<le> seg_len s" using d segs by (simp_all add: segment_ok_def)
  have bytes: "take (seg_len s) (seg_mem s) @ concat (map (\<lambda>s. take (seg_len s) (seg_mem s)) segs) = be16 TFTP_OP_DATA @ be16 n @ payload"
    using d segs by (simp add: netbuf_bytes_def)
  have total: "seg_len s + sum_list (map seg_len segs) = 4 + length payload"
    using d segs netbuf_bytes_length [OF netbuf_okI, of nb] by simp
  have "seg_len s < 65536" using total d by linarith
  then have u: "u16 (seg_len s + 65532) = seg_len s - 4" using s(3) by (intro u16_minus_4)
  have "payload = drop 4 (take (seg_len s) (seg_mem s) @ concat (map (\<lambda>s. take (seg_len s) (seg_mem s)) segs))"
    unfolding bytes by simp
  then have pl: "payload = take (seg_len s - 4) (drop 4 (seg_mem s)) @ concat (map (\<lambda>s. take (seg_len s) (seg_mem s)) segs)"
    using s by (simp add: drop_take)
  have small: "seg_len t < 65536" if "t \<in> set segs" for t
  proof -
    have "seg_len t \<le> sum_list (map seg_len segs)" using that by (simp add: member_le_sum_list)
    then show ?thesis using total d by linarith
  qed
  have m4: "(seg_len s - 4) mod 4 = 0" using s by (simp add: le_mod_geq [symmetric])
  have "write_segments R c w True 0 (s # segs) m
      = write_segments R c w False (0 + (seg_len s - 4)) segs (nor_program (w + 0) (take (seg_len s - 4) (drop 4 (seg_mem s))) m)"
    using s m4 assms(2,3) total \<open>seg_len s < 65536\<close> by (intro write_segments_step) (simp_all add: u)
  also have "\<dots> = nor_program (w + (seg_len s - 4)) (concat (map (\<lambda>s. take (seg_len s) (seg_mem s)) segs))
      (nor_program w (take (seg_len s - 4) (drop 4 (seg_mem s))) m)"
    using d segs s m4 assms(2,3) total small mod4_add [of w "seg_len s - 4"]
    by (simp add: write_segments_rest)
  also have "\<dots> = nor_program w payload m"
    using s(2) unfolding pl nor_program_append by (simp add: min.absorb2)
  finally show ?thesis by (simp add: segs)
qed

end

section \<open>A transfer\<close>

text \<open>
  The flash after the bytes \<open>bs\<close>: they are stored from \<open>a\<close> on, the sectors up to some boundary inside
  the slot are erased, and nothing else has changed since \<open>m0\<close>.
\<close>

definition stored_part :: "nat \<Rightarrow> memory \<Rightarrow> byte list \<Rightarrow> memory \<Rightarrow> bool" where
  "stored_part a m0 bs m \<longleftrightarrow> (\<exists>e. e mod 4096 = 0 \<and> a + length bs \<le> e \<and> e \<le> a + MAX_IMAGE_SIZE
     \<and> m = mem_put a bs (nor_erase a (e - a) m0))"

lemma next_boundary:
  fixes w e :: nat
  assumes "e mod 4096 = 0" "w mod 512 = 0" "w mod 4096 \<noteq> 0" "w \<le> e"
  shows "w + 512 \<le> e"
proof -
  obtain q where e: "e = 512 * (8 * q)" using assms(1) by (metis dvd_def mod_0_imp_dvd mult.assoc mult_numeral_left_semiring_numeral
        numeral_times_numeral semiring_norm(11,12,13))
  obtain p where w: "w = 512 * p" using assms(2) by (metis dvd_def mod_0_imp_dvd)
  have "p \<noteq> 8 * q" using assms(1,3) e w by auto
  then have "p < 8 * q" using assms(4) e w by simp
  then show ?thesis unfolding e w by simp
qed

lemma sector_above:
  fixes w t :: nat
  assumes "t mod 4096 = 0" "w mod 4096 = 0" "w < t"
  shows "w + 4096 \<le> t"
proof -
  obtain p q where "t = 4096 * p" "w = 4096 * q" using assms(1,2) by (metis dvd_def mod_0_imp_dvd)
  then show ?thesis using assms(3) by simp
qed

lemma erase_sector_beyond:
  "a + length bs = w \<Longrightarrow> w \<le> e \<Longrightarrow>
    nor_erase w 4096 (mem_put a bs (nor_erase a (e - a) m)) = mem_put a bs (nor_erase a (max e (w + 4096) - a) m)"
  by (rule ext) (auto simp: nor_erase_apply mem_put_def)

context rboot_flash
begin

lemma block_flash:
  assumes st: "stored_part a m0 bs m" and a: "a mod 4096 = 0" and bs: "length bs mod 512 = 0"
    and nb: "data_packet nb n p" and fits: "length bs + 4 + length p < MAX_IMAGE_SIZE" "a + MAX_IMAGE_SIZE \<le> chip_size c"
  defines "w \<equiv> a + length bs"
  shows "stored_part a m0 (bs @ p)
    (write_segments R c w True 0 (segments nb) (if w mod 4096 = 0 then snd (sdk_spi_flash_erase_sector R c (w div 4096) m) else m))"
proof -
  obtain e where e: "e mod 4096 = 0" "w \<le> e" "e \<le> a + MAX_IMAGE_SIZE" and m: "m = mem_put a bs (nor_erase a (e - a) m0)"
    using st unfolding stored_part_def w_def by (elim exE conjE)
  have p: "length p \<le> 512" using nb by (simp add: data_packet_def)
  have a512: "a mod 512 = 0" using a mod_mod_cancel [of 512 4096 a] by simp
  then have w512: "w mod 512 = 0" using bs unfolding w_def by (metis add_0 mod_0 mod_add_eq)
  have top: "(a + MAX_IMAGE_SIZE) mod 4096 = 0" using a mod_mult_self2 [of a 4096 256] by (simp add: MAX_IMAGE_SIZE_def)
  define e1 where "e1 = (if w mod 4096 = 0 then max e (w + 4096) else e)"
  have e1: "e1 mod 4096 = 0" "w + length p \<le> e1" "e1 \<le> a + MAX_IMAGE_SIZE"
  proof -
    have nb: "w + 512 \<le> e" if "w mod 4096 \<noteq> 0" using next_boundary [OF e(1) w512 that e(2)] .
    have "w + 4096 \<le> a + MAX_IMAGE_SIZE" if "w mod 4096 = 0"
      using fits(1) sector_above [OF top that] by (simp add: w_def)
    then show "e1 \<le> a + MAX_IMAGE_SIZE" using e(3) by (simp add: e1_def)
    show "w + length p \<le> e1" using p nb by (auto simp: e1_def)
    have "(w + 4096) mod 4096 = w mod 4096" by (rule mod_add_self2)
    then show "e1 mod 4096 = 0" using e(1) by (simp only: e1_def max_def split: if_splits) simp
  qed
  have er: "(if w mod 4096 = 0 then snd (sdk_spi_flash_erase_sector R c (w div 4096) m) else m) = mem_put a bs (nor_erase a (e1 - a) m0)"
  proof (cases "w mod 4096 = 0")
    case True
    then have w: "w div 4096 * 4096 = w" by auto
    have "(w div 4096 + 1) * 4096 \<le> chip_size c" using e1(3) fits(2) True w by (simp add: e1_def)
    then have "snd (sdk_spi_flash_erase_sector R c (w div 4096) m) = nor_erase w 4096 m"
      using flash_erase_ok [OF chip(1), of "w div 4096" m] w by (simp add: SPI_FLASH_SECTOR_SIZE_def)
    then show ?thesis using True erase_sector_beyond [of a bs w e m0] e(2) by (simp add: m e1_def w_def)
  qed (simp add: m e1_def)
  have "w mod 4 = 0" using w512 mod_mod_cancel [of 4 512 w] by simp
  then have "write_segments R c w True 0 (segments nb) (mem_put a bs (nor_erase a (e1 - a) m0))
      = nor_program w p (mem_put a bs (nor_erase a (e1 - a) m0))"
    using nb e1 fits(2) by (intro write_packet) auto
  also have "\<dots> = mem_put w p (mem_put a bs (nor_erase a (e1 - a) m0))"
    using e1(2) by (intro mem_put_nor_program) (auto simp: w_def mem_put_def nor_erase_apply)
  finally show ?thesis
    unfolding er stored_part_def using e1 by (intro exI [of _ e1]) (simp add: mem_put_append [symmetric] w_def add.assoc)
qed

end

text \<open>
  What arrives during a transfer, with \<open>k\<close> blocks received and \<open>r\<close> retransmissions left: the next block,
  the previous block again, or nothing before the timeout; the last block ends it.
\<close>

inductive transfer :: "byte list \<Rightarrow> recv list \<Rightarrow> nat \<Rightarrow> int \<Rightarrow> recv list \<Rightarrow> bool" for content tail where
  last_block: "data_packet nb (k + 1) (drop (512 * k) content) \<Longrightarrow> length content < 512 * k + 512 \<Longrightarrow> transfer content tail k r (Recv nb # tail)"
| next_block: "data_packet nb (k + 1) (take 512 (drop (512 * k) content)) \<Longrightarrow> 512 * k + 512 \<le> length content
    \<Longrightarrow> transfer content tail (k + 1) TFTP_TIMEOUT_RETRANSMITS evs \<Longrightarrow> transfer content tail k r (Recv nb # evs)"
| repeated: "data_packet nb k p \<Longrightarrow> transfer content tail k r evs \<Longrightarrow> transfer content tail k r (Recv nb # evs)"
| timeout: "0 < r \<Longrightarrow> 0 < k \<Longrightarrow> transfer content tail k (r - 1) evs \<Longrightarrow> transfer content tail k r (Recv_err ERR_TIMEOUT # evs)"

text \<open>
  The numbers of the acknowledgements due for these events, with \<open>k\<close> blocks received: the number of the
  block for a packet, the number of the last block for a timeout.
\<close>

fun acks_due :: "nat \<Rightarrow> recv list \<Rightarrow> nat list" where
  "acks_due k [] = []"
| "acks_due k (Recv nb # evs) = (let n = rd_be16 (drop 2 (netbuf_bytes nb)) in n # acks_due n evs)"
| "acks_due k (Recv_err e # evs) = k # acks_due k evs"

definition ack_packet :: "nat \<Rightarrow> byte list" where
  "ack_packet n = be16 TFTP_OP_ACK @ be16 n"

lemma acks_due_data: "data_packet nb n p \<Longrightarrow> n < 65536 \<Longrightarrow> acks_due k (Recv nb # evs) = n # acks_due n evs"
  by (simp add: data_packet_def rd_be16_be16 Let_def)

text \<open>The loop variables and the state after \<open>k\<close> blocks.\<close>

definition progress :: "bool \<Rightarrow> nat \<Rightarrow> memory \<Rightarrow> nat list \<Rightarrow> byte list \<Rightarrow> nat \<Rightarrow> tftp_loop \<Rightarrow> ota_state \<Rightarrow> bool" where
  "progress cb a m0 r0 content k l s \<longleftrightarrow> write_offs l = a + 512 * k \<and> block l = int k + 1 \<and> received_len l = 512 * k
     \<and> 512 * k \<le> length content \<and> received s = r0 @ (if cb then map ((*) 512) [1..<Suc k] else [])
     \<and> stored_part a m0 (take (512 * k) content) (flash s)"

locale ota_slot = rboot_flash R h c for R h c +
  fixes N :: net_answer and stk :: "byte list" and a :: nat and content :: "byte list"
  assumes network: "N x = ERR_OK"
    and slot: "a mod 4096 = 0" "a + MAX_IMAGE_SIZE \<le> chip_size c"
    and size: "length content + 4 < MAX_IMAGE_SIZE"
    and valid: "mem_read m a (length content) = content \<Longrightarrow> rboot_verify_image h R c stk a m = (None, length content)"
begin

abbreviation "block_turn cb \<equiv> tftp_receive_block h R c N stk a (u32 (a + MAX_IMAGE_SIZE)) cb"

lemma limit: "u32 (a + MAX_IMAGE_SIZE) = a + MAX_IMAGE_SIZE"
  using slot(2) chip by simp

text \<open>A data packet with the expected number, up to the check of the image.\<close>

lemma block_turn_eq:
  assumes p: "progress cb a m0 r0 content k l s" and nb: "data_packet nb (k + 1) p"
    and len: "512 * k + length p \<le> length content"
    and ok: "\<And>m. length p < 512 \<Longrightarrow> stored_part a m0 (take (512 * k) content @ p) m
      \<Longrightarrow> rboot_verify_image h R c stk a m = (None, 512 * k + length p)"
  obtains m' where "stored_part a m0 (take (512 * k) content @ p) m'"
    "block_turn cb nb l s =
      (let l2 = l\<lparr>retries := TFTP_TIMEOUT_RETRANSMITS, received_len := 512 * k + length p\<rparr>;
           l3 = l2\<lparr>block := int k + 2, write_offs := a + 512 * (k + 1)\<rparr>;
           s3 = s\<lparr>flash := m', sent := sent s @ [(conn s, be16 TFTP_OP_ACK @ be16 (k + 1))],
                  received := received s @ (if cb then [512 * k + length p] else [])\<rparr>
       in if length p < 512 then (Inl ERR_OK, l2, s3) else (Inr l3, l3, s3))"
proof -
  note prog = p [unfolded progress_def]
  let ?w = "a + 512 * k" let ?n = "512 * k + length p"
  define m' where "m' = write_segments R c ?w True 0 (segments nb)
    (if ?w mod 4096 = 0 then snd (sdk_spi_flash_erase_sector R c (?w div 4096) (flash s)) else flash s)"
  have lp: "length p \<le> 512" "length (take (512 * k) content) = 512 * k" using nb prog by (simp_all add: data_packet_def)
  have st: "stored_part a m0 (take (512 * k) content @ p) m'"
  proof -
    have st0: "stored_part a m0 (take (512 * k) content) (flash s)" using prog by simp
    show ?thesis
      unfolding m'_def using size len by (intro block_flash [OF st0 slot(1) _ nb _ slot(2), unfolded lp(2)]) simp_all
  qed
  have k: "k + 1 < 65536" using prog size by (simp add: MAX_IMAGE_SIZE_def)
  have nl: "netbuf_len nb = 4 + length p" using data_packet_read(3) [OF nb k] .
  have small: "a + MAX_IMAGE_SIZE \<le> 16777216" using slot(2) chip(2) by linarith
  have u: "u32 (?w + (4 + length p)) = ?w + (4 + length p)" "u32 (512 * k + length p) = 512 * k + length p"
    "u32_sub (4 + length p) 4 = length p" "u32 (?w + 512) = a + 512 * (k + 1)"
    using small size len lp by simp_all
  have lim: "(a + MAX_IMAGE_SIZE \<le> ?w + (4 + length p)) = False" using size len by simp
  have fl: "flash (if b then s\<lparr>flash := x\<rparr> else s) = (if b then x else flash s)"
    "(if b then s\<lparr>flash := x\<rparr> else s)\<lparr>flash := y\<rparr> = s\<lparr>flash := y\<rparr>" for b x y by simp_all
  have l: "write_offs l = ?w" "block l = int k + 1" "received_len l = 512 * k" using prog by auto
  have ack: "tftp_send_ack N (int k + 1) s' = (ERR_OK, s'\<lparr>sent := sent s' @ [(conn s', be16 TFTP_OP_ACK @ be16 (k + 1))]\<rparr>)" for s'
    using k by (simp add: tftp_send_ack_def netconn_send_def network nat_mod_distrib nat_add_distrib)
  have ver: "rboot_verify_image h R c stk a m' = (None, 512 * k + length p)" if "length p < 512" using ok [OF that st] .
  show ?thesis
  proof (rule that [OF st])
    show "block_turn cb nb l s = (let l2 = l\<lparr>retries := TFTP_TIMEOUT_RETRANSMITS, received_len := 512 * k + length p\<rparr>;
           l3 = l2\<lparr>block := int k + 2, write_offs := a + 512 * (k + 1)\<rparr>;
           s3 = s\<lparr>flash := m', sent := sent s @ [(conn s, be16 TFTP_OP_ACK @ be16 (k + 1))],
                  received := received s @ (if cb then [512 * k + length p] else [])\<rparr>
       in if length p < 512 then (Inl ERR_OK, l2, s3) else (Inr l3, l3, s3))"
      unfolding tftp_receive_block_def Let_def nl limit sector l u lim if_False fl m'_def [symmetric] simp_thms
      by (cases "length p < 512") (simp_all add: ver ack u split: prod.splits)
  qed
qed

lemma next_block_turn:
  assumes p: "progress cb a m0 r0 content k l s" and nb: "data_packet nb (k + 1) (take 512 (drop (512 * k) content))" "512 * k + 512 \<le> length content"
  obtains l' s' where "block_turn cb nb l s = (Inr l', l', s')" "progress cb a m0 r0 content (k + 1) l' s'" "retries l' = TFTP_TIMEOUT_RETRANSMITS"
    "map snd (sent s') = map snd (sent s) @ [ack_packet (k + 1)]"
proof -
  let ?p = "take 512 (drop (512 * k) content)"
  have len: "length ?p = 512" using nb(2) by simp
  obtain m' where m': "stored_part a m0 (take (512 * k) content @ ?p) m'" and eq: "block_turn cb nb l s =
      (let l2 = l\<lparr>retries := TFTP_TIMEOUT_RETRANSMITS, received_len := 512 * k + length ?p\<rparr>;
           l3 = l2\<lparr>block := int k + 2, write_offs := a + 512 * (k + 1)\<rparr>;
           s3 = s\<lparr>flash := m', sent := sent s @ [(conn s, be16 TFTP_OP_ACK @ be16 (k + 1))],
                  received := received s @ (if cb then [512 * k + length ?p] else [])\<rparr>
       in if length ?p < 512 then (Inl ERR_OK, l2, s3) else (Inr l3, l3, s3))"
    by (rule block_turn_eq [OF p nb(1)]) (use nb(2) in simp, use nb(2) in simp, assumption)
  have "take (512 * (k + 1)) content = take (512 * k) content @ ?p" by (simp add: take_add [symmetric] algebra_simps)
  then show ?thesis
    using m' p nb(2) by (intro that [OF eq [unfolded len Let_def, simplified]]) (auto simp: progress_def ack_packet_def)
qed

lemma last_block_turn:
  assumes p: "progress cb a m0 r0 content k l s" and nb: "data_packet nb (k + 1) (drop (512 * k) content)" "length content < 512 * k + 512"
  obtains l' s' where "block_turn cb nb l s = (Inl ERR_OK, l', s')" "received_len l' = length content"
    "stored_part a m0 content (flash s')" "received s' = r0 @ (if cb then map ((*) 512) [1..<Suc k] @ [length content] else [])"
    "map snd (sent s') = map snd (sent s) @ [ack_packet (k + 1)]"
proof -
  let ?p = "drop (512 * k) content"
  have kl: "512 * k \<le> length content" using p by (simp add: progress_def)
  have len: "512 * k + length ?p = length content" "(length ?p < 512) = True" using nb(2) kl by auto
  have ver: "rboot_verify_image h R c stk a m = (None, 512 * k + length ?p)" if "stored_part a m0 (take (512 * k) content @ ?p) m" for m
  proof -
    have "mem_read m a (length content) = content" using that by (auto simp: stored_part_def mem_read_mem_put)
    then show ?thesis unfolding len(1) by (rule valid)
  qed
  obtain m' where m': "stored_part a m0 (take (512 * k) content @ ?p) m'" and eq: "block_turn cb nb l s =
      (let l2 = l\<lparr>retries := TFTP_TIMEOUT_RETRANSMITS, received_len := 512 * k + length ?p\<rparr>;
           l3 = l2\<lparr>block := int k + 2, write_offs := a + 512 * (k + 1)\<rparr>;
           s3 = s\<lparr>flash := m', sent := sent s @ [(conn s, be16 TFTP_OP_ACK @ be16 (k + 1))],
                  received := received s @ (if cb then [512 * k + length ?p] else [])\<rparr>
       in if length ?p < 512 then (Inl ERR_OK, l2, s3) else (Inr l3, l3, s3))"
    by (rule block_turn_eq [OF p nb(1) len(1) [THEN eq_refl] ver])
  show ?thesis
    using m' p by (intro that [OF eq [unfolded len Let_def if_True]]) (auto simp: progress_def ack_packet_def)
qed

abbreviation "turn cb \<equiv> tftp_receive_turn h R c N stk a (u32 (a + MAX_IMAGE_SIZE)) cb"

abbreviation "receive_loop cb \<equiv> tftp_receive_loop h R c N stk a (u32 (a + MAX_IMAGE_SIZE)) cb"

lemma progress_small: "progress cb a m0 r0 content k l s \<Longrightarrow> k + 1 < 65536"
  using size by (simp add: progress_def MAX_IMAGE_SIZE_def)

lemma ack_sent: "k < 65536 \<Longrightarrow> map snd (sent (snd (tftp_send_ack N (int k) s))) = map snd (sent s) @ [ack_packet k]"
  by (simp add: tftp_send_ack_def netconn_send_def ack_packet_def nat_mod_distrib)

lemma progress_sent: "progress cb a m0 r0 content k l s \<Longrightarrow> progress cb a m0 r0 content k l (snd (tftp_send_ack N b s))"
  by (simp add: progress_def tftp_send_ack_def netconn_send_def)

text \<open>A data packet: first the connection is made, then the number of the block decides.\<close>

lemma data_turn:
  assumes "progress cb a m0 r0 content k l s" "data_packet nb n p" "n < 65536"
  obtains l1 s1 where "progress cb a m0 r0 content k l1 s1" "retries l1 = retries l" "sent s1 = sent s"
    "n = k + 1 \<Longrightarrow> turn cb (Recv nb) l s = block_turn cb nb l1 s1"
    "n = k \<Longrightarrow> turn cb (Recv nb) l s = (Inr l1, l1, snd (tftp_send_ack N (int k) s1))"
proof (cases "peer_addr l")
  case None
  then show ?thesis
    using assms data_packet_read [OF assms(2,3)]
    by (intro that [of l s]) (simp_all add: tftp_receive_turn_def progress_def)
next
  case (Some pr)
  then show ?thesis
    using assms data_packet_read [OF assms(2,3)]
    by (intro that [of "l\<lparr>peer_addr := None\<rparr>" "s\<lparr>conn := Some (from_peer nb)\<rparr>"]) (simp_all add: tftp_receive_turn_def progress_def)
qed

lemma timeout_turn:
  assumes "progress cb a m0 r0 content k l s" "0 < retries l" "0 < k"
  obtains l1 s1 where "turn cb (Recv_err ERR_TIMEOUT) l s = (Inr l1, l1, s1)" "progress cb a m0 r0 content k l1 s1" "retries l1 = retries l - 1"
    "map snd (sent s1) = map snd (sent s) @ [ack_packet k]"
proof (cases "peer_addr l")
  case None
  then show ?thesis
    using assms progress_small [OF assms(1)] progress_sent [of cb m0 r0 k "l\<lparr>retries := retries l - 1\<rparr>" s "int k"]
    by (intro that [of "l\<lparr>retries := retries l - 1\<rparr>" "snd (tftp_send_ack N (int k) s)"])
      (simp_all add: tftp_receive_turn_def progress_def Let_def ack_sent)
next
  case (Some pr)
  then show ?thesis
    using assms progress_small [OF assms(1)] progress_sent [of cb m0 r0 k "l\<lparr>retries := retries l - 1\<rparr>" "s\<lparr>conn := Some pr\<rparr>" "int k"]
    by (intro that [of "l\<lparr>retries := retries l - 1\<rparr>" "snd (tftp_send_ack N (int k) (s\<lparr>conn := Some pr\<rparr>))"])
      (simp_all add: tftp_receive_turn_def progress_def Let_def ack_sent)
qed

lemma transfer_done:
  assumes "transfer content tail k r evs" "progress cb a m0 r0 content k l s" "retries l = r"
  shows "\<exists>s' pre. receive_loop cb evs l s = (Some ERR_OK, length content, tail, s') \<and> stored_part a m0 content (flash s')
    \<and> received s' = r0 @ (if cb then map ((*) 512) [1..<Suc (length content div 512)] @ [length content] else [])
    \<and> evs = pre @ tail \<and> map snd (sent s') = map snd (sent s) @ map ack_packet (acks_due k pre)
    \<and> snd (last (sent s')) = ack_packet (length content div 512 + 1)"
  using assms
proof (induction arbitrary: l s rule: transfer.induct)
  case (last_block nb k r)
  have k: "length content div 512 = k" using last_block by (intro div_nat_eqI) (auto simp: progress_def)
  have n: "k + 1 < 65536" using progress_small [OF last_block.prems(1)] .
  from last_block.prems(1) obtain l1 s1 where 1: "progress cb a m0 r0 content k l1 s1" "sent s1 = sent s"
    and t: "turn cb (Recv nb) l s = block_turn cb nb l1 s1"
    by (rule data_turn [OF _ last_block.hyps(1) n]) auto
  obtain l' s' where s': "block_turn cb nb l1 s1 = (Inl ERR_OK, l', s')" "received_len l' = length content"
    "stored_part a m0 content (flash s')" "received s' = r0 @ (if cb then map ((*) 512) [1..<Suc k] @ [length content] else [])"
    "map snd (sent s') = map snd (sent s) @ [ack_packet (k + 1)]"
    by (rule last_block_turn [OF 1(1) last_block.hyps]) (simp add: 1(2))
  have "snd (last (sent s')) = ack_packet (k + 1)"
    using s'(5) last_map [of "sent s'" snd] by (cases "sent s' = []") simp_all
  then show ?case unfolding k using s' acks_due_data [OF last_block.hyps(1) n, of k "[]"]
    by (intro exI [of _ s'] exI [of _ "[Recv nb]"]) (simp add: t)
next
  case (next_block nb k evs r)
  have n: "k + 1 < 65536" using progress_small [OF next_block.prems(1)] .
  from next_block.prems(1) obtain l1 s1 where 1: "progress cb a m0 r0 content k l1 s1" "sent s1 = sent s"
    and t: "turn cb (Recv nb) l s = block_turn cb nb l1 s1"
    by (rule data_turn [OF _ next_block.hyps(1) n]) auto
  obtain l' s' where s': "block_turn cb nb l1 s1 = (Inr l', l', s')" "progress cb a m0 r0 content (k + 1) l' s'"
    "retries l' = TFTP_TIMEOUT_RETRANSMITS" "map snd (sent s') = map snd (sent s) @ [ack_packet (k + 1)]"
    by (rule next_block_turn [OF 1(1) next_block.hyps(1,2)]) (simp add: 1(2))
  show ?case using next_block.IH [OF s'(2,3)] s'(1,4) acks_due_data [OF next_block.hyps(1) n]
    by (auto simp: t simp del: acks_due.simps(2) upt_Suc intro!: exI [of _ "Recv nb # _"])
next
  case (repeated nb k p r evs)
  have n: "k < 65536" using progress_small [OF repeated.prems(1)] by simp
  from repeated.prems(1) obtain l1 s1 where 1: "progress cb a m0 r0 content k l1 s1" "retries l1 = retries l" "sent s1 = sent s"
    and t: "turn cb (Recv nb) l s = (Inr l1, l1, snd (tftp_send_ack N (int k) s1))"
    by (rule data_turn [OF _ repeated.hyps(1) n]) auto
  define s2 where "s2 = snd (tftp_send_ack N (int k) s1)"
  have "map snd (sent s2) = map snd (sent s) @ [ack_packet k]" by (simp add: s2_def ack_sent [OF n] 1(3))
  moreover have "progress cb a m0 r0 content k l1 s2" "retries l1 = r" using progress_sent [OF 1(1)] 1(2) repeated.prems(2) by (simp_all add: s2_def)
  ultimately show ?case
    using repeated.IH [of l1 s2] t [folded s2_def] acks_due_data [OF repeated.hyps(1) n]
    by (auto simp del: acks_due.simps(2) upt_Suc intro!: exI [of _ "Recv nb # _"])
next
  case (timeout r k evs)
  obtain l1 s1 where s1: "turn cb (Recv_err ERR_TIMEOUT) l s = (Inr l1, l1, s1)" "progress cb a m0 r0 content k l1 s1" "retries l1 = r - 1"
    "map snd (sent s1) = map snd (sent s) @ [ack_packet k]"
    by (rule timeout_turn [OF timeout.prems(1)]) (use timeout in auto)
  then show ?case using timeout.IH [OF s1(2,3)]
    by (auto simp del: upt_Suc intro!: exI [of _ "Recv_err ERR_TIMEOUT # _"])
qed

lemma receive_data_done:
  assumes "transfer content tail 0 TFTP_TIMEOUT_RETRANSMITS evs"
  shows "\<exists>s' pre. tftp_receive_data h R c N stk a (u32 (a + MAX_IMAGE_SIZE)) peer cb evs s = (Some ERR_OK, length content, tail, s')
    \<and> stored_part a (flash s) content (flash s')
    \<and> received s' = received s @ (if cb then map ((*) 512) [1..<Suc (length content div 512)] @ [length content] else [])
    \<and> evs = pre @ tail \<and> map snd (sent s') = map snd (sent s) @ map ack_packet (acks_due 0 pre)
    \<and> snd (last (sent s')) = ack_packet (length content div 512 + 1)"
proof -
  have "progress cb a (flash s) (received s) content 0
      \<lparr>write_offs = a, block = 1, retries = TFTP_TIMEOUT_RETRANSMITS, received_len = 0, peer_addr = peer\<rparr> s"
    using slot by (auto simp: progress_def stored_part_def intro!: exI [of _ a])
  then show ?thesis unfolding tftp_receive_data_def by (rule transfer_done [OF assms]) simp
qed

end

lemma stored_part_read: "stored_part a m0 bs m \<Longrightarrow> mem_read m a (length bs) = bs"
  by (auto simp: stored_part_def mem_read_mem_put)

lemma stored_part_frame: "stored_part a m0 bs m \<Longrightarrow> x < a \<or> a + MAX_IMAGE_SIZE \<le> x \<Longrightarrow> m x = m0 x"
  by (auto simp: stored_part_def mem_put_def nor_erase_apply)

text \<open>A valid image in a slot that starts at a sector is what the locale asks for.\<close>

lemma ota_slot_image:
  assumes "rboot_flash R h c" "\<forall>x. N x = ERR_OK" "a mod 4096 = 0" "a + MAX_IMAGE_SIZE \<le> chip_size c"
    and "image_ok img" "checksum img = image_checksum h img" "length (image_bytes img) + 16 < MAX_IMAGE_SIZE"
  shows "ota_slot R h c N stk a (image_bytes img)"
proof -
  have "a mod 16 = 0" using assms(3) mod_mod_cancel [of 16 4096 a] by simp
  then have "rboot_verify_image h R c stk a m = (None, length (image_bytes img))"
    if "mem_read m a (length (image_bytes img)) = image_bytes img" for m
    using rboot_flash.verify_image_ok [OF assms(1,5) that, of stk] assms(4,6,7) by simp
  then show ?thesis using assms by (intro ota_slot.intro ota_slot_axioms.intro) auto
qed

section \<open>Requests\<close>

lemma get_field_loop_skip:
  "0 \<notin> set xs \<Longrightarrow> 0 \<le> f \<Longrightarrow>
    get_field_loop (xs @ 0 # ys) f o1 o2 n
      = get_field_loop ys (f - 1) (o1 + length xs + 1) (if f - 1 = 0 then o1 + length xs + 1 else o2) (if f = 0 then n + length xs + 1 else n)"
  by (induction xs arbitrary: o1 n) (auto simp: Let_def)

lemma get_field_loop_stop: "get_field_loop ys (- 1) o1 o2 n = (- 1, o2, n)"
  by (cases ys) simp_all

lemma get_fields:
  assumes "netbuf_bytes nb = op @ name @ [0] @ mode @ [0]" "length op = 2" "0 \<notin> set name" "0 \<notin> set mode"
  shows "tftp_get_field 0 nb = Some (name @ [0])" "tftp_get_field 1 nb = Some (mode @ [0])" "tftp_get_field 2 nb = None"
proof -
  have loop: "get_field_loop (name @ 0 # mode @ 0 # []) 0 2 2 0 = (- 1, 2, length name + 1)"
    "get_field_loop (name @ 0 # mode @ 0 # []) 1 2 2 0 = (- 1, length name + 3, length mode + 1)"
    "fst (get_field_loop (name @ 0 # mode @ 0 # []) 2 2 2 0) = 0"
    using assms(3,4) by (simp_all add: get_field_loop_skip get_field_loop_stop)
  show "tftp_get_field 0 nb = Some (name @ [0])" "tftp_get_field 1 nb = Some (mode @ [0])" "tftp_get_field 2 nb = None"
    using assms(1,2) loop
    by (auto simp: tftp_get_field_def netbuf_copy_partial_def set_bytes_def split: prod.splits)
qed

lemma wrq_accepted:
  assumes "netbuf_ok nb" "netbuf_bytes nb = be16 TFTP_OP_WRQ @ TFTP_FIRMWARE_FILE @ [0] @ TFTP_OCTET_MODE @ [0]"
  shows "wrq_refusal N stk nb s = None"
proof -
  have z: "0 \<notin> set TFTP_FIRMWARE_FILE" "0 \<notin> set TFTP_OCTET_MODE"
    by (simp_all add: TFTP_FIRMWARE_FILE_def TFTP_OCTET_MODE_def str_bytes_def)
  have "length (netbuf_bytes nb) = 21" by (simp add: assms(2) TFTP_FIRMWARE_FILE_def TFTP_OCTET_MODE_def str_bytes_def)
  then have "netbuf_len nb = 21" using netbuf_bytes_length [OF assms(1)] by (simp add: netbuf_len_def)
  moreover have "netbuf_read_u16_n stk nb 0 = TFTP_OP_WRQ"
    by (simp add: netbuf_read_u16_n_def netbuf_copy_partial_def set_bytes_def assms(2) rd_be16_be16 TFTP_OP_WRQ_def)
  ultimately show ?thesis using get_fields [OF assms(2) _ z] by (simp add: wrq_refusal_def)
qed

section \<open>The server\<close>

context rboot_flash
begin

lemma config_kept:
  assumes "stored_part a m0 bs m" "a + MAX_IMAGE_SIZE \<le> config_at h \<or> config_at h + 4096 \<le> a"
  shows "rboot_get_config h R c stk m = rboot_get_config h R c stk m0"
  unfolding get_config_ok
  using assms(2) config_size by (intro mem_read_cong stored_part_frame [OF assms(1)]) auto

lemma select_keeps_slot:
  assumes "rom < mem_read m (config_at h) (sizeof_rboot_config h) ! at_count h"
    and "a + MAX_IMAGE_SIZE \<le> config_at h \<or> config_at h + 4096 \<le> a" "n \<le> MAX_IMAGE_SIZE"
  shows "rboot_get_current_rom h R c stk (snd (rboot_set_current_rom h R c (Some buf) stk rom m)) = rom"
    and "mem_read (snd (rboot_set_current_rom h R c (Some buf) stk rom m)) a n = mem_read m a n"
    and "x < config_at h \<or> config_at h + 4096 \<le> x \<Longrightarrow> snd (rboot_set_current_rom h R c (Some buf) stk rom m) x = m x"
  using assms(2,3) config_size config_fields
  by (auto simp: set_current_rom_ok [OF assms(1)] rboot_get_current_rom_def get_config_ok intro!: mem_read_cong)

end

section \<open>Only verified images are accepted\<close>

lemma receive_block_verified:
  assumes "tftp_receive_block h R c N stk a lim cb nb l s = (Inl ERR_OK, l', s')"
  shows "rboot_verify_image h R c stk a (flash s') = (None, received_len l')"
  using assms
  by (auto simp: tftp_receive_block_def tftp_send_ack_def netconn_send_def Let_def split: prod.splits if_splits)

lemma receive_turn_verified:
  assumes "tftp_receive_turn h R c N stk a lim cb ev l s = (Inl ERR_OK, l', s')" "ev \<noteq> Recv_err ERR_OK"
  shows "rboot_verify_image h R c stk a (flash s') = (None, received_len l')"
  using assms receive_block_verified
  by (auto simp: tftp_receive_turn_def Let_def split: recv.splits err_t.splits option.splits if_splits)

lemma receive_loop_verified:
  assumes "tftp_receive_loop h R c N stk a lim cb evs l s = (Some ERR_OK, n, evs', s')" "Recv_err ERR_OK \<notin> set evs"
  shows "rboot_verify_image h R c stk a (flash s') = (None, n)"
  using assms
proof (induction evs arbitrary: l s)
  case (Cons ev evs)
  then show ?case using receive_turn_verified [of h R c N stk a lim cb ev l s] by (auto split: prod.splits sum.splits)
qed simp

section \<open>Properties\<close>

text \<open>
  C11. A transfer of a valid image to a slot that starts at a sector, over a network that takes every
  packet, succeeds and stores it: whatever blocks are repeated and however often the line times out
  after the first block, as long as each block arrives within ten retransmissions, the slot holds
  exactly the image, nothing outside the slot changes and every block is reported once. Each packet
  that comes in is acknowledged at once with its block number and each timeout with the number of the
  last block, in this order, and nothing else is sent; the last of these acknowledges the last block.
\<close>

theorem transfer_stores_image:
  assumes "rboot_flash R h c" "\<forall>x. N x = ERR_OK" "a mod 4096 = 0" "a + MAX_IMAGE_SIZE \<le> chip_size c"
    and "image_ok img" "checksum img = image_checksum h img" "length (image_bytes img) + 16 < MAX_IMAGE_SIZE"
    and "transfer (image_bytes img) tail 0 TFTP_TIMEOUT_RETRANSMITS evs"
  shows "\<exists>s' pre. tftp_receive_data h R c N stk a (u32 (a + MAX_IMAGE_SIZE)) peer True evs s
      = (Some ERR_OK, length (image_bytes img), tail, s')
    \<and> mem_read (flash s') a (length (image_bytes img)) = image_bytes img
    \<and> (\<forall>x. x < a \<or> a + MAX_IMAGE_SIZE \<le> x \<longrightarrow> flash s' x = flash s x)
    \<and> received s' = received s @ map ((*) 512) [1..<Suc (length (image_bytes img) div 512)] @ [length (image_bytes img)]
    \<and> evs = pre @ tail \<and> map snd (sent s') = map snd (sent s) @ map ack_packet (acks_due 0 pre)
    \<and> snd (last (sent s')) = ack_packet (length (image_bytes img) div 512 + 1)"
proof -
  from ota_slot.receive_data_done [OF ota_slot_image [OF assms(1-7)] assms(8), of stk peer True s]
  show ?thesis using stored_part_read stored_part_frame by (auto simp del: upt_Suc)
qed

text \<open>
  C12. The reception reports success only for an image that passes the check in the flash as it is
  left, with exactly the length that was received; this holds for every sequence of packets and
  errors and every behaviour of the flash and the network.
\<close>

theorem accepted_image_is_verified:
  assumes "tftp_receive_data h R c N stk a lim peer cb evs s = (Some ERR_OK, n, evs', s')" "Recv_err ERR_OK \<notin> set evs"
  shows "rboot_verify_image h R c stk a (flash s') = (None, n)"
  using receive_loop_verified assms unfolding tftp_receive_data_def by blast

text \<open>
  The fields of a request are found again: of the request a client sends for a file, the
  server reads the file name and the mode, with their terminators, and no third field.
\<close>

theorem request_fields_roundtrip:
  assumes "netbuf_bytes nb = snd (last (sent (snd (tftp_send_rrq N name s))))" "0 \<notin> set name"
  shows "tftp_get_field 0 nb = Some (name @ [0]) \<and> tftp_get_field 1 nb = Some (TFTP_OCTET_MODE @ [0]) \<and> tftp_get_field 2 nb = None"
proof -
  have "0 \<notin> set TFTP_OCTET_MODE" by (simp add: TFTP_OCTET_MODE_def str_bytes_def)
  then show ?thesis
    using assms get_fields [of nb "be16 TFTP_OP_RRQ" name TFTP_OCTET_MODE] by (simp add: tftp_send_rrq_def netconn_send_def)
qed

text \<open>
  C10. The whole update: a write request for the firmware file followed by the transfer of a valid
  image makes the server store the image in the slot after the current one, select this slot and
  restart; apart from the slot and the sector of the configuration the flash is unchanged.
\<close>

theorem server_installs_image:
  assumes "rboot_flash R h c" "\<forall>x. N x = ERR_OK" "netbuf_ok nb"
    "netbuf_bytes nb = be16 TFTP_OP_WRQ @ TFTP_FIRMWARE_FILE @ [0] @ TFTP_OCTET_MODE @ [0]"
    and conf: "conf = rboot_get_config h R c stk (flash s)" "cur = unat (conf ! at_current_rom h)" "count = unat (conf ! at_count h)"
      "slot = (cur + 1) mod count" "slot \<noteq> cur" "0 < count" "a = rd32 conf (at_roms h + 4 * slot)"
    and place: "a mod 4096 = 0" "a + MAX_IMAGE_SIZE \<le> chip_size c" "a + MAX_IMAGE_SIZE \<le> config_at h \<or> config_at h + 4096 \<le> a"
    and img: "image_ok img" "checksum img = image_checksum h img" "length (image_bytes img) + 16 < MAX_IMAGE_SIZE"
    and evs: "transfer (image_bytes img) tail 0 TFTP_TIMEOUT_RETRANSMITS evs"
  shows "\<exists>s'. tftp_task h R c N stk (Some buf) (Recv nb # evs) s = (Restarted, s')
    \<and> mem_read (flash s') a (length (image_bytes img)) = image_bytes img
    \<and> unat (rboot_get_current_rom h R c stk (flash s')) = slot
    \<and> (\<forall>x. (x < a \<or> a + MAX_IMAGE_SIZE \<le> x) \<and> (x < config_at h \<or> config_at h + 4096 \<le> x) \<longrightarrow> flash s' x = flash s x)"
proof -
  define s1 where "s1 = snd (tftp_send_ack N 0 (s\<lparr>conn := Some (from_peer nb)\<rparr>))"
  have ack: "tftp_send_ack N 0 (s\<lparr>conn := Some (from_peer nb)\<rparr>) = (ERR_OK, s1)" "flash s1 = flash s"
    using assms(2) by (simp_all add: s1_def tftp_send_ack_def netconn_send_def)
  obtain s2 where recv: "tftp_receive_data h R c N stk a (u32 (a + MAX_IMAGE_SIZE)) None False evs s1 = (Some ERR_OK, length (image_bytes img), tail, s2)"
    and part: "stored_part a (flash s) (image_bytes img) (flash s2)"
    using ota_slot.receive_data_done [OF ota_slot_image [OF assms(1,2) place(1,2) img] evs, of stk None False s1] ack(2) by auto
  define s' where "s' = s2\<lparr>conn := None, flash := snd (rboot_set_current_rom h R c (Some buf) stk (word_of_nat slot) (flash s2))\<rparr>"
  have "tftp_serve h R c N stk (Some buf) nb evs s = (Some Restarted, tail, s')"
    using conf ack(1) recv by (simp add: tftp_serve_def Let_def s'_def)
  then have task: "tftp_task h R c N stk (Some buf) (Recv nb # evs) s = (Restarted, s')"
    using wrq_accepted [OF assms(3,4)] by (simp add: tftp_task.simps)
  have slot: "slot < count" "count < 256" using conf(3,4,6) by simp_all
  have rom: "(word_of_nat slot :: byte) < mem_read (flash s2) (config_at h) (sizeof_rboot_config h) ! at_count h"
    using slot conf(1,3) rboot_flash.config_kept [OF assms(1) part place(3), of stk]
    by (simp add: rboot_flash.get_config_ok [OF assms(1)] word_less_nat_alt unat_word8_of_nat)
  note sel = rboot_flash.select_keeps_slot [OF assms(1) rom place(3)]
  have "mem_read (flash s') a (length (image_bytes img)) = image_bytes img"
    using sel(2) [of "length (image_bytes img)" buf] img(3) stored_part_read [OF part] by (simp add: s'_def)
  moreover have "unat (rboot_get_current_rom h R c stk (flash s')) = slot"
    using sel(1) [of 0 stk buf] slot by (simp add: s'_def unat_word8_of_nat)
  moreover have "flash s' x = flash s x" if "x < a \<or> a + MAX_IMAGE_SIZE \<le> x" "x < config_at h \<or> config_at h + 4096 \<le> x" for x
    using sel(3) [of 0 x] that stored_part_frame [OF part] by (simp add: s'_def)
  ultimately show ?thesis using task by blast
qed

section \<open>An update\<close>

text \<open>One packet in a single, unaligned segment.\<close>

definition packet :: "byte list \<Rightarrow> netbuf" where
  "packet bs = \<lparr>segments = [\<lparr>seg_addr = 2, seg_len = length bs, seg_mem = bs\<rparr>], from_peer = (1, 69)\<rparr>"

lemma packet_bytes [simp]: "netbuf_bytes (packet bs) = bs" "netbuf_ok (packet bs)"
  by (simp_all add: packet_def netbuf_bytes_def netbuf_ok_def)

definition small_events :: "recv list" where
  "small_events = [Recv (packet (be16 TFTP_OP_DATA @ be16 1 @ image_bytes small_image))]"

lemma small_transfer: "transfer (image_bytes small_image) [] 0 TFTP_TIMEOUT_RETRANSMITS small_events"
  unfolding small_events_def
  by (rule transfer.last_block) (simp_all add: data_packet_def, simp_all add: packet_def segment_ok_def small_image_ok)

text \<open>A chip whose configuration has two slots, at 0x2000 and 0x102000, the first one current.\<close>

definition two_slots :: "byte list" where
  "two_slots = [0xe1, 1, 0, 0, 0, 2, 0, 0] @ le32 0x2000 @ le32 0x102000 @ replicate 12 0"

definition start_state :: ota_state where
  "start_state = \<lparr>flash = mem_put 4096 two_slots (\<lambda>_. 255), conn = None, sent = [], received = []\<rparr>"

interpretation small: ota_slot spi_rom rboot_layout sdk_flashchip_init "\<lambda>_. ERR_OK" "[]" "0x102000" "image_bytes small_image"
  by (rule ota_slot_image [OF rboot_flash_spi]) (simp_all add: small_image_ok, simp_all add: MAX_IMAGE_SIZE_def)

lemma start_config: "rboot_get_config rboot_layout spi_rom sdk_flashchip_init [] (flash start_state) = two_slots"
proof -
  have "length two_slots = 28" by (simp add: two_slots_def)
  then show ?thesis
    unfolding boot.get_config_ok by (simp add: config_at_def start_state_def rboot_layout_def mem_read_mem_put)
qed

theorem transfer_stores_image_witness:
  "\<exists>s'. tftp_receive_data rboot_layout spi_rom sdk_flashchip_init (\<lambda>_. ERR_OK) [] 0x102000 (u32 (0x102000 + MAX_IMAGE_SIZE)) None True
      small_events start_state = (Some ERR_OK, 64, [], s') \<and> mem_read (flash s') 0x102000 64 = image_bytes small_image"
  using transfer_stores_image [OF rboot_flash_spi, of "\<lambda>_. ERR_OK" "0x102000" small_image "[]" small_events "[]" None start_state]
    small_transfer
  by (simp add: small_image_ok MAX_IMAGE_SIZE_def) blast

theorem accepted_image_is_verified_witness:
  "\<exists>s'. tftp_receive_data rboot_layout spi_rom sdk_flashchip_init (\<lambda>_. ERR_OK) [] 0x102000 (u32 (0x102000 + MAX_IMAGE_SIZE)) None True
      small_events start_state = (Some ERR_OK, 64, [], s')
    \<and> rboot_verify_image rboot_layout spi_rom sdk_flashchip_init [] 0x102000 (flash s') = (None, 64)"
proof -
  obtain s' where s': "tftp_receive_data rboot_layout spi_rom sdk_flashchip_init (\<lambda>_. ERR_OK) [] 0x102000 (u32 (0x102000 + MAX_IMAGE_SIZE)) None True
      small_events start_state = (Some ERR_OK, 64, [], s')"
    using small.receive_data_done [OF small_transfer, of None True start_state] by (auto simp: small_image_ok)
  moreover have "Recv_err ERR_OK \<notin> set small_events" by (simp add: small_events_def)
  ultimately show ?thesis using accepted_image_is_verified [OF s'] by blast
qed

theorem request_fields_roundtrip_witness:
  "tftp_get_field 0 (packet (be16 TFTP_OP_RRQ @ TFTP_FIRMWARE_FILE @ [0] @ TFTP_OCTET_MODE @ [0])) = Some (TFTP_FIRMWARE_FILE @ [0])"
  using request_fields_roundtrip [of "packet (be16 TFTP_OP_RRQ @ TFTP_FIRMWARE_FILE @ [0] @ TFTP_OCTET_MODE @ [0])" "\<lambda>_. ERR_OK"
      TFTP_FIRMWARE_FILE start_state]
  by (simp add: tftp_send_rrq_def netconn_send_def) (simp add: TFTP_FIRMWARE_FILE_def str_bytes_def)

theorem server_installs_image_witness:
  "\<exists>s'. tftp_task rboot_layout spi_rom sdk_flashchip_init (\<lambda>_. ERR_OK) [] (Some [])
      (Recv (packet (be16 TFTP_OP_WRQ @ TFTP_FIRMWARE_FILE @ [0] @ TFTP_OCTET_MODE @ [0])) # small_events) start_state = (Restarted, s')
    \<and> unat (rboot_get_current_rom rboot_layout spi_rom sdk_flashchip_init [] (flash s')) = 1"
proof -
  have conf: "unat (two_slots ! at_current_rom rboot_layout) = 0" "unat (two_slots ! at_count rboot_layout) = 2"
    "rd32 two_slots (at_roms rboot_layout + 4 * 1) = 0x102000"
    by (simp_all add: two_slots_def rboot_layout_def le32_def rd32_def)
  have place: "config_at rboot_layout = 4096" by (simp add: config_at_def rboot_layout_def)
  show ?thesis
    using server_installs_image [OF rboot_flash_spi, of "\<lambda>_. ERR_OK" "packet (be16 TFTP_OP_WRQ @ TFTP_FIRMWARE_FILE @ [0] @ TFTP_OCTET_MODE @ [0])"
        two_slots "[]" start_state 0 2 1 "0x102000" small_image "[]" small_events "[]"] small_transfer conf start_config place
    by (simp add: small_image_ok MAX_IMAGE_SIZE_def) blast
qed

end
