(* ===== verification/Http_client.thy ===== *)
theory Http_client
  imports Prelude "HOL-Library.Monad_Syntax"
begin

text \<open>
  The buffered HTTP client \<open>src/extras/http_client_ota/http_buffered_client.c\<close>. The network is an argument: whether
  the name is resolved, the connection made and the request sent, and what the socket returns for the request.
  \<open>None\<close> is undefined behaviour: an access outside the buffer or the request. \<open>http_reponse\<close> is a static variable
  and passed along. Strings are lists of bytes without the terminating zero.
\<close>

section \<open>Codes\<close>

definition HTTP_DNS_LOOKUP_FALLIED :: nat where "HTTP_DNS_LOOKUP_FALLIED = 1"
definition HTTP_SOCKET_ALLOCATION_FALLIED :: nat where "HTTP_SOCKET_ALLOCATION_FALLIED = 2"
definition HTTP_SOCKET_CONNECTION_FALLIED :: nat where "HTTP_SOCKET_CONNECTION_FALLIED = 3"
definition HTTP_SHA_DONT_MATCH :: nat where "HTTP_SHA_DONT_MATCH = 4"
definition HTTP_REQUEST_SEND_FALLIED :: nat where "HTTP_REQUEST_SEND_FALLIED = 5"
definition HTTP_DOWLOAD_SIZE_NOT_MATCH :: nat where "HTTP_DOWLOAD_SIZE_NOT_MATCH = 6"
definition HTTP_OK :: nat where "HTTP_OK = 200"

definition chars :: "string \<Rightarrow> byte list" where
  "chars s = map (\<lambda>c. of_char c) s"

record HTTP_response =
  response_code :: nat
  body_length :: nat

section \<open>Numbers in a header\<close>

definition isdigit :: "byte \<Rightarrow> bool" where
  "isdigit x \<longleftrightarrow> 48 \<le> x \<and> x \<le> 57"

text \<open>\<open>strtol\<close> of decimal digits; \<open>long\<close> has 32 bits.\<close>

definition strtol10 :: "byte list \<Rightarrow> nat" where
  "strtol10 ds = min (foldl (\<lambda>n d. 10 * n + (unat d - 48)) 0 ds) (2 ^ 31 - 1)"

text \<open>The loop over a string that stores every number it finds.\<close>

function scan_numbers :: "byte list \<Rightarrow> nat \<Rightarrow> nat" where
  "scan_numbers [] v = v"
| "scan_numbers (x # xs) v =
     (if isdigit x then scan_numbers (dropWhile isdigit xs) (strtol10 (x # takeWhile isdigit xs)) else scan_numbers xs v)"
  by pat_completeness auto

termination
  by (relation "measure (\<lambda>(xs, v). length xs)") (auto simp: less_Suc_eq_le length_dropWhile_le)

text \<open>The string that starts at a place in memory.\<close>

definition cstring :: "byte list \<Rightarrow> byte list" where
  "cstring mem = takeWhile (\<lambda>x. x \<noteq> 0) mem"

definition http_handle_cb_ContentLength :: "byte list \<Rightarrow> HTTP_response \<Rightarrow> HTTP_response" where
  "http_handle_cb_ContentLength token r = r\<lparr>body_length := scan_numbers (cstring (drop 16 token)) (body_length r)\<rparr>"

definition parse_http_header_HTTP_STATUS :: "byte list \<Rightarrow> HTTP_response \<Rightarrow> HTTP_response" where
  "parse_http_header_HTTP_STATUS token r = r\<lparr>response_code := scan_numbers (cstring (drop 8 token)) (response_code r)\<rparr>"

section \<open>The header\<close>

definition line_split :: "byte \<Rightarrow> bool" where
  "line_split x \<longleftrightarrow> x = 13 \<or> x = 10"

text \<open>
  A token of the outer \<open>strtok_r\<close> with the memory behind it, in which the inner one has overwritten the colon
  behind the name. The name is empty when the inner call finds no token.
\<close>

definition sub_token :: "byte list \<Rightarrow> byte list" where
  "sub_token tok = takeWhile (\<lambda>x. x \<noteq> 58) (dropWhile (\<lambda>x. x = 58) tok)"

definition cut_token :: "byte list \<Rightarrow> byte list \<Rightarrow> byte list" where
  "cut_token tok behind =
     (tok @ 0 # behind)[length (takeWhile (\<lambda>x. x = 58) tok) + length (sub_token tok) := 0]"

text \<open>\<open>mem\<close> is the memory from the place where \<open>strtok_r\<close> goes on, up to the terminating zero; \<open>first\<close> is \<open>j == 1\<close>.\<close>

function parse_lines :: "bool \<Rightarrow> byte list \<Rightarrow> HTTP_response \<Rightarrow> HTTP_response" where
  "parse_lines first mem r =
     (let xs = dropWhile line_split mem;
          tok = takeWhile (\<lambda>x. x \<noteq> 0 \<and> \<not> line_split x) xs;
          after = drop (length tok) xs;
          token = cut_token tok (tl after)
      in if tok = [] then r
         else if sub_token tok = [] then r
         else let r1 = (if first then parse_http_header_HTTP_STATUS token r
                        else if sub_token tok = chars ''Content-Length'' then http_handle_cb_ContentLength token r else r)
              in if after = [] \<or> hd after = 0 then r1 else parse_lines False (tl after) r1)"
  by pat_completeness auto

termination
proof (relation "measure (\<lambda>(first, mem, r). length mem)", goal_cases)
  case (2 first mem r xs tok after token r1)
  have "length after \<le> length xs" "length xs \<le> length mem" unfolding 2(1,3) by (simp_all add: length_dropWhile_le)
  then show ?case using 2(8) by (cases after) auto
qed simp

declare parse_lines.simps [simp del]

definition parse_http_header :: "byte list \<Rightarrow> HTTP_response \<Rightarrow> HTTP_response" where
  "parse_http_header header r = parse_lines True header r"

section \<open>The download\<close>

datatype read_result = Data "byte list" | Fail

record http_net =
  resolved :: bool
  socket_ok :: bool
  connected :: bool
  sent_ok :: bool
  answer :: "byte list \<Rightarrow> read_result list"

text \<open>
  \<open>read\<close>: the bytes and the result; data that does not fit stays in the socket. At the end of the list the
  connection is closed.
\<close>

fun read_socket :: "nat \<Rightarrow> read_result list \<Rightarrow> byte list \<times> int \<times> read_result list" where
  "read_socket n [] = ([], 0, [])"
| "read_socket n (Fail # evs) = ([], - 1, evs)"
| "read_socket n (Data bs # evs) =
     (if length bs \<le> n then (bs, int (length bs), evs) else (take n bs, int n, Data (drop n bs) # evs))"

text \<open>
  \<open>strstr\<close> for the empty line, \<open>Some None\<close> when the string ends before; \<open>None\<close> when it leaves the buffer.
\<close>

fun strstr_end :: "byte list \<Rightarrow> nat \<Rightarrow> nat option option" where
  "strstr_end [] i = None"
| "strstr_end (x # xs) i =
     (if take 4 (x # xs) = [13, 10, 13, 10] then Some (Some i) else if x = 0 then Some None else strstr_end xs (i + 1))"

text \<open>A function the client calls with the buffer, the size and the state of the caller.\<close>

type_synonym 's http_cb = "byte list \<Rightarrow> nat \<Rightarrow> 's \<Rightarrow> 's option"

record 's download =
  dl_buffer :: "byte list"
  wrt_ptr :: int
  full :: nat
  tot_http_pdu_rd :: nat
  http_reponse :: HTTP_response
  cb_state :: 's

definition add_read :: "nat \<Rightarrow> int \<Rightarrow> nat" where
  "add_read n r = nat ((int n + r) mod 2 ^ 32)"

text \<open>The first chunk with the header. \<open>Inl\<close> leaves for the label \<open>err_label\<close>.\<close>

definition take_header :: "nat \<Rightarrow> 's download \<Rightarrow> ('s download + 's download) option" where
  "take_header header_end d =
     (let pdu = header_end + 4;
          header_len = pdu + 4
      in if header_len > length (dl_buffer d) \<or> wrt_ptr d < int pdu then None
         else
           let r = parse_http_header (take header_len (dl_buffer d)) (http_reponse d);
               pdu_size = nat (wrt_ptr d) - pdu;
               d1 = d\<lparr>dl_buffer := take pdu_size (drop pdu (dl_buffer d)) @ drop pdu_size (dl_buffer d), wrt_ptr := int pdu_size,
                      full := pdu_size, tot_http_pdu_rd := pdu_size, http_reponse := r\<rparr>
           in Some (if response_code r \<noteq> HTTP_OK then Inl d1 else Inr d1))"

text \<open>What follows a read of \<open>bs\<close> with the result \<open>n\<close>.\<close>

definition after_read :: "nat \<Rightarrow> 's http_cb \<Rightarrow> byte list \<Rightarrow> int \<Rightarrow> 's download \<Rightarrow> ('s download + 's download) option" where
  "after_read buffer_size buffer_full_cb bs n d =
     (let d1 = d\<lparr>dl_buffer := take (full d) (dl_buffer d) @ bs @ drop (full d + length bs) (dl_buffer d),
                 wrt_ptr := wrt_ptr d + n, full := add_read (full d) n\<rparr>
      in if tot_http_pdu_rd d1 = 0
         then (case strstr_end (dl_buffer d1) 0 of
                 None \<Rightarrow> None
               | Some None \<Rightarrow> Some (Inr d1)
               | Some (Some header_end) \<Rightarrow> take_header header_end d1)
         else
           let d2 = d1\<lparr>tot_http_pdu_rd := add_read (tot_http_pdu_rd d1) n\<rparr>
           in if full d2 = buffer_size
              then do {
                s \<leftarrow> buffer_full_cb (dl_buffer d2) (u16 (full d2)) (cb_state d2);
                Some (Inr (d2\<lparr>cb_state := s, dl_buffer := replicate buffer_size 0, wrt_ptr := 0, full := 0\<rparr>))
              }
              else Some (Inr d2))"

text \<open>The bytes that are left in the socket.\<close>

fun pending :: "read_result list \<Rightarrow> nat" where
  "pending [] = 0"
| "pending (Fail # evs) = pending evs"
| "pending (Data bs # evs) = length bs + pending evs"

lemma read_pending: "read_socket k evs = (bs, n, evs1) \<Longrightarrow> 0 < n \<Longrightarrow> pending evs1 < pending evs"
  by (cases "(k, evs)" rule: read_socket.cases) (auto split: if_splits)

function download_loop :: "nat \<Rightarrow> 's http_cb \<Rightarrow> read_result list \<Rightarrow> 's download \<Rightarrow> ('s download + 's download) option" where
  "download_loop buffer_size buffer_full_cb evs d =
     (case read_socket (buffer_size - full d) evs of
        (bs, n, evs1) \<Rightarrow>
          (case after_read buffer_size buffer_full_cb bs n d of
             None \<Rightarrow> None
           | Some (Inl d1) \<Rightarrow> Some (Inl d1)
           | Some (Inr d1) \<Rightarrow> if n > 0 then download_loop buffer_size buffer_full_cb evs1 d1 else Some (Inr d1)))"
  by pat_completeness auto

termination
  by (relation "measure (\<lambda>(buffer_size, cb, evs, d). pending evs)") (auto dest: read_pending [OF sym])

declare download_loop.simps [simp del]

text \<open>The request; \<open>sprintf\<close> writes it and its terminating zero to 152 bytes.\<close>

definition http_request :: "byte list \<Rightarrow> byte list \<Rightarrow> byte list" where
  "http_request path server =
     chars ''GET '' @ path @ chars '' HTTP/1.1'' @ [13, 10] @ chars ''Host: '' @ server @ chars '' '' @ [13, 10]
     @ chars ''User-Agent: esp-open-rtos/0.1 esp8266'' @ [13, 10] @ chars ''Connection: close'' @ [13, 10] @ [13, 10]"

definition MAX_REQUEST_SIZE :: nat where "MAX_REQUEST_SIZE = 152 div 4"

record Http_client_info =
  server :: "byte list"
  path :: "byte list"
  info_buffer :: "byte list"
  buffer_size :: nat

text \<open>The result, the contents of the buffer, the static response and the state of the functions that were called.\<close>

definition HttpClient_dowload :: "http_net \<Rightarrow> Http_client_info \<Rightarrow> 's http_cb \<Rightarrow> 's http_cb \<Rightarrow> HTTP_response \<Rightarrow> 's
    \<Rightarrow> (nat \<times> byte list \<times> HTTP_response \<times> 's) option" where
  "HttpClient_dowload N info buffer_full_cb final_cb r s =
     (let err = (\<lambda>code. Some (code, info_buffer info, r, s)) in
      if \<not> resolved N then err HTTP_DNS_LOOKUP_FALLIED
      else if \<not> socket_ok N then err HTTP_SOCKET_ALLOCATION_FALLIED
      else if \<not> connected N then err HTTP_SOCKET_CONNECTION_FALLIED
      else
        let request = http_request (path info) (server info)
        in if length request + 1 > 4 * MAX_REQUEST_SIZE then None
           else if \<not> sent_ok N then err HTTP_REQUEST_SEND_FALLIED
           else
             (case download_loop (buffer_size info) buffer_full_cb (answer N request)
                     \<lparr>dl_buffer = info_buffer info, wrt_ptr = 0, full = 0, tot_http_pdu_rd = 0, http_reponse = r, cb_state = s\<rparr> of
                None \<Rightarrow> None
              | Some (Inl d) \<Rightarrow> Some (response_code (http_reponse d), dl_buffer d, http_reponse d, cb_state d)
              | Some (Inr d) \<Rightarrow>
                  do {
                    s1 \<leftarrow> final_cb (dl_buffer d) (u16 (full d)) (cb_state d);
                    let r1 = (if tot_http_pdu_rd d \<noteq> body_length (http_reponse d)
                              then (http_reponse d)\<lparr>response_code := HTTP_DOWLOAD_SIZE_NOT_MATCH\<rparr> else http_reponse d);
                    Some (response_code r1, dl_buffer d, r1, s1)
                  }))"

end
