(* ===== verification/Http_ota.thy ===== *)
theory Http_ota
  imports Http_client Rboot
begin

text \<open>
  The firmware update over HTTP, \<open>src/extras/http_client_ota/http_client_ota.c\<close>: a file with the SHA-256 sum of the
  image and the image itself are downloaded, the image is written to the next slot while it arrives, checked and
  selected. The functions of mbedtls are the parameter \<open>H\<close>; the static variables are a record. Allocations succeed
  and return aligned memory; their initial contents are arguments.
\<close>

section \<open>Constants and state\<close>

definition OTA_ONE_SLOT_ONLY :: nat where "OTA_ONE_SLOT_ONLY = 20"
definition OTA_FAIL_SET_NEW_SLOT :: nat where "OTA_FAIL_SET_NEW_SLOT = 21"
definition OTA_IMAGE_VERIFY_FALLIED :: nat where "OTA_IMAGE_VERIFY_FALLIED = 22"
definition OTA_UPDATE_DONE :: nat where "OTA_UPDATE_DONE = 23"

definition OTA_MAX_IMAGE_SIZE :: nat where "OTA_MAX_IMAGE_SIZE = 0x100000"
definition SHA256_SIZE_STR :: nat where "SHA256_SIZE_STR = 64"

record 'c sha256 =
  sha256_starts :: 'c
  sha256_update :: "byte list \<Rightarrow> 'c \<Rightarrow> 'c"
  sha256_finish :: "'c \<Rightarrow> byte list"

record 'c http_ota =
  ota_flash :: memory
  flash_offset :: nat
  flash_limits :: nat
  sha256_ctx :: "'c option"
  SHA256_str :: "byte list"
  SHA256_wrt :: nat

section \<open>The functions the client calls\<close>

text \<open>\<open>sha256_ctx\<close> is \<open>None\<close> when no sum was asked for. The result is ignored by the client and left out.\<close>

definition ota_firmaware_dowload_callback :: "rboot_h \<Rightarrow> rom_flash \<Rightarrow> sdk_flashchip \<Rightarrow> 'c sha256 \<Rightarrow> 'c http_ota http_cb" where
  "ota_firmaware_dowload_callback h R chip H buf sz s =
     (if sz > length buf then None
      else
        let s1 = s\<lparr>sha256_ctx := map_option (sha256_update H (take sz buf)) (sha256_ctx s)\<rparr>
        in if u32 (flash_offset s1 + sz) > flash_limits s1 then Some s1
           else
             let m1 = (if flash_offset s1 mod SECTOR_SIZE h = 0
                       then snd (sdk_spi_flash_erase_sector R chip (flash_offset s1 div SECTOR_SIZE h) (ota_flash s1)) else ota_flash s1);
                 m2 = snd (sdk_spi_flash_write R chip (flash_offset s1) (Some buf) sz m1)
             in Some (s1\<lparr>ota_flash := m2, flash_offset := u32 (flash_offset s1 + sz)\<rparr>))"

definition SHA256_check_callback :: "'c http_ota http_cb" where
  "SHA256_check_callback buf sz s =
     (let n = min sz SHA256_SIZE_STR
      in if \<not> SHA256_wrt s > SHA256_SIZE_STR
         then if SHA256_wrt s + n > length (SHA256_str s) \<or> n > length buf then None
              else Some (s\<lparr>SHA256_str := take (SHA256_wrt s) (SHA256_str s) @ take n buf @ drop (SHA256_wrt s + n) (SHA256_str s),
                           SHA256_wrt := SHA256_wrt s + n\<rparr>)
         else Some s)"

section \<open>The sum in the file\<close>

definition isspace :: "byte \<Rightarrow> bool" where
  "isspace x \<longleftrightarrow> x = 32 \<or> (9 \<le> x \<and> x \<le> 13)"

definition hex_value :: "byte \<Rightarrow> nat option" where
  "hex_value x = (if 48 \<le> x \<and> x \<le> 57 then Some (unat x - 48)
     else if 97 \<le> x \<and> x \<le> 102 then Some (unat x - 87)
     else if 65 \<le> x \<and> x \<le> 70 then Some (unat x - 55) else None)"

fun hex_digits :: "byte list \<Rightarrow> nat \<Rightarrow> nat" where
  "hex_digits [] n = n"
| "hex_digits (x # xs) n = (case hex_value x of None \<Rightarrow> n | Some v \<Rightarrow> hex_digits xs (16 * n + v))"

definition skip_0x :: "byte list \<Rightarrow> byte list" where
  "skip_0x xs = (if take 2 xs = [48, 120] \<or> take 2 xs = [48, 88] then drop 2 xs else xs)"

text \<open>\<open>strtol\<close> to base 16, for strings that are too short for an overflow.\<close>

definition strtol16 :: "byte list \<Rightarrow> int" where
  "strtol16 str =
     (case dropWhile isspace str of
        [] \<Rightarrow> 0
      | x # xs \<Rightarrow>
          if x = 45 then - int (hex_digits (skip_0x xs) 0)
          else int (hex_digits (skip_0x (if x = 43 then xs else x # xs)) 0))"

text \<open>The value is stored in the order of the network.\<close>

definition sha_word :: "byte list \<Rightarrow> byte list" where
  "sha_word tmp = (let val = nat (strtol16 (cstring tmp) mod 2 ^ 16) in [word_of_nat (val div 256), word_of_nat val])"

definition convert_SHA256_Str_TO_uint32 :: "byte list \<Rightarrow> byte list" where
  "convert_SHA256_Str_TO_uint32 str = concat (map (\<lambda>i. sha_word (take 4 (drop (4 * i) str))) [0..<SHA256_SIZE_STR div 4])"

section \<open>The update\<close>

record ota_info =
  ota_server :: "byte list"
  binary_path :: "byte list"
  sha256_path :: "byte list option"

text \<open>The download of the sum, \<open>Inl\<close> the code with which the update ends.\<close>

definition fetch_sum :: "'c sha256 \<Rightarrow> http_net \<Rightarrow> ota_info \<Rightarrow> byte list \<Rightarrow> HTTP_response \<Rightarrow> 'c http_ota
    \<Rightarrow> ((nat \<times> HTTP_response \<times> 'c http_ota) + (byte list \<times> byte list \<times> HTTP_response \<times> 'c http_ota)) option" where
  "fetch_sum H N info buf r s =
     (case sha256_path info of
        None \<Rightarrow> Some (Inr ([], buf, r, s))
      | Some p \<Rightarrow>
          do {
            (err, buf1, r1, s1) \<leftarrow> HttpClient_dowload N \<lparr>server = ota_server info, path = p, info_buffer = buf, buffer_size = length buf\<rparr>
                SHA256_check_callback SHA256_check_callback r (s\<lparr>SHA256_str := replicate 64 0 @ [0], SHA256_wrt := 0\<rparr>);
            if err \<noteq> HTTP_OK then Some (Inl (err, r1, s1))
            else Some (Inr (convert_SHA256_Str_TO_uint32 (SHA256_str s1), buf1, r1, s1\<lparr>sha256_ctx := Some (sha256_starts H)\<rparr>))
          })"

text \<open>The check of the sum, of the image, and the selection of the slot.\<close>

definition finish_update :: "rboot_h \<Rightarrow> rom_flash \<Rightarrow> sdk_flashchip \<Rightarrow> 'c sha256 \<Rightarrow> byte list \<Rightarrow> byte list option \<Rightarrow> nat \<Rightarrow> nat \<Rightarrow> byte list
    \<Rightarrow> 'c http_ota \<Rightarrow> nat \<times> 'c http_ota" where
  "finish_update h R chip H stk heap slot offs SHA256_dowload s =
     (if \<exists>ctx. sha256_ctx s = Some ctx \<and> take 32 (sha256_finish H ctx) \<noteq> take 32 SHA256_dowload then (HTTP_SHA_DONT_MATCH, s)
      else if fst (rboot_verify_image h R chip stk offs (ota_flash s)) \<noteq> None then (OTA_IMAGE_VERIFY_FALLIED, s)
      else
        (case rboot_set_current_rom h R chip heap stk (word_of_nat slot) (ota_flash s) of
           (ok, m) \<Rightarrow> (if ok then OTA_UPDATE_DONE else OTA_FAIL_SET_NEW_SLOT, s\<lparr>ota_flash := m\<rparr>)))"

text \<open>
  \<open>buf\<close> is the contents of the allocated sector; \<open>N1\<close> and \<open>N2\<close> are the network during the two downloads.
\<close>

definition ota_update :: "rboot_h \<Rightarrow> rom_flash \<Rightarrow> sdk_flashchip \<Rightarrow> 'c sha256 \<Rightarrow> byte list \<Rightarrow> byte list option \<Rightarrow> http_net \<Rightarrow> http_net
    \<Rightarrow> byte list \<Rightarrow> ota_info \<Rightarrow> HTTP_response \<Rightarrow> 'c http_ota \<Rightarrow> (nat \<times> HTTP_response \<times> 'c http_ota) option" where
  "ota_update h R chip H stk heap N1 N2 buf info r s =
     (let conf = rboot_get_config h R chip stk (ota_flash s);
          current_rom = unat (conf ! at_current_rom h);
          count = unat (conf ! at_count h)
      in if count = 0 then None
         else
           let slot = (current_rom + 1) mod count
           in if slot = current_rom then Some (OTA_ONE_SLOT_ONLY, r, s)
              else
                let offs = rd32 conf (at_roms h + 4 * slot);
                    s1 = s\<lparr>flash_offset := offs, flash_limits := u32 (offs + OTA_MAX_IMAGE_SIZE), sha256_ctx := None\<rparr>
                in (case fetch_sum H N1 info buf r s1 of
                      None \<Rightarrow> None
                    | Some (Inl res) \<Rightarrow> Some res
                    | Some (Inr (SHA256_dowload, buf1, r1, s2)) \<Rightarrow>
                        do {
                          (err, buf2, r2, s3) \<leftarrow> HttpClient_dowload N2
                              \<lparr>server = ota_server info, path = binary_path info, info_buffer = buf1, buffer_size = length buf1\<rparr>
                              (ota_firmaware_dowload_callback h R chip H) (ota_firmaware_dowload_callback h R chip H) r1 s2;
                          if err \<noteq> HTTP_OK then Some (err, r2, s3)
                          else (case finish_update h R chip H stk heap slot offs SHA256_dowload s3 of (code, s4) \<Rightarrow> Some (code, r2, s4))
                        }))"

end
