(* ===== verification/Http_client_Stream.thy ===== *)
theory Http_client_Stream
  imports Http_client
begin

text \<open>
  What a download delivers. The locale \<open>chunk_sink\<close> is the contract of the function that the client calls with a
  full buffer; under it the body of a response arrives in order and complete, however the network cuts it.
\<close>

section \<open>Responses\<close>

text \<open>A header that the client reads as success with a body of \<open>n\<close> bytes, whatever the first bytes of the body are.\<close>

definition ok_header :: "byte list \<Rightarrow> nat \<Rightarrow> bool" where
  "ok_header hdr n \<longleftrightarrow> 4 \<le> length hdr \<and> (\<forall>ys. strstr_end (hdr @ ys) 0 = Some (Some (length hdr - 4)))
     \<and> (\<forall>x r. length x = 4 \<longrightarrow> parse_http_header (hdr @ x) r = \<lparr>response_code = HTTP_OK, body_length = n\<rparr>)"

fun stream :: "read_result list \<Rightarrow> byte list" where
  "stream [] = []"
| "stream (Fail # evs) = stream evs"
| "stream (Data bs # evs) = bs @ stream evs"

definition all_data :: "read_result list \<Rightarrow> bool" where
  "all_data evs \<longleftrightarrow> (\<forall>e \<in> set evs. \<exists>b bs. e = Data (b # bs))"

lemma read_data:
  assumes "all_data evs" "0 < k"
  shows "\<exists>bs evs1. read_socket k evs = (bs, int (length bs), evs1) \<and> stream evs = bs @ stream evs1 \<and> all_data evs1
    \<and> length bs \<le> k \<and> (bs = [] \<longleftrightarrow> evs = [])"
proof (cases evs)
  case (Cons e es)
  then obtain b bs where e: "e = Data (b # bs)" using assms(1) by (auto simp: all_data_def)
  have es: "all_data es" using assms(1) Cons by (simp add: all_data_def)
  show ?thesis
  proof (cases "length (b # bs) \<le> k")
    case True
    then show ?thesis using Cons e es by auto
  next
    case False
    then have "drop k (b # bs) \<noteq> []" "take k (b # bs) \<noteq> []" "min (length (b # bs)) k = k" using assms(2) by auto
    moreover obtain y ys where "drop k (b # bs) = y # ys" using \<open>drop k (b # bs) \<noteq> []\<close> by (cases "drop k (b # bs)") auto
    then have "all_data (Data (drop k (b # bs)) # es)" using es by (auto simp: all_data_def)
    ultimately show ?thesis using Cons e False
      by (intro exI [of _ "take k (b # bs)"] exI [of _ "Data (drop k (b # bs)) # es"]) (simp del: take_Cons' drop_Cons')
  qed
qed (auto simp: all_data_def)

lemma add_read_id: "n + k < 2 ^ 32 \<Longrightarrow> add_read n (int k) = n + k"
  by (simp add: add_read_def nat_mod_distrib)

section \<open>The loop behind the header\<close>

locale chunk_sink =
  fixes B :: nat and cb :: "'s http_cb" and inv :: "byte list \<Rightarrow> 's \<Rightarrow> bool" and limit :: nat
  assumes B: "0 < B" "B < 65536"
    and chunk: "inv del s \<Longrightarrow> length del mod B = 0 \<Longrightarrow> length buf = B \<Longrightarrow> length del + B \<le> limit
      \<Longrightarrow> \<exists>s'. cb buf B s = Some s' \<and> inv (del @ buf) s'"
begin

text \<open>\<open>del\<close> has been delivered, \<open>part\<close> is in the buffer.\<close>

definition receiving :: "HTTP_response \<Rightarrow> byte list \<Rightarrow> byte list \<Rightarrow> 's download \<Rightarrow> bool" where
  "receiving r del part d \<longleftrightarrow> inv del (cb_state d) \<and> length del mod B = 0 \<and> length (dl_buffer d) = B \<and> length part < B
     \<and> full d = length part \<and> wrt_ptr d = int (length part) \<and> take (length part) (dl_buffer d) = part
     \<and> tot_http_pdu_rd d = length del + length part \<and> 0 < tot_http_pdu_rd d \<and> http_reponse d = r"

lemma read_step:
  assumes "receiving r del part d" "length bs \<le> B - length part" "length del + length part + length bs \<le> limit" "limit < 2 ^ 32"
  shows "\<exists>d' del' part'. after_read B cb bs (int (length bs)) d = Some (Inr d') \<and> receiving r del' part' d' \<and> del' @ part' = del @ part @ bs"
proof -
  note d = assms(1) [unfolded receiving_def]
  let ?buf = "take (full d) (dl_buffer d) @ bs @ drop (full d + length bs) (dl_buffer d)"
  have buf: "?buf = (part @ bs) @ drop (length part + length bs) (dl_buffer d)" using d by simp
  have full: "add_read (full d) (int (length bs)) = length part + length bs" using d assms(2) B by (intro add_read_id [of "full d", THEN trans]) auto
  have tot: "add_read (tot_http_pdu_rd d) (int (length bs)) = length del + length part + length bs" using d assms(3,4) by (intro add_read_id [THEN trans]) auto
  have ne: "del = [] \<longrightarrow> part \<noteq> []" using d by auto
  show ?thesis
  proof (cases "length part + length bs = B")
    case True
    then have c: "?buf = part @ bs" "length (part @ bs) = B" unfolding buf using d by simp_all
    obtain s' where s': "cb (part @ bs) B (cb_state d) = Some s'" "inv (del @ part @ bs) s'"
      using chunk [of del "cb_state d" "part @ bs"] d c(2) assms(3) True by auto
    let ?d = "d\<lparr>dl_buffer := replicate B 0, wrt_ptr := 0, full := 0, tot_http_pdu_rd := length del + length part + length bs, cb_state := s'\<rparr>"
    have "after_read B cb bs (int (length bs)) d = Some (Inr ?d)"
      using d ne s'(1) c(1) full tot True B by (auto simp: after_read_def Let_def u16_def)
    moreover have "receiving r (del @ part @ bs) [] ?d"
      using d ne s'(2) True B by (auto simp: receiving_def)
    ultimately show ?thesis by (intro exI [of _ ?d] exI [of _ "del @ part @ bs"] exI [of _ "[]"]) simp
  next
    case False
    then have lt: "length part + length bs < B" using assms(2) d by auto
    let ?d = "d\<lparr>dl_buffer := ?buf, wrt_ptr := int (length part + length bs), full := length part + length bs, tot_http_pdu_rd := length del + length part + length bs\<rparr>"
    have "after_read B cb bs (int (length bs)) d = Some (Inr ?d)"
      using d ne full tot False by (auto simp: after_read_def Let_def)
    moreover have "receiving r del (part @ bs) ?d"
      using d ne lt by (auto simp: receiving_def)
    ultimately show ?thesis by (intro exI [of _ ?d] exI [of _ del] exI [of _ "part @ bs"]) simp
  qed
qed

lemma loop_delivers:
  assumes "limit < 2 ^ 32"
  shows "receiving r del part d \<Longrightarrow> all_data evs \<Longrightarrow> length (del @ part @ stream evs) \<le> limit \<Longrightarrow>
    \<exists>d' del' part'. download_loop B cb evs d = Some (Inr d') \<and> receiving r del' part' d' \<and> del' @ part' = del @ part @ stream evs"
proof (induction "length (stream evs)" arbitrary: evs d del part rule: less_induct)
  case less
  have f: "full d = length part" "length part < B" using less.prems(1) by (auto simp: receiving_def)
  obtain bs evs1 where rd: "read_socket (B - full d) evs = (bs, int (length bs), evs1)" "stream evs = bs @ stream evs1" "all_data evs1"
      "length bs \<le> B - full d" "bs = [] \<longleftrightarrow> evs = []"
    using read_data [OF less.prems(2), of "B - full d"] f by auto
  have "length bs \<le> B - length part" "length del + length part + length bs \<le> limit" using rd(2,4) f less.prems(3) by simp_all
  then obtain d1 done1 part1 where d1: "after_read B cb bs (int (length bs)) d = Some (Inr d1)" "receiving r done1 part1 d1" "done1 @ part1 = del @ part @ bs"
    using read_step [OF less.prems(1)] assms by blast
  show ?case
  proof (cases "bs = []")
    case True
    then have "download_loop B cb evs d = Some (Inr d1)" using rd(1) d1(1) by (subst download_loop.simps) simp
    moreover have "stream evs = []" using True rd(5) by simp
    ultimately show ?thesis using d1 True by auto
  next
    case False
    then have step: "download_loop B cb evs d = download_loop B cb evs1 d1" using rd(1) d1(1) by (subst download_loop.simps) simp
    have "length (stream evs1) < length (stream evs)" using rd(2) False by simp
    moreover have "length (done1 @ part1 @ stream evs1) \<le> limit"
    proof -
      have "done1 @ part1 @ stream evs1 = del @ part @ stream evs" using d1(3) rd(2) by (metis append.assoc)
      then show ?thesis using less.prems(3) by simp
    qed
    ultimately obtain d' del' part' where "download_loop B cb evs1 d1 = Some (Inr d')" "receiving r del' part' d'" "del' @ part' = done1 @ part1 @ stream evs1"
      using less.hyps [OF _ d1(2) rd(3)] by blast
    moreover have "done1 @ part1 @ stream evs1 = del @ part @ stream evs" using d1(3) rd(2) by (metis append.assoc)
    ultimately show ?thesis using step by auto
  qed
qed

lemma header_step:
  assumes "ok_header hdr n" "length buf = B" "length hdr + 4 \<le> B" "length hdr < length bs" "length bs \<le> B" "take (length hdr) bs = hdr" "inv [] s"
  shows "\<exists>d'. after_read B cb bs (int (length bs)) \<lparr>dl_buffer = buf, wrt_ptr = 0, full = 0, tot_http_pdu_rd = 0, http_reponse = r, cb_state = s\<rparr>
      = Some (Inr d') \<and> receiving \<lparr>response_code = HTTP_OK, body_length = n\<rparr> [] (drop (length hdr) bs) d'"
proof -
  let ?b = "bs @ drop (length bs) buf"
  let ?c = "drop (length hdr) bs @ drop (length bs) buf"
  have "bs = hdr @ drop (length hdr) bs" using append_take_drop_id [of "length hdr" bs] unfolding assms(6) by simp
  then have split: "?b = hdr @ ?c" using append_assoc [of hdr "drop (length hdr) bs" "drop (length bs) buf"] by presburger
  have len: "length ?b = B" using assms(2,5) by simp
  have ok: "strstr_end (hdr @ ys) 0 = Some (Some (length hdr - 4))" "4 \<le> length hdr"
      "length x = 4 \<Longrightarrow> parse_http_header (hdr @ x) r = \<lparr>response_code = HTTP_OK, body_length = n\<rparr>" for x ys
    using assms(1) unfolding ok_header_def by blast+
  have find: "strstr_end ?b 0 = Some (Some (length hdr - 4))" unfolding split by (rule ok(1))
  have h4: "length hdr - 4 + 4 = length hdr" using ok(2) by simp
  have "take (length hdr + 4) ?b = hdr @ take 4 ?c" unfolding split by simp
  moreover have "length (take 4 ?c) = 4" using assms(2,3,5) by simp
  ultimately have parse: "parse_http_header (take (length hdr + 4) ?b) r = \<lparr>response_code = HTTP_OK, body_length = n\<rparr>"
    using ok(3) by presburger
  let ?p = "drop (length hdr) bs"
  let ?d = "\<lparr>dl_buffer = take (length ?p) (drop (length hdr) ?b) @ drop (length ?p) ?b, wrt_ptr = int (length ?p), full = length ?p,
      tot_http_pdu_rd = length ?p, http_reponse = \<lparr>response_code = HTTP_OK, body_length = n\<rparr>, cb_state = s\<rparr>"
  have add: "add_read 0 (int (length bs)) = length bs" using add_read_id [of 0 "length bs"] assms(5) B by simp
  have wrt: "\<not> int (length bs) < int (length hdr)" "nat (int (length bs)) - length hdr = length ?p" using assms(4) by simp_all
  have "after_read B cb bs (int (length bs)) \<lparr>dl_buffer = buf, wrt_ptr = 0, full = 0, tot_http_pdu_rd = 0, http_reponse = r, cb_state = s\<rparr> = Some (Inr ?d)"
    using find parse wrt len assms(3) h4 add by (simp add: after_read_def take_header_def Let_def)
  moreover have "receiving \<lparr>response_code = HTTP_OK, body_length = n\<rparr> [] ?p ?d"
    using assms(2-7) len B ok(2) by (auto simp: receiving_def)
  ultimately show ?thesis by blast
qed

lemma download_delivers:
  assumes net: "resolved N" "socket_ok N" "connected N" "sent_ok N" "length (http_request (path info) (server info)) < 152"
    and evs: "answer N (http_request (path info) (server info)) = Data bs # evs" "all_data (Data bs # evs)" "stream (Data bs # evs) = hdr @ body"
    and hdr: "ok_header hdr (length body)" "length hdr < length bs" "length hdr + 4 \<le> B"
    and buf: "buffer_size info = B" "length (info_buffer info) = B" and inv: "inv [] s" and lim: "length body \<le> limit" "limit < 2 ^ 32"
  obtains del part buf1 s1 where "del @ part = body" "length del mod B = 0" "length part < B" "inv del s1" "length buf1 = B" "take (length part) buf1 = part"
    "HttpClient_dowload N info cb fcb r s = map_option (\<lambda>s2. (HTTP_OK, buf1, \<lparr>response_code = HTTP_OK, body_length = length body\<rparr>, s2)) (fcb buf1 (length part) s1)"
proof -
  let ?r = "\<lparr>response_code = HTTP_OK, body_length = length body\<rparr>"
  let ?d = "\<lparr>dl_buffer = info_buffer info, wrt_ptr = 0, full = 0, tot_http_pdu_rd = 0, http_reponse = r, cb_state = s\<rparr>"
  obtain b1 evs1 where rd: "read_socket B (Data bs # evs) = (b1, int (length b1), evs1)" "hdr @ body = b1 @ stream evs1" "all_data evs1" "length b1 \<le> B" "b1 \<noteq> []"
    using read_data [OF evs(2) B(1)] evs(3) by auto
  have b1: "length hdr < length b1" using rd(1) hdr(2,3) by (auto split: if_splits)
  have "take (length hdr) b1 = take (length hdr) (b1 @ stream evs1)" using b1 by simp
  also have "\<dots> = hdr" unfolding rd(2) [symmetric] by simp
  finally have t: "take (length hdr) b1 = hdr" .
  have rest: "drop (length hdr) b1 @ stream evs1 = body"
    using rd(2) b1 t by (metis append_eq_conv_conj append_assoc append_take_drop_id)
  obtain d1 where d1: "after_read B cb b1 (int (length b1)) ?d = Some (Inr d1)" "receiving ?r [] (drop (length hdr) b1) d1"
    using header_step [OF hdr(1) buf(2) hdr(3) b1 rd(4) t inv] by blast
  have step: "download_loop B cb (Data bs # evs) ?d = download_loop B cb evs1 d1"
    using rd(1,5) d1(1) by (subst download_loop.simps) simp
  obtain d' del part where d': "download_loop B cb evs1 d1 = Some (Inr d')" "receiving ?r del part d'" "del @ part = body"
    using loop_delivers [OF lim(2) d1(2) rd(3)] rest lim(1) by auto
  have "length body = length del + length part" unfolding d'(3) [symmetric] by simp
  moreover have "u16 (full d') = length part" using d'(2) B by (simp add: receiving_def)
  ultimately have "HttpClient_dowload N info cb fcb r s = map_option (\<lambda>s2. (HTTP_OK, dl_buffer d', ?r, s2)) (fcb (dl_buffer d') (length part) (cb_state d'))"
    using net evs(1) buf(1) step d'(1,2)
    by (cases "fcb (dl_buffer d') (length part) (cb_state d')") (auto simp: HttpClient_dowload_def receiving_def Let_def MAX_REQUEST_SIZE_def)
  then show ?thesis using d'(2) by (intro that [OF d'(3), of "cb_state d'" "dl_buffer d'"]) (auto simp: receiving_def)
qed

end

section \<open>Downloads from any server\<close>

text \<open>What the function for a full buffer keeps, the loop keeps, whatever arrives; the buffer keeps its size.\<close>

definition dl_ok :: "nat \<Rightarrow> 's download \<Rightarrow> bool" where
  "dl_ok B d \<longleftrightarrow> length (dl_buffer d) = B \<and> full d \<le> B \<and> wrt_ptr d = int (full d)"

lemma read_cases:
  assumes "read_socket k evs = (bs, n, evs1)"
  obtains "bs = []" "n = - 1" | "n = int (length bs)" "length bs \<le> k"
  using assms by (cases "(k, evs)" rule: read_socket.cases) (auto split: if_splits)

locale full_buffer_keeps =
  fixes B :: nat and cb :: "'s http_cb" and P :: "'s \<Rightarrow> bool"
  assumes B: "B < 65536" and keeps: "P s \<Longrightarrow> length buf = B \<Longrightarrow> cb buf B s = Some s' \<Longrightarrow> P s'"
begin

definition kept :: "int \<Rightarrow> 's download + 's download \<Rightarrow> bool" where
  "kept n x \<longleftrightarrow> (case x of Inl d \<Rightarrow> P (cb_state d) \<and> response_code (http_reponse d) \<noteq> HTTP_OK | Inr d \<Rightarrow> P (cb_state d) \<and> length (dl_buffer d) = B \<and> (0 \<le> n \<longrightarrow> dl_ok B d))"

lemma header_keeps:
  assumes "take_header e d = Some x" "P (cb_state d)" "length (dl_buffer d) = B" "wrt_ptr d \<le> int B"
  shows "kept n x"
  using assms by (auto simp: take_header_def Let_def kept_def dl_ok_def split: if_splits)

lemma after_read_keeps:
  assumes "dl_ok B d" "P (cb_state d)" "read_socket (B - full d) evs = (bs, n, evs1)" "after_read B cb bs n d = Some x"
  shows "kept n x"
proof -
  let ?d = "d\<lparr>dl_buffer := take (full d) (dl_buffer d) @ bs @ drop (full d + length bs) (dl_buffer d), wrt_ptr := wrt_ptr d + n, full := add_read (full d) n\<rparr>"
  note d = assms(1) [unfolded dl_ok_def]
  have n: "full d + length bs \<le> B" "wrt_ptr d + n \<le> int B" "0 \<le> n \<Longrightarrow> add_read (full d) n = full d + length bs \<and> n = int (length bs)"
    using assms(3) d B add_read_id [of "full d" "length bs"] by (auto elim!: read_cases)
  have len: "length (dl_buffer ?d) = B" using n(1) d by simp
  have ok: "0 \<le> n \<longrightarrow> dl_ok B ?d" using n d len by (auto simp: dl_ok_def)
  show ?thesis
  proof (cases "tot_http_pdu_rd d = 0")
    case True
    then show ?thesis using assms(2,4) len ok n(2) header_keeps [of _ ?d x n]
      by (auto simp: after_read_def Let_def kept_def dl_ok_def split: option.splits)
  next
    case False
    show ?thesis
    proof (cases "add_read (full d) n = B")
      case True
      then show ?thesis
        using assms(2,4) False len keeps [OF assms(2) len] B by (auto simp: after_read_def Let_def kept_def dl_ok_def u16_def bind_eq_Some_conv)
    qed (use assms(2,4) False len ok in \<open>auto simp: after_read_def Let_def kept_def dl_ok_def\<close>)
  qed
qed

lemma loop_keeps: "download_loop B cb evs d = Some x \<Longrightarrow> dl_ok B d \<Longrightarrow> P (cb_state d) \<Longrightarrow> kept (- 1) x"
proof (induction "pending evs" arbitrary: evs d rule: less_induct)
  case less
  obtain bs n evs1 where rd: "read_socket (B - full d) evs = (bs, n, evs1)" by (rule prod_cases3)
  obtain y where y: "after_read B cb bs n d = Some y" using less.prems(1) rd by (subst (asm) download_loop.simps) (auto split: option.splits)
  note k = after_read_keeps [OF less.prems(2,3) rd y]
  show ?case
  proof (cases "\<exists>d1. y = Inr d1 \<and> 0 < n")
    case True
    then obtain d1 where d1: "y = Inr d1" "0 < n" by blast
    then have "download_loop B cb evs1 d1 = Some x" using less.prems(1) rd y by (subst (asm) download_loop.simps) simp
    then show ?thesis using less.hyps [OF read_pending [OF rd d1(2)]] k d1 by (simp add: kept_def)
  next
    case False
    then have "x = y" using less.prems(1) rd y by (subst (asm) download_loop.simps) (auto split: sum.splits)
    then show ?thesis using k by (auto simp: kept_def split: sum.splits)
  qed
qed

text \<open>A download that returns has called the final function at most once, at the end.\<close>

lemma download_keeps:
  assumes "HttpClient_dowload N info cb fcb r s = Some (code, buf', r', s')" "P s" "length (info_buffer info) = B" "buffer_size info = B"
  shows "(code = HTTP_OK \<longrightarrow> length buf' = B) \<and> (P s' \<or> (\<exists>s1 n buf. P s1 \<and> length buf = B \<and> n < 65536 \<and> fcb buf n s1 = Some s'))"
proof -
  let ?d = "\<lparr>dl_buffer = info_buffer info, wrt_ptr = 0, full = 0, tot_http_pdu_rd = 0, http_reponse = r, cb_state = s\<rparr>"
  let ?L = "download_loop B cb (answer N (http_request (path info) (server info))) ?d"
  have ok: "dl_ok B ?d" "P (cb_state ?d)" using assms by (simp_all add: dl_ok_def)
  show ?thesis
  proof (cases "resolved N \<and> socket_ok N \<and> connected N \<and> sent_ok N \<and> length (http_request (path info) (server info)) + 1 \<le> 4 * MAX_REQUEST_SIZE")
    case False
    then show ?thesis using assms by (auto simp: HttpClient_dowload_def Let_def split: if_splits)
  next
    case True
    then obtain x where x: "?L = Some x" using assms(1,4) by (auto simp: HttpClient_dowload_def Let_def split: option.splits)
    note k = loop_keeps [OF x ok]
    show ?thesis
    proof (cases x)
      case (Inl d)
      then show ?thesis using assms(1,4) True x k by (auto simp: HttpClient_dowload_def Let_def kept_def)
    next
      case (Inr d)
      then have "P (cb_state d)" "length (dl_buffer d) = B" using k by (auto simp: kept_def)
      moreover have "fcb (dl_buffer d) (u16 (full d)) (cb_state d) = Some s'" "buf' = dl_buffer d"
        using assms(1,4) True x Inr by (auto simp: HttpClient_dowload_def Let_def bind_eq_Some_conv)
      ultimately show ?thesis using u16_lt by metis
    qed
  qed
qed

end

section \<open>A header\<close>

lemma sub_token_length: "length (sub_token tok) \<le> length tok"
  unfolding sub_token_def by (metis le_trans length_dropWhile_le length_takeWhile_le)

text \<open>A name of fourteen bytes does not fit in the bytes of the body that are copied behind the header.\<close>

lemma parse_lines_short: "length mem < 14 \<Longrightarrow> parse_lines False mem r = r"
proof (induction "length mem" arbitrary: mem rule: less_induct)
  case less
  let ?xs = "dropWhile line_split mem"
  let ?tok = "takeWhile (\<lambda>x. x \<noteq> 0 \<and> \<not> line_split x) ?xs"
  let ?after = "drop (length ?tok) ?xs"
  have "length (sub_token ?tok) \<le> length mem" by (meson le_trans sub_token_length length_dropWhile_le length_takeWhile_le)
  then have "sub_token ?tok \<noteq> chars ''Content-Length''" using less.prems by (auto simp: chars_def)
  moreover have "length ?after \<le> length mem" by (simp add: le_diff_conv trans_le_add1 length_dropWhile_le)
  then have "parse_lines False (tl ?after) r = r" if "?after \<noteq> []" using less that by (cases ?after) auto
  ultimately show ?case by (subst parse_lines.simps) (simp add: Let_def)
qed

text \<open>The client understands a header with the length of the body, of any size.\<close>

definition length_header :: "byte list \<Rightarrow> byte list" where
  "length_header ds = chars ''HTTP/1.1 200 OK'' @ [13, 10] @ chars ''Content-Length: '' @ ds @ [13, 10, 13, 10]"

lemma digit_bytes: "isdigit x \<Longrightarrow> x \<noteq> 0 \<and> x \<noteq> 13 \<and> x \<noteq> 10"
  by (auto simp: isdigit_def)

lemma strstr_skip: "list_all isdigit ds \<Longrightarrow> strstr_end (ds @ ys) i = strstr_end ys (i + length ds)"
  by (induction ds arbitrary: i) (auto dest: digit_bytes)

lemma scan_digits: "list_all isdigit ds \<Longrightarrow> ds \<noteq> [] \<Longrightarrow> scan_numbers ds v = strtol10 ds"
  by (cases ds) (auto simp: list_all_iff takeWhile_eq_all_conv [THEN iffD2] dropWhile_eq_Nil_conv [THEN iffD2])

lemma length_line:
  assumes "list_all isdigit ds" "ds \<noteq> []" "length x = 4"
  shows "parse_lines False (10 # chars ''Content-Length: '' @ ds @ [13, 10, 13, 10] @ x) r = r\<lparr>body_length := strtol10 ds\<rparr>"
proof -
  let ?e = "[10, 13, 10] @ x"
  let ?tok = "chars ''Content-Length: '' @ ds"
  have dw: "dropWhile line_split (10 # ?tok @ 13 # ?e) = ?tok @ 13 # ?e" by (simp add: line_split_def chars_def)
  have "\<forall>y \<in> set ?tok. y \<noteq> 0 \<and> \<not> line_split y" using assms(1) digit_bytes by (auto simp: list_all_iff line_split_def chars_def)
  then have tw: "takeWhile (\<lambda>x. x \<noteq> 0 \<and> \<not> line_split x) (?tok @ 13 # ?e) = ?tok"
    by (subst takeWhile_append2) (auto simp: line_split_def)
  have sub: "sub_token ?tok = chars ''Content-Length''" by (simp add: sub_token_def chars_def)
  have cut: "drop 16 (cut_token ?tok ys) = ds @ 0 # ys" for ys by (simp add: cut_token_def sub_token_def chars_def)
  have "\<forall>y \<in> set ds. y \<noteq> 0" using assms(1) digit_bytes by (auto simp: list_all_iff)
  then have c: "cstring (ds @ 0 # ys) = ds" for ys unfolding cstring_def by (subst takeWhile_append2) auto
  have short: "parse_lines False ?e r' = r'" for r' using assms(3) by (intro parse_lines_short) simp
  have tok: "?tok \<noteq> []" "chars ''Content-Length'' \<noteq> []" by (simp_all add: chars_def)
  have "parse_lines False (10 # ?tok @ 13 # ?e) r = r\<lparr>body_length := strtol10 ds\<rparr>"
    unfolding parse_lines.simps [of False "10 # ?tok @ 13 # ?e" r] Let_def dw tw sub append_eq_conv_conj [THEN iffD1, OF refl, THEN conjunct2]
    using tok scan_digits [OF assms(1,2)] short by (simp only: if_False list.sel list.distinct http_handle_cb_ContentLength_def cut c simp_thms if_True) simp
  then show ?thesis by simp
qed

lemma length_header_ok:
  assumes "list_all isdigit ds" "ds \<noteq> []"
  shows "ok_header (length_header ds) (strtol10 ds)"
proof -
  have "strstr_end (length_header ds @ ys) 0 = Some (Some (length (length_header ds) - 4))" for ys
    using strstr_skip [OF assms(1)] by (simp add: length_header_def chars_def)
  moreover have "parse_http_header (length_header ds @ x) r = \<lparr>response_code = HTTP_OK, body_length = strtol10 ds\<rparr>" if "length x = 4" for x r
    using length_line [OF assms that]
    by (cases r) (simp add: parse_http_header_def length_header_def parse_lines.simps [of True] chars_def
          Let_def line_split_def sub_token_def cut_token_def parse_http_header_HTTP_STATUS_def cstring_def isdigit_def strtol10_def HTTP_OK_def)
  ultimately show ?thesis by (simp add: ok_header_def) (simp add: length_header_def chars_def)
qed

abbreviation sample_header :: "byte list" where
  "sample_header \<equiv> length_header (chars ''64'')"

lemma sample_header_ok: "ok_header sample_header 64"
  using length_header_ok [of "chars ''64''"] by (simp add: chars_def isdigit_def strtol10_def)

section \<open>Properties\<close>

lemma http_request_length: "length (http_request p q) = 84 + length p + length q"
  by (simp add: http_request_def chars_def)

text \<open>
  The request is printed into 152 bytes without a check: a path and a server name of more than 67 bytes together overrun
  the array.
\<close>

theorem request_overruns:
  assumes "resolved N" "socket_ok N" "connected N" "67 < length (path info) + length (server info)"
  shows "HttpClient_dowload N info cb fcb r s = None"
  using assms by (auto simp: HttpClient_dowload_def http_request_length MAX_REQUEST_SIZE_def Let_def)

theorem request_overruns_witness:
  "HttpClient_dowload \<lparr>resolved = True, socket_ok = True, connected = True, sent_ok = False, answer = (\<lambda>_. [])\<rparr>
     \<lparr>server = chars ''example.org'', path = replicate 57 47, info_buffer = [], buffer_size = 0\<rparr> (\<lambda>b n s. Some s) (\<lambda>b n s. Some s)
     \<lparr>response_code = 0, body_length = 0\<rparr> () = None"
  using request_overruns [of "\<lparr>resolved = True, socket_ok = True, connected = True, sent_ok = False, answer = (\<lambda>_. [])\<rparr>"
      "\<lparr>server = chars ''example.org'', path = replicate 57 47, info_buffer = [], buffer_size = 0\<rparr>" "\<lambda>b n s. Some s" "\<lambda>b n s. Some s"
      "\<lparr>response_code = 0, body_length = 0\<rparr>" "()"]
  by (simp add: chars_def)

text \<open>
  A response whose header arrives alone fails: no byte of the body has been counted, so the body is taken for a header
  again, and a complete and correct response of a binary file is refused because of its size.
\<close>

theorem header_alone_fails:
  assumes net: "resolved N" "socket_ok N" "connected N" "sent_ok N" "length (http_request (path info) (server info)) < 152"
    and ans: "answer N (http_request (path info) (server info)) = [Data hdr, Data body]"
    and hdr: "ok_header hdr (length body)" "length hdr + 4 \<le> B"
    and body: "body \<noteq> []" "length body < B" "\<And>ys. strstr_end (body @ ys) 0 = Some None"
    and buf: "buffer_size info = B" "length (info_buffer info) = B" "B < 65536" and fcb: "\<And>buf n. \<exists>s'. fcb buf n s = Some s'"
  shows "\<exists>buf' r' s'. HttpClient_dowload N info cb fcb r s = Some (HTTP_DOWLOAD_SIZE_NOT_MATCH, buf', r', s')"
proof -
  let ?r = "\<lparr>response_code = HTTP_OK, body_length = length body\<rparr>"
  let ?b0 = "hdr @ drop (length hdr) (info_buffer info)" and ?b1 = "body @ drop (length body) (hdr @ drop (length hdr) (info_buffer info))"
  let ?d = "\<lambda>b w. \<lparr>dl_buffer = b, wrt_ptr = int w, full = w, tot_http_pdu_rd = 0, http_reponse = ?r, cb_state = s\<rparr>"
  have ok: "strstr_end (hdr @ ys) 0 = Some (Some (length hdr - 4))" "4 \<le> length hdr"
      "length x = 4 \<Longrightarrow> parse_http_header (hdr @ x) r = ?r" for x ys
    using hdr(1) unfolding ok_header_def by blast+
  have x4: "length (take 4 (drop (length hdr) (info_buffer info))) = 4" using hdr(2) buf(2) by simp
  have h4: "length hdr - 4 + 4 = length hdr" "Suc (Suc (Suc (Suc (length hdr - 4)))) = length hdr" using ok(2) by simp_all
  have add: "add_read 0 (int (length xs)) = length xs" "add_read (length xs) 0 = length xs" if "length xs < 65536" for xs :: "byte list"
    using add_read_id [of 0 "length xs"] add_read_id [of "length xs" 0] that by simp_all
  have lens: "length hdr < 65536" "length body < 65536" using hdr(2) body(2) buf(3) by simp_all
  have r1: "after_read B cb hdr (int (length hdr)) \<lparr>dl_buffer = info_buffer info, wrt_ptr = 0, full = 0, tot_http_pdu_rd = 0, http_reponse = r, cb_state = s\<rparr>
      = Some (Inr (?d ?b0 0))"
    using ok(1) ok(3) [OF x4] h4 add(1) [OF lens(1)] hdr(2) buf(2) by (simp add: after_read_def take_header_def Let_def)
  have r2: "after_read B cb body (int (length body)) (?d ?b0 0) = Some (Inr (?d ?b1 (length body)))"
    using body(3) add(1) [OF lens(2)] by (simp add: after_read_def Let_def)
  have r3: "after_read B cb [] 0 (?d ?b1 (length body)) = Some (Inr (?d ?b1 (length body)))"
    using body(3) add(2) [OF lens(2)] by (simp add: after_read_def Let_def)
  have "length hdr \<noteq> 0" "length body \<noteq> 0" "length hdr \<le> B" using ok(2) body(1) hdr(2) by auto
  then have loop: "download_loop B cb [Data hdr, Data body] \<lparr>dl_buffer = info_buffer info, wrt_ptr = 0, full = 0, tot_http_pdu_rd = 0, http_reponse = r, cb_state = s\<rparr>
      = Some (Inr (?d ?b1 (length body)))"
    using r1 r2 r3 body(2) by (simp add: download_loop.simps)
  obtain s' where s': "fcb ?b1 (length body) s = Some s'" using fcb by blast
  have "u16 (length body) = length body" "length body \<noteq> 0" using lens(2) body(1) by simp_all
  then show ?thesis using net ans buf(1) loop s' by (simp add: HttpClient_dowload_def MAX_REQUEST_SIZE_def Let_def)
qed

definition sample_net :: "read_result list \<Rightarrow> http_net" where
  "sample_net evs = \<lparr>resolved = True, socket_ok = True, connected = True, sent_ok = True, answer = (\<lambda>_. evs)\<rparr>"

theorem header_alone_fails_witness:
  "\<exists>buf' r' s'. HttpClient_dowload (sample_net [Data sample_header, Data (replicate 64 0)])
     \<lparr>server = chars ''s'', path = chars ''/f'', info_buffer = replicate 4096 0, buffer_size = 4096\<rparr> (\<lambda>b n s. Some s) (\<lambda>b n s. Some s)
     \<lparr>response_code = 0, body_length = 0\<rparr> () = Some (HTTP_DOWLOAD_SIZE_NOT_MATCH, buf', r', s')"
proof -
  have "replicate 64 (0 :: byte) = 0 # replicate 63 0" using replicate_Suc [of 63 "0 :: byte"] by simp
  then have "strstr_end (replicate 64 0 @ ys) 0 = Some None" for ys by simp
  then show ?thesis
    using sample_header_ok
    by (intro header_alone_fails [where B = 4096 and hdr = sample_header and body = "replicate 64 0"])
       (simp_all add: sample_net_def http_request_length, simp_all add: chars_def length_header_def)
qed

end
