(* ===== verification/Http_ota_Update.thy ===== *)
theory Http_ota_Update
  imports Http_ota Http_client_Stream Ota_tftp_Transfer
begin

text \<open>
  The update over HTTP, composed of the client, the flash functions, the image check and the boot configuration:
  what a server with a valid image achieves, and what no server can do. The contract of the digest functions is
  the locale \<open>sha256_routines\<close>.
\<close>

section \<open>The digest\<close>

locale sha256_routines =
  fixes H :: "'c sha256" and hashed :: "byte list \<Rightarrow> 'c \<Rightarrow> bool" and digest :: "byte list \<Rightarrow> byte list"
  assumes starts: "hashed [] (sha256_starts H)"
    and update: "hashed msg ctx \<Longrightarrow> hashed (msg @ bs) (sha256_update H bs ctx)"
    and finish: "hashed msg ctx \<Longrightarrow> sha256_finish H ctx = digest msg"
    and digest_length: "length (digest msg) = 32"

section \<open>The sum as text\<close>

definition hex_char :: "nat \<Rightarrow> byte" where
  "hex_char n = word_of_nat (if n < 10 then 48 + n else 87 + n)"

definition hex_bytes :: "byte list \<Rightarrow> byte list" where
  "hex_bytes bs = concat (map (\<lambda>b. [hex_char (unat b div 16), hex_char (unat b mod 16)]) bs)"

lemma hex_char:
  assumes "n < 16"
  shows "hex_value (hex_char n) = Some n" "\<not> isspace (hex_char n)" "hex_char n \<notin> {0, 43, 45, 88, 120}"
proof -
  have "\<forall>n \<in> set [0..<16]. hex_value (hex_char n) = Some n \<and> \<not> isspace (hex_char n) \<and> hex_char n \<notin> {0, 43, 45, 88, 120}" by code_simp
  then show "hex_value (hex_char n) = Some n" "\<not> isspace (hex_char n)" "hex_char n \<notin> {0, 43, 45, 88, 120}" using assms by auto
qed

lemma sha_word_hex: "sha_word (hex_bytes [a, b]) = [a, b]"
proof -
  let ?n = "\<lambda>x :: byte. unat x div 16" and ?m = "\<lambda>x :: byte. unat x mod 16"
  have r: "?n x < 16" "?m x < 16" for x :: byte using unat_byte_lt [of x] by (simp_all add: div_less_iff_less_mult)
  note h = hex_char [OF r(1)] hex_char [OF r(2)]
  have str: "cstring (hex_bytes [a, b]) = [hex_char (?n a), hex_char (?m a), hex_char (?n b), hex_char (?m b)]"
    using h by (simp add: cstring_def hex_bytes_def)
  have v: "unat x div 16 * 16 + unat x mod 16 = unat x" for x :: byte by simp
  have "strtol16 (cstring (hex_bytes [a, b])) = int (256 * unat a + unat b)"
    unfolding str using h v [of a] v [of b] by (simp add: strtol16_def skip_0x_def)
  moreover have "256 * unat a + unat b < 65536" using unat_byte_lt [of a] unat_byte_lt [of b] by linarith
  moreover have "nat (int v mod 2 ^ 16) = v" if "v < 65536" for v using that by (simp add: nat_mod_distrib)
  ultimately have "nat (strtol16 (cstring (hex_bytes [a, b])) mod 2 ^ 16) = 256 * unat a + unat b" by (simp only:)
  moreover have "(256 * unat a + unat b) div 256 = unat a" using unat_byte_lt [of b] by simp
  moreover have "word_of_nat (256 * unat a + unat b) = b"
    unfolding word_unat_eq_iff unat_of_nat using unat_byte_lt [of b] by (simp add: mod_less)
  ultimately show ?thesis by (simp add: sha_word_def Let_def)
qed

lemma length_hex_bytes [simp]: "length (hex_bytes bs) = 2 * length bs"
  by (induction bs) (simp_all add: hex_bytes_def)

lemma hex_bytes_append: "hex_bytes (xs @ ys) = hex_bytes xs @ hex_bytes ys"
  by (simp add: hex_bytes_def)

lemma convert_words:
  "length d = 2 * n \<Longrightarrow> concat (map (\<lambda>i. sha_word (take 4 (drop (4 * i) (hex_bytes d @ xs)))) [0..<n]) = d"
proof (induction n arbitrary: d)
  case (Suc n)
  then obtain a b e where d: "d = a # b # e" "length e = 2 * n" by (cases d; cases "tl d") auto
  have four: "hex_bytes d = hex_bytes [a, b] @ hex_bytes e" using hex_bytes_append [of "[a, b]" e] d(1) by simp
  have "concat (map (\<lambda>i. sha_word (take 4 (drop (4 * i) (hex_bytes d @ xs)))) [0..<Suc n])
      = sha_word (take 4 (hex_bytes d @ xs)) @ concat (map (\<lambda>i. sha_word (take 4 (drop (4 * Suc i) (hex_bytes d @ xs)))) [0..<n])"
    by (simp only: upt_conv_Cons zero_less_Suc list.map concat.simps map_Suc_upt [symmetric] map_map comp_def mult_0_right drop_0)
  moreover have "sha_word (take 4 (hex_bytes d @ xs)) = [a, b]" unfolding four using sha_word_hex by simp
  moreover have "drop (4 * Suc i) (hex_bytes d @ xs) = drop (4 * i) (hex_bytes e @ xs)" for i unfolding four by simp
  ultimately show ?case using Suc.IH [OF d(2)] d(1) by simp
qed simp

text \<open>
  The sum survives the way through the file: what \<open>convert_SHA256_Str_TO_uint32\<close> reads from the 64 hexadecimal digits of
  a sum is the sum, byte by byte.
\<close>

theorem sum_roundtrip:
  assumes "length d = 32"
  shows "convert_SHA256_Str_TO_uint32 (hex_bytes d @ xs) = d"
  using convert_words [of d 16 xs] assms by (simp add: convert_SHA256_Str_TO_uint32_def SHA256_SIZE_STR_def)

theorem sum_roundtrip_witness:
  "convert_SHA256_Str_TO_uint32 (hex_bytes (map word_of_nat [100..<132]) @ [10]) = map word_of_nat [100..<132]"
  using sum_roundtrip [of "map word_of_nat [100..<132]" "[10]"] by simp

section \<open>The image in the slot\<close>

lemma limits_agree: "OTA_MAX_IMAGE_SIZE = MAX_IMAGE_SIZE"
  by (simp add: OTA_MAX_IMAGE_SIZE_def MAX_IMAGE_SIZE_def)

context rboot_flash
begin

lemma write_chunk:
  assumes st: "stored_part a m0 bs m" and a: "a mod 4096 = 0" "a + MAX_IMAGE_SIZE \<le> chip_size c"
    and len: "length bs mod 4096 = 0" "length bs < MAX_IMAGE_SIZE" and n: "n \<le> 4096" "n mod 4 = 0" "n \<le> length buf"
  defines "w \<equiv> a + length bs"
  shows "stored_part a m0 (bs @ take n buf)
    (snd (sdk_spi_flash_write R c w (Some buf) n (snd (sdk_spi_flash_erase_sector R c (w div 4096) m))))"
proof -
  obtain e where e: "e mod 4096 = 0" "w \<le> e" "e \<le> a + MAX_IMAGE_SIZE" and m: "m = mem_put a bs (nor_erase a (e - a) m0)"
    using st unfolding stored_part_def w_def by (elim exE conjE)
  have w: "w mod 4096 = 0" using a(1) len(1) unfolding w_def by (metis add_0 mod_0 mod_add_eq)
  have top: "(a + MAX_IMAGE_SIZE) mod 4096 = 0" using a(1) mod_mult_self2 [of a 4096 256] by (simp add: MAX_IMAGE_SIZE_def)
  have w2: "w + 4096 \<le> a + MAX_IMAGE_SIZE" using sector_above [OF top w] len(2) by (simp add: w_def)
  define e1 where "e1 = max e (w + 4096)"
  have "(w + 4096) mod 4096 = w mod 4096" by (rule mod_add_self2)
  then have e1: "e1 mod 4096 = 0" "w + 4096 \<le> e1" "e1 \<le> a + MAX_IMAGE_SIZE" using e w w2 by (simp_all add: e1_def max_def)
  have wd: "w div 4096 * 4096 = w" using w by auto
  have "(w div 4096 + 1) * 4096 \<le> chip_size c" using w2 a(2) wd by simp
  then have er: "snd (sdk_spi_flash_erase_sector R c (w div 4096) m) = mem_put a bs (nor_erase a (e1 - a) m0)"
    using flash_erase_ok [OF chip(1), of "w div 4096" m] wd erase_sector_beyond [of a bs w e m0] e(2)
    by (simp add: SPI_FLASH_SECTOR_SIZE_def m e1_def w_def)
  have w4: "w mod 4 = 0" using w mod_mod_cancel [of 4 4096 w] by simp
  have "u32 w = w" using w2 a(2) chip by simp
  then have "snd (sdk_spi_flash_write R c w (Some buf) n m') = nor_program w (take n buf) m'" for m'
    using flash_write_words [OF w4 n(2,3), of m'] w2 a(2) n(1) by simp
  then have "snd (sdk_spi_flash_write R c w (Some buf) n (snd (sdk_spi_flash_erase_sector R c (w div 4096) m)))
      = nor_program w (take n buf) (mem_put a bs (nor_erase a (e1 - a) m0))" by (simp add: er)
  also have "\<dots> = mem_put w (take n buf) (mem_put a bs (nor_erase a (e1 - a) m0))"
    using e1(2) n by (intro mem_put_nor_program) (auto simp: w_def mem_put_def nor_erase_apply)
  finally show ?thesis
    unfolding stored_part_def using e1 n by (intro exI [of _ e1]) (simp add: mem_put_append [symmetric] w_def add.assoc)
qed

end

locale http_slot = rboot_flash R h c + sha256_routines H hashed digest for R h c and H :: "'c sha256" and hashed digest +
  fixes a :: nat
  assumes slot: "a mod 4096 = 0" "a + MAX_IMAGE_SIZE \<le> chip_size c"
begin

definition loading :: "bool \<Rightarrow> memory \<Rightarrow> byte list \<Rightarrow> 'c http_ota \<Rightarrow> bool" where
  "loading summed m0 bs s \<longleftrightarrow> stored_part a m0 bs (ota_flash s) \<and> flash_offset s = a + length bs \<and> flash_limits s = a + MAX_IMAGE_SIZE
     \<and> (case sha256_ctx s of None \<Rightarrow> \<not> summed | Some ctx \<Rightarrow> summed \<and> hashed bs ctx)"

lemma callback_stores:
  assumes "loading summed m0 bs s" "length bs mod 4096 = 0" "n \<le> 4096" "n mod 4 = 0" "n \<le> length buf" "length bs + n \<le> MAX_IMAGE_SIZE" "length bs < MAX_IMAGE_SIZE"
  shows "\<exists>s'. ota_firmaware_dowload_callback h R c H buf n s = Some s' \<and> loading summed m0 (bs @ take n buf) s'"
proof -
  note l = assms(1) [unfolded loading_def]
  have u: "u32 (flash_offset s + n) = a + length bs + n" using l slot(2) chip assms(6) by simp
  have m: "flash_offset s mod SECTOR_SIZE h = 0" using l slot(1) assms(2) sector by (metis add_0 mod_0 mod_add_eq)
  let ?m = "snd (sdk_spi_flash_write R c (a + length bs) (Some buf) n (snd (sdk_spi_flash_erase_sector R c ((a + length bs) div 4096) (ota_flash s))))"
  let ?s = "s\<lparr>sha256_ctx := map_option (sha256_update H (take n buf)) (sha256_ctx s), ota_flash := ?m, flash_offset := a + length bs + n\<rparr>"
  have st: "stored_part a m0 (bs @ take n buf) ?m"
    using write_chunk [of a m0 bs "ota_flash s" n buf] l slot assms by simp
  have "ota_firmaware_dowload_callback h R c H buf n s = Some ?s"
    using l u m assms(5,6) sector by (simp add: ota_firmaware_dowload_callback_def Let_def)
  moreover have "loading summed m0 (bs @ take n buf) ?s"
    using l st assms(5) update by (auto simp: loading_def split: option.splits)
  ultimately show ?thesis by blast
qed

end

text \<open>The callback of the update keeps the contract that the client asks of it.\<close>

sublocale http_slot \<subseteq> sink: chunk_sink 4096 "ota_firmaware_dowload_callback h R c H" "loading summed m0" MAX_IMAGE_SIZE for summed m0
proof
  fix bs s and buf :: "byte list"
  assume "loading summed m0 bs s" "length bs mod 4096 = 0" "length buf = 4096" "length bs + 4096 \<le> MAX_IMAGE_SIZE"
  then show "\<exists>s'. ota_firmaware_dowload_callback h R c H buf 4096 s = Some s' \<and> loading summed m0 (bs @ buf) s'"
    using callback_stores [of summed m0 bs s 4096 buf] by simp
qed simp_all

section \<open>A server with the files\<close>

text \<open>The server answers the request with the file, the header and the beginning of the file in the first segment.\<close>

definition serves :: "http_net \<Rightarrow> byte list \<Rightarrow> byte list \<Rightarrow> bool" where
  "serves N req content \<longleftrightarrow> resolved N \<and> socket_ok N \<and> connected N \<and> sent_ok N \<and> length req < 152 \<and>
     (\<exists>bs evs hdr. answer N req = Data bs # evs \<and> all_data (Data bs # evs) \<and> stream (Data bs # evs) = hdr @ content
        \<and> ok_header hdr (length content) \<and> length hdr < length bs \<and> length hdr + 4 \<le> 4096)"

context chunk_sink
begin

lemma served:
  assumes "serves N (http_request (path info) (server info)) content" "B = 4096" "buffer_size info = B" "length (info_buffer info) = B"
    and "inv [] s" "length content \<le> limit" "limit < 2 ^ 32"
  obtains del part buf1 s1 where "del @ part = content" "length del mod B = 0" "length part < B" "inv del s1" "length buf1 = B" "take (length part) buf1 = part"
    "HttpClient_dowload N info cb fcb r s = map_option (\<lambda>s2. (HTTP_OK, buf1, \<lparr>response_code = HTTP_OK, body_length = length content\<rparr>, s2)) (fcb buf1 (length part) s1)"
  using assms unfolding serves_def by (elim exE conjE) (rule download_delivers, assumption+, simp_all)

end

interpretation sum_sink: chunk_sink 4096 SHA256_check_callback J 4095 for J
  by unfold_locales simp_all

lemma fetch_sum_ok:
  assumes "sha256_path info = Some p" "serves N (http_request p (ota_server info)) (hex_bytes d @ tail)" "length d = 32" "length tail < 4032" "length buf = 4096"
  shows "\<exists>buf1 r1 s1. fetch_sum H N info buf r s = Some (Inr (d, buf1, r1, s1)) \<and> length buf1 = 4096 \<and> ota_flash s1 = ota_flash s
    \<and> flash_offset s1 = flash_offset s \<and> flash_limits s1 = flash_limits s \<and> sha256_ctx s1 = Some (sha256_starts H)"
proof -
  let ?s = "s\<lparr>SHA256_str := replicate 64 0 @ [0], SHA256_wrt := 0\<rparr>"
  let ?info = "\<lparr>server = ota_server info, path = p, info_buffer = buf, buffer_size = length buf\<rparr>"
  let ?text = "hex_bytes d @ tail"
  obtain del part buf1 s1 where dl: "del @ part = ?text" "del = [] \<and> s1 = ?s" "length buf1 = 4096" "take (length part) buf1 = part"
      "HttpClient_dowload N ?info SHA256_check_callback SHA256_check_callback r ?s
        = map_option (\<lambda>s2. (HTTP_OK, buf1, \<lparr>response_code = HTTP_OK, body_length = length ?text\<rparr>, s2)) (SHA256_check_callback buf1 (length part) s1)"
    by (rule sum_sink.served [of N ?info ?text "\<lambda>del s. del = [] \<and> s = ?s" ?s SHA256_check_callback r])
       (use assms in \<open>auto simp: mult_2\<close>)
  have part: "part = ?text" "64 \<le> length part" using dl(1,2) assms(3) by auto
  have "take 64 buf1 = take 64 (take (length part) buf1)" using part(2) by (simp add: min.absorb1)
  also have "\<dots> = hex_bytes d" by (simp only: dl(4)) (simp add: part(1) assms(3))
  finally have "SHA256_check_callback buf1 (length part) s1 = Some (?s\<lparr>SHA256_str := hex_bytes d @ [0], SHA256_wrt := 64\<rparr>)"
    using dl(2,3) part(2) by (simp add: SHA256_check_callback_def SHA256_SIZE_STR_def Let_def min.absorb2)
  moreover have "convert_SHA256_Str_TO_uint32 (hex_bytes d @ [0]) = d"
    using convert_words [of d 16 "[0]"] assms(3) by (simp add: convert_SHA256_Str_TO_uint32_def SHA256_SIZE_STR_def)
  ultimately show ?thesis using assms(1) dl(3,5) by (simp add: fetch_sum_def)
qed

context http_slot
begin

lemma loading_start:
  assumes "flash_offset s = a" "flash_limits s = a + MAX_IMAGE_SIZE" "case sha256_ctx s of None \<Rightarrow> \<not> summed | Some ctx \<Rightarrow> summed \<and> ctx = sha256_starts H"
  shows "loading summed (ota_flash s) [] s"
proof -
  have "stored_part a (ota_flash s) [] (ota_flash s)"
    unfolding stored_part_def using slot(1) by (intro exI [of _ a]) simp
  then show ?thesis using assms starts by (auto simp: loading_def split: option.splits)
qed

lemma image_loaded:
  assumes "serves N (http_request (path info) (server info)) content" "buffer_size info = 4096" "length (info_buffer info) = 4096"
    and "length content mod 4 = 0" "length content < MAX_IMAGE_SIZE" "loading summed m0 [] s"
  shows "\<exists>buf' r' s'. HttpClient_dowload N info (ota_firmaware_dowload_callback h R c H) (ota_firmaware_dowload_callback h R c H) r s
      = Some (HTTP_OK, buf', r', s') \<and> loading summed m0 content s'"
proof -
  obtain del part buf1 s1 where dl: "del @ part = content" "length del mod 4096 = 0" "length part < 4096" "loading summed m0 del s1" "length buf1 = 4096"
      "take (length part) buf1 = part"
      "HttpClient_dowload N info (ota_firmaware_dowload_callback h R c H) (ota_firmaware_dowload_callback h R c H) r s
        = map_option (\<lambda>s2. (HTTP_OK, buf1, \<lparr>response_code = HTTP_OK, body_length = length content\<rparr>, s2))
            (ota_firmaware_dowload_callback h R c H buf1 (length part) s1)"
    by (rule sink.served [of N info content summed m0 s "ota_firmaware_dowload_callback h R c H" r])
       (use assms in \<open>auto simp: MAX_IMAGE_SIZE_def\<close>)
  have len: "length content = length del + length part" unfolding dl(1) [symmetric] by simp
  have "length del mod 4 = 0" using dl(2) mod_mod_cancel [of 4 4096 "length del"] by simp
  then have "length part mod 4 = 0" using assms(4) len by (metis add_0 mod_add_left_eq)
  then obtain s2 where "ota_firmaware_dowload_callback h R c H buf1 (length part) s1 = Some s2" "loading summed m0 (del @ take (length part) buf1) s2"
    using callback_stores [OF dl(4,2), of "length part" buf1] dl(3,5) len assms(5) by auto
  then show ?thesis using dl(1,6,7) by auto
qed

end

section \<open>The update of a device\<close>

context http_slot
begin

lemma sum_fetched:
  assumes "\<And>p. sha256_path info = Some p \<Longrightarrow> serves N (http_request p (ota_server info)) (hex_bytes (digest content) @ tail)"
    and "length tail < 4032" "length buf = 4096"
  shows "\<exists>sha buf1 r1 s1. fetch_sum H N info buf r (s\<lparr>flash_offset := a, flash_limits := a + MAX_IMAGE_SIZE, sha256_ctx := None\<rparr>)
      = Some (Inr (sha, buf1, r1, s1)) \<and> length buf1 = 4096 \<and> loading (sha256_path info \<noteq> None) (ota_flash s) [] s1
    \<and> (take 32 sha = digest content \<or> sha256_path info = None)"
proof (cases "sha256_path info")
  case None
  then show ?thesis using assms(3) loading_start [of "s\<lparr>flash_offset := a, flash_limits := a + MAX_IMAGE_SIZE, sha256_ctx := None\<rparr>" False]
    by (simp add: fetch_sum_def)
next
  case (Some p)
  let ?s = "s\<lparr>flash_offset := a, flash_limits := a + MAX_IMAGE_SIZE, sha256_ctx := None\<rparr>"
  obtain buf1 r1 s1 where f: "fetch_sum H N info buf r ?s = Some (Inr (digest content, buf1, r1, s1))" "length buf1 = 4096" "ota_flash s1 = ota_flash s"
      "flash_offset s1 = a" "flash_limits s1 = a + MAX_IMAGE_SIZE" "sha256_ctx s1 = Some (sha256_starts H)"
    using fetch_sum_ok [OF Some assms(1) [OF Some] digest_length assms(2,3), of H r ?s] by auto
  then show ?thesis using loading_start [of s1 True] Some digest_length [of content] by simp
qed

lemma finish_installs:
  assumes "loading summed m0 (image_bytes img) s" "take 32 sha = digest (image_bytes img) \<or> \<not> summed"
    and "image_ok img" "checksum img = image_checksum h img" "length (image_bytes img) + 16 < MAX_IMAGE_SIZE"
    and "a + MAX_IMAGE_SIZE \<le> config_at h \<or> config_at h + 4096 \<le> a"
    and "rom < mem_read m0 (config_at h) (sizeof_rboot_config h) ! at_count h" "rom = word_of_nat n"
  shows "\<exists>s'. finish_update h R c H stk (Some heap) n a sha s = (OTA_UPDATE_DONE, s')
    \<and> mem_read (ota_flash s') a (length (image_bytes img)) = image_bytes img
    \<and> rboot_get_current_rom h R c stk (ota_flash s') = rom
    \<and> (\<forall>x. (x < a \<or> a + MAX_IMAGE_SIZE \<le> x) \<and> (x < config_at h \<or> config_at h + 4096 \<le> x) \<longrightarrow> ota_flash s' x = m0 x)"
proof -
  let ?n = "length (image_bytes img)"
  note l = assms(1) [unfolded loading_def]
  have part: "stored_part a m0 (image_bytes img) (ota_flash s)" using l by blast
  have sum: "\<not> (\<exists>ctx. sha256_ctx s = Some ctx \<and> take 32 (sha256_finish H ctx) \<noteq> take 32 sha)"
    using l assms(2) finish digest_length [of "image_bytes img"] by (auto split: option.splits)
  have "a mod 16 = 0" using slot(1) mod_mod_cancel [of 16 4096 a] by simp
  then have ver: "fst (rboot_verify_image h R c stk a (ota_flash s)) = None"
    using verify_image_ok [OF assms(3), of "ota_flash s" a stk] stored_part_read [OF part] slot(2) assms(4,5) by simp
  have rom: "rom < mem_read (ota_flash s) (config_at h) (sizeof_rboot_config h) ! at_count h"
    using assms(7) config_kept [OF part assms(6)] by (simp add: get_config_ok)
  let ?m = "snd (rboot_set_current_rom h R c (Some heap) stk rom (ota_flash s))"
  have "finish_update h R c H stk (Some heap) n a sha s = (OTA_UPDATE_DONE, s\<lparr>ota_flash := ?m\<rparr>)"
    unfolding finish_update_def if_not_P [OF sum] using ver set_current_rom_ok [OF rom, of heap stk] assms(8) by simp
  moreover note sel = select_keeps_slot [OF rom assms(6)]
  have "mem_read ?m a ?n = image_bytes img" using sel(2) [of ?n] assms(5) stored_part_read [OF part] by simp
  moreover have "rboot_get_current_rom h R c stk ?m = rom" using sel(1) [of 0] by simp
  moreover have "?m x = m0 x" if "x < a \<or> a + MAX_IMAGE_SIZE \<le> x" "x < config_at h \<or> config_at h + 4096 \<le> x" for x
    using sel(3) [of 0 x] that stored_part_frame [OF part] by simp
  ultimately show ?thesis by auto
qed

lemma installs:
  assumes conf: "conf = rboot_get_config h R c stk (ota_flash s)" "cur = unat (conf ! at_current_rom h)" "count = unat (conf ! at_count h)"
      "n = (cur + 1) mod count" "n \<noteq> cur" "0 < count" "a = rd32 conf (at_roms h + 4 * n)"
    and place: "a + MAX_IMAGE_SIZE \<le> config_at h \<or> config_at h + 4096 \<le> a"
    and img: "image_ok img" "checksum img = image_checksum h img" "length (image_bytes img) + 16 < MAX_IMAGE_SIZE"
    and sum: "\<And>p. sha256_path info = Some p \<Longrightarrow> serves N1 (http_request p (ota_server info)) (hex_bytes (digest (image_bytes img)) @ tail)"
      "length tail < 4032"
    and bin: "serves N2 (http_request (binary_path info) (ota_server info)) (image_bytes img)" and buf: "length buf = 4096"
  shows "\<exists>r' s'. ota_update h R c H stk (Some heap) N1 N2 buf info r s = Some (OTA_UPDATE_DONE, r', s')
    \<and> mem_read (ota_flash s') a (length (image_bytes img)) = image_bytes img
    \<and> unat (rboot_get_current_rom h R c stk (ota_flash s')) = n
    \<and> (\<forall>x. (x < a \<or> a + MAX_IMAGE_SIZE \<le> x) \<and> (x < config_at h \<or> config_at h + 4096 \<le> x) \<longrightarrow> ota_flash s' x = ota_flash s x)"
proof -
  let ?s = "s\<lparr>flash_offset := a, flash_limits := a + MAX_IMAGE_SIZE, sha256_ctx := None\<rparr>"
  let ?sum = "sha256_path info \<noteq> None"
  obtain sha buf1 r1 s1 where f: "fetch_sum H N1 info buf r ?s = Some (Inr (sha, buf1, r1, s1))" "length buf1 = 4096"
      "loading ?sum (ota_flash s) [] s1" "take 32 sha = digest (image_bytes img) \<or> \<not> ?sum"
    using sum_fetched [of info N1 "image_bytes img" tail buf r s] sum buf by auto
  let ?info = "\<lparr>server = ota_server info, path = binary_path info, info_buffer = buf1, buffer_size = length buf1\<rparr>"
  have "length (image_bytes img) mod 4 = 0" using img(1) mod_mod_cancel [of 4 16 "length (image_bytes img)"] by (simp add: image_ok_def)
  then obtain buf2 r2 s2 where d: "HttpClient_dowload N2 ?info (ota_firmaware_dowload_callback h R c H) (ota_firmaware_dowload_callback h R c H) r1 s1
      = Some (HTTP_OK, buf2, r2, s2)" "loading ?sum (ota_flash s) (image_bytes img) s2"
    using image_loaded [of N2 ?info "image_bytes img" ?sum "ota_flash s" s1 r1] bin f(2,3) img(3) by auto
  have n: "n < count" "count < 256" using conf(3,4,6) by simp_all
  then have rom: "(word_of_nat n :: byte) < mem_read (ota_flash s) (config_at h) (sizeof_rboot_config h) ! at_count h"
    using conf(1,3) by (simp add: get_config_ok word_less_nat_alt unat_word8_of_nat)
  have lim: "u32 (a + OTA_MAX_IMAGE_SIZE) = a + MAX_IMAGE_SIZE" using slot(2) chip by (simp add: limits_agree)
  have "ota_update h R c H stk (Some heap) N1 N2 buf info r s
      = (case finish_update h R c H stk (Some heap) n a sha s2 of (code, s4) \<Rightarrow> Some (code, r2, s4))"
    using conf f(1) d(1) lim by (simp add: ota_update_def Let_def)
  moreover obtain s' where "finish_update h R c H stk (Some heap) n a sha s2 = (OTA_UPDATE_DONE, s')"
      "mem_read (ota_flash s') a (length (image_bytes img)) = image_bytes img" "rboot_get_current_rom h R c stk (ota_flash s') = word_of_nat n"
      "\<forall>x. (x < a \<or> a + MAX_IMAGE_SIZE \<le> x) \<and> (x < config_at h \<or> config_at h + 4096 \<le> x) \<longrightarrow> ota_flash s' x = ota_flash s x"
    using finish_installs [OF d(2) f(4) img place rom refl, of stk heap] by blast
  ultimately show ?thesis using n by (simp add: unat_word8_of_nat)
qed

end

text \<open>
  C13. The update installs what the server has: with a valid image on the server for a slot that starts at a sector and
  lies apart from the configuration, and its sum at the start of a file of less than 4096 bytes (or no sum asked for),
  the update ends with \<open>OTA_UPDATE_DONE\<close>, the slot after the current one holds the image and is selected, and the
  flash is unchanged outside the slot and the sector of the configuration. Of each response the first segment brings the
  whole header and the beginning of the file (\<open>serves\<close>); the rest may be cut in any way. A response whose header comes in a
  segment of its own is refused (\<open>header_alone_fails\<close>).
\<close>

theorem update_installs_image:
  fixes s :: "'c http_ota"
  assumes "rboot_flash R h c" "sha256_routines H hashed digest"
    and conf: "conf = rboot_get_config h R c stk (ota_flash s)" "cur = unat (conf ! at_current_rom h)" "count = unat (conf ! at_count h)"
      "slot = (cur + 1) mod count" "slot \<noteq> cur" "0 < count" "a = rd32 conf (at_roms h + 4 * slot)"
    and place: "a mod 4096 = 0" "a + MAX_IMAGE_SIZE \<le> chip_size c" "a + MAX_IMAGE_SIZE \<le> config_at h \<or> config_at h + 4096 \<le> a"
    and img: "image_ok img" "checksum img = image_checksum h img" "length (image_bytes img) + 16 < MAX_IMAGE_SIZE"
    and sum: "\<And>p. sha256_path info = Some p \<Longrightarrow> serves N1 (http_request p (ota_server info)) (hex_bytes (digest (image_bytes img)) @ tail)"
      "length tail < 4032"
    and bin: "serves N2 (http_request (binary_path info) (ota_server info)) (image_bytes img)" and buf: "length buf = 4096"
  shows "\<exists>r' s'. ota_update h R c H stk (Some heap) N1 N2 buf info r s = Some (OTA_UPDATE_DONE, r', s')
    \<and> mem_read (ota_flash s') a (length (image_bytes img)) = image_bytes img
    \<and> unat (rboot_get_current_rom h R c stk (ota_flash s')) = slot
    \<and> (\<forall>x. (x < a \<or> a + MAX_IMAGE_SIZE \<le> x) \<and> (x < config_at h \<or> config_at h + 4096 \<le> x) \<longrightarrow> ota_flash s' x = ota_flash s x)"
  using assms by (intro http_slot.installs [where a = a] http_slot.intro http_slot_axioms.intro) assumption+

section \<open>A server\<close>

text \<open>A digest that keeps the message, for an example.\<close>

definition sample_sha256 :: "byte list sha256" where
  "sample_sha256 = \<lparr>sha256_starts = [], sha256_update = (\<lambda>bs ctx. ctx @ bs), sha256_finish = (\<lambda>ctx. take 32 (ctx @ replicate 32 0))\<rparr>"

lemma sample_sha256: "sha256_routines sample_sha256 (=) (\<lambda>msg. take 32 (msg @ replicate 32 0))"
  by unfold_locales (simp_all add: sample_sha256_def)

definition sample_server :: "byte list \<Rightarrow> byte list \<Rightarrow> http_net" where
  "sample_server ds content = sample_net [Data (length_header ds @ take 10 content), Data (drop 10 content)]"

lemma sample_server_serves:
  assumes "list_all isdigit ds" "ds \<noteq> []" "strtol10 ds = length content" "10 < length content" "length req < 152" "length ds < 12"
  shows "serves (sample_server ds content) req content"
proof -
  obtain b bs where d: "drop 10 content = b # bs" using assms(4) by (cases "drop 10 content") auto
  obtain x xs where "length_header ds @ take 10 content = x # xs" by (auto simp: length_header_def chars_def)
  then have "all_data [Data (length_header ds @ take 10 content), Data (drop 10 content)]" using d by (auto simp: all_data_def)
  moreover have "stream [Data (length_header ds @ take 10 content), Data (drop 10 content)] = length_header ds @ content" by simp
  moreover have "length (length_header ds) + 4 \<le> 4096" using assms(6) by (simp add: length_header_def chars_def)
  ultimately show ?thesis using assms(3-5) length_header_ok [OF assms(1,2)] unfolding serves_def
    by (intro conjI exI [of _ "length_header ds @ take 10 content"] exI [of _ "[Data (drop 10 content)]"] exI [of _ "length_header ds"])
       (simp_all add: sample_server_def sample_net_def)
qed

abbreviation server_64 :: "byte list \<Rightarrow> http_net" where
  "server_64 \<equiv> sample_server (chars ''64'')"

lemma server_64_serves: "length content = 64 \<Longrightarrow> length req < 152 \<Longrightarrow> serves (server_64 content) req content"
  by (rule sample_server_serves) (simp_all add: chars_def isdigit_def strtol10_def)

definition sample_info :: ota_info where
  "sample_info = \<lparr>ota_server = chars ''update'', binary_path = chars ''/f.bin'', sha256_path = Some (chars ''/f.sha'')\<rparr>"

definition sample_start :: "byte list http_ota" where
  "sample_start = \<lparr>ota_flash = mem_put 4096 two_slots (\<lambda>_. 255), flash_offset = 0, flash_limits = 0, sha256_ctx = None, SHA256_str = [], SHA256_wrt = 0\<rparr>"

interpretation sample: http_slot spi_rom rboot_layout sdk_flashchip_init sample_sha256 "(=)" "\<lambda>msg. take 32 (msg @ replicate 32 0)" "0x102000"
  by (intro http_slot.intro http_slot_axioms.intro rboot_flash_spi sample_sha256) (simp_all add: MAX_IMAGE_SIZE_def)

lemma sample_config:
  "rboot_get_config rboot_layout spi_rom sdk_flashchip_init [] (ota_flash sample_start) = two_slots"
  "unat (two_slots ! at_current_rom rboot_layout) = 0" "unat (two_slots ! at_count rboot_layout) = 2"
  "rd32 two_slots (at_roms rboot_layout + 4 * 1) = 0x102000"
  using start_config by (simp_all add: start_state_def sample_start_def, simp_all add: two_slots_def rboot_layout_def le32_def rd32_def)

abbreviation sample_sum :: "byte list" where
  "sample_sum \<equiv> take 32 (image_bytes small_image @ replicate 32 0)"

lemma sample_files:
  "serves (server_64 (image_bytes small_image)) (http_request (binary_path sample_info) (ota_server sample_info)) (image_bytes small_image)"
  "sha256_path sample_info = Some p \<Longrightarrow> serves (server_64 (hex_bytes sample_sum)) (http_request p (ota_server sample_info)) (hex_bytes sample_sum @ [])"
  unfolding append_Nil2
  by (intro server_64_serves; auto simp: small_image_ok http_request_length sample_info_def chars_def)+

lemma sample_place: "0x102000 + MAX_IMAGE_SIZE \<le> config_at rboot_layout \<or> config_at rboot_layout + 4096 \<le> 0x102000"
  by (simp add: config_at_def rboot_layout_def)

abbreviation sample_update :: "(nat \<times> HTTP_response \<times> byte list http_ota) option" where
  "sample_update \<equiv> ota_update rboot_layout spi_rom sdk_flashchip_init sample_sha256 [] (Some []) (server_64 (hex_bytes sample_sum))
     (server_64 (image_bytes small_image)) (replicate 4096 0) sample_info \<lparr>response_code = 0, body_length = 0\<rparr> sample_start"

lemma sample_updated: "\<exists>r' s'. sample_update = Some (OTA_UPDATE_DONE, r', s')"
  using sample.installs [of two_slots "[]" sample_start 0 2 1 small_image sample_info "server_64 (hex_bytes sample_sum)" "[]"
      "server_64 (image_bytes small_image)" "replicate 4096 0" "[]"] sample_config sample_files sample_place
  by (simp add: small_image_ok MAX_IMAGE_SIZE_def) blast

theorem update_installs_image_witness:
  "\<exists>r' s'. sample_update = Some (OTA_UPDATE_DONE, r', s') \<and> mem_read (ota_flash s') 0x102000 64 = image_bytes small_image
    \<and> unat (rboot_get_current_rom rboot_layout spi_rom sdk_flashchip_init [] (ota_flash s')) = 1"
  using update_installs_image [OF rboot_flash_spi sample_sha256, of two_slots "[]" sample_start 0 2 1 "0x102000" small_image sample_info
      "server_64 (hex_bytes sample_sum)" "[]" "server_64 (image_bytes small_image)" "replicate 4096 0" "[]"]
    sample_config sample_files sample_place
  by (simp add: small_image_ok MAX_IMAGE_SIZE_def) blast

end
