(* ===== verification/Http_ota_Safety.thy ===== *)
theory Http_ota_Safety
  imports Http_ota_Update
begin

text \<open>
  What a server can do to a device that updates over HTTP: the callbacks keep to the slot, for every sequence of
  segments and errors and every content, and the configuration changes only for an image that passes the check.
\<close>

section \<open>The callbacks keep to the slot\<close>

definition same_outside :: "nat \<Rightarrow> memory \<Rightarrow> memory \<Rightarrow> bool" where
  "same_outside a m0 m \<longleftrightarrow> (\<forall>x. x < a \<or> a + MAX_IMAGE_SIZE + 4096 \<le> x \<longrightarrow> m x = m0 x)"

definition in_slot :: "nat \<Rightarrow> memory \<Rightarrow> 'c http_ota \<Rightarrow> bool" where
  "in_slot a m0 s \<longleftrightarrow> same_outside a m0 (ota_flash s) \<and> a \<le> flash_offset s \<and> flash_offset s \<le> a + MAX_IMAGE_SIZE
     \<and> flash_offset s mod 4096 = 0 \<and> flash_limits s = a + MAX_IMAGE_SIZE"

lemma in_slot_same: "in_slot a m0 s \<Longrightarrow> same_outside a m0 (ota_flash s)"
  by (simp add: in_slot_def)

lemma sum_callback_keeps: "SHA256_check_callback buf n s = Some s' \<Longrightarrow> in_slot a m0 s \<Longrightarrow> in_slot a m0 s'"
  by (auto simp: SHA256_check_callback_def in_slot_def Let_def split: if_splits)

interpretation sum_keeps: full_buffer_keeps 4096 SHA256_check_callback "in_slot a m0" for a m0
  by unfold_locales (auto intro: sum_callback_keeps)

locale flash_area = rboot_flash R h c for R h c +
  fixes a :: nat
  assumes area: "a mod 4096 = 0" "a + MAX_IMAGE_SIZE + 4096 \<le> chip_size c"
begin

lemma callback_in_slot:
  assumes "in_slot a m0 s" "ota_firmaware_dowload_callback h R c H buf n s = Some s'" "length buf = 4096"
  shows "same_outside a m0 (ota_flash s')" and "n = 4096 \<Longrightarrow> in_slot a m0 s'"
proof -
  let ?w = "flash_offset s"
  note l = assms(1) [unfolded in_slot_def]
  have n: "n \<le> 4096" using assms(2,3) by (auto simp: ota_firmaware_dowload_callback_def split: if_splits)
  have u: "u32 (?w + n) = ?w + n" using l n area(2) chip by simp
  let ?m1 = "snd (sdk_spi_flash_erase_sector R c (?w div 4096) (ota_flash s))"
  let ?m2 = "snd (sdk_spi_flash_write R c ?w (Some buf) n ?m1)"
  have wd: "?w div 4096 * 4096 = ?w" using l by auto
  have "(?w div 4096 + 1) * 4096 \<le> chip_size c" using l area(2) wd by simp
  then have m1: "?m1 = nor_erase ?w 4096 (ota_flash s)"
    using flash_erase_ok [OF chip(1), of "?w div 4096" "ota_flash s"] wd by (simp add: SPI_FLASH_SECTOR_SIZE_def)
  have w4: "?w mod 4 = 0" using l mod_mod_cancel [of 4 4096 ?w] by simp
  have r4: "round4 n \<le> 4096" using n by (simp add: round4_def)
  have "?m2 = nor_program ?w (take (round4 n) buf) ?m1"
    using flash_write_ok [OF word_chip w4, of n buf ?m1] r4 assms(3) l area(2) by simp
  then have same: "same_outside a m0 ?m2"
    using l r4 area(2) unfolding same_outside_def m1 by (auto simp: nor_program_apply nor_erase_apply)
  have s': "(ota_flash s' = ota_flash s \<and> flash_offset s' = ?w \<or> ?w + n \<le> a + MAX_IMAGE_SIZE \<and> ota_flash s' = ?m2 \<and> flash_offset s' = ?w + n)
      \<and> flash_limits s' = flash_limits s"
    using assms(2) u l sector by (auto simp: ota_firmaware_dowload_callback_def Let_def split: if_splits)
  show "same_outside a m0 (ota_flash s')" using s' same l by auto
  show "in_slot a m0 s'" if "n = 4096" using s' same l that by (auto simp: in_slot_def)
qed

end

sublocale flash_area \<subseteq> image_keeps: full_buffer_keeps 4096 "ota_firmaware_dowload_callback h R c H" "in_slot a m0" for H m0
  by unfold_locales (auto intro: callback_in_slot(2))

section \<open>The update keeps to the slot\<close>

lemma fetch_keeps:
  assumes "fetch_sum H N info buf r s = Some res" "in_slot a m0 s" "length buf = 4096"
  shows "case res of Inl (code, r1, s1) \<Rightarrow> same_outside a m0 (ota_flash s1) | Inr (sha, buf1, r1, s1) \<Rightarrow> in_slot a m0 s1 \<and> length buf1 = 4096"
proof (cases "sha256_path info")
  case (Some p)
  let ?info = "\<lparr>server = ota_server info, path = p, info_buffer = buf, buffer_size = length buf\<rparr>"
  let ?s = "s\<lparr>SHA256_str := replicate 64 0 @ [0], SHA256_wrt := 0\<rparr>"
  obtain code buf1 r1 s1 where d: "HttpClient_dowload N ?info SHA256_check_callback SHA256_check_callback r ?s = Some (code, buf1, r1, s1)"
      "res = (if code \<noteq> HTTP_OK then Inl (code, r1, s1) else Inr (convert_SHA256_Str_TO_uint32 (SHA256_str s1), buf1, r1, s1\<lparr>sha256_ctx := Some (sha256_starts H)\<rparr>))"
    using assms(1) Some by (auto simp: fetch_sum_def bind_eq_Some_conv split: if_splits)
  have "in_slot a m0 ?s" using assms(2) by (simp add: in_slot_def)
  then have k: "code = HTTP_OK \<longrightarrow> length buf1 = 4096" "in_slot a m0 s1"
    using sum_keeps.download_keeps [OF d(1), of a m0] assms(3) sum_callback_keeps by auto
  then show ?thesis using d(2) by (auto simp: in_slot_def)
qed (use assms in \<open>auto simp: fetch_sum_def\<close>)

context flash_area
begin

lemma image_keeps:
  assumes "HttpClient_dowload N info (ota_firmaware_dowload_callback h R c H) (ota_firmaware_dowload_callback h R c H) r s = Some (code, buf1, r1, s1)"
    and "in_slot a m0 s" "length (info_buffer info) = 4096" "buffer_size info = 4096"
  shows "same_outside a m0 (ota_flash s1)"
  using image_keeps.download_keeps [OF assms] callback_in_slot(1) in_slot_same by blast

lemma finish_verified:
  assumes "finish_update h R c H stk heap n a sha s = (code, s')"
  shows "s' = s \<or> fst (rboot_verify_image h R c stk a (ota_flash s)) = None
    \<and> ota_flash s' = snd (rboot_set_current_rom h R c heap stk (word_of_nat n) (ota_flash s))"
  using assms by (auto simp: finish_update_def split: if_splits prod.splits)

lemma update_keeps:
  assumes conf: "conf = rboot_get_config h R c stk (ota_flash s)" "cur = unat (conf ! at_current_rom h)" "count = unat (conf ! at_count h)"
      "n = (cur + 1) mod count" "a = rd32 conf (at_roms h + 4 * n)"
    and buf: "length buf = 4096" and res: "ota_update h R c H stk heap N1 N2 buf info r s = Some (code, r', s')"
  shows "same_outside a (ota_flash s) (ota_flash s')
    \<or> (\<exists>m. same_outside a (ota_flash s) m \<and> fst (rboot_verify_image h R c stk a m) = None
        \<and> ota_flash s' = snd (rboot_set_current_rom h R c heap stk (word_of_nat n) m))"
proof (cases "n = cur \<or> count = 0")
  case True
  then have "s' = s" using res conf by (auto simp: ota_update_def Let_def split: if_splits)
  then show ?thesis by (simp add: same_outside_def)
next
  case False
  let ?s = "s\<lparr>flash_offset := a, flash_limits := u32 (a + OTA_MAX_IMAGE_SIZE), sha256_ctx := None\<rparr>"
  have lim: "u32 (a + OTA_MAX_IMAGE_SIZE) = a + MAX_IMAGE_SIZE" using area(2) chip by (simp add: limits_agree)
  have start: "in_slot a (ota_flash s) ?s" using area(1) lim by (simp add: in_slot_def same_outside_def)
  obtain f where f: "fetch_sum H N1 info buf r ?s = Some f" using res conf False by (auto simp: ota_update_def Let_def split: option.splits)
  note k = fetch_keeps [OF f start buf]
  show ?thesis
  proof (cases f)
    case (Inl x)
    then have "x = (code, r', s')" using res conf False f by (simp add: ota_update_def Let_def)
    then show ?thesis using k Inl by simp
  next
    case (Inr y)
    obtain sha buf1 r1 s1 where y: "y = (sha, buf1, r1, s1)" by (cases y)
    let ?info = "\<lparr>server = ota_server info, path = binary_path info, info_buffer = buf1, buffer_size = length buf1\<rparr>"
    let ?cb = "ota_firmaware_dowload_callback h R c H"
    obtain err buf2 r2 s2 where d: "HttpClient_dowload N2 ?info ?cb ?cb r1 s1 = Some (err, buf2, r2, s2)"
      and e: "(if err \<noteq> HTTP_OK then Some (err, r2, s2) else (case finish_update h R c H stk heap n a sha s2 of (code, s4) \<Rightarrow> Some (code, r2, s4)))
        = Some (code, r', s')"
      using res conf False f Inr y by (auto simp: ota_update_def Let_def bind_eq_Some_conv)
    have "same_outside a (ota_flash s) (ota_flash s2)" using image_keeps [OF d] k Inr y by simp
    moreover have "s' = s2 \<or> fst (rboot_verify_image h R c stk a (ota_flash s2)) = None
        \<and> ota_flash s' = snd (rboot_set_current_rom h R c heap stk (word_of_nat n) (ota_flash s2))"
      using e finish_verified [of H stk heap n sha s2 code s'] by (auto split: if_splits prod.splits)
    ultimately show ?thesis by blast
  qed
qed

end

section \<open>Properties\<close>

text \<open>
  C14. Whatever the server and the network do, an update that returns has changed nothing outside the slot and the one
  sector behind it, unless the flash held an image in the slot that passes the check; then the only other
  change is the selection of this slot.
\<close>

theorem update_keeps_to_slot:
  assumes "rboot_flash R h c" "conf = rboot_get_config h R c stk (ota_flash s)" "cur = unat (conf ! at_current_rom h)" "count = unat (conf ! at_count h)"
      "slot = (cur + 1) mod count" "a = rd32 conf (at_roms h + 4 * slot)" "a mod 4096 = 0" "a + MAX_IMAGE_SIZE + 4096 \<le> chip_size c"
    and "length buf = 4096" "ota_update h R c H stk heap N1 N2 buf info r s = Some (code, r', s')"
  shows "same_outside a (ota_flash s) (ota_flash s')
    \<or> (\<exists>m. same_outside a (ota_flash s) m \<and> fst (rboot_verify_image h R c stk a m) = None
        \<and> ota_flash s' = snd (rboot_set_current_rom h R c heap stk (word_of_nat slot) m))"
  using assms by (intro flash_area.update_keeps [where a = a] flash_area.intro flash_area_axioms.intro)

interpretation sample_area: flash_area spi_rom rboot_layout sdk_flashchip_init "0x102000"
  by (intro flash_area.intro flash_area_axioms.intro rboot_flash_spi) (simp_all add: MAX_IMAGE_SIZE_def)

theorem update_keeps_to_slot_witness:
  "\<exists>r' s'. sample_update = Some (OTA_UPDATE_DONE, r', s') \<and> (same_outside 0x102000 (ota_flash sample_start) (ota_flash s')
    \<or> (\<exists>m. same_outside 0x102000 (ota_flash sample_start) m \<and> fst (rboot_verify_image rboot_layout spi_rom sdk_flashchip_init [] 0x102000 m) = None
        \<and> ota_flash s' = snd (rboot_set_current_rom rboot_layout spi_rom sdk_flashchip_init (Some []) [] (word_of_nat 1) m)))"
proof -
  obtain r' s' where u: "sample_update = Some (OTA_UPDATE_DONE, r', s')" using sample_updated by blast
  show ?thesis
    using u update_keeps_to_slot [OF rboot_flash_spi sample_config(1) [symmetric] sample_config(2,3) [symmetric] _ sample_config(4) [symmetric] _ _ _ u]
    by (simp add: MAX_IMAGE_SIZE_def)
qed

section \<open>A status that looks like success\<close>

definition status_23 :: "byte list" where
  "status_23 = chars ''HTTP/1.1 23'' @ [13, 10, 13, 10]"

lemma status_23_parsed: "length x = 4 \<Longrightarrow> response_code (parse_http_header (status_23 @ x) r) = 23"
proof -
  assume "length x = 4"
  then have "parse_lines False (10 # 13 # 10 # x) r' = r'" for r' by (intro parse_lines_short) simp
  then show ?thesis
    by (cases r) (simp add: parse_http_header_def status_23_def chars_def parse_lines.simps [of True] Let_def line_split_def
        sub_token_def cut_token_def parse_http_header_HTTP_STATUS_def cstring_def isdigit_def strtol10_def)
qed

lemma status_23_download:
  assumes "resolved N" "socket_ok N" "connected N" "sent_ok N" "length (http_request (path info) (server info)) < 152"
    and "answer N (http_request (path info) (server info)) = Data status_23 # evs" "buffer_size info = 4096" "length (info_buffer info) = 4096"
  shows "\<exists>buf' r'. HttpClient_dowload N info cb fcb r s = Some (23, buf', r', s)"
proof -
  let ?d = "\<lparr>dl_buffer = info_buffer info, wrt_ptr = 0, full = 0, tot_http_pdu_rd = 0, http_reponse = r, cb_state = s\<rparr>"
  let ?b = "status_23 @ drop 15 (info_buffer info)"
  have len: "length status_23 = 15" by (simp add: status_23_def chars_def)
  have find: "strstr_end ?b 0 = Some (Some 11)" by (simp add: status_23_def chars_def)
  have "take 19 ?b = status_23 @ take 4 (drop 15 (info_buffer info))" using len by simp
  then have code: "response_code (parse_http_header (take 19 ?b) r) = 23" using status_23_parsed [of "take 4 (drop 15 (info_buffer info))" r] assms(8) by simp
  have "add_read 0 15 = 15" using add_read_id [of 0 15] by simp
  then obtain d where d: "after_read 4096 cb status_23 15 ?d = Some (Inl d)" "response_code (http_reponse d) = 23" "cb_state d = s"
    using find code len assms(8) by (auto simp: after_read_def take_header_def Let_def HTTP_OK_def)
  have "download_loop 4096 cb (Data status_23 # evs) ?d = Some (Inl d)" using d(1) len by (subst download_loop.simps) simp
  then show ?thesis using assms d by (simp add: HttpClient_dowload_def Let_def MAX_REQUEST_SIZE_def)
qed

text \<open>
  C15. The status of the server is returned as the result of the update, and the codes share one range: a server that
  answers with the status 23 makes an update without a sum file report \<open>OTA_UPDATE_DONE\<close>, although the flash is as
  before.
\<close>

theorem status_taken_for_update:
  assumes "conf = rboot_get_config h R c stk (ota_flash s)" "cur = unat (conf ! at_current_rom h)" "count = unat (conf ! at_count h)"
    and "(cur + 1) mod count \<noteq> cur" "count \<noteq> 0" "sha256_path info = None" "length buf = 4096"
    and "resolved N2" "socket_ok N2" "connected N2" "sent_ok N2" "length (http_request (binary_path info) (ota_server info)) < 152"
    and "answer N2 (http_request (binary_path info) (ota_server info)) = Data status_23 # evs"
  shows "\<exists>r' s'. ota_update h R c H stk heap N1 N2 buf info r s = Some (OTA_UPDATE_DONE, r', s') \<and> ota_flash s' = ota_flash s"
proof -
  let ?n = "(cur + 1) mod count"
  let ?a = "rd32 conf (at_roms h + 4 * ?n)"
  let ?s = "s\<lparr>flash_offset := ?a, flash_limits := u32 (?a + OTA_MAX_IMAGE_SIZE), sha256_ctx := None\<rparr>"
  let ?info = "\<lparr>server = ota_server info, path = binary_path info, info_buffer = buf, buffer_size = length buf\<rparr>"
  let ?cb = "ota_firmaware_dowload_callback h R c H"
  obtain buf' r' where d: "HttpClient_dowload N2 ?info ?cb ?cb r ?s = Some (23, buf', r', ?s)"
    using status_23_download [of N2 ?info evs ?cb ?cb r ?s] assms(7-13) by auto
  have "ota_update h R c H stk heap N1 N2 buf info r s = Some (23, r', ?s)"
    using assms(1-6) d by (simp add: ota_update_def fetch_sum_def Let_def HTTP_OK_def)
  then show ?thesis by (simp add: OTA_UPDATE_DONE_def)
qed

theorem status_taken_for_update_witness:
  "\<exists>r' s'. ota_update rboot_layout spi_rom sdk_flashchip_init sample_sha256 [] (Some []) (sample_net []) (sample_net [Data status_23]) (replicate 4096 0)
      (sample_info\<lparr>sha256_path := None\<rparr>) \<lparr>response_code = 0, body_length = 0\<rparr> sample_start = Some (OTA_UPDATE_DONE, r', s')
    \<and> ota_flash s' = ota_flash sample_start"
  by (rule status_taken_for_update [where evs = "[]", OF refl refl refl])
     (use sample_config in \<open>simp_all add: sample_net_def sample_info_def http_request_length chars_def\<close>)

section \<open>Files that are too long\<close>

definition sum_part :: "byte list \<Rightarrow> 'c http_ota \<Rightarrow> bool" where
  "sum_part del s \<longleftrightarrow> (del = [] \<and> SHA256_wrt s = 0 \<or> length del = 4096 \<and> SHA256_wrt s = 64) \<and> length (SHA256_str s) = 65"

interpretation long_sum: chunk_sink 4096 SHA256_check_callback sum_part 8191
proof
  fix del s and buf :: "byte list"
  assume "sum_part del s" "length del mod 4096 = 0" "length buf = 4096" "length del + 4096 \<le> 8191"
  then show "\<exists>s'. SHA256_check_callback buf 4096 s = Some s' \<and> sum_part (del @ buf) s'"
    by (auto simp: sum_part_def SHA256_check_callback_def SHA256_SIZE_STR_def)
qed simp_all

text \<open>
  A file with the sum that does not fit in one buffer overruns \<open>SHA256_str\<close>: the 65 bytes are full after the first
  part, and the check for it lets one more part through.
\<close>

theorem long_sum_file_overruns:
  assumes "sha256_path info = Some p" "serves N (http_request p (ota_server info)) content" "4098 \<le> length content" "length content < 8192" "length buf = 4096"
  shows "fetch_sum H N info buf r s = None"
proof -
  let ?s = "s\<lparr>SHA256_str := replicate 64 0 @ [0], SHA256_wrt := 0\<rparr>"
  let ?info = "\<lparr>server = ota_server info, path = p, info_buffer = buf, buffer_size = length buf\<rparr>"
  obtain del part buf1 s1 where dl: "del @ part = content" "length part < 4096" "sum_part del s1"
      "HttpClient_dowload N ?info SHA256_check_callback SHA256_check_callback r ?s
        = map_option (\<lambda>s2. (HTTP_OK, buf1, \<lparr>response_code = HTTP_OK, body_length = length content\<rparr>, s2)) (SHA256_check_callback buf1 (length part) s1)"
    by (rule long_sum.served [of N ?info content ?s SHA256_check_callback r]) (use assms in \<open>auto simp: sum_part_def\<close>)
  have "length content = length del + length part" unfolding dl(1) [symmetric] by simp
  then have "2 \<le> length part" "SHA256_wrt s1 = 64" "length (SHA256_str s1) = 65" using dl(2,3) assms(3) by (auto simp: sum_part_def)
  then have "SHA256_check_callback buf1 (length part) s1 = None" by (auto simp: SHA256_check_callback_def SHA256_SIZE_STR_def Let_def)
  then show ?thesis using dl(4) assms(1) by (simp add: fetch_sum_def)
qed

theorem long_sum_file_overruns_witness:
  "fetch_sum sample_sha256 (sample_server (chars ''5000'') (replicate 5000 48)) sample_info (replicate 4096 0) \<lparr>response_code = 0, body_length = 0\<rparr> sample_start = None"
  by (rule long_sum_file_overruns [of sample_info "chars ''/f.sha''", OF _ sample_server_serves])
     (simp_all add: sample_info_def chars_def isdigit_def strtol10_def http_request_length)

context http_slot
begin

lemma whole_slot:
  assumes "serves N (http_request (path info) (server info)) content" "buffer_size info = 4096" "length (info_buffer info) = 4096"
    and "length content = MAX_IMAGE_SIZE" "loading summed m0 [] s" "a + MAX_IMAGE_SIZE + 4096 \<le> chip_size c"
  shows "\<exists>buf' r' s'. HttpClient_dowload N info (ota_firmaware_dowload_callback h R c H) (ota_firmaware_dowload_callback h R c H) r s
      = Some (HTTP_OK, buf', r', s') \<and> (\<forall>x. a + MAX_IMAGE_SIZE \<le> x \<and> x < a + MAX_IMAGE_SIZE + 4096 \<longrightarrow> ota_flash s' x = 255)"
proof -
  let ?cb = "ota_firmaware_dowload_callback h R c H"
  let ?w = "a + MAX_IMAGE_SIZE"
  obtain del part buf1 s1 where dl: "del @ part = content" "length del mod 4096 = 0" "length part < 4096" "loading summed m0 del s1" "length buf1 = 4096"
      "HttpClient_dowload N info ?cb ?cb r s
        = map_option (\<lambda>s2. (HTTP_OK, buf1, \<lparr>response_code = HTTP_OK, body_length = length content\<rparr>, s2)) (?cb buf1 (length part) s1)"
    by (rule sink.served [of N info content summed m0 s ?cb r]) (use assms in \<open>auto simp: MAX_IMAGE_SIZE_def\<close>)
  have "length content = length del + length part" unfolding dl(1) [symmetric] by simp
  then have sum: "length del + length part = 1048576" using assms(4) by (simp add: MAX_IMAGE_SIZE_def)
  have "(length del + length part) mod 4096 = length part" using dl(2,3) mod_add_left_eq [of "length del" 4096 "length part"] by simp
  then have "length part = 0" unfolding sum by simp
  then have "length part = 0" "length del = MAX_IMAGE_SIZE" using sum by (simp_all add: MAX_IMAGE_SIZE_def)
  then have l: "flash_offset s1 = ?w" "flash_limits s1 = ?w" "length part = 0" using dl(4) by (simp_all add: loading_def)
  have w: "?w mod 4096 = 0" "?w mod 4 = 0" "u32 ?w = ?w" "?w div 4096 * 4096 = ?w"
    using slot(1) assms(6) chip mod_mult_self2 [of a 4096 256] mod_mod_cancel [of 4 4096 ?w] by (auto simp: MAX_IMAGE_SIZE_def)
  have "(?w div 4096 + 1) * 4096 \<le> chip_size c" using assms(6) w(4) by simp
  then have er: "snd (sdk_spi_flash_erase_sector R c (?w div 4096) m) = nor_erase ?w 4096 m" for m
    using flash_erase_ok [OF chip(1), of "?w div 4096" m] w(4) by (simp add: SPI_FLASH_SECTOR_SIZE_def)
  have "snd (sdk_spi_flash_write R c ?w (Some buf1) 0 m) = m" for m
    using flash_write_words [OF w(2), of 0 buf1 m] assms(6) w(3) by simp
  then obtain s2 where "?cb buf1 (length part) s1 = Some s2" "ota_flash s2 = nor_erase ?w 4096 (ota_flash s1)"
    using l w sector er by (auto simp: ota_firmaware_dowload_callback_def Let_def)
  then show ?thesis using dl(6) by (auto simp: nor_erase_apply)
qed

end

text \<open>
  A file of exactly the size of a slot is accepted and erases the sector behind the slot: after the last full buffer the
  final callback gets no bytes, the limit is not exceeded, and the next sector is erased.
\<close>

theorem whole_slot_erases_next:
  assumes "rboot_flash R h c" "sha256_routines H hashed digest" "a mod 4096 = 0" "a + MAX_IMAGE_SIZE + 4096 \<le> chip_size c"
    and "flash_offset s = a" "flash_limits s = a + MAX_IMAGE_SIZE" "sha256_ctx s = None"
    and "serves N (http_request (path info) (server info)) content" "buffer_size info = 4096" "length (info_buffer info) = 4096" "length content = MAX_IMAGE_SIZE"
  shows "\<exists>buf' r' s'. HttpClient_dowload N info (ota_firmaware_dowload_callback h R c H) (ota_firmaware_dowload_callback h R c H) r s
      = Some (HTTP_OK, buf', r', s') \<and> (\<forall>x. a + MAX_IMAGE_SIZE \<le> x \<and> x < a + MAX_IMAGE_SIZE + 4096 \<longrightarrow> ota_flash s' x = 255)"
proof -
  have l: "http_slot R h c H hashed digest a" using assms(1-4) by (intro http_slot.intro http_slot_axioms.intro) auto
  show ?thesis using http_slot.whole_slot [OF l assms(8-11)] http_slot.loading_start [OF l assms(5,6), of False] assms(4,7) by simp
qed

theorem whole_slot_erases_next_witness:
  "\<exists>buf' r' s'. HttpClient_dowload (sample_server (chars ''1048576'') (replicate 1048576 0))
      \<lparr>server = chars ''update'', path = chars ''/f.bin'', info_buffer = replicate 4096 0, buffer_size = 4096\<rparr>
      (ota_firmaware_dowload_callback rboot_layout spi_rom sdk_flashchip_init sample_sha256) (ota_firmaware_dowload_callback rboot_layout spi_rom sdk_flashchip_init sample_sha256)
      \<lparr>response_code = 0, body_length = 0\<rparr> (sample_start\<lparr>flash_offset := 0x102000, flash_limits := 0x202000\<rparr>)
      = Some (HTTP_OK, buf', r', s') \<and> ota_flash s' 0x202000 = 255"
proof -
  let ?info = "\<lparr>server = chars ''update'', path = chars ''/f.bin'', info_buffer = replicate 4096 0, buffer_size = 4096\<rparr>"
  let ?s = "sample_start\<lparr>flash_offset := 0x102000, flash_limits := 0x202000\<rparr>"
  have "serves (sample_server (chars ''1048576'') (replicate 1048576 0)) (http_request (path ?info) (server ?info)) (replicate 1048576 0)"
    by (rule sample_server_serves) (simp_all add: chars_def isdigit_def strtol10_def http_request_length)
  from whole_slot_erases_next [OF rboot_flash_spi sample_sha256, of "0x102000" ?s, OF _ _ _ _ _ this, of "\<lparr>response_code = 0, body_length = 0\<rparr>"]
  show ?thesis by (simp add: MAX_IMAGE_SIZE_def sample_start_def) (elim exE conjE, intro exI conjI, assumption, simp)
qed

end
