(* ===== verification/Mdns.thy ===== *)
theory Mdns
  imports Prelude
begin

text \<open>
  The multicast DNS responder \<open>src/extras/mdnsresponder/mdnsresponder.c\<close>, in the default configuration
  without IPv6: the label encoding of names, the list of resource records, and the answer to a query.

  The numbers of record types and classes from the headers of the network stack are the parameter
  \<open>D\<close>; the locale \<open>dns_numbers\<close> has their documented values. A message is the list of its bytes; a read
  behind its end and a write behind the end of a local buffer are results of their own, because
  nothing in the code prevents them.
\<close>

section \<open>Constants and records\<close>

record dns_h =
  DNS_RRTYPE_A :: nat
  DNS_RRTYPE_PTR :: nat
  DNS_RRTYPE_TXT :: nat
  DNS_RRCLASS_IN :: nat

definition DNS_RRTYPE_SRV :: nat where
  "DNS_RRTYPE_SRV = 33"

definition DNS_RRTYPE_ANY :: nat where
  "DNS_RRTYPE_ANY = 255"

definition DNS_RRCLASS_ANY :: nat where
  "DNS_RRCLASS_ANY = 255"

definition SIZEOF_DNS_HDR :: nat where
  "SIZEOF_DNS_HDR = 12"

definition SIZEOF_DNS_QUERY :: nat where
  "SIZEOF_DNS_QUERY = 4"

definition SIZEOF_DNS_ANSWER :: nat where
  "SIZEOF_DNS_ANSWER = 10"

definition kMaxNameSize :: nat where
  "kMaxNameSize = 64"

definition kMaxQStr :: nat where
  "kMaxQStr = 128"

definition MDNS_RESPONDER_REPLY_SIZE :: nat where
  "MDNS_RESPONDER_REPLY_SIZE = 320"

definition DNS_FLAG1_RESP :: byte where
  "DNS_FLAG1_RESP = 0x80"

definition DNS_FLAG1_OPMASK :: byte where
  "DNS_FLAG1_OPMASK = 0x78"

definition DNS_FLAG1_AUTH :: byte where
  "DNS_FLAG1_AUTH = 0x04"

definition DNS_FLAG1_TRUNC :: byte where
  "DNS_FLAG1_TRUNC = 0x02"

text \<open>The full stop and the big-endian fields of a message.\<close>

definition dot :: byte where
  "dot = 0x2e"

definition net16 :: "nat \<Rightarrow> byte list" where
  "net16 n = [word_of_nat (n div 256), word_of_nat n]"

definition net32 :: "nat \<Rightarrow> byte list" where
  "net32 n = net16 (n div 65536) @ net16 n"

definition rd_net16 :: "byte list \<Rightarrow> nat \<Rightarrow> nat" where
  "rd_net16 bs i = 256 * unat (bs ! i) + unat (bs ! (i + 1))"

text \<open>
  A record of the database. The key is a C string, without its terminator here; the database is the
  linked list \<open>gDictP\<close>, the latest record first.
\<close>

record mdns_rsrc =
  rType :: nat
  rTTL :: nat
  rKey :: "byte list"
  rData :: "byte list"

section \<open>Names\<close>

datatype label_result =
    Labels nat "byte list"
  | Overread
  | Overflow

text \<open>
  The copy of the \<open>n\<close> bytes of a label to the buffer \<open>q\<close> at \<open>i\<close>: the new position in the message, in the
  buffer, and the buffer.
\<close>

fun copy_label :: "byte list \<Rightarrow> nat \<Rightarrow> nat \<Rightarrow> byte list \<Rightarrow> nat \<Rightarrow> label_result + nat \<times> nat \<times> byte list" where
  "copy_label pkt p 0 q i = Inr (p, i, q)"
| "copy_label pkt p (Suc n) q i =
     (if p \<ge> length pkt then Inl Overread
      else if i \<ge> length q then Inl Overflow
      else copy_label pkt (p + 1) n (q[i := pkt ! p]) (i + 1))"

text \<open>The result of the call for a compression pointer, with the position behind the pointer.\<close>

fun behind_pointer :: "nat \<Rightarrow> label_result \<Rightarrow> label_result" where
  "behind_pointer p (Labels _ q) = Labels p q"
| "behind_pointer p r = r"

text \<open>
  \<open>mdns_labels2str\<close> from position \<open>p\<close> of the message, writing to \<open>q\<close> from \<open>i\<close> on. \<open>None\<close> means that
  the recursion over compression pointers does not end. A pointer ends the name: the result is
  the position behind it.
\<close>

partial_function (option) mdns_labels2str :: "byte list \<Rightarrow> nat \<Rightarrow> byte list \<Rightarrow> nat \<Rightarrow> label_result option" where
  "mdns_labels2str pkt p q i =
     (if p \<ge> length pkt then Some Overread
      else
        let n = unat (pkt ! p)
        in if n \<ge> 0xC0
           then if p + 1 \<ge> length pkt then Some Overread
                else Option.bind (mdns_labels2str pkt ((n - 0xC0) * 256 + unat (pkt ! (p + 1))) q i)
                       (\<lambda>r. Some (behind_pointer (p + 2) r))
           else if n \<ge> 0x40 then Some (Labels (p + 1) q)
           else (case copy_label pkt (p + 1) n q i of
                   Inl r \<Rightarrow> Some r
                 | Inr (p1, i1, q1) \<Rightarrow>
                     if i1 \<ge> length q1 then Some Overflow
                     else if n = 0 then Some (Labels p1 (q1[i1 := 0]))
                     else mdns_labels2str pkt p1 (q1[i1 := dot]) (i1 + 1)))"

declare mdns_labels2str.simps [code]

text \<open>
  \<open>mdns_str2labels\<close> of the rest of a name, \<open>lc\<close> bytes being encoded already; \<open>None\<close> is the result 0 for
  a name that does not fit. The length of a label is stored as a byte.
\<close>

function str2labels_from :: "byte list \<Rightarrow> nat \<Rightarrow> nat \<Rightarrow> byte list option" where
  "str2labels_from name lc mx =
     (let lab = takeWhile (\<lambda>c. c \<noteq> dot) name;
          n = length lab;
          after = drop n name
      in if lc + 1 + n > mx then None
         else if n = 0 then Some [0]
         else map_option (\<lambda>ls. word_of_nat n # lab @ ls) (str2labels_from (drop 1 after) (lc + 1 + n) mx))"
  by pat_completeness auto

termination
proof (relation "measure (\<lambda>(name, lc, mx). length name)", goal_cases)
  case (2 name lc mx lab n after)
  then have "0 < length name" by (cases name) auto
  moreover have "n \<noteq> 0" using 2 by simp
  ultimately show ?case using 2 by simp
qed simp

declare str2labels_from.simps [simp del]

definition mdns_str2labels :: "byte list \<Rightarrow> nat \<Rightarrow> byte list option" where
  "mdns_str2labels name mx = str2labels_from name 0 mx"

section \<open>Questions\<close>

text \<open>The question at \<open>qp\<close>: the position behind it, the name buffer, class, type and the unicast bit.\<close>

datatype question_result =
    Question nat "byte list" nat nat bool
  | Question_fault label_result

definition mdns_get_question :: "byte list \<Rightarrow> nat \<Rightarrow> byte list \<Rightarrow> question_result option" where
  "mdns_get_question pkt qp qStr =
     (case mdns_labels2str pkt qp qStr 0 of
        None \<Rightarrow> None
      | Some (Labels qp1 q1) \<Rightarrow>
          if qp1 + SIZEOF_DNS_QUERY > length pkt then Some (Question_fault Overread)
          else
            let qType = rd_net16 pkt qp1;
                cls = rd_net16 pkt (qp1 + 2)
            in Some (Question (qp1 + SIZEOF_DNS_QUERY) q1 (cls mod 0x8000) qType (cls \<ge> 0x8000))
      | Some r \<Rightarrow> Some (Question_fault r))"

section \<open>The database\<close>

text \<open>\<open>malloc\<close> says whether an allocation of the given size succeeds; 16 bytes precede the key.\<close>

definition mdns_add_response :: "(nat \<Rightarrow> bool) \<Rightarrow> byte list \<Rightarrow> nat \<Rightarrow> nat \<Rightarrow> byte list \<Rightarrow> mdns_rsrc list \<Rightarrow> mdns_rsrc list" where
  "mdns_add_response malloc vKey vType ttl dat gDictP =
     (if malloc (16 + (length vKey + 1) + length dat)
      then \<lparr>rType = vType, rTTL = ttl, rKey = vKey, rData = dat\<rparr> # gDictP
      else gDictP)"

definition mdns_add_PTR :: "dns_h \<Rightarrow> (nat \<Rightarrow> bool) \<Rightarrow> byte list \<Rightarrow> nat \<Rightarrow> byte list \<Rightarrow> mdns_rsrc list \<Rightarrow> mdns_rsrc list" where
  "mdns_add_PTR D malloc rkey ttl nmStr gDictP =
     (case mdns_str2labels nmStr kMaxNameSize of
        Some lBuff \<Rightarrow> mdns_add_response malloc rkey (DNS_RRTYPE_PTR D) ttl lBuff gDictP
      | None \<Rightarrow> gDictP)"

definition mdns_add_SRV :: "(nat \<Rightarrow> bool) \<Rightarrow> byte list \<Rightarrow> nat \<Rightarrow> nat \<Rightarrow> byte list \<Rightarrow> mdns_rsrc list \<Rightarrow> mdns_rsrc list" where
  "mdns_add_SRV malloc rkey ttl rPort targName gDictP =
     (case mdns_str2labels targName kMaxNameSize of
        Some lBuff \<Rightarrow> mdns_add_response malloc rkey DNS_RRTYPE_SRV ttl (net16 0 @ net16 0 @ net16 rPort @ lBuff) gDictP
      | None \<Rightarrow> gDictP)"

definition mdns_add_TXT :: "dns_h \<Rightarrow> (nat \<Rightarrow> bool) \<Rightarrow> byte list \<Rightarrow> nat \<Rightarrow> byte list \<Rightarrow> mdns_rsrc list \<Rightarrow> mdns_rsrc list" where
  "mdns_add_TXT D malloc rkey ttl txStr gDictP =
     (let n = u16 (length txStr)
      in if n > 255 then gDictP
         else mdns_add_response malloc rkey (DNS_RRTYPE_TXT D) ttl (word_of_nat n # take n txStr) gDictP)"

definition mdns_add_A :: "dns_h \<Rightarrow> (nat \<Rightarrow> bool) \<Rightarrow> byte list \<Rightarrow> nat \<Rightarrow> byte list \<Rightarrow> mdns_rsrc list \<Rightarrow> mdns_rsrc list" where
  "mdns_add_A D malloc rkey ttl addr gDictP = mdns_add_response malloc rkey (DNS_RRTYPE_A D) ttl addr gDictP"

definition ascii :: "string \<Rightarrow> byte list" where
  "ascii s = map of_char s"

text \<open>\<open>flags\<close> has the bits \<open>mdns_UDP\<close> (1) and \<open>mdns_Browsable\<close> (2); \<open>addText\<close> is \<open>None\<close> for a null pointer.\<close>

definition mdns_add_facility :: "dns_h \<Rightarrow> (nat \<Rightarrow> bool) \<Rightarrow> byte list \<Rightarrow> byte list \<Rightarrow> byte list option \<Rightarrow> nat \<Rightarrow> nat \<Rightarrow> nat
    \<Rightarrow> mdns_rsrc list \<Rightarrow> mdns_rsrc list" where
  "mdns_add_facility D malloc instanceName serviceName addText flags onPort ttl gDictP =
     (let key = serviceName @ [dot] @ (if odd flags then ascii ''_udp'' else ascii ''_tcp'') @ ascii ''.local.'';
          fullName = instanceName @ [dot] @ key;
          devName = instanceName @ ascii ''.local.'';
          d1 = (case addText of Some txt \<Rightarrow> mdns_add_TXT D malloc fullName ttl txt gDictP | None \<Rightarrow> gDictP);
          d2 = mdns_add_A D malloc devName ttl [0, 0, 0, 0] d1;
          d3 = mdns_add_SRV malloc fullName ttl onPort devName d2;
          d4 = mdns_add_PTR D malloc key ttl fullName d3
      in if odd (flags div 2) then mdns_add_PTR D malloc (ascii ''_services._dns-sd._udp.local.'') ttl key d4 else d4)"

text \<open>\<open>strcasecmp\<close> compares C strings without regard to the case of letters.\<close>

definition to_lower :: "byte \<Rightarrow> byte" where
  "to_lower c = (if 0x41 \<le> c \<and> c \<le> 0x5a then c + 0x20 else c)"

definition c_string :: "byte list \<Rightarrow> byte list" where
  "c_string q = takeWhile (\<lambda>c. c \<noteq> 0) q"

definition same_name :: "byte list \<Rightarrow> byte list \<Rightarrow> bool" where
  "same_name a b \<longleftrightarrow> map to_lower a = map to_lower b"

text \<open>The index of the first record that matches, \<open>None\<close> for the null pointer.\<close>

fun mdns_match_from :: "nat \<Rightarrow> byte list \<Rightarrow> nat \<Rightarrow> mdns_rsrc list \<Rightarrow> nat option" where
  "mdns_match_from k qstr qType [] = None"
| "mdns_match_from k qstr qType (r # rs) =
     (if (rType r = qType \<or> qType = DNS_RRTYPE_ANY) \<and> same_name (rKey r) qstr then Some k
      else mdns_match_from (k + 1) qstr qType rs)"

definition mdns_match :: "byte list \<Rightarrow> nat \<Rightarrow> mdns_rsrc list \<Rightarrow> nat option" where
  "mdns_match qstr qType gDictP = mdns_match_from 0 qstr qType gDictP"

section \<open>Answers\<close>

text \<open>\<open>resp\<close> is the response built so far; a record that does not fit is left out.\<close>

definition mdns_add_to_answer :: "dns_h \<Rightarrow> mdns_rsrc \<Rightarrow> byte list \<Rightarrow> byte list" where
  "mdns_add_to_answer D r resp =
     (let remaining = MDNS_RESPONDER_REPLY_SIZE - length resp
      in case mdns_str2labels (rKey r) remaining of
           None \<Rightarrow> resp
         | Some ls \<Rightarrow>
             if length ls + SIZEOF_DNS_ANSWER + length (rData r) > remaining then resp
             else resp @ ls @ net16 (rType r) @ net16 (DNS_RRCLASS_IN D) @ net32 (rTTL r) @ net16 (length (rData r)) @ rData r)"

text \<open>The address of the interface replaces the data of an A record before it is sent.\<close>

definition update_A :: "dns_h \<Rightarrow> byte list \<Rightarrow> nat \<Rightarrow> mdns_rsrc list \<Rightarrow> mdns_rsrc list" where
  "update_A D ip4 k d =
     (if rType (d ! k) = DNS_RRTYPE_A D then d[k := (d ! k)\<lparr>rData := ip4 @ drop 4 (rData (d ! k))\<rparr>] else d)"

text \<open>The variables of the loop over the questions.\<close>

record reply_state =
  resp :: "byte list"
  numanswers :: nat
  extra :: "nat option"
  dict :: "mdns_rsrc list"

text \<open>The record next to the one that answered is volunteered.\<close>

definition extra_record :: "dns_h \<Rightarrow> nat \<Rightarrow> nat \<Rightarrow> mdns_rsrc list \<Rightarrow> nat option \<Rightarrow> nat option" where
  "extra_record D k qType d ex =
     (if qType = DNS_RRTYPE_PTR D
      then if k + 1 < length d \<and> rType (d ! (k + 1)) = DNS_RRTYPE_SRV then Some (k + 1) else ex
      else if qType = DNS_RRTYPE_SRV
      then if k + 1 < length d \<and> rType (d ! (k + 1)) = DNS_RRTYPE_A D then Some (k + 1) else ex
      else ex)"

definition answer_question :: "dns_h \<Rightarrow> byte list \<Rightarrow> byte list \<Rightarrow> nat \<Rightarrow> nat \<Rightarrow> reply_state \<Rightarrow> reply_state" where
  "answer_question D ip4 qStr qClass qType s =
     (if qClass = DNS_RRCLASS_IN D \<or> qClass = DNS_RRCLASS_ANY
      then
        (case mdns_match (c_string qStr) qType (dict s) of
           None \<Rightarrow> s
         | Some k \<Rightarrow>
             let d = update_A D ip4 k (dict s);
                 new = mdns_add_to_answer D (d ! k) (resp s);
                 s1 = (if length new > length (resp s) then s\<lparr>resp := new, numanswers := u16 (numanswers s + 1)\<rparr> else s)
             in s1\<lparr>dict := d, extra := extra_record D k qType d (extra s)\<rparr>)
      else s)"

text \<open>The loop: \<open>n\<close> questions are left, \<open>qp\<close> is the position and \<open>qStr\<close> the buffer on the stack.\<close>

fun reply_loop :: "dns_h \<Rightarrow> byte list \<Rightarrow> byte list \<Rightarrow> nat \<Rightarrow> nat \<Rightarrow> byte list \<Rightarrow> reply_state \<Rightarrow> (label_result + reply_state) option" where
  "reply_loop D ip4 pkt 0 qp qStr s = Some (Inr s)"
| "reply_loop D ip4 pkt (Suc n) qp qStr s =
     (case mdns_get_question pkt qp qStr of
        None \<Rightarrow> None
      | Some (Question_fault r) \<Rightarrow> Some (Inl r)
      | Some (Question qp1 q1 qClass qType qUnicast) \<Rightarrow>
          reply_loop D ip4 pkt n qp1 q1 (answer_question D ip4 q1 qClass qType s))"

text \<open>The header of the response with the counts of answers and extra records.\<close>

definition response_header :: "byte list \<Rightarrow> nat \<Rightarrow> nat \<Rightarrow> byte list" where
  "response_header pkt answers extras =
     take 2 pkt @ [DNS_FLAG1_RESP + DNS_FLAG1_AUTH, 0] @ net16 0 @ net16 answers @ net16 0 @ net16 extras"

text \<open>
  The result is a fault, or the message sent to the multicast group, if any, and the database.
  \<open>None\<close> means that the call does not return.
\<close>

definition mdns_reply :: "dns_h \<Rightarrow> byte list \<Rightarrow> bool \<Rightarrow> byte list \<Rightarrow> byte list \<Rightarrow> mdns_rsrc list
    \<Rightarrow> (label_result + byte list option \<times> mdns_rsrc list) option" where
  "mdns_reply D ip4 malloc_ok qStr pkt gDictP =
     (if \<not> malloc_ok then Some (Inr (None, gDictP))
      else
        let s0 = \<lparr>resp = replicate SIZEOF_DNS_HDR 0, numanswers = 0, extra = None, dict = gDictP\<rparr>
        in (case reply_loop D ip4 pkt (rd_net16 pkt 4) SIZEOF_DNS_HDR qStr s0 of
              None \<Rightarrow> None
            | Some (Inl r) \<Rightarrow> Some (Inl r)
            | Some (Inr s) \<Rightarrow>
                if length (resp s) > SIZEOF_DNS_HDR
                then
                  (case extra s of
                     None \<Rightarrow> Some (Inr (Some (response_header pkt (numanswers s) 0 @ drop SIZEOF_DNS_HDR (resp s)), dict s))
                   | Some k \<Rightarrow>
                       let d = update_A D ip4 k (dict s);
                           new = mdns_add_to_answer D (d ! k) (resp s);
                           n = (if length new > length (resp s) then 1 else 0)
                       in Some (Inr (Some (response_header pkt (numanswers s) n @ drop SIZEOF_DNS_HDR new), d)))
                else Some (Inr (None, dict s))))"

text \<open>The callback for a received message.\<close>

definition mdns_recv :: "dns_h \<Rightarrow> byte list \<Rightarrow> bool \<Rightarrow> bool \<Rightarrow> byte list \<Rightarrow> byte list \<Rightarrow> mdns_rsrc list
    \<Rightarrow> (label_result + byte list option \<times> mdns_rsrc list) option" where
  "mdns_recv D ip4 malloc_payload malloc_ok qStr pkt gDictP =
     (if length pkt > MDNS_RESPONDER_REPLY_SIZE then Some (Inr (None, gDictP))
      else if length pkt < SIZEOF_DNS_HDR + SIZEOF_DNS_QUERY + 1 + SIZEOF_DNS_ANSWER + 1 then Some (Inr (None, gDictP))
      else if \<not> malloc_payload then Some (Inr (None, gDictP))
      else if pkt ! 2 AND (DNS_FLAG1_RESP + DNS_FLAG1_OPMASK + DNS_FLAG1_TRUNC) = 0 \<and> rd_net16 pkt 4 > 0
      then mdns_reply D ip4 malloc_ok qStr pkt gDictP
      else Some (Inr (None, gDictP)))"

end
