(* ===== verification/Mdns_Answers.thy ===== *)
theory Mdns_Answers
  imports Mdns
begin

text \<open>
  What the responder guarantees: names survive the label encoding, replies fit their buffer, a
  question for a registered record is answered; and what a hostile message can do to it.
\<close>

section \<open>Names as lists of labels\<close>

type_synonym label = "byte list"

definition label_ok :: "label \<Rightarrow> bool" where
  "label_ok l \<longleftrightarrow> l \<noteq> [] \<and> length l < 64 \<and> dot \<notin> set l \<and> 0 \<notin> set l"

definition name_of :: "label list \<Rightarrow> byte list" where
  "name_of ls = concat (map (\<lambda>l. l @ [dot]) ls)"

definition labels_of :: "label list \<Rightarrow> byte list" where
  "labels_of ls = concat (map (\<lambda>l. word_of_nat (length l) # l) ls) @ [0]"

lemma name_of_simps [simp]: "name_of [] = []" "name_of (l # ls) = l @ [dot] @ name_of ls"
  by (simp_all add: name_of_def)

lemma labels_of_simps [simp]: "labels_of [] = [0]" "labels_of (l # ls) = word_of_nat (length l) # l @ labels_of ls"
  by (simp_all add: labels_of_def)

lemma length_labels_of [simp]: "length (labels_of ls) = length (name_of ls) + 1"
  by (induction ls) auto

lemma str2labels_from_ok:
  assumes "list_all label_ok ls"
  shows "str2labels_from (name_of ls) lc mx = (if lc + length (labels_of ls) \<le> mx then Some (labels_of ls) else None)"
  using assms
proof (induction ls arbitrary: lc)
  case Nil
  then show ?case by (simp add: str2labels_from.simps)
next
  case (Cons l ls)
  have l: "dot \<notin> set l" "l \<noteq> []" using Cons.prems by (auto simp: label_ok_def)
  then have tw: "takeWhile (\<lambda>c. c \<noteq> dot) (name_of (l # ls)) = l" by (auto simp: takeWhile_append takeWhile_eq_all_conv)
  have "str2labels_from (name_of (l # ls)) lc mx =
      (if lc + 1 + length l > mx then None
       else map_option (\<lambda>r. word_of_nat (length l) # l @ r) (str2labels_from (name_of ls) (lc + 1 + length l) mx))"
    using l(2) by (subst str2labels_from.simps) (simp only: tw Let_def, simp)
  then show ?case using Cons by auto
qed

lemma str2labels_ok:
  "list_all label_ok ls \<Longrightarrow> mdns_str2labels (name_of ls) mx = (if length (labels_of ls) \<le> mx then Some (labels_of ls) else None)"
  using str2labels_from_ok [of ls 0 mx] by (simp add: mdns_str2labels_def)

text \<open>The bytes \<open>bs\<close> are in the message at \<open>p\<close>.\<close>

definition at_pos :: "byte list \<Rightarrow> nat \<Rightarrow> byte list \<Rightarrow> bool" where
  "at_pos pkt p bs \<longleftrightarrow> p + length bs \<le> length pkt \<and> take (length bs) (drop p pkt) = bs"

lemma at_pos_append: "at_pos pkt p (xs @ ys) \<longleftrightarrow> at_pos pkt p xs \<and> at_pos pkt (p + length xs) ys"
proof -
  have "take (length (xs @ ys)) (drop p pkt) = take (length xs) (drop p pkt) @ take (length ys) (drop (p + length xs) pkt)"
    by (simp add: take_add add.commute)
  then show ?thesis unfolding at_pos_def by (auto simp: append_eq_append_conv)
qed

lemma at_pos_middle: "length xs = p \<Longrightarrow> at_pos (xs @ bs @ ys) p bs"
  by (auto simp: at_pos_def)

lemma at_pos_Nil [simp]: "at_pos pkt p [] \<longleftrightarrow> p \<le> length pkt"
  by (simp add: at_pos_def)

lemma at_pos_Cons: "at_pos pkt p (x # xs) \<longleftrightarrow> p < length pkt \<and> pkt ! p = x \<and> at_pos pkt (p + 1) xs"
proof -
  have "at_pos pkt p [x] \<longleftrightarrow> p < length pkt \<and> pkt ! p = x"
    by (auto simp: at_pos_def take_Suc_conv_app_nth hd_drop_conv_nth)
  then show ?thesis using at_pos_append [of pkt p "[x]" xs] by simp
qed

text \<open>A buffer with the bytes \<open>bs\<close> written at \<open>i\<close>.\<close>

definition put_at :: "byte list \<Rightarrow> nat \<Rightarrow> byte list \<Rightarrow> byte list" where
  "put_at q i bs = take i q @ bs @ drop (i + length bs) q"

lemma put_at_length [simp]: "i + length bs \<le> length q \<Longrightarrow> length (put_at q i bs) = length q"
  by (simp add: put_at_def)

lemma put_at_Cons: "i < length q \<Longrightarrow> put_at (q[i := x]) (i + 1) xs = put_at q i (x # xs)"
  by (simp add: put_at_def take_Suc_conv_app_nth drop_update_cancel)

lemma put_at_append: "i + length xs \<le> length q \<Longrightarrow> put_at (put_at q i xs) (i + length xs) ys = put_at q i (xs @ ys)"
  by (simp add: put_at_def ac_simps)

lemma copy_label_ok:
  assumes "at_pos pkt p l" "i \<le> length q"
  shows "copy_label pkt p (length l) q i =
    (if i + length l \<le> length q then Inr (p + length l, i + length l, put_at q i l) else Inl Overflow)"
  using assms
proof (induction l arbitrary: p q i)
  case Nil
  then show ?case by (simp add: put_at_def)
next
  case (Cons x l)
  then show ?case
    using put_at_Cons [of i q x l] by (auto simp: at_pos_Cons)
qed

text \<open>Decoding a name: it is stored with its terminator, or it overflows the buffer.\<close>

lemma labels2str_ok:
  assumes "list_all label_ok ls" "at_pos pkt p (labels_of ls)" "i \<le> length q"
  shows "mdns_labels2str pkt p q i = Some (if i + length (name_of ls) + 1 \<le> length q
    then Labels (p + length (labels_of ls)) (put_at q i (name_of ls @ [0])) else Overflow)"
  using assms
proof (induction ls arbitrary: p q i)
  case Nil
  then show ?case by (subst mdns_labels2str.simps) (auto simp: at_pos_Cons put_at_def upd_conv_take_nth_drop)
next
  case (Cons l ls)
  have l: "length l < 64" "l \<noteq> []" using Cons.prems(1) by (auto simp: label_ok_def)
  then have n: "unat (word_of_nat (length l) :: byte) = length l" by (simp add: unat_word8_of_nat)
  have at: "p < length pkt" "pkt ! p = word_of_nat (length l)" "at_pos pkt (p + 1) l" "at_pos pkt (p + 1 + length l) (labels_of ls)"
    using Cons.prems(2) by (auto simp: at_pos_Cons at_pos_append)
  note copy = copy_label_ok [OF at(3) Cons.prems(3), unfolded Suc_eq_plus1 [symmetric]]
  show ?case
  proof (cases "i + length l + 1 \<le> length q")
    case True
    let ?q = "(put_at q i l)[i + length l := dot]"
    have q: "?q = put_at q i (l @ [dot])" using True by (simp add: put_at_def list_update_append upd_conv_take_nth_drop)
    have "mdns_labels2str pkt p q i = mdns_labels2str pkt (p + 1 + length l) ?q (i + length l + 1)"
      using l True at(1) by (subst mdns_labels2str.simps) (simp add: at(2) n copy Let_def)
    also have "\<dots> = Some (if i + length l + 1 + length (name_of ls) + 1 \<le> length q
        then Labels (p + 1 + length l + length (labels_of ls)) (put_at ?q (i + length l + 1) (name_of ls @ [0])) else Overflow)"
      using Cons.IH [of "p + 1 + length l" "i + length l + 1" ?q] Cons.prems(1) at(4) True by simp
    also have "put_at ?q (i + length l + 1) (name_of ls @ [0]) = put_at q i (name_of (l # ls) @ [0])"
      unfolding q using put_at_append [of i "l @ [dot]" q "name_of ls @ [0]"] True by simp
    finally show ?thesis by (simp add: ac_simps)
  next
    case False
    then show ?thesis
      using l at(1) by (subst mdns_labels2str.simps) (auto simp: at(2) n copy Let_def)
  qed
qed

lemma labels2str_pointer:
  assumes "at_pos pkt p [word_of_nat (0xC0 + t div 256), word_of_nat t]" "t < 0x4000"
  shows "mdns_labels2str pkt p q i = Option.bind (mdns_labels2str pkt t q i) (\<lambda>r. Some (behind_pointer (p + 2) r))"
proof -
  have "t div 256 < 64" using assms(2) by (simp add: less_mult_imp_div_less)
  then have "unat (word_of_nat (0xC0 + t div 256) :: byte) = 0xC0 + t div 256" by (simp only: unat_word8_of_nat) simp
  then show ?thesis
    using assms(1) by (subst mdns_labels2str.simps) (auto simp: at_pos_Cons Let_def unat_word8_of_nat simp del: of_nat_add)
qed

lemma c_string_name:
  assumes "list_all label_ok ls" "length (name_of ls) + 1 \<le> length q"
  shows "c_string (put_at q 0 (name_of ls @ [0])) = name_of ls"
proof -
  have "0 \<notin> set (name_of ls)" using assms(1) by (induction ls) (auto simp: label_ok_def dot_def)
  then show ?thesis unfolding c_string_def put_at_def by (simp add: takeWhile_tail) (metis takeWhile_eq_all_conv)
qed

section \<open>Replies fit\<close>

lemma length_net [simp]: "length (net16 n) = 2" "length (net32 n) = 4"
  by (simp_all add: net16_def net32_def)

lemma add_to_answer_length:
  assumes "length rs \<le> MDNS_RESPONDER_REPLY_SIZE"
  shows "length rs \<le> length (mdns_add_to_answer D r rs)" "length (mdns_add_to_answer D r rs) \<le> MDNS_RESPONDER_REPLY_SIZE"
  using assms by (auto simp: mdns_add_to_answer_def Let_def SIZEOF_DNS_ANSWER_def split: option.splits)

definition reply_ok :: "reply_state \<Rightarrow> bool" where
  "reply_ok s \<longleftrightarrow> SIZEOF_DNS_HDR \<le> length (resp s) \<and> length (resp s) \<le> MDNS_RESPONDER_REPLY_SIZE"

lemma answer_question_ok: "reply_ok s \<Longrightarrow> reply_ok (answer_question D ip4 q cl ty s)"
  using add_to_answer_length
  by (auto simp: reply_ok_def answer_question_def Let_def split: option.splits intro: order_trans)

lemma reply_loop_ok: "reply_loop D ip4 pkt n qp q s = Some (Inr s') \<Longrightarrow> reply_ok s \<Longrightarrow> reply_ok s'"
proof (induction n arbitrary: qp q s)
  case (Suc n)
  then show ?case by (auto split: option.splits question_result.splits intro: answer_question_ok)
qed simp

lemma length_response_header: "2 \<le> length pkt \<Longrightarrow> length (response_header pkt a x) = SIZEOF_DNS_HDR"
  by (simp add: response_header_def SIZEOF_DNS_HDR_def min_def)

lemma reply_fits_buffer:
  assumes "mdns_reply D ip4 mem q pkt d = Some (Inr (Some reply, d'))" "2 \<le> length pkt"
  shows "length reply \<le> MDNS_RESPONDER_REPLY_SIZE"
proof -
  let ?s0 = "\<lparr>resp = replicate SIZEOF_DNS_HDR 0, numanswers = 0, extra = None, dict = d\<rparr>"
  obtain s where s: "reply_loop D ip4 pkt (rd_net16 pkt 4) SIZEOF_DNS_HDR q ?s0 = Some (Inr s)"
    using assms(1) by (auto simp: mdns_reply_def Let_def split: if_splits option.splits sum.splits)
  have "reply_ok ?s0" by (simp add: reply_ok_def SIZEOF_DNS_HDR_def MDNS_RESPONDER_REPLY_SIZE_def)
  then have ok: "reply_ok s" by (rule reply_loop_ok [OF s])
  then have "length (resp s) \<le> MDNS_RESPONDER_REPLY_SIZE" "length (mdns_add_to_answer D r (resp s)) \<le> MDNS_RESPONDER_REPLY_SIZE"
    "length (resp s) \<le> length (mdns_add_to_answer D r (resp s))" for r
    using add_to_answer_length [of "resp s" D r] by (auto simp: reply_ok_def)
  then show ?thesis
    using assms by (auto simp: mdns_reply_def s Let_def length_response_header split: if_splits option.splits)
qed

section \<open>A question is answered\<close>

locale dns_numbers =
  fixes D :: dns_h
  assumes numbers: "DNS_RRTYPE_A D = 1" "DNS_RRTYPE_PTR D = 12" "DNS_RRTYPE_TXT D = 16" "DNS_RRCLASS_IN D = 1"

definition rfc1035 :: dns_h where
  "rfc1035 = \<lparr>DNS_RRTYPE_A = 1, DNS_RRTYPE_PTR = 12, DNS_RRTYPE_TXT = 16, DNS_RRCLASS_IN = 1\<rparr>"

interpretation rfc1035: dns_numbers rfc1035
  by unfold_locales (simp_all add: rfc1035_def)

text \<open>A query with one question, and the bytes of an answer.\<close>

definition query :: "byte list \<Rightarrow> label list \<Rightarrow> nat \<Rightarrow> byte list \<Rightarrow> byte list" where
  "query ident ls ty rest = ident @ [0, 0] @ net16 1 @ replicate 6 0 @ labels_of ls @ net16 ty @ net16 1 @ rest"

definition answer_bytes :: "label list \<Rightarrow> nat \<Rightarrow> nat \<Rightarrow> byte list \<Rightarrow> byte list" where
  "answer_bytes ks ty ttl dat = labels_of ks @ net16 ty @ net16 1 @ net32 ttl @ net16 (length dat) @ dat"

lemma rd_net16_at: "at_pos pkt p (net16 n) \<Longrightarrow> n < 65536 \<Longrightarrow> rd_net16 pkt p = n"
  by (simp add: net16_def at_pos_Cons rd_net16_def unat_word8_of_nat)

lemma query_parts:
  assumes "length ident = 2"
  shows "at_pos (query ident ls ty rest) 2 [0, 0]" "at_pos (query ident ls ty rest) 4 (net16 1)"
    "at_pos (query ident ls ty rest) 12 (labels_of ls)" "at_pos (query ident ls ty rest) (12 + length (labels_of ls)) (net16 ty)"
    "at_pos (query ident ls ty rest) (12 + length (labels_of ls) + 2) (net16 1)"
proof -
  have "query ident ls ty rest = (ident @ [0, 0] @ net16 1 @ replicate 6 0) @ labels_of ls @ (net16 ty @ net16 1 @ rest)"
    "query ident ls ty rest = (ident @ [0, 0] @ net16 1 @ replicate 6 0 @ labels_of ls) @ net16 ty @ (net16 1 @ rest)"
    "query ident ls ty rest = (ident @ [0, 0] @ net16 1 @ replicate 6 0 @ labels_of ls @ net16 ty) @ net16 1 @ rest"
    "query ident ls ty rest = (ident @ [0, 0]) @ net16 1 @ (replicate 6 0 @ labels_of ls @ net16 ty @ net16 1 @ rest)"
    "query ident ls ty rest = ident @ [0, 0] @ (net16 1 @ replicate 6 0 @ labels_of ls @ net16 ty @ net16 1 @ rest)"
    by (simp_all add: query_def)
  note eq = this
  show "at_pos (query ident ls ty rest) 2 [0, 0]" unfolding eq(5) by (rule at_pos_middle) (simp add: assms)
  show "at_pos (query ident ls ty rest) 4 (net16 1)" unfolding eq(4) by (rule at_pos_middle) (simp add: assms)
  show "at_pos (query ident ls ty rest) 12 (labels_of ls)" unfolding eq(1) by (rule at_pos_middle) (simp add: assms)
  show "at_pos (query ident ls ty rest) (12 + length (labels_of ls)) (net16 ty)"
    unfolding eq(2) by (rule at_pos_middle) (simp add: assms)
  show "at_pos (query ident ls ty rest) (12 + length (labels_of ls) + 2) (net16 1)"
    unfolding eq(3) by (rule at_pos_middle) (simp add: assms)
qed

lemma get_question_query:
  assumes "length ident = 2" "list_all label_ok ls" "length (name_of ls) + 1 \<le> length q" "ty < 65536"
  shows "mdns_get_question (query ident ls ty rest) 12 q
    = Some (Question (12 + length (labels_of ls) + 4) (put_at q 0 (name_of ls @ [0])) 1 ty False)"
proof -
  note at = query_parts [OF assms(1), of ls ty rest]
  have "12 + length (labels_of ls) + 4 \<le> length (query ident ls ty rest)" using assms(1) by (simp add: query_def)
  then show ?thesis
    using labels2str_ok [OF assms(2) at(3), of 0 q] assms(3) rd_net16_at [OF at(4) assms(4)] rd_net16_at [OF at(5)]
    by (simp add: mdns_get_question_def SIZEOF_DNS_QUERY_def Let_def)
qed

lemma add_to_answer_ok:
  assumes "list_all label_ok ks" "rKey r = name_of ks" "DNS_RRCLASS_IN D = 1"
    and "length rs + length (answer_bytes ks (rType r) (rTTL r) (rData r)) \<le> MDNS_RESPONDER_REPLY_SIZE"
  shows "mdns_add_to_answer D r rs = rs @ answer_bytes ks (rType r) (rTTL r) (rData r)"
proof -
  have "length (labels_of ks) + SIZEOF_DNS_ANSWER + length (rData r) \<le> MDNS_RESPONDER_REPLY_SIZE - length rs"
    using assms(4) by (simp add: answer_bytes_def SIZEOF_DNS_ANSWER_def)
  then show ?thesis
    using assms(1-3) by (simp add: mdns_add_to_answer_def Let_def str2labels_ok answer_bytes_def)
qed

lemma add_to_answer_extends: "\<exists>zs. mdns_add_to_answer D r rs = rs @ zs"
  by (auto simp: mdns_add_to_answer_def Let_def split: option.splits)

lemma pointer_loop:
  assumes "at_pos pkt p [word_of_nat (0xC0 + p div 256), word_of_nat p]" "p < 0x4000"
  shows "mdns_labels2str pkt p q i = None"
proof -
  have "p div 256 < 64" using assms(2) by (simp add: less_mult_imp_div_less)
  then have n: "unat (word_of_nat (0xC0 + p div 256) :: byte) = 0xC0 + p div 256" by (simp only: unat_word8_of_nat) simp
  have "pk = pkt \<longrightarrow> x \<noteq> p" if "mdns_labels2str pk x q i = Some y" for pk x q i y
    using that
  proof (rule mdns_labels2str.raw_induct [rotated], intro impI notI)
    fix f :: "byte list \<Rightarrow> nat \<Rightarrow> byte list \<Rightarrow> nat \<Rightarrow> label_result option" and pk x q i y
    assume IH: "\<And>pk x q i y. f pk x q i = Some y \<Longrightarrow> pk = pkt \<longrightarrow> x \<noteq> p" and "pk = pkt" "x = p"
    note x = this(2,3)
    have none: "f pkt p q i = None" using IH [of pkt p q i] by (cases "f pkt p q i") auto
    assume body: "(if length pk \<le> x then Some Overread
      else let n = unat (pk ! x)
        in if 0xC0 \<le> n
           then if length pk \<le> x + 1 then Some Overread
                else Option.bind (f pk ((n - 0xC0) * 256 + unat (pk ! (x + 1))) q i) (\<lambda>r. Some (behind_pointer (x + 2) r))
           else if 0x40 \<le> n then Some (Labels (x + 1) q)
           else case copy_label pk (x + 1) n q i of Inl r \<Rightarrow> Some r
             | Inr (p1, i1, q1) \<Rightarrow> if length q1 \<le> i1 then Some Overflow
                 else if n = 0 then Some (Labels p1 (q1[i1 := 0])) else f pk p1 (q1[i1 := dot]) (i1 + 1)) = Some y"
    then show False
      using assms(1) n none unfolding x by (auto simp: at_pos_Cons Let_def unat_word8_of_nat simp del: of_nat_add)
  qed
  then have "mdns_labels2str pkt p q i \<noteq> Some y" for y by blast
  then show ?thesis by (cases "mdns_labels2str pkt p q i") blast+
qed

text \<open>The bytes that the record volunteered next to record \<open>k\<close> adds to a response, if there is one.\<close>

definition volunteered :: "dns_h \<Rightarrow> byte list \<Rightarrow> nat \<Rightarrow> nat \<Rightarrow> mdns_rsrc list \<Rightarrow> byte list \<Rightarrow> byte list" where
  "volunteered D ip4 k ty d rs =
     (case extra_record D k ty d None of
        None \<Rightarrow> []
      | Some j \<Rightarrow> drop (length rs) (mdns_add_to_answer D (update_A D ip4 j d ! j) rs))"

lemma reply_exact:
  assumes "dns_numbers D" "length ident = 2" "list_all label_ok ls" "length (name_of ls) < length q" "ty < 65536"
    and len: "28 \<le> length (query ident ls ty tail)" "length (query ident ls ty tail) \<le> MDNS_RESPONDER_REPLY_SIZE"
    and match: "mdns_match (name_of ls) ty d = Some k"
    and r: "r = update_A D ip4 k d ! k" "list_all label_ok ks" "rKey r = name_of ks"
    and fits: "12 + length (answer_bytes ks (rType r) (rTTL r) (rData r)) \<le> MDNS_RESPONDER_REPLY_SIZE"
    and vol: "vol = volunteered D ip4 k ty (update_A D ip4 k d) (replicate 12 0 @ answer_bytes ks (rType r) (rTTL r) (rData r))"
  shows "mdns_recv D ip4 True True q (query ident ls ty tail) d = Some (Inr
      (Some (response_header (query ident ls ty tail) 1 (if vol = [] then 0 else 1) @ answer_bytes ks (rType r) (rTTL r) (rData r) @ vol),
       case extra_record D k ty (update_A D ip4 k d) None of None \<Rightarrow> update_A D ip4 k d | Some j \<Rightarrow> update_A D ip4 j (update_A D ip4 k d)))"
proof -
  let ?pkt = "query ident ls ty tail" and ?d = "update_A D ip4 k d"
  let ?s0 = "\<lparr>resp = replicate 12 0, numanswers = 0, extra = None, dict = d\<rparr>"
  let ?q = "put_at q 0 (name_of ls @ [0])" let ?ans = "answer_bytes ks (rType r) (rTTL r) (rData r)"
  note num = dns_numbers.numbers [OF assms(1)]
  have add: "mdns_add_to_answer D r (replicate 12 0) = replicate 12 0 @ ?ans"
    using fits by (intro add_to_answer_ok [OF r(2,3) num(4)]) simp
  have pos: "0 < length ?ans" by (simp add: answer_bytes_def)
  define s where "s = answer_question D ip4 ?q 1 ty ?s0"
  have s: "resp s = replicate 12 0 @ ?ans" "numanswers s = 1" "extra s = extra_record D k ty ?d None" "dict s = ?d"
    using match pos by (simp_all add: s_def answer_question_def num c_string_name assms(3,4) Suc_leI flip: r(1) , simp_all add: add Let_def)
  have loop: "reply_loop D ip4 ?pkt 1 12 q ?s0 = Some (Inr s)"
    using get_question_query [OF assms(2,3) _ assms(5), of q tail] assms(4) by (simp add: s_def)
  have hdr: "rd_net16 ?pkt 4 = 1" "?pkt ! 2 = 0"
    using query_parts(1,2) [OF assms(2), of ls ty tail] rd_net16_at by (auto simp: at_pos_Cons)
  have "\<forall>x. \<exists>zs. mdns_add_to_answer D x (resp s) = resp s @ zs" by (simp add: add_to_answer_extends)
  then obtain zs where zs: "\<And>x. mdns_add_to_answer D x (resp s) = resp s @ zs x" by metis
  have "mdns_reply D ip4 True q ?pkt d = Some (Inr (Some (response_header ?pkt 1 (if vol = [] then 0 else 1) @ ?ans @ vol),
      case extra_record D k ty ?d None of None \<Rightarrow> ?d | Some j \<Rightarrow> update_A D ip4 j ?d))"
    using pos
    by (cases "extra s") (simp_all add: mdns_reply_def SIZEOF_DNS_HDR_def hdr loop [unfolded One_nat_def] s zs [unfolded s(1)] Let_def
          vol volunteered_def flip: s(3) del: reply_loop.simps)
  then show ?thesis
    using len hdr by (simp add: mdns_recv_def SIZEOF_DNS_HDR_def SIZEOF_DNS_QUERY_def SIZEOF_DNS_ANSWER_def)
qed

text \<open>The name \<open>esp8.local.\<close> and a database with its address record, for the examples.\<close>

definition esp8_local :: "label list" where
  "esp8_local = [[0x65, 0x73, 0x70, 0x38], [0x6c, 0x6f, 0x63, 0x61, 0x6c]]"

definition esp8_dict :: "mdns_rsrc list" where
  "esp8_dict = [\<lparr>rType = 1, rTTL = 300, rKey = name_of esp8_local, rData = [0, 0, 0, 0]\<rparr>]"

lemma esp8_local_ok: "list_all label_ok esp8_local"
  by (simp add: esp8_local_def label_ok_def dot_def)

lemma length_esp8_local: "length (name_of esp8_local) = 11"
  by (simp add: esp8_local_def)

section \<open>The records of a service\<close>

text \<open>The labels that the string literals of \<open>mdns_add_facility\<close> stand for.\<close>

definition local_label :: label where
  "local_label = [0x6c, 0x6f, 0x63, 0x61, 0x6c]"

definition proto_label :: "nat \<Rightarrow> label" where
  "proto_label flags = [0x5f] @ (if odd flags then [0x75, 0x64, 0x70] else [0x74, 0x63, 0x70])"

definition services_labels :: "label list" where
  "services_labels =
     [[0x5f, 0x73, 0x65, 0x72, 0x76, 0x69, 0x63, 0x65, 0x73], [0x5f, 0x64, 0x6e, 0x73, 0x2d, 0x73, 0x64], [0x5f, 0x75, 0x64, 0x70], local_label]"

definition service_key :: "nat \<Rightarrow> label \<Rightarrow> label list" where
  "service_key flags svc = [svc, proto_label flags, local_label]"

lemma literal_labels:
  "ascii ''.local.'' = [dot] @ name_of [local_label]"
  "(if odd flags then ascii ''_udp'' else ascii ''_tcp'') = proto_label flags"
  "ascii ''_services._dns-sd._udp.local.'' = name_of services_labels"
  by (simp_all add: ascii_def local_label_def proto_label_def services_labels_def dot_def)

lemma literal_labels_ok [simp]:
  "label_ok local_label" "label_ok (proto_label flags)" "list_all label_ok services_labels"
  by (simp_all add: label_ok_def local_label_def proto_label_def services_labels_def dot_def)

lemma literal_lengths [simp]: "length local_label = 5" "length (proto_label flags) = 4"
  by (simp_all add: local_label_def proto_label_def)

text \<open>Names that match have as many labels.\<close>

lemma to_lower_dot: "to_lower c = dot \<longleftrightarrow> c = dot"
proof -
  have "c + 0x20 \<noteq> 0x2e" if "0x41 \<le> c" "c \<le> 0x5a"
  proof
    assume "c + 0x20 = 0x2e"
    then have "c = 0x2e - 0x20" by (simp only: eq_diff_eq)
    then show False using that by simp
  qed
  then show ?thesis by (auto simp: to_lower_def dot_def)
qed

lemma dots_of_name:
  assumes "list_all label_ok ls"
  shows "length (filter ((=) dot) (map to_lower (name_of ls))) = length ls"
  using assms
proof (induction ls)
  case (Cons l ls)
  have "dot \<noteq> to_lower x" if "x \<in> set l" for x using that Cons.prems to_lower_dot [of x] by (auto simp: label_ok_def)
  then have "filter ((=) dot) (map to_lower l) = []" by (auto simp: filter_empty_conv)
  moreover have "to_lower dot = dot" by (simp add: to_lower_def dot_def)
  ultimately show ?case using Cons by simp
qed simp

lemma same_name_labels:
  "list_all label_ok ls \<Longrightarrow> list_all label_ok ks \<Longrightarrow> same_name (name_of ls) (name_of ks) \<Longrightarrow> length ls = length ks"
  unfolding same_name_def using dots_of_name [of ls] dots_of_name [of ks] by simp

text \<open>
  What \<open>mdns_add_facility\<close> puts at the front of the database: the pointer to the service is followed by
  its SRV record and the address record.
\<close>

definition service_ptr :: "label \<Rightarrow> label \<Rightarrow> nat \<Rightarrow> nat \<Rightarrow> mdns_rsrc" where
  "service_ptr inst svc flags ttl = \<lparr>rType = 12, rTTL = ttl, rKey = name_of (service_key flags svc),
     rData = labels_of (inst # service_key flags svc)\<rparr>"

definition service_srv :: "label \<Rightarrow> label \<Rightarrow> nat \<Rightarrow> nat \<Rightarrow> nat \<Rightarrow> mdns_rsrc" where
  "service_srv inst svc flags port ttl = \<lparr>rType = 33, rTTL = ttl, rKey = name_of (inst # service_key flags svc),
     rData = net16 0 @ net16 0 @ net16 port @ labels_of [inst, local_label]\<rparr>"

lemma facility_records:
  assumes "dns_numbers D" "label_ok inst" "label_ok svc" "length (labels_of (inst # service_key flags svc)) \<le> kMaxNameSize"
  shows "\<exists>pre post. mdns_add_facility D (\<lambda>_. True) inst svc txt flags port ttl d
      = pre @ service_ptr inst svc flags ttl # service_srv inst svc flags port ttl # post
    \<and> (\<forall>r \<in> set pre. rKey r = name_of services_labels)"
proof -
  note num = dns_numbers.numbers [OF assms(1)]
  let ?key = "service_key flags svc"
  have names: "svc @ [dot] @ proto_label flags @ [dot] @ name_of [local_label] = name_of ?key"
    "inst @ [dot] @ name_of ?key = name_of (inst # ?key)" "inst @ [dot] @ name_of [local_label] = name_of [inst, local_label]"
    by (simp_all add: service_key_def)
  have ok: "list_all label_ok ?key" "list_all label_ok (inst # ?key)" "list_all label_ok [inst, local_label]"
    using assms(2,3) by (simp_all add: service_key_def)
  have len: "length (labels_of ?key) \<le> kMaxNameSize" "length (labels_of [inst, local_label]) \<le> kMaxNameSize"
    using assms(4) by (simp_all add: service_key_def kMaxNameSize_def)
  note enc = str2labels_ok [OF ok(1), of kMaxNameSize] str2labels_ok [OF ok(2), of kMaxNameSize]
    str2labels_ok [OF ok(3), of kMaxNameSize]
  let ?pre = "if odd (flags div 2) then [\<lparr>rType = 12, rTTL = ttl, rKey = name_of services_labels, rData = labels_of ?key\<rparr>] else []"
  have "\<exists>post. mdns_add_facility D (\<lambda>_. True) inst svc txt flags port ttl d
      = ?pre @ service_ptr inst svc flags ttl # service_srv inst svc flags port ttl # post"
    unfolding mdns_add_facility_def literal_labels names
    by (simp only: mdns_add_PTR_def mdns_add_SRV_def mdns_add_response_def Let_def names enc len assms(4) if_True option.case num)
      (simp add: service_ptr_def service_srv_def DNS_RRTYPE_SRV_def)
  moreover have "\<forall>r \<in> set ?pre. rKey r = name_of services_labels" by simp
  ultimately show ?thesis by blast
qed

lemma match_skips:
  assumes "\<And>r. r \<in> set pre \<Longrightarrow> \<not> same_name (rKey r) q" "rType r = ty" "rKey r = q"
  shows "mdns_match_from k q ty (pre @ r # post) = Some (k + length pre)"
  using assms by (induction pre arbitrary: k) (auto simp: same_name_def)

section \<open>Properties\<close>

text \<open>
  C32. Names survive the label encoding: what \<open>mdns_str2labels\<close> produces for a name, \<open>mdns_labels2str\<close> turns
  back into the same string and stops behind it, wherever it is in a message. A name that does not
  fit the buffer of the caller is written behind its end.
\<close>

theorem name_roundtrip:
  assumes "list_all label_ok ls" "mdns_str2labels (name_of ls) mx = Some enc" "at_pos pkt p enc"
  shows "if length (name_of ls) < length q
    then \<exists>q'. mdns_labels2str pkt p q 0 = Some (Labels (p + length enc) q') \<and> c_string q' = name_of ls
    else mdns_labels2str pkt p q 0 = Some Overflow"
proof -
  have enc: "enc = labels_of ls" using assms(1,2) by (simp add: str2labels_ok split: if_splits)
  then show ?thesis
    using labels2str_ok [OF assms(1), of pkt p 0 q] assms(3) c_string_name [OF assms(1), of q] by auto
qed

theorem name_roundtrip_witness:
  "mdns_labels2str (labels_of [[0x65, 0x73, 0x70], [0x6c]]) 0 (replicate 128 1) 0 \<noteq> None"
proof -
  have "list_all label_ok [[0x65, 0x73, 0x70], [0x6c]]" by (simp add: label_ok_def dot_def)
  moreover from this have "mdns_str2labels (name_of [[0x65, 0x73, 0x70], [0x6c]]) 64 = Some (labels_of [[0x65, 0x73, 0x70], [0x6c]])"
    by (subst str2labels_ok) simp_all
  moreover have "at_pos (labels_of [[0x65, 0x73, 0x70], [0x6c]]) 0 (labels_of [[0x65, 0x73, 0x70], [0x6c]])"
    by (simp add: at_pos_def)
  ultimately show ?thesis using name_roundtrip [of "[[0x65, 0x73, 0x70], [0x6c]]" 64 _ _ 0 "replicate 128 1"] by fastforce
qed

text \<open>
  No message makes the responder send more than its reply buffer holds: answers that do not fit are
  left out.
\<close>

theorem replies_fit:
  "case mdns_recv D ip4 mem1 mem2 q pkt d of
     Some (Inr (Some reply, d')) \<Rightarrow> length reply \<le> MDNS_RESPONDER_REPLY_SIZE
   | _ \<Rightarrow> True"
proof -
  have "length reply \<le> MDNS_RESPONDER_REPLY_SIZE" if "mdns_recv D ip4 mem1 mem2 q pkt d = Some (Inr (Some reply, d'))" for reply d'
  proof -
    have "mdns_reply D ip4 mem2 q pkt d = Some (Inr (Some reply, d'))" "2 \<le> length pkt"
      using that by (auto simp: mdns_recv_def SIZEOF_DNS_HDR_def split: if_splits)
    then show ?thesis by (rule reply_fits_buffer)
  qed
  then show ?thesis by (auto split: option.split sum.split)
qed

text \<open>
  C33. A message can stop the responder: when the name of its question is a compression pointer to
  itself, the call never returns.
\<close>

theorem self_pointer_hangs:
  assumes "28 \<le> length pkt" "length pkt \<le> MDNS_RESPONDER_REPLY_SIZE" "pkt ! 2 = 0" "0 < rd_net16 pkt 4"
    and "pkt ! 12 = 0xC0" "pkt ! 13 = 12"
  shows "mdns_recv D ip4 True True q pkt d = None"
proof -
  have "at_pos pkt 12 [word_of_nat (0xC0 + 12 div 256), word_of_nat 12]" using assms by (simp add: at_pos_Cons)
  then have "mdns_labels2str pkt 12 q 0 = None" by (rule pointer_loop) simp
  moreover obtain n where "rd_net16 pkt 4 = Suc n" using assms(4) by (cases "rd_net16 pkt 4") auto
  ultimately have "mdns_reply D ip4 True q pkt d = None"
    by (simp add: mdns_reply_def mdns_get_question_def SIZEOF_DNS_HDR_def)
  then show ?thesis
    using assms by (simp add: mdns_recv_def SIZEOF_DNS_HDR_def SIZEOF_DNS_QUERY_def SIZEOF_DNS_ANSWER_def)
qed

theorem self_pointer_hangs_witness:
  "mdns_recv rfc1035 [1, 2, 3, 4] True True (replicate 128 0)
     ([0, 0, 0, 0, 0, 1, 0, 0, 0, 0, 0, 0, 0xC0, 12, 0, 1, 0, 1] @ replicate 10 0) [] = None"
  by (rule self_pointer_hangs) (simp_all add: MDNS_RESPONDER_REPLY_SIZE_def rd_net16_def)

text \<open>
  A question for a registered record is answered: the reply carries one answer with the name, type,
  time to live and data of the first matching record, the address of the interface in an A record.
\<close>

theorem query_is_answered:
  assumes "dns_numbers D" "length ident = 2" "list_all label_ok ls" "length (name_of ls) < length q" "ty < 65536"
    and len: "28 \<le> length (query ident ls ty tail)" "length (query ident ls ty tail) \<le> MDNS_RESPONDER_REPLY_SIZE"
    and match: "mdns_match (name_of ls) ty d = Some k"
    and r: "r = update_A D ip4 k d ! k" "list_all label_ok ks" "rKey r = name_of ks"
    and fits: "12 + length (answer_bytes ks (rType r) (rTTL r) (rData r)) \<le> MDNS_RESPONDER_REPLY_SIZE"
  shows "\<exists>n zs d'. mdns_recv D ip4 True True q (query ident ls ty tail) d = Some (Inr
      (Some (response_header (query ident ls ty tail) 1 n @ answer_bytes ks (rType r) (rTTL r) (rData r) @ zs), d'))"
  by (subst reply_exact [OF assms refl]) blast

theorem query_is_answered_witness:
  "\<exists>n zs d'. mdns_recv rfc1035 [192, 168, 4, 1] True True (replicate 128 0) (query [7, 7] esp8_local 1 []) esp8_dict = Some (Inr
     (Some (response_header (query [7, 7] esp8_local 1 []) 1 n @ answer_bytes esp8_local 1 300 [192, 168, 4, 1] @ zs), d'))"
proof -
  let ?r = "\<lparr>rType = 1, rTTL = 300, rKey = name_of esp8_local, rData = [192, 168, 4, 1]\<rparr>"
  have r: "?r = update_A rfc1035 [192, 168, 4, 1] 0 esp8_dict ! 0" and m: "mdns_match (name_of esp8_local) 1 esp8_dict = Some 0"
    by (simp_all add: update_A_def esp8_dict_def mdns_match_def same_name_def rfc1035_def)
  have "length (query [7, 7] esp8_local 1 []) = 28" "length (answer_bytes esp8_local 1 300 [192, 168, 4, 1]) = 26"
    by (simp_all add: query_def answer_bytes_def length_esp8_local)
  then show ?thesis
    using query_is_answered [OF rfc1035.dns_numbers_axioms _ esp8_local_ok _ _ _ _ m r esp8_local_ok,
        of "[7, 7]" "replicate 128 0" "[]"]
    by (simp only: mdns_rsrc.select_convs) (simp add: length_esp8_local MDNS_RESPONDER_REPLY_SIZE_def)
qed

text \<open>
  C31. A service that was registered, under a name of DNS labels that takes at most 64 bytes encoded, can be
  discovered: the question for the pointers of its kind is answered with the name of the instance, and
  the SRV record with the port and the host comes along. Both always fit in the reply.
\<close>

theorem service_is_discoverable:
  assumes "dns_numbers D" "label_ok inst" "label_ok svc"
    and "length (labels_of (inst # service_key flags svc)) \<le> kMaxNameSize"
    and "length ident = 2" "length q = kMaxQStr"
    and "length (query ident (service_key flags svc) 12 tail) \<le> MDNS_RESPONDER_REPLY_SIZE"
  shows "\<exists>d'. mdns_recv D ip4 True True q (query ident (service_key flags svc) 12 tail)
      (mdns_add_facility D (\<lambda>_. True) inst svc txt flags port ttl d) = Some (Inr
        (Some (response_header (query ident (service_key flags svc) 12 tail) 1 1
           @ answer_bytes (service_key flags svc) 12 ttl (labels_of (inst # service_key flags svc))
           @ answer_bytes (inst # service_key flags svc) 33 ttl (net16 0 @ net16 0 @ net16 port @ labels_of [inst, local_label])), d'))"
proof -
  let ?key = "service_key flags svc" and ?full = "inst # service_key flags svc"
  let ?ptr = "service_ptr inst svc flags ttl" and ?srv = "service_srv inst svc flags port ttl"
  note num = dns_numbers.numbers [OF assms(1)]
  obtain pre post where d: "mdns_add_facility D (\<lambda>_. True) inst svc txt flags port ttl d = pre @ ?ptr # ?srv # post" (is "?d = _")
    and pre: "\<And>r. r \<in> set pre \<Longrightarrow> rKey r = name_of services_labels"
    using facility_records [OF assms(1-4)] by blast
  let ?k = "length pre"
  have ok: "list_all label_ok ?key" "list_all label_ok ?full" using assms(2,3) by (simp_all add: service_key_def)
  have "\<not> same_name (name_of services_labels) (name_of ?key)"
    using same_name_labels [OF literal_labels_ok(3) ok(1)] by (auto simp: service_key_def services_labels_def)
  then have match: "mdns_match (name_of ?key) 12 ?d = Some ?k"
    using match_skips [of pre "name_of ?key" ?ptr 12 0] pre by (simp add: mdns_match_def d service_ptr_def)
  have same: "update_A D ip4 ?k ?d = ?d" "update_A D ip4 (?k + 1) ?d = ?d"
    by (simp_all add: update_A_def d num nth_append service_ptr_def service_srv_def)
  have r: "?ptr = update_A D ip4 ?k ?d ! ?k" unfolding same by (simp add: d)
  have extra: "extra_record D ?k 12 ?d None = Some (?k + 1)"
    by (simp add: extra_record_def num d nth_append service_srv_def DNS_RRTYPE_SRV_def)
  let ?a1 = "answer_bytes ?key 12 ttl (labels_of ?full)"
    and ?a2 = "answer_bytes ?full 33 ttl (net16 0 @ net16 0 @ net16 port @ labels_of [inst, local_label])"
  have sizes: "length ?a1 + length ?a2 \<le> 300" "0 < length ?a2" "length (name_of ?key) < length q" "16 \<le> length (name_of ?key) + 4"
    using assms(2-4,6) by (simp_all add: answer_bytes_def service_key_def kMaxNameSize_def kMaxQStr_def label_ok_def Suc_le_eq)
  have "mdns_add_to_answer D ?srv (replicate 12 0 @ ?a1) = (replicate 12 0 @ ?a1) @ ?a2"
    using sizes add_to_answer_ok [OF ok(2) _ num(4), of ?srv] by (simp add: service_srv_def MDNS_RESPONDER_REPLY_SIZE_def)
  then have vol: "?a2 = volunteered D ip4 ?k 12 (update_A D ip4 ?k ?d) (replicate 12 0 @ ?a1)"
    by (simp add: volunteered_def same extra [simplified] same [simplified]) (simp add: d nth_append)
  have key: "rKey ?ptr = name_of ?key" "rType ?ptr = 12" "rTTL ?ptr = ttl" "rData ?ptr = labels_of ?full"
    by (simp_all add: service_ptr_def)
  show ?thesis
    using reply_exact [OF assms(1,5) ok(1) sizes(3) _ _ assms(7) match r ok(1) key(1), of ?a2] sizes vol
    by (simp add: key MDNS_RESPONDER_REPLY_SIZE_def query_def assms(5))
qed

theorem service_is_discoverable_witness:
  "\<exists>d'. mdns_recv rfc1035 [192, 168, 4, 1] True True (replicate 128 0) (query [7, 7] (service_key 2 (ascii ''_http'')) 12 [])
      (mdns_add_facility rfc1035 (\<lambda>_. True) (ascii ''esp'') (ascii ''_http'') None 2 80 300 []) = Some (Inr
        (Some (response_header (query [7, 7] (service_key 2 (ascii ''_http'')) 12 []) 1 1
           @ answer_bytes (service_key 2 (ascii ''_http'')) 12 300 (labels_of (ascii ''esp'' # service_key 2 (ascii ''_http'')))
           @ answer_bytes (ascii ''esp'' # service_key 2 (ascii ''_http'')) 33 300
               (net16 0 @ net16 0 @ net16 80 @ labels_of [ascii ''esp'', local_label])), d'))"
  by (rule service_is_discoverable [OF rfc1035.dns_numbers_axioms])
    (simp_all add: label_ok_def ascii_def dot_def service_key_def query_def kMaxNameSize_def kMaxQStr_def MDNS_RESPONDER_REPLY_SIZE_def)

text \<open>
  The test of the length counts an answer that a query does not have: the query for a host name of at
  most three letters in \<open>local\<close> is never answered.
\<close>

theorem short_query_ignored:
  assumes "length ident = 2" "length (name_of ls) \<le> 10"
  shows "mdns_recv D ip4 mem1 mem2 q (query ident ls ty []) d = Some (Inr (None, d))"
  using assms
  by (simp add: mdns_recv_def query_def SIZEOF_DNS_HDR_def SIZEOF_DNS_QUERY_def SIZEOF_DNS_ANSWER_def MDNS_RESPONDER_REPLY_SIZE_def)

theorem short_query_ignored_witness:
  "mdns_recv rfc1035 [192, 168, 4, 1] True True (replicate 128 0) (query [7, 7] [[0x65, 0x73, 0x70], [0x6c, 0x6f, 0x63, 0x61, 0x6c]] 1 []) []
     = Some (Inr (None, []))"
  by (rule short_query_ignored) simp_all

end
