(* ===== verification/I2c.thy ===== *)
theory I2c
  imports Prelude "HOL-Library.Monad_Syntax"
begin

text \<open>
  The I2C master of \<open>src/extras/i2c/i2c.c\<close>, in the default configuration without GPIO 16: the clock
  arithmetic, start and stop conditions, bits and bytes driven on two pins, and the transfers to
  and from a slave.

  The pins, what is wired to them and the passing of time are the parameter \<open>E\<close>: the registers of the
  GPIO block, the delay loop and the tick counter of FreeRTOS, over a state of any type. A read of the
  pins may change that state, because the loops that wait for the clock end only when the
  environment moves. A call that never returns is \<open>None\<close>.
\<close>

section \<open>Bus descriptions\<close>

datatype i2c_result = I2C_SUCCESS | EINVAL | ENOTSUP | EBUSY | EIO

datatype i2c_freq = I2C_FREQ_80K | I2C_FREQ_100K | I2C_FREQ_400K | I2C_FREQ_500K | I2C_FREQ_600K | I2C_FREQ_800K
  | I2C_FREQ_1000K | I2C_FREQ_1300K

definition I2C_MAX_BUS :: nat where
  "I2C_MAX_BUS = 2"

definition DELAY_LOOPS_PER_US_160MHZ :: nat where
  "DELAY_LOOPS_PER_US_160MHZ = 40"

definition DELAY_OVERHEAD_80MHZ :: nat where
  "DELAY_OVERHEAD_80MHZ = 12"

definition DELAY_OVERHEAD_160MHZ :: nat where
  "DELAY_OVERHEAD_160MHZ = 14"

definition portTICK_PERIOD_MS :: nat where
  "portTICK_PERIOD_MS = 1000 div 100"

definition I2C_DEFAULT_CLK_STRETCH :: nat where
  "I2C_DEFAULT_CLK_STRETCH = 250 div portTICK_PERIOD_MS"

definition I2C_CLK_STRETCH_SPIN :: nat where
  "I2C_CLK_STRETCH_SPIN = 1024"

record i2c_bus_description =
  g_scl_mask :: "32 word"
  g_sda_mask :: "32 word"
  delay_80 :: nat
  delay_160 :: nat
  delay :: nat
  started :: bool
  flag :: bool
  force :: bool
  clk_stretch :: nat

text \<open>What the driver uses of its environment.\<close>

record 'e i2c_env =
  gpio_set_pullup :: "nat \<Rightarrow> bool \<Rightarrow> bool \<Rightarrow> 'e \<Rightarrow> 'e"
  gpio_open_drain :: "nat \<Rightarrow> 'e \<Rightarrow> 'e"
  gpio_put :: "nat \<Rightarrow> bool \<Rightarrow> 'e \<Rightarrow> 'e"
  OUT_SET :: "32 word \<Rightarrow> 'e \<Rightarrow> 'e"
  OUT_CLEAR :: "32 word \<Rightarrow> 'e \<Rightarrow> 'e"
  GPIO_IN :: "'e \<Rightarrow> 32 word \<times> 'e"
  delay_loop :: "nat \<Rightarrow> 'e \<Rightarrow> 'e"
  vTaskDelay :: "nat \<Rightarrow> 'e \<Rightarrow> 'e"
  xTaskGetTickCount :: "'e \<Rightarrow> nat"
  cpu_160MHz :: "'e \<Rightarrow> bool"

section \<open>Set-up\<close>

fun freq_t_to_hz :: "i2c_freq \<Rightarrow> nat" where
  "freq_t_to_hz I2C_FREQ_80K = 80000"
| "freq_t_to_hz I2C_FREQ_100K = 100000"
| "freq_t_to_hz I2C_FREQ_400K = 400000"
| "freq_t_to_hz I2C_FREQ_500K = 500000"
| "freq_t_to_hz I2C_FREQ_600K = 600000"
| "freq_t_to_hz I2C_FREQ_800K = 800000"
| "freq_t_to_hz I2C_FREQ_1000K = 1000000"
| "freq_t_to_hz I2C_FREQ_1300K = 1300000"

text \<open>A delay limited to the byte that stores it, and whether it had to be limited.\<close>

definition limit_delay :: "int \<Rightarrow> nat \<times> bool" where
  "limit_delay d = (if d > 255 then (255, True) else if d < 0 then (0, True) else (nat d, False))"

text \<open>\<open>None\<close> is the division by zero for a frequency whose double wraps to zero.\<close>

definition i2c_set_frequency_hz :: "nat \<Rightarrow> i2c_bus_description \<Rightarrow> (i2c_result \<times> i2c_bus_description) option" where
  "i2c_set_frequency_hz freq b =
     (if freq = 0 then Some (EINVAL, b)
      else if u32 (2 * freq) = 0 then None
      else
        let tick_count = (1000000 * DELAY_LOOPS_PER_US_160MHZ) div u32 (2 * freq);
            (d80, not_ok1) = limit_delay (s32 (u32_sub (tick_count div 2) DELAY_OVERHEAD_80MHZ));
            (d160, not_ok2) = limit_delay (s32 (u32_sub tick_count DELAY_OVERHEAD_160MHZ))
        in Some (if not_ok1 \<or> not_ok2 then EINVAL else I2C_SUCCESS, b\<lparr>delay_80 := d80, delay_160 := d160\<rparr>))"

definition i2c_set_frequency :: "i2c_freq \<Rightarrow> i2c_bus_description \<Rightarrow> (i2c_result \<times> i2c_bus_description) option" where
  "i2c_set_frequency freq b = i2c_set_frequency_hz (freq_t_to_hz freq) b"

definition i2c_set_clock_stretch :: "nat \<Rightarrow> i2c_bus_description \<Rightarrow> i2c_bus_description" where
  "i2c_set_clock_stretch ticks b = b\<lparr>clk_stretch := ticks\<rparr>"

definition i2c_status :: "i2c_bus_description \<Rightarrow> bool" where
  "i2c_status b = started b"

definition i2c_force_bus :: "bool \<Rightarrow> i2c_bus_description \<Rightarrow> i2c_bus_description" where
  "i2c_force_bus state b = b\<lparr>force := state\<rparr>"

text \<open>The static array \<open>i2c_bus\<close> is the list \<open>buses\<close>.\<close>

definition i2c_init_hz :: "'e i2c_env \<Rightarrow> nat \<Rightarrow> nat \<Rightarrow> nat \<Rightarrow> nat \<Rightarrow> i2c_bus_description list \<Rightarrow> 'e
    \<Rightarrow> (i2c_result \<times> i2c_bus_description list \<times> 'e) option" where
  "i2c_init_hz E bus scl_pin sda_pin freq buses e =
     (if bus \<ge> I2C_MAX_BUS then Some (EINVAL, buses, e)
      else if scl_pin > 15 \<or> sda_pin > 15 then Some (EINVAL, buses, e)
      else
        let b = (buses ! bus)\<lparr>started := False, flag := False, g_scl_mask := push_bit scl_pin 1, g_sda_mask := push_bit sda_pin 1,
                   clk_stretch := I2C_DEFAULT_CLK_STRETCH\<rparr>;
            e1 = gpio_set_pullup E sda_pin True True (gpio_set_pullup E scl_pin True True e);
            e2 = gpio_open_drain E sda_pin (gpio_open_drain E scl_pin e1);
            e3 = gpio_put E sda_pin True (gpio_put E scl_pin True e2)
        in do {
             (r, b1) \<leftarrow> i2c_set_frequency_hz freq b;
             Some (if r \<noteq> I2C_SUCCESS then ENOTSUP else I2C_SUCCESS, buses[bus := b1], e3)
           })"

definition i2c_init :: "'e i2c_env \<Rightarrow> nat \<Rightarrow> nat \<Rightarrow> nat \<Rightarrow> i2c_freq \<Rightarrow> i2c_bus_description list \<Rightarrow> 'e
    \<Rightarrow> (i2c_result \<times> i2c_bus_description list \<times> 'e) option" where
  "i2c_init E bus scl_pin sda_pin freq buses e = i2c_init_hz E bus scl_pin sda_pin (freq_t_to_hz freq) buses e"

section \<open>Lines\<close>

text \<open>A function that works on \<open>i2c_bus[bus]\<close> has its description and the environment as state.\<close>

type_synonym 'e i2c = "i2c_bus_description \<times> 'e"

text \<open>The loop decrements before it tests: a delay of zero counts through all 32 bit values.\<close>

definition delay_rounds :: "nat \<Rightarrow> nat" where
  "delay_rounds d = (if d = 0 then 2 ^ 32 else d)"

definition i2c_delay :: "'e i2c_env \<Rightarrow> 'e i2c \<Rightarrow> 'e i2c" where
  "i2c_delay E = (\<lambda>(b, e). (b, delay_loop E (delay_rounds (delay b)) e))"

definition read_scl :: "'e i2c_env \<Rightarrow> 'e i2c \<Rightarrow> bool \<times> 'e i2c" where
  "read_scl E = (\<lambda>(b, e). case GPIO_IN E e of (v, e1) \<Rightarrow> (v AND g_scl_mask b \<noteq> 0, (b, e1)))"

definition read_sda :: "'e i2c_env \<Rightarrow> 'e i2c \<Rightarrow> bool \<times> 'e i2c" where
  "read_sda E = (\<lambda>(b, e). case GPIO_IN E e of (v, e1) \<Rightarrow> (v AND g_sda_mask b \<noteq> 0, (b, e1)))"

definition clear_scl :: "'e i2c_env \<Rightarrow> 'e i2c \<Rightarrow> 'e i2c" where
  "clear_scl E = (\<lambda>(b, e). (b, OUT_CLEAR E (g_scl_mask b) e))"

definition clear_sda :: "'e i2c_env \<Rightarrow> 'e i2c \<Rightarrow> 'e i2c" where
  "clear_sda E = (\<lambda>(b, e). (b, OUT_CLEAR E (g_sda_mask b) e))"

definition set_sda :: "'e i2c_env \<Rightarrow> 'e i2c \<Rightarrow> 'e i2c" where
  "set_sda E = (\<lambda>(b, e). (b, OUT_SET E (g_sda_mask b) e))"

text \<open>The two loops of \<open>set_scl\<close>: \<open>n\<close> samples in a row, then one sample every 20 ms until the limit.\<close>

fun scl_spin :: "'e i2c_env \<Rightarrow> nat \<Rightarrow> 'e i2c \<Rightarrow> bool \<times> 'e i2c" where
  "scl_spin E 0 s = (False, s)"
| "scl_spin E (Suc n) s = (case read_scl E s of (True, s1) \<Rightarrow> (True, s1) | (False, s1) \<Rightarrow> scl_spin E n s1)"

partial_function (option) scl_wait :: "'e i2c_env \<Rightarrow> nat \<Rightarrow> nat \<Rightarrow> 'e i2c \<Rightarrow> 'e i2c option" where
  "scl_wait E limit start s =
     (case read_scl E (fst s, vTaskDelay E (20 div portTICK_PERIOD_MS) (snd s)) of
        (up, s1) \<Rightarrow>
          if up then Some s1
          else if u32_sub (xTaskGetTickCount E (snd s1)) start > limit then Some s1
          else scl_wait E limit start s1)"

declare scl_wait.simps [code]

definition set_scl :: "'e i2c_env \<Rightarrow> 'e i2c \<Rightarrow> 'e i2c option" where
  "set_scl E = (\<lambda>(b, e).
     (case scl_spin E I2C_CLK_STRETCH_SPIN (b, OUT_SET E (g_scl_mask b) e) of
        (True, s1) \<Rightarrow> Some s1
      | (False, s1) \<Rightarrow> scl_wait E (clk_stretch (fst s1)) (xTaskGetTickCount E (snd s1)) s1))"

section \<open>Conditions, bits and bytes\<close>

text \<open>The reads that only look for a lost arbitration are kept, since a read may move the environment.\<close>

definition i2c_restart :: "'e i2c_env \<Rightarrow> 'e i2c \<Rightarrow> 'e i2c option" where
  "i2c_restart E s =
     (if started (fst s)
      then do {
        s1 \<leftarrow> set_scl E (i2c_delay E (set_sda E s));
        Some (i2c_delay E s1)
      }
      else Some s)"

definition i2c_start :: "'e i2c_env \<Rightarrow> 'e i2c \<Rightarrow> 'e i2c option" where
  "i2c_start E = (\<lambda>(b, e).
     do {
       (b1, e1) \<leftarrow> i2c_restart E (b\<lparr>delay := (if cpu_160MHz E e then delay_160 b else delay_80 b)\<rparr>, e);
       let s2 = snd (read_sda E (set_sda E (b1\<lparr>started := True\<rparr>, e1)));
       Some (clear_scl E (i2c_delay E (clear_sda E s2)))
     })"

definition i2c_stop :: "'e i2c_env \<Rightarrow> 'e i2c \<Rightarrow> (bool \<times> 'e i2c) option" where
  "i2c_stop E s =
     do {
       s1 \<leftarrow> set_scl E (i2c_delay E (clear_sda E s));
       let s2 = i2c_delay E (set_sda E (i2c_delay E s1));
       let (b, e) = i2c_delay E (snd (read_sda E s2));
       if \<not> started b then Some (False, (b, e)) else Some (True, (b\<lparr>started := False\<rparr>, e))
     }"

definition i2c_write_bit :: "'e i2c_env \<Rightarrow> bool \<Rightarrow> 'e i2c \<Rightarrow> 'e i2c option" where
  "i2c_write_bit E v s =
     do {
       s1 \<leftarrow> set_scl E (i2c_delay E (if v then set_sda E s else clear_sda E s));
       let s2 = (if v then snd (read_sda E s1) else s1);
       Some (clear_scl E (i2c_delay E s2))
     }"

definition i2c_read_bit :: "'e i2c_env \<Rightarrow> 'e i2c \<Rightarrow> (bool \<times> 'e i2c) option" where
  "i2c_read_bit E s =
     do {
       s1 \<leftarrow> set_scl E (i2c_delay E (set_sda E s));
       let (v, s2) = read_sda E s1;
       Some (v, clear_scl E (i2c_delay E s2))
     }"

text \<open>\<open>n\<close> bits are left in the loops over a byte.\<close>

fun i2c_write_bits :: "'e i2c_env \<Rightarrow> nat \<Rightarrow> byte \<Rightarrow> 'e i2c \<Rightarrow> 'e i2c option" where
  "i2c_write_bits E 0 x s = Some s"
| "i2c_write_bits E (Suc n) x s = do { s1 \<leftarrow> i2c_write_bit E (x AND 0x80 \<noteq> 0) s; i2c_write_bits E n (push_bit 1 x) s1 }"

definition i2c_write :: "'e i2c_env \<Rightarrow> byte \<Rightarrow> 'e i2c \<Rightarrow> (bool \<times> 'e i2c) option" where
  "i2c_write E x s =
     do {
       s1 \<leftarrow> i2c_write_bits E 8 x s;
       (nack, s2) \<leftarrow> i2c_read_bit E s1;
       Some (\<not> nack, s2)
     }"

definition shift_in :: "bool \<Rightarrow> byte \<Rightarrow> byte" where
  "shift_in v x = push_bit 1 x OR (if v then 1 else 0)"

fun i2c_read_bits :: "'e i2c_env \<Rightarrow> nat \<Rightarrow> byte \<Rightarrow> 'e i2c \<Rightarrow> (byte \<times> 'e i2c) option" where
  "i2c_read_bits E 0 x s = Some (x, s)"
| "i2c_read_bits E (Suc n) x s =
     do { (v, s1) \<leftarrow> i2c_read_bit E s; i2c_read_bits E n (shift_in v x) s1 }"

definition i2c_read :: "'e i2c_env \<Rightarrow> bool \<Rightarrow> 'e i2c \<Rightarrow> (byte \<times> 'e i2c) option" where
  "i2c_read E ack s =
     do {
       (x, s1) \<leftarrow> i2c_read_bits E 8 0 s;
       s2 \<leftarrow> i2c_write_bit E ack s1;
       Some (x, s2)
     }"

section \<open>Transfers\<close>

definition i2c_bus_test :: "'e i2c_env \<Rightarrow> 'e i2c \<Rightarrow> (i2c_result \<times> 'e i2c) option" where
  "i2c_bus_test E = (\<lambda>(b, e).
     (let status = flag b
      in if force b
         then if status then do { (ok, s1) \<leftarrow> i2c_stop E (b\<lparr>flag := True\<rparr>, e); Some (I2C_SUCCESS, s1) }
              else Some (I2C_SUCCESS, (b\<lparr>flag := True\<rparr>, e))
         else if status then Some (EBUSY, (b, e))
         else Some (I2C_SUCCESS, (b\<lparr>flag := True\<rparr>, e))))"

text \<open>The bytes are sent until one is not acknowledged.\<close>

fun i2c_write_bytes :: "'e i2c_env \<Rightarrow> byte list \<Rightarrow> 'e i2c \<Rightarrow> (bool \<times> 'e i2c) option" where
  "i2c_write_bytes E [] s = Some (True, s)"
| "i2c_write_bytes E (x # xs) s =
     do { (ok, s1) \<leftarrow> i2c_write E x s; if ok then i2c_write_bytes E xs s1 else Some (False, s1) }"

fun i2c_read_bytes :: "'e i2c_env \<Rightarrow> nat \<Rightarrow> 'e i2c \<Rightarrow> (byte list \<times> 'e i2c) option" where
  "i2c_read_bytes E 0 s = Some ([], s)"
| "i2c_read_bytes E (Suc n) s =
     do {
       (x, s1) \<leftarrow> i2c_read E (Suc n = 1) s;
       (xs, s2) \<leftarrow> i2c_read_bytes E n s1;
       Some (x # xs, s2)
     }"

definition bus_free :: "'e i2c \<Rightarrow> 'e i2c" where
  "bus_free = (\<lambda>(b, e). (b\<lparr>flag := False\<rparr>, e))"

text \<open>The label \<open>error\<close>.\<close>

definition i2c_error :: "'e i2c_env \<Rightarrow> 'e i2c \<Rightarrow> (i2c_result \<times> 'e i2c) option" where
  "i2c_error E s = do { (ok, s1) \<leftarrow> i2c_stop E s; Some (EIO, bus_free s1) }"

text \<open>
  \<open>data\<close> is the byte behind the pointer, \<open>None\<close> for a null pointer; \<open>buf\<close> has the \<open>len\<close> bytes that are
  sent. The address is shifted as an \<open>int\<close> and cut to a byte.
\<close>

definition i2c_slave_write :: "'e i2c_env \<Rightarrow> byte \<Rightarrow> byte option \<Rightarrow> byte list \<Rightarrow> 'e i2c \<Rightarrow> (i2c_result \<times> 'e i2c) option" where
  "i2c_slave_write E slave_addr data buf s =
     do {
       (r, s0) \<leftarrow> i2c_bus_test E s;
       if r \<noteq> I2C_SUCCESS then Some (EBUSY, s0)
       else do {
         s1 \<leftarrow> i2c_start E s0;
         (ok2, s2) \<leftarrow> i2c_write E (push_bit 1 slave_addr) s1;
         if \<not> ok2 then i2c_error E s2
         else do {
           (ok3, s3) \<leftarrow> (case data of Some x \<Rightarrow> i2c_write E x s2 | None \<Rightarrow> Some (True, s2));
           if \<not> ok3 then i2c_error E s3
           else do {
             (ok4, s4) \<leftarrow> i2c_write_bytes E buf s3;
             if \<not> ok4 then i2c_error E s4
             else do {
               (ok5, s5) \<leftarrow> i2c_stop E s4;
               if \<not> ok5 then i2c_error E s5 else Some (I2C_SUCCESS, bus_free s5)
             }
           }
         }
       }
     }"

text \<open>The register selection at the start of \<open>i2c_slave_read\<close>; \<open>False\<close> goes to the label \<open>error\<close>.\<close>

definition i2c_select :: "'e i2c_env \<Rightarrow> byte \<Rightarrow> byte option \<Rightarrow> 'e i2c \<Rightarrow> (bool \<times> 'e i2c) option" where
  "i2c_select E slave_addr data s =
     (case data of
        None \<Rightarrow> Some (True, s)
      | Some x \<Rightarrow>
          do {
            s1 \<leftarrow> i2c_start E s;
            (ok2, s2) \<leftarrow> i2c_write E (push_bit 1 slave_addr) s1;
            if \<not> ok2 then Some (False, s2) else i2c_write E x s2
          })"

text \<open>The result has the bytes stored to \<open>buf\<close>.\<close>

definition i2c_slave_read :: "'e i2c_env \<Rightarrow> byte \<Rightarrow> byte option \<Rightarrow> nat \<Rightarrow> 'e i2c \<Rightarrow> (i2c_result \<times> byte list \<times> 'e i2c) option" where
  "i2c_slave_read E slave_addr data len s =
     do {
       (r, s0) \<leftarrow> i2c_bus_test E s;
       if r \<noteq> I2C_SUCCESS then Some (EBUSY, [], s0)
       else do {
         (ok1, s1) \<leftarrow> i2c_select E slave_addr data s0;
         if \<not> ok1 then do { (r, s9) \<leftarrow> i2c_error E s1; Some (r, [], s9) }
         else do {
           s2 \<leftarrow> i2c_start E s1;
           (ok3, s3) \<leftarrow> i2c_write E (push_bit 1 slave_addr OR 1) s2;
           if \<not> ok3 then do { (r, s9) \<leftarrow> i2c_error E s3; Some (r, [], s9) }
           else do {
             (xs, s4) \<leftarrow> i2c_read_bytes E len s3;
             (ok5, s5) \<leftarrow> i2c_stop E s4;
             if \<not> ok5 then do { (r, s9) \<leftarrow> i2c_error E s5; Some (r, xs, s9) }
             else Some (I2C_SUCCESS, xs, bus_free s5)
           }
         }
       }
     }"

end
