(* ===== verification/I2c_Bus.thy ===== *)
theory I2c_Bus
  imports I2c
begin

text \<open>
  The I2C bus seen from the other side: a slave that follows the protocol, wired to the two lines,
  is an instance of the environment of the driver. The transfers of the driver are shown to be
  transfers of bytes with this slave.
\<close>

section \<open>A slave on the lines\<close>

text \<open>
  What a slave does with bytes: it acknowledges an address or a byte or not, it gives bytes to a
  master that reads, and it may hold the clock low for a number of samples.
\<close>

record 'b chip =
  answers :: "byte \<Rightarrow> 'b \<Rightarrow> bool \<times> 'b"
  takes :: "byte \<Rightarrow> 'b \<Rightarrow> bool \<times> 'b"
  gives :: "'b \<Rightarrow> byte \<times> 'b"
  ends :: "'b \<Rightarrow> 'b"
  holds :: "'b \<Rightarrow> nat"

text \<open>
  The phases of its bit level: waiting for a start, collecting the bits of an address or data byte,
  pulling SDA for an acknowledgement, sending bits, waiting for the acknowledgement of the master.
\<close>

datatype phase = Idle | Collect bool "bool list" | Acking bool | Sending "bool list" | Await | Awaited bool

definition byte_of :: "bool list \<Rightarrow> byte" where
  "byte_of vs = fold shift_in vs 0"

definition bits_of :: "byte \<Rightarrow> bool list" where
  "bits_of x = [bit x 7, bit x 6, bit x 5, bit x 4, bit x 3, bit x 2, bit x 1, bit x 0]"

lemma length_bits_of [simp]: "length (bits_of x) = 8" "bits_of x \<noteq> []"
  by (simp_all add: bits_of_def)

fun pulls :: "phase \<Rightarrow> bool" where
  "pulls (Acking rd) \<longleftrightarrow> True"
| "pulls (Sending (v # vs)) \<longleftrightarrow> \<not> v"
| "pulls _ \<longleftrightarrow> False"

text \<open>The clock rises: SDA is valid.\<close>

fun clock_rise :: "bool \<Rightarrow> phase \<Rightarrow> phase" where
  "clock_rise v (Collect hdr vs) = Collect hdr (if length vs < 8 then vs @ [v] else vs)"
| "clock_rise v Await = Awaited v"
| "clock_rise v ph = ph"

text \<open>The clock falls: the slave changes what it drives.\<close>

definition send_next :: "'b chip \<Rightarrow> 'b \<Rightarrow> phase \<times> 'b" where
  "send_next C b = (case gives C b of (x, b1) \<Rightarrow> (Sending (bits_of x), b1))"

fun clock_fall :: "'b chip \<Rightarrow> phase \<Rightarrow> 'b \<Rightarrow> phase \<times> 'b" where
  "clock_fall C (Collect hdr vs) b =
     (if length vs = 8
      then (case (if hdr then answers C (byte_of vs) b else takes C (byte_of vs) b) of
              (ok, b1) \<Rightarrow> (if ok then Acking (hdr \<and> odd (unat (byte_of vs))) else Idle, b1))
      else (Collect hdr vs, b))"
| "clock_fall C (Acking rd) b = (if rd then send_next C b else (Collect False [], b))"
| "clock_fall C (Sending vs) b = (if length vs \<le> 1 then Await else Sending (tl vs), b)"
| "clock_fall C (Awaited nack) b = (if nack then (Idle, b) else send_next C b)"
| "clock_fall C ph b = (ph, b)"

text \<open>The lines are low when the master or the slave pulls them.\<close>

record 'b wire =
  scl_bit :: "32 word"
  sda_bit :: "32 word"
  m_scl :: bool
  m_sda :: bool
  held :: nat
  phase_of :: phase
  chip_of :: 'b
  ticks :: nat
  fast :: bool

definition scl_line :: "'b wire \<Rightarrow> bool" where
  "scl_line w \<longleftrightarrow> m_scl w \<and> held w = 0"

definition sda_line :: "'b wire \<Rightarrow> bool" where
  "sda_line w \<longleftrightarrow> m_sda w \<and> \<not> pulls (phase_of w)"

definition drive_scl :: "'b chip \<Rightarrow> bool \<Rightarrow> 'b wire \<Rightarrow> 'b wire" where
  "drive_scl C v w =
     (if v
      then if m_scl w \<or> held w > 0 then w\<lparr>m_scl := True\<rparr> else w\<lparr>m_scl := True, phase_of := clock_rise (sda_line w) (phase_of w)\<rparr>
      else if scl_line w
      then (case clock_fall C (phase_of w) (chip_of w) of
              (ph, b) \<Rightarrow> w\<lparr>m_scl := False, held := holds C b, phase_of := ph, chip_of := b\<rparr>)
      else w\<lparr>m_scl := False\<rparr>)"

text \<open>A change of SDA while the clock is high is a start or a stop condition.\<close>

definition drive_sda :: "'b chip \<Rightarrow> bool \<Rightarrow> 'b wire \<Rightarrow> 'b wire" where
  "drive_sda C v w =
     (let w1 = w\<lparr>m_sda := v\<rparr>
      in if scl_line w \<and> sda_line w \<and> \<not> sda_line w1 then w1\<lparr>phase_of := Collect True []\<rparr>
         else if scl_line w \<and> \<not> sda_line w \<and> sda_line w1 then w1\<lparr>phase_of := Idle, chip_of := ends C (chip_of w)\<rparr>
         else w1)"

definition sample_lines :: "'b wire \<Rightarrow> 32 word \<times> 'b wire" where
  "sample_lines w =
     ((if scl_line w then scl_bit w else 0) OR (if sda_line w then sda_bit w else 0),
      if m_scl w \<and> held w > 0
      then w\<lparr>held := held w - 1, phase_of := (if held w = 1 then clock_rise (sda_line w) (phase_of w) else phase_of w)\<rparr>
      else w)"

definition drive_mask :: "'b chip \<Rightarrow> bool \<Rightarrow> 32 word \<Rightarrow> 'b wire \<Rightarrow> 'b wire" where
  "drive_mask C v m w =
     (let w1 = (if m AND scl_bit w \<noteq> 0 then drive_scl C v w else w)
      in if m AND sda_bit w \<noteq> 0 then drive_sda C v w1 else w1)"

definition wire_env :: "'b chip \<Rightarrow> 'b wire i2c_env" where
  "wire_env C = \<lparr>gpio_set_pullup = (\<lambda>_ _ _ w. w), gpio_open_drain = (\<lambda>_ w. w),
     gpio_put = (\<lambda>pin v. drive_mask C v (push_bit pin 1)), OUT_SET = drive_mask C True, OUT_CLEAR = drive_mask C False,
     GPIO_IN = sample_lines, delay_loop = (\<lambda>_ w. w), vTaskDelay = (\<lambda>n w. w\<lparr>ticks := u32 (ticks w + n)\<rparr>),
     xTaskGetTickCount = (\<lambda>w. u32 (ticks w)), cpu_160MHz = fast\<rparr>"

section \<open>Transfers of bytes\<close>

fun takes_all :: "'b chip \<Rightarrow> byte list \<Rightarrow> 'b \<Rightarrow> bool \<times> 'b" where
  "takes_all C [] b = (True, b)"
| "takes_all C (x # xs) b = (case takes C x b of (ok, b1) \<Rightarrow> if ok then takes_all C xs b1 else (False, b1))"

fun gives_all :: "'b chip \<Rightarrow> nat \<Rightarrow> 'b \<Rightarrow> byte list \<times> 'b" where
  "gives_all C 0 b = ([], b)"
| "gives_all C (Suc n) b = (case gives C b of (x, b1) \<Rightarrow> case gives_all C n b1 of (xs, b2) \<Rightarrow> (x # xs, b2))"

text \<open>What a write transfer and a read transfer mean for the slave.\<close>

definition bytes_out :: "'b chip \<Rightarrow> byte \<Rightarrow> byte list \<Rightarrow> 'b \<Rightarrow> bool \<times> 'b" where
  "bytes_out C addr xs b = (case answers C (push_bit 1 addr) b of (ok, b1) \<Rightarrow> if ok then takes_all C xs b1 else (False, b1))"

definition transfer_out :: "'b chip \<Rightarrow> byte \<Rightarrow> byte list \<Rightarrow> 'b \<Rightarrow> i2c_result \<times> 'b" where
  "transfer_out C addr xs b = (case bytes_out C addr xs b of (ok, b1) \<Rightarrow> (if ok then I2C_SUCCESS else EIO, ends C b1))"

definition bytes_in :: "'b chip \<Rightarrow> byte \<Rightarrow> nat \<Rightarrow> 'b \<Rightarrow> i2c_result \<times> byte list \<times> 'b" where
  "bytes_in C addr n b =
     (case answers C (push_bit 1 addr OR 1) b of
        (ok, b1) \<Rightarrow> if ok then (case gives_all C n b1 of (xs, b2) \<Rightarrow> (I2C_SUCCESS, xs, ends C b2)) else (EIO, [], ends C b1))"

definition transfer_in :: "'b chip \<Rightarrow> byte \<Rightarrow> byte option \<Rightarrow> nat \<Rightarrow> 'b \<Rightarrow> i2c_result \<times> byte list \<times> 'b" where
  "transfer_in C addr data n b =
     (case data of
        None \<Rightarrow> bytes_in C addr n b
      | Some x \<Rightarrow> (case bytes_out C addr [x] b of (ok, b1) \<Rightarrow> if ok then bytes_in C addr n b1 else (EIO, [], ends C b1)))"

text \<open>Bits of a byte, the most significant first.\<close>

fun msbs :: "nat \<Rightarrow> byte \<Rightarrow> bool list" where
  "msbs 0 x = []"
| "msbs (Suc n) x = bit x 7 # msbs n (push_bit 1 x)"

lemma msbs_shifted: "n + k \<le> 8 \<Longrightarrow> msbs n (push_bit k x) = map (\<lambda>i. bit x (7 - k - i)) [0..<n]"
proof (induction n arbitrary: k)
  case (Suc n)
  have "push_bit 1 (push_bit k x) = push_bit (Suc k) x" by (simp only: push_bit_push_bit) simp
  moreover have "bit (push_bit k x) 7 = bit x (7 - k)" using Suc.prems by (simp add: bit_push_bit_iff)
  ultimately show ?case
    using Suc.prems Suc.IH [of "Suc k"] by (simp only: msbs.simps) (simp add: upt_conv_Cons del: upt_Suc flip: map_Suc_upt)
qed simp

lemma msbs_8: "msbs 8 x = bits_of x"
  using msbs_shifted [of 8 0 x] by (simp add: bits_of_def upt_conv_Cons del: upt_Suc)

lemma length_msbs [simp]: "length (msbs n x) = n"
  by (induction n arbitrary: x) auto

lemma and_0x80: "x AND 0x80 \<noteq> 0 \<longleftrightarrow> bit x 7" for x :: byte
  using and_exp_eq_0_iff_not_bit [of x 7] by simp

lemma byte_of_bits_of: "byte_of (bits_of x) = x"
proof (rule bit_word_eqI)
  fix n assume "n < LENGTH(8)"
  then have "n = 0 \<or> n = 1 \<or> n = 2 \<or> n = 3 \<or> n = 4 \<or> n = 5 \<or> n = 6 \<or> n = 7" by auto
  then show "bit (byte_of (bits_of x)) n = bit x n"
    by (elim disjE) (simp_all add: byte_of_def shift_in_def bits_of_def bit_simps)
qed

section \<open>Single operations on the wire\<close>

text \<open>A description that names the pins of the wire, and the states with a low and a high clock.\<close>

definition wired :: "i2c_bus_description \<Rightarrow> 'b wire \<Rightarrow> bool" where
  "wired d w \<longleftrightarrow> g_scl_mask d = scl_bit w \<and> g_sda_mask d = sda_bit w \<and> scl_bit w AND sda_bit w = 0 \<and> scl_bit w \<noteq> 0 \<and> sda_bit w \<noteq> 0"

definition at_wire :: "'b wire \<Rightarrow> bool \<Rightarrow> bool \<Rightarrow> nat \<Rightarrow> phase \<Rightarrow> 'b \<Rightarrow> 'b wire" where
  "at_wire w scl sda h ph b = \<lparr>scl_bit = scl_bit w, sda_bit = sda_bit w, m_scl = scl, m_sda = sda, held = h, phase_of = ph,
     chip_of = b, ticks = ticks w, fast = fast w\<rparr>"

definition low :: "'b chip \<Rightarrow> 'b wire \<Rightarrow> bool \<Rightarrow> phase \<times> 'b \<Rightarrow> 'b wire" where
  "low C w v pb = at_wire w False v (holds C (snd pb)) (fst pb) (snd pb)"

definition high :: "'b wire \<Rightarrow> bool \<Rightarrow> phase \<times> 'b \<Rightarrow> 'b wire" where
  "high w v pb = at_wire w True v 0 (fst pb) (snd pb)"

lemma pulls_rise [simp]: "pulls (clock_rise v ph) = pulls ph"
  by (cases ph) auto

lemma wired_simps [simp]:
  "wired (d\<lparr>delay := x\<rparr>) w = wired d w" "wired (d\<lparr>started := y\<rparr>) w = wired d w" "wired (d\<lparr>flag := y\<rparr>) w = wired d w"
  by (simp_all add: wired_def)

lemma wire_env_simps [simp]:
  "OUT_SET (wire_env C) = drive_mask C True" "OUT_CLEAR (wire_env C) = drive_mask C False" "GPIO_IN (wire_env C) = sample_lines"
  "delay_loop (wire_env C) n w = w" "cpu_160MHz (wire_env C) = fast"
  by (simp_all add: wire_env_def)

lemma i2c_delay_wire [simp]: "i2c_delay (wire_env C) s = s"
  by (simp add: i2c_delay_def split: prod.split)

text \<open>The optional byte and the buffer are sent alike.\<close>

lemma slave_write_bytes:
  "i2c_slave_write E addr data buf s =
     do {
       (r, s0) \<leftarrow> i2c_bus_test E s;
       if r \<noteq> I2C_SUCCESS then Some (EBUSY, s0)
       else do {
         s1 \<leftarrow> i2c_start E s0;
         (ok2, s2) \<leftarrow> i2c_write E (push_bit 1 addr) s1;
         if \<not> ok2 then i2c_error E s2
         else do {
           (ok4, s4) \<leftarrow> i2c_write_bytes E (case data of None \<Rightarrow> buf | Some x \<Rightarrow> x # buf) s2;
           if \<not> ok4 then i2c_error E s4
           else do { (ok5, s5) \<leftarrow> i2c_stop E s4; if \<not> ok5 then i2c_error E s5 else Some (I2C_SUCCESS, bus_free s5) }
         }
       }
     }"
  unfolding i2c_slave_write_def
  by (cases data) (auto simp: case_prod_beta intro!: Option.bind_cong split: bind_splits)

locale i2c_target =
  fixes C :: "'b chip"
  assumes holds: "holds C b < I2C_CLK_STRETCH_SPIN"
begin

lemma sda_low:
  assumes "wired d w"
  shows "set_sda (wire_env C) (d, low C w v pb) = (d, low C w True pb)"
    "clear_sda (wire_env C) (d, low C w v pb) = (d, low C w False pb)"
  using assms by (simp_all add: set_sda_def clear_sda_def wired_def drive_mask_def drive_sda_def low_def at_wire_def scl_line_def Let_def and.commute)

lemma sda_high:
  assumes "wired d w"
  shows "set_sda (wire_env C) (d, high w True pb) = (d, high w True pb)"
  using assms by (simp add: set_sda_def wired_def drive_mask_def drive_sda_def high_def at_wire_def scl_line_def sda_line_def Let_def and.commute)

lemma start_high:
  assumes "wired d w" "\<not> pulls ph"
  shows "clear_sda (wire_env C) (d, high w True (ph, b)) = (d, high w False (Collect True [], b))"
  using assms by (simp add: clear_sda_def wired_def drive_mask_def drive_sda_def high_def at_wire_def scl_line_def sda_line_def Let_def and.commute)

lemma stop_high:
  assumes "wired d w" "\<not> pulls ph"
  shows "set_sda (wire_env C) (d, high w False (ph, b)) = (d, high w True (Idle, ends C b))"
  using assms by (simp add: set_sda_def wired_def drive_mask_def drive_sda_def high_def at_wire_def scl_line_def sda_line_def Let_def and.commute)

lemma read_sda_high: "wired d w \<Longrightarrow> read_sda (wire_env C) (d, high w v pb) = (v \<and> \<not> pulls (fst pb), (d, high w v pb))"
  by (auto simp: read_sda_def wired_def sample_lines_def high_def at_wire_def scl_line_def sda_line_def and.commute bit.conj_disj_distrib)

lemma spin_up:
  assumes "wired d w" "h < n"
  shows "scl_spin (wire_env C) n (d, at_wire w True v h (if h = 0 then clock_rise (v \<and> \<not> pulls ph) ph else ph) b)
    = (True, (d, high w v (clock_rise (v \<and> \<not> pulls ph) ph, b)))"
  using assms(2)
proof (induction h arbitrary: n)
  case 0
  then obtain m where "n = Suc m" by (cases n) auto
  then show ?case
    using assms(1)
    by (auto simp: read_scl_def sample_lines_def scl_line_def wired_def high_def at_wire_def bit.conj_disj_distrib and.commute)
next
  case (Suc h)
  then obtain m where "n = Suc m" "h < m" by (cases n) auto
  then show ?case
    using assms(1) Suc.IH [of m]
    by (auto simp: read_scl_def sample_lines_def scl_line_def sda_line_def wired_def at_wire_def bit.conj_disj_distrib and.commute)
qed

lemma set_scl_low:
  assumes "wired d w"
  shows "set_scl (wire_env C) (d, low C w v (ph, b)) = Some (d, high w v (clock_rise (v \<and> \<not> pulls ph) ph, b))"
proof -
  have "drive_mask C True (g_scl_mask d) (low C w v (ph, b))
      = at_wire w True v (holds C b) (if holds C b = 0 then clock_rise (v \<and> \<not> pulls ph) ph else ph) b"
    using assms by (auto simp: drive_mask_def drive_scl_def low_def at_wire_def wired_def sda_line_def Let_def and.commute)
  then show ?thesis using spin_up [OF assms holds [of b], where v = v and ph = ph and b = b] by (simp add: set_scl_def)
qed

lemma clear_scl_high:
  "wired d w \<Longrightarrow> clear_scl (wire_env C) (d, high w v (ph, b)) = (d, low C w v (clock_fall C ph b))"
  by (auto simp: clear_scl_def drive_mask_def drive_scl_def high_def at_wire_def low_def at_wire_def wired_def scl_line_def Let_def and.commute split: prod.split)

lemma write_bit:
  assumes "wired d w" "\<not> pulls ph"
  shows "i2c_write_bit (wire_env C) v (d, low C w v' (ph, b)) = Some (d, low C w v (clock_fall C (clock_rise v ph) b))"
  using assms by (cases v) (simp_all add: i2c_write_bit_def sda_low set_scl_low clear_scl_high read_sda_high)

lemma read_bit:
  assumes "wired d w"
  shows "i2c_read_bit (wire_env C) (d, low C w v (ph, b))
    = Some (\<not> pulls ph, (d, low C w True (clock_fall C (clock_rise (\<not> pulls ph) ph) b)))"
  using assms by (simp add: i2c_read_bit_def sda_low set_scl_low clear_scl_high read_sda_high)

text \<open>The description once the transfer has started.\<close>

abbreviation busy :: "'c wire \<Rightarrow> i2c_bus_description \<Rightarrow> i2c_bus_description" where
  "busy w d \<equiv> d\<lparr>delay := (if fast w then delay_160 d else delay_80 d), started := True\<rparr>"

lemma start_idle:
  assumes "wired d w" "\<not> started d"
  shows "i2c_start (wire_env C) (d, high w True (Idle, b)) = Some (busy w d, low C w False (Collect True [], b))"
proof -
  have "fast (high w True (Idle, b)) = fast w" by (simp add: high_def at_wire_def)
  then show ?thesis
    using assms by (simp add: i2c_start_def i2c_restart_def sda_high read_sda_high start_high clear_scl_high)
qed

lemma start_again:
  assumes "wired d w" "started d" "\<not> pulls ph"
  shows "i2c_start (wire_env C) (d, low C w v (ph, b)) = Some (busy w d, low C w False (Collect True [], b))"
proof -
  have "fast (low C w v (ph, b)) = fast w" by (simp add: low_def at_wire_def)
  then show ?thesis
    using assms by (simp add: i2c_start_def i2c_restart_def sda_low set_scl_low sda_high read_sda_high start_high clear_scl_high)
qed

lemma stop_low:
  assumes "wired d w" "started d" "\<not> pulls ph"
  shows "i2c_stop (wire_env C) (d, low C w v (ph, b)) = Some (True, (d\<lparr>started := False\<rparr>, high w True (Idle, ends C b)))"
  using assms
  by (simp add: i2c_stop_def sda_low set_scl_low stop_high read_sda_high)

lemma write_bits:
  assumes "wired d w" "length vs + Suc n = 8"
  shows "\<exists>v'. i2c_write_bits (wire_env C) (Suc n) x (d, low C w v (Collect hdr vs, b))
    = Some (d, low C w v' (clock_fall C (Collect hdr (vs @ msbs (Suc n) x)) b))"
  using assms(2)
proof (induction n arbitrary: vs x v)
  case 0
  then have "i2c_write_bits (wire_env C) (Suc 0) x (d, low C w v (Collect hdr vs, b))
      = Some (d, low C w (bit x 7) (clock_fall C (Collect hdr (vs @ msbs (Suc 0) x)) b))"
    using assms(1) by (simp add: write_bit and_0x80 del: clock_fall.simps(1))
  then show ?case by blast
next
  case (Suc n)
  let ?v = "bit x 7"
  have "i2c_write_bit (wire_env C) (x AND 0x80 \<noteq> 0) (d, low C w v (Collect hdr vs, b)) = Some (d, low C w ?v (Collect hdr (vs @ [?v]), b))"
    using Suc.prems by (simp add: write_bit [OF assms(1)] and_0x80)
  then have "i2c_write_bits (wire_env C) (Suc (Suc n)) x (d, low C w v (Collect hdr vs, b))
      = i2c_write_bits (wire_env C) (Suc n) (push_bit 1 x) (d, low C w ?v (Collect hdr (vs @ [?v]), b))"
    by (simp only: i2c_write_bits.simps(2) Option.bind.simps)
  moreover have "\<exists>v'. i2c_write_bits (wire_env C) (Suc n) (push_bit 1 x) (d, low C w ?v (Collect hdr (vs @ [?v]), b))
      = Some (d, low C w v' (clock_fall C (Collect hdr ((vs @ [?v]) @ msbs (Suc n) (push_bit 1 x))) b))"
    using Suc.prems by (intro Suc.IH) simp
  ultimately show ?case by (simp only: msbs.simps append_assoc append_Cons append_Nil)
qed

lemma write_byte:
  assumes "wired d w" "(if hdr then answers C x b else takes C x b) = (ok, b1)"
  shows "i2c_write (wire_env C) x (d, low C w v (Collect hdr [], b))
    = Some (ok, (d, low C w True (if ok then if hdr \<and> odd (unat x) then send_next C b1 else (Collect False [], b1) else (Idle, b1))))"
proof -
  have eight: "Suc 7 = 8" by simp
  obtain v' where "i2c_write_bits (wire_env C) 8 x (d, low C w v (Collect hdr [], b))
      = Some (d, low C w v' (clock_fall C (Collect hdr (bits_of x)) b))"
    using write_bits [OF assms(1), of "[]" 7 x v hdr b, unfolded eight append_Nil msbs_8] by auto
  moreover have "clock_fall C (Collect hdr (bits_of x)) b = (if ok then Acking (hdr \<and> odd (unat x)) else Idle, b1)"
    using assms(2) byte_of_bits_of [of x] by (cases hdr) (auto simp: bits_of_def)
  ultimately show ?thesis using assms(1) by (simp add: i2c_write_def read_bit del: clock_fall.simps(1))
qed

lemma read_bits:
  assumes "wired d w" "vs \<noteq> []"
  shows "i2c_read_bits (wire_env C) (length vs) x (d, low C w v (Sending vs, b))
    = Some (fold shift_in vs x, (d, low C w True (Await, b)))"
  using assms(2)
proof (induction vs arbitrary: x v)
  case (Cons y ys)
  then show ?case using assms(1) by (cases ys) (simp_all add: read_bit)
qed simp

lemma read_byte:
  assumes "wired d w"
  shows "i2c_read (wire_env C) nack (d, low C w v (Sending (bits_of x), b))
    = Some (x, (d, low C w nack (if nack then (Idle, b) else send_next C b)))"
proof -
  have "i2c_read_bits (wire_env C) 8 0 (d, low C w v (Sending (bits_of x), b)) = Some (x, (d, low C w True (Await, b)))"
    using read_bits [OF assms, of "bits_of x" 0 v b] byte_of_bits_of [of x] by (simp add: byte_of_def)
  then show ?thesis using assms by (simp add: i2c_read_def write_bit)
qed

lemma read_bytes:
  assumes "wired d w" "gives_all C (Suc n) b = (xs, b1)"
  shows "i2c_read_bytes (wire_env C) (Suc n) (d, low C w v (send_next C b)) = Some (xs, (d, low C w True (Idle, b1)))"
  using assms(2)
proof (induction n arbitrary: b xs v)
  case 0
  then show ?case using assms(1) by (auto simp: send_next_def read_byte split: prod.splits)
next
  case (Suc n)
  obtain x b' ys where b: "gives C b = (x, b')" "gives_all C (Suc n) b' = (ys, b1)" "xs = x # ys"
    using Suc.prems by (auto simp del: gives_all.simps(2) simp: gives_all.simps(2) [of C "Suc n"] split: prod.splits)
  have "send_next C b = (Sending (bits_of x), b')" by (simp add: send_next_def b(1))
  then show ?case using assms(1) Suc.IH [OF b(2), of False] b(3) by (simp add: read_byte del: i2c_read_bytes.simps(2) add: i2c_read_bytes.simps(2) [of _ "Suc n"])
qed

lemma error_low:
  assumes "wired d w" "started d" "\<not> pulls ph"
  shows "i2c_error (wire_env C) (d, low C w v (ph, b)) = Some (EIO, (d\<lparr>started := False, flag := False\<rparr>, high w True (Idle, ends C b)))"
  using assms by (simp add: i2c_error_def stop_low bus_free_def)

lemma write_bytes:
  assumes "wired d w" "takes_all C xs b = (ok, b1)"
  shows "\<exists>v'. i2c_write_bytes (wire_env C) xs (d, low C w v (Collect False [], b))
    = Some (ok, (d, low C w v' (if ok then Collect False [] else Idle, b1)))"
  using assms(2)
proof (induction xs arbitrary: b v)
  case (Cons x xs)
  obtain ok1 b' where t: "takes C x b = (ok1, b')" by fastforce
  show ?case
    using Cons.prems Cons.IH [of b' True] t write_byte [OF assms(1), of False x b ok1 b' v] by (cases ok1) auto
qed auto

lemma address_parity: "even (unat (push_bit 1 a :: byte))" "odd (unat (push_bit 1 a OR 1 :: byte))"
proof -
  have "odd (unat x) \<longleftrightarrow> bit x 0" for x :: byte by (simp add: bit_unsigned_iff flip: bit_0)
  moreover have "\<not> bit (push_bit 1 a) 0" "bit (push_bit 1 a OR 1) 0" by (simp_all only: bit_simps) simp_all
  ultimately show "even (unat (push_bit 1 a :: byte))" "odd (unat (push_bit 1 a OR 1 :: byte))" by blast+
qed

lemma slave_write:
  assumes "wired d w" "\<not> started d" "\<not> flag d" "transfer_out C addr (case data of None \<Rightarrow> buf | Some x \<Rightarrow> x # buf) b = (r, b')"
  shows "i2c_slave_write (wire_env C) addr data buf (d, high w True (Idle, b))
    = Some (r, ((busy w d)\<lparr>started := False, flag := False\<rparr>, high w True (Idle, b')))"
proof -
  let ?d = "busy w (d\<lparr>flag := True\<rparr>)"
  have d: "wired ?d w" "started ?d" using assms(1) by simp_all
  have test: "i2c_bus_test (wire_env C) (d, high w True (Idle, b)) = Some (I2C_SUCCESS, (d\<lparr>flag := True\<rparr>, high w True (Idle, b)))"
    using assms(3) by (simp add: i2c_bus_test_def)
  have start: "i2c_start (wire_env C) (d\<lparr>flag := True\<rparr>, high w True (Idle, b)) = Some (?d, low C w False (Collect True [], b))"
    using assms(1,2) by (intro start_idle) simp_all
  obtain ok1 b1 where a: "answers C (push_bit 1 addr) b = (ok1, b1)" by fastforce
  note addr = write_byte [OF d(1), of True "push_bit 1 addr" b ok1 b1 False, simplified a address_parity, simplified]
  have fin: "?d\<lparr>started := False, flag := False\<rparr> = (busy w d)\<lparr>started := False, flag := False\<rparr>" by simp
  show ?thesis
  proof (cases ok1)
    case False
    then show ?thesis
      using assms(4) a error_low [OF d, of Idle True b1] addr fin
      by (simp add: slave_write_bytes test start transfer_out_def bytes_out_def)
  next
    case True
    let ?xs = "case data of None \<Rightarrow> buf | Some x \<Rightarrow> x # buf"
    obtain ok2 b2 where t: "takes_all C ?xs b1 = (ok2, b2)" by fastforce
    obtain v where "i2c_write_bytes (wire_env C) ?xs (?d, low C w True (Collect False [], b1))
        = Some (ok2, (?d, low C w v (if ok2 then Collect False [] else Idle, b2)))"
      using write_bytes [OF d(1) t] by blast
    moreover have "r = (if ok2 then I2C_SUCCESS else EIO)" "b' = ends C b2"
      using assms(4) a True t by (auto simp: transfer_out_def bytes_out_def)
    ultimately show ?thesis
      using True addr error_low [OF d, of Idle v b2] stop_low [OF d, of "Collect False []" v b2] fin
      by (cases ok2) (simp_all add: slave_write_bytes test start bus_free_def)
  qed
qed

lemma read_tail:
  assumes "wired d w" "started d" "bytes_in C addr (Suc n) b = (r, xs, b')"
  shows "do {
      (ok3, s3) \<leftarrow> i2c_write (wire_env C) (push_bit 1 addr OR 1) (d, low C w v (Collect True [], b));
      if \<not> ok3 then do { (r, s9) \<leftarrow> i2c_error (wire_env C) s3; Some (r, [], s9) }
      else do {
        (xs, s4) \<leftarrow> i2c_read_bytes (wire_env C) (Suc n) s3;
        (ok5, s5) \<leftarrow> i2c_stop (wire_env C) s4;
        if \<not> ok5 then do { (r, s9) \<leftarrow> i2c_error (wire_env C) s5; Some (r, xs, s9) }
        else Some (I2C_SUCCESS, xs, bus_free s5)
      }
    } = Some (r, xs, (d\<lparr>started := False, flag := False\<rparr>, high w True (Idle, b')))"
proof -
  obtain ok b1 where a: "answers C (push_bit 1 addr OR 1) b = (ok, b1)" by fastforce
  note addr = write_byte [OF assms(1), of True "push_bit 1 addr OR 1" b ok b1 v, simplified a address_parity, simplified]
  obtain ys b2 where g: "gives_all C (Suc n) b1 = (ys, b2)" by fastforce
  show ?thesis
    using assms(3) a g addr error_low [OF assms(1,2), of Idle True b1] read_bytes [OF assms(1) g, of True]
      stop_low [OF assms(1,2), of Idle True b2]
    by (cases ok) (simp_all add: bytes_in_def bus_free_def del: i2c_read_bytes.simps gives_all.simps)
qed

lemma slave_read:
  assumes "wired d w" "\<not> started d" "\<not> flag d" "transfer_in C addr data (Suc n) b = (r, xs, b')"
  shows "i2c_slave_read (wire_env C) addr data (Suc n) (d, high w True (Idle, b))
    = Some (r, xs, ((busy w d)\<lparr>started := False, flag := False\<rparr>, high w True (Idle, b')))"
proof -
  let ?d = "busy w (d\<lparr>flag := True\<rparr>)"
  have d: "wired ?d w" "started ?d" using assms(1) by simp_all
  have test: "i2c_bus_test (wire_env C) (d, high w True (Idle, b)) = Some (I2C_SUCCESS, (d\<lparr>flag := True\<rparr>, high w True (Idle, b)))"
    using assms(3) by (simp add: i2c_bus_test_def)
  have start: "i2c_start (wire_env C) (d\<lparr>flag := True\<rparr>, high w True (Idle, b)) = Some (?d, low C w False (Collect True [], b))"
    using assms(1,2) by (intro start_idle) simp_all
  have fin: "?d\<lparr>started := False, flag := False\<rparr> = (busy w d)\<lparr>started := False, flag := False\<rparr>" by simp
  show ?thesis
  proof (cases data)
    case None
    then have "bytes_in C addr (Suc n) b = (r, xs, b')" using assms(4) by (simp add: transfer_in_def)
    from read_tail [OF d this, of False] show ?thesis
      using fin by (simp add: i2c_slave_read_def i2c_select_def None test start del: i2c_read_bytes.simps)
  next
    case (Some x)
    obtain ok1 b1 where a: "answers C (push_bit 1 addr) b = (ok1, b1)" by fastforce
    obtain ok2 b2 where t: "takes C x b1 = (ok2, b2)" by fastforce
    note addr = write_byte [OF d(1), of True "push_bit 1 addr" b ok1 b1 False, simplified a address_parity, simplified]
    note reg = write_byte [OF d(1), of False x b1 ok2 b2 True, simplified t, simplified]
    have again: "i2c_start (wire_env C) (?d, low C w True (Collect False [], b2)) = Some (?d, low C w False (Collect True [], b2))"
      using start_again [OF d, of "Collect False []" True b2] by simp
    show ?thesis
    proof (cases "ok1 \<and> ok2")
      case True
      then have "bytes_in C addr (Suc n) b2 = (r, xs, b')" using assms(4) a t by (simp add: transfer_in_def bytes_out_def Some)
      from read_tail [OF d this, of False] show ?thesis
        using fin True addr reg again by (simp add: i2c_slave_read_def i2c_select_def Some test start del: i2c_read_bytes.simps)
    next
      case False
      then show ?thesis
        using assms(4) a t addr reg fin error_low [OF d, of Idle True b1] error_low [OF d, of Idle True b2]
        by (cases ok1) (simp_all add: i2c_slave_read_def i2c_select_def Some test start transfer_in_def bytes_out_def del: i2c_read_bytes.simps)
    qed
  qed
qed

end

section \<open>Transfers on an idle bus\<close>

definition idle_bus :: "'b wire i2c \<Rightarrow> 'b \<Rightarrow> bool" where
  "idle_bus s b \<longleftrightarrow> wired (fst s) (snd s) \<and> \<not> started (fst s) \<and> \<not> flag (fst s)
     \<and> m_scl (snd s) \<and> m_sda (snd s) \<and> held (snd s) = 0 \<and> phase_of (snd s) = Idle \<and> chip_of (snd s) = b"

lemma idle_bus_high: "idle_bus (d, w) b \<Longrightarrow> high w True (Idle, b) = w"
  by (auto simp: idle_bus_def high_def at_wire_def)

lemma high_idle_bus: "wired d w \<Longrightarrow> \<not> started d \<Longrightarrow> \<not> flag d \<Longrightarrow> idle_bus (d, high w True (Idle, b)) b"
  by (simp add: idle_bus_def wired_def high_def at_wire_def)

context i2c_target
begin

lemma transfer_out_ok:
  assumes "idle_bus s b" "transfer_out C addr (case data of None \<Rightarrow> buf | Some x \<Rightarrow> x # buf) b = (r, b')"
  shows "\<exists>s'. i2c_slave_write (wire_env C) addr data buf s = Some (r, s') \<and> idle_bus s' b'"
proof -
  obtain d w where s: "s = (d, w)" by fastforce
  then have d: "wired d w" "\<not> started d" "\<not> flag d" using assms(1) by (auto simp: idle_bus_def)
  show ?thesis
    using slave_write [OF d assms(2)] assms(1) d(1) high_idle_bus [of "(busy w d)\<lparr>started := False, flag := False\<rparr>" w b']
    by (simp add: s idle_bus_high)
qed

lemma transfer_in_ok:
  assumes "idle_bus s b" "transfer_in C addr data n b = (r, xs, b')" "0 < n"
  shows "\<exists>s'. i2c_slave_read (wire_env C) addr data n s = Some (r, xs, s') \<and> idle_bus s' b'"
proof -
  obtain d w where s: "s = (d, w)" by fastforce
  then have d: "wired d w" "\<not> started d" "\<not> flag d" using assms(1) by (auto simp: idle_bus_def)
  obtain m where n: "n = Suc m" using assms(3) by (cases n) auto
  show ?thesis
    using slave_read [OF d assms(2) [unfolded n]] assms(1) d(1) high_idle_bus [of "(busy w d)\<lparr>started := False, flag := False\<rparr>" w b']
    by (simp add: s n idle_bus_high)
qed

end

section \<open>A slave with registers\<close>

text \<open>
  The usual slave: the first byte of a write selects a register, the following ones are stored from
  there on; a read gives the registers from the selected one on. It stretches the clock a little.
\<close>

record regfile =
  pointer :: nat
  selecting :: bool
  regs :: memory

definition reg_chip :: "byte \<Rightarrow> regfile chip" where
  "reg_chip addr = \<lparr>
     answers = (\<lambda>x b. (drop_bit 1 x = drop_bit 1 (push_bit 1 addr), b\<lparr>selecting := True\<rparr>)),
     takes = (\<lambda>x b. if selecting b then (True, b\<lparr>selecting := False, pointer := unat x\<rparr>)
                   else (True, b\<lparr>regs := (regs b)(pointer b := x), pointer := pointer b + 1\<rparr>)),
     gives = (\<lambda>b. (regs b (pointer b), b\<lparr>pointer := pointer b + 1\<rparr>)),
     ends = (\<lambda>b. b\<lparr>selecting := False\<rparr>),
     holds = (\<lambda>_. 3)\<rparr>"

interpretation reg_chip: i2c_target "reg_chip addr"
  by unfold_locales (simp add: reg_chip_def I2C_CLK_STRETCH_SPIN_def)

lemma reg_chip_simps:
  "takes (reg_chip addr) x b = (if selecting b then (True, b\<lparr>selecting := False, pointer := unat x\<rparr>)
     else (True, b\<lparr>regs := (regs b)(pointer b := x), pointer := pointer b + 1\<rparr>))"
  "gives (reg_chip addr) b = (regs b (pointer b), b\<lparr>pointer := pointer b + 1\<rparr>)"
  "ends (reg_chip addr) b = b\<lparr>selecting := False\<rparr>"
  by (simp_all add: reg_chip_def)

lemma reg_takes:
  "\<not> selecting b \<Longrightarrow> takes_all (reg_chip addr) xs b
    = (True, b\<lparr>regs := mem_put (pointer b) xs (regs b), pointer := pointer b + length xs\<rparr>)"
proof (induction xs arbitrary: b)
  case (Cons x xs)
  have "mem_put (pointer b) (x # xs) (regs b) = mem_put (pointer b + 1) xs ((regs b)(pointer b := x))"
    by (auto simp: mem_put_def nth_Cons')
  then show ?case using Cons by (simp add: reg_chip_simps fun_upd_def)
qed simp

lemma reg_gives:
  "gives_all (reg_chip addr) n b = (mem_read (regs b) (pointer b) n, b\<lparr>pointer := pointer b + n\<rparr>)"
proof (induction n arbitrary: b)
  case (Suc n)
  have "mem_read (regs b) (pointer b) (Suc n) = regs b (pointer b) # mem_read (regs b) (pointer b + 1) n"
    using mem_read_add [of "regs b" "pointer b" 1 n] by (simp add: mem_read_def)
  then show ?case using Suc by (simp add: reg_chip_simps)
qed (simp add: mem_read_def)

lemma address_drop: "drop_bit 1 (push_bit 1 a OR 1) = drop_bit 1 (push_bit 1 a :: byte)" for a :: byte
  by (rule bit_word_eqI) (auto simp: bit_simps)

lemma reg_answers:
  "answers (reg_chip addr) (push_bit 1 addr) b = (True, b\<lparr>selecting := True\<rparr>)"
  "answers (reg_chip addr) (push_bit 1 addr OR 1) b = (True, b\<lparr>selecting := True\<rparr>)"
  using address_drop [of addr] by (simp_all only: reg_chip_def chip.select_convs simp_thms)

lemma reg_transfer_out:
  "transfer_out (reg_chip addr) addr (r # xs) b = (I2C_SUCCESS,
     \<lparr>pointer = unat r + length xs, selecting = False, regs = mem_put (unat r) xs (regs b)\<rparr>)"
  unfolding transfer_out_def bytes_out_def reg_answers takes_all.simps
  by (cases b) (simp add: reg_chip_simps reg_takes)

lemma reg_transfer_in:
  "transfer_in (reg_chip addr) addr (Some r) n b = (I2C_SUCCESS, mem_read (regs b) (unat r) n,
     \<lparr>pointer = unat r + n, selecting = False, regs = regs b\<rparr>)"
  unfolding transfer_in_def bytes_out_def bytes_in_def reg_answers takes_all.simps option.case
  by (cases b) (simp add: reg_chip_simps reg_answers reg_gives del: push_bit_Suc)

section \<open>Every transfer returns\<close>

text \<open>
  All that is needed is that time passes while a task waits: a wait and a sample of the pins
  advance the tick counter, by far less than its range.
\<close>

definition stretch_ok :: "'e i2c \<Rightarrow> bool" where
  "stretch_ok s \<longleftrightarrow> clk_stretch (fst s) < 2 ^ 31"

lemma stretch_ok_simps [simp]:
  "stretch_ok (i2c_delay E s) = stretch_ok s" "stretch_ok (set_sda E s) = stretch_ok s" "stretch_ok (clear_sda E s) = stretch_ok s"
  "stretch_ok (clear_scl E s) = stretch_ok s" "stretch_ok (snd (read_sda E s)) = stretch_ok s" "stretch_ok (bus_free s) = stretch_ok s"
  "stretch_ok (b\<lparr>started := v\<rparr>, e) = stretch_ok (b, e)" "stretch_ok (b\<lparr>flag := v\<rparr>, e) = stretch_ok (b, e)"
  "stretch_ok (b\<lparr>delay := n\<rparr>, e) = stretch_ok (b, e)"
  by (simp_all add: stretch_ok_def i2c_delay_def set_sda_def clear_sda_def clear_scl_def read_sda_def bus_free_def split: prod.split)

lemma fst_scl_spin: "fst (snd (scl_spin E n s)) = fst s"
  by (induction n arbitrary: s) (auto simp: read_scl_def split: prod.split bool.split)

locale ticking =
  fixes E :: "'e i2c_env"
  assumes advances: "0 < k \<Longrightarrow> k \<le> 2 ^ 30 \<Longrightarrow> \<exists>n. 0 < n \<and> n \<le> 2 ^ 30 \<and>
      xTaskGetTickCount E (snd (GPIO_IN E (vTaskDelay E k e))) = u32 (xTaskGetTickCount E e + n)"
    and tick_range: "xTaskGetTickCount E e < 2 ^ 32"
begin

lemma scl_wait_returns:
  assumes "limit < 2 ^ 31" "u32_sub (xTaskGetTickCount E e) start \<le> limit"
  shows "\<exists>e'. scl_wait E limit start (b, e) = Some (b, e')"
  using assms(2)
proof (induction "2 ^ 31 - u32_sub (xTaskGetTickCount E e) start" arbitrary: e rule: less_induct)
  case less
  let ?e = "snd (GPIO_IN E (vTaskDelay E (20 div portTICK_PERIOD_MS) e))"
  let ?elapsed = "\<lambda>e. u32_sub (xTaskGetTickCount E e) start"
  obtain n where n: "0 < n" "n \<le> 2 ^ 30" "xTaskGetTickCount E ?e = u32 (xTaskGetTickCount E e + n)"
    using advances [of "20 div portTICK_PERIOD_MS" e] by (auto simp: portTICK_PERIOD_MS_def)
  have read: "read_scl E (b, vTaskDelay E (20 div portTICK_PERIOD_MS) e) = (fst (GPIO_IN E (vTaskDelay E (20 div portTICK_PERIOD_MS) e)) AND g_scl_mask b \<noteq> 0, (b, ?e))"
    by (simp add: read_scl_def split: prod.split)
  have next_: "?elapsed ?e = u32 (?elapsed e + n)"
    by (simp only: n(3) u32_sub_def u32_def mod_add_left_eq mod_add_right_eq) (simp only: ac_simps)
  show ?case
  proof (cases "?elapsed ?e \<le> limit")
    case True
    have "?elapsed ?e = ?elapsed e + n" using next_ n(2) less.prems assms(1) by simp
    then have "2 ^ 31 - ?elapsed ?e < 2 ^ 31 - ?elapsed e" using True n(1) assms(1) by simp
    from less.hyps [OF this True] show ?thesis by (subst scl_wait.simps) (auto simp: read)
  next
    case False
    then show ?thesis by (subst scl_wait.simps) (simp add: read)
  qed
qed

lemma set_scl_returns: "stretch_ok s \<Longrightarrow> \<exists>s'. set_scl E s = Some s' \<and> stretch_ok s'"
proof -
  assume ok: "stretch_ok s"
  obtain b e where s: "s = (b, e)" by fastforce
  obtain up e1 where spin: "scl_spin E I2C_CLK_STRETCH_SPIN (b, OUT_SET E (g_scl_mask b) e) = (up, (b, e1))"
    using fst_scl_spin [of E I2C_CLK_STRETCH_SPIN "(b, OUT_SET E (g_scl_mask b) e)"] by (metis fst_conv prod.collapse)
  have "\<exists>e'. scl_wait E (clk_stretch b) (xTaskGetTickCount E e1) (b, e1) = Some (b, e')"
    using ok tick_range [of e1] by (intro scl_wait_returns) (simp_all add: stretch_ok_def s)
  then show ?thesis using ok by (cases up) (auto simp: set_scl_def s spin stretch_ok_def)
qed

lemma restart_returns: "stretch_ok s \<Longrightarrow> \<exists>s'. i2c_restart E s = Some s' \<and> stretch_ok s'"
proof -
  assume ok: "stretch_ok s"
  then obtain s1 where "set_scl E (i2c_delay E (set_sda E s)) = Some s1" "stretch_ok s1"
    using set_scl_returns [of "i2c_delay E (set_sda E s)"] by auto
  then show ?thesis using ok by (cases "started (fst s)") (simp_all add: i2c_restart_def)
qed

lemma start_returns: "stretch_ok s \<Longrightarrow> \<exists>s'. i2c_start E s = Some s' \<and> stretch_ok s'"
proof -
  assume ok: "stretch_ok s"
  obtain b e where s: "s = (b, e)" by fastforce
  let ?s = "(b\<lparr>delay := (if cpu_160MHz E e then delay_160 b else delay_80 b)\<rparr>, e)"
  obtain b1 e1 where "i2c_restart E ?s = Some (b1, e1)" "stretch_ok (b1, e1)"
    using ok restart_returns [of ?s] by (auto simp: s)
  then show ?thesis by (simp add: i2c_start_def s)
qed

lemma stop_returns: "stretch_ok s \<Longrightarrow> \<exists>ok s'. i2c_stop E s = Some (ok, s') \<and> stretch_ok s'"
proof -
  assume "stretch_ok s"
  then obtain s1 where s1: "set_scl E (i2c_delay E (clear_sda E s)) = Some s1" "stretch_ok s1"
    using set_scl_returns [of "i2c_delay E (clear_sda E s)"] by auto
  obtain b e where "i2c_delay E (snd (read_sda E (i2c_delay E (set_sda E (i2c_delay E s1))))) = (b, e)" by fastforce
  moreover from this have "stretch_ok (b, e)" using s1(2) by (metis stretch_ok_simps(1,2,5))
  ultimately show ?thesis using s1(1) by (cases "started b") (auto simp: i2c_stop_def)
qed

lemma write_bit_returns: "stretch_ok s \<Longrightarrow> \<exists>s'. i2c_write_bit E v s = Some s' \<and> stretch_ok s'"
proof -
  assume ok: "stretch_ok s"
  let ?s = "i2c_delay E (if v then set_sda E s else clear_sda E s)"
  obtain s1 where "set_scl E ?s = Some s1" "stretch_ok s1" using ok set_scl_returns [of ?s] by (cases v) auto
  then show ?thesis by (cases v) (simp_all add: i2c_write_bit_def)
qed

lemma read_bit_returns: "stretch_ok s \<Longrightarrow> \<exists>v s'. i2c_read_bit E s = Some (v, s') \<and> stretch_ok s'"
proof -
  assume "stretch_ok s"
  then obtain s1 where "set_scl E (i2c_delay E (set_sda E s)) = Some s1" "stretch_ok s1"
    using set_scl_returns [of "i2c_delay E (set_sda E s)"] by auto
  moreover obtain v s2 where "read_sda E s1 = (v, s2)" by (cases "read_sda E s1") simp
  ultimately show ?thesis using stretch_ok_simps(5) [of E s1] by (simp add: i2c_read_bit_def)
qed

lemma write_bits_returns: "stretch_ok s \<Longrightarrow> \<exists>s'. i2c_write_bits E n x s = Some s' \<and> stretch_ok s'"
proof (induction n arbitrary: x s)
  case (Suc n)
  then show ?case using write_bit_returns [of s "x AND 0x80 \<noteq> 0"] by fastforce
qed simp

lemma read_bits_returns: "stretch_ok s \<Longrightarrow> \<exists>y s'. i2c_read_bits E n x s = Some (y, s') \<and> stretch_ok s'"
proof (induction n arbitrary: x s)
  case (Suc n)
  then show ?case using read_bit_returns [of s] by fastforce
qed simp

lemma write_returns: "stretch_ok s \<Longrightarrow> \<exists>ok s'. i2c_write E x s = Some (ok, s') \<and> stretch_ok s'"
  using write_bits_returns [of s 8 x] read_bit_returns by (fastforce simp: i2c_write_def)

lemma read_returns: "stretch_ok s \<Longrightarrow> \<exists>x s'. i2c_read E ack s = Some (x, s') \<and> stretch_ok s'"
proof -
  assume "stretch_ok s"
  then obtain x s1 where s1: "i2c_read_bits E 8 0 s = Some (x, s1)" "stretch_ok s1" using read_bits_returns by blast
  obtain s2 where "i2c_write_bit E ack s1 = Some s2" "stretch_ok s2" using write_bit_returns s1(2) by blast
  then show ?thesis using s1(1) by (simp add: i2c_read_def)
qed

lemma write_bytes_returns: "stretch_ok s \<Longrightarrow> \<exists>ok s'. i2c_write_bytes E xs s = Some (ok, s') \<and> stretch_ok s'"
proof (induction xs arbitrary: s)
  case (Cons x xs)
  then show ?case using write_returns [of s x] by fastforce
qed auto

lemma read_bytes_returns: "stretch_ok s \<Longrightarrow> \<exists>xs s'. i2c_read_bytes E n s = Some (xs, s') \<and> stretch_ok s'"
proof (induction n arbitrary: s)
  case (Suc n)
  then show ?case using read_returns [of s "Suc n = 1"] by fastforce
qed simp

lemma error_returns: "stretch_ok s \<Longrightarrow> \<exists>s'. i2c_error E s = Some (EIO, s') \<and> stretch_ok s'"
  using stop_returns [of s] by (fastforce simp: i2c_error_def)

lemma bus_test_returns: "stretch_ok s \<Longrightarrow> \<exists>r s'. i2c_bus_test E s = Some (r, s') \<and> stretch_ok s'"
  using stop_returns [of "((fst s)\<lparr>flag := True\<rparr>, snd s)"] by (fastforce simp: i2c_bus_test_def Let_def split: prod.split)

lemma slave_write_returns: "stretch_ok s \<Longrightarrow> \<exists>r s'. i2c_slave_write E addr data buf s = Some (r, s') \<and> stretch_ok s'"
proof -
  assume "stretch_ok s"
  then obtain r s0 where s0: "i2c_bus_test E s = Some (r, s0)" "stretch_ok s0" using bus_test_returns by blast
  obtain s1 where s1: "i2c_start E s0 = Some s1" "stretch_ok s1" using start_returns s0(2) by blast
  obtain ok2 s2 where s2: "i2c_write E (push_bit 1 addr) s1 = Some (ok2, s2)" "stretch_ok s2" using write_returns s1(2) by blast
  obtain ok4 s4 where s4: "i2c_write_bytes E (case data of None \<Rightarrow> buf | Some x \<Rightarrow> x # buf) s2 = Some (ok4, s4)" "stretch_ok s4"
    using write_bytes_returns s2(2) by blast
  obtain ok5 s5 where s5: "i2c_stop E s4 = Some (ok5, s5)" "stretch_ok s5" using stop_returns s4(2) by blast
  obtain e2 e4 e5 where "i2c_error E s2 = Some (EIO, e2)" "stretch_ok e2" "i2c_error E s4 = Some (EIO, e4)" "stretch_ok e4"
    "i2c_error E s5 = Some (EIO, e5)" "stretch_ok e5"
    using error_returns [OF s2(2)] error_returns [OF s4(2)] error_returns [OF s5(2)] by blast
  then show ?thesis
    using s0 s1 s2 s4 s5
    by (cases "r = I2C_SUCCESS"; cases ok2; cases ok4; cases ok5) (simp_all add: slave_write_bytes)
qed

lemma select_returns: "stretch_ok s \<Longrightarrow> \<exists>ok s'. i2c_select E addr data s = Some (ok, s') \<and> stretch_ok s'"
proof (cases data)
  case (Some x)
  assume "stretch_ok s"
  then obtain s1 where s1: "i2c_start E s = Some s1" "stretch_ok s1" using start_returns by blast
  obtain ok2 s2 where s2: "i2c_write E (push_bit 1 addr) s1 = Some (ok2, s2)" "stretch_ok s2" using write_returns s1(2) by blast
  then show ?thesis using s1 write_returns [OF s2(2), of x] by (cases ok2) (auto simp: i2c_select_def Some)
qed (auto simp: i2c_select_def)

lemma slave_read_returns: "stretch_ok s \<Longrightarrow> \<exists>r xs s'. i2c_slave_read E addr data n s = Some (r, xs, s') \<and> stretch_ok s'"
proof -
  assume "stretch_ok s"
  then obtain r s0 where s0: "i2c_bus_test E s = Some (r, s0)" "stretch_ok s0" using bus_test_returns by blast
  obtain ok1 s1 where s1: "i2c_select E addr data s0 = Some (ok1, s1)" "stretch_ok s1" using select_returns s0(2) by blast
  obtain s2 where s2: "i2c_start E s1 = Some s2" "stretch_ok s2" using start_returns s1(2) by blast
  obtain ok3 s3 where s3: "i2c_write E (push_bit 1 addr OR 1) s2 = Some (ok3, s3)" "stretch_ok s3" using write_returns s2(2) by blast
  obtain xs s4 where s4: "i2c_read_bytes E n s3 = Some (xs, s4)" "stretch_ok s4" using read_bytes_returns s3(2) by blast
  obtain ok5 s5 where s5: "i2c_stop E s4 = Some (ok5, s5)" "stretch_ok s5" using stop_returns s4(2) by blast
  obtain e1 e3 e5 where "i2c_error E s1 = Some (EIO, e1)" "stretch_ok e1" "i2c_error E s3 = Some (EIO, e3)" "stretch_ok e3"
    "i2c_error E s5 = Some (EIO, e5)" "stretch_ok e5"
    using error_returns [OF s1(2)] error_returns [OF s3(2)] error_returns [OF s5(2)] by blast
  then show ?thesis
    using s0 s1 s2 s3 s4 s5
    by (cases "r = I2C_SUCCESS"; cases ok1; cases ok3; cases ok5) (simp_all add: i2c_slave_read_def)
qed

end

interpretation wire: ticking "wire_env C"
proof
  fix k :: nat and w :: "'a wire"
  assume "0 < k" "k \<le> 2 ^ 30"
  then show "\<exists>n. 0 < n \<and> n \<le> 2 ^ 30 \<and> xTaskGetTickCount (wire_env C) (snd (GPIO_IN (wire_env C) (vTaskDelay (wire_env C) k w)))
      = u32 (xTaskGetTickCount (wire_env C) w + n)"
    by (intro exI [of _ k]) (simp add: wire_env_def sample_lines_def u32_def mod_add_left_eq)
next
  show "xTaskGetTickCount (wire_env C) w < 2 ^ 32" for w :: "'a wire" by (simp add: wire_env_def)
qed

section \<open>Properties\<close>

text \<open>A bus on GPIO 5 and 4 with a register chip, for the examples.\<close>

definition sample_bus :: i2c_bus_description where
  "sample_bus = \<lparr>g_scl_mask = 0x20, g_sda_mask = 0x10, delay_80 = 113, delay_160 = 236, delay = 0, started = False, flag = False,
     force = False, clk_stretch = 25\<rparr>"

definition sample_wire :: "memory \<Rightarrow> regfile wire" where
  "sample_wire m = \<lparr>scl_bit = 0x20, sda_bit = 0x10, m_scl = True, m_sda = True, held = 0, phase_of = Idle,
     chip_of = \<lparr>pointer = 0, selecting = False, regs = m\<rparr>, ticks = 0, fast = False\<rparr>"

lemma sample_idle: "idle_bus (sample_bus, sample_wire m) \<lparr>pointer = 0, selecting = False, regs = m\<rparr>"
  by (simp add: idle_bus_def wired_def sample_bus_def sample_wire_def)

text \<open>
  C22. \<open>i2c_slave_write\<close> is a transfer of bytes: on an idle bus with any slave that stretches the clock for
  fewer samples than the driver spins, the slave sees its address, then the bytes in order up to the
  first it does not acknowledge, then a stop condition; the result says whether all were
  acknowledged, and the bus is idle again.
\<close>

theorem slave_write_sends_bytes:
  assumes "i2c_target C" "idle_bus s b"
  shows "\<exists>s'. i2c_slave_write (wire_env C) addr data buf s
        = Some (fst (transfer_out C addr (case data of None \<Rightarrow> buf | Some x \<Rightarrow> x # buf) b), s')
      \<and> idle_bus s' (snd (transfer_out C addr (case data of None \<Rightarrow> buf | Some x \<Rightarrow> x # buf) b))"
  using i2c_target.transfer_out_ok [OF assms, where addr = addr and data = data and buf = buf] by (cases "transfer_out C addr (case data of None \<Rightarrow> buf | Some x \<Rightarrow> x # buf) b") simp

theorem slave_write_sends_bytes_witness:
  "\<exists>s'. i2c_slave_write (wire_env (reg_chip 0x68)) 0x68 (Some 3) [1, 2] (sample_bus, sample_wire (\<lambda>_. 0)) = Some (I2C_SUCCESS, s')
     \<and> idle_bus s' \<lparr>pointer = 5, selecting = False, regs = mem_put 3 [1, 2] (\<lambda>_. 0)\<rparr>"
  using slave_write_sends_bytes [OF reg_chip.i2c_target_axioms [of "0x68"] sample_idle [of "\<lambda>_. 0"], where addr = "0x68" and data = "Some 3" and buf = "[1, 2]"]
  by (simp add: reg_transfer_out)

text \<open>
  C23. \<open>i2c_slave_read\<close> selects the register and, after a repeated start, reads as many bytes as were asked
  for, at least one: they are the bytes the slave gave, and it is told by a missing acknowledgement which one
  is the last.
\<close>

theorem slave_read_gets_bytes:
  assumes "i2c_target C" "idle_bus s b" "0 < n"
  shows "\<exists>s'. i2c_slave_read (wire_env C) addr data n s
        = Some (fst (transfer_in C addr data n b), fst (snd (transfer_in C addr data n b)), s')
      \<and> idle_bus s' (snd (snd (transfer_in C addr data n b)))"
  using i2c_target.transfer_in_ok [OF assms(1,2) _ assms(3), where addr = addr and data = data] by (cases "transfer_in C addr data n b") simp

theorem slave_read_gets_bytes_witness:
  "\<exists>s'. i2c_slave_read (wire_env (reg_chip 0x68)) 0x68 (Some 3) 2 (sample_bus, sample_wire (\<lambda>a. word_of_nat a)) = Some (I2C_SUCCESS, [3, 4], s')
     \<and> idle_bus s' \<lparr>pointer = 5, selecting = False, regs = (\<lambda>a. word_of_nat a)\<rparr>"
  using slave_read_gets_bytes [OF reg_chip.i2c_target_axioms [of "0x68"] sample_idle [of "\<lambda>a. word_of_nat a"], where n = 2 and addr = "0x68" and data = "Some 3"]
  by (simp add: reg_transfer_in mem_read_def upt_conv_Cons)

text \<open>
  C24. Whatever happens on the lines, a clock that is held low for ever included, every transfer returns,
  as long as the tick counter advances while the task waits and the limit for clock stretching is below 2^31
  ticks. (With a limit of 2^32 - 1, which no elapsed time exceeds, a clock held low is waited for without end.)
\<close>

theorem transfers_return:
  assumes "ticking E" "clk_stretch (fst s) < 2 ^ 31"
  shows "i2c_slave_write E addr data buf s \<noteq> None \<and> i2c_slave_read E addr data n s \<noteq> None"
  using ticking.slave_write_returns [OF assms(1), of s] ticking.slave_read_returns [OF assms(1), of s] assms(2)
  by (fastforce simp: stretch_ok_def)

theorem transfers_return_witness:
  "i2c_slave_write (wire_env (reg_chip 0x68)) 0x50 None [7] (sample_bus, (sample_wire (\<lambda>_. 0))\<lparr>held := 1000000\<rparr>) \<noteq> None"
  using transfers_return [OF wire.ticking_axioms, of "(sample_bus, (sample_wire (\<lambda>_. 0))\<lparr>held := 1000000\<rparr>)"] by (simp add: sample_bus_def)

text \<open>
  A bus that is in use is refused and nothing on it is touched.
\<close>

theorem busy_bus_refused:
  assumes "flag (fst s)" "\<not> force (fst s)"
  shows "i2c_slave_write E addr data buf s = Some (EBUSY, s) \<and> i2c_slave_read E addr data n s = Some (EBUSY, [], s)"
  using assms by (cases s) (simp add: i2c_slave_write_def i2c_slave_read_def i2c_bus_test_def)

theorem busy_bus_refused_witness:
  "i2c_slave_write (wire_env (reg_chip 0x68)) 0x68 None [7] (sample_bus\<lparr>flag := True\<rparr>, sample_wire (\<lambda>_. 0))
     = Some (EBUSY, (sample_bus\<lparr>flag := True\<rparr>, sample_wire (\<lambda>_. 0)))"
  using busy_bus_refused [of "(sample_bus\<lparr>flag := True\<rparr>, sample_wire (\<lambda>_. 0))"] by (simp add: sample_bus_def)

text \<open>
  C25. The clock arithmetic: a frequency is accepted exactly when half a period takes 24 to 269 rounds of
  the delay loop at 160 MHz, with the delays that belong to it, and refused with \<open>EINVAL\<close> otherwise. So
  1000 kHz (20 rounds) and 1300 kHz (15 rounds) are refused, although \<open>i2c.h\<close> offers both and calls 1000K
  the maximum at 80 MHz. At 24 and 25 rounds, as for 800 kHz, the delay for 80 MHz is zero, for which the
  loop runs 2^32 rounds; a refused higher frequency leaves this delay behind as well.
\<close>

theorem frequency_range:
  assumes "0 < freq" "freq < 2 ^ 31" "t = 40000000 div (2 * freq)"
  shows "\<exists>r b'. i2c_set_frequency_hz freq b = Some (r, b') \<and> (r = I2C_SUCCESS \<longleftrightarrow> 24 \<le> t \<and> t \<le> 269)
    \<and> (r = I2C_SUCCESS \<longrightarrow> delay_80 b' = t div 2 - 12 \<and> delay_160 b' = t - 14
         \<and> (delay_rounds (delay_80 b') = 2 ^ 32 \<longleftrightarrow> t = 24 \<or> t = 25))
    \<and> (r \<noteq> I2C_SUCCESS \<longrightarrow> r = EINVAL \<and> (t < 24 \<longrightarrow> delay_rounds (delay_80 b') = 2 ^ 32))"
proof -
  have f: "u32 (2 * freq) = 2 * freq" "2 * freq \<noteq> 0" using assms(1,2) by (simp_all add: u32_def)
  have t: "t \<le> 20000000" using assms(1) div_le_mono2 [of 2 "2 * freq" 40000000] unfolding assms(3) by simp
  have "s32 (u32_sub n k) = int n - int k" if "n \<le> 20000000" "k \<le> 14" for n k
  proof (cases "k \<le> n")
    case True
    then have "u32_sub n k = n - k" using that by simp
    then show ?thesis using that True by (simp add: s32_def)
  next
    case False
    then have "u32_sub n k = n + (2 ^ 32 - k)" unfolding u32_sub_def using that by (intro mod_less) simp
    then show ?thesis using that False by (simp add: s32_def)
  qed
  note sub = this [of "t div 2" 12] this [of t 14]
  have lim: "snd (limit_delay d) \<longleftrightarrow> d < 0 \<or> 255 < d" "\<not> snd (limit_delay d) \<Longrightarrow> fst (limit_delay d) = nat d" for d
    by (auto simp: limit_delay_def)
  define d80 d160 where "d80 = limit_delay (int (t div 2) - 12)" and "d160 = limit_delay (int t - 14)"
  have eq: "i2c_set_frequency_hz freq b
      = Some (if snd d80 \<or> snd d160 then EINVAL else I2C_SUCCESS, b\<lparr>delay_80 := fst d80, delay_160 := fst d160\<rparr>)"
    using t sub f assms(1)
    by (simp add: i2c_set_frequency_hz_def DELAY_LOOPS_PER_US_160MHZ_def DELAY_OVERHEAD_80MHZ_def DELAY_OVERHEAD_160MHZ_def Let_def
        case_prod_beta d80_def d160_def flip: assms(3))
  have "snd d80 \<or> snd d160 \<longleftrightarrow> \<not> (24 \<le> t \<and> t \<le> 269)" unfolding d80_def d160_def lim(1) by linarith
  moreover have "fst d80 = t div 2 - 12" "fst d160 = t - 14" if "\<not> snd d80" "\<not> snd d160"
    using that lim(2) by (simp_all add: d80_def d160_def nat_diff_distrib')
  moreover have "t div 2 - 12 = 0 \<longleftrightarrow> t = 24 \<or> t = 25" if "24 \<le> t" using that by linarith
  moreover have "t div 2 - 12 < 2 ^ 32" using t by simp
  moreover have "fst d80 = 0" if "t < 24" using that by (simp add: d80_def limit_delay_def)
  ultimately show ?thesis unfolding eq by (cases "24 \<le> t \<and> t \<le> 269") (auto simp: delay_rounds_def)
qed

theorem frequency_range_witness:
  "(\<exists>b'. i2c_set_frequency I2C_FREQ_800K sample_bus = Some (I2C_SUCCESS, b') \<and> delay_rounds (delay_80 b') = 2 ^ 32)
    \<and> (\<exists>b'. i2c_set_frequency I2C_FREQ_1000K sample_bus = Some (EINVAL, b'))
    \<and> (\<exists>b'. i2c_set_frequency I2C_FREQ_1300K sample_bus = Some (EINVAL, b'))"
  using frequency_range [of 800000 25 sample_bus] frequency_range [of 1000000 20 sample_bus] frequency_range [of 1300000 15 sample_bus]
  by (auto simp: i2c_set_frequency_def)

end
