(* ===== verification/I2c_Types.thy ===== *)
theory I2c_Types
  imports I2c_Bus
begin

text \<open>
  What transfers leave alone. The fields of a bus description stay in the ranges of their C types, the
  configuration of the bus does not change, and the bus is free after every transfer that got it.
\<close>

section \<open>Invariants of a description\<close>

text \<open>
  Invariants that only depend on the configuration: the transfers change whether a transfer is going on
  and select one of the two delays.
\<close>

locale description_invariant =
  fixes P :: "i2c_bus_description \<Rightarrow> bool"
  assumes started: "P b \<Longrightarrow> P (b\<lparr>started := v\<rparr>)" and flag: "P b \<Longrightarrow> P (b\<lparr>flag := v\<rparr>)"
    and delays: "P b \<Longrightarrow> P (b\<lparr>delay := delay_80 b\<rparr>)" "P b \<Longrightarrow> P (b\<lparr>delay := delay_160 b\<rparr>)"
begin

lemma line_keeps [simp]:
  "fst (i2c_delay E s) = fst s" "fst (set_sda E s) = fst s" "fst (clear_sda E s) = fst s" "fst (clear_scl E s) = fst s"
  "fst (snd (read_sda E s)) = fst s" "fst (snd (read_scl E s)) = fst s"
  by (simp_all add: i2c_delay_def set_sda_def clear_sda_def clear_scl_def read_sda_def read_scl_def split: prod.split)

lemma scl_wait_keeps: "scl_wait E limit start s = Some s' \<Longrightarrow> fst s' = fst s"
proof (rule scl_wait.raw_induct [where P = "\<lambda>E limit start s s'. fst s' = fst s"])
  fix f E limit start s s'
  assume IH: "\<And>E limit start s s'. f E limit start s = Some s' \<Longrightarrow> fst s' = fst s"
    and eq: "(case read_scl E (fst s, vTaskDelay E (20 div portTICK_PERIOD_MS) (snd s)) of
        (up, s1) \<Rightarrow> if up then Some s1 else if limit < u32_sub (xTaskGetTickCount E (snd s1)) start then Some s1 else f E limit start s1)
      = Some s'"
  obtain up s1 where r: "read_scl E (fst s, vTaskDelay E (20 div portTICK_PERIOD_MS) (snd s)) = (up, s1)" by (meson surj_pair)
  then have "fst s1 = fst s" using line_keeps(6) [of E "(fst s, vTaskDelay E (20 div portTICK_PERIOD_MS) (snd s))"] by simp
  then show "fst s' = fst s" using eq IH by (auto simp: r split: if_splits)
qed

lemma set_scl_keeps: "set_scl E s = Some s' \<Longrightarrow> fst s' = fst s"
  using fst_scl_spin [of E I2C_CLK_STRETCH_SPIN "(fst s, OUT_SET E (g_scl_mask (fst s)) (snd s))"]
  by (auto simp: set_scl_def split: prod.splits bool.splits dest: scl_wait_keeps)

lemma restart_keeps: "i2c_restart E s = Some s' \<Longrightarrow> fst s' = fst s"
  by (auto simp: i2c_restart_def bind_eq_Some_conv split: if_splits dest!: set_scl_keeps)

lemma start_keeps: "i2c_start E s = Some s' \<Longrightarrow> P (fst s) \<Longrightarrow> P (fst s')"
proof -
  assume a: "i2c_start E s = Some s'" "P (fst s)"
  obtain b e where s: "s = (b, e)" by fastforce
  let ?b = "b\<lparr>delay := (if cpu_160MHz E e then delay_160 b else delay_80 b)\<rparr>"
  have "P ?b" using a(2) delays by (simp add: s)
  obtain b1 e1 where r: "i2c_restart E (?b, e) = Some (b1, e1)" using a(1) by (auto simp: i2c_start_def s bind_eq_Some_conv)
  have "b1 = ?b" using restart_keeps [OF r] by simp
  then show ?thesis using a(1) r started [OF \<open>P ?b\<close>] by (auto simp: i2c_start_def s)
qed

lemma stop_keeps: "i2c_stop E s = Some (ok, s') \<Longrightarrow> P (fst s) \<Longrightarrow> P (fst s')"
proof -
  assume a: "i2c_stop E s = Some (ok, s')" "P (fst s)"
  obtain s1 where s1: "set_scl E (i2c_delay E (clear_sda E s)) = Some s1" using a(1) by (auto simp: i2c_stop_def bind_eq_Some_conv)
  obtain b e where be: "i2c_delay E (snd (read_sda E (i2c_delay E (set_sda E (i2c_delay E s1))))) = (b, e)" by fastforce
  have b: "b = fst s1" using be by (metis fst_conv line_keeps(1,2,5))
  also have "\<dots> = fst s" using set_scl_keeps [OF s1] by simp
  finally have "P b" using a(2) by simp
  then show ?thesis using a(1) s1 be b started [of b False] by (cases "started b") (simp_all add: i2c_stop_def, auto)
qed

lemma write_bit_keeps: "i2c_write_bit E v s = Some s' \<Longrightarrow> fst s' = fst s"
  by (auto simp: i2c_write_bit_def bind_eq_Some_conv dest!: set_scl_keeps split: if_splits)

lemma read_bit_keeps: "i2c_read_bit E s = Some (v, s') \<Longrightarrow> fst s' = fst s"
  by (auto simp: i2c_read_bit_def bind_eq_Some_conv case_prod_beta dest!: set_scl_keeps)

lemma write_bits_keeps: "i2c_write_bits E n x s = Some s' \<Longrightarrow> fst s' = fst s"
  by (induction n arbitrary: x s) (auto simp: bind_eq_Some_conv dest!: write_bit_keeps)

lemma read_bits_keeps: "i2c_read_bits E n x s = Some (y, s') \<Longrightarrow> fst s' = fst s"
  by (induction n arbitrary: x s) (auto simp: bind_eq_Some_conv dest!: read_bit_keeps)

lemma write_keeps: "i2c_write E x s = Some (ok, s') \<Longrightarrow> fst s' = fst s"
  by (auto simp: i2c_write_def bind_eq_Some_conv dest!: read_bit_keeps write_bits_keeps)

lemma read_keeps: "i2c_read E ack s = Some (x, s') \<Longrightarrow> fst s' = fst s"
  by (auto simp: i2c_read_def bind_eq_Some_conv dest!: write_bit_keeps read_bits_keeps)

lemma write_bytes_keeps: "i2c_write_bytes E xs s = Some (ok, s') \<Longrightarrow> fst s' = fst s"
  by (induction xs arbitrary: s) (auto simp: bind_eq_Some_conv dest!: write_keeps split: if_splits)

lemma read_bytes_keeps: "i2c_read_bytes E n s = Some (xs, s') \<Longrightarrow> fst s' = fst s"
  by (induction n arbitrary: s xs) (auto simp: bind_eq_Some_conv dest!: read_keeps)

lemma free_keeps: "P (fst s) \<Longrightarrow> P (fst (bus_free s))"
  using flag by (cases s) (simp add: bus_free_def)

lemma error_keeps: "i2c_error E s = Some (r, s') \<Longrightarrow> P (fst s) \<Longrightarrow> P (fst s')"
  by (auto simp: i2c_error_def bind_eq_Some_conv dest!: stop_keeps intro: free_keeps)

lemma bus_test_keeps: "i2c_bus_test E s = Some (r, s') \<Longrightarrow> P (fst s) \<Longrightarrow> P (fst s')"
  by (cases s) (auto simp: i2c_bus_test_def Let_def bind_eq_Some_conv flag dest!: stop_keeps split: if_splits)

lemma select_keeps: "i2c_select E a data s = Some (ok, s') \<Longrightarrow> P (fst s) \<Longrightarrow> P (fst s')"
  by (cases data) (auto simp: i2c_select_def bind_eq_Some_conv dest!: start_keeps write_keeps split: if_splits)

lemma slave_write_keeps:
  assumes "i2c_slave_write E a data buf s = Some (r, s')" "P (fst s)"
  shows "P (fst s')"
proof -
  obtain r0 s0 where t: "i2c_bus_test E s = Some (r0, s0)" using assms(1) by (auto simp: i2c_slave_write_def bind_eq_Some_conv)
  note t0 = bus_test_keeps [OF t assms(2)]
  show ?thesis
  proof (cases "r0 = I2C_SUCCESS")
    case True
    then obtain s1 ok2 s2 where w: "i2c_start E s0 = Some s1" "i2c_write E (push_bit 1 a) s1 = Some (ok2, s2)"
      using assms(1) t by (auto simp: i2c_slave_write_def bind_eq_Some_conv)
    have p2: "P (fst s2)" using start_keeps [OF w(1) t0] write_keeps [OF w(2)] by simp
    have "fst s3 = fst s2" if "(case data of None \<Rightarrow> Some (True, s2) | Some x \<Rightarrow> i2c_write E x s2) = Some (ok3, s3)" for ok3 s3
      using that by (cases data) (auto dest: write_keeps)
    then show ?thesis using assms(1) t w True p2
      by (auto simp: i2c_slave_write_def bind_eq_Some_conv dest!: write_bytes_keeps stop_keeps intro: free_keeps error_keeps split: if_splits)
  qed (use assms(1) t t0 in \<open>auto simp: i2c_slave_write_def\<close>)
qed

lemma slave_read_keeps:
  assumes "i2c_slave_read E a data n s = Some (r, xs, s')" "P (fst s)"
  shows "P (fst s')"
proof -
  obtain r0 s0 where t: "i2c_bus_test E s = Some (r0, s0)" using assms(1) by (auto simp: i2c_slave_read_def bind_eq_Some_conv)
  note t0 = bus_test_keeps [OF t assms(2)]
  show ?thesis
  proof (cases "r0 = I2C_SUCCESS")
    case True
    then obtain ok1 s1 where s1: "i2c_select E a data s0 = Some (ok1, s1)"
      using assms(1) t by (auto simp: i2c_slave_read_def bind_eq_Some_conv)
    note p1 = select_keeps [OF s1 t0]
    show ?thesis
    proof (cases ok1)
      case True
      then obtain s2 ok3 s3 where w: "i2c_start E s1 = Some s2" "i2c_write E (push_bit 1 a OR 1) s2 = Some (ok3, s3)"
        using assms(1) t s1 \<open>r0 = I2C_SUCCESS\<close> by (auto simp: i2c_slave_read_def bind_eq_Some_conv)
      have p3: "P (fst s3)" using start_keeps [OF w(1) p1] write_keeps [OF w(2)] by simp
      show ?thesis using assms(1) t s1 w \<open>r0 = I2C_SUCCESS\<close> True p3
        by (auto simp: i2c_slave_read_def bind_eq_Some_conv dest!: read_bytes_keeps stop_keeps intro: free_keeps error_keeps split: if_splits)
    qed (use assms(1) t s1 p1 True in \<open>auto simp: i2c_slave_read_def bind_eq_Some_conv intro: error_keeps\<close>)
  qed (use assms(1) t t0 in \<open>auto simp: i2c_slave_read_def\<close>)
qed

end

text \<open>The ranges of the fields \<open>uint8_t\<close> and \<open>uint32_t\<close>; the settings of a bus.\<close>

definition typed_bus :: "i2c_bus_description \<Rightarrow> bool" where
  "typed_bus b \<longleftrightarrow> delay_80 b < 2 ^ 8 \<and> delay_160 b < 2 ^ 8 \<and> delay b < 2 ^ 8 \<and> clk_stretch b < 2 ^ 32"

definition settings :: "i2c_bus_description \<Rightarrow> 32 word \<times> 32 word \<times> nat \<times> nat \<times> bool \<times> nat" where
  "settings b = (g_scl_mask b, g_sda_mask b, delay_80 b, delay_160 b, force b, clk_stretch b)"

interpretation typed: description_invariant typed_bus
  by unfold_locales (simp_all add: typed_bus_def)

interpretation same_settings: description_invariant "\<lambda>b. settings b = c" for c
  by unfold_locales (simp_all add: settings_def)

lemma limit_delay_byte: "fst (limit_delay d) < 2 ^ 8"
  by (auto simp: limit_delay_def)

lemma set_frequency_typed: "i2c_set_frequency_hz f b = Some (r, b') \<Longrightarrow> typed_bus b \<Longrightarrow> typed_bus b'"
  using limit_delay_byte by (auto simp: i2c_set_frequency_hz_def typed_bus_def Let_def case_prod_beta split: if_splits)

lemma bus_free_flag: "\<not> flag (fst (bus_free s))"
  by (cases s) (simp add: bus_free_def)

lemma error_frees: "i2c_error E s = Some (r, s') \<Longrightarrow> \<not> flag (fst s')"
  by (auto simp: i2c_error_def bind_eq_Some_conv bus_free_flag)

lemma slave_write_frees: "i2c_slave_write E a data buf s = Some (r, s') \<Longrightarrow> r \<noteq> EBUSY \<Longrightarrow> \<not> flag (fst s')"
  by (auto simp: i2c_slave_write_def bind_eq_Some_conv bus_free_flag split: if_splits dest: error_frees)

lemma slave_read_frees: "i2c_slave_read E a data n s = Some (r, xs, s') \<Longrightarrow> r \<noteq> EBUSY \<Longrightarrow> \<not> flag (fst s')"
  by (auto simp: i2c_slave_read_def bind_eq_Some_conv bus_free_flag split: if_splits dest: error_frees)

text \<open>
  C26. Types of the bus description: whatever the environment does, a frequency change and a transfer keep
  every field inside the range of its C type, a transfer leaves the settings of the bus as they are, and it releases
  the bus unless it reports that the bus is busy.
\<close>

theorem descriptions_stay_typed:
  assumes "typed_bus b"
  shows "(\<forall>f r b'. i2c_set_frequency_hz f b = Some (r, b') \<longrightarrow> typed_bus b')
    \<and> (\<forall>a data buf r b' e'. i2c_slave_write E a data buf (b, e) = Some (r, b', e')
          \<longrightarrow> typed_bus b' \<and> settings b' = settings b \<and> (r \<noteq> EBUSY \<longrightarrow> \<not> flag b'))
    \<and> (\<forall>a data n r xs b' e'. i2c_slave_read E a data n (b, e) = Some (r, xs, b', e')
          \<longrightarrow> typed_bus b' \<and> settings b' = settings b \<and> (r \<noteq> EBUSY \<longrightarrow> \<not> flag b'))"
proof (intro conjI allI impI, goal_cases)
  case (1 f r b') then show ?case by (rule set_frequency_typed) (rule assms)
next
  case 2 then show ?case using typed.slave_write_keeps assms by fastforce
next
  case 3 then show ?case using same_settings.slave_write_keeps by fastforce
next
  case 4 then show ?case using slave_write_frees by fastforce
next
  case 5 then show ?case using typed.slave_read_keeps assms by fastforce
next
  case 6 then show ?case using same_settings.slave_read_keeps by fastforce
next
  case 7 then show ?case using slave_read_frees by fastforce
qed

theorem descriptions_stay_typed_witness:
  "\<exists>r b' e'. i2c_slave_write (wire_env (reg_chip 0x68)) 0x50 None [7] (sample_bus, (sample_wire (\<lambda>_. 0))\<lparr>held := 1000000\<rparr>) = Some (r, b', e')
     \<and> typed_bus b' \<and> settings b' = settings sample_bus"
proof -
  let ?E = "wire_env (reg_chip 0x68)" and ?e = "(sample_wire (\<lambda>_. 0))\<lparr>held := 1000000\<rparr>"
  have t: "typed_bus sample_bus" by (simp add: typed_bus_def sample_bus_def)
  have "stretch_ok (sample_bus, ?e)" by (simp add: stretch_ok_def sample_bus_def)
  then obtain r b' e' where r: "i2c_slave_write ?E 0x50 None [7] (sample_bus, ?e) = Some (r, b', e')"
    using wire.slave_write_returns [of "(sample_bus, ?e)"] by fastforce
  then have "typed_bus b' \<and> settings b' = settings sample_bus" using descriptions_stay_typed [OF t, of ?E ?e] by blast
  then show ?thesis using r by blast
qed

end
