(* ===== verification/I2c_Device.thy ===== *)
theory I2c_Device
  imports I2c_Bus
begin

text \<open>
  What a driver of an I2C chip relies on: a write stores bytes from a register on, a read returns them.
  The locale \<open>i2c_registers\<close> states this of the transfers of \<open>I2c\<close>; the register chip on the wire provides it.
  Binary coded decimal numbers and the C structure \<open>tm\<close>, which the clock chips share, are here as well.
\<close>

locale i2c_registers =
  fixes E :: "'e i2c_env" and addr :: byte and ready :: "'e i2c \<Rightarrow> bool" and mem :: "'e i2c \<Rightarrow> memory"
  assumes stores: "ready s \<Longrightarrow> \<exists>s'. i2c_slave_write E addr (Some r) xs s = Some (I2C_SUCCESS, s')
      \<and> ready s' \<and> mem s' = mem_put (unat r) xs (mem s)"
    and loads: "ready s \<Longrightarrow> 0 < n \<Longrightarrow> \<exists>s'. i2c_slave_read E addr (Some r) n s = Some (I2C_SUCCESS, mem_read (mem s) (unat r) n, s')
      \<and> ready s' \<and> mem s' = mem s"

definition reg_ready :: "regfile wire i2c \<Rightarrow> bool" where
  "reg_ready s \<longleftrightarrow> idle_bus s (chip_of (snd s))"

definition reg_mem :: "regfile wire i2c \<Rightarrow> memory" where
  "reg_mem s = regs (chip_of (snd s))"

interpretation reg_bus: i2c_registers "wire_env (reg_chip addr)" addr reg_ready reg_mem
proof
  fix s r xs and n :: nat
  assume "reg_ready s"
  then have b: "idle_bus s (chip_of (snd s))" by (simp add: reg_ready_def)
  have out: "transfer_out (reg_chip addr) addr (case Some r of None \<Rightarrow> xs | Some x \<Rightarrow> x # xs) (chip_of (snd s))
      = (I2C_SUCCESS, \<lparr>pointer = unat r + length xs, selecting = False, regs = mem_put (unat r) xs (reg_mem s)\<rparr>)"
    by (simp add: reg_transfer_out reg_mem_def)
  from reg_chip.transfer_out_ok [OF b out] show "\<exists>s'. i2c_slave_write (wire_env (reg_chip addr)) addr (Some r) xs s = Some (I2C_SUCCESS, s')
      \<and> reg_ready s' \<and> reg_mem s' = mem_put (unat r) xs (reg_mem s)"
    by (auto simp: reg_ready_def reg_mem_def idle_bus_def)
  show "\<exists>s'. i2c_slave_read (wire_env (reg_chip addr)) addr (Some r) n s = Some (I2C_SUCCESS, mem_read (reg_mem s) (unat r) n, s')
      \<and> reg_ready s' \<and> reg_mem s' = reg_mem s" if "0 < n"
    using reg_chip.transfer_in_ok [OF b reg_transfer_in [of addr r n "chip_of (snd s)"] that]
    by (auto simp: reg_ready_def reg_mem_def idle_bus_def)
qed

lemma sample_ready: "reg_ready (sample_bus, sample_wire m)" "reg_mem (sample_bus, sample_wire m) = m"
  using sample_idle [of m] by (auto simp: reg_ready_def reg_mem_def sample_wire_def)

section \<open>Buffers and register fields\<close>

text \<open>A buffer with the bytes \<open>junk\<close> into which \<open>xs\<close> were stored from the start.\<close>

definition stored_in :: "byte list \<Rightarrow> byte list \<Rightarrow> byte list" where
  "stored_in junk xs = xs @ drop (length xs) junk"

lemma stored_in_all [simp]: "length junk \<le> length xs \<Longrightarrow> stored_in junk xs = xs"
  by (simp add: stored_in_def)

section \<open>Time and binary coded decimals\<close>

record tm =
  tm_sec :: int
  tm_min :: int
  tm_hour :: int
  tm_mday :: int
  tm_mon :: int
  tm_year :: int
  tm_wday :: int
  tm_isdst :: int

text \<open>The digits of a number below 100 in the two halves of a byte.\<close>

definition bcd :: "int \<Rightarrow> byte" where
  "bcd t = word_of_int (16 * (t div 10) + t mod 10)"

lemma unat_bcd:
  assumes "0 \<le> t" "t < 100"
  shows "unat (bcd t) = nat (16 * (t div 10) + t mod 10)"
proof -
  have "0 \<le> 16 * (t div 10) + t mod 10" "16 * (t div 10) + t mod 10 < 256" using assms by presburger+
  then have "uint (bcd t) = 16 * (t div 10) + t mod 10" unfolding bcd_def by (subst uint_word_of_int) simp
  then show ?thesis by (simp add: unat_eq_nat_uint)
qed

lemma nibbles:
  fixes x :: byte
  shows "x AND 0x0f = x mod 16" "drop_bit 4 x = x div 16"
proof -
  have "x AND 0x0f = take_bit 4 x" by (simp add: take_bit_eq_mask mask_eq_exp_minus_1)
  then show "x AND 0x0f = x mod 16" by (simp add: take_bit_eq_mod)
  show "drop_bit 4 x = x div 16" by (simp add: drop_bit_eq_div)
qed

text \<open>Both conversions, the way the drivers compute them on bytes.\<close>

lemma bcd_digits:
  assumes "0 \<le> t" "t < 100"
  shows "(word_of_int t div 10) * 16 + word_of_int t mod 10 = bcd t"
proof -
  have u: "uint (word_of_int t :: byte) = t" using assms by (simp add: uint_word_of_int)
  have "(word_of_int t :: byte) div 10 = word_of_int (t div 10)" "(word_of_int t :: byte) mod 10 = word_of_int (t mod 10)"
    by (simp_all add: word_div_def word_mod_def u)
  then show ?thesis by (simp add: bcd_def ac_simps)
qed

lemma bcd_value:
  assumes "0 \<le> t" "t < 100"
  shows "uint (bcd t div 16 * 10 + bcd t mod 16) = t"
proof -
  let ?n = "nat (16 * (t div 10) + t mod 10)"
  have u: "unat (bcd t) = ?n" using assms by (rule unat_bcd)
  have digits: "unat (bcd t mod 16) = ?n mod 16" "unat (bcd t div 16) = ?n div 16"
    by (simp_all add: unat_mod unat_div u)
  have sum: "?n div 16 * 10 + ?n mod 16 = nat t" "nat t < 256"
  proof -
    define a r where "a = nat (t div 10)" and "r = nat (t mod 10)"
    have t: "t = int (10 * a + r)" "r < 10" using assms by (auto simp: a_def r_def)
    then have "?n = 16 * a + r" by (simp add: nat_eq_iff zdiv_int zmod_int)
    then show "?n div 16 * 10 + ?n mod 16 = nat t" "nat t < 256" using t assms(2) by simp_all
  qed
  have "bcd t div 16 * 10 + bcd t mod 16 = word_of_nat (unat (bcd t div 16) * 10 + unat (bcd t mod 16))"
    by (simp only: of_nat_add of_nat_mult of_nat_numeral of_nat_unat) simp
  then have "unat (bcd t div 16 * 10 + bcd t mod 16) = nat t" by (simp only: digits sum unat_word8_of_nat mod_less)
  moreover have "uint x = int (unat x)" for x :: byte by simp
  ultimately show ?thesis using assms(1) by (simp only: nat_0_le)
qed

lemma low_mask: "unat x < 2 ^ k \<Longrightarrow> x AND mask k = x" for x :: byte
  by (metis take_bit_eq_mask take_bit_nat_eq_self unsigned_take_bit_eq unsigned_word_eqI)

lemma bcd_masks:
  assumes "0 \<le> t"
  shows "t < 80 \<Longrightarrow> bcd t AND 0x7f = bcd t" "t < 40 \<Longrightarrow> bcd t AND 0x3f = bcd t" "t < 20 \<Longrightarrow> bcd t AND 0x1f = bcd t"
    "t < 40 \<Longrightarrow> bcd t AND 0x40 = 0"
proof -
  have m: "mask 7 = (0x7f :: byte)" "mask 6 = (0x3f :: byte)" "mask 5 = (0x1f :: byte)" by (simp_all add: mask_eq_exp_minus_1)
  have u: "t < 100 \<Longrightarrow> unat (bcd t) = nat (16 * (t div 10) + t mod 10)" using assms by (rule unat_bcd)
  have le: "t < 80 \<Longrightarrow> unat (bcd t) < 2 ^ 7" "t < 40 \<Longrightarrow> unat (bcd t) < 2 ^ 6" "t < 20 \<Longrightarrow> unat (bcd t) < 2 ^ 5"
    using assms u by (simp_all add: nat_less_iff) presburger+
  then show "t < 80 \<Longrightarrow> bcd t AND 0x7f = bcd t" "t < 20 \<Longrightarrow> bcd t AND 0x1f = bcd t"
    using low_mask [of "bcd t" 7] low_mask [of "bcd t" 5] m by simp_all
  show six: "t < 40 \<Longrightarrow> bcd t AND 0x3f = bcd t" using le low_mask [of "bcd t" 6] m by simp
  have "(0x3f :: byte) AND 0x40 = 0" by simp
  then show "t < 40 \<Longrightarrow> bcd t AND 0x40 = 0" using six by (metis and.assoc and_zero_eq)
qed

end
