(* ===== verification/Ds1307.thy ===== *)
theory Ds1307
  imports I2c_Device
begin

text \<open>
  The driver \<open>src/extras/ds1307/ds1307.c\<close> of the DS1307 clock chip, over the transfers of \<open>I2c\<close>. The
  results of transfers are ignored where the source ignores them; \<open>junk\<close> is what a local buffer
  contains before it is filled. The device descriptor is its address; its bus is the state.
\<close>

section \<open>Registers\<close>

definition RAM_SIZE :: nat where "RAM_SIZE = 56"
definition TIME_REG :: byte where "TIME_REG = 0"
definition CONTROL_REG :: byte where "CONTROL_REG = 7"
definition RAM_REG :: byte where "RAM_REG = 8"

definition CH_BIT :: byte where "CH_BIT = 0x80"
definition HOUR12_BIT :: byte where "HOUR12_BIT = 0x40"
definition PM_BIT :: byte where "PM_BIT = 0x20"
definition SQWE_BIT :: byte where "SQWE_BIT = 0x10"
definition OUT_BIT :: byte where "OUT_BIT = 0x80"
definition CH_MASK :: byte where "CH_MASK = 0x7f"
definition SECONDS_MASK :: byte where "SECONDS_MASK = 0x7f"
definition HOUR12_MASK :: byte where "HOUR12_MASK = 0x1f"
definition HOUR24_MASK :: byte where "HOUR24_MASK = 0x3f"
definition SQWEF_MASK :: byte where "SQWEF_MASK = 0x03"
definition SQWE_MASK :: byte where "SQWE_MASK = 0xef"
definition OUT_MASK :: byte where "OUT_MASK = 0x7f"

lemmas ds1307_regs = RAM_SIZE_def TIME_REG_def CONTROL_REG_def RAM_REG_def

lemmas ds1307_bits = CH_BIT_def HOUR12_BIT_def PM_BIT_def SQWE_BIT_def OUT_BIT_def CH_MASK_def SECONDS_MASK_def HOUR12_MASK_def
  HOUR24_MASK_def SQWEF_MASK_def SQWE_MASK_def OUT_MASK_def

definition bcd2dec :: "byte \<Rightarrow> byte" where
  "bcd2dec val = drop_bit 4 val * 10 + (val AND 0x0f)"

definition dec2bcd :: "byte \<Rightarrow> byte" where
  "dec2bcd val = push_bit 4 (val div 10) + val mod 10"

definition read_register :: "'e i2c_env \<Rightarrow> byte \<Rightarrow> byte \<Rightarrow> byte \<Rightarrow> 'e i2c \<Rightarrow> (byte \<times> 'e i2c) option" where
  "read_register E addr junk reg s =
     do { (r, xs, s1) \<leftarrow> i2c_slave_read E addr (Some reg) 1 s; Some (hd (stored_in [junk] xs), s1) }"

definition update_register :: "'e i2c_env \<Rightarrow> byte \<Rightarrow> byte \<Rightarrow> byte \<Rightarrow> byte \<Rightarrow> byte \<Rightarrow> 'e i2c \<Rightarrow> 'e i2c option" where
  "update_register E addr junk reg msk val s =
     do {
       (x, s1) \<leftarrow> read_register E addr junk reg s;
       (r, s2) \<leftarrow> i2c_slave_write E addr (Some reg) [(x AND msk) OR val] s1;
       Some s2
     }"

section \<open>Operations\<close>

definition ds1307_start :: "'e i2c_env \<Rightarrow> byte \<Rightarrow> byte \<Rightarrow> bool \<Rightarrow> 'e i2c \<Rightarrow> 'e i2c option" where
  "ds1307_start E addr junk start s = update_register E addr junk TIME_REG CH_MASK (if start then 0 else CH_BIT) s"

definition ds1307_is_running :: "'e i2c_env \<Rightarrow> byte \<Rightarrow> byte \<Rightarrow> 'e i2c \<Rightarrow> (bool \<times> 'e i2c) option" where
  "ds1307_is_running E addr junk s = do { (x, s1) \<leftarrow> read_register E addr junk TIME_REG s; Some (x AND CH_BIT = 0, s1) }"

text \<open>The conversion of the seven bytes; \<open>time\<close> is the structure before the call.\<close>

definition ds1307_time_of :: "byte list \<Rightarrow> tm \<Rightarrow> tm" where
  "ds1307_time_of buf time =
     time\<lparr>tm_sec := uint (bcd2dec (buf ! 0 AND SECONDS_MASK)),
          tm_min := uint (bcd2dec (buf ! 1)),
          tm_hour := (if buf ! 2 AND HOUR12_BIT \<noteq> 0
                      then uint (bcd2dec (buf ! 2 AND HOUR12_MASK)) - 1 + (if buf ! 2 AND PM_BIT \<noteq> 0 then 12 else 0)
                      else uint (bcd2dec (buf ! 2 AND HOUR24_MASK))),
          tm_wday := uint (bcd2dec (buf ! 3)) - 1,
          tm_mday := uint (bcd2dec (buf ! 4)),
          tm_mon := uint (bcd2dec (buf ! 5)) - 1,
          tm_year := uint (bcd2dec (buf ! 6)) + 2000\<rparr>"

definition ds1307_get_time :: "'e i2c_env \<Rightarrow> byte \<Rightarrow> byte list \<Rightarrow> tm \<Rightarrow> 'e i2c \<Rightarrow> (tm \<times> 'e i2c) option" where
  "ds1307_get_time E addr junk time s =
     do { (r, xs, s1) \<leftarrow> i2c_slave_read E addr (Some TIME_REG) 7 s; Some (ds1307_time_of (stored_in junk xs) time, s1) }"

definition ds1307_bytes :: "tm \<Rightarrow> byte list" where
  "ds1307_bytes time =
     [dec2bcd (word_of_int (tm_sec time)), dec2bcd (word_of_int (tm_min time)), dec2bcd (word_of_int (tm_hour time)),
      dec2bcd (word_of_int (tm_wday time + 1)), dec2bcd (word_of_int (tm_mday time)), dec2bcd (word_of_int (tm_mon time + 1)),
      dec2bcd (word_of_int (tm_year time - 2000))]"

definition ds1307_set_time :: "'e i2c_env \<Rightarrow> byte \<Rightarrow> tm \<Rightarrow> 'e i2c \<Rightarrow> 'e i2c option" where
  "ds1307_set_time E addr time s =
     do { (r, s1) \<leftarrow> i2c_slave_write E addr (Some TIME_REG) (ds1307_bytes time) s; Some s1 }"

definition ds1307_enable_squarewave :: "'e i2c_env \<Rightarrow> byte \<Rightarrow> byte \<Rightarrow> bool \<Rightarrow> 'e i2c \<Rightarrow> 'e i2c option" where
  "ds1307_enable_squarewave E addr junk enable s = update_register E addr junk CONTROL_REG SQWE_MASK (if enable then SQWE_BIT else 0) s"

definition ds1307_is_squarewave_enabled :: "'e i2c_env \<Rightarrow> byte \<Rightarrow> byte \<Rightarrow> 'e i2c \<Rightarrow> (bool \<times> 'e i2c) option" where
  "ds1307_is_squarewave_enabled E addr junk s =
     do { (x, s1) \<leftarrow> read_register E addr junk CONTROL_REG s; Some (x AND SQWE_BIT \<noteq> 0, s1) }"

definition ds1307_set_squarewave_freq :: "'e i2c_env \<Rightarrow> byte \<Rightarrow> byte \<Rightarrow> byte \<Rightarrow> 'e i2c \<Rightarrow> 'e i2c option" where
  "ds1307_set_squarewave_freq E addr junk freq s = update_register E addr junk CONTROL_REG SQWEF_MASK freq s"

definition ds1307_get_squarewave_freq :: "'e i2c_env \<Rightarrow> byte \<Rightarrow> byte \<Rightarrow> 'e i2c \<Rightarrow> (byte \<times> 'e i2c) option" where
  "ds1307_get_squarewave_freq E addr junk s =
     do { (x, s1) \<leftarrow> read_register E addr junk CONTROL_REG s; Some (x AND SQWEF_MASK, s1) }"

definition ds1307_get_output :: "'e i2c_env \<Rightarrow> byte \<Rightarrow> byte \<Rightarrow> 'e i2c \<Rightarrow> (bool \<times> 'e i2c) option" where
  "ds1307_get_output E addr junk s = do { (x, s1) \<leftarrow> read_register E addr junk CONTROL_REG s; Some (x AND OUT_BIT \<noteq> 0, s1) }"

definition ds1307_set_output :: "'e i2c_env \<Rightarrow> byte \<Rightarrow> byte \<Rightarrow> bool \<Rightarrow> 'e i2c \<Rightarrow> 'e i2c option" where
  "ds1307_set_output E addr junk value s = update_register E addr junk CONTROL_REG OUT_MASK (if value then OUT_BIT else 0) s"

text \<open>\<open>offset + len\<close> is an \<open>int\<close> and does not wrap; the register number is a byte.\<close>

definition ds1307_read_ram :: "'e i2c_env \<Rightarrow> byte \<Rightarrow> byte \<Rightarrow> nat \<Rightarrow> 'e i2c \<Rightarrow> (i2c_result \<times> byte list \<times> 'e i2c) option" where
  "ds1307_read_ram E addr offset len s =
     (if unat offset + len > RAM_SIZE then Some (EINVAL, [], s) else i2c_slave_read E addr (Some (RAM_REG + offset)) len s)"

definition ds1307_write_ram :: "'e i2c_env \<Rightarrow> byte \<Rightarrow> byte \<Rightarrow> byte list \<Rightarrow> 'e i2c \<Rightarrow> (i2c_result \<times> 'e i2c) option" where
  "ds1307_write_ram E addr offset buf s =
     (if unat offset + length buf > RAM_SIZE then Some (EINVAL, s) else i2c_slave_write E addr (Some (RAM_REG + offset)) buf s)"

section \<open>Conversions\<close>

lemma dec2bcd_bcd: "0 \<le> t \<Longrightarrow> t < 100 \<Longrightarrow> dec2bcd (word_of_int t) = bcd t"
  using bcd_digits [of t] by (simp add: dec2bcd_def push_bit_eq_mult)

lemma bcd2dec_bcd: "0 \<le> t \<Longrightarrow> t < 100 \<Longrightarrow> uint (bcd2dec (bcd t)) = t"
  using bcd_value [of t] nibbles [of "bcd t"] by (simp only: bcd2dec_def)

section \<open>The chip with its registers\<close>

text \<open>A time that the chip can represent.\<close>

definition ds1307_valid :: "tm \<Rightarrow> bool" where
  "ds1307_valid t \<longleftrightarrow> tm_sec t \<in> {0..<60} \<and> tm_min t \<in> {0..<60} \<and> tm_hour t \<in> {0..<24} \<and> tm_wday t \<in> {0..<7}
     \<and> tm_mday t \<in> {1..31} \<and> tm_mon t \<in> {0..<12} \<and> tm_year t \<in> {2000..<2100}"

lemma ds1307_time_of_bytes:
  assumes "ds1307_valid t"
  shows "ds1307_time_of (ds1307_bytes t) time = t\<lparr>tm_isdst := tm_isdst time\<rparr>"
proof -
  note t = assms [unfolded ds1307_valid_def atLeastLessThan_iff atLeastAtMost_iff]
  have "ds1307_bytes t = [bcd (tm_sec t), bcd (tm_min t), bcd (tm_hour t), bcd (tm_wday t + 1), bcd (tm_mday t), bcd (tm_mon t + 1), bcd (tm_year t - 2000)]"
    unfolding ds1307_bytes_def using t by (simp only: list.inject) (intro conjI dec2bcd_bcd; simp)
  then show ?thesis
    using t by (cases t; cases time) (simp add: ds1307_time_of_def bcd2dec_bcd bcd_masks ds1307_bits)
qed

context i2c_registers
begin

lemma read_register_ready:
  assumes "ready s"
  shows "\<exists>s'. read_register E addr junk r s = Some (mem s (unat r), s') \<and> ready s' \<and> mem s' = mem s"
  using loads [OF assms, of 1 r] by (auto simp: read_register_def mem_read_def)

lemma update_register_ready:
  assumes "ready s"
  shows "\<exists>s'. update_register E addr junk r msk v s = Some s' \<and> ready s' \<and> mem s' = (mem s)(unat r := (mem s (unat r) AND msk) OR v)"
proof -
  obtain s1 where s1: "read_register E addr junk r s = Some (mem s (unat r), s1)" "ready s1" "mem s1 = mem s"
    using read_register_ready [OF assms] by blast
  have "mem_put a [x] m = m(a := x)" for a x m by (auto simp: mem_put_def)
  then show ?thesis using stores [OF s1(2), of r "[(mem s (unat r) AND msk) OR v]"] s1 by (auto simp: update_register_def)
qed

lemma set_time_ready:
  assumes "ready s" "ds1307_valid t" "length junk = 7"
  shows "\<exists>s1 s2. ds1307_set_time E addr t s = Some s1
    \<and> ds1307_get_time E addr junk time s1 = Some (t\<lparr>tm_isdst := tm_isdst time\<rparr>, s2) \<and> ready s2"
proof -
  let ?xs = "ds1307_bytes t"
  have len: "length ?xs = 7" by (simp add: ds1307_bytes_def)
  obtain s1 where s1: "i2c_slave_write E addr (Some TIME_REG) ?xs s = Some (I2C_SUCCESS, s1)" "ready s1" "mem s1 = mem_put 0 ?xs (mem s)"
    using stores [OF assms(1), of TIME_REG ?xs] by (auto simp: TIME_REG_def)
  have "mem_read (mem s1) 0 7 = ?xs" unfolding s1(3) by (subst mem_read_mem_put) (simp_all add: len)
  then obtain s2 where "i2c_slave_read E addr (Some TIME_REG) 7 s1 = Some (I2C_SUCCESS, ?xs, s2)" "ready s2"
    using loads [OF s1(2), of 7 TIME_REG] by (auto simp: TIME_REG_def)
  then show ?thesis
    using s1(1) ds1307_time_of_bytes [OF assms(2), of time] assms(3) len
    by (intro exI [of _ s1] exI [of _ s2]) (simp add: ds1307_set_time_def ds1307_get_time_def)
qed

lemma ram_ready:
  assumes "ready s" "unat offset + length buf \<le> RAM_SIZE" "buf \<noteq> []"
  shows "\<exists>s1 s2. ds1307_write_ram E addr offset buf s = Some (I2C_SUCCESS, s1)
    \<and> ds1307_read_ram E addr offset (length buf) s1 = Some (I2C_SUCCESS, buf, s2) \<and> mem s2 = mem_put (8 + unat offset) buf (mem s)"
proof -
  have u: "unat (RAM_REG + offset) = 8 + unat offset"
    using assms(2) by (simp add: RAM_REG_def RAM_SIZE_def unat_word_ariths)
  obtain s1 where s1: "ds1307_write_ram E addr offset buf s = Some (I2C_SUCCESS, s1)" "ready s1" "mem s1 = mem_put (8 + unat offset) buf (mem s)"
    using stores [OF assms(1), of "RAM_REG + offset" buf] assms(2) by (auto simp: ds1307_write_ram_def u)
  then show ?thesis
    using loads [OF s1(2), of "length buf" "RAM_REG + offset"] assms(2,3) by (auto simp: ds1307_read_ram_def u)
qed

end

section \<open>Properties\<close>

text \<open>
  C28. The time survives the chip: after \<open>ds1307_set_time\<close>, \<open>ds1307_get_time\<close> returns every field of it, through
  the bits on the bus; the clock is running afterwards because the halt bit is overwritten.
\<close>

theorem ds1307_time_roundtrip:
  assumes "i2c_registers E addr ready mem" "ready s" "ds1307_valid t" "length junk = 7"
  shows "\<exists>s1 s2. ds1307_set_time E addr t s = Some s1
    \<and> ds1307_get_time E addr junk time s1 = Some (t\<lparr>tm_isdst := tm_isdst time\<rparr>, s2) \<and> ready s2"
  using assms by (rule i2c_registers.set_time_ready)

definition sample_tm :: tm where
  "sample_tm = \<lparr>tm_sec = 59, tm_min = 30, tm_hour = 23, tm_mday = 31, tm_mon = 11, tm_year = 2017, tm_wday = 0, tm_isdst = 0\<rparr>"

theorem ds1307_time_roundtrip_witness:
  "\<exists>s1 s2. ds1307_set_time (wire_env (reg_chip 0x68)) 0x68 sample_tm (sample_bus, sample_wire (\<lambda>_. 0)) = Some s1
    \<and> ds1307_get_time (wire_env (reg_chip 0x68)) 0x68 (replicate 7 0) sample_tm s1 = Some (sample_tm, s2) \<and> reg_ready s2"
  using ds1307_time_roundtrip [OF reg_bus.i2c_registers_axioms [of "0x68"] sample_ready(1) [of "\<lambda>_. 0"], of sample_tm "replicate 7 0" sample_tm]
  by (simp add: ds1307_valid_def sample_tm_def)

text \<open>
  What \<open>ds1307_write_ram\<close> stores \<open>ds1307_read_ram\<close> returns, only the RAM is written, and a range that leaves it
  is refused without a transfer.
\<close>

theorem ds1307_ram_roundtrip:
  assumes "i2c_registers E addr ready mem" "ready s" "buf \<noteq> []"
  shows "if unat offset + length buf \<le> 56
    then \<exists>s1 s2. ds1307_write_ram E addr offset buf s = Some (I2C_SUCCESS, s1)
      \<and> ds1307_read_ram E addr offset (length buf) s1 = Some (I2C_SUCCESS, buf, s2) \<and> mem s2 = mem_put (8 + unat offset) buf (mem s)
    else ds1307_write_ram E addr offset buf s = Some (EINVAL, s)"
  using i2c_registers.ram_ready [OF assms(1,2) _ assms(3), of offset] by (auto simp: RAM_SIZE_def ds1307_write_ram_def)

theorem ds1307_ram_roundtrip_witness:
  "\<exists>s1 s2. ds1307_write_ram (wire_env (reg_chip 0x68)) 0x68 54 [1, 2] (sample_bus, sample_wire (\<lambda>_. 0)) = Some (I2C_SUCCESS, s1)
    \<and> ds1307_read_ram (wire_env (reg_chip 0x68)) 0x68 54 (Suc (Suc 0)) s1 = Some (I2C_SUCCESS, [1, 2], s2) \<and> reg_mem s2 = mem_put 62 [1, 2] (\<lambda>_. 0)"
  using ds1307_ram_roundtrip [OF reg_bus.i2c_registers_axioms [of "0x68"] sample_ready(1) [of "\<lambda>_. 0"], of "[1, 2]" 54] by (simp add: sample_ready(2))

text \<open>
  \<open>ds1307_set_squarewave_freq\<close> uses the mask of the frequency bits as the mask of the bits to keep: the
  output and the enable bit are cleared, and the new frequency is merged with the old one.
\<close>

theorem ds1307_freq_clobbers_control:
  assumes "i2c_registers E addr ready mem" "ready s" "mem s 7 = 0x13"
  shows "\<exists>s'. ds1307_set_squarewave_freq E addr junk 0 s = Some s' \<and> mem s' 7 = 0x03"
  using i2c_registers.update_register_ready [OF assms(1,2), of junk CONTROL_REG SQWEF_MASK 0] assms(3)
  by (auto simp: ds1307_set_squarewave_freq_def CONTROL_REG_def SQWEF_MASK_def)

theorem ds1307_freq_clobbers_control_witness:
  "\<exists>s'. ds1307_set_squarewave_freq (wire_env (reg_chip 0x68)) 0x68 0 0 (sample_bus, sample_wire (\<lambda>_. 0x13)) = Some s' \<and> reg_mem s' 7 = 0x03"
  using ds1307_freq_clobbers_control [OF reg_bus.i2c_registers_axioms [of "0x68"] sample_ready(1) [of "\<lambda>_. 0x13"], of 0] by (simp add: sample_ready(2))

end
