(* ===== verification/Ds3231.thy ===== *)
theory Ds3231
  imports Complex_Main I2c_Device
begin

text \<open>
  The driver \<open>src/extras/ds3231/ds3231.c\<close> of the DS3231 clock chip: time, alarms, flags of the control and
  status registers, and the temperature. A value that is stored through a pointer on success only is
  an option.
\<close>

section \<open>Registers\<close>

definition DS3231_STAT_OSCILLATOR :: byte where "DS3231_STAT_OSCILLATOR = 0x80"
definition DS3231_STAT_32KHZ :: byte where "DS3231_STAT_32KHZ = 0x08"
definition DS3231_CTRL_SQWAVE_8192HZ :: byte where "DS3231_CTRL_SQWAVE_8192HZ = 0x18"
definition DS3231_CTRL_ALARM_INTS :: byte where "DS3231_CTRL_ALARM_INTS = 0x04"
definition DS3231_ALARM_WDAY :: byte where "DS3231_ALARM_WDAY = 0x40"
definition DS3231_ALARM_NOTSET :: byte where "DS3231_ALARM_NOTSET = 0x80"
definition DS3231_ADDR_TIME :: byte where "DS3231_ADDR_TIME = 0x00"
definition DS3231_ADDR_ALARM1 :: byte where "DS3231_ADDR_ALARM1 = 0x07"
definition DS3231_ADDR_ALARM2 :: byte where "DS3231_ADDR_ALARM2 = 0x0b"
definition DS3231_ADDR_CONTROL :: byte where "DS3231_ADDR_CONTROL = 0x0e"
definition DS3231_ADDR_STATUS :: byte where "DS3231_ADDR_STATUS = 0x0f"
definition DS3231_ADDR_TEMP :: byte where "DS3231_ADDR_TEMP = 0x11"
definition DS3231_12HOUR_FLAG :: byte where "DS3231_12HOUR_FLAG = 0x40"
definition DS3231_12HOUR_MASK :: byte where "DS3231_12HOUR_MASK = 0x1f"
definition DS3231_PM_FLAG :: byte where "DS3231_PM_FLAG = 0x20"
definition DS3231_MONTH_MASK :: byte where "DS3231_MONTH_MASK = 0x1f"

lemmas ds3231_addrs = DS3231_ADDR_TIME_def DS3231_ADDR_ALARM1_def DS3231_ADDR_ALARM2_def DS3231_ADDR_CONTROL_def
  DS3231_ADDR_STATUS_def DS3231_ADDR_TEMP_def

lemmas ds3231_masks = DS3231_12HOUR_FLAG_def DS3231_12HOUR_MASK_def DS3231_PM_FLAG_def DS3231_MONTH_MASK_def

datatype flag_mode = DS3231_SET | DS3231_CLEAR | DS3231_REPLACE

text \<open>The alarms and their options are numbers in the source; options are compared by order.\<close>

definition DS3231_ALARM_1 :: nat where "DS3231_ALARM_1 = 1"
definition DS3231_ALARM_2 :: nat where "DS3231_ALARM_2 = 2"
definition DS3231_ALARM_BOTH :: byte where "DS3231_ALARM_BOTH = 3"
definition DS3231_ALARM1_MATCH_SEC :: nat where "DS3231_ALARM1_MATCH_SEC = 1"
definition DS3231_ALARM1_MATCH_SECMIN :: nat where "DS3231_ALARM1_MATCH_SECMIN = 2"
definition DS3231_ALARM1_MATCH_SECMINHOUR :: nat where "DS3231_ALARM1_MATCH_SECMINHOUR = 3"
definition DS3231_ALARM1_MATCH_SECMINHOURDAY :: nat where "DS3231_ALARM1_MATCH_SECMINHOURDAY = 4"
definition DS3231_ALARM1_MATCH_SECMINHOURDATE :: nat where "DS3231_ALARM1_MATCH_SECMINHOURDATE = 5"
definition DS3231_ALARM2_MATCH_MIN :: nat where "DS3231_ALARM2_MATCH_MIN = 1"
definition DS3231_ALARM2_MATCH_MINHOUR :: nat where "DS3231_ALARM2_MATCH_MINHOUR = 2"
definition DS3231_ALARM2_MATCH_MINHOURDAY :: nat where "DS3231_ALARM2_MATCH_MINHOURDAY = 3"
definition DS3231_ALARM2_MATCH_MINHOURDATE :: nat where "DS3231_ALARM2_MATCH_MINHOURDATE = 4"

lemmas ds3231_options = DS3231_ALARM_1_def DS3231_ALARM_2_def DS3231_ALARM1_MATCH_SEC_def DS3231_ALARM1_MATCH_SECMIN_def
  DS3231_ALARM1_MATCH_SECMINHOUR_def DS3231_ALARM1_MATCH_SECMINHOURDAY_def DS3231_ALARM1_MATCH_SECMINHOURDATE_def
  DS3231_ALARM2_MATCH_MIN_def DS3231_ALARM2_MATCH_MINHOUR_def DS3231_ALARM2_MATCH_MINHOURDAY_def DS3231_ALARM2_MATCH_MINHOURDATE_def

definition decToBcd :: "byte \<Rightarrow> byte" where
  "decToBcd dec = (dec div 10) * 16 + dec mod 10"

definition bcdToDec :: "byte \<Rightarrow> byte" where
  "bcdToDec x = (x div 16) * 10 + x mod 16"

definition ds3231_send :: "'e i2c_env \<Rightarrow> byte \<Rightarrow> byte \<Rightarrow> byte list \<Rightarrow> 'e i2c \<Rightarrow> (i2c_result \<times> 'e i2c) option" where
  "ds3231_send E addr reg data s = i2c_slave_write E addr (Some reg) data s"

definition ds3231_recv :: "'e i2c_env \<Rightarrow> byte \<Rightarrow> byte \<Rightarrow> nat \<Rightarrow> 'e i2c \<Rightarrow> (i2c_result \<times> byte list \<times> 'e i2c) option" where
  "ds3231_recv E addr reg len s = i2c_slave_read E addr (Some reg) len s"

section \<open>Time and alarms\<close>

definition ds3231_bytes :: "tm \<Rightarrow> byte list" where
  "ds3231_bytes time =
     [decToBcd (word_of_int (tm_sec time)), decToBcd (word_of_int (tm_min time)), decToBcd (word_of_int (tm_hour time)),
      decToBcd (word_of_int (tm_wday time + 1)), decToBcd (word_of_int (tm_mday time)), decToBcd (word_of_int (tm_mon time + 1)),
      decToBcd (word_of_int (tm_year time - 100))]"

definition ds3231_setTime :: "'e i2c_env \<Rightarrow> byte \<Rightarrow> tm \<Rightarrow> 'e i2c \<Rightarrow> (i2c_result \<times> 'e i2c) option" where
  "ds3231_setTime E addr time s = ds3231_send E addr DS3231_ADDR_TIME (ds3231_bytes time) s"

definition alarm1_bytes :: "tm \<Rightarrow> nat \<Rightarrow> byte list" where
  "alarm1_bytes time1 option1 =
     [if option1 \<ge> DS3231_ALARM1_MATCH_SEC then decToBcd (word_of_int (tm_sec time1)) else DS3231_ALARM_NOTSET,
      if option1 \<ge> DS3231_ALARM1_MATCH_SECMIN then decToBcd (word_of_int (tm_min time1)) else DS3231_ALARM_NOTSET,
      if option1 \<ge> DS3231_ALARM1_MATCH_SECMINHOUR then decToBcd (word_of_int (tm_hour time1)) else DS3231_ALARM_NOTSET,
      if option1 = DS3231_ALARM1_MATCH_SECMINHOURDAY then decToBcd (word_of_int (tm_wday time1 + 1)) AND DS3231_ALARM_WDAY
      else if option1 = DS3231_ALARM1_MATCH_SECMINHOURDATE then decToBcd (word_of_int (tm_mday time1)) else DS3231_ALARM_NOTSET]"

definition alarm2_bytes :: "tm \<Rightarrow> nat \<Rightarrow> byte list" where
  "alarm2_bytes time2 option2 =
     [if option2 \<ge> DS3231_ALARM2_MATCH_MIN then decToBcd (word_of_int (tm_min time2)) else DS3231_ALARM_NOTSET,
      if option2 \<ge> DS3231_ALARM2_MATCH_MINHOUR then decToBcd (word_of_int (tm_hour time2)) else DS3231_ALARM_NOTSET,
      if option2 = DS3231_ALARM2_MATCH_MINHOURDAY then decToBcd (word_of_int (tm_wday time2 + 1)) AND DS3231_ALARM_WDAY
      else if option2 = DS3231_ALARM2_MATCH_MINHOURDATE then decToBcd (word_of_int (tm_mday time2)) else DS3231_ALARM_NOTSET]"

definition ds3231_setAlarm :: "'e i2c_env \<Rightarrow> byte \<Rightarrow> nat \<Rightarrow> tm \<Rightarrow> nat \<Rightarrow> tm \<Rightarrow> nat \<Rightarrow> 'e i2c \<Rightarrow> (i2c_result \<times> 'e i2c) option" where
  "ds3231_setAlarm E addr alarms time1 option1 time2 option2 s =
     (let d1 = (if alarms \<noteq> DS3231_ALARM_2 then alarm1_bytes time1 option1 else []);
          d2 = (if alarms \<noteq> DS3231_ALARM_1 then alarm2_bytes time2 option2 else [])
      in ds3231_send E addr (if alarms = DS3231_ALARM_2 then DS3231_ADDR_ALARM2 else DS3231_ADDR_ALARM1) (d1 @ d2) s)"

definition ds3231_time_of :: "byte list \<Rightarrow> tm" where
  "ds3231_time_of data =
     \<lparr>tm_sec = uint (bcdToDec (data ! 0)),
      tm_min = uint (bcdToDec (data ! 1)),
      tm_hour = (if data ! 2 AND DS3231_12HOUR_FLAG \<noteq> 0
                 then uint (bcdToDec (data ! 2 AND DS3231_12HOUR_MASK)) - 1 + (if data ! 2 AND DS3231_PM_FLAG \<noteq> 0 then 12 else 0)
                 else uint (bcdToDec (data ! 2))),
      tm_mday = uint (bcdToDec (data ! 4)),
      tm_mon = uint (bcdToDec (data ! 5 AND DS3231_MONTH_MASK)) - 1,
      tm_year = uint (bcdToDec (data ! 6)) + 100,
      tm_wday = uint (bcdToDec (data ! 3)) - 1,
      tm_isdst = 0\<rparr>"

definition ds3231_getTime :: "'e i2c_env \<Rightarrow> byte \<Rightarrow> 'e i2c \<Rightarrow> (tm option \<times> 'e i2c) option" where
  "ds3231_getTime E addr s =
     do {
       (r, data, s1) \<leftarrow> ds3231_recv E addr DS3231_ADDR_TIME 7 s;
       Some (if r \<noteq> I2C_SUCCESS then None else Some (ds3231_time_of data), s1)
     }"

section \<open>Flags\<close>

definition ds3231_getFlag :: "'e i2c_env \<Rightarrow> byte \<Rightarrow> byte \<Rightarrow> byte \<Rightarrow> 'e i2c \<Rightarrow> (byte option \<times> 'e i2c) option" where
  "ds3231_getFlag E addr reg msk s =
     do {
       (r, data, s1) \<leftarrow> ds3231_recv E addr reg 1 s;
       Some (if r = I2C_SUCCESS then Some (data ! 0 AND msk) else None, s1)
     }"

fun apply_mode :: "flag_mode \<Rightarrow> byte \<Rightarrow> byte \<Rightarrow> byte" where
  "apply_mode DS3231_REPLACE bits data = bits"
| "apply_mode DS3231_SET bits data = data OR bits"
| "apply_mode DS3231_CLEAR bits data = data AND NOT bits"

definition ds3231_setFlag :: "'e i2c_env \<Rightarrow> byte \<Rightarrow> byte \<Rightarrow> byte \<Rightarrow> flag_mode \<Rightarrow> 'e i2c \<Rightarrow> (bool \<times> 'e i2c) option" where
  "ds3231_setFlag E addr reg bits mode s =
     do {
       (r, data, s1) \<leftarrow> ds3231_recv E addr reg 1 s;
       if r = I2C_SUCCESS
       then do { (r2, s2) \<leftarrow> ds3231_send E addr reg [apply_mode mode bits (data ! 0)] s1; Some (r2 = I2C_SUCCESS, s2) }
       else Some (False, s1)
     }"

definition ds3231_getOscillatorStopFlag :: "'e i2c_env \<Rightarrow> byte \<Rightarrow> 'e i2c \<Rightarrow> (bool option \<times> 'e i2c) option" where
  "ds3231_getOscillatorStopFlag E addr s =
     do { (f, s1) \<leftarrow> ds3231_getFlag E addr DS3231_ADDR_STATUS DS3231_STAT_OSCILLATOR s; Some (map_option (\<lambda>x. x \<noteq> 0) f, s1) }"

definition ds3231_clearOscillatorStopFlag :: "'e i2c_env \<Rightarrow> byte \<Rightarrow> 'e i2c \<Rightarrow> (bool \<times> 'e i2c) option" where
  "ds3231_clearOscillatorStopFlag E addr s = ds3231_setFlag E addr DS3231_ADDR_STATUS DS3231_STAT_OSCILLATOR DS3231_CLEAR s"

definition ds3231_getAlarmFlags :: "'e i2c_env \<Rightarrow> byte \<Rightarrow> 'e i2c \<Rightarrow> (byte option \<times> 'e i2c) option" where
  "ds3231_getAlarmFlags E addr s = ds3231_getFlag E addr DS3231_ADDR_STATUS DS3231_ALARM_BOTH s"

definition ds3231_clearAlarmFlags :: "'e i2c_env \<Rightarrow> byte \<Rightarrow> byte \<Rightarrow> 'e i2c \<Rightarrow> (bool \<times> 'e i2c) option" where
  "ds3231_clearAlarmFlags E addr alarms s = ds3231_setFlag E addr DS3231_ADDR_STATUS alarms DS3231_CLEAR s"

definition ds3231_enableAlarmInts :: "'e i2c_env \<Rightarrow> byte \<Rightarrow> byte \<Rightarrow> 'e i2c \<Rightarrow> (bool \<times> 'e i2c) option" where
  "ds3231_enableAlarmInts E addr alarms s = ds3231_setFlag E addr DS3231_ADDR_CONTROL (DS3231_CTRL_ALARM_INTS OR alarms) DS3231_SET s"

definition ds3231_disableAlarmInts :: "'e i2c_env \<Rightarrow> byte \<Rightarrow> byte \<Rightarrow> 'e i2c \<Rightarrow> (bool \<times> 'e i2c) option" where
  "ds3231_disableAlarmInts E addr alarms s = ds3231_setFlag E addr DS3231_ADDR_CONTROL alarms DS3231_CLEAR s"

definition ds3231_enable32khz :: "'e i2c_env \<Rightarrow> byte \<Rightarrow> 'e i2c \<Rightarrow> (bool \<times> 'e i2c) option" where
  "ds3231_enable32khz E addr s = ds3231_setFlag E addr DS3231_ADDR_STATUS DS3231_STAT_32KHZ DS3231_SET s"

definition ds3231_disable32khz :: "'e i2c_env \<Rightarrow> byte \<Rightarrow> 'e i2c \<Rightarrow> (bool \<times> 'e i2c) option" where
  "ds3231_disable32khz E addr s = ds3231_setFlag E addr DS3231_ADDR_STATUS DS3231_STAT_32KHZ DS3231_CLEAR s"

definition ds3231_enableSquarewave :: "'e i2c_env \<Rightarrow> byte \<Rightarrow> 'e i2c \<Rightarrow> (bool \<times> 'e i2c) option" where
  "ds3231_enableSquarewave E addr s = ds3231_setFlag E addr DS3231_ADDR_CONTROL DS3231_CTRL_ALARM_INTS DS3231_CLEAR s"

definition ds3231_disableSquarewave :: "'e i2c_env \<Rightarrow> byte \<Rightarrow> 'e i2c \<Rightarrow> (bool \<times> 'e i2c) option" where
  "ds3231_disableSquarewave E addr s = ds3231_setFlag E addr DS3231_ADDR_CONTROL DS3231_CTRL_ALARM_INTS DS3231_SET s"

definition ds3231_setSquarewaveFreq :: "'e i2c_env \<Rightarrow> byte \<Rightarrow> byte \<Rightarrow> 'e i2c \<Rightarrow> (bool \<times> 'e i2c) option" where
  "ds3231_setSquarewaveFreq E addr freq s =
     do {
       (f, s1) \<leftarrow> ds3231_getFlag E addr DS3231_ADDR_CONTROL 0xff s;
       (case f of
          Some x \<Rightarrow> ds3231_setFlag E addr DS3231_ADDR_CONTROL ((x AND NOT DS3231_CTRL_SQWAVE_8192HZ) OR freq) DS3231_REPLACE s1
        | None \<Rightarrow> Some (False, s1))
     }"

section \<open>Temperature\<close>

text \<open>In quarters of a degree. A \<open>float\<close> holds a quarter of a 16 bit number exactly, so it is a real number here.\<close>

definition ds3231_getRawTemp :: "'e i2c_env \<Rightarrow> byte \<Rightarrow> 'e i2c \<Rightarrow> (int option \<times> 'e i2c) option" where
  "ds3231_getRawTemp E addr s =
     do {
       (r, data, s1) \<leftarrow> ds3231_recv E addr DS3231_ADDR_TEMP 2 s;
       Some (if r = I2C_SUCCESS then Some ((sint (data ! 0) * 4) OR uint (drop_bit 6 (data ! 1))) else None, s1)
     }"

definition ds3231_getTempInteger :: "'e i2c_env \<Rightarrow> byte \<Rightarrow> 'e i2c \<Rightarrow> (int option \<times> 'e i2c) option" where
  "ds3231_getTempInteger E addr s =
     do { (t, s1) \<leftarrow> ds3231_getRawTemp E addr s; Some (map_option (\<lambda>x. drop_bit 2 x) t, s1) }"

definition ds3231_getTempFloat :: "'e i2c_env \<Rightarrow> byte \<Rightarrow> 'e i2c \<Rightarrow> (real option \<times> 'e i2c) option" where
  "ds3231_getTempFloat E addr s =
     do { (t, s1) \<leftarrow> ds3231_getRawTemp E addr s; Some (map_option (\<lambda>x. of_int x * 0.25) t, s1) }"

section \<open>The chip with its registers\<close>

definition ds3231_valid :: "tm \<Rightarrow> bool" where
  "ds3231_valid t \<longleftrightarrow> tm_sec t \<in> {0..<60} \<and> tm_min t \<in> {0..<60} \<and> tm_hour t \<in> {0..<24} \<and> tm_wday t \<in> {0..<7}
     \<and> tm_mday t \<in> {1..31} \<and> tm_mon t \<in> {0..<12} \<and> tm_year t \<in> {100..<200}"

lemma decToBcd_bcd: "0 \<le> t \<Longrightarrow> t < 100 \<Longrightarrow> decToBcd (word_of_int t) = bcd t"
  unfolding decToBcd_def by (rule bcd_digits)

lemma bcdToDec_bcd: "0 \<le> t \<Longrightarrow> t < 100 \<Longrightarrow> uint (bcdToDec (bcd t)) = t"
  unfolding bcdToDec_def by (rule bcd_value)

lemma ds3231_time_of_bytes:
  assumes "ds3231_valid t"
  shows "ds3231_time_of (ds3231_bytes t) = t\<lparr>tm_isdst := 0\<rparr>"
proof -
  note t = assms [unfolded ds3231_valid_def atLeastLessThan_iff atLeastAtMost_iff]
  have "ds3231_bytes t = [bcd (tm_sec t), bcd (tm_min t), bcd (tm_hour t), bcd (tm_wday t + 1), bcd (tm_mday t), bcd (tm_mon t + 1), bcd (tm_year t - 100)]"
    unfolding ds3231_bytes_def using t by (simp only: list.inject) (intro conjI decToBcd_bcd; simp)
  then show ?thesis
    using t by (cases t) (simp add: ds3231_time_of_def bcdToDec_bcd bcd_masks ds3231_masks)
qed

context i2c_registers
begin

lemma ds3231_time_ready:
  assumes "ready s" "ds3231_valid t"
  shows "\<exists>s1 s2. ds3231_setTime E addr t s = Some (I2C_SUCCESS, s1)
    \<and> ds3231_getTime E addr s1 = Some (Some (t\<lparr>tm_isdst := 0\<rparr>), s2) \<and> ready s2"
proof -
  let ?xs = "ds3231_bytes t"
  have len: "length ?xs = 7" by (simp add: ds3231_bytes_def)
  obtain s1 where s1: "ds3231_setTime E addr t s = Some (I2C_SUCCESS, s1)" "ready s1" "mem s1 = mem_put 0 ?xs (mem s)"
    using stores [OF assms(1), of DS3231_ADDR_TIME ?xs] by (auto simp: ds3231_addrs ds3231_setTime_def ds3231_send_def)
  have "mem_read (mem s1) 0 7 = ?xs" unfolding s1(3) by (subst mem_read_mem_put) (simp_all add: len)
  then obtain s2 where "i2c_slave_read E addr (Some DS3231_ADDR_TIME) 7 s1 = Some (I2C_SUCCESS, ?xs, s2)" "ready s2"
    using loads [OF s1(2), of 7 DS3231_ADDR_TIME] by (auto simp: ds3231_addrs)
  then show ?thesis
    using s1(1) ds3231_time_of_bytes [OF assms(2)]
    by (intro exI [of _ s1] exI [of _ s2]) (simp add: ds3231_getTime_def ds3231_recv_def)
qed

lemma getFlag_ready:
  assumes "ready s"
  shows "\<exists>s'. ds3231_getFlag E addr r msk s = Some (Some (mem s (unat r) AND msk), s') \<and> ready s' \<and> mem s' = mem s"
  using loads [OF assms, of 1 r] by (auto simp: ds3231_getFlag_def ds3231_recv_def mem_read_def)

lemma setFlag_ready:
  assumes "ready s"
  shows "\<exists>s'. ds3231_setFlag E addr r bits mode s = Some (True, s') \<and> ready s'
    \<and> mem s' = (mem s)(unat r := apply_mode mode bits (mem s (unat r)))"
proof -
  obtain s1 where s1: "i2c_slave_read E addr (Some r) 1 s = Some (I2C_SUCCESS, [mem s (unat r)], s1)" "ready s1" "mem s1 = mem s"
    using loads [OF assms, of 1 r] by (auto simp: mem_read_def)
  have "mem_put a [x] m = m(a := x)" for a x m by (auto simp: mem_put_def)
  then show ?thesis
    using stores [OF s1(2), of r "[apply_mode mode bits (mem s (unat r))]"] s1
    by (auto simp: ds3231_setFlag_def ds3231_recv_def ds3231_send_def)
qed

lemma squarewave_ready:
  assumes "ready s"
  shows "\<exists>s'. ds3231_setSquarewaveFreq E addr freq s = Some (True, s')
    \<and> mem s' = (mem s)(0x0e := (mem s 0x0e AND NOT DS3231_CTRL_SQWAVE_8192HZ) OR freq)"
proof -
  obtain s1 where s1: "ds3231_getFlag E addr DS3231_ADDR_CONTROL 0xff s = Some (Some (mem s 0x0e), s1)" "ready s1" "mem s1 = mem s"
    using getFlag_ready [OF assms, of DS3231_ADDR_CONTROL "0xff"] low_mask [of "mem s 0x0e" 8] unat_byte_lt [of "mem s 0x0e"]
    by (auto simp: ds3231_addrs mask_eq_exp_minus_1)
  then show ?thesis
    using setFlag_ready [OF s1(2), of DS3231_ADDR_CONTROL "(mem s 0x0e AND NOT DS3231_CTRL_SQWAVE_8192HZ) OR freq" DS3231_REPLACE]
    by (auto simp: ds3231_setSquarewaveFreq_def ds3231_addrs)
qed

end

section \<open>Properties\<close>

text \<open>
  The time survives the chip: \<open>ds3231_getTime\<close> after \<open>ds3231_setTime\<close> succeeds and returns the same time.
\<close>

theorem ds3231_time_roundtrip:
  assumes "i2c_registers E addr ready mem" "ready s" "ds3231_valid t"
  shows "\<exists>s1 s2. ds3231_setTime E addr t s = Some (I2C_SUCCESS, s1)
    \<and> ds3231_getTime E addr s1 = Some (Some (t\<lparr>tm_isdst := 0\<rparr>), s2) \<and> ready s2"
  using assms by (rule i2c_registers.ds3231_time_ready)

definition sample_rtc :: tm where
  "sample_rtc = \<lparr>tm_sec = 59, tm_min = 30, tm_hour = 23, tm_mday = 31, tm_mon = 11, tm_year = 117, tm_wday = 0, tm_isdst = 0\<rparr>"

theorem ds3231_time_roundtrip_witness:
  "\<exists>s1 s2. ds3231_setTime (wire_env (reg_chip 0x68)) 0x68 sample_rtc (sample_bus, sample_wire (\<lambda>_. 0)) = Some (I2C_SUCCESS, s1)
    \<and> ds3231_getTime (wire_env (reg_chip 0x68)) 0x68 s1 = Some (Some sample_rtc, s2) \<and> reg_ready s2"
  using ds3231_time_roundtrip [OF reg_bus.i2c_registers_axioms [of "0x68"] sample_ready(1) [of "\<lambda>_. 0"], of sample_rtc]
  by (simp add: ds3231_valid_def sample_rtc_def)

text \<open>
  The temperature is read exactly: the integer is the rounded down value of the quarters, the
  floating point value has the quarters.
\<close>

theorem ds3231_temperature_exact:
  assumes "i2c_registers E addr ready mem" "ready s"
  shows "\<exists>s1 s2. ds3231_getTempInteger E addr s = Some (Some (sint (mem s 0x11)), s1)
    \<and> ds3231_getTempFloat E addr s = Some (Some (of_int (sint (mem s 0x11)) + of_nat (unat (mem s 0x12) div 64) / 4), s2)"
proof -
  let ?a = "sint (mem s 0x11)" and ?b = "uint (drop_bit 6 (mem s 0x12))"
  have b: "?b = int (unat (mem s 0x12) div 64)" by (simp add: drop_bit_eq_div uint_div zdiv_int)
  have "unat (mem s 0x12) div 64 < 4" using unat_byte_lt [of "mem s 0x12"] by (simp add: less_mult_imp_div_less)
  then have b4: "0 \<le> ?b" "?b < 4" unfolding b by simp_all
  then have "take_bit 2 ?b = ?b" by (simp add: take_bit_int_eq_self)
  then have raw: "(?a * 4) OR ?b = 4 * ?a + ?b"
    using concat_bit_eq [of 2 ?b ?a] by (simp add: concat_bit_def push_bit_eq_mult ac_simps)
  obtain s1 where "i2c_slave_read E addr (Some DS3231_ADDR_TEMP) 2 s = Some (I2C_SUCCESS, [mem s 0x11, mem s 0x12], s1)"
    using i2c_registers.loads [OF assms, of 2 DS3231_ADDR_TEMP] by (auto simp: mem_read_def upt_conv_Cons ds3231_addrs)
  then have "ds3231_getRawTemp E addr s = Some (Some (4 * ?a + ?b), s1)" by (simp add: ds3231_getRawTemp_def ds3231_recv_def raw)
  moreover have "drop_bit 2 (4 * ?a + ?b) = ?a" using b4 by (simp add: drop_bit_eq_div)
  ultimately show ?thesis
    by (intro exI [of _ s1]) (simp add: ds3231_getTempInteger_def ds3231_getTempFloat_def b)
qed

theorem ds3231_temperature_exact_witness:
  "\<exists>s1 s2. ds3231_getTempInteger (wire_env (reg_chip 0x68)) 0x68 (sample_bus, sample_wire (\<lambda>_. 0xe7)) = Some (Some (- 25), s1)
    \<and> ds3231_getTempFloat (wire_env (reg_chip 0x68)) 0x68 (sample_bus, sample_wire (\<lambda>_. 0xe7)) = Some (Some (- 24.25), s2)"
  using ds3231_temperature_exact [OF reg_bus.i2c_registers_axioms [of "0x68"] sample_ready(1) [of "\<lambda>_. 0xe7"]]
  by (simp add: sample_ready(2))

text \<open>
  An alarm on a day of the week is lost: the day is masked with the bit that selects the day of the
  week instead of combined with it, so that zero is written whatever the day, which asks for day
  zero of the month.
\<close>

theorem ds3231_weekday_alarm_lost:
  assumes "i2c_registers E addr ready mem" "ready s" "tm_wday t \<in> {0..<7}"
  shows "\<exists>s'. ds3231_setAlarm E addr DS3231_ALARM_1 t DS3231_ALARM1_MATCH_SECMINHOURDAY t2 opt2 s = Some (I2C_SUCCESS, s') \<and> mem s' 0x0a = 0"
proof -
  have "decToBcd (word_of_int (tm_wday t + 1)) AND DS3231_ALARM_WDAY = 0"
    unfolding DS3231_ALARM_WDAY_def using assms(3) by (subst decToBcd_bcd) (auto intro: bcd_masks)
  then have "alarm1_bytes t DS3231_ALARM1_MATCH_SECMINHOURDAY
      = [decToBcd (word_of_int (tm_sec t)), decToBcd (word_of_int (tm_min t)), decToBcd (word_of_int (tm_hour t)), 0]"
    unfolding alarm1_bytes_def by (simp only: ds3231_options) simp
  then show ?thesis
    using i2c_registers.stores [OF assms(1,2), of DS3231_ADDR_ALARM1 "alarm1_bytes t DS3231_ALARM1_MATCH_SECMINHOURDAY"]
    by (auto simp: ds3231_setAlarm_def ds3231_send_def DS3231_ALARM_1_def DS3231_ALARM_2_def ds3231_addrs mem_put_def)
qed

theorem ds3231_weekday_alarm_lost_witness:
  "\<exists>s'. ds3231_setAlarm (wire_env (reg_chip 0x68)) 0x68 DS3231_ALARM_1 (sample_rtc\<lparr>tm_wday := 3\<rparr>) DS3231_ALARM1_MATCH_SECMINHOURDAY sample_rtc 0
      (sample_bus, sample_wire (\<lambda>_. 0)) = Some (I2C_SUCCESS, s') \<and> reg_mem s' 0x0a = 0"
  using ds3231_weekday_alarm_lost [OF reg_bus.i2c_registers_axioms [of "0x68"] sample_ready(1) [of "\<lambda>_. 0"], of "sample_rtc\<lparr>tm_wday := 3\<rparr>" sample_rtc 0]
  by simp

text \<open>
  \<open>ds3231_setSquarewaveFreq\<close> changes the two rate bits of the control register and nothing else.
\<close>

theorem ds3231_squarewave_only:
  assumes "i2c_registers E addr ready mem" "ready s"
  shows "\<exists>s'. ds3231_setSquarewaveFreq E addr freq s = Some (True, s') \<and> mem s' = (mem s)(0x0e := (mem s 0x0e AND NOT 0x18) OR freq)"
  using i2c_registers.squarewave_ready [OF assms, of freq] by (simp add: DS3231_CTRL_SQWAVE_8192HZ_def)

theorem ds3231_squarewave_only_witness:
  "\<exists>s'. ds3231_setSquarewaveFreq (wire_env (reg_chip 0x68)) 0x68 0x10 (sample_bus, sample_wire (\<lambda>_. 0x0c)) = Some (True, s')
     \<and> reg_mem s' 0x0e = 0x14"
  using ds3231_squarewave_only [OF reg_bus.i2c_registers_axioms [of "0x68"] sample_ready(1) [of "\<lambda>_. 0x0c"], of "0x10"]
  by (auto simp: sample_ready(2))

end
