(* ===== verification/Ds18b20.thy ===== *)
theory Ds18b20
  imports Complex_Main Onewire
begin

text \<open>
  The driver \<open>src/extras/ds18b20/ds18b20.c\<close> of the DS18B20 and DS18S20 temperature sensors over the 1-Wire
  operations of \<open>Onewire\<close>. \<open>sleep\<close> is \<open>vTaskDelay\<close>, an argument like the pin. A \<open>float\<close> is a real number, since
  all values are multiples of 1/16 that a \<open>float\<close> holds exactly, and \<open>NAN\<close> is \<open>None\<close>. Results of the bus
  operations that the source ignores are ignored.
\<close>

section \<open>Commands\<close>

definition DS18B20_READ_SCRATCHPAD :: byte where "DS18B20_READ_SCRATCHPAD = 0xBE"
definition DS18B20_CONVERT_T :: byte where "DS18B20_CONVERT_T = 0x44"
definition DS18B20_FAMILY_ID :: byte where "DS18B20_FAMILY_ID = 0x28"
definition DS18S20_FAMILY_ID :: byte where "DS18S20_FAMILY_ID = 0x10"
definition DS18B20_ANY :: "64 word" where "DS18B20_ANY = ONEWIRE_NONE"

text \<open>Bytes stored to a \<open>uint8_t\<close> from \<open>onewire_read\<close>; a result of -1 is stored as 0xff.\<close>

fun read_raw :: "'s gpio \<Rightarrow> nat \<Rightarrow> 's \<Rightarrow> byte list \<times> 's" where
  "read_raw g 0 w = ([], w)"
| "read_raw g (Suc n) w =
     (case onewire_read g w of
        (x, w1) \<Rightarrow> (case read_raw g n w1 of (xs, w2) \<Rightarrow> ((case x of Some v \<Rightarrow> v | None \<Rightarrow> 0xff) # xs, w2)))"

definition raw_temp :: "byte list \<Rightarrow> 16 word" where
  "raw_temp pad = push_bit 8 (ucast (pad ! 1)) OR ucast (pad ! 0)"

section \<open>Measurement and reading\<close>

definition ds18b20_address :: "'s gpio \<Rightarrow> 64 word \<Rightarrow> 's \<Rightarrow> 's" where
  "ds18b20_address g addr w = (if addr = DS18B20_ANY then snd (onewire_skip_rom g w) else snd (onewire_select g addr w))"

definition ds18b20_measure :: "'s gpio \<Rightarrow> (nat \<Rightarrow> 's \<Rightarrow> 's) \<Rightarrow> 64 word \<Rightarrow> bool \<Rightarrow> 's \<Rightarrow> bool \<times> 's" where
  "ds18b20_measure g sleep addr wait w =
     (case onewire_reset g w of
        (False, w1) \<Rightarrow> (False, w1)
      | (True, w1) \<Rightarrow>
          let w2 = snd (onewire_power g (snd (onewire_write g DS18B20_CONVERT_T (ds18b20_address g addr w1))))
          in (True, if wait then onewire_depower g (sleep ((750 + 10 - 1) div 10) w2) else w2))"

text \<open>The buffer is returned also when the result is false.\<close>

definition ds18b20_read_scratchpad :: "'s gpio \<Rightarrow> 64 word \<Rightarrow> byte list \<Rightarrow> 's \<Rightarrow> bool \<times> byte list \<times> 's" where
  "ds18b20_read_scratchpad g addr buffer w =
     (case onewire_reset g w of
        (False, w1) \<Rightarrow> (False, buffer, w1)
      | (True, w1) \<Rightarrow>
          (case read_raw g 8 (snd (onewire_write g DS18B20_READ_SCRATCHPAD (ds18b20_address g addr w1))) of
             (buf, w2) \<Rightarrow>
               (case read_raw g 1 w2 of (crc, w3) \<Rightarrow> (hd crc = onewire_crc8 buf, buf, w3))))"

definition ds18b20_convert :: "64 word \<Rightarrow> byte list \<Rightarrow> real" where
  "ds18b20_convert addr scratchpad =
     (if ucast addr = DS18B20_FAMILY_ID
      then of_int (sint (raw_temp scratchpad)) * 625 / 10000
      else
        let temp = push_bit 3 (raw_temp scratchpad AND 0xfffe) + (16 - ucast (scratchpad ! 6)) - 4 :: 16 word
        in of_int (sint temp) * 625 / 10000 - 0.25)"

definition ds18b20_read_temperature :: "'s gpio \<Rightarrow> 64 word \<Rightarrow> byte list \<Rightarrow> 's \<Rightarrow> real option \<times> 's" where
  "ds18b20_read_temperature g addr junk w =
     (case ds18b20_read_scratchpad g addr junk w of
        (ok, scratchpad, w1) \<Rightarrow> (if \<not> ok then None else Some (ds18b20_convert addr scratchpad), w1))"

definition ds18b20_measure_and_read :: "'s gpio \<Rightarrow> (nat \<Rightarrow> 's \<Rightarrow> 's) \<Rightarrow> 64 word \<Rightarrow> byte list \<Rightarrow> 's \<Rightarrow> real option \<times> 's" where
  "ds18b20_measure_and_read g sleep addr junk w =
     (case ds18b20_measure g sleep addr True w of
        (False, w1) \<Rightarrow> (None, w1)
      | (True, w1) \<Rightarrow> ds18b20_read_temperature g addr junk w1)"

fun ds18b20_read_temp_multi :: "'s gpio \<Rightarrow> 64 word list \<Rightarrow> byte list \<Rightarrow> 's \<Rightarrow> bool \<times> real option list \<times> 's" where
  "ds18b20_read_temp_multi g [] junk w = (True, [], w)"
| "ds18b20_read_temp_multi g (addr # addr_list) junk w =
     (case ds18b20_read_temperature g addr junk w of
        (t, w1) \<Rightarrow>
          (case ds18b20_read_temp_multi g addr_list junk w1 of (ok, ts, w2) \<Rightarrow> (t \<noteq> None \<and> ok, t # ts, w2)))"

definition ds18b20_measure_and_read_multi :: "'s gpio \<Rightarrow> (nat \<Rightarrow> 's \<Rightarrow> 's) \<Rightarrow> 64 word list \<Rightarrow> byte list \<Rightarrow> 's
    \<Rightarrow> bool \<times> real option list \<times> 's" where
  "ds18b20_measure_and_read_multi g sleep addr_list junk w =
     (case ds18b20_measure g sleep DS18B20_ANY True w of
        (False, w1) \<Rightarrow> (False, replicate (length addr_list) None, w1)
      | (True, w1) \<Rightarrow> ds18b20_read_temp_multi g addr_list junk w1)"

section \<open>Loops over the devices\<close>

text \<open>\<open>None\<close> is a search that does not end. \<open>addr_list\<close> has the entries stored so far.\<close>

partial_function (option) scan_loop :: "'s gpio \<Rightarrow> nat \<Rightarrow> onewire_search \<Rightarrow> nat \<Rightarrow> 64 word list \<Rightarrow> 's
    \<Rightarrow> (nat \<times> 64 word list \<times> 's) option" where
  "scan_loop g addr_count search found addr_list w =
     (case onewire_search_next g search w of
        (addr, search1, w1) \<Rightarrow>
          if addr = ONEWIRE_NONE then Some (found, addr_list, w1)
          else if ucast addr = DS18B20_FAMILY_ID \<or> ucast addr = DS18S20_FAMILY_ID
          then scan_loop g addr_count search1 (found + 1) (if found < addr_count then addr_list @ [addr] else addr_list) w1
          else scan_loop g addr_count search1 found addr_list w1)"

declare scan_loop.simps [code]

definition ds18b20_scan_devices :: "'s gpio \<Rightarrow> nat \<Rightarrow> 's \<Rightarrow> (nat \<times> 64 word list \<times> 's) option" where
  "ds18b20_scan_devices g addr_count w = scan_loop g addr_count onewire_search_start 0 [] w"

text \<open>The older interface: conversion and reading of one sensor; \<open>select\<close> addresses it.\<close>

definition convert_and_read :: "'s gpio \<Rightarrow> (nat \<Rightarrow> 's \<Rightarrow> 's) \<Rightarrow> ('s \<Rightarrow> 's) \<Rightarrow> 's \<Rightarrow> byte list \<times> 's" where
  "convert_and_read g sleep select w =
     (let w1 = select (snd (onewire_reset g w));
          w2 = sleep (750 div 10) (snd (onewire_power g (snd (onewire_write g DS18B20_CONVERT_T w1))));
          w3 = select (snd (onewire_reset g w2))
      in read_raw g 9 (snd (onewire_write g DS18B20_READ_SCRATCHPAD w3)))"

definition unsigned_temp :: "byte list \<Rightarrow> real" where
  "unsigned_temp get = of_nat (unat (raw_temp get)) * 625 / 10000"

definition ds18b20_read_single :: "'s gpio \<Rightarrow> (nat \<Rightarrow> 's \<Rightarrow> 's) \<Rightarrow> 's \<Rightarrow> real \<times> 's" where
  "ds18b20_read_single g sleep w =
     (case convert_and_read g sleep (\<lambda>w. snd (onewire_skip_rom g w)) w of
        (get, w1) \<Rightarrow> (if onewire_crc8 (take 8 get) \<noteq> get ! 8 then 0 else unsigned_temp get, w1))"

definition addr_bytes :: "64 word \<Rightarrow> byte list" where
  "addr_bytes addr = map (\<lambda>i. ucast (drop_bit (8 * i) addr)) [0..<8]"

text \<open>\<open>result\<close> is the array of the caller, a map from indices to the stored identifier and value.\<close>

partial_function (option) read_all_loop :: "'s gpio \<Rightarrow> (nat \<Rightarrow> 's \<Rightarrow> 's) \<Rightarrow> onewire_search \<Rightarrow> nat \<Rightarrow> (nat \<rightharpoonup> nat \<times> real) \<Rightarrow> 's
    \<Rightarrow> (nat \<times> (nat \<rightharpoonup> nat \<times> real) \<times> 's) option" where
  "read_all_loop g sleep search sensor_id result w =
     (case onewire_search_next g search w of
        (addr, search1, w1) \<Rightarrow>
          if addr = ONEWIRE_NONE then Some (sensor_id, result, w1)
          else if onewire_crc8 (take 7 (addr_bytes addr)) \<noteq> addr_bytes addr ! 7 then Some (0, result, w1)
          else (case convert_and_read g sleep (\<lambda>w. snd (onewire_select g addr w)) w1 of
                  (get, w2) \<Rightarrow>
                    if onewire_crc8 (take 8 get) \<noteq> get ! 8 then Some (0, result, w2)
                    else read_all_loop g sleep search1 (u8 (sensor_id + 1)) (result(sensor_id \<mapsto> (sensor_id, unsigned_temp get))) w2))"

declare read_all_loop.simps [code]

definition ds18b20_read_all :: "'s gpio \<Rightarrow> (nat \<Rightarrow> 's \<Rightarrow> 's) \<Rightarrow> (nat \<rightharpoonup> nat \<times> real) \<Rightarrow> 's
    \<Rightarrow> (nat \<times> (nat \<rightharpoonup> nat \<times> real) \<times> 's) option" where
  "ds18b20_read_all g sleep result w = read_all_loop g sleep onewire_search_start 0 result w"

end
