(* ===== verification/Ds18b20_Sensors.thy ===== *)
theory Ds18b20_Sensors
  imports Ds18b20 Onewire_Crc
begin

text \<open>
  Sensors on the wire. The locale \<open>sensor_line\<close> says what the slots of the master do to sensors that follow the
  protocol; a wire with the timing of the protocol is its instance. On such a line the driver reads the
  temperature of each sensor by its address.
\<close>

section \<open>Sensors\<close>

text \<open>
  What a sensor expects: the bits of a ROM command, of a ROM code to compare, of a function command; or
  it sends bits, or it waits for a reset.
\<close>

datatype sensor_phase = Deaf | Rom "bool list" | Match "bool list" | Function "bool list" | Send "bool list"

record sensor =
  code :: "bool list"
  pad :: "byte list"
  measured :: "byte list"
  expects :: sensor_phase

definition lsb_bits :: "byte \<Rightarrow> bool list" where
  "lsb_bits x = map (bit x) [0..<8]"

text \<open>A slot: the bit the master writes, and whether the sensor pulls the line in it.\<close>

fun next_phase :: "bool \<Rightarrow> sensor_phase \<Rightarrow> sensor \<Rightarrow> sensor" where
  "next_phase b (Rom bs) s =
     s\<lparr>expects := (if length bs < 7 then Rom (bs @ [b])
                   else if bs @ [b] = lsb_bits ONEWIRE_SKIP_ROM then Function []
                   else if bs @ [b] = lsb_bits ONEWIRE_SELECT_ROM then Match [] else Deaf)\<rparr>"
| "next_phase b (Match bs) s =
     s\<lparr>expects := (if length bs < 63 then Match (bs @ [b]) else if bs @ [b] = code s then Function [] else Deaf)\<rparr>"
| "next_phase b (Function bs) s =
     (if length bs < 7 then s\<lparr>expects := Function (bs @ [b])\<rparr>
      else if bs @ [b] = lsb_bits DS18B20_READ_SCRATCHPAD then s\<lparr>expects := Send (concat (map lsb_bits (pad s)))\<rparr>
      else if bs @ [b] = lsb_bits DS18B20_CONVERT_T then s\<lparr>pad := measured s, expects := Deaf\<rparr>
      else s\<lparr>expects := Deaf\<rparr>)"
| "next_phase b (Send bs) s = s\<lparr>expects := Send (tl bs)\<rparr>"
| "next_phase b Deaf s = s"

definition slot :: "bool \<Rightarrow> sensor \<Rightarrow> sensor" where
  "slot b s = next_phase b (expects s) s"

fun pulls_line :: "sensor_phase \<Rightarrow> bool" where
  "pulls_line (Send (b # bs)) \<longleftrightarrow> \<not> b"
| "pulls_line _ \<longleftrightarrow> False"

definition restart :: "sensor \<Rightarrow> sensor" where
  "restart s = s\<lparr>expects := Rom []\<rparr>"

locale sensor_line =
  fixes g :: "'s gpio" and sleep :: "nat \<Rightarrow> 's \<Rightarrow> 's" and line_at :: "sensor list \<Rightarrow> 's \<Rightarrow> bool"
  assumes reset: "line_at ss w \<Longrightarrow> \<exists>w'. onewire_reset g w = (ss \<noteq> [], w') \<and> line_at (map restart ss) w'"
    and write_slot: "line_at ss w \<Longrightarrow> \<exists>w'. onewire_write_bit g b w = (True, w') \<and> line_at (map (slot b) ss) w'"
    and read_slot: "line_at ss w \<Longrightarrow> \<exists>w'. onewire_read_bit g w = (Some (\<forall>s \<in> set ss. \<not> pulls_line (expects s)), w') \<and> line_at (map (slot True) ss) w'"
    and power: "line_at ss w \<Longrightarrow> \<exists>w'. onewire_power g w = (True, w') \<and> line_at ss w'"
    and depower: "line_at ss w \<Longrightarrow> line_at ss (onewire_depower g w)"
    and sleeping: "line_at ss w \<Longrightarrow> line_at ss (sleep n w)"

section \<open>A wire with sensors\<close>

text \<open>The wire of \<open>Onewire_Search\<close> in its timing, with sensors that can be read.\<close>

record sensor_wire =
  idle_high :: bool
  since_edge :: nat
  low_from :: nat
  low_until :: nat
  sensors :: "sensor list"

definition end_pulse :: "sensor_wire \<Rightarrow> sensor_wire" where
  "end_pulse w =
     (let L = since_edge w; ss = sensors w
      in if 480 \<le> L
         then w\<lparr>sensors := map restart ss, low_from := 30, low_until := (if ss = [] then 0 else 240)\<rparr>
         else w\<lparr>sensors := map (slot (L < 15)) ss, low_from := 0,
                low_until := (if \<exists>s \<in> set ss. pulls_line (expects s) then 30 - L else 0)\<rparr>)"

definition sensor_gpio :: "sensor_wire gpio" where
  "sensor_gpio = \<lparr>gpio_enable = (\<lambda>d w. w),
     gpio_write = (\<lambda>v w. if v = idle_high w then w
                        else if v then (end_pulse w)\<lparr>idle_high := True, since_edge := 0\<rparr>
                        else w\<lparr>idle_high := False, since_edge := 0\<rparr>),
     gpio_read = (\<lambda>w. idle_high w \<and> \<not> (low_from w \<le> since_edge w \<and> since_edge w < low_until w)),
     delay_us = (\<lambda>n w. w\<lparr>since_edge := since_edge w + n\<rparr>)\<rparr>"

definition sensor_sleep :: "nat \<Rightarrow> sensor_wire \<Rightarrow> sensor_wire" where
  "sensor_sleep n w = w\<lparr>since_edge := since_edge w + 10000 * n\<rparr>"

definition sensor_at :: "sensor list \<Rightarrow> sensor_wire \<Rightarrow> bool" where
  "sensor_at ss w \<longleftrightarrow> idle_high w \<and> low_until w \<le> since_edge w \<and> sensors w = ss"

lemma sensor_gpio_simps [simp]:
  "gpio_enable sensor_gpio d w = w"
  "gpio_write sensor_gpio True w = (if idle_high w then w else (end_pulse w)\<lparr>idle_high := True, since_edge := 0\<rparr>)"
  "gpio_write sensor_gpio False w = (if idle_high w then w\<lparr>idle_high := False, since_edge := 0\<rparr> else w)"
  "gpio_read sensor_gpio w \<longleftrightarrow> idle_high w \<and> \<not> (low_from w \<le> since_edge w \<and> since_edge w < low_until w)"
  "delay_us sensor_gpio n w = w\<lparr>since_edge := since_edge w + n\<rparr>"
  by (auto simp: sensor_gpio_def)

lemma sensor_wait_idle [simp]:
  "idle_high w \<Longrightarrow> low_until w \<le> since_edge w \<Longrightarrow>
    onewire_wait_for_bus sensor_gpio n w = (True, w\<lparr>since_edge := Suc (since_edge w)\<rparr>)"
  by (cases "(n + 4) div 5") (simp_all add: onewire_wait_for_bus_def)

lemma sensor_wait_loop:
  assumes "idle_high w" "low_from w \<le> since_edge w" "low_until w \<le> since_edge w + 5 * n"
  shows "\<exists>c. wait_loop sensor_gpio n w = w\<lparr>since_edge := c\<rparr> \<and> low_until w \<le> c"
  using assms
proof (induction n arbitrary: w)
  case (Suc n)
  show ?case
  proof (cases "gpio_read sensor_gpio w")
    case True
    then show ?thesis using Suc.prems by (intro exI [of _ "since_edge w"]) auto
  next
    case False
    then show ?thesis using Suc.IH [of "w\<lparr>since_edge := since_edge w + 5\<rparr>"] Suc.prems by auto
  qed
qed (auto intro!: exI [of _ "since_edge w" for w])

lemma sensor_reset:
  assumes "sensor_at ss w"
  shows "\<exists>w'. onewire_reset sensor_gpio w = (ss \<noteq> [], w') \<and> sensor_at (map restart ss) w'"
proof -
  define w3 where "w3 = w\<lparr>idle_high := True, since_edge := 70, low_from := 30, low_until := (if ss = [] then 0 else 240),
    sensors := map restart ss\<rparr>"
  have "idle_high w3" "low_from w3 \<le> since_edge w3" "low_until w3 \<le> since_edge w3 + 5 * 82" by (simp_all add: w3_def)
  then obtain c where c: "wait_loop sensor_gpio 82 w3 = w3\<lparr>since_edge := c\<rparr>" "low_until w3 \<le> c"
    using sensor_wait_loop by blast
  then have wait: "onewire_wait_for_bus sensor_gpio 410 w3 = (True, w3\<lparr>since_edge := c + 1\<rparr>)"
    by (simp add: onewire_wait_for_bus_def) (simp add: w3_def)
  have "delay_us sensor_gpio 70 (gpio_write sensor_gpio True (delay_us sensor_gpio 480 (gpio_write sensor_gpio False
      (w\<lparr>since_edge := Suc (since_edge w)\<rparr>)))) = w3"
    using assms by (cases w) (simp add: sensor_at_def end_pulse_def Let_def w3_def)
  moreover have "gpio_read sensor_gpio w3 \<longleftrightarrow> ss = []" by (simp add: w3_def)
  moreover have "gpio_write sensor_gpio True w = w" using assms by (simp add: sensor_at_def)
  ultimately have "onewire_reset sensor_gpio w = (ss \<noteq> [], w3\<lparr>since_edge := c + 1\<rparr>)"
    using assms wait by (simp add: onewire_reset_def sensor_at_def Let_def del: sensor_gpio_simps(2-5))
  moreover have "sensor_at (map restart ss) (w3\<lparr>since_edge := c + 1\<rparr>)"
    using c(2) by (simp add: sensor_at_def w3_def)
  ultimately show ?thesis by blast
qed

interpretation sensor_wire: sensor_line sensor_gpio sensor_sleep sensor_at
proof (unfold_locales, goal_cases)
  case (1 ss w)
  then show ?case by (rule sensor_reset)
next
  case (2 ss w b)
  then show ?case by (cases b) (auto simp: onewire_write_bit_def sensor_at_def end_pulse_def Let_def)
next
  case (3 ss w)
  then show ?case by (auto simp: onewire_read_bit_def sensor_at_def end_pulse_def Let_def)
next
  case (4 ss w)
  then show ?case by (auto simp: onewire_power_def sensor_at_def)
next
  case (5 ss w)
  then show ?case by (auto simp: onewire_depower_def sensor_at_def)
next
  case (6 ss w n)
  then show ?case by (auto simp: sensor_sleep_def sensor_at_def)
qed

section \<open>Bytes on the line\<close>

definition slots :: "bool list \<Rightarrow> sensor \<Rightarrow> sensor" where
  "slots bs s = fold slot bs s"

lemma slots_simps [simp]: "slots [] s = s" "slots (b # bs) s = slots bs (slot b s)"
  by (simp_all add: slots_def)

lemma slots_Nil: "slots [] = (\<lambda>s. s)"
  by (rule ext) simp

lemma slots_append: "slots (xs @ ys) s = slots ys (slots xs s)"
  by (simp add: slots_def)

lemma length_lsb_bits [simp]: "length (lsb_bits x) = 8"
  by (simp add: lsb_bits_def)

lemma slots_deaf: "expects s = Deaf \<Longrightarrow> slots bs s = s"
  by (induction bs) (simp_all add: slot_def)

lemma slots_collect:
  "length bs + length vs < 8 \<Longrightarrow> slots vs (s\<lparr>expects := Rom bs\<rparr>) = s\<lparr>expects := Rom (bs @ vs)\<rparr>"
  "length bs + length vs < 64 \<Longrightarrow> slots vs (s\<lparr>expects := Match bs\<rparr>) = s\<lparr>expects := Match (bs @ vs)\<rparr>"
  "length bs + length vs < 8 \<Longrightarrow> slots vs (s\<lparr>expects := Function bs\<rparr>) = s\<lparr>expects := Function (bs @ vs)\<rparr>"
  by (induction vs arbitrary: bs) (simp_all add: slot_def)

lemma slots_Rom:
  assumes "length vs = 8"
  shows "slots vs (s\<lparr>expects := Rom []\<rparr>) = s\<lparr>expects := (if vs = lsb_bits ONEWIRE_SKIP_ROM then Function []
    else if vs = lsb_bits ONEWIRE_SELECT_ROM then Match [] else Deaf)\<rparr>"
proof -
  obtain us v where vs: "vs = us @ [v]" "length us = 7" using assms by (cases vs rule: rev_cases) auto
  then show ?thesis using slots_collect(1) [of "[]" us s] by (simp add: slots_append slot_def)
qed

lemma slots_Match:
  assumes "length vs = 64"
  shows "slots vs (s\<lparr>expects := Match []\<rparr>) = s\<lparr>expects := (if vs = code s then Function [] else Deaf)\<rparr>"
proof -
  obtain us v where vs: "vs = us @ [v]" "length us = 63" using assms by (cases vs rule: rev_cases) auto
  then show ?thesis using slots_collect(2) [of "[]" us s] by (simp add: slots_append slot_def)
qed

lemma slots_Function:
  assumes "length vs = 8"
  shows "slots vs (s\<lparr>expects := Function []\<rparr>) = (if vs = lsb_bits DS18B20_READ_SCRATCHPAD then s\<lparr>expects := Send (concat (map lsb_bits (pad s)))\<rparr>
    else if vs = lsb_bits DS18B20_CONVERT_T then s\<lparr>pad := measured s, expects := Deaf\<rparr> else s\<lparr>expects := Deaf\<rparr>)"
proof -
  obtain us v where vs: "vs = us @ [v]" "length us = 7" using assms by (cases vs rule: rev_cases) auto
  then show ?thesis using slots_collect(3) [of "[]" us s] by (simp add: slots_append slot_def)
qed

lemma slots_Send: "slots (replicate n True) (s\<lparr>expects := Send bs\<rparr>) = s\<lparr>expects := Send (drop n bs)\<rparr>"
  by (induction n arbitrary: bs) (simp_all add: slot_def drop_Suc)

text \<open>The code of a sensor with a given address, the first bit on the wire first.\<close>

definition addr_code :: "64 word \<Rightarrow> bool list" where
  "addr_code a = concat (map lsb_bits (addr_bytes a))"

fun or_bits :: "nat \<Rightarrow> byte \<Rightarrow> bool list \<Rightarrow> byte" where
  "or_bits i r [] = r"
| "or_bits i r (b # bs) = or_bits (Suc i) (if b then r OR push_bit i 1 else r) bs"

lemma bit_or_bits: "bit (or_bits i r bs) k \<longleftrightarrow> bit r k \<or> (i \<le> k \<and> k < i + length bs \<and> k < 8 \<and> bs ! (k - i))"
proof (induction bs arbitrary: i r)
  case (Cons b bs)
  then show ?case by (cases "k = i") (auto simp: bit_simps nth_Cons' Suc_le_eq)
qed auto

lemma or_bits_lsb: "or_bits 0 0 (lsb_bits x) = x"
  by (rule bit_word_eqI) (auto simp: bit_or_bits lsb_bits_def)

lemma length_addr_code [simp]: "length (addr_code a) = 64"
  by (simp add: addr_code_def addr_bytes_def length_concat comp_def sum_list_triv)

lemma map_slots: "map (slots ys) (map (slots xs) ss) = map (slots (xs @ ys)) ss"
  by (simp add: slots_append)

text \<open>Only one sensor sends.\<close>

definition talks :: "sensor list \<Rightarrow> sensor \<Rightarrow> bool list \<Rightarrow> sensor list \<Rightarrow> sensor list" where
  "talks us s bs vs = us @ s\<lparr>expects := Send bs\<rparr> # vs"

definition deaf :: "sensor list \<Rightarrow> bool" where
  "deaf us \<longleftrightarrow> (\<forall>s \<in> set us. expects s = Deaf)"

lemma talks_slot:
  assumes "deaf us" "deaf vs"
  shows "map (slot v) (talks us s (b # bs) vs) = talks us s bs vs"
    "(\<forall>x \<in> set (talks us s (b # bs) vs). \<not> pulls_line (expects x)) \<longleftrightarrow> b"
proof -
  have "map (slot v) xs = xs" if "deaf xs" for xs using that by (intro map_idI) (simp add: deaf_def slot_def)
  then show "map (slot v) (talks us s (b # bs) vs) = talks us s bs vs" using assms by (simp add: talks_def slot_def)
  show "(\<forall>x \<in> set (talks us s (b # bs) vs). \<not> pulls_line (expects x)) \<longleftrightarrow> b" using assms by (auto simp: talks_def deaf_def)
qed

context sensor_line
begin

lemma write_bits_slots:
  "line_at ss w \<Longrightarrow> \<exists>w'. write_bits g x i n w = (True, w') \<and> line_at (map (slots (map (bit x) [i..<i + n])) ss) w'"
proof (induction n arbitrary: i ss w)
  case (Suc n)
  obtain w1 where w1: "onewire_write_bit g (bit x i) w = (True, w1)" "line_at (map (slot (bit x i)) ss) w1"
    using write_slot [OF Suc.prems] by blast
  have "[i..<i + Suc n] = i # [Suc i..<Suc i + n]" by (simp add: upt_conv_Cons del: upt_Suc)
  then show ?case using Suc.IH [OF w1(2), of "Suc i"] w1(1) by (simp add: comp_def del: upt_Suc)
qed (simp add: slots_Nil)

lemma write_slots: "line_at ss w \<Longrightarrow> \<exists>w'. onewire_write g x w = (True, w') \<and> line_at (map (slots (lsb_bits x)) ss) w'"
  using write_bits_slots [of ss w x 0 8] by (simp add: onewire_write_def lsb_bits_def del: upt_Suc)

lemma select_slots:
  "line_at ss w \<Longrightarrow> \<exists>w'. select_bytes g a n w = (True, w')
    \<and> line_at (map (slots (concat (map (\<lambda>i. lsb_bits (ucast (drop_bit (8 * i) a))) [0..<n]))) ss) w'"
proof (induction n arbitrary: a ss w)
  case (Suc n)
  obtain w1 where w1: "onewire_write g (ucast a) w = (True, w1)" "line_at (map (slots (lsb_bits (ucast a))) ss) w1"
    using write_slots [OF Suc.prems] by blast
  have "map (\<lambda>i. lsb_bits (ucast (drop_bit (8 * i) a))) [0..<Suc n]
      = lsb_bits (ucast a) # map (\<lambda>i. lsb_bits (ucast (drop_bit (8 * i) (drop_bit 8 a)))) [0..<n]"
    by (simp add: upt_conv_Cons del: upt_Suc flip: map_Suc_upt) (simp add: drop_bit_drop_bit ac_simps)
  then show ?case using Suc.IH [OF w1(2), of "drop_bit 8 a"] w1(1) by (simp add: map_slots comp_def slots_append del: upt_Suc)
qed (simp add: slots_Nil)

lemma read_bits_talks:
  assumes "deaf us" "deaf vs"
  shows "line_at (talks us s (bs @ rs) vs) w \<Longrightarrow> \<exists>w'. read_bits g i (length bs) r w = (Some (or_bits i r bs), w') \<and> line_at (talks us s rs vs) w'"
proof (induction bs arbitrary: i r w)
  case (Cons b bs)
  obtain w1 where w1: "onewire_read_bit g w = (Some b, w1)" "line_at (talks us s (bs @ rs) vs) w1"
    using read_slot [OF Cons.prems] talks_slot(1) [OF assms, of True s b "bs @ rs"] talks_slot(2) [OF assms, of s b "bs @ rs"] by auto
  then show ?case using Cons.IH [OF w1(2)] by simp
qed simp

lemma read_raw_talks:
  assumes "deaf us" "deaf vs"
  shows "line_at (talks us s (concat (map lsb_bits xs) @ rs) vs) w
    \<Longrightarrow> \<exists>w'. read_raw g (length xs) w = (xs, w') \<and> line_at (talks us s rs vs) w'"
proof (induction xs arbitrary: w)
  case (Cons x xs)
  obtain w1 where "onewire_read g w = (Some x, w1)" "line_at (talks us s (concat (map lsb_bits xs) @ rs) vs) w1"
    using read_bits_talks [OF assms, of s "lsb_bits x" "concat (map lsb_bits xs) @ rs" w 0 0] Cons.prems
    by (auto simp: onewire_read_def or_bits_lsb)
  then show ?case using Cons.IH [of w1] by auto
qed simp

end

section \<open>The driver on the line\<close>

text \<open>What a sensor keeps between commands, and a line with given sensors.\<close>

type_synonym sensor_data = "bool list \<times> byte list \<times> byte list"

definition data_of :: "sensor \<Rightarrow> sensor_data" where
  "data_of s = (code s, pad s, measured s)"

lemma data_of_expects [simp]: "data_of (s\<lparr>expects := p\<rparr>) = data_of s" "data_of (restart s) = data_of s"
  by (simp_all add: data_of_def restart_def)

definition converted :: "sensor_data \<Rightarrow> sensor_data" where
  "converted d = (fst d, snd (snd d), snd (snd d))"

lemma command_codes [simp]: "lsb_bits ONEWIRE_SKIP_ROM \<noteq> lsb_bits ONEWIRE_SELECT_ROM" "lsb_bits DS18B20_CONVERT_T \<noteq> lsb_bits DS18B20_READ_SCRATCHPAD"
  "lsb_bits ONEWIRE_SELECT_ROM \<noteq> lsb_bits ONEWIRE_SKIP_ROM"
  by (simp_all add: lsb_bits_def ONEWIRE_SKIP_ROM_def ONEWIRE_SELECT_ROM_def DS18B20_CONVERT_T_def DS18B20_READ_SCRATCHPAD_def upt_conv_Cons)

context sensor_line
begin

definition has :: "sensor_data list \<Rightarrow> 's \<Rightarrow> bool" where
  "has ds w \<longleftrightarrow> (\<exists>ss. line_at ss w \<and> map data_of ss = ds)"

text \<open>After a reset, the sensors that are addressed expect a function command.\<close>

lemma address_sensors:
  assumes "line_at (map restart ss) w"
  shows "line_at (map (\<lambda>s. s\<lparr>expects := (if addr = DS18B20_ANY \<or> code s = addr_code addr then Function [] else Deaf)\<rparr>) ss)
    (ds18b20_address g addr w)"
proof (cases "addr = DS18B20_ANY")
  case True
  have "slots (lsb_bits ONEWIRE_SKIP_ROM) (restart s) = s\<lparr>expects := Function []\<rparr>" for s
    using slots_Rom [of "lsb_bits ONEWIRE_SKIP_ROM" s] by (simp add: restart_def)
  then show ?thesis
    using write_slots [OF assms, of ONEWIRE_SKIP_ROM] True by (auto simp: ds18b20_address_def onewire_skip_rom_def comp_def)
next
  case False
  have s1: "slots (lsb_bits ONEWIRE_SELECT_ROM) (restart s) = s\<lparr>expects := Match []\<rparr>" for s
    using slots_Rom [of "lsb_bits ONEWIRE_SELECT_ROM" s] by (simp add: restart_def)
  have s2: "slots (addr_code addr) (s\<lparr>expects := Match []\<rparr>) = s\<lparr>expects := (if code s = addr_code addr then Function [] else Deaf)\<rparr>" for s
    using slots_Match [of "addr_code addr" s] by auto
  obtain w1 where w1: "onewire_write g ONEWIRE_SELECT_ROM w = (True, w1)" "line_at (map (\<lambda>s. s\<lparr>expects := Match []\<rparr>) ss) w1"
    using write_slots [OF assms, of ONEWIRE_SELECT_ROM] by (auto simp: comp_def s1)
  have "concat (map (\<lambda>i. lsb_bits (ucast (drop_bit (8 * i) addr))) [0..<8]) = addr_code addr"
    by (simp add: addr_code_def addr_bytes_def comp_def)
  then show ?thesis
    using select_slots [OF w1(2), of addr 8] w1(1) False by (auto simp: ds18b20_address_def onewire_select_def comp_def s2)
qed

lemma measure_all:
  assumes "has ds w" "ds \<noteq> []"
  shows "\<exists>w'. ds18b20_measure g sleep DS18B20_ANY True w = (True, w') \<and> has (map converted ds) w'"
proof -
  obtain ss where ss: "line_at ss w" "map data_of ss = ds" using assms(1) by (auto simp: has_def)
  obtain w1 where w1: "onewire_reset g w = (True, w1)" "line_at (map restart ss) w1" using reset [OF ss(1)] ss(2) assms(2) by fastforce
  let ?w2 = "ds18b20_address g DS18B20_ANY w1"
  have w2: "line_at (map (\<lambda>s. s\<lparr>expects := Function []\<rparr>) ss) ?w2" using address_sensors [OF w1(2), of DS18B20_ANY] by simp
  have conv: "slots (lsb_bits DS18B20_CONVERT_T) (s\<lparr>expects := Function []\<rparr>) = s\<lparr>pad := measured s, expects := Deaf\<rparr>" for s
    using slots_Function [of "lsb_bits DS18B20_CONVERT_T" s] by simp
  obtain w3 where w3: "onewire_write g DS18B20_CONVERT_T ?w2 = (True, w3)" "line_at (map (\<lambda>s. s\<lparr>pad := measured s, expects := Deaf\<rparr>) ss) w3"
    using write_slots [OF w2, of DS18B20_CONVERT_T] by (auto simp: comp_def conv)
  obtain w4 where w4: "onewire_power g w3 = (True, w4)" "line_at (map (\<lambda>s. s\<lparr>pad := measured s, expects := Deaf\<rparr>) ss) w4"
    using power [OF w3(2)] by blast
  have "map data_of (map (\<lambda>s. s\<lparr>pad := measured s, expects := Deaf\<rparr>) ss) = map converted ds"
    unfolding ss(2) [symmetric] by (simp add: data_of_def converted_def)
  moreover have "line_at (map (\<lambda>s. s\<lparr>pad := measured s, expects := Deaf\<rparr>) ss) (onewire_depower g (sleep 75 w4))"
    by (intro depower sleeping w4(2))
  ultimately have "has (map converted ds) (onewire_depower g (sleep 75 w4))" unfolding has_def by blast
  then show ?thesis using w1(1) w3(1) w4(1) by (simp add: ds18b20_measure_def Let_def)
qed

text \<open>One sensor answers: the one with the address, or the only one.\<close>

lemma read_scratchpad_one:
  assumes "line_at (us @ s # vs) w" "addr = DS18B20_ANY \<or> code s = addr_code addr"
    and "\<And>x. x \<in> set (us @ vs) \<Longrightarrow> \<not> (addr = DS18B20_ANY \<or> code x = addr_code addr)" "length (pad s) = 9"
  shows "\<exists>w'. ds18b20_read_scratchpad g addr junk w = (pad s ! 8 = onewire_crc8 (take 8 (pad s)), take 8 (pad s), w')
    \<and> has (map data_of (us @ s # vs)) w'"
proof -
  let ?P = "\<lambda>s. addr = DS18B20_ANY \<or> code s = addr_code addr"
  let ?deaf = "map (\<lambda>s. s\<lparr>expects := Deaf\<rparr>)"
  obtain w1 where w1: "onewire_reset g w = (True, w1)" "line_at (map restart (us @ s # vs)) w1" using reset [OF assms(1)] by auto
  let ?w2 = "ds18b20_address g addr w1"
  have only: "map (\<lambda>s. s\<lparr>expects := (if ?P s then Function [] else Deaf)\<rparr>) xs = ?deaf xs" if "set xs \<subseteq> set (us @ vs)" for xs
    using that assms(3) by (intro map_cong) auto
  have w2: "line_at (?deaf us @ s\<lparr>expects := Function []\<rparr> # ?deaf vs) ?w2"
    using address_sensors [OF w1(2), of addr] only [of us] only [of vs] assms(2) by simp
  have deafs: "slots bs \<circ> (\<lambda>s. s\<lparr>expects := Deaf\<rparr>) = (\<lambda>s. s\<lparr>expects := Deaf\<rparr>)" for bs by (rule ext) (simp add: slots_deaf)
  have send: "slots (lsb_bits DS18B20_READ_SCRATCHPAD) (s\<lparr>expects := Function []\<rparr>) = s\<lparr>expects := Send (concat (map lsb_bits (pad s)))\<rparr>"
    using slots_Function [of "lsb_bits DS18B20_READ_SCRATCHPAD" s] by simp
  obtain w3 where w3: "onewire_write g DS18B20_READ_SCRATCHPAD ?w2 = (True, w3)"
      "line_at (talks (?deaf us) s (concat (map lsb_bits (pad s))) (?deaf vs)) w3"
    using write_slots [OF w2, of DS18B20_READ_SCRATCHPAD] by (auto simp: talks_def deafs send)
  define p8 p9 where "p8 = take 8 (pad s)" and "p9 = drop 8 (pad s)"
  have p: "pad s = p8 @ p9" "length p8 = 8" "length p9 = 1" "hd p9 = pad s ! 8"
    using assms(4) by (simp_all add: p8_def p9_def hd_drop_conv_nth)
  have d: "deaf (?deaf xs)" for xs by (simp add: deaf_def)
  obtain w4 where w4: "read_raw g 8 w3 = (p8, w4)" "line_at (talks (?deaf us) s (concat (map lsb_bits p9)) (?deaf vs)) w4"
    using read_raw_talks [OF d d, of us s p8 "concat (map lsb_bits p9)" vs w3] w3(2) p by auto
  obtain w5 where w5: "read_raw g 1 w4 = (p9, w5)" "line_at (talks (?deaf us) s [] (?deaf vs)) w5"
    using read_raw_talks [OF d d, of us s p9 "[]" vs w4] w4(2) p by auto
  have "map data_of (talks (?deaf us) s [] (?deaf vs)) = map data_of (us @ s # vs)" by (simp add: talks_def comp_def)
  then have "has (map data_of (us @ s # vs)) w5" unfolding has_def using w5(2) by blast
  then show ?thesis
    using w1(1) w3(1) w4(1) w5(1) p(4) by (simp add: ds18b20_read_scratchpad_def p8_def)
qed

lemma read_temperature_one:
  assumes "line_at (us @ s # vs) w" "addr = DS18B20_ANY \<or> code s = addr_code addr"
    and "\<And>x. x \<in> set (us @ vs) \<Longrightarrow> \<not> (addr = DS18B20_ANY \<or> code x = addr_code addr)"
    and "length (pad s) = 9" "pad s ! 8 = onewire_crc8 (take 8 (pad s))"
  shows "\<exists>w'. ds18b20_read_temperature g addr junk w = (Some (ds18b20_convert addr (take 8 (pad s))), w') \<and> has (map data_of (us @ s # vs)) w'"
  using read_scratchpad_one [OF assms(1-4), of junk] assms(5) by (auto simp: ds18b20_read_temperature_def)

lemma read_temperature_addressed:
  assumes "has ds w" "(addr_code addr, p, m) \<in> set ds" "distinct (map fst ds)" "addr \<noteq> DS18B20_ANY"
    and "length p = 9" "p ! 8 = onewire_crc8 (take 8 p)"
  shows "\<exists>w'. ds18b20_read_temperature g addr junk w = (Some (ds18b20_convert addr (take 8 p)), w') \<and> has ds w'"
proof -
  obtain ss where ss: "line_at ss w" "map data_of ss = ds" using assms(1) by (auto simp: has_def)
  then obtain s where "s \<in> set ss" "data_of s = (addr_code addr, p, m)" using assms(2) by auto
  then obtain us vs where s: "ss = us @ s # vs" "code s = addr_code addr" "pad s = p" by (auto simp: data_of_def dest: split_list)
  have "map fst ds = map code ss" unfolding ss(2) [symmetric] by (simp add: data_of_def)
  then have "distinct (map code (us @ s # vs))" using assms(3) by (simp only: s(1))
  then have "code s \<notin> code ` set (us @ vs)" by auto
  then have "code x \<noteq> code s" if "x \<in> set (us @ vs)" for x using imageI [OF that, of code] by metis
  then have "\<not> (addr = DS18B20_ANY \<or> code x = addr_code addr)" if "x \<in> set (us @ vs)" for x using that assms(4) s(2) by simp
  then show ?thesis
    using read_temperature_one [of us s vs w addr junk] ss s assms(5,6) by simp
qed

lemma read_multi:
  assumes "distinct (map fst ds)"
    and "\<And>a. a \<in> set as \<Longrightarrow> a \<noteq> DS18B20_ANY \<and> (\<exists>m. (addr_code a, t a, m) \<in> set ds) \<and> length (t a) = 9 \<and> t a ! 8 = onewire_crc8 (take 8 (t a))"
  shows "has ds w \<Longrightarrow> \<exists>w'. ds18b20_read_temp_multi g as junk w = (True, map (\<lambda>a. Some (ds18b20_convert a (take 8 (t a)))) as, w')"
  using assms(2)
proof (induction as arbitrary: w)
  case (Cons a as)
  obtain m where m: "(addr_code a, t a, m) \<in> set ds" "a \<noteq> DS18B20_ANY" "length (t a) = 9" "t a ! 8 = onewire_crc8 (take 8 (t a))"
    using Cons.prems(2) [of a] by auto
  obtain w1 where w1: "ds18b20_read_temperature g a junk w = (Some (ds18b20_convert a (take 8 (t a))), w1)" "has ds w1"
    using read_temperature_addressed [OF Cons.prems(1) m(1) assms(1) m(2-4)] by blast
  then show ?case using Cons.IH [OF w1(2)] Cons.prems(2) by fastforce
qed simp

lemma measure_and_read_multi:
  assumes "line_at ss w" "ss \<noteq> []" "distinct (map code ss)"
    and "\<And>a. a \<in> set as \<Longrightarrow> a \<noteq> DS18B20_ANY \<and> (\<exists>s \<in> set ss. code s = addr_code a \<and> measured s = t a)
      \<and> length (t a) = 9 \<and> t a ! 8 = onewire_crc8 (take 8 (t a))"
  shows "\<exists>w'. ds18b20_measure_and_read_multi g sleep as junk w = (True, map (\<lambda>a. Some (ds18b20_convert a (take 8 (t a)))) as, w')"
proof -
  let ?ds = "map data_of ss"
  have "has ?ds w" using assms(1) by (auto simp: has_def)
  then obtain w1 where w1: "ds18b20_measure g sleep DS18B20_ANY True w = (True, w1)" "has (map converted ?ds) w1"
    using measure_all [of ?ds w] assms(2) by auto
  have "map fst (map converted ?ds) = map code ss" by (simp add: converted_def data_of_def)
  then have d: "distinct (map fst (map converted ?ds))" using assms(3) by (simp only:)
  have "\<exists>m. (addr_code a, t a, m) \<in> set (map converted ?ds)" if a: "a \<in> set as" for a
  proof -
    obtain s where "s \<in> set ss" "code s = addr_code a" "measured s = t a" using assms(4) [OF a] by blast
    then have "(addr_code a, t a, t a) \<in> set (map converted ?ds)" by (force simp: converted_def data_of_def)
    then show ?thesis by blast
  qed
  then show ?thesis
    using read_multi [OF d _ w1(2), of as t junk] assms(4) w1(1) by (simp add: ds18b20_measure_and_read_multi_def)
qed

lemma measure_and_read_only:
  assumes "line_at [s] w" "length (measured s) = 9" "measured s ! 8 = onewire_crc8 (take 8 (measured s))"
  shows "\<exists>w'. ds18b20_measure_and_read g sleep DS18B20_ANY junk w = (Some (ds18b20_convert DS18B20_ANY (take 8 (measured s))), w')"
proof -
  have "has [data_of s] w" using assms(1) by (auto simp: has_def)
  then obtain w1 where w1: "ds18b20_measure g sleep DS18B20_ANY True w = (True, w1)" "has [converted (data_of s)] w1"
    using measure_all [of "[data_of s]" w] by auto
  then obtain s1 where s1: "line_at [s1] w1" "pad s1 = measured s" by (auto simp: has_def converted_def data_of_def)
  then show ?thesis
    using read_temperature_one [of "[]" s1 "[]" w1 DS18B20_ANY junk] assms(2,3) w1(1) by (auto simp: ds18b20_measure_and_read_def)
qed

end

section \<open>Properties\<close>

lemma raw_temp_take: "length p = 9 \<Longrightarrow> raw_temp (take 8 p) = raw_temp p"
  by (simp add: raw_temp_def)

text \<open>A scratchpad with its checksum: a temperature in sixteenths of a degree and the bytes of a sensor at rest.\<close>

definition sample_pad :: "byte list" where
  "sample_pad = [0x90, 0x01, 0x4b, 0x46, 0x7f, 0xff, 0x0c, 0x10, 0x33]"

definition frost_pad :: "byte list" where
  "frost_pad = [0xf8, 0xff, 0x4b, 0x46, 0x7f, 0xff, 0x0c, 0x10, 0xc3]"

definition sample_sensor :: "64 word \<Rightarrow> byte list \<Rightarrow> sensor" where
  "sample_sensor a p = \<lparr>code = addr_code a, pad = replicate 9 0, measured = p, expects = Deaf\<rparr>"

definition sample_sensors :: "sensor list \<Rightarrow> sensor_wire" where
  "sample_sensors ss = \<lparr>idle_high = True, since_edge = 0, low_from = 0, low_until = 0, sensors = ss\<rparr>"

lemma sample_at: "sensor_at ss (sample_sensors ss)"
  by (simp add: sensor_at_def sample_sensors_def)

lemma sample_crcs: "onewire_crc8 (take 8 sample_pad) = 0x33" "onewire_crc8 (take 8 frost_pad) = 0xc3"
  by code_simp+

text \<open>
  C27. \<open>ds18b20_measure_and_read_multi\<close> measures: on a line with any number of sensors it returns for every DS18B20
  in the list the temperature that this sensor measured, below zero as well. The sensors have their result as soon as
  the command is sent; that the wait after it is long enough for a real sensor is not part of the statement.
\<close>

theorem sensors_are_read:
  assumes "sensor_line g sleep line_at" "line_at ss w" "ss \<noteq> []" "distinct (map code ss)"
    and "\<And>a. a \<in> set as \<Longrightarrow> ucast a = DS18B20_FAMILY_ID \<and> (\<exists>s \<in> set ss. code s = addr_code a \<and> measured s = t a)
      \<and> length (t a) = 9 \<and> t a ! 8 = onewire_crc8 (take 8 (t a))"
  shows "\<exists>w'. ds18b20_measure_and_read_multi g sleep as junk w = (True, map (\<lambda>a. Some (of_int (sint (raw_temp (t a))) / 16)) as, w')"
proof -
  have "a \<noteq> DS18B20_ANY" if "ucast a = DS18B20_FAMILY_ID" for a :: "64 word"
    using that by (auto simp: DS18B20_ANY_def ONEWIRE_NONE_def DS18B20_FAMILY_ID_def)
  moreover have "map (\<lambda>a. Some (ds18b20_convert a (take 8 (t a)))) as = map (\<lambda>a. Some (of_int (sint (raw_temp (t a))) / 16)) as"
    using assms(5) by (auto simp: ds18b20_convert_def raw_temp_take)
  ultimately show ?thesis
    using sensor_line.measure_and_read_multi [OF assms(1-4), of as t junk] assms(5) by auto
qed

theorem sensors_are_read_witness:
  "\<exists>w'. ds18b20_measure_and_read_multi sensor_gpio sensor_sleep [0x2028] [] (sample_sensors [sample_sensor 0x1028 sample_pad, sample_sensor 0x2028 frost_pad])
     = (True, [Some (- 0.5)], w')"
proof -
  let ?ss = "[sample_sensor 0x1028 sample_pad, sample_sensor 0x2028 frost_pad]"
  have "addr_code 0x1028 \<noteq> addr_code 0x2028" by (simp add: addr_code_def addr_bytes_def lsb_bits_def upt_conv_Cons)
  then have "\<exists>w'. ds18b20_measure_and_read_multi sensor_gpio sensor_sleep [0x2028] [] (sample_sensors ?ss)
      = (True, map (\<lambda>a. Some (of_int (sint (raw_temp frost_pad)) / 16)) [0x2028 :: 64 word], w')"
    using sample_crcs(2)
    by (intro sensors_are_read [OF sensor_wire.sensor_line_axioms sample_at]) (auto simp: sample_sensor_def DS18B20_FAMILY_ID_def frost_pad_def)
  moreover have "sint (raw_temp frost_pad) = - 8" by (simp add: raw_temp_def frost_pad_def)
  ultimately show ?thesis by simp
qed

text \<open>
  The address that stands for the only sensor on the bus does not work with a DS18B20: its family is unknown
  and the formula of the DS18S20 is used, so that 25 degrees are reported as 199.75.
\<close>

theorem any_address_misreads:
  assumes "sensor_line g sleep line_at" "line_at [s] w" "measured s = sample_pad"
  shows "\<exists>w'. ds18b20_measure_and_read g sleep DS18B20_ANY junk w = (Some 199.75, w') \<and> of_int (sint (raw_temp sample_pad)) / 16 = (25 :: real)"
  using sensor_line.measure_and_read_only [OF assms(1,2), of junk] sample_crcs(1) assms(3)
  by (simp add: sample_pad_def ds18b20_convert_def DS18B20_ANY_def ONEWIRE_NONE_def DS18B20_FAMILY_ID_def raw_temp_def)

theorem any_address_misreads_witness:
  "\<exists>w'. ds18b20_measure_and_read sensor_gpio sensor_sleep DS18B20_ANY [] (sample_sensors [sample_sensor 0x1028 sample_pad]) = (Some 199.75, w')"
  using any_address_misreads [OF sensor_wire.sensor_line_axioms sample_at, of "sample_sensor 0x1028 sample_pad" "[]"]
  by (simp add: sample_sensor_def)

text \<open>
  The older functions read the temperature as an unsigned number: below zero they report 4096 degrees more
  than \<open>ds18b20_read_temperature\<close>.
\<close>

theorem unsigned_temp_below_zero:
  assumes "ucast a = DS18B20_FAMILY_ID" "sint (raw_temp p) < 0"
  shows "unsigned_temp p = ds18b20_convert a p + 4096"
proof -
  have "- 32768 \<le> sint (raw_temp p)" using sint_ge [of "raw_temp p"] by simp
  then have "(sint (raw_temp p) + 65536) mod 65536 = sint (raw_temp p) + 65536" using assms(2) by (intro mod_pos_pos_trivial) auto
  then have "int (unat (raw_temp p)) = sint (raw_temp p) + 65536" using uint_sint [of "raw_temp p"] by (simp add: take_bit_eq_mod)
  then have "real (unat (raw_temp p)) = of_int (sint (raw_temp p)) + 65536" by (metis of_int_add of_int_numeral of_int_of_nat_eq)
  then show ?thesis using assms(1) by (simp add: unsigned_temp_def ds18b20_convert_def)
qed

theorem unsigned_temp_below_zero_witness:
  "unsigned_temp frost_pad = ds18b20_convert 0x28 frost_pad + 4096"
  by (rule unsigned_temp_below_zero) (simp_all add: DS18B20_FAMILY_ID_def raw_temp_def frost_pad_def)

text \<open>
  The formula of the DS18S20 subtracts a quarter of a degree twice: the result is a quarter below the
  value \<open>T - 0.25 + (16 - remain) / 16\<close> of the data sheet, \<open>T\<close> being the reading without its half degree.
\<close>

theorem ds18s20_reads_low:
  assumes "ucast a \<noteq> DS18B20_FAMILY_ID" "raw_temp p = word_of_int (2 * t + h)" "h \<in> {0, 1}" "- 55 \<le> t" "t \<le> 125"
    and "unat (p ! 6) \<le> 16"
  shows "ds18b20_convert a p = (of_int t - 0.25 + (16 - of_nat (unat (p ! 6))) / 16) - 0.25"
proof -
  let ?r = "int (unat (p ! 6))"
  have m: "(word_of_int (2 * t + h) :: 16 word) AND 0xfffe = word_of_int (2 * t)"
  proof (rule bit_word_eqI)
    fix n assume n: "n < LENGTH(16)"
    have "(0xfffe :: 16 word) = NOT 1" by simp
    then have f: "bit (0xfffe :: 16 word) n \<longleftrightarrow> n \<noteq> 0" using n by (simp only: bit_not_iff bit_1_iff possible_bit_word) simp
    have "(2 * t + h) div 2 = t" using assms(3) by auto
    then have "bit (2 * t + h) n = bit (2 * t) n" if "n \<noteq> 0" using that by (cases n) (simp_all add: bit_Suc)
    moreover have "\<not> bit (2 * t) 0" by (simp add: bit_0)
    ultimately show "bit ((word_of_int (2 * t + h) :: 16 word) AND 0xfffe) n = bit (word_of_int (2 * t) :: 16 word) n"
      unfolding bit_and_iff bit_word_of_int_iff f using n by (cases "n = 0") blast+
  qed
  have "(ucast (p ! 6) :: 16 word) = word_of_int ?r" by (simp add: unsigned_ucast_eq)
  then have word: "push_bit 3 (raw_temp p AND 0xfffe) + (16 - ucast (p ! 6)) - 4 = (word_of_int (16 * t + (16 - ?r) - 4) :: 16 word)"
    unfolding assms(2) m by (simp add: push_bit_eq_mult)
  have fits: "sint (word_of_int k :: 16 word) = k" if "- 32768 \<le> k" "k < 32768" for k
    using that by (simp only: sint_sbintrunc') (simp add: signed_take_bit_int_eq_self)
  have "?r \<le> 16" using assms(6) by (metis of_nat_le_iff of_nat_numeral)
  then have "- 32768 \<le> 16 * t + (16 - ?r) - 4" "16 * t + (16 - ?r) - 4 < 32768" using assms(4,5) by linarith+
  then have "ds18b20_convert a p = of_int (16 * t + (16 - ?r) - 4) * 625 / 10000 - 0.25"
    using assms(1) by (simp only: ds18b20_convert_def Let_def if_False word fits)
  then show ?thesis by (simp add: field_simps)
qed

theorem ds18s20_reads_low_witness:
  "ds18b20_convert 0x10 [0x33, 0, 0, 0, 0, 0, 0x0c, 0x10] = 24.75"
  using ds18s20_reads_low [of "0x10" "[0x33, 0, 0, 0, 0, 0, 0x0c, 0x10]" 25 1] by (simp add: DS18B20_FAMILY_ID_def raw_temp_def)

end
