(* ===== verification/Softuart.thy ===== *)
theory Softuart
  imports Prelude "HOL-Library.Monad_Syntax"
begin

text \<open>
  The software UART \<open>src/extras/softuart/softuart.c\<close>: serial ports made of two pins each, a ring buffer that the
  interrupt handler of the receive pin fills, and the transmission of a byte by timed writes to the other
  pin. The state is the static array \<open>uarts\<close> together with the environment \<open>'e\<close>, which has the pins and the
  clock; a \<open>char\<close> is unsigned on this processor.
\<close>

section \<open>Data\<close>

definition SOFTUART_MAX_UARTS :: nat where "SOFTUART_MAX_UARTS = 2"
definition SOFTUART_MAX_RX_BUFF :: nat where "SOFTUART_MAX_RX_BUFF = 64"

record softuart_buffer =
  receive_buffer :: "byte list"
  receive_buffer_tail :: nat
  receive_buffer_head :: nat
  buffer_overflow :: bool

record softuart =
  rx_pin :: nat
  tx_pin :: nat
  baudrate :: nat
  buffer :: softuart_buffer
  bit_time :: nat

datatype gpio_inttype = GPIO_INTTYPE_NONE | GPIO_INTTYPE_EDGE_NEG
datatype gpio_direction = GPIO_INPUT | GPIO_OUTPUT

text \<open>What the driver uses of the pins and the clock. The handler of an interrupt is \<open>handle_rx\<close> or none.\<close>

record 'e uart_env =
  gpio_set_interrupt :: "nat \<Rightarrow> gpio_inttype \<Rightarrow> bool \<Rightarrow> 'e \<Rightarrow> 'e"
  gpio_enable :: "nat \<Rightarrow> gpio_direction \<Rightarrow> 'e \<Rightarrow> 'e"
  gpio_set_pullup :: "nat \<Rightarrow> bool \<Rightarrow> bool \<Rightarrow> 'e \<Rightarrow> 'e"
  gpio_write :: "nat \<Rightarrow> bool \<Rightarrow> 'e \<Rightarrow> 'e"
  gpio_read :: "nat \<Rightarrow> 'e \<Rightarrow> bool \<times> 'e"
  sdk_os_delay_us :: "nat \<Rightarrow> 'e \<Rightarrow> 'e"
  sdk_system_get_time :: "'e \<Rightarrow> nat \<times> 'e"

section \<open>The ring buffer\<close>

definition rx_store :: "byte \<Rightarrow> softuart_buffer \<Rightarrow> softuart_buffer" where
  "rx_store d b =
     (let next = u8 ((receive_buffer_tail b + 1) mod SOFTUART_MAX_RX_BUFF)
      in if next \<noteq> receive_buffer_head b
         then b\<lparr>receive_buffer := (receive_buffer b)[receive_buffer_tail b := d], receive_buffer_tail := next\<rparr>
         else b\<lparr>buffer_overflow := True\<rparr>)"

definition rx_count :: "softuart_buffer \<Rightarrow> nat" where
  "rx_count b = (receive_buffer_tail b + SOFTUART_MAX_RX_BUFF - receive_buffer_head b) mod SOFTUART_MAX_RX_BUFF"

definition rx_advance :: "softuart_buffer \<Rightarrow> softuart_buffer" where
  "rx_advance b = b\<lparr>receive_buffer_head := u8 ((receive_buffer_head b + 1) mod SOFTUART_MAX_RX_BUFF)\<rparr>"

definition rx_fetch :: "softuart_buffer \<Rightarrow> byte \<times> softuart_buffer" where
  "rx_fetch b =
     (if receive_buffer_head b = receive_buffer_tail b then (0, b)
      else let d = receive_buffer b ! receive_buffer_head b in (d, rx_advance b))"

section \<open>Waiting and sampling\<close>

text \<open>The 31 bits of the clock that are used.\<close>

definition time31 :: "'e uart_env \<Rightarrow> 'e \<Rightarrow> nat \<times> 'e" where
  "time31 E e = (case sdk_system_get_time E e of (t, e1) \<Rightarrow> (t mod 2 ^ 31, e1))"

text \<open>The loop that waits for \<open>start_time + bit_time * k\<close>; \<open>None\<close> is a clock that never gets there.\<close>

partial_function (option) wait_until :: "'e uart_env \<Rightarrow> nat \<Rightarrow> nat \<Rightarrow> 'e \<Rightarrow> 'e option" where
  "wait_until E start_time target e =
     (case time31 E e of
        (t1, e1) \<Rightarrow>
          if t1 < target
          then (case time31 E e1 of
                  (t2, e2) \<Rightarrow> if t2 < start_time then Some e2 else wait_until E start_time target e2)
          else Some e1)"

declare wait_until.simps [code]

text \<open>The loop over the bits \<open>i\<close> of a received byte.\<close>

fun sample_bits :: "'e uart_env \<Rightarrow> softuart \<Rightarrow> nat \<Rightarrow> nat list \<Rightarrow> byte \<Rightarrow> 'e \<Rightarrow> (byte \<times> 'e) option" where
  "sample_bits E uart start_time [] d e = Some (d, e)"
| "sample_bits E uart start_time (i # is) d e =
     do {
       e1 \<leftarrow> wait_until E start_time (u32 (start_time + bit_time uart * (i + 1))) e;
       let (v, e2) = gpio_read E (rx_pin uart) e1;
       let d1 = drop_bit 1 d;
       sample_bits E uart start_time is (if v then d1 OR 0x80 else d1) e2
     }"

text \<open>\<open>None\<close> is the result -1.\<close>

definition find_uart_by_rx :: "nat \<Rightarrow> softuart list \<Rightarrow> nat option" where
  "find_uart_by_rx pin uarts = List.find (\<lambda>i. baudrate (uarts ! i) \<noteq> 0 \<and> rx_pin (uarts ! i) = pin) [0..<SOFTUART_MAX_UARTS]"

definition handle_rx :: "'e uart_env \<Rightarrow> nat \<Rightarrow> softuart list \<Rightarrow> 'e \<Rightarrow> (softuart list \<times> 'e) option" where
  "handle_rx E gpio_num uarts e =
     (case find_uart_by_rx gpio_num uarts of
        None \<Rightarrow> Some (uarts, e)
      | Some uart_no \<Rightarrow>
          do {
            let uart = uarts ! uart_no;
            let e1 = sdk_os_delay_us E (bit_time uart div 2) (gpio_set_interrupt E gpio_num GPIO_INTTYPE_NONE True e);
            let (start_time, e2) = time31 E e1;
            (d, e3) \<leftarrow> sample_bits E uart start_time [0..<8] 0 e2;
            let e4 = sdk_os_delay_us E (bit_time uart) e3;
            Some (uarts[uart_no := uart\<lparr>buffer := rx_store d (buffer uart)\<rparr>], gpio_set_interrupt E (rx_pin uart) GPIO_INTTYPE_EDGE_NEG True e4)
          })"

section \<open>Interface\<close>

definition check_uart_no :: "nat \<Rightarrow> bool" where
  "check_uart_no uart_no \<longleftrightarrow> \<not> uart_no \<ge> SOFTUART_MAX_UARTS"

definition check_uart_enabled :: "nat \<Rightarrow> softuart list \<Rightarrow> bool" where
  "check_uart_enabled uart_no uarts \<longleftrightarrow> baudrate (uarts ! uart_no) \<noteq> 0"

definition softuart_close :: "'e uart_env \<Rightarrow> nat \<Rightarrow> softuart list \<Rightarrow> 'e \<Rightarrow> bool \<times> softuart list \<times> 'e" where
  "softuart_close E uart_no uarts e =
     (if \<not> check_uart_no uart_no then (False, uarts, e)
      else if baudrate (uarts ! uart_no) = 0 then (True, uarts, e)
      else (True, uarts[uart_no := (uarts ! uart_no)\<lparr>baudrate := 0\<rparr>],
            gpio_set_interrupt E (rx_pin (uarts ! uart_no)) GPIO_INTTYPE_NONE False e))"

text \<open>The time of a bit in microseconds, rounded; the difference is an unsigned number.\<close>

definition bit_time_of :: "nat \<Rightarrow> nat" where
  "bit_time_of baud =
     (let t = u16 (1000000 div baud)
      in if u32_sub (100000000 div baud) (100 * t) > 50 then u16 (t + 1) else t)"

definition shares_pins :: "nat \<Rightarrow> nat \<Rightarrow> nat \<Rightarrow> softuart list \<Rightarrow> nat \<Rightarrow> bool" where
  "shares_pins uart_no rx tx uarts i \<longleftrightarrow>
     (let u = uarts ! i
      in baudrate u \<noteq> 0 \<and> i \<noteq> uart_no \<and> (rx_pin u = rx \<or> tx_pin u = tx \<or> rx_pin u = tx \<or> tx_pin u = rx))"

definition softuart_open :: "'e uart_env \<Rightarrow> nat \<Rightarrow> nat \<Rightarrow> nat \<Rightarrow> nat \<Rightarrow> softuart list \<Rightarrow> 'e \<Rightarrow> bool \<times> softuart list \<times> 'e" where
  "softuart_open E uart_no baud rx tx uarts e =
     (if \<not> check_uart_no uart_no then (False, uarts, e)
      else if baud = 0 then (False, uarts, e)
      else if \<exists>i \<in> set [0..<SOFTUART_MAX_UARTS]. shares_pins uart_no rx tx uarts i then (False, uarts, e)
      else case softuart_close E uart_no uarts e of
        (_, us1, e1) \<Rightarrow>
          let uart = (us1 ! uart_no)\<lparr>baudrate := baud, rx_pin := rx, tx_pin := tx, bit_time := bit_time_of baud\<rparr>;
              e2 = gpio_set_pullup E rx True False (gpio_enable E rx GPIO_INPUT e1);
              e3 = gpio_write E tx True (gpio_set_pullup E tx True False (gpio_enable E tx GPIO_OUTPUT e2));
              e4 = sdk_os_delay_us E 1000 (gpio_set_interrupt E rx GPIO_INTTYPE_EDGE_NEG True e3)
          in (True, us1[uart_no := uart], e4))"

fun put_bits :: "'e uart_env \<Rightarrow> softuart \<Rightarrow> nat \<Rightarrow> byte \<Rightarrow> nat list \<Rightarrow> 'e \<Rightarrow> 'e option" where
  "put_bits E uart start_time c [] e = Some e"
| "put_bits E uart start_time c (i # is) e =
     do {
       e1 \<leftarrow> wait_until E start_time (u32 (start_time + bit_time uart * (i + 1))) e;
       put_bits E uart start_time c is (gpio_write E (tx_pin uart) (bit c i) e1)
     }"

definition softuart_put :: "'e uart_env \<Rightarrow> nat \<Rightarrow> byte \<Rightarrow> softuart list \<Rightarrow> 'e \<Rightarrow> (bool \<times> 'e) option" where
  "softuart_put E uart_no c uarts e =
     (if \<not> check_uart_no uart_no then Some (False, e)
      else if \<not> check_uart_enabled uart_no uarts then Some (False, e)
      else do {
        let uart = uarts ! uart_no;
        let (start_time, e1) = time31 E e;
        e2 \<leftarrow> put_bits E uart start_time c [0..<9] (gpio_write E (tx_pin uart) False e1);
        e3 \<leftarrow> wait_until E start_time (u32 (start_time + bit_time uart * 9)) e2;
        Some (True, sdk_os_delay_us E (bit_time uart * 6) (gpio_write E (tx_pin uart) True e3))
      })"

text \<open>The characters before the terminating zero.\<close>

fun softuart_puts :: "'e uart_env \<Rightarrow> nat \<Rightarrow> byte list \<Rightarrow> softuart list \<Rightarrow> 'e \<Rightarrow> (bool \<times> 'e) option" where
  "softuart_puts E uart_no [] uarts e = Some (True, e)"
| "softuart_puts E uart_no (c # s) uarts e =
     do {
       (ok, e1) \<leftarrow> softuart_put E uart_no c uarts e;
       if \<not> ok then Some (False, e1) else softuart_puts E uart_no s uarts e1
     }"

definition softuart_available :: "nat \<Rightarrow> softuart list \<Rightarrow> bool" where
  "softuart_available uart_no uarts =
     (if \<not> check_uart_no uart_no then False
      else if \<not> check_uart_enabled uart_no uarts then False
      else rx_count (buffer (uarts ! uart_no)) \<noteq> 0)"

definition softuart_read :: "nat \<Rightarrow> softuart list \<Rightarrow> byte \<times> softuart list" where
  "softuart_read uart_no uarts =
     (if \<not> check_uart_no uart_no then (0, uarts)
      else if \<not> check_uart_enabled uart_no uarts then (0, uarts)
      else case rx_fetch (buffer (uarts ! uart_no)) of
        (d, b) \<Rightarrow> (d, uarts[uart_no := (uarts ! uart_no)\<lparr>buffer := b\<rparr>]))"

end
