(* ===== verification/Softuart_Buffer.thy ===== *)
theory Softuart_Buffer
  imports Softuart "HOL-Library.Sublist"
begin

text \<open>
  The ring buffer as a queue. The locale \<open>bounded_fifo\<close> is the contract of a queue that drops what does not
  fit; the ring buffer is an instance. A task that reads is interrupted between any two accesses to the
  buffer by a handler that stores: the step relation \<open>rx_run\<close> has these interleavings.
\<close>

section \<open>A bounded queue\<close>

locale bounded_fifo =
  fixes ok :: "'q \<Rightarrow> bool" and elems :: "'q \<Rightarrow> 'a list" and cap :: nat
    and put :: "'a \<Rightarrow> 'q \<Rightarrow> 'q" and front :: "'q \<Rightarrow> 'a" and drop_front :: "'q \<Rightarrow> 'q" and lost :: "'q \<Rightarrow> bool"
  assumes put_ok: "ok q \<Longrightarrow> ok (put x q)"
    and put_elems: "ok q \<Longrightarrow> elems (put x q) = (if length (elems q) < cap then elems q @ [x] else elems q)"
    and put_lost: "ok q \<Longrightarrow> lost (put x q) \<longleftrightarrow> lost q \<or> \<not> length (elems q) < cap"
    and front_elems: "ok q \<Longrightarrow> elems q \<noteq> [] \<Longrightarrow> front q = hd (elems q)"
    and drop_ok: "ok q \<Longrightarrow> elems q \<noteq> [] \<Longrightarrow> ok (drop_front q)"
    and drop_elems: "ok q \<Longrightarrow> elems q \<noteq> [] \<Longrightarrow> elems (drop_front q) = tl (elems q)"
    and drop_lost: "lost (drop_front q) = lost q"
begin

text \<open>
  What has been put and taken, with a taker between its look at the queue and the removal: \<open>taking\<close> is
  the element it holds already.
\<close>

definition coherent :: "'a list \<Rightarrow> 'a list \<Rightarrow> 'q \<Rightarrow> bool" where
  "coherent inp out q \<longleftrightarrow> ok q \<and> length (elems q) \<le> cap \<and> subseq (out @ elems q) inp \<and> (\<not> lost q \<longrightarrow> out @ elems q = inp)"

lemma coherent_put:
  assumes "coherent inp out q"
  shows "coherent (inp @ [x]) out (put x q)"
proof -
  have q: "ok q" "length (elems q) \<le> cap" "subseq (out @ elems q) inp" "\<not> lost q \<Longrightarrow> out @ elems q = inp"
    using assms by (auto simp: coherent_def)
  show ?thesis
  proof (cases "length (elems q) < cap")
    case True
    have "subseq ((out @ elems q) @ [x]) (inp @ [x])" using q(3) by (simp only: subseq_append)
    then show ?thesis using q True by (simp add: coherent_def put_ok put_elems put_lost)
  next
    case False
    have "subseq (out @ elems q) (inp @ [x])" using q(3) by (rule subseq_rev_drop_many)
    then show ?thesis using q False by (simp add: coherent_def put_ok put_elems put_lost)
  qed
qed

lemma coherent_drop: "coherent inp out q \<Longrightarrow> elems q \<noteq> [] \<Longrightarrow> coherent inp (out @ [front q]) (drop_front q)"
  by (auto simp: coherent_def front_elems drop_ok drop_elems drop_lost)

lemma put_keeps_front: "ok q \<Longrightarrow> elems q \<noteq> [] \<Longrightarrow> elems (put x q) \<noteq> [] \<and> hd (elems (put x q)) = hd (elems q)"
  by (simp add: put_elems)

end

section \<open>The ring buffer is a bounded queue\<close>

definition rx_ok :: "softuart_buffer \<Rightarrow> bool" where
  "rx_ok b \<longleftrightarrow> length (receive_buffer b) = SOFTUART_MAX_RX_BUFF \<and> receive_buffer_tail b < SOFTUART_MAX_RX_BUFF
     \<and> receive_buffer_head b < SOFTUART_MAX_RX_BUFF"

definition rx_elems :: "softuart_buffer \<Rightarrow> byte list" where
  "rx_elems b = map (\<lambda>i. receive_buffer b ! ((receive_buffer_head b + i) mod SOFTUART_MAX_RX_BUFF)) [0..<rx_count b]"

text \<open>One place stays empty.\<close>

definition rx_room :: nat where
  "rx_room = SOFTUART_MAX_RX_BUFF - 1"

definition rx_front :: "softuart_buffer \<Rightarrow> byte" where
  "rx_front b = receive_buffer b ! receive_buffer_head b"

lemma count_cases:
  "rx_ok b \<Longrightarrow> rx_count b =
     (if receive_buffer_head b \<le> receive_buffer_tail b then receive_buffer_tail b - receive_buffer_head b
      else receive_buffer_tail b + SOFTUART_MAX_RX_BUFF - receive_buffer_head b)"
  by (auto simp: rx_ok_def rx_count_def SOFTUART_MAX_RX_BUFF_def mod_if)

lemma succ_cases:
  "t < SOFTUART_MAX_RX_BUFF \<Longrightarrow> u8 ((t + 1) mod SOFTUART_MAX_RX_BUFF) = (if t + 1 = SOFTUART_MAX_RX_BUFF then 0 else t + 1)"
  by (auto simp: SOFTUART_MAX_RX_BUFF_def u8_def)

lemma store_full:
  "rx_ok b \<Longrightarrow> u8 ((receive_buffer_tail b + 1) mod SOFTUART_MAX_RX_BUFF) = receive_buffer_head b
    \<longleftrightarrow> \<not> rx_count b < rx_room"
  using succ_cases [of "receive_buffer_tail b"] count_cases [of b]
  by (auto simp: rx_ok_def rx_room_def SOFTUART_MAX_RX_BUFF_def split: if_splits)

lemma store_count: "rx_ok b \<Longrightarrow> rx_count b < rx_room \<Longrightarrow> rx_count (rx_store d b) = Suc (rx_count b) \<and> rx_ok (rx_store d b)"
  using store_full [of b] succ_cases [of "receive_buffer_tail b"] count_cases [of b] count_cases [of "rx_store d b"]
  by (auto simp: rx_store_def Let_def rx_ok_def rx_room_def SOFTUART_MAX_RX_BUFF_def split: if_splits)

lemma wrapped: "x < 2 * n \<Longrightarrow> x mod n = (if x < n then x else x - n)" for x n :: nat
  by (simp add: le_mod_geq)

lemma index_is_tail: "rx_ok b \<Longrightarrow> (receive_buffer_head b + rx_count b) mod SOFTUART_MAX_RX_BUFF = receive_buffer_tail b"
  using count_cases [of b] by (simp add: wrapped rx_ok_def split: if_splits)

lemma index_not_tail: "rx_ok b \<Longrightarrow> i < rx_count b \<Longrightarrow> receive_buffer_tail b \<noteq> (receive_buffer_head b + i) mod SOFTUART_MAX_RX_BUFF"
  using count_cases [of b] wrapped [of "receive_buffer_head b + i" SOFTUART_MAX_RX_BUFF] by (auto simp: rx_ok_def split: if_splits)

lemma store_elems: "rx_ok b \<Longrightarrow> rx_count b < rx_room \<Longrightarrow> rx_elems (rx_store d b) = rx_elems b @ [d]"
  using store_count [of b d] store_full [of b] index_is_tail [of b] index_not_tail [of b]
  by (auto simp: rx_elems_def rx_store_def Let_def rx_ok_def)

lemma length_rx_elems [simp]: "length (rx_elems b) = rx_count b"
  by (simp add: rx_elems_def)

lemma empty_iff: "rx_ok b \<Longrightarrow> rx_elems b = [] \<longleftrightarrow> receive_buffer_head b = receive_buffer_tail b"
  using count_cases [of b] length_0_conv [of "rx_elems b"] by (auto simp: rx_ok_def split: if_splits)

lemma advance_count: "rx_ok b \<Longrightarrow> rx_count b \<noteq> 0 \<Longrightarrow> rx_ok (rx_advance b) \<and> rx_count b = Suc (rx_count (rx_advance b))"
  using succ_cases [of "receive_buffer_head b"] count_cases [of b] count_cases [of "rx_advance b"]
  by (auto simp: rx_advance_def rx_ok_def SOFTUART_MAX_RX_BUFF_def split: if_splits)

lemma advance_elems:
  assumes "rx_ok b" "rx_elems b \<noteq> []"
  shows "rx_elems b = rx_front b # rx_elems (rx_advance b)"
proof -
  have n: "rx_count b \<noteq> 0" using assms(2) length_rx_elems [of b] by (metis length_0_conv)
  have h: "receive_buffer_head b < SOFTUART_MAX_RX_BUFF" using assms(1) by (simp add: rx_ok_def)
  have "receive_buffer_head (rx_advance b) = (receive_buffer_head b + 1) mod SOFTUART_MAX_RX_BUFF"
    using h by (simp add: rx_advance_def u8_def SOFTUART_MAX_RX_BUFF_def)
  then have "(receive_buffer_head (rx_advance b) + i) mod SOFTUART_MAX_RX_BUFF = (receive_buffer_head b + Suc i) mod SOFTUART_MAX_RX_BUFF" for i
    by (simp add: mod_simps)
  moreover have "receive_buffer (rx_advance b) = receive_buffer b" by (simp add: rx_advance_def)
  ultimately show ?thesis
    using advance_count [OF assms(1) n] h by (simp add: rx_elems_def rx_front_def upt_conv_Cons map_Suc_upt [symmetric] comp_def del: upt_Suc)
qed

interpretation rx: bounded_fifo rx_ok rx_elems rx_room rx_store rx_front rx_advance buffer_overflow
proof
  fix b d assume b: "rx_ok b"
  note full = store_full [OF b]
  show "rx_ok (rx_store d b)"
    using b full store_count [OF b] by (cases "rx_count b < rx_room") (simp_all add: rx_store_def Let_def rx_ok_def)
  show "rx_elems (rx_store d b) = (if length (rx_elems b) < rx_room then rx_elems b @ [d] else rx_elems b)"
    using full store_elems [OF b] by (simp add: rx_store_def Let_def rx_elems_def rx_count_def)
  show "buffer_overflow (rx_store d b) \<longleftrightarrow> buffer_overflow b \<or> \<not> length (rx_elems b) < rx_room"
    using full by (auto simp: rx_store_def Let_def)
  assume n: "rx_elems b \<noteq> []"
  note e = advance_elems [OF b n]
  show "rx_front b = hd (rx_elems b)" "rx_elems (rx_advance b) = tl (rx_elems b)" by (simp_all add: e)
  show "rx_ok (rx_advance b)" using advance_count [OF b] n length_rx_elems [of b] by (metis length_0_conv)
qed (simp add: rx_advance_def)

section \<open>Reading while the handler stores\<close>

text \<open>
  Where \<open>softuart_read\<close> stands: before it looks at the indices, after it found them different, and after it
  took the byte.
\<close>

datatype read_point = Ready | Differs | Took byte

text \<open>
  \<open>rx_run inp out b p\<close>: the handler has been given the bytes \<open>inp\<close>, reads that found a byte have returned \<open>out\<close>. The
  handler is not interrupted by the task; it comes between any two steps of it.
\<close>

inductive rx_run :: "byte list \<Rightarrow> byte list \<Rightarrow> softuart_buffer \<Rightarrow> read_point \<Rightarrow> bool" where
  fresh: "rx_ok b \<Longrightarrow> receive_buffer_head b = receive_buffer_tail b \<Longrightarrow> \<not> buffer_overflow b \<Longrightarrow> rx_run [] [] b Ready"
| handler: "rx_run inp out b p \<Longrightarrow> rx_run (inp @ [d]) out (rx_store d b) p"
| look: "rx_run inp out b Ready \<Longrightarrow> receive_buffer_head b \<noteq> receive_buffer_tail b \<Longrightarrow> rx_run inp out b Differs"
| take: "rx_run inp out b Differs \<Longrightarrow> rx_run inp out b (Took (receive_buffer b ! receive_buffer_head b))"
| advance: "rx_run inp out b (Took d) \<Longrightarrow> rx_run inp (out @ [d]) (rx_advance b) Ready"

text \<open>Without interrupts the steps are those of \<open>softuart_read\<close>.\<close>

lemma fetch_steps:
  assumes "rx_run inp out b Ready" "receive_buffer_head b \<noteq> receive_buffer_tail b"
  shows "rx_run inp (out @ [fst (rx_fetch b)]) (snd (rx_fetch b)) Ready"
  using rx_run.advance [OF rx_run.take [OF rx_run.look [OF assms]]] assms(2) by (simp add: rx_fetch_def)

fun held_front :: "softuart_buffer \<Rightarrow> read_point \<Rightarrow> bool" where
  "held_front b Ready \<longleftrightarrow> True"
| "held_front b Differs \<longleftrightarrow> rx_elems b \<noteq> []"
| "held_front b (Took d) \<longleftrightarrow> rx_elems b \<noteq> [] \<and> d = hd (rx_elems b)"

lemma run_coherent: "rx_run inp out b p \<Longrightarrow> rx.coherent inp out b \<and> held_front b p"
proof (induction rule: rx_run.induct)
  case (fresh b)
  then show ?case using empty_iff [of b] by (simp add: rx.coherent_def)
next
  case (handler inp out b p d)
  then show ?case using rx.coherent_put rx.put_keeps_front [of b d] by (cases p) (auto simp: rx.coherent_def)
next
  case (look inp out b)
  then show ?case using empty_iff [of b] by (simp add: rx.coherent_def)
next
  case (take inp out b)
  then show ?case using rx.front_elems [of b] by (auto simp: rx.coherent_def rx_front_def)
next
  case (advance inp out b d)
  then show ?case using rx.coherent_drop [of inp out b] rx.front_elems [of b] by (auto simp: rx.coherent_def)
qed

text \<open>
  C30. Whatever the interleaving of \<open>softuart_read\<close> with the interrupt handler, the bytes it returns followed by those in
  the buffer are the received bytes in their order, each once; bytes are missing only when the
  overflow flag is set, and the indices stay inside the buffer.
\<close>

theorem reads_in_order:
  assumes "rx_run inp out b p"
  shows "(if buffer_overflow b then subseq (out @ rx_elems b) inp else out @ rx_elems b = inp)
    \<and> receive_buffer_head b < length (receive_buffer b) \<and> receive_buffer_tail b < length (receive_buffer b)"
  using run_coherent [OF assms] by (auto simp: rx.coherent_def rx_ok_def)

definition empty_buffer :: softuart_buffer where
  "empty_buffer = \<lparr>receive_buffer = replicate 64 0, receive_buffer_tail = 63, receive_buffer_head = 63, buffer_overflow = False\<rparr>"

theorem reads_in_order_witness:
  "\<exists>b p. rx_run [7, 8, 9] [7] b p \<and> [7] @ rx_elems b = [7, 8, 9]"
proof -
  have "rx_run [] [] empty_buffer Ready" by (rule rx_run.fresh) (simp_all add: empty_buffer_def rx_ok_def SOFTUART_MAX_RX_BUFF_def)
  then have "rx_run [7] [] (rx_store 7 empty_buffer) Ready" using rx_run.handler by fastforce
  then have "rx_run [7] [] (rx_store 7 empty_buffer) Differs"
    by (rule rx_run.look) (simp add: rx_store_def empty_buffer_def SOFTUART_MAX_RX_BUFF_def u8_def)
  then have "rx_run [7, 8] [] (rx_store 8 (rx_store 7 empty_buffer)) Differs" using rx_run.handler by fastforce
  then have "rx_run [7, 8] [] (rx_store 8 (rx_store 7 empty_buffer)) (Took 7)"
    using rx_run.take by (fastforce simp: rx_store_def empty_buffer_def SOFTUART_MAX_RX_BUFF_def u8_def)
  then have "rx_run [7, 8, 9] [] (rx_store 9 (rx_store 8 (rx_store 7 empty_buffer))) (Took 7)" using rx_run.handler by fastforce
  then have r: "rx_run [7, 8, 9] [7] (rx_advance (rx_store 9 (rx_store 8 (rx_store 7 empty_buffer)))) Ready" using rx_run.advance by fastforce
  moreover have "\<not> buffer_overflow (rx_advance (rx_store 9 (rx_store 8 (rx_store 7 empty_buffer))))"
    by (simp add: rx_store_def rx_advance_def empty_buffer_def SOFTUART_MAX_RX_BUFF_def u8_def)
  ultimately show ?thesis using reads_in_order [OF r] by (intro exI) auto
qed

text \<open>
  \<open>softuart_available\<close> and \<open>softuart_read\<close> on an open port: there is data exactly when the queue is not empty, and a read takes its
  first byte or returns zero.
\<close>

theorem read_takes_first:
  assumes "n < SOFTUART_MAX_UARTS" "n < length us" "baudrate (us ! n) \<noteq> 0" "rx_ok (buffer (us ! n))"
  shows "(softuart_available n us \<longleftrightarrow> rx_elems (buffer (us ! n)) \<noteq> []) \<and>
    (case rx_elems (buffer (us ! n)) of
       [] \<Rightarrow> softuart_read n us = (0, us)
     | d # ds \<Rightarrow> fst (softuart_read n us) = d \<and> rx_elems (buffer (snd (softuart_read n us) ! n)) = ds)"
proof -
  let ?b = "buffer (us ! n)"
  have "rx_count ?b \<noteq> 0 \<longleftrightarrow> rx_elems ?b \<noteq> []" using length_rx_elems [of ?b] by (metis length_0_conv)
  then have a: "softuart_available n us \<longleftrightarrow> rx_elems ?b \<noteq> []"
    using assms(1,3) by (simp add: softuart_available_def check_uart_no_def check_uart_enabled_def)
  have same: "(us ! n)\<lparr>buffer := ?b\<rparr> = us ! n" by simp
  show ?thesis
    using a assms empty_iff [OF assms(4)] advance_elems [OF assms(4)]
    by (auto simp: softuart_read_def check_uart_no_def check_uart_enabled_def rx_fetch_def Let_def rx_front_def same split: list.split)
qed

theorem read_takes_first_witness:
  "softuart_read 0 [\<lparr>rx_pin = 4, tx_pin = 5, baudrate = 9600, buffer = rx_store 7 empty_buffer, bit_time = 104\<rparr>]
     = (7, [\<lparr>rx_pin = 4, tx_pin = 5, baudrate = 9600, buffer = rx_advance (rx_store 7 empty_buffer), bit_time = 104\<rparr>])
   \<and> rx_elems (rx_store 7 empty_buffer) = [7]"
proof -
  let ?us = "[\<lparr>rx_pin = 4, tx_pin = 5, baudrate = 9600, buffer = rx_store 7 empty_buffer, bit_time = 104\<rparr>]"
  have ok: "rx_ok empty_buffer" "rx_elems empty_buffer = []"
    by (simp_all add: empty_buffer_def rx_ok_def rx_elems_def rx_count_def SOFTUART_MAX_RX_BUFF_def)
  have e: "rx_elems (rx_store 7 empty_buffer) = [7]" using rx.put_elems [OF ok(1)] ok(2) by (simp add: rx_room_def SOFTUART_MAX_RX_BUFF_def)
  then have "fst (softuart_read 0 ?us) = 7"
    using read_takes_first [of 0 ?us] rx.put_ok [OF ok(1)] by (simp add: SOFTUART_MAX_UARTS_def)
  then show ?thesis using e empty_iff [OF rx.put_ok [OF ok(1), of 7]]
    by (simp add: softuart_read_def rx_fetch_def check_uart_no_def check_uart_enabled_def SOFTUART_MAX_UARTS_def Let_def)
qed

end
