(* ===== verification/Softuart_Line.thy ===== *)
theory Softuart_Line
  imports Softuart_Buffer
begin

text \<open>
  Bytes on the wire. Time passes in processor cycles, \<open>F\<close> of them in a microsecond; a call to the system
  takes at most \<open>J\<close>. The locales say what the driver needs of the clock, of the receive pin and of the
  transmit pin. With a jitter that is small against the time of a bit, a byte sent by \<open>softuart_put\<close> is the
  byte stored by \<open>handle_rx\<close> on the other end of the line.
\<close>

section \<open>The clock\<close>

locale uart_clock =
  fixes E :: "'e uart_env" and now :: "'e \<Rightarrow> nat" and F J :: nat
  assumes F: "0 < F"
    and time_step: "sdk_system_get_time E e = (t, e') \<Longrightarrow> t = now e' div F mod 2 ^ 32 \<and> now e < now e' \<and> now e' \<le> now e + J"
    and delay_step: "now e + n * F \<le> now (sdk_os_delay_us E n e) \<and> now (sdk_os_delay_us E n e) \<le> now e + n * F + J"
    and interrupt_step: "now e \<le> now (gpio_set_interrupt E p k h e) \<and> now (gpio_set_interrupt E p k h e) \<le> now e + J"
begin

lemma time31_step:
  obtains e' where "time31 E e = (now e' div F mod 2 ^ 31, e')" "now e < now e'" "now e' \<le> now e + J"
proof -
  obtain t e' where te: "sdk_system_get_time E e = (t, e')" by fastforce
  have "t mod 2 ^ 31 = now e' div F mod 2 ^ 31" using time_step [OF te] by (simp add: mod_mod_cancel)
  then show ?thesis using that [of e'] time_step [OF te] by (simp add: time31_def te)
qed

text \<open>\<open>t\<close> cycles are in the \<open>q\<close>-th period of the 31 bit clock.\<close>

definition period :: "nat \<Rightarrow> nat" where
  "period t = t div F div 2 ^ 31"

lemma period_mono: "s \<le> t \<Longrightarrow> period s \<le> period t"
  by (simp add: period_def div_le_mono)

lemma period_between: "period s = q \<Longrightarrow> period u = q \<Longrightarrow> s \<le> t \<Longrightarrow> t \<le> u \<Longrightarrow> period t = q"
  using period_mono [of s t] period_mono [of t u] by simp

lemma period_us: "period (S * F) = S div 2 ^ 31"
  using F by (simp add: period_def)

lemma us_less: "t div F < S \<longleftrightarrow> t < S * F"
  using F by (simp add: div_less_iff_less_mult)

lemma clock_less:
  assumes "period t = q" "x div 2 ^ 31 = q"
  shows "t div F mod 2 ^ 31 < x mod 2 ^ 31 \<longleftrightarrow> t < x * F"
proof -
  have "t div F = q * 2 ^ 31 + t div F mod 2 ^ 31" "x = q * 2 ^ 31 + x mod 2 ^ 31"
    using assms div_mult_mod_eq [of "t div F" "2 ^ 31"] div_mult_mod_eq [of x "2 ^ 31"] by (simp_all add: period_def)
  then have "t div F mod 2 ^ 31 < x mod 2 ^ 31 \<longleftrightarrow> t div F < x" by linarith
  then show ?thesis using us_less by simp
qed

lemma target31: "S div 2 ^ 31 = q \<Longrightarrow> (S + d) div 2 ^ 31 = q \<Longrightarrow> u32 (S mod 2 ^ 31 + d) = (S + d) mod 2 ^ 31"
proof -
  assume "S div 2 ^ 31 = q" "(S + d) div 2 ^ 31 = q"
  then have "S mod 2 ^ 31 + d = (S + d) mod 2 ^ 31"
    using div_mult_mod_eq [of S "2 ^ 31"] div_mult_mod_eq [of "S + d" "2 ^ 31"] by simp
  moreover have "(S + d) mod 2 ^ 31 < 2 ^ 31" by simp
  ultimately show ?thesis by simp
qed

lemma wait_ends:
  assumes "S * F \<le> now e" "period (S * F) = q" "period (max (now e) ((S + d) * F) + 2 * J) = q"
  shows "\<exists>e'. wait_until E (S mod 2 ^ 31) (u32 (S mod 2 ^ 31 + d)) e = Some e'
    \<and> max (now e) ((S + d) * F) \<le> now e' \<and> now e' \<le> max (now e) ((S + d) * F) + 2 * J"
  using assms(1,3)
proof (induction "(S + d) * F - now e" arbitrary: e rule: less_induct)
  case less
  let ?T = "(S + d) * F" and ?till = "max (now e) ((S + d) * F) + 2 * J"
  have q: "period t = q" if "S * F \<le> t" "t \<le> ?till" for t using period_between [OF assms(2) less.prems(2) that] .
  have "S * F \<le> ?T" by simp
  then have D: "S div 2 ^ 31 = q" "(S + d) div 2 ^ 31 = q" using q [of ?T] period_us assms(2) by (simp_all only: period_us)
  let ?s = "S mod 2 ^ 31" and ?g = "u32 (S mod 2 ^ 31 + d)"
  have in_time: "now e' div F mod 2 ^ 31 < ?g \<longleftrightarrow> now e' < ?T" if "period (now e') = q" for e'
    unfolding target31 [OF D] by (rule clock_less [OF that D(2)])
  obtain e1 where e1: "time31 E e = (now e1 div F mod 2 ^ 31, e1)" "now e < now e1" "now e1 \<le> now e + J"
    by (rule time31_step)
  obtain e2 where e2: "time31 E e1 = (now e2 div F mod 2 ^ 31, e2)" "now e1 < now e2" "now e2 \<le> now e1 + J"
    by (rule time31_step)
  have p: "period (now e1) = q" "period (now e2) = q" using q e1 e2 less.prems(1) by simp_all
  have later: "\<not> now e2 div F mod 2 ^ 31 < ?s" unfolding clock_less [OF p(2) D(1)] using e1 e2 less.prems(1) by simp
  show ?case
  proof (cases "now e1 < ?T")
    case True
    then have step: "wait_until E ?s ?g e = wait_until E ?s ?g e2"
      unfolding wait_until.simps [of E ?s ?g e] e1(1) prod.case e2(1) in_time [OF p(1)] using later by (simp only: if_True if_False)
    show ?thesis
    proof (cases "now e2 \<le> ?T")
      case True
      have "max (now e2) ?T = ?T" "max (now e) ?T = ?T" using True e1 e2 by simp_all
      then show ?thesis
        using less.hyps [of e2] less.prems e1 e2 \<open>now e1 < ?T\<close> step by auto
    next
      case False
      obtain e3 where e3: "time31 E e2 = (now e3 div F mod 2 ^ 31, e3)" "now e2 < now e3" "now e3 \<le> now e2 + J"
        by (rule time31_step)
      have p3: "period (now e3) = q" using q [of "now e3"] e1 e2 e3 less.prems(1) \<open>now e1 < ?T\<close> by simp
      have "\<not> now e3 < ?T" using False e3(2) by simp
      then have "wait_until E ?s ?g e2 = Some e3"
        unfolding wait_until.simps [of E ?s ?g e2] e3(1) prod.case in_time [OF p3] by (simp only: if_False)
      then show ?thesis using step e1 e2 e3 False \<open>now e1 < ?T\<close> by simp
    qed
  next
    case False
    then have "wait_until E ?s ?g e = Some e1"
      unfolding wait_until.simps [of E ?s ?g e] e1(1) prod.case in_time [OF p(1)] by (simp only: if_False)
    then show ?thesis using False e1 by auto
  qed
qed

end

text \<open>What reads of the clock leave alone, a wait leaves alone.\<close>

lemma wait_keeps:
  assumes "\<And>e t e'. time31 E e = (t, e') \<Longrightarrow> f e' = f e"
  shows "wait_until E s g e = Some e' \<Longrightarrow> f e' = f e"
proof (rule wait_until.raw_induct [where P = "\<lambda>G s g e e'. G = E \<longrightarrow> f e' = f e", THEN mp])
  fix w G s g e e'
  assume IH: "\<And>G s g e e'. w G s g e = Some e' \<Longrightarrow> G = E \<longrightarrow> f e' = f e"
    and eq: "(case time31 G e of (t1, e1) \<Rightarrow> if t1 < g then (case time31 G e1 of (t2, e2) \<Rightarrow> if t2 < s then Some e2 else w G s g e2) else Some e1) = Some e'"
  obtain t1 e1 t2 e2 where t: "time31 G e = (t1, e1)" "time31 G e1 = (t2, e2)" by (meson surj_pair)
  show "G = E \<longrightarrow> f e' = f e" using eq IH assms t by (fastforce split: if_splits)
qed auto

section \<open>Reception\<close>

text \<open>The top \<open>k\<close> bits of \<open>d\<close> are the lower bits of \<open>c\<close>.\<close>

definition sampled :: "byte \<Rightarrow> nat \<Rightarrow> byte \<Rightarrow> bool" where
  "sampled c k d \<longleftrightarrow> (\<forall>j < k. bit d (8 - k + j) = bit c j)"

lemma sampled_8: "sampled c 8 d \<Longrightarrow> d = c"
  by (auto simp: sampled_def intro!: bit_word_eqI)

lemma bit_0x80: "bit (0x80 :: byte) n \<longleftrightarrow> n = 7"
proof -
  have "(0x80 :: byte) = push_bit 7 1" by simp
  then show ?thesis by (simp only: bit_push_bit_iff) (auto simp: bit_1_iff)
qed

lemma sampled_next:
  assumes "sampled c k d" "k < 8"
  shows "sampled c (Suc k) (if bit c k then drop_bit 1 d OR 0x80 else drop_bit 1 d)"
  unfolding sampled_def
proof (intro allI impI)
  fix j assume j: "j < Suc k"
  let ?d = "if bit c k then drop_bit 1 d OR 0x80 else drop_bit 1 d" and ?n = "8 - Suc k + j"
  have b: "bit ?d ?n \<longleftrightarrow> bit d (8 - k + j) \<or> bit c k \<and> ?n = 7"
  proof -
    have "1 + ?n = 8 - k + j" using assms(2) by simp
    then have "bit (drop_bit 1 d) ?n = bit d (8 - k + j)" by (simp only: bit_drop_bit_eq comp_def)
    then show ?thesis by (cases "bit c k") (simp_all only: if_True if_False bit_or_iff bit_0x80 simp_thms)
  qed
  show "bit ?d ?n = bit c j"
  proof (cases "j = k")
    case True
    then have "\<not> bit d (8 - k + j)" "?n = 7" using assms(2) by (simp_all add: bit_word.rep_eq)
    then show ?thesis using b True by simp
  next
    case False
    then have "?n \<noteq> 7" using j assms(2) by simp
    then show ?thesis using b False j assms(1) by (simp add: sampled_def)
  qed
qed

locale uart_input = uart_clock E now F J for E :: "'e uart_env" and now F J +
  fixes pin :: nat and line :: "nat \<Rightarrow> bool"
  assumes read_step: "gpio_read E pin e = (v, e') \<Longrightarrow> \<exists>t. now e \<le> t \<and> t \<le> now e' \<and> now e' \<le> now e + J \<and> v = line t"
begin

lemma sample_one:
  assumes "S * F \<le> now e" "period (S * F) = q" "period ((S + d) * F + 2 * J) = q" "now e \<le> (S + d) * F"
    and "\<And>t. (S + d) * F \<le> t \<Longrightarrow> t \<le> (S + d) * F + 3 * J \<Longrightarrow> line t = v"
  shows "\<exists>e1 e2. wait_until E (S mod 2 ^ 31) (u32 (S mod 2 ^ 31 + d)) e = Some e1 \<and> gpio_read E pin e1 = (v, e2)
    \<and> (S + d) * F \<le> now e2 \<and> now e2 \<le> (S + d) * F + 3 * J"
proof -
  have m: "max (now e) ((S + d) * F) = (S + d) * F" using assms(4) by simp
  obtain e1 where e1: "wait_until E (S mod 2 ^ 31) (u32 (S mod 2 ^ 31 + d)) e = Some e1" "(S + d) * F \<le> now e1" "now e1 \<le> (S + d) * F + 2 * J"
    using wait_ends [OF assms(1,2), of d] assms(3) unfolding m by blast
  obtain w e2 where e2: "gpio_read E pin e1 = (w, e2)" by fastforce
  obtain t where t: "now e1 \<le> t" "t \<le> now e2" "now e2 \<le> now e1 + J" "w = line t" using read_step [OF e2] by blast
  have "w = v" using assms(5) [of t] t e1 by simp
  then show ?thesis using e1 e2 t by auto
qed

lemma sample_byte:
  assumes "period (S * F) = q" "period ((S + bit_time u * 9) * F) = q" "3 * J \<le> bit_time u * F" "rx_pin u = pin"
    and "\<And>i t. i < 8 \<Longrightarrow> (S + bit_time u * (i + 1)) * F \<le> t \<Longrightarrow> t \<le> (S + bit_time u * (i + 1)) * F + 3 * J \<Longrightarrow> line t = bit c i"
  shows "k \<le> 8 \<Longrightarrow> sampled c k d \<Longrightarrow> S * F \<le> now e \<Longrightarrow> now e \<le> (S + bit_time u * (k + 1)) * F \<Longrightarrow>
    \<exists>e'. sample_bits E u (S mod 2 ^ 31) [k..<8] d e = Some (c, e') \<and> now e \<le> now e' \<and> now e' \<le> (S + bit_time u * 9) * F"
proof (induction "8 - k" arbitrary: k d e)
  case 0
  then have "k = 8" by simp
  then show ?case using 0 sampled_8 by auto
next
  case (Suc n)
  then have k: "k < 8" "n = 8 - Suc k" by simp_all
  let ?D = "bit_time u * (k + 1)"
  have up: "(S + ?D) * F + 3 * J \<le> (S + bit_time u * (Suc k + 1)) * F" using assms(3) by (simp add: algebra_simps)
  moreover have "bit_time u * (Suc k + 1) \<le> bit_time u * 9" using k(1) by (intro mult_le_mono) auto
  then have "(S + bit_time u * (Suc k + 1)) * F \<le> (S + bit_time u * 9) * F" by (intro mult_le_mono) auto
  ultimately have "(S + ?D) * F + 3 * J \<le> (S + bit_time u * 9) * F" by linarith
  moreover have "S * F \<le> (S + ?D) * F + 2 * J" by (simp add: algebra_simps)
  ultimately have "period ((S + ?D) * F + 2 * J) = q" by (intro period_between [OF assms(1,2)]) auto
  then obtain e1 e2 where e: "wait_until E (S mod 2 ^ 31) (u32 (S mod 2 ^ 31 + ?D)) e = Some e1" "gpio_read E pin e1 = (bit c k, e2)"
      "(S + ?D) * F \<le> now e2" "now e2 \<le> (S + ?D) * F + 3 * J"
    using sample_one [of S e q ?D "bit c k"] Suc.prems assms(1,5) k(1) by (metis (no_types, lifting))
  let ?d = "if bit c k then drop_bit 1 d OR 0x80 else drop_bit 1 d"
  have "S * F \<le> now e2" "now e \<le> now e2" using e(3) Suc.prems(4) by (simp_all add: algebra_simps)
  moreover have "sampled c (Suc k) ?d" using sampled_next Suc.prems(2) k(1) by blast
  ultimately obtain e' where e': "sample_bits E u (S mod 2 ^ 31) [Suc k..<8] ?d e2 = Some (c, e')" "now e2 \<le> now e'" "now e' \<le> (S + bit_time u * 9) * F"
    using Suc.hyps(1) [OF k(2), of ?d e2] e(4) up k(1) by auto
  have "[k..<8] = k # [Suc k..<8]" using k(1) by (simp add: upt_conv_Cons)
  then have "sample_bits E u (S mod 2 ^ 31) [k..<8] d e = Some (c, e')" using e e'(1) assms(4) by (simp add: Let_def del: One_nat_def)
  then show ?case using e'(2,3) \<open>now e \<le> now e2\<close> by auto
qed

lemma handler_start:
  assumes "find_uart_by_rx pin us = Some n" "u = us ! n"
  obtains S e2 where "S * F \<le> now e2" "now e2 < S * F + F" "now e + bit_time u div 2 * F < S * F + F" "S * F \<le> now e + bit_time u div 2 * F + 3 * J"
    "now e2 \<le> now e + bit_time u div 2 * F + 3 * J" "\<forall>c e3. sample_bits E u (S mod 2 ^ 31) [0..<8] 0 e2 = Some (c, e3) \<longrightarrow> (\<exists>e'. handle_rx E pin us e = Some (us[n := u\<lparr>buffer := rx_store c (buffer u)\<rparr>], e'))"
proof -
  let ?h = "bit_time u div 2"
  let ?e1 = "sdk_os_delay_us E ?h (gpio_set_interrupt E pin GPIO_INTTYPE_NONE True e)"
  have e1: "now e + ?h * F \<le> now ?e1" "now ?e1 \<le> now e + ?h * F + 2 * J"
    using delay_step [of "gpio_set_interrupt E pin GPIO_INTTYPE_NONE True e" ?h] interrupt_step [of e pin GPIO_INTTYPE_NONE True] by linarith+
  obtain e2 where e2: "time31 E ?e1 = (now e2 div F mod 2 ^ 31, e2)" "now ?e1 < now e2" "now e2 \<le> now ?e1 + J"
    by (rule time31_step)
  define S where "S = now e2 div F"
  have "now e2 = S * F + now e2 mod F" "now e2 mod F < F" using F by (simp_all add: S_def)
  then have S: "S * F \<le> now e2" "now e2 < S * F + F" by linarith+
  show ?thesis
  proof (rule that [OF S])
    show "now e + ?h * F < S * F + F" "S * F \<le> now e + ?h * F + 3 * J" "now e2 \<le> now e + ?h * F + 3 * J" using S e1 e2 by linarith+
  qed (use assms e2(1) in \<open>simp add: handle_rx_def S_def Let_def\<close>)
qed

lemma found_pin: "find_uart_by_rx p us = Some n \<Longrightarrow> rx_pin (us ! n) = p"
  by (auto simp: find_uart_by_rx_def find_Some_iff)

lemma handler_stores:
  assumes "find_uart_by_rx pin us = Some n" "u = us ! n" "3 * J \<le> bit_time u * F" "2 \<le> bit_time u"
    and "period (now e) = q" "period (now e + (bit_time u div 2 + bit_time u * 9) * F + 3 * J) = q"
    and "\<And>i t. i < 8 \<Longrightarrow> now e + (bit_time u div 2 + bit_time u * (i + 1)) * F \<le> t + F \<Longrightarrow>
      t \<le> now e + (bit_time u div 2 + bit_time u * (i + 1)) * F + 6 * J \<Longrightarrow> line t = bit c i"
  shows "\<exists>e'. handle_rx E pin us e = Some (us[n := u\<lparr>buffer := rx_store c (buffer u)\<rparr>], e')"
proof -
  let ?h = "bit_time u div 2"
  obtain S e2 where S: "S * F \<le> now e2" "now e2 < S * F + F" and lo: "now e + ?h * F < S * F + F" and hi: "S * F \<le> now e + ?h * F + 3 * J" and "now e2 \<le> now e + ?h * F + 3 * J"
    and rx: "\<forall>c e3. sample_bits E u (S mod 2 ^ 31) [0..<8] 0 e2 = Some (c, e3) \<longrightarrow> (\<exists>e'. handle_rx E pin us e = Some (us[n := u\<lparr>buffer := rx_store c (buffer u)\<rparr>], e'))"
    by (rule handler_start [OF assms(1,2), of e])
  have "1 \<le> ?h" using assms(4) by simp
  then have "F \<le> ?h * F" using mult_le_mono1 [of 1 ?h F] by simp
  then have "now e \<le> S * F" using lo by linarith
  moreover have "(S + bit_time u * 9) * F \<le> now e + (?h + bit_time u * 9) * F + 3 * J" using hi by (simp add: algebra_simps)
  ultimately have p: "period (S * F) = q" "period ((S + bit_time u * 9) * F) = q"
    using period_between [OF assms(5,6)] by (simp_all add: algebra_simps)
  have v: "line t = bit c i" if i: "i < 8" and t: "(S + bit_time u * (i + 1)) * F \<le> t" "t \<le> (S + bit_time u * (i + 1)) * F + 3 * J" for i t
  proof -
    have d: "(x + bit_time u * (i + 1)) * F = x * F + bit_time u * (i + 1) * F" for x by (simp add: algebra_simps)
    show ?thesis by (rule assms(7) [OF i]) (use t lo hi in \<open>unfold d, linarith+\<close>)
  qed
  have "F \<le> bit_time u * F" using mult_le_mono1 [of 1 "bit_time u" F] assms(4) by simp
  then have "now e2 \<le> (S + bit_time u * 1) * F" using S unfolding add_mult_distrib nat_mult_1_right by linarith
  then obtain e3 where "sample_bits E u (S mod 2 ^ 31) [0..<8] 0 e2 = Some (c, e3)"
    using sample_byte [OF p assms(3) _ v, of 0 0 e2] found_pin [OF assms(1)] assms(2) S(1) by (auto simp: sampled_def)
  then show ?thesis using rx by blast
qed

end

section \<open>Reception while the clock wraps\<close>

context uart_clock
begin

lemma wait_wraps:
  assumes W: "W = (S div 2 ^ 31 + 1) * 2 ^ 31 * F" and d: "2 ^ 31 \<le> S mod 2 ^ 31 + d" "S mod 2 ^ 31 + d < 2 ^ 32"
    and e: "S * F \<le> now e" "max (now e) W + 2 * J < W + S mod 2 ^ 31 * F"
  shows "\<exists>e'. wait_until E (S mod 2 ^ 31) (u32 (S mod 2 ^ 31 + d)) e = Some e' \<and> max (now e) W \<le> now e' \<and> now e' \<le> max (now e) W + 2 * J"
  using e
proof (induction "W - now e" arbitrary: e rule: less_induct)
  case less
  let ?s = "S mod 2 ^ 31" and ?g = "u32 (S mod 2 ^ 31 + d)"
  obtain e1 where e1: "time31 E e = (now e1 div F mod 2 ^ 31, e1)" "now e < now e1" "now e1 \<le> now e + J"
    by (rule time31_step)
  obtain e2 where e2: "time31 E e1 = (now e2 div F mod 2 ^ 31, e2)" "now e1 < now e2" "now e2 \<le> now e1 + J"
    by (rule time31_step)
  have "now e1 div F mod 2 ^ 31 < 2 ^ 31" by (rule mod_less_divisor) simp
  also have "2 ^ 31 \<le> ?g" using d by simp
  finally have early: "now e1 div F mod 2 ^ 31 < ?g" .
  have wraps: "now e2 div F mod 2 ^ 31 < ?s \<longleftrightarrow> W \<le> now e2"
  proof (cases "W \<le> now e2")
    case True
    let ?q = "S div 2 ^ 31 + 1" and ?n = "now e2 div F"
    have "now e2 < W + ?s * F" using less.prems(2) e1 e2 by simp
    then have "now e2 < (?q * 2 ^ 31 + ?s) * F" unfolding W by (simp only: add_mult_distrib)
    then have "?n < ?q * 2 ^ 31 + ?s" using us_less by blast
    moreover have "?q * 2 ^ 31 \<le> ?n" using True us_less [of "now e2" "?q * 2 ^ 31"] unfolding W by linarith
    ultimately have "?n - ?q * 2 ^ 31 < ?s" "?n = ?q * 2 ^ 31 + (?n - ?q * 2 ^ 31)" by linarith+
    moreover have "?s < 2 ^ 31" by (rule mod_less_divisor) simp
    ultimately have "?n mod 2 ^ 31 = ?n - ?q * 2 ^ 31" by (metis mod_less mod_mult_self3 order.strict_trans)
    then show ?thesis using \<open>?n - ?q * 2 ^ 31 < ?s\<close> True by simp
  next
    case False
    have "S div 2 ^ 31 = period (S * F)" using period_us by simp
    moreover have "now e2 div F < (S div 2 ^ 31 + 1) * 2 ^ 31" using False us_less [of "now e2"] unfolding W by (metis linorder_not_le)
    then have "period (now e2) < S div 2 ^ 31 + 1" unfolding period_def by (simp add: div_less_iff_less_mult)
    moreover have "period (S * F) \<le> period (now e2)" using less.prems(1) e1 e2 by (intro period_mono) simp
    ultimately have "period (now e2) = S div 2 ^ 31" by linarith
    then show ?thesis using clock_less [of "now e2" _ S] less.prems(1) e1 e2 False by auto
  qed
  show ?case
  proof (cases "W \<le> now e2")
    case True
    then have "wait_until E ?s ?g e = Some e2"
      unfolding wait_until.simps [of E ?s ?g e] e1(1) prod.case e2(1) wraps using early by (simp only: if_True)
    then show ?thesis using True e1 e2 by auto
  next
    case False
    then have step: "wait_until E ?s ?g e = wait_until E ?s ?g e2"
      unfolding wait_until.simps [of E ?s ?g e] e1(1) prod.case e2(1) wraps using early by (simp only: if_True if_False)
    have "max (now e2) W = W" "max (now e) W = W" using False e1 e2 by simp_all
    then show ?thesis using less.hyps [of e2] less.prems e1 e2 False unfolding step by auto
  qed
qed

end

context uart_input
begin

lemma sample_wrapped:
  assumes W: "W = (S div 2 ^ 31 + 1) * 2 ^ 31 * F" and d: "2 ^ 31 \<le> S mod 2 ^ 31 + bit_time u" "S mod 2 ^ 31 + bit_time u * 8 < 2 ^ 32"
    and far: "W + 26 * J < W + S mod 2 ^ 31 * F" and pin: "rx_pin u = pin"
    and v: "\<And>t. W \<le> t \<Longrightarrow> t \<le> W + 24 * J \<Longrightarrow> line t = v"
  shows "k \<le> 8 \<Longrightarrow> sampled (if v then 0xff else 0) k x \<Longrightarrow> S * F \<le> now e \<Longrightarrow> now e \<le> W + 3 * k * J \<Longrightarrow>
    \<exists>e'. sample_bits E u (S mod 2 ^ 31) [k..<8] x e = Some (if v then 0xff else 0, e')"
proof (induction "8 - k" arbitrary: k x e)
  case 0
  then have "k = 8" by simp
  then show ?case using 0 sampled_8 by auto
next
  case (Suc n)
  then have k: "k < 8" "n = 8 - Suc k" by simp_all
  have J: "3 * k * J \<le> 21 * J" using k(1) by (intro mult_le_mono) auto
  have "bit_time u \<le> bit_time u * (k + 1)" "bit_time u * (k + 1) \<le> bit_time u * 8" using k(1) by (auto intro: mult_le_mono)
  then have dk: "2 ^ 31 \<le> S mod 2 ^ 31 + bit_time u * (k + 1)" "S mod 2 ^ 31 + bit_time u * (k + 1) < 2 ^ 32" using d by linarith+
  have m: "max (now e) W \<le> W + 3 * k * J" using Suc.prems(4) by simp
  then have "max (now e) W + 2 * J < W + S mod 2 ^ 31 * F" using far J by linarith
  then obtain e1 where e1: "wait_until E (S mod 2 ^ 31) (u32 (S mod 2 ^ 31 + bit_time u * (k + 1))) e = Some e1" "max (now e) W \<le> now e1" "now e1 \<le> max (now e) W + 2 * J"
    using wait_wraps [OF W dk Suc.prems(3)] by blast
  obtain w e2 where e2: "gpio_read E pin e1 = (w, e2)" by fastforce
  obtain t where t: "now e1 \<le> t" "t \<le> now e2" "now e2 \<le> now e1 + J" "w = line t" using read_step [OF e2] by blast
  have "W \<le> t" "t \<le> W + 24 * J" using t e1 m J by linarith+
  then have w: "w = v" using v t(4) by simp
  have "bit (if v then 0xff else 0 :: byte) k = v"
  proof -
    have "(0xff :: byte) = - 1" by simp
    then show ?thesis using k(1) by (simp only: split: if_split) (simp add: possible_bit_word)
  qed
  then have s: "sampled (if v then 0xff else 0) (Suc k) (if w then drop_bit 1 x OR 0x80 else drop_bit 1 x)"
    using sampled_next [OF Suc.prems(2) k(1)] w by simp
  have "3 * Suc k * J = 3 * k * J + 3 * J" by (simp add: algebra_simps)
  then have "now e2 \<le> W + 3 * Suc k * J" "S * F \<le> now e2" using t e1 m Suc.prems(3) by linarith+
  then obtain e' where "sample_bits E u (S mod 2 ^ 31) [Suc k..<8] (if w then drop_bit 1 x OR 0x80 else drop_bit 1 x) e2 = Some (if v then 0xff else 0, e')"
    using Suc.hyps(1) [OF k(2) _ s, of e2] k(1) by auto
  moreover have "[k..<8] = k # [Suc k..<8]" using k(1) by (simp add: upt_conv_Cons)
  ultimately show ?case using e1(1) e2 pin by (simp add: Let_def del: One_nat_def)
qed

lemma handler_wrapped:
  assumes "find_uart_by_rx pin us = Some n" "u = us ! n" "8 * J + F < bit_time u div 2 * F" "bit_time u < 2 ^ 16"
    and W: "W = (q + 1) * 2 ^ 31 * F" "q * 2 ^ 31 * F \<le> now e" "now e + bit_time u div 2 * F + 3 * J < W" "W + F \<le> now e + (bit_time u div 2 + bit_time u) * F"
    and v: "\<And>t. W \<le> t \<Longrightarrow> t \<le> W + 24 * J \<Longrightarrow> line t = v"
  shows "\<exists>e'. handle_rx E pin us e = Some (us[n := u\<lparr>buffer := rx_store (if v then 0xff else 0) (buffer u)\<rparr>], e')"
proof -
  let ?b = "bit_time u" and ?h = "bit_time u div 2"
  obtain S e2 where S: "S * F \<le> now e2" "now e2 < S * F + F" and lo: "now e + ?h * F < S * F + F" and hi: "S * F \<le> now e + ?h * F + 3 * J" and hi2: "now e2 \<le> now e + ?h * F + 3 * J"
    and rx: "\<forall>c e3. sample_bits E u (S mod 2 ^ 31) [0..<8] 0 e2 = Some (c, e3) \<longrightarrow> (\<exists>e'. handle_rx E pin us e = Some (us[n := u\<lparr>buffer := rx_store c (buffer u)\<rparr>], e'))"
    by (rule handler_start [OF assms(1,2), of e])
  have "F < ?h * F" using assms(3) by linarith
  then have "q * 2 ^ 31 * F \<le> S * F" using lo W(2) by linarith
  then have "q * 2 ^ 31 \<le> S" using F by simp
  moreover have "S * F < (q + 1) * 2 ^ 31 * F" using hi W(1,3) by linarith
  then have "S < (q + 1) * 2 ^ 31" using F by simp
  ultimately have q: "S div 2 ^ 31 = q" by (intro div_nat_eqI) (simp_all add: algebra_simps)
  have "(q + 1) * 2 ^ 31 * F < (S + ?b) * F" using lo W(1,4) unfolding add_mult_distrib by linarith
  then have "(q + 1) * 2 ^ 31 < S + ?b" by (simp only: mult_less_cancel2)
  then have d: "2 ^ 31 \<le> S mod 2 ^ 31 + ?b" using q div_mult_mod_eq [of S "2 ^ 31"] by simp
  have m: "S mod 2 ^ 31 < 2 ^ 31" by (rule mod_less_divisor) simp
  have d8: "S mod 2 ^ 31 + ?b * 8 < 2 ^ 32" using m assms(4) by simp
  have "4 * ?b \<le> S mod 2 ^ 31" using d assms(4) by simp
  then have "4 * ?b * F \<le> S mod 2 ^ 31 * F" by (rule mult_le_mono1)
  moreover have "?h * F \<le> ?b * F" by (simp add: mult_le_mono1)
  ultimately have far: "W + 26 * J < W + S mod 2 ^ 31 * F" using assms(3) by linarith
  have "now e2 \<le> W" using hi2 W(3) by linarith
  then obtain e3 where "sample_bits E u (S mod 2 ^ 31) [0..<8] 0 e2 = Some (if v then 0xff else 0, e3)"
    using sample_wrapped [OF _ d d8 far _ v, of 0 0 e2] q W(1) S(1) found_pin [OF assms(1)] assms(2) by (auto simp: sampled_def)
  then show ?thesis using rx by blast
qed

end

section \<open>Transmission\<close>

locale uart_output = uart_clock E now F J for E :: "'e uart_env" and now F J +
  fixes pin :: nat and wave :: "'e \<Rightarrow> (nat \<times> bool) list"
  assumes write_step: "\<exists>t. now e \<le> t \<and> t \<le> now (gpio_write E pin v e) \<and> now (gpio_write E pin v e) \<le> now e + J
      \<and> wave (gpio_write E pin v e) = wave e @ [(t, v)]"
    and time_wave: "sdk_system_get_time E e = (t, e') \<Longrightarrow> wave e' = wave e"
    and delay_wave: "wave (sdk_os_delay_us E n e) = wave e"
begin

lemma time31_wave:
  obtains e' where "time31 E e = (now e' div F mod 2 ^ 31, e')" "now e < now e'" "now e' \<le> now e + J" "wave e' = wave e"
proof -
  obtain e' where e': "time31 E e = (now e' div F mod 2 ^ 31, e')" "now e < now e'" "now e' \<le> now e + J"
    by (rule time31_step)
  have "wave e' = wave e" using e'(1) time_wave [of e] by (auto simp: time31_def split: prod.splits)
  then show ?thesis using that e' by blast
qed

lemma time31_keeps: "time31 E e = (t, e') \<Longrightarrow> wave e' = wave e"
  using time_wave by (auto simp: time31_def split: prod.splits)

lemma wait_wave: "wait_until E s g e = Some e' \<Longrightarrow> wave e' = wave e"
  by (rule wait_keeps [where f = wave]) (rule time31_keeps)

lemma write_one:
  assumes "S * F \<le> now e" "period (S * F) = q" "period ((S + d) * F + 2 * J) = q" "now e \<le> (S + d) * F"
  shows "\<exists>e1 t. wait_until E (S mod 2 ^ 31) (u32 (S mod 2 ^ 31 + d)) e = Some e1 \<and> wave (gpio_write E pin v e1) = wave e @ [(t, v)]
    \<and> (S + d) * F \<le> t \<and> t \<le> now (gpio_write E pin v e1) \<and> now (gpio_write E pin v e1) \<le> (S + d) * F + 3 * J"
proof -
  have m: "max (now e) ((S + d) * F) = (S + d) * F" using assms(4) by simp
  obtain e1 where e1: "wait_until E (S mod 2 ^ 31) (u32 (S mod 2 ^ 31 + d)) e = Some e1" "(S + d) * F \<le> now e1" "now e1 \<le> (S + d) * F + 2 * J"
    using wait_ends [OF assms(1,2), of d] assms(3) unfolding m by blast
  obtain t where "now e1 \<le> t" "t \<le> now (gpio_write E pin v e1)" "now (gpio_write E pin v e1) \<le> now e1 + J"
      "wave (gpio_write E pin v e1) = wave e1 @ [(t, v)]"
    using write_step by blast
  then show ?thesis using e1 wait_wave [OF e1(1)] by (intro exI [of _ e1] exI [of _ t]) simp
qed

text \<open>The writes happen at \<open>ts i\<close>, at most three calls late.\<close>

definition on_time :: "nat \<Rightarrow> nat \<Rightarrow> nat \<Rightarrow> (nat \<Rightarrow> nat) \<Rightarrow> bool" where
  "on_time S b k ts \<longleftrightarrow> (\<forall>i. k \<le> i \<longrightarrow> i < 9 \<longrightarrow> (S + b * (i + 1)) * F \<le> ts i \<and> ts i \<le> (S + b * (i + 1)) * F + 3 * J)"

lemma put_bits_wave:
  assumes "period (S * F) = q" "period ((S + bit_time u * 9) * F + 5 * J) = q" "3 * J \<le> bit_time u * F" "tx_pin u = pin"
  shows "k \<le> 9 \<Longrightarrow> S * F \<le> now e \<Longrightarrow> now e \<le> (S + bit_time u * (k + 1)) * F \<Longrightarrow>
    \<exists>e' ts. put_bits E u (S mod 2 ^ 31) c [k..<9] e = Some e' \<and> wave e' = wave e @ map (\<lambda>i. (ts i, bit c i)) [k..<9]
      \<and> on_time S (bit_time u) k ts \<and> now e \<le> now e' \<and> (k < 9 \<longrightarrow> now e' \<le> (S + bit_time u * 9) * F + 3 * J)"
proof (induction "9 - k" arbitrary: k e)
  case 0
  then have "k = 9" by simp
  then show ?case using 0 by (auto simp: on_time_def)
next
  case (Suc n)
  then have k: "k < 9" "n = 9 - Suc k" by simp_all
  let ?D = "bit_time u * (k + 1)"
  have "?D \<le> bit_time u * 9" using k(1) by (intro mult_le_mono) auto
  then have "(S + ?D) * F \<le> (S + bit_time u * 9) * F" by (intro mult_le_mono) auto
  then have "(S + ?D) * F + 2 * J \<le> (S + bit_time u * 9) * F + 5 * J" by linarith
  moreover have "S * F \<le> (S + ?D) * F + 2 * J" by (simp add: algebra_simps)
  ultimately have "period ((S + ?D) * F + 2 * J) = q" using period_between [OF assms(1,2)] by blast
  then obtain e1 t where e: "wait_until E (S mod 2 ^ 31) (u32 (S mod 2 ^ 31 + ?D)) e = Some e1"
      "wave (gpio_write E pin (bit c k) e1) = wave e @ [(t, bit c k)]" "(S + ?D) * F \<le> t" "t \<le> now (gpio_write E pin (bit c k) e1)"
      "now (gpio_write E pin (bit c k) e1) \<le> (S + ?D) * F + 3 * J"
    using write_one [OF Suc.prems(2) assms(1) _ Suc.prems(3), of "bit c k"] by blast
  let ?e = "gpio_write E pin (bit c k) e1"
  have "S * F \<le> now ?e" "now e \<le> now ?e" using e(3,4) Suc.prems(3) by (simp_all add: algebra_simps)
  moreover have "now ?e \<le> (S + bit_time u * (Suc k + 1)) * F" using e(5) assms(3) by (simp add: algebra_simps)
  ultimately obtain e' ts where e': "put_bits E u (S mod 2 ^ 31) c [Suc k..<9] ?e = Some e'" "wave e' = wave ?e @ map (\<lambda>i. (ts i, bit c i)) [Suc k..<9]"
      "on_time S (bit_time u) (Suc k) ts" "now ?e \<le> now e'" "Suc k < 9 \<longrightarrow> now e' \<le> (S + bit_time u * 9) * F + 3 * J"
    using Suc.hyps(1) [OF k(2), of ?e] k(1) by auto
  have split: "[k..<9] = k # [Suc k..<9]" using k(1) by (simp add: upt_conv_Cons)
  have "now e' \<le> (S + bit_time u * 9) * F + 3 * J"
  proof (cases "Suc k < 9")
    case False
    then have "Suc k = 9" using k(1) by simp
    then show ?thesis using e'(1) e(5) by simp
  qed (use e'(5) in simp)
  moreover have "wave e' = wave e @ map (\<lambda>i. ((ts(k := t)) i, bit c i)) [k..<9]" unfolding split using e'(2) e(2) by simp
  moreover have "on_time S (bit_time u) k (ts(k := t))" using e'(3) e(3,4,5) by (auto simp: on_time_def)
  moreover have "put_bits E u (S mod 2 ^ 31) c [k..<9] e = Some e'" unfolding split using e(1) e'(1) assms(4) by simp
  ultimately show ?case using \<open>now e \<le> now ?e\<close> e'(4) k(1) by (intro exI [of _ e'] exI [of _ "ts(k := t)"]) simp
qed

lemma put_wave:
  assumes "n < SOFTUART_MAX_UARTS" "baudrate (us ! n) \<noteq> 0" "u = us ! n" "tx_pin u = pin" "3 * J \<le> bit_time u * F" "F + J \<le> bit_time u * F"
    and "period (now e) = q" "period (now e + bit_time u * 9 * F + 6 * J) = q"
  shows "\<exists>e' S T0 ts T1. softuart_put E n c us e = Some (True, e')
    \<and> wave e' = wave e @ (T0, False) # map (\<lambda>i. (ts i, bit c i)) [0..<9] @ [(T1, True)]
    \<and> now e \<le> T0 \<and> T0 \<le> now e + 2 * J \<and> S * F \<le> T0 \<and> T0 \<le> S * F + F + J \<and> on_time S (bit_time u) 0 ts \<and> (S + bit_time u * 9) * F \<le> T1"
proof -
  obtain e1 where e1: "time31 E e = (now e1 div F mod 2 ^ 31, e1)" "now e < now e1" "now e1 \<le> now e + J" "wave e1 = wave e"
    by (rule time31_wave)
  define S where "S = now e1 div F"
  have "now e1 = S * F + now e1 mod F" "now e1 mod F < F" using F by (simp_all add: S_def)
  then have S: "S * F \<le> now e1" "now e1 < S * F + F" by linarith+
  have pn: "period (now e1) = q" using period_between [OF assms(7,8), of "now e1"] e1 by simp
  then have p1: "period (S * F) = q" using period_us [of S] by (simp add: period_def S_def)
  have "(S + bit_time u * 9) * F + 5 * J = S * F + bit_time u * 9 * F + 5 * J" by (simp add: algebra_simps)
  then have "(S + bit_time u * 9) * F + 5 * J \<le> now e + bit_time u * 9 * F + 6 * J" using S e1(3) by linarith
  moreover have "S * F \<le> (S + bit_time u * 9) * F + 5 * J" by (simp add: algebra_simps)
  ultimately have p2: "period ((S + bit_time u * 9) * F + 5 * J) = q" using period_between [OF p1 assms(8)] by blast
  obtain T0 where T0: "now e1 \<le> T0" "T0 \<le> now (gpio_write E pin False e1)" "now (gpio_write E pin False e1) \<le> now e1 + J"
      "wave (gpio_write E pin False e1) = wave e1 @ [(T0, False)]"
    using write_step by blast
  let ?e1 = "gpio_write E pin False e1"
  have "now ?e1 \<le> (S + bit_time u * 1) * F" unfolding add_mult_distrib nat_mult_1_right using S T0(3) assms(6) by linarith
  moreover have "S * F \<le> now ?e1" using S T0 by linarith
  ultimately obtain e2 ts where e2: "put_bits E u (S mod 2 ^ 31) c [0..<9] ?e1 = Some e2" "wave e2 = wave ?e1 @ map (\<lambda>i. (ts i, bit c i)) [0..<9]"
      "on_time S (bit_time u) 0 ts" "now ?e1 \<le> now e2" "now e2 \<le> (S + bit_time u * 9) * F + 3 * J"
    using put_bits_wave [OF p1 p2 assms(5,4), of 0 ?e1 c] by auto
  have "max (now e2) ((S + bit_time u * 9) * F) + 2 * J \<le> (S + bit_time u * 9) * F + 5 * J" using e2(5) by simp
  moreover have "S * F \<le> max (now e2) ((S + bit_time u * 9) * F) + 2 * J" by (simp add: algebra_simps)
  ultimately have "period (max (now e2) ((S + bit_time u * 9) * F) + 2 * J) = q" using period_between [OF p1 p2] by blast
  then obtain e3 where e3: "wait_until E (S mod 2 ^ 31) (u32 (S mod 2 ^ 31 + bit_time u * 9)) e2 = Some e3" "(S + bit_time u * 9) * F \<le> now e3"
    using wait_ends [OF _ p1, of e2 "bit_time u * 9"] \<open>S * F \<le> now ?e1\<close> e2(4) by auto
  obtain T1 where T1: "now e3 \<le> T1" "wave (gpio_write E pin True e3) = wave e3 @ [(T1, True)]" using write_step by blast
  have "softuart_put E n c us e = Some (True, sdk_os_delay_us E (bit_time u * 6) (gpio_write E pin True e3))"
    using assms(1-4) e1(1) e2(1) e3(1) by (simp add: softuart_put_def check_uart_no_def check_uart_enabled_def S_def)
  moreover have "wave (sdk_os_delay_us E (bit_time u * 6) (gpio_write E pin True e3))
      = wave e @ (T0, False) # map (\<lambda>i. (ts i, bit c i)) [0..<9] @ [(T1, True)]"
    using delay_wave T1(2) wait_wave [OF e3(1)] e2(2) T0(4) e1(4) by simp
  moreover have "T0 \<le> S * F + F + J" "S * F \<le> T0" "(S + bit_time u * 9) * F \<le> T1" "now e \<le> T0" "T0 \<le> now e + 2 * J"
    using S T0 T1(1) e1 e3(2) by linarith+
  ultimately show ?thesis using e2(3) by blast
qed

end

section \<open>The level of the line\<close>

text \<open>The level at a time is the last value written up to it; a line that nobody has driven is high.\<close>

definition level :: "(nat \<times> bool) list \<Rightarrow> nat \<Rightarrow> bool" where
  "level w t = (let past = filter (\<lambda>(s, v). s \<le> t) w in past = [] \<or> snd (last past))"

lemma level_last: "s \<le> t \<Longrightarrow> (\<And>s' v'. (s', v') \<in> set w' \<Longrightarrow> t < s') \<Longrightarrow> level (w @ (s, v) # w') t = v"
proof -
  assume "s \<le> t" "\<And>s' v'. (s', v') \<in> set w' \<Longrightarrow> t < s'"
  then have "filter (\<lambda>(s, v). s \<le> t) w' = []" by (fastforce simp: filter_empty_conv)
  then show ?thesis using \<open>s \<le> t\<close> by (simp add: level_def Let_def)
qed

lemma level_of_bit:
  assumes "i < 8" "ts i \<le> t" "\<And>j. i < j \<Longrightarrow> j < 9 \<Longrightarrow> t < ts j" "t < T1"
  shows "level (w @ (T0, False) # map (\<lambda>i. (ts i, bit c i)) [0..<9] @ [(T1, True)]) t = bit c i"
proof -
  let ?f = "\<lambda>i. (ts i, bit c i)"
  have "[0..<9] = [0..<i] @ i # [Suc i..<9]" using assms(1) upt_add_eq_append [of 0 i "9 - i"] by (simp add: upt_conv_Cons)
  then have "level (w @ (T0, False) # map ?f [0..<9] @ [(T1, True)]) t
      = level ((w @ (T0, False) # map ?f [0..<i]) @ (ts i, bit c i) # map ?f [Suc i..<9] @ [(T1, True)]) t" by simp
  also have "\<dots> = bit c i" by (rule level_last) (use assms in auto)
  finally show ?thesis .
qed

section \<open>Two chips\<close>

text \<open>A chip with a clock of one cycle per microsecond, on which every call takes a cycle, and a line driven by \<open>w\<close>.\<close>

record uart_chip =
  cycles :: nat
  writes :: "(nat \<times> bool) list"

definition tick :: "nat \<Rightarrow> uart_chip \<Rightarrow> uart_chip" where
  "tick n e = e\<lparr>cycles := cycles e + n\<rparr>"

definition chip_env :: "nat \<Rightarrow> nat \<Rightarrow> (nat \<times> bool) list \<Rightarrow> uart_chip uart_env" where
  "chip_env pin z w = \<lparr>
     gpio_set_interrupt = (\<lambda>p k h. tick 1), gpio_enable = (\<lambda>p d. tick 1), gpio_set_pullup = (\<lambda>p a b. tick 1),
     gpio_write = (\<lambda>p v e. tick 1 (if p = pin then e\<lparr>writes := writes e @ [(cycles e, v)]\<rparr> else e)),
     gpio_read = (\<lambda>p e. (level w (cycles e + z), tick 1 e)),
     sdk_os_delay_us = tick, sdk_system_get_time = (\<lambda>e. ((cycles e + 1) mod 2 ^ 32, tick 1 e))\<rparr>"

interpretation chip_in: uart_input "chip_env p z w" cycles 1 1 pin "\<lambda>t. level w (t + z)"
  by unfold_locales (auto simp: chip_env_def tick_def)

interpretation chip_out: uart_output "chip_env pin z w" cycles 1 1 pin writes
  by unfold_locales (auto simp: chip_env_def tick_def)

section \<open>Properties\<close>

text \<open>
  C29. A byte crosses the line: \<open>softuart_put\<close> returns, and a receiver with the same time of a bit, whose clock runs at the
  same rate with any offset and whose interrupt comes within one call of the falling edge, hands exactly this byte to
  \<open>rx_store\<close>, which keeps it unless the buffer is full, if eight calls take less than half a bit and neither clock passes
  a multiple of 2^31 microseconds meanwhile. (\<open>byte_lost_at_wrap\<close> below shows what happens then.)
\<close>

theorem byte_crosses_line:
  assumes tx: "uart_output E now F J txp wave" and rx: "\<And>w. uart_input (E' w) now' F J rxp (\<lambda>t. level w (t + z))"
    and ports: "n < SOFTUART_MAX_UARTS" "baudrate (us ! n) \<noteq> 0" "tx_pin (us ! n) = txp" "find_uart_by_rx rxp vs = Some m"
    and rate: "bit_time (us ! n) = b" "bit_time (vs ! m) = b" "8 * J + F < b div 2 * F"
    and no_wrap: "now e div F div 2 ^ 31 = (now e + b * 9 * F + 6 * J) div F div 2 ^ 31"
  shows "\<exists>e1 T0 w'. softuart_put E n c us e = Some (True, e1) \<and> wave e1 = wave e @ (T0, False) # w' \<and> now e \<le> T0 \<and> T0 \<le> now e + 2 * J \<and>
    (\<forall>a. T0 \<le> now' a + z \<and> now' a + z \<le> T0 + J \<and> now' a div F div 2 ^ 31 = (now' a + (b div 2 + b * 9) * F + 3 * J) div F div 2 ^ 31
       \<longrightarrow> (\<exists>a'. handle_rx (E' (wave e1)) rxp vs a = Some (vs[m := (vs ! m)\<lparr>buffer := rx_store c (buffer (vs ! m))\<rparr>], a')))"
proof -
  have F: "0 < F" using tx by (simp add: uart_output_def uart_clock_def)
  have h: "b div 2 * F \<le> b * F" "2 * (b div 2 * F) \<le> b * F" by (simp_all add: mult_le_mono1)
  have J: "3 * J \<le> b * F" "F + J \<le> b * F" using rate(3) h(1) by linarith+
  have period: "uart_clock.period F t = t div F div 2 ^ 31" for t
    using uart_clock.period_def [OF uart_output.axioms(1) [OF tx]] .
  obtain e1 S T0 ts T1 where e1: "softuart_put E n c us e = Some (True, e1)"
      "wave e1 = wave e @ (T0, False) # map (\<lambda>i. (ts i, bit c i)) [0..<9] @ [(T1, True)]"
      "S * F \<le> T0" "T0 \<le> S * F + F + J" "uart_output.on_time F J S b 0 ts" "(S + b * 9) * F \<le> T1" "now e \<le> T0" "T0 \<le> now e + 2 * J"
    using uart_output.put_wave [OF tx ports(1,2) refl ports(3), unfolded rate(1) period, OF J refl no_wrap [symmetric], of c] by blast
  have ts: "(S + b * (i + 1)) * F \<le> ts i" "ts i \<le> (S + b * (i + 1)) * F + 3 * J" if "i < 9" for i
    using e1(5) that uart_output.on_time_def [OF tx] by simp_all
  have seen: "level (wave e1) (t + z) = bit c i"
    if i: "i < 8" and a: "T0 \<le> a + z" "a + z \<le> T0 + J"
      and t: "a + (b div 2 + b * (i + 1)) * F \<le> t + F" "t \<le> a + (b div 2 + b * (i + 1)) * F + 6 * J" for a i t
  proof -
    let ?B = "b * (i + 1) * F" and ?h = "b div 2 * F"
    have d: "(b div 2 + b * (i + 1)) * F = ?h + ?B" "(S + b * (i + 1)) * F = S * F + ?B" by (simp_all add: algebra_simps)
    have later: "S * F + ?B + b * F \<le> (S + b * (j + 1)) * F" if "i < j" for j
    proof -
      have "b * (i + 2) * F \<le> b * (j + 1) * F" using that by (intro mult_le_mono) auto
      then show ?thesis by (simp add: algebra_simps)
    qed
    have lo: "ts i \<le> t + z" using ts(2) [of i] i t(1) a(1) e1(3) rate(3) unfolding d by linarith
    have hi: "t + z < S * F + ?B + b * F" using t(2) a(2) e1(4) rate(3) h(2) unfolding d by linarith
    have "t + z < ts j" if "i < j" "j < 9" for j using hi later [OF that(1)] ts(1) [OF that(2)] by linarith
    moreover have "t + z < T1" using hi later [of 8] i e1(6) by simp
    ultimately show ?thesis unfolding e1(2) using i lo by (intro level_of_bit) auto
  qed
  have "2 \<le> b" using rate(3) by (cases "b < 2") auto
  have "\<exists>a'. handle_rx (E' (wave e1)) rxp vs a = Some (vs[m := (vs ! m)\<lparr>buffer := rx_store c (buffer (vs ! m))\<rparr>], a')"
    if a: "T0 \<le> now' a + z" "now' a + z \<le> T0 + J" "now' a div F div 2 ^ 31 = (now' a + (b div 2 + b * 9) * F + 3 * J) div F div 2 ^ 31" for a
    by (rule uart_input.handler_stores [OF rx ports(4) refl, where q = "now' a div F div 2 ^ 31", unfolded rate(2) period])
       (use J a seen \<open>2 \<le> b\<close> in auto)
  then show ?thesis using e1(1,2,7,8) by blast
qed

definition sample_uart :: softuart where
  "sample_uart = \<lparr>rx_pin = 4, tx_pin = 5, baudrate = 9600, buffer = empty_buffer, bit_time = 104\<rparr>"

theorem byte_crosses_line_witness:
  "\<exists>e1 a a'. softuart_put (chip_env 5 0 []) 0 0x55 [sample_uart] \<lparr>cycles = 10, writes = []\<rparr> = Some (True, e1)
     \<and> handle_rx (chip_env 5 7 (writes e1)) 4 [sample_uart] a = Some ([sample_uart\<lparr>buffer := rx_store 0x55 empty_buffer\<rparr>], a')"
proof -
  let ?e = "\<lparr>cycles = 10, writes = []\<rparr>"
  have f: "find_uart_by_rx 4 [sample_uart] = Some 0"
    by (simp add: find_uart_by_rx_def SOFTUART_MAX_UARTS_def sample_uart_def upt_conv_Cons)
  obtain e1 T0 w' where e1: "softuart_put (chip_env 5 0 []) 0 0x55 [sample_uart] ?e = Some (True, e1)" "10 \<le> T0" "T0 \<le> 12"
    and rx: "\<And>a. T0 \<le> cycles a + 7 \<and> cycles a + 7 \<le> T0 + 1 \<and>
         cycles a div 1 div 2 ^ 31 = (cycles a + (104 div 2 + 104 * 9) * 1 + 3 * 1) div 1 div 2 ^ 31 \<Longrightarrow>
         \<exists>a'. handle_rx (chip_env 5 7 (writes e1)) 4 [sample_uart] a
           = Some ([sample_uart][0 := ([sample_uart] ! 0)\<lparr>buffer := rx_store 0x55 (buffer ([sample_uart] ! 0))\<rparr>], a')"
    using byte_crosses_line [OF chip_out.uart_output_axioms [of 5 0 "[]"] chip_in.uart_input_axioms [of 5 7 _ 4], of 0 "[sample_uart]" "[sample_uart]" 0 104 ?e "0x55"] f
    by (auto simp: sample_uart_def SOFTUART_MAX_UARTS_def)
  let ?a = "\<lparr>cycles = T0 - 7, writes = []\<rparr>"
  have "\<exists>a'. handle_rx (chip_env 5 7 (writes e1)) 4 [sample_uart] ?a = Some ([sample_uart\<lparr>buffer := rx_store 0x55 empty_buffer\<rparr>], a')"
    using rx [of ?a] e1(2,3) by (simp add: sample_uart_def)
  then show ?thesis using e1(1) by blast
qed

text \<open>
  A byte that arrives when the clock passes a multiple of 2^31 microseconds is lost: when this happens between the
  middle of the start bit and that of the first bit, the waits end at once, all eight samples are taken in a
  row, and the byte stored is 0x00 or 0xff.
\<close>

theorem byte_lost_at_wrap:
  assumes "uart_input E now F J pin line" "find_uart_by_rx pin us = Some n" "bit_time (us ! n) = b" "8 * J + F < b div 2 * F" "b < 2 ^ 16"
    and "W = (q + 1) * 2 ^ 31 * F" "q * 2 ^ 31 * F \<le> now e" "now e + b div 2 * F + 3 * J < W" "W + F \<le> now e + (b div 2 + b) * F"
    and "\<And>t. W \<le> t \<Longrightarrow> t \<le> W + 24 * J \<Longrightarrow> line t = v"
  shows "\<exists>e'. handle_rx E pin us e = Some (us[n := (us ! n)\<lparr>buffer := rx_store (if v then 0xff else 0) (buffer (us ! n))\<rparr>], e')"
  by (rule uart_input.handler_wrapped [OF assms(1,2) refl, unfolded assms(3), OF assms(4-10)])

theorem byte_lost_at_wrap_witness:
  "\<exists>e'. handle_rx (chip_env 5 0 [(2147483543, False)]) 4 [sample_uart] \<lparr>cycles = 2147483544, writes = []\<rparr>
     = Some ([sample_uart\<lparr>buffer := rx_store 0 empty_buffer\<rparr>], e')"
  using byte_lost_at_wrap [OF chip_in.uart_input_axioms [of 5 0 "[(2147483543, False)]" 4], of "[sample_uart]" 0 104 "2 ^ 31" 0 "\<lparr>cycles = 2147483544, writes = []\<rparr>" False]
  by (simp add: find_uart_by_rx_def SOFTUART_MAX_UARTS_def sample_uart_def upt_conv_Cons level_def)

end
