(* ===== verification/Softuart_Ports.thy ===== *)
theory Softuart_Ports
  imports Softuart
begin

text \<open>The table of the serial ports: no two open ports share a pin, and the time of a bit is the rounded one.\<close>

definition pins :: "softuart \<Rightarrow> nat set" where
  "pins u = {rx_pin u, tx_pin u}"

definition ports_apart :: "softuart list \<Rightarrow> bool" where
  "ports_apart us \<longleftrightarrow> length us = SOFTUART_MAX_UARTS \<and>
     (\<forall>i < length us. \<forall>j < length us. i \<noteq> j \<longrightarrow> baudrate (us ! i) \<noteq> 0 \<longrightarrow> baudrate (us ! j) \<noteq> 0 \<longrightarrow> pins (us ! i) \<inter> pins (us ! j) = {})"

lemma apart_update:
  assumes "ports_apart us" "n < length us"
    and "\<And>i. i < length us \<Longrightarrow> i \<noteq> n \<Longrightarrow> baudrate u \<noteq> 0 \<Longrightarrow> baudrate (us ! i) \<noteq> 0 \<Longrightarrow> pins u \<inter> pins (us ! i) = {}"
  shows "ports_apart (us[n := u])"
  using assms by (auto simp: ports_apart_def nth_list_update Int_commute)

lemma close_keeps_apart: "ports_apart us \<Longrightarrow> ports_apart (fst (snd (softuart_close E n us e)))"
  by (auto simp: softuart_close_def check_uart_no_def ports_apart_def nth_list_update)

lemma close_nth: "i \<noteq> n \<Longrightarrow> fst (snd (softuart_close E n us e)) ! i = us ! i"
  by (simp add: softuart_close_def)

text \<open>
  \<open>softuart_open\<close> and \<open>softuart_close\<close> keep the open ports on disjoint pins; a port is opened exactly when its number and
  rate are valid and its pins are not used by another open port.
\<close>

theorem open_keeps_apart:
  assumes "ports_apart us" "softuart_open E n baud rx tx us e = (ok, us', e')"
  shows "ports_apart us' \<and> ports_apart (fst (snd (softuart_close E n us e))) \<and>
    (ok \<longleftrightarrow> n < SOFTUART_MAX_UARTS \<and> baud \<noteq> 0 \<and>
       (\<forall>i < SOFTUART_MAX_UARTS. i \<noteq> n \<longrightarrow> baudrate (us ! i) \<noteq> 0 \<longrightarrow> {rx, tx} \<inter> pins (us ! i) = {}))"
proof -
  have len: "length us = SOFTUART_MAX_UARTS" using assms(1) by (simp add: ports_apart_def)
  have shared: "(\<exists>i \<in> set [0..<SOFTUART_MAX_UARTS]. shares_pins n rx tx us i)
      \<longleftrightarrow> \<not> (\<forall>i < SOFTUART_MAX_UARTS. i \<noteq> n \<longrightarrow> baudrate (us ! i) \<noteq> 0 \<longrightarrow> {rx, tx} \<inter> pins (us ! i) = {})"
    by (auto simp: shares_pins_def pins_def Let_def)
  let ?us = "fst (snd (softuart_close E n us e))"
  have ap: "ports_apart ?us" by (rule close_keeps_apart [OF assms(1)])
  have len': "length ?us = SOFTUART_MAX_UARTS" using ap by (simp add: ports_apart_def)
  show ?thesis
  proof (cases "n < SOFTUART_MAX_UARTS \<and> baud \<noteq> 0 \<and> \<not> (\<exists>i \<in> set [0..<SOFTUART_MAX_UARTS]. shares_pins n rx tx us i)")
    case True
    let ?u = "(?us ! n)\<lparr>baudrate := baud, rx_pin := rx, tx_pin := tx, bit_time := bit_time_of baud\<rparr>"
    have "us' = ?us[n := ?u]" "ok"
      using assms(2) True by (auto simp: softuart_open_def check_uart_no_def Let_def case_prod_beta)
    moreover have "ports_apart (?us[n := ?u])"
      using True shared len' by (intro apart_update [OF ap]) (auto simp: pins_def close_nth)
    ultimately show ?thesis using True shared ap by blast
  next
    case False
    then have "softuart_open E n baud rx tx us e = (False, us, e)"
      unfolding softuart_open_def check_uart_no_def by (simp only: linorder_not_le split: if_split) blast
    then have "us' = us" "\<not> ok" using assms(2) by simp_all
    then show ?thesis using False shared ap assms(1) by blast
  qed
qed

definition closed_port :: softuart where
  "closed_port = \<lparr>rx_pin = 0, tx_pin = 0, baudrate = 0, buffer = \<lparr>receive_buffer = replicate 64 0, receive_buffer_tail = 0, receive_buffer_head = 0, buffer_overflow = False\<rparr>, bit_time = 0\<rparr>"

definition idle_env :: "unit uart_env" where
  "idle_env = \<lparr>gpio_set_interrupt = (\<lambda>p k h e. e), gpio_enable = (\<lambda>p d e. e), gpio_set_pullup = (\<lambda>p a b e. e), gpio_write = (\<lambda>p v e. e),
     gpio_read = (\<lambda>p e. (True, e)), sdk_os_delay_us = (\<lambda>n e. e), sdk_system_get_time = (\<lambda>e. (0, e))\<rparr>"

lemma closed_baud [simp]: "baudrate closed_port = 0"
  by (simp add: closed_port_def)

theorem open_keeps_apart_witness:
  "ports_apart (fst (snd (softuart_open idle_env 0 9600 4 5 [closed_port, closed_port] ()))) \<and> fst (softuart_open idle_env 0 9600 4 5 [closed_port, closed_port] ())"
proof -
  let ?c = "[closed_port, closed_port]"
  have apart: "ports_apart ?c" by (simp add: ports_apart_def SOFTUART_MAX_UARTS_def nth_Cons')
  have ok: "\<forall>i < SOFTUART_MAX_UARTS. i \<noteq> 0 \<longrightarrow> baudrate (?c ! i) \<noteq> 0 \<longrightarrow> {4, 5} \<inter> pins (?c ! i) = {}"
    by (simp add: SOFTUART_MAX_UARTS_def nth_Cons')
  obtain r us' e' where "softuart_open idle_env 0 9600 4 5 ?c () = (r, us', e')" by (rule prod_cases3)
  then show ?thesis using open_keeps_apart [OF apart, of idle_env 0 9600 4 5 "()" r us' e'] ok by (simp add: SOFTUART_MAX_UARTS_def)
qed

text \<open>The time of a bit is exact up to half a microsecond, for rates of at least 16 baud; below it does not fit.\<close>

theorem bit_time_rounded:
  assumes "16 \<le> baud"
  shows "100 * bit_time_of baud \<le> 100000000 div baud + 50 \<and> 100000000 div baud \<le> 100 * bit_time_of baud + 50"
proof -
  let ?t = "1000000 div baud" and ?r = "100000000 div baud"
  have "?t \<le> 1000000 div 16" using assms by (intro div_le_mono2) auto
  then have t: "?t \<le> 62500" by simp
  have "?r \<le> 100000000 div 16" using assms by (intro div_le_mono2) auto
  then have r: "?r \<le> 6250000" by simp
  have lo: "100 * ?t \<le> ?r" using assms by (simp add: less_eq_div_iff_mult_less_eq)
  have "100000000 < (100 * ?t + 100) * baud"
    using dividend_less_div_times [of baud 1000000] assms by (simp add: algebra_simps)
  then have "?r < 100 * ?t + 100" using assms by (simp add: div_less_iff_less_mult)
  then show ?thesis using lo t r by (auto simp: bit_time_of_def Let_def)
qed

theorem bit_time_rounded_witness: "100 * bit_time_of 9600 \<le> 10416 + 50 \<and> 10416 \<le> 100 * bit_time_of 9600 + 50"
  using bit_time_rounded [of 9600] by simp

end
