(* ===== verification/Esp_spi.thy ===== *)
theory Esp_spi
  imports Prelude "HOL-Library.Monad_Syntax"
begin

text \<open>
  The SPI master \<open>src/core/esp_spi.c\<close> with the inline functions of \<open>src/core/include/esp/spi.h\<close>, and the pin functions of
  \<open>src/core/esp_iomux.c\<close> it uses. The registers of both buses are in the state; what the controller does with them is
  the parameter \<open>hw\<close>, applied whenever the code looks at the command register. A function that waits for the
  controller returns an option, \<open>None\<close> when it waits forever. Buffers are byte lists as long as the caller says.
  The bus number is 0 or 1 except in \<open>spi_init\<close>, which checks it.
\<close>

section \<open>Registers and state\<close>

record SPI_REGS =
  CMD :: "32 word"
  ADDR :: "32 word"
  CTRL0 :: "32 word"
  CLOCK :: "32 word"
  USER0 :: "32 word"
  USER1 :: "32 word"
  USER2 :: "32 word"
  PIN :: "32 word"
  W :: "32 word list"

definition SPI_CMD_USR :: "32 word" where "SPI_CMD_USR = push_bit 18 1"
definition SPI_CTRL0_WR_BIT_ORDER :: "32 word" where "SPI_CTRL0_WR_BIT_ORDER = push_bit 26 1"
definition SPI_CTRL0_RD_BIT_ORDER :: "32 word" where "SPI_CTRL0_RD_BIT_ORDER = push_bit 25 1"
definition SPI_CLOCK_EQU_SYS_CLOCK :: "32 word" where "SPI_CLOCK_EQU_SYS_CLOCK = push_bit 31 1"
definition SPI_CLOCK_DIV_PRE_M :: "32 word" where "SPI_CLOCK_DIV_PRE_M = 0x1fff"
definition SPI_CLOCK_COUNT_NUM_M :: "32 word" where "SPI_CLOCK_COUNT_NUM_M = 0x3f"
definition SPI_USER0_COMMAND :: "32 word" where "SPI_USER0_COMMAND = push_bit 31 1"
definition SPI_USER0_ADDR :: "32 word" where "SPI_USER0_ADDR = push_bit 30 1"
definition SPI_USER0_DUMMY :: "32 word" where "SPI_USER0_DUMMY = push_bit 29 1"
definition SPI_USER0_MISO :: "32 word" where "SPI_USER0_MISO = push_bit 28 1"
definition SPI_USER0_MOSI :: "32 word" where "SPI_USER0_MOSI = push_bit 27 1"
definition SPI_USER0_WR_BYTE_ORDER :: "32 word" where "SPI_USER0_WR_BYTE_ORDER = push_bit 11 1"
definition SPI_USER0_RD_BYTE_ORDER :: "32 word" where "SPI_USER0_RD_BYTE_ORDER = push_bit 10 1"
definition SPI_USER0_CLOCK_OUT_EDGE :: "32 word" where "SPI_USER0_CLOCK_OUT_EDGE = push_bit 7 1"
definition SPI_USER0_CLOCK_IN_EDGE :: "32 word" where "SPI_USER0_CLOCK_IN_EDGE = push_bit 6 1"
definition SPI_USER0_CS_SETUP :: "32 word" where "SPI_USER0_CS_SETUP = push_bit 5 1"
definition SPI_USER0_CS_HOLD :: "32 word" where "SPI_USER0_CS_HOLD = push_bit 4 1"
definition SPI_USER0_DUPLEX :: "32 word" where "SPI_USER0_DUPLEX = push_bit 0 1"
definition SPI_PIN_IDLE_EDGE :: "32 word" where "SPI_PIN_IDLE_EDGE = push_bit 29 1"

lemmas spi_bits = SPI_CMD_USR_def SPI_CTRL0_WR_BIT_ORDER_def SPI_CTRL0_RD_BIT_ORDER_def SPI_CLOCK_EQU_SYS_CLOCK_def SPI_CLOCK_DIV_PRE_M_def
  SPI_CLOCK_COUNT_NUM_M_def SPI_USER0_COMMAND_def SPI_USER0_ADDR_def SPI_USER0_DUMMY_def SPI_USER0_MISO_def SPI_USER0_MOSI_def
  SPI_USER0_WR_BYTE_ORDER_def SPI_USER0_RD_BYTE_ORDER_def SPI_USER0_CLOCK_OUT_EDGE_def SPI_USER0_CLOCK_IN_EDGE_def SPI_USER0_CS_SETUP_def
  SPI_USER0_CS_HOLD_def SPI_USER0_DUPLEX_def SPI_PIN_IDLE_EDGE_def

datatype spi_mode_t = SPI_MODE0 | SPI_MODE1 | SPI_MODE2 | SPI_MODE3

datatype spi_endianness_t = SPI_LITTLE_ENDIAN | SPI_BIG_ENDIAN

datatype spi_word_size_t = SPI_8BIT | SPI_16BIT | SPI_32BIT

fun word_size :: "spi_word_size_t \<Rightarrow> nat" where
  "word_size SPI_8BIT = 1"
| "word_size SPI_16BIT = 2"
| "word_size SPI_32BIT = 4"

text \<open>The registers of the pins, the static arrays of the driver and the surroundings of the controller.\<close>

record 'e spi_state =
  SPI :: "nat \<Rightarrow> SPI_REGS"
  IOMUX_CONF :: "32 word"
  IOMUX_PIN :: "nat \<Rightarrow> 32 word"
  minimal_pins :: "nat \<Rightarrow> bool"
  extras_status :: "nat \<Rightarrow> byte"
  env :: 'e

definition set_spi :: "nat \<Rightarrow> (SPI_REGS \<Rightarrow> SPI_REGS) \<Rightarrow> 'e spi_state \<Rightarrow> 'e spi_state" where
  "set_spi bus f s = s\<lparr>SPI := (SPI s)(bus := f (SPI s bus))\<rparr>"

section \<open>Pins\<close>

definition GPIO_TO_IOMUX :: "nat list" where
  "GPIO_TO_IOMUX = [12, 5, 13, 4, 14, 15, 6, 7, 8, 9, 10, 11, 0, 1, 2, 3]"

definition IOMUX_TO_GPIO :: "nat list" where
  "IOMUX_TO_GPIO = [12, 13, 14, 15, 3, 1, 6, 7, 8, 9, 10, 11, 0, 2, 4, 5]"

definition gpio_to_iomux :: "nat \<Rightarrow> nat" where "gpio_to_iomux gpio_number = GPIO_TO_IOMUX ! gpio_number"

definition iomux_to_gpio :: "nat \<Rightarrow> nat" where "iomux_to_gpio iomux_number = IOMUX_TO_GPIO ! iomux_number"

definition IOMUX_PIN_FUNC_MASK :: "32 word" where "IOMUX_PIN_FUNC_MASK = 0x130"

definition IOMUX_FUNC :: "32 word \<Rightarrow> 32 word" where
  "IOMUX_FUNC val = push_bit 4 (val AND 3) OR push_bit 6 (val AND 4)"

definition gpio_set_iomux_function :: "nat \<Rightarrow> 32 word \<Rightarrow> 'e spi_state \<Rightarrow> 'e spi_state" where
  "gpio_set_iomux_function gpio_num func s =
     (let iomux_num = gpio_to_iomux gpio_num;
          prev = IOMUX_PIN s iomux_num AND NOT IOMUX_PIN_FUNC_MASK
      in s\<lparr>IOMUX_PIN := (IOMUX_PIN s)(iomux_num := func OR prev)\<rparr>)"

section \<open>Settings\<close>

fun mode_bits :: "spi_mode_t \<Rightarrow> bool \<times> bool" where
  "mode_bits SPI_MODE0 = (False, False)"
| "mode_bits SPI_MODE1 = (True, False)"
| "mode_bits SPI_MODE2 = (False, True)"
| "mode_bits SPI_MODE3 = (True, True)"

definition spi_put_bits :: "bool \<Rightarrow> 32 word \<Rightarrow> 32 word \<Rightarrow> 32 word" where
  "spi_put_bits on m r = (if on then r OR m else r AND NOT m)"

definition spi_set_mode :: "nat \<Rightarrow> spi_mode_t \<Rightarrow> 'e spi_state \<Rightarrow> 'e spi_state" where
  "spi_set_mode bus mode s =
     (case mode_bits mode of
        (cpha0, cpol) \<Rightarrow>
          let cpha = (if cpol then \<not> cpha0 else cpha0)
          in set_spi bus (\<lambda>r. r\<lparr>USER0 := spi_put_bits cpha SPI_USER0_CLOCK_OUT_EDGE (USER0 r), PIN := spi_put_bits cpol SPI_PIN_IDLE_EDGE (PIN r)\<rparr>) s)"

text \<open>The value of the mode is \<open>cpol | cpha\<close> with \<open>cpha\<close> inverted when \<open>cpol\<close> is set.\<close>

definition spi_get_mode :: "nat \<Rightarrow> 'e spi_state \<Rightarrow> spi_mode_t" where
  "spi_get_mode bus s =
     (let cpha = USER0 (SPI s bus) AND SPI_USER0_CLOCK_OUT_EDGE \<noteq> 0;
          cpol = PIN (SPI s bus) AND SPI_PIN_IDLE_EDGE \<noteq> 0
      in if cpol then (if cpha then SPI_MODE2 else SPI_MODE3) else (if cpha then SPI_MODE1 else SPI_MODE0))"

definition spi_set_msb :: "nat \<Rightarrow> bool \<Rightarrow> 'e spi_state \<Rightarrow> 'e spi_state" where
  "spi_set_msb bus msb s = set_spi bus (\<lambda>r. r\<lparr>CTRL0 := spi_put_bits (\<not> msb) (SPI_CTRL0_WR_BIT_ORDER OR SPI_CTRL0_RD_BIT_ORDER) (CTRL0 r)\<rparr>) s"

definition spi_get_msb :: "nat \<Rightarrow> 'e spi_state \<Rightarrow> bool" where
  "spi_get_msb bus s \<longleftrightarrow> CTRL0 (SPI s bus) AND (SPI_CTRL0_WR_BIT_ORDER OR SPI_CTRL0_RD_BIT_ORDER) = 0"

definition spi_set_endianness :: "nat \<Rightarrow> spi_endianness_t \<Rightarrow> 'e spi_state \<Rightarrow> 'e spi_state" where
  "spi_set_endianness bus endianness s =
     set_spi bus (\<lambda>r. r\<lparr>USER0 := spi_put_bits (endianness = SPI_BIG_ENDIAN) (SPI_USER0_WR_BYTE_ORDER OR SPI_USER0_RD_BYTE_ORDER) (USER0 r)\<rparr>) s"

definition spi_get_endianness :: "nat \<Rightarrow> 'e spi_state \<Rightarrow> spi_endianness_t" where
  "spi_get_endianness bus s =
     (if USER0 (SPI s bus) AND (SPI_USER0_WR_BYTE_ORDER OR SPI_USER0_RD_BYTE_ORDER) \<noteq> 0 then SPI_BIG_ENDIAN else SPI_LITTLE_ENDIAN)"

definition SPI_GET_FREQ_DIV :: "32 word \<Rightarrow> 32 word \<Rightarrow> 32 word" where
  "SPI_GET_FREQ_DIV divider count = push_bit 16 count OR (divider AND 0xffff)"

definition clock_conf_bit :: "nat \<Rightarrow> 32 word" where
  "clock_conf_bit bus = (if bus = 0 then push_bit 8 1 else push_bit 9 1)"

definition spi_set_frequency_div :: "nat \<Rightarrow> 32 word \<Rightarrow> 'e spi_state \<Rightarrow> 'e spi_state" where
  "spi_set_frequency_div bus divider s =
     (let predivider = (divider AND 0xffff) - 1;
          count = drop_bit 16 divider - 1
      in if count \<noteq> 0 \<or> predivider \<noteq> 0
         then set_spi bus (\<lambda>r. r\<lparr>CLOCK := push_bit 18 (predivider AND SPI_CLOCK_DIV_PRE_M) OR push_bit 12 (count AND SPI_CLOCK_COUNT_NUM_M)
                OR push_bit 6 ((count div 2) AND 0x3f) OR (count AND 0x3f)\<rparr>) (s\<lparr>IOMUX_CONF := IOMUX_CONF s AND NOT (clock_conf_bit bus)\<rparr>)
         else set_spi bus (\<lambda>r. r\<lparr>CLOCK := SPI_CLOCK_EQU_SYS_CLOCK\<rparr>) (s\<lparr>IOMUX_CONF := IOMUX_CONF s OR clock_conf_bit bus\<rparr>))"

definition spi_get_frequency_div :: "nat \<Rightarrow> 'e spi_state \<Rightarrow> 32 word" where
  "spi_get_frequency_div bus s =
     (field2val (CLOCK (SPI s bus)) SPI_CLOCK_DIV_PRE_M 18 + 1) OR (field2val (CLOCK (SPI s bus)) SPI_CLOCK_COUNT_NUM_M 12 + 1)"

definition spi_get_frequency_hz :: "nat \<Rightarrow> 'e spi_state \<Rightarrow> nat" where
  "spi_get_frequency_hz bus s =
     80 * 1000000 div unat (field2val (CLOCK (SPI s bus)) SPI_CLOCK_DIV_PRE_M 18 + 1) div unat (field2val (CLOCK (SPI s bus)) SPI_CLOCK_COUNT_NUM_M 12 + 1)"

record spi_settings_t =
  mode :: spi_mode_t
  freq_divider :: "32 word"
  msb :: bool
  endianness :: spi_endianness_t
  set_minimal_pins :: bool

definition spi_init :: "nat \<Rightarrow> spi_mode_t \<Rightarrow> 32 word \<Rightarrow> bool \<Rightarrow> spi_endianness_t \<Rightarrow> bool \<Rightarrow> 'e spi_state \<Rightarrow> bool \<times> 'e spi_state" where
  "spi_init bus md freq_div ms en minpins s =
     (let pins = (if bus = 0 then Some (IOMUX_FUNC 1, [7, 8, 6] @ (if \<not> minpins then [9, 10, 11] else []))
                  else if bus = 1 then Some (IOMUX_FUNC 2, [12, 13, 14] @ (if \<not> minpins then [15] else []))
                  else None)
      in case pins of
           None \<Rightarrow> (False, s)
         | Some (func, ps) \<Rightarrow>
             let s1 = fold (\<lambda>p. gpio_set_iomux_function p func) ps s;
                 s2 = s1\<lparr>minimal_pins := (minimal_pins s1)(bus := minpins)\<rparr>;
                 s3 = set_spi bus (\<lambda>r. r\<lparr>USER0 := SPI_USER0_MOSI OR SPI_USER0_CLOCK_IN_EDGE OR SPI_USER0_DUPLEX
                        OR (if minpins then 0 else SPI_USER0_CS_HOLD OR SPI_USER0_CS_SETUP)\<rparr>) s2
             in (True, spi_set_endianness bus en (spi_set_msb bus ms (spi_set_mode bus md (spi_set_frequency_div bus freq_div s3)))))"

definition spi_set_settings :: "nat \<Rightarrow> spi_settings_t \<Rightarrow> 'e spi_state \<Rightarrow> bool \<times> 'e spi_state" where
  "spi_set_settings bus c s = spi_init bus (mode c) (freq_divider c) (msb c) (endianness c) (set_minimal_pins c) s"

definition spi_get_settings :: "nat \<Rightarrow> 'e spi_state \<Rightarrow> spi_settings_t" where
  "spi_get_settings bus s =
     \<lparr>mode = spi_get_mode bus s, freq_divider = spi_get_frequency_div bus s, msb = spi_get_msb bus s,
      endianness = spi_get_endianness bus s, set_minimal_pins = minimal_pins s bus\<rparr>"

section \<open>Phases before the data\<close>

text \<open>The number of bits is at least 1 and at most the width of the register; a larger one is an undefined shift.\<close>

definition swap16 :: "16 word \<Rightarrow> 16 word" where
  "swap16 c = (drop_bit 8 c AND 0xff) OR (push_bit 8 c AND 0xff00)"

definition spi_set_command :: "nat \<Rightarrow> nat \<Rightarrow> 16 word \<Rightarrow> 'e spi_state \<Rightarrow> 'e spi_state" where
  "spi_set_command bus bits data s =
     (if bits = 0 then s
      else
        let s1 = set_spi bus (\<lambda>r. r\<lparr>USER0 := USER0 r OR SPI_USER0_COMMAND\<rparr>) s;
            command = (if \<not> spi_get_msb bus s1 then data else swap16 (push_bit (16 - bits) data))
        in set_spi bus (\<lambda>r. r\<lparr>USER2 := set_field (set_field (USER2 r) 0xf 28 (bits - 1)) 0xffff 0 (unat command)\<rparr>) s1)"

definition spi_set_address :: "nat \<Rightarrow> nat \<Rightarrow> 32 word \<Rightarrow> 'e spi_state \<Rightarrow> 'e spi_state" where
  "spi_set_address bus bits data s =
     (if bits = 0 then s
      else
        let s1 = set_spi bus (\<lambda>r. r\<lparr>USER0 := USER0 r OR SPI_USER0_ADDR\<rparr>) s;
            addr = (if spi_get_msb bus s1 then push_bit (32 - bits) data
                    else push_bit 24 (data AND 0xff) OR push_bit 8 (data AND 0xff00) OR (drop_bit 8 data AND 0xff00) OR (drop_bit 24 data AND 0xff))
        in set_spi bus (\<lambda>r. r\<lparr>ADDR := addr, USER1 := set_field (USER1 r) 0x3f 26 (bits - 1)\<rparr>) s1)"

definition spi_set_dummy_bits :: "nat \<Rightarrow> nat \<Rightarrow> bool \<Rightarrow> 'e spi_state \<Rightarrow> 'e spi_state" where
  "spi_set_dummy_bits bus bits pos s =
     (if bits = 0 then s
      else set_spi bus (\<lambda>r. r\<lparr>USER0 := (if pos then USER0 r OR SPI_USER0_MISO else USER0 r) OR SPI_USER0_DUMMY,
                               USER1 := set_field (USER1 r) 0xff 0 (bits - 1)\<rparr>) s)"

definition spi_clear_address :: "nat \<Rightarrow> 'e spi_state \<Rightarrow> 'e spi_state" where
  "spi_clear_address bus s = set_spi bus (\<lambda>r. r\<lparr>USER0 := USER0 r AND NOT SPI_USER0_ADDR\<rparr>) s"

definition spi_clear_command :: "nat \<Rightarrow> 'e spi_state \<Rightarrow> 'e spi_state" where
  "spi_clear_command bus s = set_spi bus (\<lambda>r. r\<lparr>USER0 := USER0 r AND NOT SPI_USER0_COMMAND\<rparr>) s"

definition spi_clear_dummy :: "nat \<Rightarrow> 'e spi_state \<Rightarrow> 'e spi_state" where
  "spi_clear_dummy bus s = set_spi bus (\<lambda>r. r\<lparr>USER0 := USER0 r AND NOT (SPI_USER0_DUMMY OR SPI_USER0_MISO)\<rparr>) s"

section \<open>Transfers of one buffer\<close>

definition SPI_BUF_SIZE :: nat where "SPI_BUF_SIZE = 64"

definition set_size :: "nat \<Rightarrow> nat \<Rightarrow> 'e spi_state \<Rightarrow> 'e spi_state" where
  "set_size bus bytes s =
     (let bits = u32_sub (8 * u8 bytes) 1
      in set_spi bus (\<lambda>r. r\<lparr>USER1 := set_field (set_field (USER1 r) 0x1ff 8 bits) 0x1ff 17 bits\<rparr>) s)"

text \<open>What the controller and its surroundings have done until a read of the command register.\<close>

type_synonym 'e spi_hw = "nat \<Rightarrow> SPI_REGS \<Rightarrow> 'e \<Rightarrow> SPI_REGS \<times> 'e"

partial_function (option) spi_wait :: "'e spi_hw \<Rightarrow> nat \<Rightarrow> 'e spi_state \<Rightarrow> 'e spi_state option" where
  "spi_wait hw bus s =
     (case hw bus (SPI s bus) (env s) of
        (r, e) \<Rightarrow>
          let s1 = set_spi bus (\<lambda>_. r) (s\<lparr>env := e\<rparr>)
          in if CMD r AND SPI_CMD_USR \<noteq> 0 then spi_wait hw bus s1 else Some s1)"

definition spi_start :: "nat \<Rightarrow> 'e spi_state \<Rightarrow> 'e spi_state" where
  "spi_start bus s = set_spi bus (\<lambda>r. r\<lparr>CMD := CMD r OR SPI_CMD_USR\<rparr>) s"

text \<open>The bytes of a word in memory, lowest first, and the words of a memory area.\<close>

definition word_bytes :: "32 word \<Rightarrow> byte list" where
  "word_bytes w = [ucast w, ucast (drop_bit 8 w), ucast (drop_bit 16 w), ucast (drop_bit 24 w)]"

definition bytes_word :: "byte list \<Rightarrow> 32 word" where
  "bytes_word bs = foldr (\<lambda>b w. push_bit 8 w OR ucast b) bs 0"

definition store_data :: "byte list \<Rightarrow> nat \<Rightarrow> 32 word list \<Rightarrow> 32 word list" where
  "store_data data len ws =
     (let words = len div 4;
          tl_len = len mod 4;
          ws1 = map (\<lambda>i. bytes_word (take 4 (drop (4 * i) data))) [0..<words] @ drop words ws
      in if tl_len = 0 then ws1 else ws1[words := bytes_word (take tl_len (drop (len - tl_len) data))])"

definition swap_bytes :: "32 word \<Rightarrow> 32 word" where
  "swap_bytes value = push_bit 24 value OR (push_bit 8 value AND 0x00ff0000) OR (drop_bit 8 value AND 0x0000ff00) OR drop_bit 24 value"

definition swap_words :: "32 word \<Rightarrow> 32 word" where
  "swap_words value = push_bit 16 value OR drop_bit 16 value"

definition spi_buf_prepare :: "nat \<Rightarrow> spi_endianness_t \<Rightarrow> spi_word_size_t \<Rightarrow> 32 word list \<Rightarrow> 32 word list" where
  "spi_buf_prepare len e sz ws =
     (if e = SPI_LITTLE_ENDIAN \<or> sz = SPI_32BIT then ws
      else
        let count = (if sz = SPI_16BIT then (len + 1) div 2 else (len + 3) div 4)
        in map (if sz = SPI_16BIT then swap_words else swap_bytes) (take count ws) @ drop count ws)"

text \<open>The data that arrives is returned; without a destination it is not looked at.\<close>

definition spi_buf_transfer :: "'e spi_hw \<Rightarrow> nat \<Rightarrow> byte list \<Rightarrow> bool \<Rightarrow> nat \<Rightarrow> spi_endianness_t \<Rightarrow> spi_word_size_t \<Rightarrow> 'e spi_state
    \<Rightarrow> (byte list \<times> 'e spi_state) option" where
  "spi_buf_transfer hw bus out_data has_in len e sz s =
     do {
       s1 \<leftarrow> spi_wait hw bus s;
       let bytes = len * word_size sz;
       let s2 = set_size bus bytes s1;
       let s3 = set_spi bus (\<lambda>r. r\<lparr>W := spi_buf_prepare len e sz (store_data out_data bytes (W r))\<rparr>) s2;
       s4 \<leftarrow> spi_wait hw bus (spi_start bus s3);
       if has_in then
         let s5 = set_spi bus (\<lambda>r. r\<lparr>W := spi_buf_prepare len e sz (W r)\<rparr>) s4
         in Some (take bytes (concat (map word_bytes (W (SPI s5 bus)))), s5)
       else Some ([], s4)
     }"

section \<open>Transfers\<close>

definition spi_transfer_8 :: "'e spi_hw \<Rightarrow> nat \<Rightarrow> byte \<Rightarrow> 'e spi_state \<Rightarrow> (byte \<times> 'e spi_state) option" where
  "spi_transfer_8 hw bus data s =
     map_option (\<lambda>(bs, s1). (hd bs, s1)) (spi_buf_transfer hw bus [data] True 1 (spi_get_endianness bus s) SPI_8BIT s)"

definition spi_transfer_16 :: "'e spi_hw \<Rightarrow> nat \<Rightarrow> 16 word \<Rightarrow> 'e spi_state \<Rightarrow> (16 word \<times> 'e spi_state) option" where
  "spi_transfer_16 hw bus data s =
     map_option (\<lambda>(bs, s1). (ucast (bytes_word bs), s1)) (spi_buf_transfer hw bus [ucast data, ucast (drop_bit 8 data)] True 1 (spi_get_endianness bus s) SPI_16BIT s)"

definition spi_transfer_32 :: "'e spi_hw \<Rightarrow> nat \<Rightarrow> 32 word \<Rightarrow> 'e spi_state \<Rightarrow> (32 word \<times> 'e spi_state) option" where
  "spi_transfer_32 hw bus data s =
     map_option (\<lambda>(bs, s1). (bytes_word bs, s1)) (spi_buf_transfer hw bus (word_bytes data) True 1 (spi_get_endianness bus s) SPI_32BIT s)"

definition save_extra :: "nat \<Rightarrow> 32 word \<Rightarrow> 32 word \<Rightarrow> byte \<Rightarrow> 'e spi_state \<Rightarrow> 'e spi_state" where
  "save_extra bus test clear flag s =
     (if USER0 (SPI s bus) AND test \<noteq> 0
      then set_spi bus (\<lambda>r. r\<lparr>USER0 := USER0 r AND NOT clear\<rparr>) (s\<lparr>extras_status := (extras_status s)(bus := extras_status s bus OR flag)\<rparr>)
      else s)"

definition restore_extra :: "nat \<Rightarrow> byte \<Rightarrow> 32 word \<Rightarrow> 'e spi_state \<Rightarrow> 'e spi_state" where
  "restore_extra bus flag bits s =
     (if extras_status s bus AND flag \<noteq> 0 then set_spi bus (\<lambda>r. r\<lparr>USER0 := USER0 r OR bits\<rparr>) s else s)"

definition rearm_extras_bit :: "nat \<Rightarrow> bool \<Rightarrow> 'e spi_state \<Rightarrow> 'e spi_state" where
  "rearm_extras_bit bus arm s =
     (if \<not> minimal_pins s bus then s
      else if arm
      then let s1 = restore_extra bus 4 (SPI_USER0_DUMMY OR SPI_USER0_MISO) (restore_extra bus 2 SPI_USER0_COMMAND (restore_extra bus 1 SPI_USER0_ADDR s))
           in s1\<lparr>extras_status := (extras_status s1)(bus := 0)\<rparr>
      else save_extra bus SPI_USER0_DUMMY (SPI_USER0_DUMMY OR SPI_USER0_MISO) 4
             (save_extra bus SPI_USER0_COMMAND SPI_USER0_COMMAND 2 (save_extra bus SPI_USER0_ADDR SPI_USER0_ADDR 1 s)))"

text \<open>The full blocks, from the data that is left; \<open>one\<close> transfers a block of \<open>buf_size\<close> words.\<close>

fun spi_blocks :: "(byte list \<Rightarrow> 'e spi_state \<Rightarrow> (byte list \<times> 'e spi_state) option) \<Rightarrow> nat \<Rightarrow> nat \<Rightarrow> byte list \<Rightarrow> 'e spi_state
    \<Rightarrow> (byte list \<times> 'e spi_state) option" where
  "spi_blocks one bus 0 data s = Some ([], s)"
| "spi_blocks one bus (Suc blocks) data s =
     do {
       (xs, s1) \<leftarrow> one data s;
       (ys, s2) \<leftarrow> spi_blocks one bus blocks (drop SPI_BUF_SIZE data) (rearm_extras_bit bus False s1);
       Some (xs @ ys, s2)
     }"

definition spi_transfer :: "'e spi_hw \<Rightarrow> nat \<Rightarrow> byte list option \<Rightarrow> bool \<Rightarrow> nat \<Rightarrow> spi_word_size_t \<Rightarrow> 'e spi_state
    \<Rightarrow> (nat \<times> byte list \<times> 'e spi_state) option" where
  "spi_transfer hw bus out_data has_in len sz s =
     (case out_data of
        None \<Rightarrow> Some (0, [], s)
      | Some data \<Rightarrow>
          if len = 0 then Some (0, [], s)
          else
            let e = spi_get_endianness bus s;
                buf_size = SPI_BUF_SIZE div word_size sz;
                blocks = len div buf_size;
                rem = len mod buf_size
            in do {
              (xs, s1) \<leftarrow> spi_blocks (\<lambda>d. spi_buf_transfer hw bus d has_in buf_size e sz) bus blocks data s;
              (ys, s2) \<leftarrow> (if rem \<noteq> 0 then spi_buf_transfer hw bus (drop (blocks * SPI_BUF_SIZE) data) has_in rem e sz s1 else Some ([], s1));
              Some (len, xs @ ys, if blocks \<noteq> 0 then rearm_extras_bit bus True s2 else s2)
            })"

definition spi_buf_read :: "'e spi_hw \<Rightarrow> nat \<Rightarrow> byte \<Rightarrow> nat \<Rightarrow> spi_endianness_t \<Rightarrow> spi_word_size_t \<Rightarrow> 'e spi_state \<Rightarrow> (byte list \<times> 'e spi_state) option" where
  "spi_buf_read hw bus b len e sz s =
     do {
       s1 \<leftarrow> spi_wait hw bus s;
       let bytes = len * word_size sz;
       let s2 = set_size bus bytes s1;
       let w = push_bit 24 (ucast b) OR push_bit 16 (ucast b) OR push_bit 8 (ucast b) OR ucast b;
       let s3 = set_spi bus (\<lambda>r. r\<lparr>W := replicate (SPI_BUF_SIZE div 4) w\<rparr>) s2;
       s4 \<leftarrow> spi_wait hw bus (spi_start bus s3);
       let s5 = set_spi bus (\<lambda>r. r\<lparr>W := spi_buf_prepare len e sz (W r)\<rparr>) s4;
       Some (take bytes (concat (map word_bytes (W (SPI s5 bus)))), s5)
     }"

definition spi_read :: "'e spi_hw \<Rightarrow> nat \<Rightarrow> byte \<Rightarrow> nat \<Rightarrow> spi_word_size_t \<Rightarrow> 'e spi_state \<Rightarrow> (byte list \<times> 'e spi_state) option" where
  "spi_read hw bus out_byte len sz s =
     (let e = spi_get_endianness bus s;
          buf_size = SPI_BUF_SIZE div word_size sz;
          blocks = len div buf_size;
          rem = len mod buf_size
      in do {
        (xs, s1) \<leftarrow> spi_blocks (\<lambda>d. spi_buf_read hw bus out_byte buf_size e sz) bus blocks [] s;
        (ys, s2) \<leftarrow> (if rem \<noteq> 0 then spi_buf_read hw bus out_byte rem e sz s1 else Some ([], s1));
        Some (xs @ ys, if blocks \<noteq> 0 then rearm_extras_bit bus True s2 else s2)
      })"

text \<open>
  \<open>repeats\<close> is an int32_t and the size an unsigned enumeration, so their product is unsigned and wraps. \<open>again\<close> says that the
  loop has run before.
\<close>

partial_function (option) repeat_send :: "'e spi_hw \<Rightarrow> nat \<Rightarrow> 32 word \<Rightarrow> spi_word_size_t \<Rightarrow> bool \<Rightarrow> int \<Rightarrow> 'e spi_state \<Rightarrow> 'e spi_state option" where
  "repeat_send hw bus dword sz again repeats s =
     (if repeats > 0
      then do {
        let bytes_to_transfer = min (u32 (nat repeats * word_size sz)) SPI_BUF_SIZE;
        s1 \<leftarrow> spi_wait hw bus s;
        let s2 = set_size bus bytes_to_transfer (if again then rearm_extras_bit bus False s1 else s1);
        let n = (bytes_to_transfer + 3) div 4;
        let s3 = spi_start bus (set_spi bus (\<lambda>r. r\<lparr>W := replicate n dword @ drop n (W r)\<rparr>) s2);
        repeat_send hw bus dword sz (n \<noteq> 0) (repeats - int (bytes_to_transfer div word_size sz)) s3
      }
      else do {
        s1 \<leftarrow> spi_wait hw bus s;
        Some (rearm_extras_bit bus True s1)
      })"

definition spi_repeat_send_8 :: "'e spi_hw \<Rightarrow> nat \<Rightarrow> byte \<Rightarrow> int \<Rightarrow> 'e spi_state \<Rightarrow> 'e spi_state option" where
  "spi_repeat_send_8 hw bus data repeats s =
     repeat_send hw bus (push_bit 24 (ucast data) OR push_bit 16 (ucast data) OR push_bit 8 (ucast data) OR ucast data) SPI_8BIT False repeats s"

definition spi_repeat_send_16 :: "'e spi_hw \<Rightarrow> nat \<Rightarrow> 16 word \<Rightarrow> int \<Rightarrow> 'e spi_state \<Rightarrow> 'e spi_state option" where
  "spi_repeat_send_16 hw bus data repeats s = repeat_send hw bus (push_bit 16 (ucast data) OR ucast data) SPI_16BIT False repeats s"

definition spi_repeat_send_32 :: "'e spi_hw \<Rightarrow> nat \<Rightarrow> 32 word \<Rightarrow> int \<Rightarrow> 'e spi_state \<Rightarrow> 'e spi_state option" where
  "spi_repeat_send_32 hw bus data repeats s = repeat_send hw bus data SPI_32BIT False repeats s"

end
