(* ===== verification/Esp_spi_Wire.thy ===== *)
theory Esp_spi_Wire
  imports Esp_spi
begin

text \<open>
  One transaction of the SPI master. The locale \<open>spi_controller\<close> is what the driver relies on of the hardware; under it
  the contents of a buffer of up to 64 bytes appear on the wire in the byte order of the bus, and what arrives is put
  back into the order of memory.
\<close>

section \<open>Words and bytes\<close>

lemma byte_masks: "0x00ff0000 = (push_bit 16 (mask 8) :: 32 word)" "0x0000ff00 = (push_bit 8 (mask 8) :: 32 word)"
  by (simp_all add: mask_eq_exp_minus_1)

lemma swap_bytes_bytes: "word_bytes (swap_bytes w) = rev (word_bytes w)"
  unfolding word_bytes_def swap_bytes_def byte_masks by (auto intro!: bit_word_eqI) (auto simp: bit_simps)

lemma swap_words_bytes:
  "word_bytes (swap_words w) = [ucast (drop_bit 16 w), ucast (drop_bit 24 w), ucast w, ucast (drop_bit 8 w)]"
  by (auto simp: word_bytes_def swap_words_def intro!: bit_word_eqI) (auto simp: bit_simps)

lemma word_bytes_word: "word_bytes (bytes_word [a, b, c, d]) = [a, b, c, d]"
  by (auto simp: word_bytes_def bytes_word_def intro!: bit_word_eqI) (auto simp: bit_simps dest: bit_imp_le_length)

lemma length_word_bytes [simp]: "length (word_bytes w) = 4"
  by (simp add: word_bytes_def)

section \<open>Groups\<close>

function chunks :: "nat \<Rightarrow> 'a list \<Rightarrow> 'a list list" where
  "chunks k xs = (if k = 0 \<or> xs = [] then [] else take k xs # chunks k (drop k xs))"
  by pat_completeness auto

termination
  by (relation "measure (\<lambda>(k, xs). length xs)") auto

declare chunks.simps [simp del]

lemma chunks_Nil [simp]: "chunks k [] = []"
  by (simp add: chunks.simps)

lemma concat_chunks: "0 < k \<Longrightarrow> concat (chunks k xs) = xs"
  by (induction k xs rule: chunks.induct) (subst chunks.simps, simp)

lemma chunks_append: "0 < k \<Longrightarrow> k dvd length xs \<Longrightarrow> chunks k (xs @ ys) = chunks k xs @ chunks k ys"
proof (induction k xs rule: chunks.induct)
  case (1 k xs)
  show ?case
  proof (cases "xs = []")
    case False
    then have "k \<le> length xs" using 1(3) by (intro dvd_imp_le) auto
    moreover have "k dvd length (drop k xs)" using 1(3) by simp
    ultimately show ?thesis using 1 False by (subst (1 2) chunks.simps) simp
  qed simp
qed

text \<open>The order in which the bytes of memory are on the wire.\<close>

definition order :: "spi_endianness_t \<Rightarrow> spi_word_size_t \<Rightarrow> byte list \<Rightarrow> byte list" where
  "order e sz bs = (if e = SPI_LITTLE_ENDIAN then bs else concat (map rev (chunks (word_size sz) bs)))"

lemma word_size_pos [simp]: "0 < word_size sz" "word_size sz \<noteq> 0" "word_size sz dvd 4" "word_size sz dvd 64" "word_size sz \<le> 4"
  by (cases sz; simp)+

lemma order_append: "word_size sz dvd length xs \<Longrightarrow> order e sz (xs @ ys) = order e sz xs @ order e sz ys"
  by (simp add: order_def chunks_append)

lemma length_order [simp]: "length (order e sz xs) = length xs"
proof -
  have "length (concat (map rev yss)) = length (concat yss)" for yss :: "byte list list" by (induction yss) auto
  then show ?thesis by (simp add: order_def concat_chunks)
qed

lemma order_Nil [simp]: "order e sz [] = []"
  by (simp add: order_def)

lemma order_take: "word_size sz dvd n \<Longrightarrow> n \<le> length xs \<Longrightarrow> order e sz (take n xs) = take n (order e sz xs)"
  using order_append [of sz "take n xs" e "drop n xs"] by (simp add: min.absorb2)

lemma order_words:
  assumes "\<And>w. length (g w) = 4"
  shows "order e sz (concat (map g ws)) = concat (map (\<lambda>w. order e sz (g w)) ws)"
proof (induction ws)
  case (Cons w ws)
  have "word_size sz dvd length (g w)" using assms by simp
  then show ?case using Cons by (simp add: order_append)
qed simp

lemma order_4:
  "order SPI_BIG_ENDIAN SPI_8BIT [a, b, c, d] = [a, b, c, d]" "order SPI_BIG_ENDIAN SPI_16BIT [a, b, c, d] = [b, a, d, c]"
  "order SPI_BIG_ENDIAN SPI_32BIT [a, b, c, d] = [d, c, b, a]"
  by (simp_all add: order_def chunks.simps)

section \<open>The buffer of the controller\<close>

text \<open>The order in which the controller sends and stores the bytes of a word.\<close>

definition wire_word :: "spi_endianness_t \<Rightarrow> 32 word \<Rightarrow> byte list" where
  "wire_word e w = (if e = SPI_BIG_ENDIAN then rev (word_bytes w) else word_bytes w)"

lemma length_wire_word [simp]: "length (wire_word e w) = 4"
  by (simp add: wire_word_def)

definition swap :: "spi_endianness_t \<Rightarrow> spi_word_size_t \<Rightarrow> 32 word \<Rightarrow> 32 word" where
  "swap e sz w = (if e = SPI_LITTLE_ENDIAN \<or> sz = SPI_32BIT then w else if sz = SPI_16BIT then swap_words w else swap_bytes w)"

lemma swap_wire: "wire_word e (swap e sz w) = order e sz (word_bytes w)"
  by (cases e; cases sz)
    (simp_all add: swap_def wire_word_def swap_bytes_bytes swap_words_bytes order_def [of SPI_LITTLE_ENDIAN],
     simp_all add: word_bytes_def order_4)

lemma swap_memory: "word_bytes (swap e sz w) = order e sz (wire_word e w)"
  by (cases e; cases sz)
    (simp_all add: swap_def wire_word_def swap_bytes_bytes swap_words_bytes order_def [of SPI_LITTLE_ENDIAN],
     simp_all add: word_bytes_def order_4)

definition spi_words :: "nat \<Rightarrow> nat" where
  "spi_words n = (n + 3) div 4"

lemma prepare_swaps: "spi_buf_prepare len e sz ws = map (swap e sz) (take (spi_words (len * word_size sz)) ws) @ drop (spi_words (len * word_size sz)) ws"
proof (cases "e = SPI_LITTLE_ENDIAN \<or> sz = SPI_32BIT")
  case True
  then have "map (swap e sz) xs = xs" for xs by (simp add: swap_def map_idI)
  then show ?thesis using True by (simp add: spi_buf_prepare_def)
next
  case False
  have "(len + 1) div 2 = (len * 2 + 3) div 4" by presburger
  moreover have "swap e sz = (if sz = SPI_16BIT then swap_words else swap_bytes)" using False by (auto simp: swap_def fun_eq_iff)
  ultimately show ?thesis using False by (cases sz) (auto simp: spi_buf_prepare_def spi_words_def Let_def)
qed

lemma take_words:
  assumes "\<And>w. length (f w) = 4" "n \<le> 4 * k" "k \<le> length ws"
  shows "take n (concat (map f (take k ws @ vs))) = take n (concat (map f (take k ws @ us)))"
proof -
  have "length (concat (map f xs)) = 4 * length xs" for xs using assms(1) by (induction xs) simp_all
  then have "length (concat (map f (take k ws))) = 4 * k" using assms(3) by simp
  then show ?thesis using assms(2) by simp
qed

lemma prepared:
  assumes fg: "\<And>w. f (swap e sz w) = order e sz (g w)" "\<And>w. length (f w) = 4" "\<And>w. length (g w) = 4"
    and n: "n = len * word_size sz" "n \<le> 4 * length ws"
  shows "take n (concat (map f (spi_buf_prepare len e sz ws))) = order e sz (take n (concat (map g ws)))"
proof -
  let ?k = "spi_words n"
  have k: "n \<le> 4 * ?k" "?k \<le> length ws" using n(2) unfolding spi_words_def by presburger+
  have len: "length (concat (map g ws)) = 4 * length ws" using fg(3) by (induction ws) simp_all
  have "take n (concat (map f (spi_buf_prepare len e sz ws))) = take n (concat (map f (take ?k (map (swap e sz) ws) @ drop ?k (map (swap e sz) ws))))"
    unfolding prepare_swaps n(1) [symmetric] take_map [symmetric] by (rule take_words [OF fg(2) k(1)]) (use k in simp)
  also have "\<dots> = take n (order e sz (concat (map g ws)))"
    by (simp only: append_take_drop_id map_map comp_def fg(1) order_words [of g, OF fg(3)])
  finally show ?thesis using n len by (simp add: order_take)
qed

lemma four_elements: "length xs = 4 \<Longrightarrow> \<exists>a b c d. xs = [a, b, c, d]"
  by (auto simp: numeral_eq_Suc length_Suc_conv)

lemma bytes_word_pad:
  assumes "length bs = k" "k \<le> 4"
  shows "take k (word_bytes (bytes_word bs)) = bs"
proof -
  have "foldr (\<lambda>b w. push_bit 8 w OR ucast b) (replicate j (0 :: byte)) 0 = (0 :: 32 word)" for j by (induction j) simp_all
  then have pad: "bytes_word (bs @ replicate (4 - k) 0) = bytes_word bs" by (simp add: bytes_word_def)
  have "length (bs @ replicate (4 - k) 0) = 4" using assms by simp
  then obtain x y z u where l: "bs @ replicate (4 - k) 0 = [x, y, z, u]" using four_elements by blast
  have "word_bytes (bytes_word bs) = bs @ replicate (4 - k) 0" using word_bytes_word [of x y z u] pad unfolding l by simp
  then show ?thesis using assms by simp
qed

lemma stored_words: "4 * k \<le> length data \<Longrightarrow> concat (map (\<lambda>i. word_bytes (bytes_word (take 4 (drop (4 * i) data)))) [0..<k]) = take (4 * k) data"
proof (induction k)
  case (Suc k)
  have "take 4 (word_bytes (bytes_word (take 4 (drop (4 * k) data)))) = take 4 (drop (4 * k) data)"
    using Suc.prems by (intro bytes_word_pad) auto
  moreover have "take (4 * Suc k) data = take (4 * k) data @ take 4 (drop (4 * k) data)" using take_add [of "4 * k" 4 data] by (simp add: add.commute)
  ultimately show ?case using Suc by simp
qed simp

lemma store_data_bytes:
  assumes "n \<le> length data" "n \<le> 4 * length ws"
  shows "take n (concat (map word_bytes (store_data data n ws))) = take n data" "length (store_data data n ws) = length ws"
proof -
  let ?k = "n div 4" let ?t = "n mod 4"
  let ?A = "map (\<lambda>i. bytes_word (take 4 (drop (4 * i) data))) [0..<?k]"
  have n: "n = 4 * ?k + ?t" "4 * ?k \<le> n" by simp_all
  have A: "concat (map word_bytes ?A) = take (4 * ?k) data" using stored_words [of ?k data] assms(1) n(2) by (simp add: comp_def)
  have k: "?k \<le> length ws" "?t \<noteq> 0 \<Longrightarrow> ?k < length ws" using assms(2) n by presburger+
  show "take n (concat (map word_bytes (store_data data n ws))) = take n data"
  proof (cases "?t = 0")
    case True
    then show ?thesis using A assms(1) n by (simp add: store_data_def Let_def min_def)
  next
    case False
    let ?x = "bytes_word (take ?t (drop (4 * ?k) data))"
    have "?t \<le> length data - 4 * ?k" using assms(1) n by linarith
    then have x: "take ?t (word_bytes ?x) = take ?t (drop (4 * ?k) data)" by (intro bytes_word_pad) (simp_all add: min.absorb2)
    have d: "drop ?k ws = ws ! ?k # drop (Suc ?k) ws" using k False by (simp add: Cons_nth_drop_Suc)
    have "store_data data n ws = ?A @ ?x # drop (Suc ?k) ws"
      using False n by (simp add: store_data_def Let_def list_update_append d minus_mod_eq_mult_div)
    then have "concat (map word_bytes (store_data data n ws)) = take (4 * ?k) data @ word_bytes ?x @ concat (map word_bytes (drop (Suc ?k) ws))"
      using A by simp
    moreover have "take n data = take (4 * ?k) data @ take ?t (drop (4 * ?k) data)" using take_add [of "4 * ?k" ?t data] n(1) by simp
    ultimately show ?thesis using x assms(1) by (simp add: min_def minus_mult_div_eq_mod)
  qed
  show "length (store_data data n ws) = length ws" using k by (simp add: store_data_def Let_def)
qed

section \<open>Register bits\<close>

lemma bit_single: "k < 32 \<Longrightarrow> bit (push_bit k (1 :: 32 word)) n \<longleftrightarrow> n = k"
  unfolding bit_push_bit_iff bit_1_iff by auto

lemma spi_bit:
  "bit SPI_CMD_USR n \<longleftrightarrow> n = 18"
  "bit SPI_USER0_COMMAND n \<longleftrightarrow> n = 31"
  "bit SPI_USER0_ADDR n \<longleftrightarrow> n = 30"
  "bit SPI_USER0_DUMMY n \<longleftrightarrow> n = 29"
  "bit SPI_USER0_MISO n \<longleftrightarrow> n = 28"
  "bit SPI_USER0_MOSI n \<longleftrightarrow> n = 27"
  "bit SPI_USER0_WR_BYTE_ORDER n \<longleftrightarrow> n = 11"
  "bit SPI_USER0_RD_BYTE_ORDER n \<longleftrightarrow> n = 10"
  "bit SPI_USER0_CLOCK_OUT_EDGE n \<longleftrightarrow> n = 7"
  "bit SPI_USER0_CLOCK_IN_EDGE n \<longleftrightarrow> n = 6"
  "bit SPI_USER0_CS_SETUP n \<longleftrightarrow> n = 5"
  "bit SPI_USER0_CS_HOLD n \<longleftrightarrow> n = 4"
  "bit SPI_USER0_DUPLEX n \<longleftrightarrow> n = 0"
  "bit SPI_PIN_IDLE_EDGE n \<longleftrightarrow> n = 29"
  "bit SPI_CTRL0_WR_BIT_ORDER n \<longleftrightarrow> n = 26"
  "bit SPI_CTRL0_RD_BIT_ORDER n \<longleftrightarrow> n = 25"
  unfolding spi_bits by (rule bit_single, simp)+

lemma and_bit_0: "k < 32 \<Longrightarrow> x AND push_bit k 1 = (0 :: 32 word) \<longleftrightarrow> \<not> bit x k"
  using bit_single [of k] bit_and_iff [of x "push_bit k 1"] by (metis bit_0_eq bit_word_eqI bot_apply bot_bool_def)

lemma spi_test:
  "x AND SPI_CMD_USR = 0 \<longleftrightarrow> \<not> bit x 18"
  "x AND SPI_USER0_COMMAND = 0 \<longleftrightarrow> \<not> bit x 31"
  "x AND SPI_USER0_ADDR = 0 \<longleftrightarrow> \<not> bit x 30"
  "x AND SPI_USER0_DUMMY = 0 \<longleftrightarrow> \<not> bit x 29"
  "x AND SPI_USER0_MISO = 0 \<longleftrightarrow> \<not> bit x 28"
  "x AND SPI_USER0_MOSI = 0 \<longleftrightarrow> \<not> bit x 27"
  "x AND SPI_USER0_WR_BYTE_ORDER = 0 \<longleftrightarrow> \<not> bit x 11"
  "x AND SPI_USER0_RD_BYTE_ORDER = 0 \<longleftrightarrow> \<not> bit x 10"
  "x AND SPI_USER0_CLOCK_OUT_EDGE = 0 \<longleftrightarrow> \<not> bit x 7"
  "x AND SPI_USER0_CLOCK_IN_EDGE = 0 \<longleftrightarrow> \<not> bit x 6"
  "x AND SPI_USER0_CS_SETUP = 0 \<longleftrightarrow> \<not> bit x 5"
  "x AND SPI_USER0_CS_HOLD = 0 \<longleftrightarrow> \<not> bit x 4"
  "x AND SPI_USER0_DUPLEX = 0 \<longleftrightarrow> \<not> bit x 0"
  "x AND SPI_PIN_IDLE_EDGE = 0 \<longleftrightarrow> \<not> bit x 29"
  "x AND SPI_CTRL0_WR_BIT_ORDER = 0 \<longleftrightarrow> \<not> bit x 26"
  "x AND SPI_CTRL0_RD_BIT_ORDER = 0 \<longleftrightarrow> \<not> bit x 25"
  unfolding spi_bits by (rule and_bit_0, simp)+

section \<open>Register fields\<close>

lemma bit_set_field:
  assumes "v < 2 ^ k" "n < 32" "s + k \<le> 32"
  shows "bit (set_field r (mask k) s v) n = (if s \<le> n \<and> n < s + k then bit v (n - s) else bit r n)"
proof -
  have "\<not> bit v j" if "k \<le> j" for j using assms(1) that by (metis bit_take_bit_iff linorder_not_le take_bit_nat_eq_self)
  then show ?thesis using assms by (auto simp: set_field_def bit_simps)
qed

lemma bit_field2val: "s + k \<le> 32 \<Longrightarrow> bit (field2val r (mask k) s) n = (n < k \<and> bit r (s + n))"
  by (auto simp: field2val_def bit_simps)

lemma field_same:
  assumes "v < 2 ^ k" "s + k \<le> 32"
  shows "field2val (set_field r (mask k) s v) (mask k) s = of_nat v"
proof (rule bit_word_eqI)
  fix n
  assume "n < LENGTH(32)"
  moreover have "\<not> bit v n" if "k \<le> n" using assms(1) that by (metis bit_take_bit_iff linorder_not_le take_bit_nat_eq_self)
  ultimately show "bit (field2val (set_field r (mask k) s v) (mask k) s) n = bit (of_nat v :: 32 word) n"
    using assms by (cases "n < k") (simp_all add: bit_field2val bit_set_field bit_simps)
qed

lemma field_other:
  assumes "v < 2 ^ k" "s + k \<le> 32" "s' + k' \<le> 32" "s + k \<le> s' \<or> s' + k' \<le> s"
  shows "field2val (set_field r (mask k) s v) (mask k') s' = field2val r (mask k') s'"
  using assms by (intro bit_word_eqI) (auto simp: bit_field2val bit_set_field)

lemma field_masks: "0x1ff = (mask 9 :: 32 word)" "0x3f = (mask 6 :: 32 word)" "0x1fff = (mask 13 :: 32 word)"
  by (simp_all add: mask_eq_exp_minus_1)

text \<open>The registers ask for a transaction of \<open>n\<close> bytes.\<close>

definition sized :: "nat \<Rightarrow> SPI_REGS \<Rightarrow> bool" where
  "sized n r \<longleftrightarrow> 0 < n \<and> n \<le> 64 \<and> field2val (USER1 r) 0x1ff 8 = of_nat (8 * n - 1) \<and> field2val (USER1 r) 0x1ff 17 = of_nat (8 * n - 1)"

lemma set_size_sized:
  assumes "0 < n" "n \<le> 64"
  shows "\<exists>u. set_size bus n s = set_spi bus (\<lambda>r. r\<lparr>USER1 := u\<rparr>) s \<and> sized n (SPI (set_size bus n s) bus)"
proof -
  have bits: "u32_sub (8 * u8 n) 1 = 8 * n - 1" "8 * n - 1 < 2 ^ 9" using assms by (simp_all add: u8_def)
  have "set_size bus n s = set_spi bus (\<lambda>r. r\<lparr>USER1 := set_field (set_field (USER1 (SPI s bus)) 0x1ff 8 (8 * n - 1)) 0x1ff 17 (8 * n - 1)\<rparr>) s"
    using bits by (simp add: set_size_def set_spi_def Let_def)
  moreover have "sized n (SPI (set_size bus n s) bus)"
    unfolding sized_def set_size_def Let_def bits field_masks using assms field_same [OF bits(2)] field_other [OF bits(2)] by (simp add: set_spi_def)
  ultimately show ?thesis by blast
qed

section \<open>The controller\<close>

text \<open>The optional phases in front of the data, and the byte order of both directions.\<close>

definition extras :: "SPI_REGS \<Rightarrow> 32 word" where
  "extras r = USER0 r AND (SPI_USER0_COMMAND OR SPI_USER0_ADDR OR SPI_USER0_DUMMY OR SPI_USER0_MISO)"

definition byte_order :: "spi_endianness_t \<Rightarrow> SPI_REGS \<Rightarrow> bool" where
  "byte_order e r \<longleftrightarrow> (USER0 r AND SPI_USER0_WR_BYTE_ORDER \<noteq> 0 \<longleftrightarrow> e = SPI_BIG_ENDIAN) \<and> (USER0 r AND SPI_USER0_RD_BYTE_ORDER \<noteq> 0 \<longleftrightarrow> e = SPI_BIG_ENDIAN)"

definition idle :: "SPI_REGS \<Rightarrow> bool" where
  "idle r \<longleftrightarrow> CMD r AND SPI_CMD_USR = 0 \<and> length (W r) = 16"

definition on_wire :: "spi_endianness_t \<Rightarrow> nat \<Rightarrow> SPI_REGS \<Rightarrow> byte list" where
  "on_wire e n r = take n (concat (map (wire_word e) (W r)))"

lemma word_of_byte: "word_bytes (push_bit 24 (ucast b) OR push_bit 16 (ucast b) OR push_bit 8 (ucast b) OR ucast b) = [b, b, b, b]"
  by (auto simp: word_bytes_def intro!: bit_word_eqI) (auto simp: bit_simps dest: bit_imp_le_length)

lemma length_words: "(\<And>w. length (f w) = 4) \<Longrightarrow> length (concat (map f ws)) = 4 * length ws"
  by (induction ws) simp_all

text \<open>
  A transaction is logged with its phases, the bytes that were sent and those that were received. The command bit stays
  set until it is complete, for a finite time.
\<close>

locale spi_controller =
  fixes hw :: "'e spi_hw" and bus :: nat and log :: "'e \<Rightarrow> (32 word \<times> byte list \<times> byte list) list"
  assumes at_rest: "CMD r AND SPI_CMD_USR = 0 \<Longrightarrow> \<exists>e'. hw bus r en = (r, e') \<and> log e' = log en"
    and runs: "SPI s bus = r \<Longrightarrow> CMD r AND SPI_CMD_USR \<noteq> 0 \<Longrightarrow> length (W r) = 16 \<Longrightarrow> sized n r \<Longrightarrow> byte_order e r \<Longrightarrow>
      \<exists>ws en. spi_wait hw bus s = Some (set_spi bus (\<lambda>r. r\<lparr>CMD := CMD r AND NOT SPI_CMD_USR, W := ws\<rparr>) (s\<lparr>env := en\<rparr>)) \<and> length ws = 16
        \<and> log en = log (env s) @ [(extras r, on_wire e n r, take n (concat (map (wire_word e) ws)))]"
begin

lemma wait_idle:
  assumes "idle (SPI s bus)"
  shows "\<exists>en. spi_wait hw bus s = Some (s\<lparr>env := en\<rparr>) \<and> log en = log (env s)"
proof -
  obtain en where "hw bus (SPI s bus) (env s) = (SPI s bus, en)" "log en = log (env s)" using at_rest [of "SPI s bus" "env s"] assms by (auto simp: idle_def)
  moreover have "set_spi bus (\<lambda>_. SPI s bus) (s\<lparr>env := en\<rparr>) = s\<lparr>env := en\<rparr>" for en by (simp add: set_spi_def)
  ultimately have "spi_wait hw bus s = Some (s\<lparr>env := en\<rparr>)" using assms by (subst spi_wait.simps) (simp add: idle_def)
  then show ?thesis using \<open>log en = log (env s)\<close> by blast
qed

end

text \<open>What a transfer leaves alone.\<close>

definition same_settings :: "nat \<Rightarrow> 'e spi_state \<Rightarrow> 'e spi_state \<Rightarrow> bool" where
  "same_settings bus s s' \<longleftrightarrow> minimal_pins s' = minimal_pins s \<and> extras_status s' = extras_status s \<and> IOMUX_CONF s' = IOMUX_CONF s \<and> IOMUX_PIN s' = IOMUX_PIN s
     \<and> (\<forall>b. b \<noteq> bus \<longrightarrow> SPI s' b = SPI s b) \<and> USER0 (SPI s' bus) = USER0 (SPI s bus) \<and> USER2 (SPI s' bus) = USER2 (SPI s bus)
     \<and> ADDR (SPI s' bus) = ADDR (SPI s bus) \<and> CTRL0 (SPI s' bus) = CTRL0 (SPI s bus) \<and> CLOCK (SPI s' bus) = CLOCK (SPI s bus) \<and> PIN (SPI s' bus) = PIN (SPI s bus)"

context spi_controller
begin

lemma started:
  assumes "idle (SPI s bus)" "0 < n" "n \<le> 64" "byte_order e (SPI s bus)" "length ws = 16"
  shows "\<exists>s2 rx. spi_wait hw bus (spi_start bus (set_spi bus (\<lambda>r. r\<lparr>W := ws\<rparr>) (set_size bus n s))) = Some s2
    \<and> idle (SPI s2 bus) \<and> same_settings bus s s2 \<and> on_wire e n (SPI s2 bus) = rx
    \<and> log (env s2) = log (env s) @ [(extras (SPI s bus), take n (concat (map (wire_word e) ws)), rx)]"
proof -
  obtain u where u: "set_size bus n s = set_spi bus (\<lambda>r. r\<lparr>USER1 := u\<rparr>) s" "sized n (SPI (set_size bus n s) bus)"
    using set_size_sized [OF assms(2,3), of bus s] by blast
  let ?s3 = "spi_start bus (set_spi bus (\<lambda>r. r\<lparr>W := ws\<rparr>) (set_size bus n s))"
  let ?r = "SPI ?s3 bus"
  have r: "?r = (SPI s bus)\<lparr>USER1 := u, W := ws, CMD := CMD (SPI s bus) OR SPI_CMD_USR\<rparr>" by (simp add: spi_start_def set_spi_def u(1))
  have "CMD ?r AND SPI_CMD_USR \<noteq> 0" by (simp add: r SPI_CMD_USR_def)
  moreover have "sized n ?r" using u(2) by (simp add: sized_def spi_start_def set_spi_def)
  moreover have "byte_order e ?r" using assms(4) by (simp add: r byte_order_def)
  ultimately obtain ws' en where run: "spi_wait hw bus ?s3 = Some (set_spi bus (\<lambda>r. r\<lparr>CMD := CMD r AND NOT SPI_CMD_USR, W := ws'\<rparr>) (?s3\<lparr>env := en\<rparr>))"
      "length ws' = 16" "log en = log (env ?s3) @ [(extras ?r, on_wire e n ?r, take n (concat (map (wire_word e) ws')))]"
    using runs [of ?s3 ?r n e] assms(5) by (auto simp: r)
  let ?s2 = "set_spi bus (\<lambda>r. r\<lparr>CMD := CMD r AND NOT SPI_CMD_USR, W := ws'\<rparr>) (?s3\<lparr>env := en\<rparr>)"
  have env: "env ?s3 = env s" by (simp add: spi_start_def set_spi_def u(1))
  have "idle (SPI ?s2 bus)" using run(2) by (simp add: idle_def set_spi_def spi_test bit_simps spi_bit)
  moreover have "same_settings bus s ?s2" by (simp add: same_settings_def set_spi_def spi_start_def u(1))
  moreover have "on_wire e n (SPI ?s2 bus) = take n (concat (map (wire_word e) ws'))" by (simp add: on_wire_def set_spi_def)
  moreover have "extras ?r = extras (SPI s bus)" by (simp add: r extras_def)
  moreover have "on_wire e n ?r = take n (concat (map (wire_word e) ws))" by (simp add: r on_wire_def)
  moreover have "log (env ?s2) = log en" by (simp add: set_spi_def)
  ultimately show ?thesis using run env by (intro exI [of _ ?s2]) simp
qed

lemma transaction:
  assumes "idle (SPI s bus)" "0 < n" "n \<le> 64" "byte_order e (SPI s bus)" "length ws = 16"
  shows "\<exists>s1 s2 rx. spi_wait hw bus s = Some s1
    \<and> spi_wait hw bus (spi_start bus (set_spi bus (\<lambda>r. r\<lparr>W := ws\<rparr>) (set_size bus n s1))) = Some s2
    \<and> W (SPI s1 bus) = W (SPI s bus) \<and> idle (SPI s2 bus) \<and> same_settings bus s s2 \<and> on_wire e n (SPI s2 bus) = rx
    \<and> log (env s2) = log (env s) @ [(extras (SPI s bus), take n (concat (map (wire_word e) ws)), rx)]"
proof -
  obtain en where w: "spi_wait hw bus s = Some (s\<lparr>env := en\<rparr>)" "log en = log (env s)" using wait_idle [OF assms(1)] by blast
  have "same_settings bus (s\<lparr>env := en\<rparr>) s2 \<Longrightarrow> same_settings bus s s2" for s2 by (simp add: same_settings_def)
  then show ?thesis using w started [of "s\<lparr>env := en\<rparr>" n e ws] assms by auto
qed

text \<open>The bus is at rest and its byte order is \<open>e\<close>.\<close>

definition ready :: "spi_endianness_t \<Rightarrow> 'e spi_state \<Rightarrow> bool" where
  "ready e s \<longleftrightarrow> idle (SPI s bus) \<and> byte_order e (SPI s bus)"

lemma ready_same: "ready e s \<Longrightarrow> same_settings bus s s' \<Longrightarrow> idle (SPI s' bus) \<Longrightarrow> ready e s'"
  by (simp add: ready_def same_settings_def byte_order_def)

definition does :: "spi_endianness_t \<Rightarrow> nat \<Rightarrow> byte list \<Rightarrow> (byte list \<Rightarrow> byte list) \<Rightarrow> ('e spi_state \<Rightarrow> (byte list \<times> 'e spi_state) option) \<Rightarrow> bool" where
  "does e n tx f act \<longleftrightarrow> (\<forall>s. ready e s \<longrightarrow> (\<exists>s' rx. act s = Some (f rx, s') \<and> ready e s' \<and> same_settings bus s s' \<and> length rx = n
     \<and> log (env s') = log (env s) @ [(extras (SPI s bus), tx, rx)]))"

lemma buf_transfer_does:
  assumes "0 < len" "n = len * word_size sz" "n \<le> 64" "n \<le> length data"
  shows "does e n (order e sz (take n data)) (\<lambda>rx. if has_in then order e sz rx else []) (spi_buf_transfer hw bus data has_in len e sz)"
  unfolding does_def
proof (intro allI impI)
  fix s
  assume r: "ready e s"
  let ?st = "store_data data n (W (SPI s bus))"
  let ?ws = "spi_buf_prepare len e sz ?st"
  have n: "0 < n" using assms(1,2) by simp
  have W: "length (W (SPI s bus)) = 16" using r by (simp add: ready_def idle_def)
  have st: "length ?st = 16" "take n (concat (map word_bytes ?st)) = take n data" using store_data_bytes [of n data "W (SPI s bus)"] assms W by simp_all
  have "length ?ws = 16" using st(1) by (simp add: prepare_swaps)
  then obtain s1 s2 rx where tr: "spi_wait hw bus s = Some s1" "spi_wait hw bus (spi_start bus (set_spi bus (\<lambda>r. r\<lparr>W := ?ws\<rparr>) (set_size bus n s1))) = Some s2"
      "W (SPI s1 bus) = W (SPI s bus)" "idle (SPI s2 bus)" "same_settings bus s s2" "on_wire e n (SPI s2 bus) = rx"
      "log (env s2) = log (env s) @ [(extras (SPI s bus), take n (concat (map (wire_word e) ?ws)), rx)]"
    using transaction [of s n e ?ws] r n assms(3) by (auto simp: ready_def)
  have tx: "take n (concat (map (wire_word e) ?ws)) = order e sz (take n data)"
    using prepared [of "wire_word e" e sz word_bytes n len ?st] swap_wire assms(2,3) st by simp
  have sz: "W (SPI (set_size bus n s1) bus) = W (SPI s bus)" by (simp add: set_size_def set_spi_def Let_def tr(3))
  let ?s5 = "set_spi bus (\<lambda>r. r\<lparr>W := spi_buf_prepare len e sz (W r)\<rparr>) s2"
  have res: "spi_buf_transfer hw bus data has_in len e sz s
      = (if has_in then Some (take n (concat (map word_bytes (W (SPI ?s5 bus)))), ?s5) else Some ([], s2))"
    using tr(1,2) sz by (simp add: spi_buf_transfer_def assms(2) [symmetric] Let_def set_spi_def)
  have l2: "length (W (SPI s2 bus)) = 16" using tr(4) by (simp add: idle_def)
  have "take n (concat (map word_bytes (W (SPI ?s5 bus)))) = order e sz rx"
    using prepared [of word_bytes e sz "wire_word e" n len "W (SPI s2 bus)"] swap_memory assms(2,3) l2 tr(6) by (simp add: set_spi_def on_wire_def)
  moreover have "idle (SPI ?s5 bus)" using tr(4) by (simp add: idle_def set_spi_def prepare_swaps)
  moreover have "same_settings bus s ?s5" using tr(5) by (simp add: same_settings_def set_spi_def)
  moreover have "length (concat (map (wire_word e) xs)) = 4 * length xs" for xs by (induction xs) simp_all
  then have "length rx = n" using l2 assms(3) tr(6) [symmetric] by (simp add: on_wire_def)
  moreover have "log (env ?s5) = log (env s2)" by (simp add: set_spi_def)
  ultimately show "\<exists>s' rx. spi_buf_transfer hw bus data has_in len e sz s = Some (if has_in then order e sz rx else [], s') \<and> ready e s' \<and> same_settings bus s s' \<and> length rx = n
      \<and> log (env s') = log (env s) @ [(extras (SPI s bus), order e sz (take n data), rx)]"
    using res tr tx r ready_same by (cases has_in) (auto intro!: exI [of _ rx])
qed

lemma buf_read_does:
  assumes "0 < len" "n = len * word_size sz" "n \<le> 64"
  shows "does e n (replicate n b) (order e sz) (spi_buf_read hw bus b len e sz)"
  unfolding does_def
proof (intro allI impI)
  fix s
  assume r: "ready e s"
  let ?w = "push_bit 24 (ucast b) OR push_bit 16 (ucast b) OR push_bit 8 (ucast b) OR ucast b :: 32 word"
  let ?ws = "replicate (SPI_BUF_SIZE div 4) ?w"
  have n: "0 < n" using assms(1,2) by simp
  have ws: "length ?ws = 16" by (simp add: SPI_BUF_SIZE_def)
  obtain s1 s2 rx where tr: "spi_wait hw bus s = Some s1" "spi_wait hw bus (spi_start bus (set_spi bus (\<lambda>r. r\<lparr>W := ?ws\<rparr>) (set_size bus n s1))) = Some s2"
      "idle (SPI s2 bus)" "same_settings bus s s2" "on_wire e n (SPI s2 bus) = rx"
      "log (env s2) = log (env s) @ [(extras (SPI s bus), take n (concat (map (wire_word e) ?ws)), rx)]"
    using transaction [of s n e ?ws] r n assms(3) ws by (auto simp: ready_def)
  have "wire_word e ?w = replicate 4 b" unfolding wire_word_def word_of_byte by (simp add: numeral_eq_Suc)
  moreover have "concat (replicate k (replicate 4 b)) = replicate (4 * k) b" for k by (induction k) (simp_all add: replicate_add [symmetric])
  ultimately have "concat (map (wire_word e) ?ws) = replicate 64 b" by (simp only: map_replicate) (simp add: SPI_BUF_SIZE_def)
  then have tx: "take n (concat (map (wire_word e) ?ws)) = replicate n b" using assms(3) by (simp only: take_replicate) (simp add: min_def)
  let ?s5 = "set_spi bus (\<lambda>r. r\<lparr>W := spi_buf_prepare len e sz (W r)\<rparr>) s2"
  have res: "spi_buf_read hw bus b len e sz s = Some (take n (concat (map word_bytes (W (SPI ?s5 bus)))), ?s5)"
    unfolding spi_buf_read_def assms(2) [symmetric] Let_def using tr(1,2) by simp
  have l2: "length (W (SPI s2 bus)) = 16" using tr(3) by (simp add: idle_def)
  have "take n (concat (map word_bytes (W (SPI ?s5 bus)))) = order e sz rx"
    using prepared [of word_bytes e sz "wire_word e" n len "W (SPI s2 bus)"] swap_memory assms(2,3) l2 tr(5) by (simp add: set_spi_def on_wire_def)
  moreover have "idle (SPI ?s5 bus)" using tr(3) by (simp add: idle_def set_spi_def prepare_swaps)
  moreover have "same_settings bus s ?s5" using tr(4) by (simp add: same_settings_def set_spi_def)
  moreover have "length rx = n" using l2 assms(3) tr(5) [symmetric] length_words [of "wire_word e"] by (simp add: on_wire_def)
  moreover have "log (env ?s5) = log (env s2)" by (simp add: set_spi_def)
  ultimately show "\<exists>s' rx. spi_buf_read hw bus b len e sz s = Some (order e sz rx, s') \<and> ready e s' \<and> same_settings bus s s' \<and> length rx = n
      \<and> log (env s') = log (env s) @ [(extras (SPI s bus), replicate n b, rx)]"
    using res tr(6) tx r ready_same by (auto intro!: exI [of _ rx])
qed

end

end
