(* ===== verification/Esp_spi_Transfer.thy ===== *)
theory Esp_spi_Transfer
  imports Esp_spi_Wire
begin

text \<open>
  Transfers of any length: a sequence of transactions of at most 64 bytes, of which only the first has the optional phases when
  the chip select is not driven by the controller. The settings survive, with two exceptions.
\<close>

section \<open>Phases only once\<close>

text \<open>With the minimal pins the phases in front of the data are for the first transaction of a transfer only.\<close>

definition armed :: "nat \<Rightarrow> 'e spi_state \<Rightarrow> bool" where
  "armed bus s \<longleftrightarrow> minimal_pins s bus \<and> USER0 (SPI s bus) AND (SPI_USER0_ADDR OR SPI_USER0_COMMAND OR SPI_USER0_DUMMY) \<noteq> 0"

definition later_extras :: "nat \<Rightarrow> 'e spi_state \<Rightarrow> 32 word" where
  "later_extras bus s = (if minimal_pins s bus then if USER0 (SPI s bus) AND SPI_USER0_DUMMY = 0 then USER0 (SPI s bus) AND SPI_USER0_MISO else 0
     else extras (SPI s bus))"

lemma and_or_0: "x AND (y OR z) = 0 \<longleftrightarrow> x AND y = 0 \<and> x AND (z :: 32 word) = 0"
  by (auto simp: bit_eq_iff bit_simps)

lemma not_armed: "\<not> armed bus s \<Longrightarrow> rearm_extras_bit bus False s = s"
  by (auto simp: armed_def rearm_extras_bit_def save_extra_def and_or_0)

definition disarmed :: "32 word \<Rightarrow> 32 word" where
  "disarmed x = (let y = (x AND NOT SPI_USER0_ADDR) AND NOT SPI_USER0_COMMAND in if x AND SPI_USER0_DUMMY = 0 then y else y AND NOT (SPI_USER0_DUMMY OR SPI_USER0_MISO))"

definition saved :: "32 word \<Rightarrow> byte" where
  "saved x = (if x AND SPI_USER0_ADDR = 0 then 0 else 1) OR (if x AND SPI_USER0_COMMAND = 0 then 0 else 2) OR (if x AND SPI_USER0_DUMMY = 0 then 0 else 4)"

lemma and_not_0: "x AND a = 0 \<Longrightarrow> x AND NOT a = (x :: 32 word)"
  by (auto simp: bit_eq_iff bit_simps)

lemma other_bits: "(x AND NOT SPI_USER0_ADDR) AND SPI_USER0_COMMAND = x AND SPI_USER0_COMMAND" "(x AND NOT SPI_USER0_ADDR) AND SPI_USER0_DUMMY = x AND SPI_USER0_DUMMY"
  "(x AND NOT SPI_USER0_COMMAND) AND SPI_USER0_DUMMY = x AND SPI_USER0_DUMMY"
  by (rule bit_word_eqI, auto simp: bit_simps spi_bit)+

lemma save_one:
  "save_extra bus a a f s = set_spi bus (\<lambda>r. r\<lparr>USER0 := USER0 r AND NOT a\<rparr>)
     (s\<lparr>extras_status := (extras_status s)(bus := extras_status s bus OR (if USER0 (SPI s bus) AND a = 0 then 0 else f))\<rparr>)"
  by (cases "USER0 (SPI s bus) AND a = 0") (simp_all add: save_extra_def set_spi_def and_not_0)

lemma rearm_saves:
  assumes "minimal_pins s bus" "extras_status s bus = 0"
  shows "rearm_extras_bit bus False s
    = set_spi bus (\<lambda>r. r\<lparr>USER0 := disarmed (USER0 r)\<rparr>) (s\<lparr>extras_status := (extras_status s)(bus := saved (USER0 (SPI s bus)))\<rparr>)"
  using assms unfolding rearm_extras_bit_def save_one
  by (cases "USER0 (SPI s bus) AND SPI_USER0_DUMMY = 0") (simp_all add: save_extra_def set_spi_def disarmed_def saved_def other_bits Let_def)

lemma bit_disarmed: "bit (disarmed x) n \<longleftrightarrow> bit x n \<and> n \<noteq> 30 \<and> n \<noteq> 31 \<and> \<not> (bit x 29 \<and> (n = 28 \<or> n = 29))"
  by (auto simp: disarmed_def Let_def bit_simps spi_bit spi_test dest: bit_imp_le_length)

lemma restore_one:
  "restore_extra bus f b s = set_spi bus (\<lambda>r. r\<lparr>USER0 := if extras_status s bus AND f \<noteq> 0 then USER0 r OR b else USER0 r\<rparr>) s"
  by (simp add: restore_extra_def set_spi_def)

lemma restored:
  assumes "minimal_pins s bus" "extras_status s bus = saved x" "USER0 (SPI s bus) = disarmed x"
  shows "rearm_extras_bit bus True s = set_spi bus (\<lambda>r. r\<lparr>USER0 := if x AND SPI_USER0_DUMMY = 0 then x else x OR SPI_USER0_MISO\<rparr>)
     (s\<lparr>extras_status := (extras_status s)(bus := 0)\<rparr>)"
proof -
  have a: "(if bit x 30 then disarmed x OR SPI_USER0_ADDR else disarmed x) = disarmed x OR (x AND SPI_USER0_ADDR)"
    by (rule bit_word_eqI) (auto simp: bit_simps spi_bit)
  have c: "(if bit x 31 then y OR SPI_USER0_COMMAND else y) = y OR (x AND SPI_USER0_COMMAND)" for y
    by (rule bit_word_eqI) (auto simp: bit_simps spi_bit)
  have d: "(if bit x 29 then y OR (SPI_USER0_DUMMY OR SPI_USER0_MISO) else y) = (if x AND SPI_USER0_DUMMY = 0 then x else x OR SPI_USER0_MISO)"
    if "y = disarmed x OR (x AND SPI_USER0_ADDR) OR (x AND SPI_USER0_COMMAND)" for y
    unfolding that by (rule bit_word_eqI) (auto simp: bit_simps spi_bit spi_test bit_disarmed)
  have st: "saved x AND 1 \<noteq> 0 \<longleftrightarrow> bit x 30" "saved x AND 2 \<noteq> 0 \<longleftrightarrow> bit x 31" "saved x AND 4 \<noteq> 0 \<longleftrightarrow> bit x 29"
    by (simp_all add: saved_def spi_test)
  have triv: "(SPI s bus)\<lparr>USER0 := disarmed x\<rparr> = SPI s bus" using assms(3) [symmetric] by simp
  let ?z = "if bit x 30 then disarmed x OR SPI_USER0_ADDR else disarmed x"
  let ?y = "if bit x 31 then ?z OR SPI_USER0_COMMAND else ?z"
  have "rearm_extras_bit bus True s = set_spi bus (\<lambda>r. r\<lparr>USER0 := if bit x 29 then ?y OR (SPI_USER0_DUMMY OR SPI_USER0_MISO) else ?y\<rparr>)
     (s\<lparr>extras_status := (extras_status s)(bus := 0)\<rparr>)"
    unfolding rearm_extras_bit_def restore_one using assms st
    by (cases "bit x 30"; cases "bit x 31"; cases "bit x 29") (simp_all add: set_spi_def Let_def triv)
  moreover have "?y = disarmed x OR (x AND SPI_USER0_ADDR) OR (x AND SPI_USER0_COMMAND)" unfolding a c by (simp only: or.assoc)
  ultimately show ?thesis using d by simp
qed

lemma disarm_facts:
  assumes "extras_status s bus = 0"
  shows "\<not> armed bus (rearm_extras_bit bus False s)" "extras (SPI (rearm_extras_bit bus False s) bus) = later_extras bus s"
    and "env (rearm_extras_bit bus False s) = env s" "idle (SPI (rearm_extras_bit bus False s) bus) = idle (SPI s bus)"
    and "byte_order e (SPI (rearm_extras_bit bus False s) bus) = byte_order e (SPI s bus)"
proof -
  have m: "minimal_pins s bus \<Longrightarrow> rearm_extras_bit bus False s
      = set_spi bus (\<lambda>r. r\<lparr>USER0 := disarmed (USER0 r)\<rparr>) (s\<lparr>extras_status := (extras_status s)(bus := saved (USER0 (SPI s bus)))\<rparr>)"
    using rearm_saves assms by blast
  have n: "\<not> minimal_pins s bus \<Longrightarrow> rearm_extras_bit bus False s = s" by (simp add: rearm_extras_bit_def)
  have x: "disarmed u AND (SPI_USER0_COMMAND OR SPI_USER0_ADDR OR SPI_USER0_DUMMY OR SPI_USER0_MISO) = (if u AND SPI_USER0_DUMMY = 0 then u AND SPI_USER0_MISO else 0)" for u
    by (rule bit_word_eqI) (auto simp: bit_simps spi_bit spi_test bit_disarmed)
  show "\<not> armed bus (rearm_extras_bit bus False s)"
    by (cases "minimal_pins s bus") (auto simp: m n armed_def set_spi_def and_or_0 spi_test bit_disarmed)
  show "extras (SPI (rearm_extras_bit bus False s) bus) = later_extras bus s"
    by (cases "minimal_pins s bus") (simp_all add: m n later_extras_def extras_def set_spi_def x)
  show "env (rearm_extras_bit bus False s) = env s" by (cases "minimal_pins s bus") (simp_all add: m n set_spi_def)
  show "idle (SPI (rearm_extras_bit bus False s) bus) = idle (SPI s bus)" by (cases "minimal_pins s bus") (simp_all add: m n set_spi_def idle_def)
  show "byte_order e (SPI (rearm_extras_bit bus False s) bus) = byte_order e (SPI s bus)"
    by (cases "minimal_pins s bus") (simp_all add: m n set_spi_def byte_order_def spi_test bit_disarmed)
qed

lemma same_settings_trans: "same_settings bus a b \<Longrightarrow> same_settings bus b c \<Longrightarrow> same_settings bus a c"
  by (simp add: same_settings_def)

lemma rearm_same:
  assumes "same_settings bus s s1" "extras_status s bus = 0"
  shows "same_settings bus (rearm_extras_bit bus False s) (rearm_extras_bit bus False s1)"
proof (cases "minimal_pins s bus")
  case True
  then show ?thesis using assms rearm_saves [of s bus] rearm_saves [of s1 bus] by (simp add: same_settings_def set_spi_def)
qed (use assms in \<open>simp add: rearm_extras_bit_def same_settings_def\<close>)

text \<open>The settings after a transfer of several blocks: the dummy phase is put back together with the receive phase.\<close>

definition rearmed :: "nat \<Rightarrow> 'e spi_state \<Rightarrow> 'e spi_state" where
  "rearmed bus s = set_spi bus (\<lambda>r. r\<lparr>USER0 := if minimal_pins s bus \<and> USER0 r AND SPI_USER0_DUMMY \<noteq> 0 then USER0 r OR SPI_USER0_MISO else USER0 r\<rparr>) s"

lemma rearm_back:
  assumes "same_settings bus (rearm_extras_bit bus False s) s2" "extras_status s bus = 0"
  shows "same_settings bus (rearmed bus s) (rearm_extras_bit bus True s2)" "env (rearm_extras_bit bus True s2) = env s2"
    and "idle (SPI (rearm_extras_bit bus True s2) bus) = idle (SPI s2 bus)"
proof -
  show "same_settings bus (rearmed bus s) (rearm_extras_bit bus True s2)"
  proof (cases "minimal_pins s bus")
    case True
    then have s2: "minimal_pins s2 bus" "extras_status s2 bus = saved (USER0 (SPI s bus))" "USER0 (SPI s2 bus) = disarmed (USER0 (SPI s bus))"
      using assms rearm_saves [of s bus] by (simp_all add: same_settings_def set_spi_def)
    have e: "(extras_status s)(bus := 0) = extras_status s" using assms(2) by (simp add: fun_upd_idem)
    show ?thesis
      using assms True restored [OF s2] rearm_saves [of s bus] e by (simp add: same_settings_def set_spi_def rearmed_def)
  next
    case False
    then show ?thesis using assms(1) by (simp add: rearm_extras_bit_def rearmed_def same_settings_def set_spi_def)
  qed
  show "env (rearm_extras_bit bus True s2) = env s2" "idle (SPI (rearm_extras_bit bus True s2) bus) = idle (SPI s2 bus)"
    by (simp_all add: rearm_extras_bit_def restore_one set_spi_def Let_def idle_def)
qed

section \<open>Blocks\<close>

lemma map_upt_Suc0: "map g [0..<Suc b] = g 0 # map (\<lambda>i. g (Suc i)) [0..<b]"
  by (simp only: upt_conv_Cons zero_less_Suc list.map map_Suc_upt [symmetric] map_map comp_def)

context spi_controller
begin

lemma blocks_plain:
  assumes "\<And>i. i < b \<Longrightarrow> does e 64 (tx i) f (one (drop (64 * i) data))" "ready e s" "\<not> armed bus s"
  shows "\<exists>s' rxs. spi_blocks one bus b data s = Some (concat (map f rxs), s') \<and> ready e s' \<and> same_settings bus s s' \<and> map length rxs = replicate b 64
    \<and> log (env s') = log (env s) @ map (\<lambda>i. (extras (SPI s bus), tx i, rxs ! i)) [0..<b]"
  using assms
proof (induction b arbitrary: data tx s)
  case 0
  then show ?case by (simp add: same_settings_def)
next
  case (Suc b)
  obtain s1 rx where one: "one data s = Some (f rx, s1)" "ready e s1" "same_settings bus s s1" "length rx = 64"
      "log (env s1) = log (env s) @ [(extras (SPI s bus), tx 0, rx)]"
    using Suc.prems(1) [of 0] Suc.prems(2) by (auto simp: does_def)
  have plain: "\<not> armed bus s1" "extras (SPI s1 bus) = extras (SPI s bus)" using Suc.prems(3) one(3) by (simp_all add: armed_def same_settings_def extras_def)
  have "does e 64 (tx (Suc i)) f (one (drop (64 * i) (drop 64 data)))" if "i < b" for i using Suc.prems(1) [of "Suc i"] that by (simp add: add.commute)
  then obtain s2 rxs where bl: "spi_blocks one bus b (drop 64 data) s1 = Some (concat (map f rxs), s2)" "ready e s2" "same_settings bus s1 s2" "map length rxs = replicate b 64"
      "log (env s2) = log (env s1) @ map (\<lambda>i. (extras (SPI s1 bus), tx (Suc i), rxs ! i)) [0..<b]"
    using Suc.IH [of "\<lambda>i. tx (Suc i)" "drop 64 data" s1] one(2) plain(1) by blast
  have "spi_blocks one bus (Suc b) data s = Some (concat (map f (rx # rxs)), s2)"
    using one(1) bl(1) not_armed [OF plain(1)] by (simp add: SPI_BUF_SIZE_def)
  moreover have "log (env s2) = log (env s) @ map (\<lambda>i. (extras (SPI s bus), tx i, (rx # rxs) ! i)) [0..<Suc b]"
    using one(5) bl(5) plain(2) by (simp only: map_upt_Suc0) simp
  ultimately show ?case
    using one(3,4) bl(2-4) same_settings_trans by (intro exI [of _ s2] exI [of _ "rx # rxs"]) auto
qed

text \<open>Only the first block has the phases.\<close>

lemma blocks_first:
  assumes "\<And>i. i < Suc b \<Longrightarrow> does e 64 (tx i) f (one (drop (64 * i) data))" "ready e s" "extras_status s bus = 0"
  shows "\<exists>s' rxs. spi_blocks one bus (Suc b) data s = Some (concat (map f rxs), s') \<and> ready e s' \<and> same_settings bus (rearm_extras_bit bus False s) s'
    \<and> map length rxs = replicate (Suc b) 64
    \<and> log (env s') = log (env s) @ map (\<lambda>i. (if i = 0 then extras (SPI s bus) else later_extras bus s, tx i, rxs ! i)) [0..<Suc b]"
proof -
  obtain s1 rx where one: "one data s = Some (f rx, s1)" "ready e s1" "same_settings bus s s1" "length rx = 64"
      "log (env s1) = log (env s) @ [(extras (SPI s bus), tx 0, rx)]"
    using assms(1) [of 0] assms(2) by (auto simp: does_def)
  have st: "extras_status s1 bus = 0" using assms(3) one(3) by (simp add: same_settings_def)
  let ?s = "rearm_extras_bit bus False s1"
  note d = disarm_facts [OF st]
  have later: "later_extras bus s1 = later_extras bus s" using one(3) by (simp add: later_extras_def same_settings_def extras_def)
  have "ready e ?s" using one(2) d by (simp add: ready_def)
  moreover have "does e 64 (tx (Suc i)) f (one (drop (64 * i) (drop 64 data)))" if "i < b" for i using assms(1) [of "Suc i"] that by (simp add: add.commute)
  ultimately obtain s2 rxs where bl: "spi_blocks one bus b (drop 64 data) ?s = Some (concat (map f rxs), s2)" "ready e s2" "same_settings bus ?s s2" "map length rxs = replicate b 64"
      "log (env s2) = log (env ?s) @ map (\<lambda>i. (extras (SPI ?s bus), tx (Suc i), rxs ! i)) [0..<b]"
    using blocks_plain [of b e "\<lambda>i. tx (Suc i)" f one "drop 64 data" ?s] d(1) by blast
  have "spi_blocks one bus (Suc b) data s = Some (concat (map f (rx # rxs)), s2)" using one(1) bl(1) by (simp add: SPI_BUF_SIZE_def)
  moreover have "log (env s2) = log (env s) @ map (\<lambda>i. (if i = 0 then extras (SPI s bus) else later_extras bus s, tx i, (rx # rxs) ! i)) [0..<Suc b]"
    using one(5) bl(5) d(2,3) later by (simp only: map_upt_Suc0) simp
  moreover have "same_settings bus (rearm_extras_bit bus False s) s2" using rearm_same [OF one(3) assms(3)] bl(3) same_settings_trans by blast
  ultimately show ?thesis using one(4) bl(2,4) by (intro exI [of _ s2] exI [of _ "rx # rxs"]) auto
qed

text \<open>The shape of \<open>spi_transfer\<close> and \<open>spi_read\<close>: full blocks, the rest, and the phases restored.\<close>

definition in_blocks :: "(byte list \<Rightarrow> 'e spi_state \<Rightarrow> (byte list \<times> 'e spi_state) option) \<Rightarrow> ('e spi_state \<Rightarrow> (byte list \<times> 'e spi_state) option) \<Rightarrow> nat \<Rightarrow> nat
    \<Rightarrow> byte list \<Rightarrow> 'e spi_state \<Rightarrow> (byte list \<times> 'e spi_state) option" where
  "in_blocks one tl_act b k data s =
     do {
       (xs, s1) \<leftarrow> spi_blocks one bus b data s;
       (ys, s2) \<leftarrow> (if k \<noteq> 0 then tl_act s1 else Some ([], s1));
       Some (xs @ ys, if b \<noteq> 0 then rearm_extras_bit bus True s2 else s2)
     }"

lemma in_blocks_does:
  assumes one: "\<And>i. i < b \<Longrightarrow> does e 64 (tx i) f (one (drop (64 * i) data))" and tl: "k \<noteq> 0 \<Longrightarrow> does e n (tx b) f tl_act"
    and s: "ready e s" "extras_status s bus = 0" and N: "N = (if k \<noteq> 0 then Suc b else b)" "0 < N"
  shows "\<exists>s' rxs. in_blocks one tl_act b k data s = Some (concat (map f rxs), s') \<and> idle (SPI s' bus)
    \<and> same_settings bus (if b \<noteq> 0 then rearmed bus s else s) s' \<and> map length rxs = replicate b 64 @ (if k \<noteq> 0 then [n] else [])
    \<and> log (env s') = log (env s) @ map (\<lambda>i. (if i = 0 then extras (SPI s bus) else later_extras bus s, tx i, rxs ! i)) [0..<N]"
proof (cases b)
  case 0
  then have k: "k \<noteq> 0" "N = 1" using N by (simp_all split: if_splits)
  then obtain s' rx where "tl_act s = Some (f rx, s')" "ready e s'" "same_settings bus s s'" "length rx = n" "log (env s') = log (env s) @ [(extras (SPI s bus), tx b, rx)]"
    using tl s(1) unfolding does_def by blast
  then show ?thesis using 0 k by (intro exI [of _ s'] exI [of _ "[rx]"]) (simp add: in_blocks_def ready_def)
next
  case (Suc b')
  obtain s1 rxs where bl: "spi_blocks one bus b data s = Some (concat (map f rxs), s1)" "ready e s1" "same_settings bus (rearm_extras_bit bus False s) s1"
      "map length rxs = replicate b 64"
      "log (env s1) = log (env s) @ map (\<lambda>i. (if i = 0 then extras (SPI s bus) else later_extras bus s, tx i, rxs ! i)) [0..<b]"
    using blocks_first [of b' e tx f one data s] one s Suc by blast
  have l: "length rxs = b" using bl(4) by (metis length_map length_replicate)
  have ex: "extras (SPI s1 bus) = later_extras bus s" using bl(3) disarm_facts(2) [OF s(2)] by (simp add: same_settings_def extras_def)
  show ?thesis
  proof (cases "k = 0")
    case True
    have "in_blocks one tl_act b k data s = Some (concat (map f rxs), rearm_extras_bit bus True s1)" using bl(1) True Suc by (simp add: in_blocks_def)
    then show ?thesis using bl(2,4,5) N True Suc rearm_back [OF bl(3) s(2)]
      by (intro exI [of _ "rearm_extras_bit bus True s1"] exI [of _ rxs]) (simp add: ready_def)
  next
    case False
    then obtain s2 rx where tr: "tl_act s1 = Some (f rx, s2)" "ready e s2" "same_settings bus s1 s2" "length rx = n" "log (env s2) = log (env s1) @ [(extras (SPI s1 bus), tx b, rx)]"
      using tl bl(2) unfolding does_def by blast
    have b3: "same_settings bus (rearm_extras_bit bus False s) s2" using bl(3) tr(3) same_settings_trans by blast
    have act: "in_blocks one tl_act b k data s = Some (concat (map f (rxs @ [rx])), rearm_extras_bit bus True s2)" using bl(1) tr(1) False Suc by (simp add: in_blocks_def)
    have eq: "map (\<lambda>i. (if i = 0 then extras (SPI s bus) else later_extras bus s, tx i, rxs ! i)) [0..<b]
        = map (\<lambda>i. (if i = 0 then extras (SPI s bus) else later_extras bus s, tx i, (rxs @ [rx]) ! i)) [0..<b]"
      using l by (intro map_cong) (simp_all add: nth_append)
    have "b \<noteq> 0" "N = Suc b" "(rxs @ [rx]) ! b = rx" using Suc False N l nth_append_length [of rxs rx "[]"] by auto
    then have lg: "log (env s2) = log (env s) @ map (\<lambda>i. (if i = 0 then extras (SPI s bus) else later_extras bus s, tx i, (rxs @ [rx]) ! i)) [0..<N]"
      unfolding tr(5) bl(5) ex eq by simp
    from act show ?thesis using bl(4) tr(2,4) lg False \<open>b \<noteq> 0\<close> rearm_back [OF b3 s(2)]
      by (intro exI [of _ "rearm_extras_bit bus True s2"] exI [of _ "rxs @ [rx]"]) (simp add: ready_def)
  qed
qed

end

lemma block_sizes:
  assumes "B = 64 div word_size sz" "b = len div B" "k = len mod B" "0 < len"
  shows "B * word_size sz = 64" "k * word_size sz < 64" "len * word_size sz = 64 * b + k * word_size sz" "0 < B" "k < B"
    and "(len * word_size sz + 63) div 64 = (if k \<noteq> 0 then Suc b else b)"
proof -
  show B: "B * word_size sz = 64" "0 < B" using assms(1) by (cases sz; simp)+
  show k: "k < B" using assms(3) B(2) by simp
  have "k * word_size sz < B * word_size sz" using k by simp
  then show k64: "k * word_size sz < 64" unfolding B(1) .
  have "len = b * B + k" using assms(2,3) by simp
  then have "len * word_size sz = b * (B * word_size sz) + k * word_size sz" by (simp add: algebra_simps)
  then show len: "len * word_size sz = 64 * b + k * word_size sz" unfolding B(1) by simp
  have up: "(64 * b + x + 63) div 64 = Suc b" if "0 < x" "x < 64" for x
  proof -
    have "64 * b + x + 63 = (x - 1) + Suc b * 64" using that by simp
    moreover have "((x - 1) + Suc b * 64) div 64 = Suc b + (x - 1) div 64" by (rule div_mult_self1) simp
    ultimately show ?thesis using that by simp
  qed
  have "k \<noteq> 0 \<Longrightarrow> 0 < k * word_size sz" by simp
  then show "(len * word_size sz + 63) div 64 = (if k \<noteq> 0 then Suc b else b)" unfolding len using k64 up by auto
qed

lemma block_lengths:
  assumes "length data = 64 * b + n" "n < 64"
  shows "map (\<lambda>i. length (take 64 (drop (64 * i) data))) [0..<(if c then Suc b else b)] = replicate b 64 @ (if c then [n] else [])"
proof -
  have "map (\<lambda>i. length (take 64 (drop (64 * i) data))) [0..<b] = map (\<lambda>i. 64) [0..<b]"
  proof (rule map_cong)
    fix i
    assume "i \<in> set [0..<b]"
    then have "64 * Suc i \<le> 64 * b" by simp
    then show "length (take 64 (drop (64 * i) data)) = 64" using assms(1) by simp
  qed simp
  then show ?thesis using assms by (simp add: map_replicate_const)
qed

context spi_controller
begin

lemma endianness_ready: "ready e s \<Longrightarrow> spi_get_endianness bus s = e"
  by (cases e) (auto simp: ready_def byte_order_def spi_get_endianness_def and_or_0)

lemma transfer_log:
  assumes "ready e s" "extras_status s bus = 0" "0 < len" "length data = len * word_size sz"
  shows "\<exists>s' rxs. spi_transfer hw bus (Some data) has_in len sz s = Some (len, concat (map (\<lambda>rx. if has_in then order e sz rx else []) rxs), s') \<and> idle (SPI s' bus)
    \<and> same_settings bus (if 64 \<le> length data then rearmed bus s else s) s'
    \<and> map length rxs = map (\<lambda>i. length (take 64 (drop (64 * i) data))) [0..<(length data + 63) div 64]
    \<and> log (env s') = log (env s) @ map (\<lambda>i. (if i = 0 then extras (SPI s bus) else later_extras bus s, order e sz (take 64 (drop (64 * i) data)), rxs ! i)) [0..<(length data + 63) div 64]"
proof -
  let ?B = "64 div word_size sz" let ?b = "len div ?B" let ?k = "len mod ?B" let ?n = "?k * word_size sz"
  let ?f = "\<lambda>rx. if has_in then order e sz rx else []"
  let ?one = "\<lambda>d. spi_buf_transfer hw bus d has_in ?B e sz" let ?tl = "spi_buf_transfer hw bus (drop (64 * ?b) data) has_in ?k e sz"
  let ?tx = "\<lambda>i. order e sz (take 64 (drop (64 * i) data))"
  note sz = block_sizes [OF refl refl refl assms(3), of sz]
  have data: "length data = 64 * ?b + ?n" using assms(4) sz(3) by simp
  have one: "does e 64 (?tx i) ?f (?one (drop (64 * i) data))" if "i < ?b" for i
  proof -
    have "64 * Suc i \<le> 64 * ?b" using that by simp
    then have "64 \<le> length (drop (64 * i) data)" using data by simp
    then show ?thesis using sz(1,4) by (intro buf_transfer_does) auto
  qed
  have rest: "take 64 (drop (64 * ?b) data) = take ?n (drop (64 * ?b) data)" using data sz(2) by simp
  have tl: "does e ?n (?tx ?b) ?f ?tl" if "?k \<noteq> 0" unfolding rest using that data sz(2) by (intro buf_transfer_does) auto
  have N: "(length data + 63) div 64 = (if ?k \<noteq> 0 then Suc ?b else ?b)" using sz(6) assms(4) by simp
  have "0 < length data" using assms(3,4) by simp
  then have "64 div 64 \<le> (length data + 63) div 64" by (intro div_le_mono) linarith
  then have N0: "0 < (length data + 63) div 64" by simp
  obtain s' rxs where r: "in_blocks ?one ?tl ?b ?k data s = Some (concat (map ?f rxs), s')" "idle (SPI s' bus)"
      "same_settings bus (if ?b \<noteq> 0 then rearmed bus s else s) s'" "map length rxs = replicate ?b 64 @ (if ?k \<noteq> 0 then [?n] else [])"
      "log (env s') = log (env s) @ map (\<lambda>i. (if i = 0 then extras (SPI s bus) else later_extras bus s, ?tx i, rxs ! i)) [0..<(length data + 63) div 64]"
    using in_blocks_does [of ?b e ?tx ?f ?one data ?k ?n ?tl s, OF one tl assms(1,2) N N0] by blast
  have e: "spi_get_endianness bus s = e" using assms(1) by (rule endianness_ready)
  have "spi_transfer hw bus (Some data) has_in len sz s = map_option (\<lambda>(xs, s'). (len, xs, s')) (in_blocks ?one ?tl ?b ?k data s)"
    using assms(3) unfolding spi_transfer_def in_blocks_def e SPI_BUF_SIZE_def mult.commute [of _ 64]
    by (simp add: Let_def split_def map_option_bind o_def)
  moreover have "map (\<lambda>i. length (take 64 (drop (64 * i) data))) [0..<(length data + 63) div 64] = replicate ?b 64 @ (if ?k \<noteq> 0 then [?n] else [])"
    unfolding N by (rule block_lengths [OF data sz(2)])
  moreover have "64 \<le> length data \<longleftrightarrow> ?b \<noteq> 0" using data sz(2) by (cases ?b) auto
  ultimately show ?thesis using r by auto
qed

lemma read_log:
  assumes "ready e s" "extras_status s bus = 0" "0 < len" and M_def: "M = len * word_size sz"
  shows "\<exists>s' rxs. spi_read hw bus b len sz s = Some (concat (map (order e sz) rxs), s') \<and> idle (SPI s' bus)
    \<and> same_settings bus (if 64 \<le> M then rearmed bus s else s) s' \<and> length (concat rxs) = M
    \<and> log (env s') = log (env s) @ map (\<lambda>i. (if i = 0 then extras (SPI s bus) else later_extras bus s, replicate (min 64 (M - 64 * i)) b, rxs ! i)) [0..<(M + 63) div 64]"
proof -
  let ?B = "64 div word_size sz" let ?b = "len div ?B" let ?k = "len mod ?B" let ?n = "?k * word_size sz"
  let ?one = "\<lambda>d. spi_buf_read hw bus b ?B e sz" let ?tl = "spi_buf_read hw bus b ?k e sz"
  let ?tx = "\<lambda>i. replicate (min 64 (M - 64 * i)) b"
  note sz = block_sizes [OF refl refl refl assms(3), of sz]
  have M: "M = 64 * ?b + ?n" unfolding M_def using sz(3) .
  have one: "does e 64 (?tx i) (order e sz) (?one (drop (64 * i) []))" if "i < ?b" for i
  proof -
    have "64 * Suc i \<le> 64 * ?b" using that by simp
    then have "min 64 (M - 64 * i) = 64" using M by simp
    then show ?thesis using buf_read_does [of ?B 64 sz e b] sz(1,4) by simp
  qed
  have "min 64 (M - 64 * ?b) = ?n" using M sz(2) by simp
  then have tl: "does e ?n (?tx ?b) (order e sz) ?tl" if "?k \<noteq> 0" using buf_read_does [of ?k ?n sz e b] that sz(2) by simp
  have N: "(M + 63) div 64 = (if ?k \<noteq> 0 then Suc ?b else ?b)" using sz(6) by (simp add: M_def)
  have "64 div 64 \<le> (M + 63) div 64" using assms(3) by (intro div_le_mono) (simp add: M_def Suc_le_eq)
  then have N0: "0 < (M + 63) div 64" by simp
  obtain s' rxs where r: "in_blocks ?one ?tl ?b ?k [] s = Some (concat (map (order e sz) rxs), s')" "idle (SPI s' bus)"
      "same_settings bus (if ?b \<noteq> 0 then rearmed bus s else s) s'" "map length rxs = replicate ?b 64 @ (if ?k \<noteq> 0 then [?n] else [])"
      "log (env s') = log (env s) @ map (\<lambda>i. (if i = 0 then extras (SPI s bus) else later_extras bus s, ?tx i, rxs ! i)) [0..<(M + 63) div 64]"
    using in_blocks_does [of ?b e ?tx "order e sz" ?one "[]" ?k ?n ?tl s, OF one tl assms(1,2) N N0] by blast
  have e: "spi_get_endianness bus s = e" using assms(1) by (rule endianness_ready)
  have "spi_read hw bus b len sz s = in_blocks ?one ?tl ?b ?k [] s"
    unfolding spi_read_def in_blocks_def e SPI_BUF_SIZE_def by (simp add: Let_def split_def)
  moreover have "length (concat rxs) = M" unfolding length_concat r(4) M by (simp add: sum_list_replicate)
  moreover have "64 \<le> M \<longleftrightarrow> ?b \<noteq> 0" using M sz(2) by (cases ?b) auto
  ultimately show ?thesis using r by auto
qed

section \<open>Repeated sending\<close>

text \<open>The transaction in progress, if any, ends with the log \<open>l\<close> and the settings of \<open>s0\<close>.\<close>

definition ends_with :: "spi_endianness_t \<Rightarrow> 'e spi_state \<Rightarrow> (32 word \<times> byte list \<times> byte list) list \<Rightarrow> 'e spi_state \<Rightarrow> bool" where
  "ends_with e s0 l s \<longleftrightarrow> (\<exists>s1. spi_wait hw bus s = Some s1 \<and> ready e s1 \<and> same_settings bus s0 s1 \<and> log (env s1) = l)"

lemma ends_ready:
  assumes "ready e s"
  shows "ends_with e s (log (env s)) s"
proof -
  obtain en where "spi_wait hw bus s = Some (s\<lparr>env := en\<rparr>)" "log en = log (env s)" using wait_idle assms by (auto simp: ready_def)
  then show ?thesis using assms by (simp add: ends_with_def ready_def same_settings_def)
qed

lemma start_ends:
  assumes "ready e s1" "0 < n" "n \<le> 64" "length ws = 16"
  shows "\<exists>rx. ends_with e s1 (log (env s1) @ [(extras (SPI s1 bus), take n (concat (map (wire_word e) ws)), rx)])
    (spi_start bus (set_spi bus (\<lambda>r. r\<lparr>W := ws\<rparr>) (set_size bus n s1)))"
  using started [of s1 n e ws] assms ready_same unfolding ends_with_def ready_def by blast

text \<open>\<open>q\<close> is the pattern on the wire, which fills a word.\<close>

lemma repeated_bytes:
  assumes "wire_word e dword = concat (replicate (4 div w) q)" "length q = w" "w \<in> {1, 2, 4}" "m * w \<le> 4 * k"
  shows "take (m * w) (concat (map (wire_word e) (replicate k dword @ ws))) = concat (replicate m q)"
proof -
  have rep: "concat (replicate k (concat (replicate j q))) = concat (replicate (k * j) q)" for j
    by (induction k) (simp_all add: replicate_add)
  have len: "length (concat (replicate j q)) = j * w" for j using assms(2) by (induction j) simp_all
  have w: "4 div w * w = 4" "0 < w" using assms(3) by auto
  have "m * w \<le> k * (4 div w) * w" using assms(4) w(1) by (simp add: mult.assoc)
  then have m: "m \<le> k * (4 div w)" using w(2) by simp
  then have "concat (replicate (k * (4 div w)) q) = concat (replicate m q) @ concat (replicate (k * (4 div w) - m) q)"
    using replicate_add [of m "k * (4 div w) - m" q] by (metis concat_append le_add_diff_inverse)
  then have "concat (map (wire_word e) (replicate k dword @ ws)) = concat (replicate m q) @ concat (replicate (k * (4 div w) - m) q) @ concat (map (wire_word e) ws)"
    using rep assms(1) by simp
  then show ?thesis using len [of m] by simp
qed

lemma disarm_same:
  assumes "same_settings bus s0 s1" "ready e s1" "extras_status s0 bus = 0 \<or> \<not> armed bus s0"
  shows "same_settings bus (rearm_extras_bit bus False s0) (rearm_extras_bit bus False s1)" "ready e (rearm_extras_bit bus False s1)"
    "env (rearm_extras_bit bus False s1) = env s1"
proof -
  have s1: "extras_status s0 bus = 0 \<Longrightarrow> extras_status s1 bus = 0" "armed bus s1 = armed bus s0" using assms(1) by (simp_all add: same_settings_def armed_def)
  show "same_settings bus (rearm_extras_bit bus False s0) (rearm_extras_bit bus False s1)"
    using assms(1,3) rearm_same [OF assms(1)] not_armed [of bus s0] not_armed [of bus s1] s1(2) by (cases "armed bus s0") auto
  show "ready e (rearm_extras_bit bus False s1)" "env (rearm_extras_bit bus False s1) = env s1"
    using assms(2,3) s1 disarm_facts [of s1 bus] not_armed [of bus s1] by (cases "armed bus s0"; auto simp: ready_def)+
qed

lemma repeat_iter:
  assumes pat: "wire_word e dword = concat (replicate (4 div word_size sz) q)" "length q = word_size sz"
    and s: "ends_with e s0 l s" "again \<longrightarrow> extras_status s0 bus = 0 \<or> \<not> armed bus s0" and r: "0 < r" "r * word_size sz < 2 ^ 32"
  defines "s0' \<equiv> if again then rearm_extras_bit bus False s0 else s0" and "m \<equiv> min r (64 div word_size sz)"
  shows "\<exists>s3 rx. repeat_send hw bus dword sz again (int r) s = repeat_send hw bus dword sz True (int (r - m)) s3
    \<and> ends_with e s0' (l @ [(extras (SPI s0' bus), concat (replicate m q), rx)]) s3"
proof -
  let ?w = "word_size sz" let ?n = "m * ?w" let ?k = "(?n + 3) div 4"
  have w: "64 div ?w * ?w = 64" "?w \<in> {1, 2, 4}" "0 < 64 div ?w" by (cases sz; simp)+
  have m: "0 < m" "m \<le> r" "m \<le> 64 div ?w" using r(1) w(3) by (simp_all add: m_def)
  have "m * ?w \<le> 64 div ?w * ?w" using m(3) by (rule mult_le_mono1)
  then have n: "?n \<le> 64" unfolding w(1) .
  have "min (u32 (nat (int r) * ?w)) SPI_BUF_SIZE = ?n"
    using r(2) w(1) by (cases sz) (auto simp: m_def SPI_BUF_SIZE_def min_def)
  note bytes = this
  have "0 < ?n" using m(1) by simp
  moreover have "0 < x \<Longrightarrow> x \<le> 64 \<Longrightarrow> 0 < (x + 3) div 4 \<and> (x + 3) div 4 \<le> 16 \<and> x \<le> 4 * ((x + 3) div 4)" for x :: nat by presburger
  ultimately have k: "0 < ?k" "?k \<le> 16" "?n \<le> 4 * ?k" using n by blast+
  obtain s1 where s1: "spi_wait hw bus s = Some s1" "ready e s1" "same_settings bus s0 s1" "log (env s1) = l" using s(1) by (auto simp: ends_with_def)
  let ?s1 = "if again then rearm_extras_bit bus False s1 else s1"
  have s1': "ready e ?s1" "same_settings bus s0' ?s1" "env ?s1 = env s1"
    using disarm_same [OF s1(3,2)] s(2) s1(2,3) by (auto simp: s0'_def)
  let ?ws = "replicate ?k dword @ drop ?k (W (SPI ?s1 bus))"
  have ws: "length ?ws = 16" using s1'(1) k(2) by (simp add: ready_def idle_def)
  have "0 < ?n" using m(1) by simp
  then obtain rx where fin: "ends_with e ?s1 (log (env ?s1) @ [(extras (SPI ?s1 bus), take ?n (concat (map (wire_word e) ?ws)), rx)])
      (spi_start bus (set_spi bus (\<lambda>r. r\<lparr>W := ?ws\<rparr>) (set_size bus ?n ?s1)))"
    using start_ends [OF s1'(1) _ n ws] by blast
  let ?s3 = "spi_start bus (set_spi bus (\<lambda>r. r\<lparr>W := replicate ?k dword @ drop ?k (W r)\<rparr>) (set_size bus ?n ?s1))"
  have W: "set_spi bus (\<lambda>r. r\<lparr>W := replicate ?k dword @ drop ?k (W r)\<rparr>) (set_size bus ?n ?s1) = set_spi bus (\<lambda>r. r\<lparr>W := ?ws\<rparr>) (set_size bus ?n ?s1)"
    by (simp add: set_size_def set_spi_def Let_def)
  have "repeat_send hw bus dword sz again (int r) s = repeat_send hw bus dword sz True (int (r - m)) ?s3"
    using r(1) s1(1) m(2) k(1) bytes by (subst repeat_send.simps) (simp add: Let_def of_nat_diff)
  moreover have "ends_with e s0' (l @ [(extras (SPI s0' bus), concat (replicate m q), rx)]) ?s3"
    unfolding W using fin s1' s1(4) repeated_bytes [OF pat w(2) k(3), of "drop ?k (W (SPI ?s1 bus))"] same_settings_trans
    by (auto simp: ends_with_def extras_def same_settings_def)
  ultimately show ?thesis by blast
qed

lemma repeat_plain:
  assumes pat: "wire_word e dword = concat (replicate (4 div word_size sz) q)" "length q = word_size sz" and plain: "\<not> armed bus s0"
  shows "ends_with e s0 l s \<Longrightarrow> r * word_size sz < 2 ^ 32 \<Longrightarrow>
    \<exists>s1 new. repeat_send hw bus dword sz again (int r) s = Some (rearm_extras_bit bus True s1) \<and> ready e s1 \<and> same_settings bus s0 s1
      \<and> log (env s1) = l @ new \<and> (\<forall>x \<in> set new. fst x = extras (SPI s0 bus) \<and> length (fst (snd x)) \<le> 64)
      \<and> concat (map (fst \<circ> snd) new) = concat (replicate r q)"
proof (induction r arbitrary: s l again rule: less_induct)
  case (less r)
  show ?case
  proof (cases "r = 0")
    case True
    obtain s1 where "spi_wait hw bus s = Some s1" "ready e s1" "same_settings bus s0 s1" "log (env s1) = l" using less.prems(1) by (auto simp: ends_with_def)
    then show ?thesis using True by (subst repeat_send.simps) (auto intro!: exI [of _ s1])
  next
    case False
    let ?m = "min r (64 div word_size sz)"
    have m: "0 < ?m" "?m \<le> r" "?m * word_size sz \<le> 64" using False by (cases sz; simp)+
    have s0: "(if again then rearm_extras_bit bus False s0 else s0) = s0" using not_armed [OF plain] by simp
    obtain s3 rx where it: "repeat_send hw bus dword sz again (int r) s = repeat_send hw bus dword sz True (int (r - ?m)) s3"
        "ends_with e s0 (l @ [(extras (SPI s0 bus), concat (replicate ?m q), rx)]) s3"
      using repeat_iter [OF pat less.prems(1), of again r] plain False less.prems(2) unfolding s0 by auto
    have "(r - ?m) * word_size sz < 2 ^ 32" using less.prems(2) by (rule le_less_trans [OF mult_le_mono1 [OF diff_le_self]])
    moreover have "r - ?m < r" using m False by simp
    ultimately obtain s1 new where ih: "repeat_send hw bus dword sz True (int (r - ?m)) s3 = Some (rearm_extras_bit bus True s1)" "ready e s1" "same_settings bus s0 s1"
        "log (env s1) = (l @ [(extras (SPI s0 bus), concat (replicate ?m q), rx)]) @ new" "\<forall>x \<in> set new. fst x = extras (SPI s0 bus) \<and> length (fst (snd x)) \<le> 64"
        "concat (map (fst \<circ> snd) new) = concat (replicate (r - ?m) q)"
      using less.IH [OF _ it(2)] by blast
    have "length (concat (replicate j q)) = j * word_size sz" for j using pat(2) by (induction j) simp_all
    moreover have "concat (replicate r q) = concat (replicate ?m q) @ concat (replicate (r - ?m) q)"
      using replicate_add [of ?m "r - ?m" q] m(2) by (metis concat_append le_add_diff_inverse)
    ultimately show ?thesis using it(1) ih m(3)
      by (intro exI [of _ s1] exI [of _ "(extras (SPI s0 bus), concat (replicate ?m q), rx) # new"]) (simp add: comp_def)
  qed
qed

lemma rearm_nothing: "extras_status s bus = 0 \<Longrightarrow> same_settings bus s (rearm_extras_bit bus True s) \<and> env (rearm_extras_bit bus True s) = env s"
  by (simp add: rearm_extras_bit_def restore_extra_def same_settings_def fun_upd_idem)

lemma repeat_log:
  assumes pat: "wire_word e dword = concat (replicate (4 div word_size sz) q)" "length q = word_size sz"
    and "ready e s" "extras_status s bus = 0" "0 < r" "r * word_size sz < 2 ^ 32"
  shows "\<exists>s' x new. repeat_send hw bus dword sz False (int r) s = Some s' \<and> log (env s') = log (env s) @ x # new
    \<and> fst x = extras (SPI s bus) \<and> (\<forall>y \<in> set new. fst y = later_extras bus s) \<and> (\<forall>y \<in> set (x # new). length (fst (snd y)) \<le> 64)
    \<and> concat (map (fst \<circ> snd) (x # new)) = concat (replicate r q) \<and> same_settings bus (if new = [] then s else rearmed bus s) s'"
proof -
  define m where "m = min r (64 div word_size sz)"
  have len: "length (concat (replicate j q)) = j * word_size sz" for j using pat(2) by (induction j) simp_all
  have m: "0 < m" "m * word_size sz \<le> 64" using assms(5) by (cases sz; simp add: m_def)+
  obtain s3 rx where it: "repeat_send hw bus dword sz False (int r) s = repeat_send hw bus dword sz True (int (r - m)) s3"
      "ends_with e s (log (env s) @ [(extras (SPI s bus), concat (replicate m q), rx)]) s3"
    using repeat_iter [OF pat ends_ready [OF assms(3)], of False r, folded m_def] assms(5,6) by auto
  let ?x = "(extras (SPI s bus), concat (replicate m q), rx)"
  show ?thesis
  proof (cases "r - m = 0")
    case True
    then obtain s1 where s1: "spi_wait hw bus s3 = Some s1" "same_settings bus s s1" "log (env s1) = log (env s) @ [?x]" using it(2) by (auto simp: ends_with_def)
    have "repeat_send hw bus dword sz False (int r) s = Some (rearm_extras_bit bus True s1)" using it(1) True s1(1) by (simp add: repeat_send.simps [of hw bus dword sz True 0])
    moreover have "extras_status s1 bus = 0" using s1(2) assms(4) by (simp add: same_settings_def)
    note rearm_nothing [OF this]
    moreover have "m = r" using True by (simp add: m_def min_def split: if_splits)
    ultimately show ?thesis using s1 m(2) len same_settings_trans
      by (intro exI [of _ "rearm_extras_bit bus True s1"] exI [of _ ?x] exI [of _ "[]"]) (auto simp: comp_def)
  next
    case False
    let ?s0 = "rearm_extras_bit bus False s" let ?r = "r - m"
    define m2 where "m2 = min ?r (64 div word_size sz)"
    have r2: "0 < ?r" "?r * word_size sz < 2 ^ 32" using False le_less_trans [OF mult_le_mono1 [OF diff_le_self] assms(6)] by simp_all
    obtain s4 rx2 where it2: "repeat_send hw bus dword sz True (int ?r) s3 = repeat_send hw bus dword sz True (int (?r - m2)) s4"
        "ends_with e ?s0 ((log (env s) @ [?x]) @ [(extras (SPI ?s0 bus), concat (replicate m2 q), rx2)]) s4"
      using repeat_iter [OF pat it(2), of True ?r, folded m2_def] assms(4) r2 by auto
    note d = disarm_facts [OF assms(4)]
    have "(?r - m2) * word_size sz < 2 ^ 32" using r2(2) by (rule le_less_trans [OF mult_le_mono1 [OF diff_le_self]])
    then obtain s1 new where pl: "repeat_send hw bus dword sz True (int (?r - m2)) s4 = Some (rearm_extras_bit bus True s1)" "same_settings bus ?s0 s1"
        "log (env s1) = ((log (env s) @ [?x]) @ [(extras (SPI ?s0 bus), concat (replicate m2 q), rx2)]) @ new"
        "\<forall>x \<in> set new. fst x = extras (SPI ?s0 bus) \<and> length (fst (snd x)) \<le> 64" "concat (map (fst \<circ> snd) new) = concat (replicate (?r - m2) q)"
      using repeat_plain [OF pat d(1) it2(2), of "?r - m2" True] by auto
    let ?new = "(extras (SPI ?s0 bus), concat (replicate m2 q), rx2) # new"
    have "replicate r q = replicate m q @ replicate m2 q @ replicate (?r - m2) q"
      by (simp only: replicate_add [symmetric]) (simp add: m_def m2_def)
    then have "concat (replicate r q) = concat (map (fst \<circ> snd) (?x # ?new))" using pl(5) by (simp only: concat_append) simp
    moreover have "m2 * word_size sz \<le> 64" by (cases sz; simp add: m2_def)
    moreover have "repeat_send hw bus dword sz False (int r) s = Some (rearm_extras_bit bus True s1)" using it(1) it2(1) pl(1) by simp
    ultimately show ?thesis using pl(3,4) m(2) len d(2) rearm_back [OF pl(2) assms(4)]
      by (intro exI [of _ "rearm_extras_bit bus True s1"] exI [of _ ?x] exI [of _ ?new]) (auto simp: comp_def)
  qed
qed

end

end
