(* ===== verification/Esp_spi_Master.thy ===== *)
theory Esp_spi_Master
  imports Esp_spi_Transfer
begin

text \<open>
  The properties of the SPI master, and a controller with a device that keeps the contract. The settings are read back as
  they were set, except for the frequency.
\<close>

section \<open>A controller with a device\<close>

record spi_env =
  busy :: nat
  device :: "byte list \<Rightarrow> byte list"
  transactions :: "(32 word \<times> byte list \<times> byte list) list"

definition bus_order :: "SPI_REGS \<Rightarrow> spi_endianness_t" where
  "bus_order r = (if USER0 r AND SPI_USER0_WR_BYTE_ORDER \<noteq> 0 then SPI_BIG_ENDIAN else SPI_LITTLE_ENDIAN)"

definition fill :: "spi_endianness_t \<Rightarrow> byte list \<Rightarrow> 32 word list" where
  "fill e bs = map (\<lambda>c. bytes_word (if e = SPI_BIG_ENDIAN then rev c else c)) (chunks 4 bs)"

text \<open>It stays busy for some reads of the command register and then completes the transaction.\<close>

definition sample_controller :: "spi_env spi_hw" where
  "sample_controller bus r en =
     (if CMD r AND SPI_CMD_USR = 0 then (r, en)
      else if busy en \<noteq> 0 then (r, en\<lparr>busy := busy en - 1\<rparr>)
      else
        let n = (unat (field2val (USER1 r) 0x1ff 17) + 1) div 8;
            e = bus_order r;
            tx = on_wire e n r;
            rx = take n (device en tx @ replicate n 255)
        in (r\<lparr>CMD := CMD r AND NOT SPI_CMD_USR, W := fill e (rx @ drop n (concat (map (wire_word e) (W r))))\<rparr>,
            en\<lparr>busy := 3, transactions := transactions en @ [(extras r, tx, rx)]\<rparr>))"

lemma chunks_4: "length bs = 4 * k \<Longrightarrow> length (chunks 4 bs) = k \<and> (\<forall>c \<in> set (chunks 4 bs). length c = 4)"
proof (induction k arbitrary: bs)
  case (Suc k)
  then have "bs \<noteq> []" by auto
  then have "chunks 4 bs = take 4 bs # chunks 4 (drop 4 bs)" by (subst chunks.simps) simp
  then show ?case using Suc.IH [of "drop 4 bs"] Suc.prems by simp
qed simp

lemma fill_wire:
  assumes "length bs = 64"
  shows "concat (map (wire_word e) (fill e bs)) = bs" "length (fill e bs) = 16"
proof -
  note c = chunks_4 [of bs 16]
  have w: "word_bytes (bytes_word c) = c" if "length c = 4" for c using bytes_word_pad [of c 4] that by simp
  have "wire_word e (bytes_word (if e = SPI_BIG_ENDIAN then rev c else c)) = c" if "length c = 4" for c
    using w [of c] w [of "rev c"] that by (simp add: wire_word_def)
  then have "map (wire_word e) (fill e bs) = chunks 4 bs" using c assms by (simp add: fill_def comp_def map_idI)
  then show "concat (map (wire_word e) (fill e bs)) = bs" by (simp add: concat_chunks)
  show "length (fill e bs) = 16" using c assms by (simp add: fill_def)
qed

lemma sample_runs:
  assumes "SPI s bus = r" "CMD r AND SPI_CMD_USR \<noteq> 0" "length (W r) = 16" "sized n r" "byte_order e r"
  shows "\<exists>ws en. spi_wait sample_controller bus s = Some (set_spi bus (\<lambda>r. r\<lparr>CMD := CMD r AND NOT SPI_CMD_USR, W := ws\<rparr>) (s\<lparr>env := en\<rparr>)) \<and> length ws = 16
    \<and> transactions en = transactions (env s) @ [(extras r, on_wire e n r, take n (concat (map (wire_word e) ws)))]"
  using assms
proof (induction "busy (env s)" arbitrary: s)
  case 0
  have bits: "field2val (USER1 r) 0x1ff 17 = of_nat (8 * n - 1)" "0 < n" "n \<le> 64" using 0(5) by (simp_all add: sized_def)
  have "unat (of_nat (8 * n - 1) :: 32 word) = 8 * n - 1" using bits(3) by (simp add: unat_of_nat)
  then have n: "(unat (field2val (USER1 r) 0x1ff 17) + 1) div 8 = n" using bits by simp
  have e: "bus_order r = e" using 0(6) by (cases e) (auto simp: bus_order_def byte_order_def)
  let ?rx = "take n (device (env s) (on_wire e n r) @ replicate n 255)"
  let ?bs = "?rx @ drop n (concat (map (wire_word e) (W r)))"
  have rx: "length ?rx = n" by simp
  have "length ?bs = 64" using rx bits(3) 0(4) length_words [of "wire_word e" "W r"] by simp
  note f = fill_wire [OF this, of e]
  have c: "(x AND NOT SPI_CMD_USR) AND SPI_CMD_USR = 0" for x by (simp add: spi_test bit_simps spi_bit)
  let ?en = "(env s)\<lparr>busy := 3, transactions := transactions (env s) @ [(extras r, on_wire e n r, ?rx)]\<rparr>"
  have "spi_wait sample_controller bus s = Some (set_spi bus (\<lambda>r. r\<lparr>CMD := CMD r AND NOT SPI_CMD_USR, W := fill e ?bs\<rparr>) (s\<lparr>env := ?en\<rparr>))"
    using 0(1-3) n e c by (subst spi_wait.simps) (simp add: sample_controller_def set_spi_def Let_def)
  moreover have "take n (concat (map (wire_word e) (fill e ?bs))) = ?rx" unfolding f(1) using rx by simp
  ultimately show ?case using f(2) by (intro exI [of _ "fill e ?bs"] exI [of _ ?en]) simp
next
  case (Suc k)
  let ?s = "s\<lparr>env := (env s)\<lparr>busy := k\<rparr>\<rparr>"
  have "spi_wait sample_controller bus s = spi_wait sample_controller bus (set_spi bus (\<lambda>_. r) ?s)"
    using Suc.prems(1,2) Suc.hyps(2) [symmetric] by (subst spi_wait.simps) (simp add: sample_controller_def)
  moreover have "set_spi bus (\<lambda>_. r) ?s = ?s" using Suc.prems(1) by (auto simp: set_spi_def)
  ultimately show ?case using Suc.hyps(1) [of ?s] Suc.prems by simp
qed

interpretation sample_spi: spi_controller sample_controller bus transactions for bus
proof
  fix r :: SPI_REGS and en :: spi_env
  assume "CMD r AND SPI_CMD_USR = 0"
  then show "\<exists>e'. sample_controller bus r en = (r, e') \<and> transactions e' = transactions en" by (simp add: sample_controller_def)
qed (rule sample_runs)

section \<open>Settings\<close>

lemma bit_spi_put_bits: "bit (spi_put_bits on m r) n = (if bit m n then on else bit r (n :: nat))"
  by (auto simp: spi_put_bits_def bit_simps dest: bit_imp_le_length)

lemma spi_put_bits_test: "k < 32 \<Longrightarrow> bit m k \<Longrightarrow> bit (spi_put_bits on m r) k = on"
  by (simp add: bit_spi_put_bits)

lemma pins_only: "\<exists>f. fold (\<lambda>p. gpio_set_iomux_function p func) ps s = s\<lparr>IOMUX_PIN := f\<rparr>"
proof (induction ps arbitrary: s)
  case Nil
  have "s = s\<lparr>IOMUX_PIN := IOMUX_PIN s\<rparr>" by simp
  then show ?case by (metis fold_simps(1))
next
  case (Cons p ps)
  obtain f where "gpio_set_iomux_function p func s = s\<lparr>IOMUX_PIN := f\<rparr>" by (simp add: gpio_set_iomux_function_def Let_def)
  moreover obtain g where "fold (\<lambda>p. gpio_set_iomux_function p func) ps (s\<lparr>IOMUX_PIN := f\<rparr>) = s\<lparr>IOMUX_PIN := f, IOMUX_PIN := g\<rparr>" using Cons by blast
  ultimately show ?case by auto
qed

lemma init_is:
  assumes "bus < 2"
  obtains f u where "spi_init bus md fd ms en mp s = (True, spi_set_endianness bus en (spi_set_msb bus ms (spi_set_mode bus md (spi_set_frequency_div bus fd
      (set_spi bus (\<lambda>r. r\<lparr>USER0 := u\<rparr>) (s\<lparr>IOMUX_PIN := f, minimal_pins := (minimal_pins s)(bus := mp)\<rparr>))))))"
proof -
  have b: "bus = 0 \<or> bus = 1" using assms by auto
  define func where "func = (if bus = 0 then IOMUX_FUNC 1 else IOMUX_FUNC 2)"
  define ps :: "nat list" where "ps = (if bus = 0 then [7, 8, 6] @ (if \<not> mp then [9, 10, 11] else []) else [12, 13, 14] @ (if \<not> mp then [15] else []))"
  obtain f where "fold (\<lambda>p. gpio_set_iomux_function p func) ps s = s\<lparr>IOMUX_PIN := f\<rparr>" using pins_only by blast
  then show ?thesis using that b by (auto simp: spi_init_def Let_def func_def ps_def)
qed

lemma freq_only: "\<exists>c. spi_set_frequency_div bus fd s = set_spi bus (\<lambda>r. r\<lparr>CLOCK := CLOCK (SPI (spi_set_frequency_div bus fd s) bus)\<rparr>) (s\<lparr>IOMUX_CONF := c\<rparr>)"
  by (auto simp: spi_set_frequency_div_def Let_def set_spi_def)

lemma settings_kept:
  assumes "bus < 2" "spi_init bus md fd ms en mp s = (ok, s')"
  shows "ok" "spi_get_mode bus s' = md" "spi_get_msb bus s' = ms" "spi_get_endianness bus s' = en" "minimal_pins s' bus = mp"
    "byte_order en (SPI s' bus)" "CLOCK (SPI s' bus) = CLOCK (SPI (spi_set_frequency_div bus fd s) bus)"
proof -
  obtain f u where i: "spi_init bus md fd ms en mp s = (True, spi_set_endianness bus en (spi_set_msb bus ms (spi_set_mode bus md (spi_set_frequency_div bus fd
      (set_spi bus (\<lambda>r. r\<lparr>USER0 := u\<rparr>) (s\<lparr>IOMUX_PIN := f, minimal_pins := (minimal_pins s)(bus := mp)\<rparr>))))))"
    using init_is [OF assms(1)] by blast
  let ?s = "set_spi bus (\<lambda>r. r\<lparr>USER0 := u\<rparr>) (s\<lparr>IOMUX_PIN := f, minimal_pins := (minimal_pins s)(bus := mp)\<rparr>)"
  define c where "c = CLOCK (SPI (spi_set_frequency_div bus fd ?s) bus)"
  obtain k where k: "spi_set_frequency_div bus fd ?s = set_spi bus (\<lambda>r. r\<lparr>CLOCK := c\<rparr>) (?s\<lparr>IOMUX_CONF := k\<rparr>)" using freq_only [of bus fd ?s] by (auto simp: c_def)
  have c: "c = CLOCK (SPI (spi_set_frequency_div bus fd s) bus)" by (simp add: c_def spi_set_frequency_div_def Let_def set_spi_def)
  have s': "s' = spi_set_endianness bus en (spi_set_msb bus ms (spi_set_mode bus md (set_spi bus (\<lambda>r. r\<lparr>CLOCK := c\<rparr>) (?s\<lparr>IOMUX_CONF := k\<rparr>))))" and "ok"
    using assms(2) i k by simp_all
  show "ok" by fact
  let ?cpha = "(fst (mode_bits md)) \<noteq> (snd (mode_bits md))"
  have cp: "(if snd (mode_bits md) then \<not> fst (mode_bits md) else fst (mode_bits md)) = ?cpha" by auto
  have r: "USER0 (SPI s' bus) = spi_put_bits (en = SPI_BIG_ENDIAN) (SPI_USER0_WR_BYTE_ORDER OR SPI_USER0_RD_BYTE_ORDER) (spi_put_bits ?cpha SPI_USER0_CLOCK_OUT_EDGE u)"
      "PIN (SPI s' bus) = spi_put_bits (snd (mode_bits md)) SPI_PIN_IDLE_EDGE (PIN (SPI s bus))"
      "CTRL0 (SPI s' bus) = spi_put_bits (\<not> ms) (SPI_CTRL0_WR_BIT_ORDER OR SPI_CTRL0_RD_BIT_ORDER) (CTRL0 (SPI s bus))"
      "CLOCK (SPI s' bus) = c" "minimal_pins s' bus = mp"
    using cp by (simp_all add: s' spi_set_endianness_def spi_set_msb_def spi_set_mode_def set_spi_def split_def Let_def)
  show "spi_get_mode bus s' = md"
    unfolding spi_get_mode_def r Let_def by (cases md) (simp_all add: spi_test bit_spi_put_bits bit_or_iff spi_bit)
  show "spi_get_msb bus s' = ms" unfolding spi_get_msb_def r and_or_0 by (simp add: spi_test bit_spi_put_bits bit_or_iff spi_bit)
  show "spi_get_endianness bus s' = en"
    unfolding spi_get_endianness_def r and_or_0 by (cases en) (simp_all add: spi_test bit_spi_put_bits bit_or_iff spi_bit)
  show "byte_order en (SPI s' bus)" unfolding byte_order_def r by (simp add: spi_test bit_spi_put_bits bit_or_iff spi_bit)
  show "minimal_pins s' bus = mp" "CLOCK (SPI s' bus) = CLOCK (SPI (spi_set_frequency_div bus fd s) bus)" using r c by simp_all
qed

section \<open>The frequency\<close>

lemma nat_bits: "v < 2 ^ k \<Longrightarrow> bit (v :: nat) j \<Longrightarrow> j < k"
  using take_bit_nat_eq_self [of v k] bit_take_bit_iff [of k v j] by simp

lemma small_bits: "v < 2 ^ k \<Longrightarrow> bit (of_nat v :: 32 word) j \<Longrightarrow> j < k"
  using nat_bits [of v k j] by (simp add: bit_of_nat_iff)

lemma clock_fields:
  fixes P C X :: "32 word"
  assumes "\<And>j. bit P j \<Longrightarrow> j < 13" "\<And>j. bit C j \<Longrightarrow> j < 6"
  defines "r \<equiv> push_bit 18 (P AND mask 13) OR push_bit 12 (C AND mask 6) OR push_bit 6 (X AND mask 6) OR (C AND mask 6)"
  shows "field2val r (mask 13) 18 = P" "field2val r (mask 6) 12 = C"
  by (rule bit_word_eqI, auto simp: r_def field2val_def bit_simps dest: assms(1,2))+

lemma divider_fields:
  assumes d: "0 < d" "d \<le> 8192" and n: "0 < n" "n \<le> 64"
    and r: "r = CLOCK (SPI (spi_set_frequency_div bus (SPI_GET_FREQ_DIV (of_nat d) (of_nat n)) s) bus)"
  shows "field2val r SPI_CLOCK_DIV_PRE_M 18 = of_nat (d - 1)" "field2val r SPI_CLOCK_COUNT_NUM_M 12 = of_nat (n - 1)"
proof -
  let ?x = "SPI_GET_FREQ_DIV (of_nat d) (of_nat n)"
  have D': "bit d j \<Longrightarrow> j < 14" and N': "bit n j \<Longrightarrow> j < 7" for j
    using nat_bits [of d 14] nat_bits [of n 7] d n by simp_all
  have m: "0xffff = (mask 16 :: 32 word)" by (simp add: mask_eq_exp_minus_1)
  have x1: "?x AND mask 16 = of_nat d" unfolding SPI_GET_FREQ_DIV_def m by (rule bit_word_eqI) (auto simp: bit_simps dest: D' N')
  have x2: "drop_bit 16 ?x = of_nat n" unfolding SPI_GET_FREQ_DIV_def m
    by (rule bit_word_eqI) (auto simp: bit_simps dest: D' N' bit_imp_le_length)
  have p: "(?x AND 0xffff) - 1 = of_nat (d - 1)" "drop_bit 16 ?x - 1 = of_nat (n - 1)" unfolding m x1 x2 using d n by (simp_all add: of_nat_diff)
  have P: "bit (of_nat (d - 1) :: 32 word) j \<Longrightarrow> j < 13" and C: "bit (of_nat (n - 1) :: 32 word) j \<Longrightarrow> j < 6" for j
    using small_bits [of "d - 1" 13] small_bits [of "n - 1" 6] d n by simp_all
  have masks: "SPI_CLOCK_DIV_PRE_M = mask 13" "SPI_CLOCK_COUNT_NUM_M = mask 6" "0x3f = (mask 6 :: 32 word)"
    by (simp_all add: spi_bits mask_eq_exp_minus_1)
  have z: "field2val SPI_CLOCK_EQU_SYS_CLOCK (mask 13) 18 = 0" "field2val SPI_CLOCK_EQU_SYS_CLOCK (mask 6) 12 = 0"
    unfolding field2val_def SPI_CLOCK_EQU_SYS_CLOCK_def by (rule bit_word_eqI, simp add: bit_single bit_and_iff bit_drop_bit_eq bit_mask_iff del: push_bit_of_1)+
  show "field2val r SPI_CLOCK_DIV_PRE_M 18 = of_nat (d - 1)" "field2val r SPI_CLOCK_COUNT_NUM_M 12 = of_nat (n - 1)"
    unfolding r spi_set_frequency_div_def Let_def p masks using clock_fields [OF P C] z by (auto simp: set_spi_def)
qed

section \<open>Properties\<close>

text \<open>
  C20. A transfer of any length is on the wire as the data in the byte order of the bus, in transactions of at most 64 bytes; the
  bytes that arrive are returned in the order of memory, transaction by transaction. With the minimal pins only the first transaction has
  the command and the address, and without them all have; the settings are as before, up to the receive phase next to a
  dummy phase.
\<close>

theorem transfer_on_wire:
  assumes "spi_controller hw bus log" "idle (SPI s bus)" "byte_order e (SPI s bus)" "extras_status s bus = 0" "0 < len" "length data = len * word_size sz"
  shows "\<exists>s' rxs. spi_transfer hw bus (Some data) True len sz s = Some (len, concat (map (order e sz) rxs), s') \<and> idle (SPI s' bus)
    \<and> same_settings bus (if 64 \<le> length data then rearmed bus s else s) s'
    \<and> map length rxs = map (\<lambda>i. length (take 64 (drop (64 * i) data))) [0..<(length data + 63) div 64]
    \<and> log (env s') = log (env s) @ map (\<lambda>i. (if i = 0 then extras (SPI s bus) else later_extras bus s, order e sz (take 64 (drop (64 * i) data)), rxs ! i)) [0..<(length data + 63) div 64]"
  using spi_controller.transfer_log [OF assms(1), of e s len data sz True] assms(2-6) by (simp add: spi_controller.ready_def [OF assms(1)])

text \<open>
  The settings of a bus are read back as \<open>spi_init\<close> made them, for each mode, bit order and byte order.
\<close>

theorem settings_read_back:
  assumes "bus < 2" "spi_init bus md fd ms en mp s = (ok, s')"
  shows "ok \<and> mode (spi_get_settings bus s') = md \<and> msb (spi_get_settings bus s') = ms \<and> endianness (spi_get_settings bus s') = en
    \<and> set_minimal_pins (spi_get_settings bus s') = mp"
  using settings_kept [OF assms] by (simp add: spi_get_settings_def)

text \<open>
  The clock is the one the divider asks for: the documented range gives 80 MHz divided by both factors.
\<close>

theorem frequency_exact:
  assumes "0 < d" "d \<le> 8192" "0 < n" "n \<le> 64"
  shows "spi_get_frequency_hz bus (spi_set_frequency_div bus (SPI_GET_FREQ_DIV (of_nat d) (of_nat n)) s) = 80000000 div d div n"
proof -
  have "unat (of_nat (k - 1) + 1 :: 32 word) = k" if "0 < k" "k \<le> 8192" for k
  proof -
    have "of_nat (k - 1) + 1 = (of_nat k :: 32 word)" using that(1) by (simp add: of_nat_diff)
    then show ?thesis using that(2) by (simp add: unat_of_nat)
  qed
  then show ?thesis using divider_fields [OF assms refl, of bus s] assms by (simp add: spi_get_frequency_hz_def)
qed

definition SPI_FREQ_DIV_4M :: "32 word" where "SPI_FREQ_DIV_4M = SPI_GET_FREQ_DIV 2 10"

lemma clock_of_4M: "CLOCK (SPI (spi_set_frequency_div bus SPI_FREQ_DIV_4M s) bus) = 0x49109" "CLOCK (SPI (spi_set_frequency_div bus 10 s) bus) = 0x27ffff"
  unfolding spi_set_frequency_div_def SPI_FREQ_DIV_4M_def SPI_GET_FREQ_DIV_def set_spi_def by (simp_all add: spi_bits)

text \<open>
  C21. The divider is not read back: the two factors are combined without the shift, so a bus at 4 MHz that is set to the settings
  read from it runs at 125 kHz.
\<close>

theorem divider_lost:
  assumes "bus < 2" "spi_init bus md SPI_FREQ_DIV_4M ms en mp s = (ok, s1)" "spi_set_settings bus (spi_get_settings bus s1) s1 = (ok2, s2)"
  shows "spi_get_frequency_hz bus s1 = 4000000 \<and> spi_get_frequency_hz bus s2 = 125000"
proof -
  have c1: "CLOCK (SPI s1 bus) = 0x49109" using settings_kept(7) [OF assms(1,2)] clock_of_4M(1) by metis
  then have "spi_get_frequency_div bus s1 = 10" by (simp add: spi_get_frequency_div_def field2val_def spi_bits)
  then have "CLOCK (SPI s2 bus) = 0x27ffff"
    using settings_kept(7) [OF assms(1) assms(3) [unfolded spi_set_settings_def]] clock_of_4M(2) by (simp add: spi_get_settings_def)
  then show ?thesis using c1 by (simp add: spi_get_frequency_hz_def field2val_def spi_bits)
qed

text \<open>
  Sending 2 ^ 30 words of 32 bits never ends: the number of bytes wraps to 0, and the loop goes on without making progress.
\<close>

theorem repeat_send_hangs: "spi_repeat_send_32 hw bus data (2 ^ 30) s = None"
proof -
  have "sz = SPI_32BIT \<longrightarrow> repeats = 2 ^ 30 \<longrightarrow> False" if "repeat_send hw bus dword sz again repeats s = Some s'"
    for hw :: "'a spi_hw" and bus dword sz again repeats s s'
  proof (rule repeat_send.raw_induct [where P = "\<lambda>hw bus dword sz again repeats s s'. sz = SPI_32BIT \<longrightarrow> repeats = 2 ^ 30 \<longrightarrow> False", OF _ that])
    fix f :: "'a spi_hw \<Rightarrow> nat \<Rightarrow> 32 word \<Rightarrow> spi_word_size_t \<Rightarrow> bool \<Rightarrow> int \<Rightarrow> 'a spi_state \<Rightarrow> 'a spi_state option"
      and hw bus dword sz again repeats s s'
    assume ih: "\<And>hw bus dword sz again repeats s s'. f hw bus dword sz again repeats s = Some s' \<Longrightarrow> sz = SPI_32BIT \<longrightarrow> repeats = 2 ^ 30 \<longrightarrow> False"
      and step: "(if repeats > 0
        then do {
          let bytes_to_transfer = min (u32 (nat repeats * word_size sz)) SPI_BUF_SIZE;
          s1 \<leftarrow> spi_wait hw bus s;
          let s2 = set_size bus bytes_to_transfer (if again then rearm_extras_bit bus False s1 else s1);
          let n = (bytes_to_transfer + 3) div 4;
          let s3 = spi_start bus (set_spi bus (\<lambda>r. r\<lparr>W := replicate n dword @ drop n (W r)\<rparr>) s2);
          f hw bus dword sz (n \<noteq> 0) (repeats - int (bytes_to_transfer div word_size sz)) s3
        }
        else do {
          s1 \<leftarrow> spi_wait hw bus s;
          Some (rearm_extras_bit bus True s1)
        }) = Some s'"
    show "sz = SPI_32BIT \<longrightarrow> repeats = 2 ^ 30 \<longrightarrow> False"
    proof (intro impI)
      assume a: "sz = SPI_32BIT" "repeats = 2 ^ 30"
      then have "u32 (nat repeats * word_size sz) = 0" by (simp add: u32_def)
      then obtain s1 s3 where "f hw bus dword SPI_32BIT False (2 ^ 30) s3 = Some s'" using step a by (auto simp: Let_def bind_eq_Some_conv)
      then show False using ih by blast
    qed
  qed
  then show ?thesis by (metis not_Some_eq spi_repeat_send_32_def)
qed

text \<open>
  A dummy phase without a receive phase does not survive a transfer of 64 bytes or more with the minimal pins: both
  are taken away together and put back together, and the next transfer has the receive phase.
\<close>

theorem dummy_phase_changes:
  assumes "spi_controller hw bus log" "idle (SPI s bus)" "byte_order e (SPI s bus)" "extras_status s bus = 0" "length data = len * word_size sz" "64 \<le> length data"
    and "minimal_pins s bus" "USER0 (SPI s bus) AND SPI_USER0_DUMMY \<noteq> 0" "USER0 (SPI s bus) AND SPI_USER0_MISO = 0"
  shows "\<exists>rx s'. spi_transfer hw bus (Some data) True len sz s = Some (len, rx, s') \<and> USER0 (SPI s' bus) AND SPI_USER0_MISO \<noteq> 0"
proof -
  have len: "0 < len" using assms(5,6) by (cases len) auto
  obtain s' rxs where tr: "spi_transfer hw bus (Some data) True len sz s = Some (len, concat (map (\<lambda>rx. if True then order e sz rx else []) rxs), s')"
      "same_settings bus (rearmed bus s) s'"
    using spi_controller.transfer_log [OF assms(1), of e s len data sz True] assms(2-6) len by (auto simp: spi_controller.ready_def [OF assms(1)])
  then have "USER0 (SPI s' bus) = USER0 (SPI s bus) OR SPI_USER0_MISO" using assms(7,8) by (simp add: same_settings_def rearmed_def set_spi_def)
  then have "USER0 (SPI s' bus) AND SPI_USER0_MISO \<noteq> 0" by (simp add: SPI_USER0_MISO_def)
  then show ?thesis using tr(1) by blast
qed

lemma word_of_half: "word_bytes (push_bit 16 (ucast (v :: 16 word)) OR ucast v) = [ucast v, ucast (drop_bit 8 v), ucast v, ucast (drop_bit 8 v)]"
  by (auto simp: word_bytes_def intro!: bit_word_eqI) (auto simp: bit_simps dest: bit_imp_le_length)

lemma two_copies: "concat (replicate 2 q) = q @ q"
  by (simp add: numeral_2_eq_2)

lemma half_on_wire:
  "wire_word e (push_bit 16 (ucast (v :: 16 word)) OR ucast v) = concat (replicate (4 div word_size SPI_16BIT) (order e SPI_16BIT [ucast v, ucast (drop_bit 8 v)]))"
  unfolding wire_word_def word_of_half by (cases e) (simp_all add: order_def chunks.simps two_copies)

text \<open>
  Repeated sending of a 16 bit value puts as many copies of it on the wire as asked for, each in the byte order of the bus.
\<close>

theorem repeat_16_on_wire:
  assumes "spi_controller hw bus log" "idle (SPI s bus)" "byte_order e (SPI s bus)" "extras_status s bus = 0" "0 < r" "r < 2 ^ 31"
  shows "\<exists>s' new. spi_repeat_send_16 hw bus v (int r) s = Some s' \<and> log (env s') = log (env s) @ new \<and> (\<forall>x \<in> set new. length (fst (snd x)) \<le> 64)
    \<and> concat (map (fst \<circ> snd) new) = concat (replicate r (order e SPI_16BIT [ucast v, ucast (drop_bit 8 v)]))"
proof -
  let ?q = "order e SPI_16BIT [ucast v, ucast (drop_bit 8 v)]"
  have "length ?q = word_size SPI_16BIT" "r * word_size SPI_16BIT < 2 ^ 32" using assms(6) by simp_all
  then obtain s' x new where "repeat_send hw bus (push_bit 16 (ucast v) OR ucast v) SPI_16BIT False (int r) s = Some s'" "log (env s') = log (env s) @ x # new"
      "\<forall>y \<in> set (x # new). length (fst (snd y)) \<le> 64" "concat (map (fst \<circ> snd) (x # new)) = concat (replicate r ?q)"
    using spi_controller.repeat_log [OF assms(1) half_on_wire, of e v s r] assms(2-5) unfolding spi_controller.ready_def [OF assms(1)] by blast
  then show ?thesis unfolding spi_repeat_send_16_def by (intro exI [of _ s'] exI [of _ "x # new"]) simp
qed

lemma bit_swap16: "j < 16 \<Longrightarrow> bit (swap16 c) j = bit c (if j < 8 then j + 8 else j - 8)"
proof -
  assume j: "j < 16"
  have m8: "0xff = (mask 8 :: 16 word)" "0xff00 = (push_bit 8 (mask 8) :: 16 word)" by (simp_all add: mask_eq_exp_minus_1)
  show ?thesis unfolding swap16_def m8 using j by (auto simp: bit_simps add.commute)
qed

text \<open>
  The bits of a command of up to 16 bits leave the register in order, most significant first, when the low byte of
  the register is sent first and each byte from its highest bit.
\<close>

theorem command_bits_in_order:
  assumes "spi_get_msb bus s" "0 < n" "n \<le> 16" "i < n"
  shows "bit (USER2 (SPI (spi_set_command bus n v s) bus)) (8 * (i div 8) + (7 - i mod 8)) = bit v (n - 1 - i)
    \<and> field2val (USER2 (SPI (spi_set_command bus n v s) bus)) 0xf 28 = of_nat (n - 1)"
proof -
  have msb: "spi_get_msb bus (set_spi bus (\<lambda>r. r\<lparr>USER0 := USER0 r OR SPI_USER0_COMMAND\<rparr>) s)" using assms(1) by (simp add: spi_get_msb_def set_spi_def)
  let ?c = "swap16 (push_bit (16 - n) v)"
  have m: "0xf = (mask 4 :: 32 word)" "0xffff = (mask 16 :: 32 word)" by (simp_all add: mask_eq_exp_minus_1)
  have u: "USER2 (SPI (spi_set_command bus n v s) bus) = set_field (set_field (USER2 (SPI s bus)) (mask 4) 28 (n - 1)) (mask 16) 0 (unat ?c)"
    using assms(2) msb by (simp add: spi_set_command_def Let_def m [symmetric]) (simp add: set_spi_def)
  have c: "unat ?c < 2 ^ 16" using unsigned_less [of ?c] by simp
  have n: "n - 1 < 2 ^ 4" using assms(3) by simp
  let ?p = "8 * (i div 8) + (7 - i mod 8)"
  have i: "i < 16" using assms(3,4) by simp
  have p: "?p < 16 \<and> (if ?p < 8 then ?p + 8 else ?p - 8) = 15 - i"
  proof (cases "i < 8")
    case False
    then obtain j where "i = 8 + j" "j < 8" using i by (metis add_less_cancel_left le_add_diff_inverse linorder_not_less numeral_Bit0)
    moreover have "(8 + j) div 8 = 1" using div_add_self1 [of 8 j] \<open>j < 8\<close> by simp
    ultimately show ?thesis by simp linarith
  qed simp
  have "bit ?c ?p = bit (push_bit (16 - n) v) (if ?p < 8 then ?p + 8 else ?p - 8)" using p by (intro bit_swap16) blast
  also have "\<dots> = bit (push_bit (16 - n) v) (15 - i)" using p by (simp only:)
  also have "\<dots> = bit v (n - 1 - i)"
  proof -
    have "15 - i - (16 - n) = n - 1 - i" "16 - n \<le> 15 - i" "15 - i < 16" using assms(3,4) by linarith+
    then show ?thesis unfolding bit_push_bit_iff by simp
  qed
  finally have "bit (unat ?c) ?p = bit v (n - 1 - i)" using p by (simp add: bit_unsigned_iff)
  then show ?thesis unfolding u m using bit_set_field [OF c, of ?p 0] p field_other [OF c, of 0 28 4] field_same [OF n] by simp
qed

section \<open>A bus\<close>

definition sample_bus :: "32 word \<Rightarrow> bool \<Rightarrow> spi_env spi_state" where
  "sample_bus u mp = \<lparr>SPI = (\<lambda>_. \<lparr>CMD = 0, ADDR = 0, CTRL0 = 0, CLOCK = 0, USER0 = u, USER1 = 0, USER2 = 0, PIN = 0, W = replicate 16 0\<rparr>),
     IOMUX_CONF = 0, IOMUX_PIN = (\<lambda>_. 0), minimal_pins = (\<lambda>_. mp), extras_status = (\<lambda>_. 0), env = \<lparr>busy = 2, device = rev, transactions = []\<rparr>\<rparr>"

lemma sample_bus_idle: "idle (SPI (sample_bus u mp) bus)" "extras_status (sample_bus u mp) bus = 0" "USER0 (SPI (sample_bus u mp) bus) = u" "transactions (env (sample_bus u mp)) = []"
  by (simp_all add: idle_def sample_bus_def)

lemma sample_bus_order:
  "byte_order SPI_BIG_ENDIAN (SPI (sample_bus (SPI_USER0_WR_BYTE_ORDER OR SPI_USER0_RD_BYTE_ORDER) mp) bus)" "byte_order SPI_LITTLE_ENDIAN (SPI (sample_bus SPI_USER0_DUMMY mp) bus)"
  unfolding byte_order_def sample_bus_idle spi_test by (simp_all add: bit_or_iff spi_bit)

theorem transfer_on_wire_witness:
  "\<exists>s' rx. spi_transfer sample_controller 1 (Some [1, 2, 3, 4]) True 2 SPI_16BIT (sample_bus (SPI_USER0_WR_BYTE_ORDER OR SPI_USER0_RD_BYTE_ORDER) True)
      = Some (2, order SPI_BIG_ENDIAN SPI_16BIT rx, s') \<and> length rx = 4 \<and> transactions (env s') = [(0, [2, 1, 4, 3], rx)]"
proof -
  let ?s = "sample_bus (SPI_USER0_WR_BYTE_ORDER OR SPI_USER0_RD_BYTE_ORDER) True"
  have x: "extras (SPI ?s 1) = 0" unfolding extras_def sample_bus_idle by (rule bit_word_eqI) (auto simp: bit_simps spi_bit)
  show ?thesis
    using transfer_on_wire [OF sample_spi.spi_controller_axioms, of ?s 1 SPI_BIG_ENDIAN 2 "[1, 2, 3, 4]" SPI_16BIT] sample_bus_idle sample_bus_order x
    by (auto simp: order_4)
qed

theorem settings_read_back_witness:
  "mode (spi_get_settings 1 (snd (spi_init 1 SPI_MODE2 SPI_FREQ_DIV_4M False SPI_BIG_ENDIAN True (sample_bus 0 False)))) = SPI_MODE2"
  using settings_read_back [of 1 SPI_MODE2 SPI_FREQ_DIV_4M False SPI_BIG_ENDIAN True "sample_bus 0 False", OF _ prod.collapse [symmetric]] by simp

theorem frequency_exact_witness: "spi_get_frequency_hz 1 (spi_set_frequency_div 1 (SPI_GET_FREQ_DIV (of_nat 5) (of_nat 2)) (sample_bus 0 False)) = 8000000"
  using frequency_exact [of 5 2 1 "sample_bus 0 False"] by simp

theorem divider_lost_witness:
  "\<exists>s1 s2. spi_init 1 SPI_MODE0 SPI_FREQ_DIV_4M True SPI_LITTLE_ENDIAN False (sample_bus 0 False) = (True, s1)
    \<and> spi_set_settings 1 (spi_get_settings 1 s1) s1 = (True, s2) \<and> spi_get_frequency_hz 1 s1 = 4000000 \<and> spi_get_frequency_hz 1 s2 = 125000"
proof -
  obtain ok s1 where s1: "spi_init 1 SPI_MODE0 SPI_FREQ_DIV_4M True SPI_LITTLE_ENDIAN False (sample_bus 0 False) = (ok, s1)" by (cases "spi_init 1 SPI_MODE0 SPI_FREQ_DIV_4M True SPI_LITTLE_ENDIAN False (sample_bus 0 False)")
  obtain ok2 s2 where s2: "spi_set_settings 1 (spi_get_settings 1 s1) s1 = (ok2, s2)" by (cases "spi_set_settings 1 (spi_get_settings 1 s1) s1")
  show ?thesis
    using divider_lost [OF _ s1 s2] settings_kept(1) [OF _ s1] settings_kept(1) [OF _ s2 [unfolded spi_set_settings_def]] s1 s2 by simp
qed

theorem dummy_phase_changes_witness:
  "\<exists>rx s'. spi_transfer sample_controller 1 (Some (replicate 64 7)) True 64 SPI_8BIT (sample_bus SPI_USER0_DUMMY True) = Some (64, rx, s')
    \<and> USER0 (SPI s' 1) AND SPI_USER0_MISO \<noteq> 0"
  by (rule dummy_phase_changes [OF sample_spi.spi_controller_axioms, of _ _ SPI_LITTLE_ENDIAN])
     (simp_all add: sample_bus_idle sample_bus_order spi_test spi_bit, simp_all add: sample_bus_def SPI_USER0_DUMMY_def)

theorem repeat_16_on_wire_witness:
  "\<exists>s' new. spi_repeat_send_16 sample_controller 1 0x12 (int 40) (sample_bus SPI_USER0_DUMMY True) = Some s' \<and> transactions (env s') = new
    \<and> concat (map (fst \<circ> snd) new) = concat (replicate 40 [0x12, 0])"
  using repeat_16_on_wire [OF sample_spi.spi_controller_axioms, of "sample_bus SPI_USER0_DUMMY True" 1 SPI_LITTLE_ENDIAN 40 "0x12"]
    sample_bus_idle sample_bus_order by (simp add: order_def) blast

theorem command_bits_in_order_witness:
  "bit (USER2 (SPI (spi_set_command 1 9 0x101 (sample_bus 0 False)) 1)) 7 \<and> field2val (USER2 (SPI (spi_set_command 1 9 0x101 (sample_bus 0 False)) 1)) 0xf 28 = 8"
  using command_bits_in_order [of 1 "sample_bus 0 False" 9 0 "0x101"] by (simp add: spi_get_msb_def sample_bus_def)

end
