(* ===== verification/Spec2Isabelle.thy ===== *)
theory Spec2Isabelle
  imports Sysparam Onewire_Crc Onewire_Search Dhcpserver_Leases Esp_timer Ets_timer_Run Timekeeping Ota_tftp_Transfer Http_ota_Safety Mdns_Answers I2c_Types Ds1307 Ds3231 Ds18b20_Sensors Softuart_Line Softuart_Ports Esp_spi_Master
begin

text \<open>
  A verification development for \<open>esp-open-rtos\<close>, the open FreeRTOS based runtime of the ESP8266
  (\<open>src/\<close>). It models the parts that carry logic of the repository's own: persistent storage, firmware
  update, timers and clocks, the SPI, 1-Wire and I2C buses with temperature sensors and two clock chips, the DHCP server and the
  multicast DNS responder.

  \<^bold>\<open>How the program is modelled.\<close> A C structure is a record, an enumeration a datatype, a function
  that changes state takes the state and returns it. Unsigned integers are natural numbers with
  the wrap-around written out (\<open>u32\<close>, \<open>u16\<close>, \<open>u32_sub\<close> of \<open>Prelude\<close>); bit fields and data bytes are
  words. Return codes are datatypes or options, every early return is a branch. A buffer that is
  not initialised, the result of an allocation, the answers of the network stack and the contents
  of headers that are not in the repository are arguments of the functions that use them. What the
  code expects of such an argument is a locale (\<open>rom_routines\<close>, \<open>rboot_header\<close>, \<open>onewire_bus\<close>,
  \<open>sensor_line\<close>, \<open>dns_numbers\<close>,
  \<open>i2c_target\<close>, \<open>sha256_routines\<close>, \<open>spi_controller\<close>, \<open>ticking\<close>, \<open>i2c_registers\<close>, \<open>uart_clock\<close>), which is interpreted on definitions of the development.

  \<^bold>\<open>Parts and theories.\<close>

  \<^item> \<open>Prelude\<close>: machine integers, little-endian encodings, byte memories.

  \<^item> \<open>Spiflash\<close> models \<open>src/core/spiflash.c\<close>: reading, page-wise writing and sector erasing through
    the SPI controller, over a NOR memory (\<open>nor_program\<close> clears bits, \<open>nor_erase\<close> sets them; a page
    program wraps inside its page). The locale \<open>flash_driver\<close> is the contract the rest of the system
    relies on; the driver is its interpretation \<open>spiflash\<close>.

  \<^item> \<open>Sysparam_Model\<close> models \<open>src/core/sysparam.c\<close>: the two regions, the log of key and value entries,
    search, iteration, compaction, initialisation and the typed accessors, with the state
    \<open>_sysparam_info\<close> and the flash as the record \<open>sysparam\<close>. \<open>Sysparam_Log\<close> describes the flash as a
    list of entries and shows that the searches walk it; \<open>Sysparam_Map\<close> abstracts the list to a map
    from keys to values; \<open>Sysparam_Write\<close>, \<open>Sysparam_Set\<close> and \<open>Sysparam_Compact\<close> show that the
    routines that change the flash are edits of the list, \<open>Sysparam_Area\<close> treats both regions and the
    headers; \<open>Sysparam\<close> states the refinement of the map by the store.

  \<^item> \<open>Sdk_flash\<close> models the flash functions of \<open>src/open_esplibs/libmain/spi_flash.c\<close> over the ROM
    routines; they agree with \<open>Spiflash\<close>.

  \<^item> \<open>Rboot\<close> models \<open>src/extras/rboot-ota/rboot-api.c\<close> and the RTC memory functions of
    \<open>src/open_esplibs/libmain/user_interface.c\<close>; \<open>Rboot_Config\<close> shows the effect of configuration
    changes, the stream writer and the RTC data; \<open>Rboot_Image\<close> writes down the image format and
    shows that the check decides it.

  \<^item> \<open>Ota_tftp\<close> models \<open>src/extras/rboot-ota/ota-tftp.c\<close> over a list of events from the network;
    \<open>Ota_tftp_Transfer\<close> shows that an update installs the image whatever packets are repeated or
    lost, composed of the flash functions, the image check and the configuration.

  \<^item> \<open>Http_client\<close> and \<open>Http_ota\<close> model \<open>src/extras/http_client_ota/\<close>: the buffered client over a list of segments from
    the socket, and the update. In \<open>Http_client_Stream\<close> the contract of a function that takes full buffers is the
    locale \<open>chunk_sink\<close>, under which a body arrives complete however it is cut, and \<open>full_buffer_keeps\<close> is what survives
    any server. \<open>Http_ota_Update\<close> shows that both callbacks keep the first one and that the update installs an image;
    \<open>Http_ota_Safety\<close> shows the second one, that no server can make the update write elsewhere, and where long files and a
    status of the server break it.

  \<^item> \<open>Onewire\<close> models \<open>src/extras/onewire/onewire.c\<close> over the operations of a pin. \<open>Onewire_Search\<close>
    has the bus as a locale, a bus with devices as its instance and the proof that the ROM
    search finds every device; \<open>Onewire_Crc\<close> relates the three checksum routines.

  \<^item> \<open>Ds18b20\<close> models \<open>src/extras/ds18b20/ds18b20.c\<close>; \<open>Ds18b20_Sensors\<close> has sensors that follow the
    protocol on the line and shows that the driver reads the temperature of each, and where its
    formulas are wrong.

  \<^item> \<open>Dhcpserver\<close> models \<open>src/extras/dhcpserver/dhcpserver.c\<close>: options, lease table, handlers and the
    task loop. \<open>Dhcpserver_Leases\<close> has the invariant of the loop and what clients can rely on.

  \<^item> \<open>Mdns\<close> models \<open>src/extras/mdnsresponder/mdnsresponder.c\<close>: the label codec, the record database and
    the reply to a message; \<open>Mdns_Answers\<close> shows that names survive the encoding, that questions and
    service discovery are answered, and what a hostile message can do.

  \<^item> \<open>Esp_spi\<close> models \<open>src/core/esp_spi.c\<close> and \<open>src/core/include/esp/spi.h\<close> over the registers of the controller, which
    is the parameter \<open>hw\<close> with the contract \<open>spi_controller\<close>. \<open>Esp_spi_Wire\<close> shows what one transaction puts on the wire,
    \<open>Esp_spi_Transfer\<close> that longer transfers are sequences of them, and \<open>Esp_spi_Master\<close> has a controller that keeps the contract,
    the settings and the clock.

  \<^item> \<open>I2c\<close> models \<open>src/extras/i2c/i2c.c\<close> over the GPIO registers. \<open>I2c_Bus\<close> has a slave on the two lines
    as the environment, shows that the transfers are transfers of bytes with it, and that they return
    in any environment in which time passes. \<open>I2c_Types\<close> shows what transfers leave alone. \<open>I2c_Device\<close> is the interface of a chip with registers.

  \<^item> \<open>Ds1307\<close> and \<open>Ds3231\<close> model \<open>src/extras/ds1307/ds1307.c\<close> and \<open>src/extras/ds3231/ds3231.c\<close> over that
    interface; their time survives the way to the chip and back, down to the bits on the bus.

  \<^item> \<open>Softuart\<close> models \<open>src/extras/softuart/softuart.c\<close>; \<open>Softuart_Buffer\<close> shows that its ring buffer is a
    bounded queue (\<open>bounded_fifo\<close>), also while the interrupt handler comes between the steps of a reader; \<open>Softuart_Line\<close> has time
    and jitter and shows that a byte crosses the line between two chips, except when the clock
    wraps; \<open>Softuart_Ports\<close> has the invariant of the table of ports.

  \<^item> \<open>Esp_timer\<close> models \<open>src/core/esp_timer.c\<close> and \<open>src/core/include/esp/timer.h\<close>: the count
    and divider arithmetic and the register fields.

  \<^item> \<open>Ets_timer\<close> models \<open>src/open_esplibs/libmain/ets_timer.c\<close>: the list of pending timers in a heap;
    \<open>Ets_timer_List\<close> abstracts the heap to a list ordered across the wrap of the tick counter; \<open>Ets_timer_Run\<close> has the
    run of the due timers, with repeating timers and callbacks that arm and disarm timers.

  \<^item> \<open>Timekeeping\<close> models \<open>src/extras/timekeeping/timekeeping.c\<close> with every read of the wrapping
    system clock as an argument.

  \<^bold>\<open>Loops and fuel.\<close> Loops over data are structural or have a measure. The searches of the parameter
  store follow lengths read from the flash; they have fuel \<open>region_size + 2\<close>, and since every step
  moves by at least the size of an entry header \<open>find_key_ends\<close> shows that this is enough for any
  contents of the flash. The 1-Wire CRC-16, the timer list, the loops over a 1-Wire search, the decoder of DNS names,
  the waits for the I2C clock and the SPI controller and the repeated sending on SPI may not end and are partial functions in the option monad, with theorems that say
  when they do (\<open>transfers_return\<close>) or do not (\<open>self_pointer_hangs\<close>). The server loops are
  functions of the events that arrive.

  \<^bold>\<open>What is not modelled.\<close> FreeRTOS, lwIP, mbedtls, FatFs, the HTTP server, the MQTT client and the
  fonts are third-party code or data. The remaining sensor and display drivers are register access
  over the buses and formulas from data sheets, and are the next to be added. Start-up, interrupts, the binary WiFi libraries and their
  recreated fragments only move data between registers. Locks and critical sections are left out:
  each public call is one step of its model, except where a lock is taken too late to matter
  (\<open>gettimeofday_wrap_race\<close>). Timing of the bus signals, debug output and memory exhaustion in
  places where the code does not look at it are left out. The buffers of lwIP that the code walks through itself
  are lists of segments, with \<open>netbuf_len\<close> and \<open>netbuf_copy_partial\<close> as documented. Sizes that no property
  lets grow to their limit are numbers without one: the count of leases (\<open>uint8_t\<close>), the 64 bit times of
  \<open>Timekeeping\<close> and the 16 bit record sizes of the mDNS database. The mDNS responder is the one without IPv6, which is
  the default of \<open>lwipopts.h\<close>, and the write enable of the flash chip is part of the chip in \<open>Spiflash\<close>.
\<close>

end
